(* ===== verification/Prelude.thy ===== *)
theory Prelude
  imports Complex_Main
begin

text \<open>
  Shared vocabulary of the development: the types the components have in common (monotonic
  time, browser and worker sockets), Python's ordered dictionaries as association lists,
  clamping, and the locales the stateful components instantiate: \<open>safe_system\<close>
  (an invariant kept by every step holds in every reachable state), \<open>exclusive_lease\<close>
  (a lease held by one party survives every event that is not its own until it expires) and
  \<open>single_use\<close> (what has been taken from a store once cannot be taken again).
\<close>

subsection \<open>Collections of facts\<close>

named_theorems clamp_simps \<open>facts about clamped integers\<close>
named_theorems frame_simps \<open>fields an operation leaves alone\<close>
named_theorems od_simps \<open>ordered dictionaries\<close>

subsection \<open>Time and clamping\<close>

text \<open>
  \<open>time.monotonic()\<close> and \<open>time.time()\<close> are floats. They are read by the code and never
  written, so every operation takes the reading as an argument; the arithmetic on it is exact
  here (\<open>real\<close>).
\<close>

type_synonym time = real

text \<open>Python's \<open>max(lo, min(x, hi))\<close>.\<close>

definition clamp :: "int \<Rightarrow> int \<Rightarrow> int \<Rightarrow> int" where
  "clamp lo hi x = max lo (min x hi)"

lemma clamp_ge [clamp_simps, simp]: "lo \<le> clamp lo hi x"
  by (simp add: clamp_def)

lemma clamp_le [clamp_simps]: "lo \<le> hi \<Longrightarrow> clamp lo hi x \<le> hi"
  by (simp add: clamp_def)

lemma clamp_id [clamp_simps]: "lo \<le> x \<Longrightarrow> x \<le> hi \<Longrightarrow> clamp lo hi x = x"
  by (simp add: clamp_def)

lemma clamp_real_pos [clamp_simps]: "0 < lo \<Longrightarrow> 0 < real_of_int (clamp lo hi x)"
  by (simp add: clamp_def)

subsection \<open>Insertion-ordered dictionaries\<close>

text \<open>
  A CPython \<open>dict\<close> remembers insertion order, and storing under a key that is present keeps
  its place. Where the code relies on that order the model is an association list with
  distinct keys; \<open>od_set\<close> is \<open>d[k] = v\<close> and \<open>od_pop\<close> is \<open>d.pop(k, None)\<close>.
\<close>

fun od_get :: "('k \<times> 'v) list \<Rightarrow> 'k \<Rightarrow> 'v option" where
  "od_get [] k = None"
| "od_get ((k', v) # d) k = (if k' = k then Some v else od_get d k)"

fun od_set :: "('k \<times> 'v) list \<Rightarrow> 'k \<Rightarrow> 'v \<Rightarrow> ('k \<times> 'v) list" where
  "od_set [] k v = [(k, v)]"
| "od_set ((k', v') # d) k v = (if k' = k then (k, v) # d else (k', v') # od_set d k v)"

fun od_pop :: "('k \<times> 'v) list \<Rightarrow> 'k \<Rightarrow> ('k \<times> 'v) list" where
  "od_pop [] k = []"
| "od_pop ((k', v) # d) k = (if k' = k then d else (k', v) # od_pop d k)"

abbreviation od_ok :: "('k \<times> 'v) list \<Rightarrow> bool" where
  "od_ok d \<equiv> distinct (map fst d)"

lemma od_get_None [od_simps]: "od_get d k = None \<longleftrightarrow> k \<notin> fst ` set d"
  by (induction d k rule: od_get.induct) simp_all

lemma od_get_set [od_simps, simp]: "od_get (od_set d k v) k' = (if k = k' then Some v else od_get d k')"
  by (induction d k v rule: od_set.induct) auto

lemma od_set_keys [od_simps, simp]: "fst ` set (od_set d k v) = insert k (fst ` set d)"
  by (induction d k v rule: od_set.induct) (simp_all add: insert_commute)

lemma od_set_set [od_simps]: "od_set (od_set d k v) k w = od_set d k w"
  by (induction d k v rule: od_set.induct) simp_all

lemma od_pop_sub: "set (od_pop d k) \<subseteq> set d"
  by (induction d k rule: od_pop.induct) auto

lemma od_pop_keys_sub: "fst ` set (od_pop d k) \<subseteq> fst ` set d"
  by (rule image_mono [OF od_pop_sub])

lemma od_pop_keys [od_simps]: "od_ok d \<Longrightarrow> fst ` set (od_pop d k) = fst ` set d - {k}"
proof (induction d k rule: od_pop.induct)
  case (2 k' v d k)
  then show ?case by (cases "k' = k") (simp_all add: insert_Diff_if)
qed simp

lemma od_ok_set [od_simps, intro]: "od_ok d \<Longrightarrow> od_ok (od_set d k v)"
  by (induction d k v rule: od_set.induct) auto

lemma od_ok_pop [od_simps, intro]: "od_ok d \<Longrightarrow> od_ok (od_pop d k)"
  by (induction d k rule: od_pop.induct) (simp_all add: od_pop_keys)

lemma od_get_pop [od_simps, simp]:
  "od_ok d \<Longrightarrow> od_get (od_pop d k) k' = (if k = k' then None else od_get d k')"
proof (induction d k rule: od_pop.induct)
  case (2 k1 v d k)
  then show ?case using od_get_None [of d k1] by (cases "k1 = k") auto
qed simp

lemma od_pop_absent: "k \<notin> fst ` set d \<Longrightarrow> od_pop d k = d"
  by (induction d k rule: od_pop.induct) auto

lemma od_pop_none: "od_get d k = None \<Longrightarrow> od_pop d k = d"
  by (induction d k rule: od_pop.induct) (auto split: if_splits)

lemma length_od_pop [od_simps]:
  "length (od_pop d k) = length d - (if k \<in> fst ` set d then 1 else 0)"
proof (induction d k rule: od_pop.induct)
  case (2 k' v d k)
  then show ?case by (cases d) auto
qed simp

lemma length_od_set: "length (od_set d k v) = length d + (if k \<in> fst ` set d then 0 else 1)"
  by (induction d k v rule: od_set.induct) auto

lemma length_od_pop_le: "length (od_pop d k) \<le> length d"
  by (simp add: length_od_pop)

lemma od_get_in: "od_get d k = Some v \<Longrightarrow> (k, v) \<in> set d"
  by (induction d k rule: od_get.induct) (auto split: if_splits)

lemma od_get_iff: "od_ok d \<Longrightarrow> od_get d k = Some v \<longleftrightarrow> (k, v) \<in> set d"
proof (induction d k rule: od_get.induct)
  case (2 k' v' d k)
  then show ?case by (auto simp: image_iff)
qed simp

text \<open>The loops that delete a computed list of keys.\<close>

lemma od_pops:
  "od_ok d \<Longrightarrow> od_ok (fold (\<lambda>t d. od_pop d t) ts d) \<and>
   od_get (fold (\<lambda>t d. od_pop d t) ts d) k = (if k \<in> set ts then None else od_get d k)"
  by (induction ts arbitrary: d) (auto simp: od_ok_pop)

lemma od_filter_pops:
  assumes "od_ok d"
  shows "od_ok (fold (\<lambda>k d. od_pop d k) (map fst (filter P d)) d) \<and>
    od_get (fold (\<lambda>k d. od_pop d k) (map fst (filter P d)) d) k =
      (case od_get d k of None \<Rightarrow> None | Some v \<Rightarrow> if P (k, v) then None else Some v)"
proof -
  have "k \<in> fst ` set (filter P d) \<longleftrightarrow> (\<exists>v. od_get d k = Some v \<and> P (k, v))"
    using od_get_iff [OF assms, of k] by force
  then show ?thesis using od_pops [OF assms] by (auto split: option.splits)
qed

subsection \<open>Reachable states\<close>

inductive reach :: "('s \<Rightarrow> bool) \<Rightarrow> ('s \<Rightarrow> 's \<Rightarrow> bool) \<Rightarrow> 's \<Rightarrow> bool"
  for init :: "'s \<Rightarrow> bool" and step :: "'s \<Rightarrow> 's \<Rightarrow> bool" where
  reach_init: "init s \<Longrightarrow> reach init step s"
| reach_step: "reach init step s \<Longrightarrow> step s t \<Longrightarrow> reach init step t"

text \<open>An inductive invariant holds in every reachable state.\<close>

locale safe_system =
  fixes init :: "'s \<Rightarrow> bool"
    and step :: "'s \<Rightarrow> 's \<Rightarrow> bool"
    and inv :: "'s \<Rightarrow> bool"
  assumes inv_init: "init s \<Longrightarrow> inv s"
    and inv_step: "inv s \<Longrightarrow> step s t \<Longrightarrow> inv t"
begin

lemma reach_inv: "reach init step s \<Longrightarrow> inv s"
  by (induction rule: reach.induct) (auto intro: inv_init inv_step)

lemma run_inv: "inv s \<Longrightarrow> step\<^sup>*\<^sup>* s t \<Longrightarrow> inv t"
  by (rotate_tac, induction rule: rtranclp_induct) (auto intro: inv_step)

end

subsection \<open>Exclusive leases\<close>

text \<open>
  The contract of a component that hands out one lease at a time: \<open>holder s t\<close> is who holds
  the lease at time \<open>t\<close>, and an event at time \<open>t\<close> that does not belong to the holder leaves
  who holds it, from \<open>t\<close> on, as it was. It follows for any run of such events, in time
  order, and at any later time: nobody else gets in before the holder's lease runs out.
\<close>

locale exclusive_lease =
  fixes apply_ev :: "'e \<Rightarrow> 's \<Rightarrow> 's"
    and ev_time :: "'e \<Rightarrow> time"
    and holder :: "'s \<Rightarrow> time \<Rightarrow> 'h option"
    and foreign :: "'s \<Rightarrow> 'h \<Rightarrow> 'e \<Rightarrow> bool"
  assumes holder_until: "holder s t = Some h \<Longrightarrow> u \<le> t \<Longrightarrow> holder s u = Some h"
    and foreign_keeps: "holder s (ev_time e) = Some h \<Longrightarrow> foreign s h e \<Longrightarrow> ev_time e \<le> t \<Longrightarrow>
      holder (apply_ev e s) t = holder s t"
begin

primrec foreign_run :: "'h \<Rightarrow> 's \<Rightarrow> 'e list \<Rightarrow> bool" where
  "foreign_run h s [] = True"
| "foreign_run h s (e # es) = (foreign s h e \<and> foreign_run h (apply_ev e s) es)"

lemma lease_survives:
  assumes "holder s t = Some h"
    and "\<And>e. e \<in> set es \<Longrightarrow> ev_time e \<le> t"
    and "foreign_run h s es"
  shows "holder (fold apply_ev es s) t = Some h"
  using assms
proof (induction es arbitrary: s)
  case Nil
  then show ?case by simp
next
  case (Cons e es)
  have le: "ev_time e \<le> t" using Cons.prems(2) by simp
  have h: "holder s (ev_time e) = Some h"
    using holder_until [OF Cons.prems(1) le] .
  have "holder (apply_ev e s) t = Some h"
    using foreign_keeps [OF h _ le] Cons.prems(1,3) by simp
  with Cons show ?case by simp
qed

end

subsection \<open>Authority that can be used once\<close>

text \<open>
  The contract of a store that hands out something that may be taken once: \<open>take a k s\<close> takes
  what is stored under \<open>k\<close>, with \<open>a\<close> the caller's arguments. In a well-formed store taking it
  spends \<open>k\<close>, what is spent cannot be taken, and no event that does not renew \<open>k\<close> brings
  it back.
\<close>

locale single_use =
  fixes take :: "'a \<Rightarrow> 'k \<Rightarrow> 's \<Rightarrow> 'r option \<times> 's"
    and step :: "'e \<Rightarrow> 's \<Rightarrow> 's"
    and spent :: "'k \<Rightarrow> 's \<Rightarrow> bool"
    and ok :: "'s \<Rightarrow> bool"
    and valid :: "'a \<Rightarrow> bool"
    and unrelated :: "'k \<Rightarrow> 'e \<Rightarrow> bool"
  assumes take_spends: "ok s \<Longrightarrow> valid a \<Longrightarrow> take a k s = (Some r, s') \<Longrightarrow> ok s' \<and> spent k s'"
    and spent_refuses: "spent k s \<Longrightarrow> fst (take a k s) = None"
    and spent_stays: "ok s \<Longrightarrow> spent k s \<Longrightarrow> unrelated k e \<Longrightarrow> ok (step e s) \<and> spent k (step e s)"
begin

lemma spent_run: "ok s \<Longrightarrow> spent k s \<Longrightarrow> list_all (unrelated k) es \<Longrightarrow> spent k (fold step es s)"
  by (induction es arbitrary: s) (simp_all add: spent_stays)

lemma taken_once:
  assumes "ok s" "valid a" "take a k s = (Some r, s')" "list_all (unrelated k) es"
  shows "fst (take b k (fold step es s')) = None"
  using take_spends [OF assms(1-3)] spent_run [OF _ _ assms(4)] spent_refuses by blast

end

end
