(* ===== verification/Coordinator.thy ===== *)
theory Coordinator
  imports Prelude
begin

text \<open>
  The single-session lease arbiter of \<open>provide/uterm/bridge/coordinator.py\<close>, shared by the
  server and the Cloudflare backend: \<open>HijackCoordinator\<close> holds at most one
  \<open>HijackSession\<close>, so its state is \<open>hijack_session option\<close>. Every operation takes the
  reading of the monotonic clock as its last argument, and \<open>acquire\<close> takes the identifier
  that \<open>uuid.uuid4\<close> would draw. An \<open>AcquireResult\<close> refers to the live session object; here
  it carries the session as it is when the call returns.
\<close>

subsection \<open>State and results\<close>

record hijack_session =
  hs_id :: string
  hs_owner :: string
  hs_expires :: time
  hs_acquired_at :: time
  hs_last_heartbeat :: time
  hs_acquired_by :: "string option"
  hs_last_served_event_seq :: int

record acquire_result =
  ar_ok :: bool
  ar_session :: "hijack_session option"
  ar_error :: "string option"
  ar_is_renewal :: bool

definition acq_fail :: "hijack_session option \<Rightarrow> string \<Rightarrow> acquire_result" where
  "acq_fail s e = \<lparr>ar_ok = False, ar_session = s, ar_error = Some e, ar_is_renewal = False\<rparr>"

definition acq_ok :: "hijack_session option \<Rightarrow> bool \<Rightarrow> acquire_result" where
  "acq_ok s r = \<lparr>ar_ok = True, ar_session = s, ar_error = None, ar_is_renewal = r\<rparr>"

lemma acq_simps [simp]:
  "ar_ok (acq_fail s e) = False" "ar_session (acq_fail s e) = s"
  "ar_error (acq_fail s e) = Some e" "ar_ok (acq_ok s r)" "ar_session (acq_ok s r) = s"
  "ar_error (acq_ok s r) = None" "ar_is_renewal (acq_ok s r) = r"
  by (simp_all add: acq_fail_def acq_ok_def)

type_synonym coordinator = "hijack_session option"

definition clamp_lease :: "int \<Rightarrow> int" where
  "clamp_lease lease_s = max 1 (min lease_s 3600)"

lemma clamp_lease_bounds: "1 \<le> clamp_lease l" "clamp_lease l \<le> 3600"
  by (simp_all add: clamp_lease_def)

lemma clamp_lease_pos [simp]: "0 < clamp_lease l"
  by (simp add: clamp_lease_def)

subsection \<open>Operations\<close>

definition active_session :: "coordinator \<Rightarrow> time \<Rightarrow> hijack_session option \<times> coordinator" where
  "active_session c now_ts =
     (case c of
        None \<Rightarrow> (None, c)
      | Some s \<Rightarrow> if hs_expires s \<le> now_ts then (None, None) else (Some s, c))"

definition session :: "coordinator \<Rightarrow> time \<Rightarrow> hijack_session option" where
  "session c now_ts =
     (case c of
        None \<Rightarrow> None
      | Some s \<Rightarrow> if hs_expires s \<le> now_ts then None else Some s)"

definition acquire :: "coordinator \<Rightarrow> string \<Rightarrow> int \<Rightarrow> string \<Rightarrow> time \<Rightarrow> acquire_result \<times> coordinator" where
  "acquire c own lease_s new_id now_ts =
     (let (active, c1) = active_session c now_ts in
      if (case active of Some s \<Rightarrow> hs_owner s \<noteq> own | None \<Rightarrow> False)
      then (acq_fail active ''already_hijacked'', c1)
      else
        let s = \<lparr>hs_id = new_id, hs_owner = own,
                 hs_expires = now_ts + real_of_int (clamp_lease lease_s),
                 hs_acquired_at = now_ts, hs_last_heartbeat = now_ts,
                 hs_acquired_by = None, hs_last_served_event_seq = 0\<rparr>
        in (acq_ok (Some s) (active \<noteq> None), Some s))"

definition heartbeat ::
  "coordinator \<Rightarrow> string \<Rightarrow> int \<Rightarrow> string option \<Rightarrow> time \<Rightarrow> acquire_result \<times> coordinator" where
  "heartbeat c hid lease_s own now_ts =
     (let (active, c1) = active_session c now_ts in
      case active of
        None \<Rightarrow> (acq_fail None ''not_hijacked'', c1)
      | Some s \<Rightarrow>
          if hs_id s \<noteq> hid then (acq_fail (Some s) ''hijack_id_mismatch'', c1)
          else if (case own of Some ow \<Rightarrow> hs_owner s \<noteq> ow | None \<Rightarrow> False)
          then (acq_fail (Some s) ''owner_mismatch'', c1)
          else
            let s' = s\<lparr>hs_expires := now_ts + real_of_int (clamp_lease lease_s),
                       hs_last_heartbeat := now_ts\<rparr>
            in (acq_ok (Some s') False, Some s'))"

definition release :: "coordinator \<Rightarrow> string \<Rightarrow> acquire_result \<times> coordinator" where
  "release c hid =
     (case c of
        None \<Rightarrow> (acq_fail None ''not_hijacked'', c)
      | Some s \<Rightarrow>
          if hs_id s \<noteq> hid then (acq_fail (Some s) ''hijack_id_mismatch'', c)
          else (acq_ok None False, None))"

definition can_send_input :: "coordinator \<Rightarrow> string option \<Rightarrow> time \<Rightarrow> bool" where
  "can_send_input c hid now_ts =
     (case session c now_ts of None \<Rightarrow> False | Some s \<Rightarrow> hid = Some (hs_id s))"

subsection \<open>The arbiter as an exclusive lease\<close>

datatype coord_event =
    EvAcquire (ce_owner: string) (ce_lease: int) (ce_new_id: string) (ce_time: time)
  | EvHeartbeat (ce_id: string) (ce_lease: int) (ce_owner_opt: "string option") (ce_time: time)
  | EvRelease (ce_id: string) (ce_time: time)

fun coord_apply :: "coord_event \<Rightarrow> coordinator \<Rightarrow> coordinator" where
  "coord_apply (EvAcquire ow l n t) c = snd (acquire c ow l n t)"
| "coord_apply (EvHeartbeat i l ow t) c = snd (heartbeat c i l ow t)"
| "coord_apply (EvRelease i t) c = snd (release c i)"

definition coord_holder :: "coordinator \<Rightarrow> time \<Rightarrow> hijack_session option" where
  "coord_holder c t = (case c of Some s \<Rightarrow> if t < hs_expires s then Some s else None | None \<Rightarrow> None)"

text \<open>An event that cannot be the holder's own: another owner, or an identifier it was never given.\<close>

fun coord_foreign :: "string \<Rightarrow> string \<Rightarrow> coord_event \<Rightarrow> bool" where
  "coord_foreign own hid (EvAcquire ow l n t) = (ow \<noteq> own)"
| "coord_foreign own hid (EvHeartbeat i l ow t) = (i \<noteq> hid \<or> (ow \<noteq> None \<and> ow \<noteq> Some own))"
| "coord_foreign own hid (EvRelease i t) = (i \<noteq> hid)"

lemmas coord_defs = active_session_def session_def acquire_def heartbeat_def release_def Let_def

lemma coord_holder_Some:
  "coord_holder c t = Some h \<longleftrightarrow> c = Some h \<and> t < hs_expires h"
  by (auto simp: coord_holder_def split: option.splits if_splits)

lemma session_holder: "session c t = coord_holder c t"
  by (auto simp: session_def coord_holder_def split: option.splits)

lemma coord_foreign_frame:
  assumes "coord_holder c (ce_time e) = Some h" and "coord_foreign (hs_owner h) (hs_id h) e"
  shows "coord_apply e c = c"
  using assms by (cases e) (auto simp: coord_holder_Some coord_defs split: option.splits)

interpretation coord: exclusive_lease coord_apply ce_time coord_holder
  "\<lambda>c h. coord_foreign (hs_owner h) (hs_id h)"
  by unfold_locales (auto simp: coord_foreign_frame coord_holder_Some)

lemma coord_foreign_run:
  "coord.foreign_run h c es \<longleftrightarrow> list_all (coord_foreign (hs_owner h) (hs_id h)) es"
  by (induction es arbitrary: c) simp_all

lemma coord_run_keeps:
  assumes "coord_holder c t = Some h" and "\<And>e. e \<in> set es \<Longrightarrow> ce_time e \<le> t"
    and "list_all (coord_foreign (hs_owner h) (hs_id h)) es"
  shows "coord_holder (fold coord_apply es c) t = Some h"
  using coord.lease_survives [OF assms(1,2)] assms(3) by (simp add: coord_foreign_run)

lemma acquire_ok_holder:
  assumes "acquire c ow l n t = (r, c')" and "ar_ok r" and "u < t + clamp_lease l"
  shows "\<exists>h. coord_holder c' u = Some h \<and> hs_owner h = ow \<and> hs_id h = n \<and> ar_session r = Some h"
  using assms
  by (auto simp: coord_defs coord_holder_Some split: option.splits if_splits prod.splits)

lemma acquire_busy:
  assumes "coord_holder c t = Some h" and "ow \<noteq> hs_owner h"
  shows "acquire c ow l n t = (acq_fail (Some h) ''already_hijacked'', c)"
  using assms by (auto simp: coord_defs coord_holder_Some)

lemma can_send_holder:
  "coord_holder c t = Some h \<Longrightarrow> can_send_input c hid t \<longleftrightarrow> hid = Some (hs_id h)"
  by (simp add: can_send_input_def session_holder)

lemma coord_apply_bound:
  assumes "coord_apply e c = Some s" and "c \<noteq> Some s"
  shows "ce_time e + 1 \<le> hs_expires s \<and> hs_expires s \<le> ce_time e + 3600"
  using assms clamp_lease_bounds
  by (cases e) (auto simp: coord_defs split: option.splits if_splits prod.splits)

subsection \<open>Properties\<close>

text \<open>Once an acquire has succeeded, no run of events by others (acquires under another
  owner name, heartbeats and releases that do not present the lease's identifier and owner)
  takes the lease away before it expires: a competing acquire is refused with
  \<open>already_hijacked\<close> and changes nothing, input is accepted under the lease's own identifier,
  and under no other.\<close>

theorem coordinator_excludes_others:
  assumes "acquire c0 own l n t0 = (r, c)" and "ar_ok r"
    and "list_all (coord_foreign own n) es" and "\<forall>e \<in> set es. ce_time e \<le> t"
    and "t < t0 + clamp_lease l" and "own' \<noteq> own"
  shows "acquire (fold coord_apply es c) own' l' n' t
           = (acq_fail (ar_session r) ''already_hijacked'', fold coord_apply es c) \<and>
         (\<forall>i. can_send_input (fold coord_apply es c) i t \<longleftrightarrow> i = Some n)"
proof -
  obtain h where h: "coord_holder c t = Some h" "hs_owner h = own" "hs_id h = n" "ar_session r = Some h"
    using acquire_ok_holder [OF assms(1,2,5)] by blast
  have "coord_holder (fold coord_apply es c) t = Some h"
    using coord_run_keeps [OF h(1)] assms(3,4) h(2,3) by blast
  with h assms(6) show ?thesis by (simp add: acquire_busy can_send_holder)
qed

theorem coordinator_excludes_others_witness:
  "acquire (fold coord_apply [EvRelease ''x'' 5, EvAcquire ''bob'' 60 ''h2'' 10] (snd (acquire None ''alice'' 30 ''h1'' 0)))
      ''bob'' 60 ''h3'' 20
     = (acq_fail (ar_session (fst (acquire None ''alice'' 30 ''h1'' 0))) ''already_hijacked'',
        fold coord_apply [EvRelease ''x'' 5, EvAcquire ''bob'' 60 ''h2'' 10] (snd (acquire None ''alice'' 30 ''h1'' 0)))"
proof -
  have ok: "ar_ok (fst (acquire None ''alice'' 30 ''h1'' 0))"
    by (simp add: coord_defs)
  show ?thesis
    using coordinator_excludes_others [OF prod.collapse [symmetric] ok, where t = 20 and own' = "''bob''"
        and es = "[EvRelease ''x'' 5, EvAcquire ''bob'' 60 ''h2'' 10]"]
    by (simp add: clamp_lease_def)
qed

text \<open>Every lease the arbiter ever holds was granted for at least one second and at most an
  hour from the acquire or heartbeat that set its expiry, whatever duration was asked for.\<close>

theorem coordinator_lease_bounded:
  assumes "fold coord_apply es None = Some s"
  shows "\<exists>e \<in> set es. ce_time e + 1 \<le> hs_expires s \<and> hs_expires s \<le> ce_time e + 3600"
  using assms
proof (induction es rule: rev_induct)
  case Nil
  then show ?case by simp
next
  case (snoc e es)
  show ?case
  proof (cases "fold coord_apply es None = Some s")
    case True
    with snoc.IH show ?thesis by auto
  next
    case False
    with snoc.prems coord_apply_bound [of e _ s] show ?thesis by auto
  qed
qed

theorem coordinator_lease_bounded_witness:
  "\<exists>e \<in> set [EvAcquire ''a'' 99999 ''h'' 7]. ce_time e + 1 \<le> 3607 \<and> 3607 \<le> ce_time e + 3600"
proof -
  have h: "fold coord_apply [EvAcquire ''a'' 99999 ''h'' 7] None
      = Some \<lparr>hs_id = ''h'', hs_owner = ''a'', hs_expires = 3607, hs_acquired_at = 7,
              hs_last_heartbeat = 7, hs_acquired_by = None, hs_last_served_event_seq = 0\<rparr>"
    by (simp add: coord_defs clamp_lease_def)
  show ?thesis using coordinator_lease_bounded [OF h] by simp
qed

text \<open>Renewing fences the previous identifier: when the owner of a live lease acquires again
  under a fresh identifier, the call is reported as a renewal, and from then on a heartbeat, a
  release or input under the old identifier is refused and leaves the new lease alone.\<close>

theorem coordinator_renewal_fences:
  assumes "coord_holder c t = Some h" and "n \<noteq> hs_id h" and "acquire c (hs_owner h) l n t = (r, c')"
  shows "ar_ok r \<and> ar_is_renewal r \<and> \<not> can_send_input c' (Some (hs_id h)) u \<and>
         \<not> ar_ok (fst (heartbeat c' (hs_id h) l' own u)) \<and>
         (u < t + clamp_lease l \<longrightarrow> snd (heartbeat c' (hs_id h) l' own u) = c') \<and>
         release c' (hs_id h) = (acq_fail c' ''hijack_id_mismatch'', c')"
  using assms
  by (auto simp: coord_defs can_send_input_def coord_holder_Some split: option.splits if_splits)

theorem coordinator_renewal_fences_witness:
  "ar_is_renewal (fst (acquire (snd (acquire None ''a'' 30 ''h1'' 0)) ''a'' 30 ''h2'' 10)) \<and>
   \<not> can_send_input (snd (acquire (snd (acquire None ''a'' 30 ''h1'' 0)) ''a'' 30 ''h2'' 10)) (Some ''h1'') 12"
proof -
  obtain h where h: "coord_holder (snd (acquire None ''a'' 30 ''h1'' 0)) 10 = Some h" "hs_owner h = ''a''" "hs_id h = ''h1''"
    by (simp add: coord_defs coord_holder_def clamp_lease_def)
  show ?thesis
    using coordinator_renewal_fences [OF h(1) _ prod.collapse [symmetric], of "''h2''" 30 12] h(2,3) by simp
qed

end
