(* ===== verification/Utf8.thy ===== *)
theory Utf8
  imports Prelude
begin

text \<open>
  Python's text and bytes as the framing code uses them: \<open>str\<close> is a list of code points,
  \<open>bytes\<close> a list of numbers below 256 (indexing \<open>bytes\<close> gives an int), \<open>str.encode\<close> and the
  strict \<open>bytes.decode\<close> of UTF-8. \<open>utf8_decode\<close> accepts exactly the encodings of strings
  without surrogates (\<open>utf8_decode_iff\<close>), and an ASCII byte in an encoding is a character of
  its own (\<open>utf8_encode_ascii_split\<close>), which is what lets the decoder cut a buffer at a DLE.
\<close>

type_synonym cp = nat
type_synonym pystr = "cp list"
type_synonym byte = nat

definition scalar :: "cp \<Rightarrow> bool" where
  "scalar c \<longleftrightarrow> c < 0xD800 \<or> (0xE000 \<le> c \<and> c < 0x110000)"

definition utf8_char :: "cp \<Rightarrow> byte list" where
  "utf8_char c =
     (if c < 0x80 then [c]
      else if c < 0x800 then [0xC0 + c div 64, 0x80 + c mod 64]
      else if c < 0x10000 then [0xE0 + c div 4096, 0x80 + c div 64 mod 64, 0x80 + c mod 64]
      else [0xF0 + c div 262144, 0x80 + c div 4096 mod 64, 0x80 + c div 64 mod 64, 0x80 + c mod 64])"

definition utf8_bytes :: "pystr \<Rightarrow> byte list" where
  "utf8_bytes s = concat (map utf8_char s)"

text \<open>\<open>s.encode("utf-8")\<close>, \<open>None\<close> for the \<open>UnicodeEncodeError\<close> of a lone surrogate.\<close>

definition utf8_encode :: "pystr \<Rightarrow> byte list option" where
  "utf8_encode s = (if list_all scalar s then Some (utf8_bytes s) else None)"

definition cont :: "byte \<Rightarrow> bool" where
  "cont b \<longleftrightarrow> 0x80 \<le> b \<and> b < 0xC0"

fun utf8_next :: "byte list \<Rightarrow> (cp \<times> byte list) option" where
  "utf8_next [] = None"
| "utf8_next (b # bs) =
     (if b < 0x80 then Some (b, bs)
      else if 0xC2 \<le> b \<and> b < 0xE0 then
        (case bs of
           b1 # r \<Rightarrow> if cont b1 then Some ((b - 0xC0) * 64 + (b1 - 0x80), r) else None
         | _ \<Rightarrow> None)
      else if 0xE0 \<le> b \<and> b < 0xF0 then
        (case bs of
           b1 # b2 # r \<Rightarrow>
             (let c = (b - 0xE0) * 4096 + (b1 - 0x80) * 64 + (b2 - 0x80) in
              if cont b1 \<and> cont b2 \<and> 0x800 \<le> c \<and> scalar c then Some (c, r) else None)
         | _ \<Rightarrow> None)
      else if 0xF0 \<le> b \<and> b < 0xF5 then
        (case bs of
           b1 # b2 # b3 # r \<Rightarrow>
             (let c = (b - 0xF0) * 262144 + (b1 - 0x80) * 4096 + (b2 - 0x80) * 64 + (b3 - 0x80) in
              if cont b1 \<and> cont b2 \<and> cont b3 \<and> 0x10000 \<le> c \<and> scalar c then Some (c, r) else None)
         | _ \<Rightarrow> None)
      else None)"

lemma utf8_next_shorter: "utf8_next bs = Some (c, r) \<Longrightarrow> length r < length bs"
  by (cases bs) (auto split: if_splits list.splits simp: Let_def)

function utf8_decode :: "byte list \<Rightarrow> pystr option" where
  "utf8_decode bs =
     (if bs = [] then Some []
      else case utf8_next bs of
             None \<Rightarrow> None
           | Some (c, r) \<Rightarrow> map_option ((#) c) (utf8_decode r))"
  by pat_completeness auto
termination
  by (relation "measure length") (auto dest: utf8_next_shorter)

declare utf8_decode.simps [simp del]

subsection \<open>Characters\<close>

lemma utf8_char_nonempty [simp]: "utf8_char c \<noteq> []" "length (utf8_char c) > 0"
  by (simp_all add: utf8_char_def)

lemma utf8_char_ascii: "c < 0x80 \<Longrightarrow> utf8_char c = [c]"
  by (simp add: utf8_char_def)

lemma utf8_char_multi: "\<not> c < 0x80 \<Longrightarrow> b \<in> set (utf8_char c) \<Longrightarrow> \<not> b < 0x80"
  by (auto simp: utf8_char_def split: if_splits)

lemma utf8_char_len: "length (utf8_char c) \<le> 4"
  by (simp add: utf8_char_def)

lemma mod_64_digit: "z < 64 \<Longrightarrow> (a * 64 + z) mod 64 = (z::nat)"
  by simp

lemma base64_split2: "(c::nat) div 4096 * 4096 + c div 64 mod 64 * 64 + c mod 64 = c"
proof -
  have "c div 4096 = c div 64 div 64" using div_mult2_eq [of c 64 64] by simp
  then show ?thesis using div_mult_mod_eq [of c 64] div_mult_mod_eq [of "c div 64" 64] by linarith
qed

lemma base64_split3:
  "(c::nat) div 262144 * 262144 + c div 4096 mod 64 * 4096 + c div 64 mod 64 * 64 + c mod 64 = c"
proof -
  have "c div 262144 = c div 4096 div 64" using div_mult2_eq [of c 4096 64] by simp
  then show ?thesis using base64_split2 [of c] div_mult_mod_eq [of "c div 4096" 64] by linarith
qed

lemma utf8_next_char: "scalar c \<Longrightarrow> utf8_next (utf8_char c @ r) = Some (c, r)"
proof -
  assume sc: "scalar c"
  consider "c < 0x80" | "0x80 \<le> c" "c < 0x800" | "0x800 \<le> c" "c < 0x10000" | "0x10000 \<le> c" "c < 0x110000"
    using sc by (force simp: scalar_def)
  then show ?thesis
  proof cases
    case 1
    then show ?thesis by (simp add: utf8_char_def)
  next
    case 2
    then have "2 \<le> c div 64" "c div 64 < 32" by simp_all
    with 2 show ?thesis by (simp add: utf8_char_def cont_def)
  next
    case 3
    then have "c div 4096 < 16" by simp
    then show ?thesis using 3 sc base64_split2 [of c] by (simp add: utf8_char_def cont_def)
  next
    case 4
    have d: "c div 262144 < 5" using 4 by simp
    have ch: "utf8_char c = [0xF0 + c div 262144, 0x80 + c div 4096 mod 64, 0x80 + c div 64 mod 64, 0x80 + c mod 64]"
      using 4(1) by (simp add: utf8_char_def)
    show ?thesis using d sc base64_split3 [of c] 4(1) unfolding ch by (simp add: cont_def)
  qed
qed

lemma utf8_next_sound:
  assumes "utf8_next bs = Some (c, r)"
  shows "scalar c \<and> bs = utf8_char c @ r"
proof -
  obtain b bs' where bs: "bs = b # bs'" using assms by (cases bs) auto
  consider "b < 0x80" | "0xC2 \<le> b" "b < 0xE0" | "0xE0 \<le> b" "b < 0xF0" | "0xF0 \<le> b" "b < 0xF5"
    using assms bs by (force split: if_splits)
  then show ?thesis
  proof cases
    case 1
    then show ?thesis using assms bs by (simp add: utf8_char_def scalar_def)
  next
    case 2
    then obtain b1 where b1: "bs' = b1 # r" "cont b1" "c = (b - 0xC0) * 64 + (b1 - 0x80)"
      using assms bs by (auto split: list.splits if_splits)
    define x y where "x = b - 0xC0" and "y = b1 - 0x80"
    have xy: "b = 0xC0 + x" "b1 = 0x80 + y" "2 \<le> x" "x < 32" "y < 64"
      using 2 b1(2) by (auto simp: x_def y_def cont_def)
    then have "c div 64 = x" "c mod 64 = y" "0x80 \<le> c" "c < 0x800"
      using b1(3) by simp_all
    then show ?thesis using bs b1(1) xy by (simp add: utf8_char_def scalar_def)
  next
    case 3
    then obtain b1 b2 where b1: "bs' = b1 # b2 # r" "cont b1" "cont b2" "0x800 \<le> c" "scalar c"
        "c = (b - 0xE0) * 4096 + (b1 - 0x80) * 64 + (b2 - 0x80)"
      using assms bs by (auto split: list.splits if_splits simp: Let_def)
    define x y z where "x = b - 0xE0" and "y = b1 - 0x80" and "z = b2 - 0x80"
    have xy: "b = 0xE0 + x" "b1 = 0x80 + y" "b2 = 0x80 + z" "x < 16" "y < 64" "z < 64"
      using 3 b1(2,3) by (auto simp: x_def y_def z_def cont_def)
    have c: "c = x * 4096 + y * 64 + z" using b1(6) xy by simp
    have c': "c = (x * 64 + y) * 64 + z" using c by simp
    have "c mod 64 = z" unfolding c' using xy(6) by (rule mod_64_digit)
    moreover have "c div 4096 = x" "c < 0x10000" using c xy by simp_all
    moreover have "c div 64 mod 64 = y"
    proof -
      have "c div 64 = x * 64 + y" using c xy by simp
      then show ?thesis using xy by simp
    qed
    ultimately show ?thesis using bs b1 xy by (simp add: utf8_char_def)
  next
    case 4
    then obtain b1 b2 b3 where b1: "bs' = b1 # b2 # b3 # r" "cont b1" "cont b2" "cont b3" "0x10000 \<le> c" "scalar c"
        "c = (b - 0xF0) * 262144 + (b1 - 0x80) * 4096 + (b2 - 0x80) * 64 + (b3 - 0x80)"
      using assms bs by (auto split: list.splits if_splits simp: Let_def)
    define x y z w where "x = b - 0xF0" and "y = b1 - 0x80" and "z = b2 - 0x80" and "w = b3 - 0x80"
    have xy: "b = 0xF0 + x" "b1 = 0x80 + y" "b2 = 0x80 + z" "b3 = 0x80 + w" "x < 5" "y < 64" "z < 64" "w < 64"
      using 4 b1(2-4) by (auto simp: x_def y_def z_def w_def cont_def)
    have c: "c = x * 262144 + y * 4096 + z * 64 + w" using b1(7) xy by simp
    have c': "c = ((x * 64 + y) * 64 + z) * 64 + w" using c by simp
    have "c mod 64 = w" unfolding c' using xy(8) by (rule mod_64_digit)
    moreover have "c div 262144 = x" using c xy by simp
    moreover have "c div 4096 mod 64 = y"
    proof -
      have "c div 4096 = x * 64 + y" using c xy by simp
      then show ?thesis using xy by simp
    qed
    moreover have "c div 64 mod 64 = z"
    proof -
      have "c div 64 = (x * 64 + y) * 64 + z" unfolding c' using xy(8) by simp
      then show ?thesis by (simp only: mod_64_digit [OF xy(7)])
    qed
    ultimately have "utf8_char c = [b, b1, b2, b3]"
      using b1(5) unfolding utf8_char_def xy by simp
    then show ?thesis using bs b1(1,6) by simp
  qed
qed

subsection \<open>Strings\<close>

lemma utf8_bytes_simps [simp]:
  "utf8_bytes [] = []" "utf8_bytes (c # s) = utf8_char c @ utf8_bytes s"
  "utf8_bytes (s @ t) = utf8_bytes s @ utf8_bytes t"
  by (simp_all add: utf8_bytes_def)

lemma utf8_bytes_Nil_iff [simp]: "utf8_bytes s = [] \<longleftrightarrow> s = []"
  by (cases s) simp_all

lemma utf8_decode_Nil [simp]: "utf8_decode [] = Some []"
  by (simp add: utf8_decode.simps)

lemma utf8_decode_append:
  "list_all scalar s \<Longrightarrow> utf8_decode (utf8_bytes s @ r) = map_option ((@) s) (utf8_decode r)"
proof (induction s)
  case Nil
  then show ?case by (simp add: option.map_ident)
next
  case (Cons c s)
  then show ?case
    by (subst utf8_decode.simps, cases "utf8_decode r") (simp_all add: utf8_next_char)
qed

lemma utf8_decode_bytes: "list_all scalar s \<Longrightarrow> utf8_decode (utf8_bytes s) = Some s"
  using utf8_decode_append [of s "[]"] by simp

lemma utf8_decode_sound: "utf8_decode bs = Some s \<Longrightarrow> list_all scalar s \<and> bs = utf8_bytes s"
proof (induction bs arbitrary: s rule: utf8_decode.induct)
  case (1 bs)
  show ?case
  proof (cases "bs = []")
    case True
    with "1.prems" show ?thesis by (simp add: utf8_decode.simps)
  next
    case False
    with "1.prems" obtain c r t where n: "utf8_next bs = Some (c, r)" and t: "utf8_decode r = Some t" "s = c # t"
      by (subst (asm) utf8_decode.simps) (auto split: option.splits)
    with "1.IH" [OF False n refl t(1)] utf8_next_sound [OF n] show ?thesis by simp
  qed
qed

lemma utf8_decode_iff: "utf8_decode bs = Some s \<longleftrightarrow> utf8_encode s = Some bs"
  using utf8_decode_sound [of bs s] utf8_decode_bytes [of s] by (auto simp: utf8_encode_def)

text \<open>The byte strings that are encodings.\<close>

definition utf8_ok :: "byte list \<Rightarrow> bool" where
  "utf8_ok bs \<longleftrightarrow> utf8_decode bs \<noteq> None"

lemma utf8_ok_iff: "utf8_ok bs \<longleftrightarrow> (\<exists>s. list_all scalar s \<and> bs = utf8_bytes s)"
  using utf8_decode_sound [of bs] utf8_decode_bytes by (force simp: utf8_ok_def)

lemma utf8_ok_Nil [simp]: "utf8_ok []"
  by (simp add: utf8_ok_def)

lemma utf8_ok_append: "utf8_ok a \<Longrightarrow> utf8_ok (a @ b) \<longleftrightarrow> utf8_ok b"
proof -
  assume "utf8_ok a"
  then obtain s where "list_all scalar s" "a = utf8_bytes s" by (auto simp: utf8_ok_iff)
  then show ?thesis by (simp add: utf8_ok_def utf8_decode_append)
qed

lemma utf8_ok_ascii: "c < 0x80 \<Longrightarrow> utf8_ok (c # b) \<longleftrightarrow> utf8_ok b"
proof -
  assume "c < 0x80"
  then have "utf8_ok [c]" by (auto simp: utf8_ok_iff utf8_char_ascii scalar_def intro!: exI [of _ "[c]"])
  then show ?thesis using utf8_ok_append [of "[c]" b] by simp
qed

lemma utf8_encode_ascii_split:
  assumes "utf8_bytes s = a @ b # r" and "b < 0x80"
  shows "\<exists>s1 s2. s = s1 @ b # s2 \<and> a = utf8_bytes s1 \<and> r = utf8_bytes s2"
  using assms
proof (induction s arbitrary: a)
  case Nil
  then show ?case by simp
next
  case (Cons c s)
  show ?case
  proof (cases a)
    case Nil
    with Cons.prems have "c < 0x80" using utf8_char_multi [of c b] by (cases "utf8_char c") auto
    with Cons.prems Nil show ?thesis
      by (intro exI [of _ "[]"] exI [of _ s]) (simp add: utf8_char_ascii)
  next
    case (Cons x a')
    note a = this
    have "\<exists>a''. a = utf8_char c @ a'' \<and> utf8_bytes s = a'' @ b # r"
    proof -
      from Cons.prems have eq: "utf8_char c @ utf8_bytes s = a @ b # r" by simp
      then consider u where "utf8_char c = a @ u" "u @ utf8_bytes s = b # r" | u where "utf8_char c @ u = a" "utf8_bytes s = u @ b # r"
        by (auto simp: append_eq_append_conv2)
      then show ?thesis
      proof cases
        case (1 u)
        show ?thesis
        proof (cases u)
          case Nil
          with 1 show ?thesis by auto
        next
          case (Cons y u')
          with 1 have "y = b" "utf8_char c = a @ b # u'" by auto
          then have "b \<in> set (utf8_char c)" "length (utf8_char c) > 1" using a by simp_all
          with assms(2) utf8_char_multi [of c b] utf8_char_ascii [of c] show ?thesis by (cases "c < 0x80") auto
        qed
      qed auto
    qed
    then obtain a'' where a'': "a = utf8_char c @ a''" "utf8_bytes s = a'' @ b # r" by blast
    from Cons.IH [OF a''(2) assms(2)] obtain s1 s2 where "s = s1 @ b # s2" "a'' = utf8_bytes s1" "r = utf8_bytes s2"
      by blast
    with a'' show ?thesis by (intro exI [of _ "c # s1"] exI [of _ s2]) simp
  qed
qed

text \<open>A valid buffer cut before an ASCII byte gives two valid buffers.\<close>

lemma utf8_ok_cut:
  assumes "utf8_ok (a @ b # r)" and "b < 0x80"
  shows "utf8_ok a" and "utf8_ok (b # r)"
proof -
  obtain s where s: "list_all scalar s" "utf8_bytes s = a @ b # r" using assms(1) by (auto simp: utf8_ok_iff)
  with utf8_encode_ascii_split [OF s(2) assms(2)] obtain s1 s2 where
    "s = s1 @ b # s2" "a = utf8_bytes s1" "r = utf8_bytes s2" by blast
  with s have "utf8_ok a" and "utf8_ok r" by (auto simp: utf8_ok_iff)
  then show "utf8_ok a" and "utf8_ok (b # r)" by (simp_all add: utf8_ok_ascii [OF assms(2)])
qed

subsection \<open>Stripping white space\<close>

text \<open>The characters \<open>str.strip\<close> removes.\<close>

definition py_space :: "cp \<Rightarrow> bool" where
  "py_space c \<longleftrightarrow>
     9 \<le> c \<and> c \<le> 13 \<or> 28 \<le> c \<and> c \<le> 32 \<or> c = 133 \<or> c = 160 \<or> c = 5760 \<or>
     8192 \<le> c \<and> c \<le> 8202 \<or> c = 8232 \<or> c = 8233 \<or> c = 8239 \<or> c = 8287 \<or> c = 12288"

definition py_strip :: "pystr \<Rightarrow> pystr" where
  "py_strip s = rev (dropWhile py_space (rev (dropWhile py_space s)))"

text \<open>Stripping the characters of a set off both ends, once or twice.\<close>

lemma strip_idem:
  fixes P :: "'a \<Rightarrow> bool" and s :: "'a list"
  defines "t \<equiv> rev (dropWhile P (rev (dropWhile P s)))"
  shows "rev (dropWhile P (rev (dropWhile P t))) = t"
proof -
  have d: "dropWhile P (dropWhile P u) = dropWhile P u" for u :: "'a list" by (rule dropWhile_idem)
  have "dropWhile P t = t"
  proof (cases t)
    case (Cons c cs)
    let ?d = "dropWhile P s"
    have e: "?d = t @ rev (takeWhile P (rev ?d))" unfolding t_def by (simp flip: rev_append)
    then have "?d \<noteq> []" "hd ?d = c"
      using Cons by (metis append_is_Nil_conv list.distinct(1), metis append_Cons list.sel(1))
    then have "\<not> P c" using hd_dropWhile by metis
    then show ?thesis using Cons by simp
  qed simp
  then show ?thesis by (simp add: t_def d)
qed

lemma strip_strip: "py_strip (py_strip s) = py_strip s"
  unfolding py_strip_def by (rule strip_idem)

text \<open>A literal of the source.\<close>

definition pystr_of :: "string \<Rightarrow> pystr" where
  "pystr_of s = map of_char s"

text \<open>\<open>str.lower\<close> on latin-1 text.\<close>

definition latin_lower :: "pystr \<Rightarrow> pystr" where
  "latin_lower = map (\<lambda>c. if 65 \<le> c \<and> c \<le> 90 \<or> 192 \<le> c \<and> c \<le> 222 \<and> c \<noteq> 215 then c + 32 else c)"

end
