(* ===== verification/Json.thy ===== *)
theory Json
  imports Utf8
begin

text \<open>
  The values \<open>json.loads\<close> returns, and the nesting check of
  \<open>provide/uterm/control_channel.py\<close> (\<open>_check_json_depth\<close>). Which codec is installed
  (\<open>orjson\<close>, \<open>ujson\<close> or the standard library's) is decided at import time, so the codec itself
  is a pair of parameters of the definitions that use it.
\<close>

datatype json =
    JNull
  | JBool bool
  | JInt int
  | JFloat real
  | JStr pystr
  | JArr "json list"
  | JObj "(pystr \<times> json) list"

type_synonym jdict = "(pystr \<times> json) list"
type_synonym json_dumps = "jdict \<Rightarrow> pystr"
type_synonym json_loads = "pystr \<Rightarrow> json option"

fun is_container :: "json \<Rightarrow> bool" where
  "is_container (JArr _) = True"
| "is_container (JObj _) = True"
| "is_container _ = False"

fun json_children :: "json \<Rightarrow> json list" where
  "json_children (JArr xs) = xs"
| "json_children (JObj kvs) = map snd kvs"
| "json_children _ = []"

subsection \<open>The iterative depth check\<close>

lemma size_children: "sum_list (map (\<lambda>c. Suc (size c)) (json_children v)) \<le> size v"
proof (cases v)
  case (JArr xs)
  have "sum_list (map (\<lambda>c. Suc (size c)) xs) = size_list size xs" by (induction xs) auto
  with JArr show ?thesis by simp
next
  case (JObj kvs)
  have "sum_list (map (\<lambda>p. Suc (size (snd p))) kvs) \<le> size_list (size_prod (\<lambda>_. 0) size) kvs"
    by (induction kvs) auto
  with JObj show ?thesis by (simp add: comp_def)
qed auto

text \<open>
  The stack of the Python list, top first: a node's container children are appended in order,
  so the last one is on top. \<open>False\<close> is the raised \<open>ControlFrameProtocolError\<close>.
\<close>

definition push_children :: "json \<Rightarrow> nat \<Rightarrow> (json \<times> nat) list \<Rightarrow> (json \<times> nat) list" where
  "push_children node depth st =
     rev (map (\<lambda>c. (c, depth + 1)) (filter is_container (json_children node))) @ st"

lemma sum_list_filter_le: "sum_list (map f (filter P xs)) \<le> (sum_list (map f xs) :: nat)"
  by (induction xs) auto

function depth_loop :: "nat \<Rightarrow> (json \<times> nat) list \<Rightarrow> bool" where
  "depth_loop max_depth [] = True"
| "depth_loop max_depth ((node, depth) # st) =
     (if depth > max_depth then False else depth_loop max_depth (push_children node depth st))"
  by pat_completeness auto
termination
proof (relation "measure (\<lambda>(m, st). sum_list (map (\<lambda>(v, d). Suc (size v)) st))")
  fix m depth :: nat and node st
  have "sum_list (map (\<lambda>c. Suc (size c)) (filter is_container (json_children node))) \<le> size node"
    using sum_list_filter_le [of "\<lambda>c. Suc (size c)" is_container "json_children node"] size_children [of node]
    by linarith
  then show "((m, push_children node depth st), m, (node, depth) # st)
      \<in> measure (\<lambda>(m, st). sum_list (map (\<lambda>(v, d). Suc (size v)) st))"
    by (simp add: push_children_def rev_map [symmetric] sum_list_rev comp_def)
qed simp

definition check_json_depth :: "json \<Rightarrow> nat \<Rightarrow> bool" where
  "check_json_depth v max_depth = depth_loop max_depth [(v, 1)]"

subsection \<open>What it computes\<close>

text \<open>Container nesting, by recursion on the value: leaves 0, a list or object one more than its
  deepest element.\<close>

fun json_depth :: "json \<Rightarrow> nat" where
  "json_depth (JArr xs) = Suc (fold max (map json_depth xs) 0)"
| "json_depth (JObj kvs) = Suc (fold max (map (\<lambda>(k, v). json_depth v) kvs) 0)"
| "json_depth _ = 0"

lemma fold_max_le: "fold max xs a \<le> (n :: nat) \<longleftrightarrow> a \<le> n \<and> (\<forall>x \<in> set xs. x \<le> n)"
  by (induction xs arbitrary: a) auto

lemma json_depth_leaf: "\<not> is_container v \<Longrightarrow> json_depth v = 0"
  by (cases v) auto

lemma json_depth_le:
  "is_container v \<Longrightarrow> json_depth v \<le> Suc n \<longleftrightarrow> (\<forall>c \<in> set (json_children v). json_depth c \<le> n)"
  by (cases v) (auto simp: fold_max_le split_beta)

lemma json_depth_container: "is_container v \<Longrightarrow> 0 < json_depth v"
  by (cases v) auto

lemma ball_push_children:
  "(\<forall>x \<in> set (push_children v d st). P x) \<longleftrightarrow>
   (\<forall>c \<in> set (json_children v). is_container c \<longrightarrow> P (c, d + 1)) \<and> (\<forall>x \<in> set st. P x)"
  by (auto simp: push_children_def)

lemma depth_step:
  assumes "\<not> m < depth"
  shows "(\<forall>c \<in> set (json_children v). is_container c \<longrightarrow> depth + 1 \<le> m \<and> json_depth c + (depth + 1) \<le> Suc m)
    \<longleftrightarrow> json_depth v + depth \<le> Suc m"
proof (cases "is_container v")
  case True
  have "depth + 1 \<le> m \<and> json_depth c + (depth + 1) \<le> Suc m \<longleftrightarrow> json_depth c \<le> m - depth"
    if "is_container c" for c
    using json_depth_container [OF that] assms by linarith
  moreover have "json_depth v + depth \<le> Suc m \<longleftrightarrow> json_depth v \<le> Suc (m - depth)"
    using assms by linarith
  ultimately show ?thesis
    using json_depth_leaf by (auto simp: json_depth_le [OF True])
next
  case False
  then show ?thesis using assms by (cases v) auto
qed

lemma depth_loop_iff:
  "depth_loop m st \<longleftrightarrow> (\<forall>(v, d) \<in> set st. d \<le> m \<and> json_depth v + d \<le> Suc m)"
proof (induction m st rule: depth_loop.induct)
  case (1 m)
  then show ?case by simp
next
  case (2 m node depth st)
  show ?case
  proof (cases "depth > m")
    case False
    then have "(\<forall>c \<in> set (json_children node). is_container c \<longrightarrow> depth + 1 \<le> m \<and> json_depth c + (depth + 1) \<le> Suc m)
        \<longleftrightarrow> json_depth node + depth \<le> Suc m"
      by (rule depth_step)
    with 2 False show ?thesis by (simp add: ball_push_children)
  qed auto
qed

text \<open>The iterative nesting check accepts a value exactly when its recursive nesting depth is
  within the bound (a bound of at least one, which the decoder's constructor enforces), and it
  always terminates: it is a total function of any value.\<close>

theorem check_json_depth_iff:
  assumes "1 \<le> max_depth"
  shows "check_json_depth v max_depth \<longleftrightarrow> json_depth v \<le> max_depth"
  using assms by (auto simp: check_json_depth_def depth_loop_iff)

theorem check_json_depth_iff_witness:
  "(1::nat) \<le> 1 \<and> \<not> check_json_depth (JObj [([97], JArr [])]) 1"
  using check_json_depth_iff [of 1 "JObj [([97], JArr [])]"] by simp

end
