(* ===== verification/HubState.thy ===== *)
theory HubState
  imports Coordinator Json
begin

text \<open>
  The state the hub keeps per worker (\<open>server/bridge/models.py\<close>), the registry of workers
  (\<open>hub/registry.py\<close>), and the lease predicates of \<open>hub/store.py\<close> and \<open>hub/presence.py\<close>.

  A \<open>WebSocket\<close> is compared by identity only, so it is a number. The code captures a
  \<open>WorkerTermState\<close>, waits for its fence and then checks that the registry still holds that very
  object (\<open>st is not state\<close>): \<open>st_ident\<close> is that identity, drawn fresh from \<open>next_ident\<close> when
  a state is created. \<open>input_mode\<close> is the literal type \<open>InputMode\<close>; roles, worker ids and error
  codes are strings. Where an operation reads \<open>time.monotonic()\<close> the reading is its last
  argument. \<open>ownership_generation\<close> is a Python int and never wraps.
\<close>

type_synonym sock = nat

datatype input_mode = ModeHijack | ModeOpen

subsection \<open>Per-worker state\<close>

record event =
  ev_seq :: nat
  ev_ts :: time
  ev_type :: string
  ev_data :: jdict

text \<open>A committed snapshot is a dict that carries its \<open>event_seq\<close>.\<close>

type_synonym snapshot = jdict

record worker_state =
  st_ident :: nat
  worker_ws :: "sock option"
  browsers :: "(sock \<times> string) list"
  hijack_owner :: "sock option"
  hijack_owner_expires_at :: "time option"
  rest_session :: "hijack_session option"
  ownership_generation :: nat
  hijack_pending :: "string option"
  input_mode :: input_mode
  input_mode_set_by_operator :: bool
  last_snapshot :: "snapshot option"
  st_events :: "event list"
  events_maxlen :: nat
  event_seq :: nat
  min_event_seq :: nat
  last_activity_at :: time
  protocol_version :: "int option"
  is_tunnel_worker :: bool

definition new_worker_state :: "nat \<Rightarrow> time \<Rightarrow> worker_state" where
  "new_worker_state i now =
     \<lparr>st_ident = i, worker_ws = None, browsers = [], hijack_owner = None,
      hijack_owner_expires_at = None, rest_session = None, ownership_generation = 0,
      hijack_pending = None, input_mode = ModeHijack, input_mode_set_by_operator = False,
      last_snapshot = None, st_events = [], events_maxlen = 2000, event_seq = 0, min_event_seq = 0,
      last_activity_at = now, protocol_version = None, is_tunnel_worker = False\<rparr>"

text \<open>The view of the three lease slots, \<open>HijackLease\<close>.\<close>

record hijack_lease =
  lz_ws :: "sock option"
  lz_ws_expires_at :: "time option"
  lz_session :: "hijack_session option"

definition lease_of :: "worker_state \<Rightarrow> hijack_lease" where
  "lease_of st = \<lparr>lz_ws = hijack_owner st, lz_ws_expires_at = hijack_owner_expires_at st,
                  lz_session = rest_session st\<rparr>"

definition apply_lease :: "hijack_lease \<Rightarrow> worker_state \<Rightarrow> worker_state" where
  "apply_lease lz st = st\<lparr>hijack_owner := lz_ws lz, hijack_owner_expires_at := lz_ws_expires_at lz,
                          rest_session := lz_session lz\<rparr>"

definition is_idle :: "hijack_lease \<Rightarrow> bool" where
  "is_idle lz \<longleftrightarrow> lz_ws lz = None \<and> lz_session lz = None"

definition is_dashboard_active :: "hijack_lease \<Rightarrow> time \<Rightarrow> bool" where
  "is_dashboard_active lz now =
     (case (lz_ws lz, lz_ws_expires_at lz) of (Some _, Some e) \<Rightarrow> now < e | _ \<Rightarrow> False)"

definition is_rest_active :: "hijack_lease \<Rightarrow> time \<Rightarrow> bool" where
  "is_rest_active lz now = (case lz_session lz of None \<Rightarrow> False | Some s \<Rightarrow> now < hs_expires s)"

definition lease_active :: "hijack_lease \<Rightarrow> time \<Rightarrow> bool" where
  "lease_active lz now \<longleftrightarrow> is_dashboard_active lz now \<or> is_rest_active lz now"

definition lease_expire :: "hijack_lease \<Rightarrow> time \<Rightarrow> (bool \<times> bool) \<times> hijack_lease" where
  "lease_expire lz now =
     (let rest_expired = (case lz_session lz of Some s \<Rightarrow> hs_expires s \<le> now | None \<Rightarrow> False);
          dash_expired = (case (lz_ws lz, lz_ws_expires_at lz) of (Some _, Some e) \<Rightarrow> e \<le> now | _ \<Rightarrow> False);
          lz1 = (if rest_expired then lz\<lparr>lz_session := None\<rparr> else lz);
          lz2 = (if dash_expired then lz1\<lparr>lz_ws := None, lz_ws_expires_at := None\<rparr> else lz1)
      in ((rest_expired, dash_expired), lz2))"

subsection \<open>Predicates on a worker's state\<close>

definition store_clamp_lease :: "int \<Rightarrow> int" where
  "store_clamp_lease lease_s = max 1 (min lease_s 14400)"

definition has_valid_rest_lease :: "worker_state \<Rightarrow> time \<Rightarrow> bool" where
  "has_valid_rest_lease st now = (case rest_session st of None \<Rightarrow> False | Some hs \<Rightarrow> now < hs_expires hs)"

definition is_dashboard_hijack_active :: "worker_state \<Rightarrow> time \<Rightarrow> bool" where
  "is_dashboard_hijack_active st now =
     (case hijack_owner st of None \<Rightarrow> False
      | Some _ \<Rightarrow> (case hijack_owner_expires_at st of None \<Rightarrow> True | Some e \<Rightarrow> now < e))"

definition is_hijacked :: "worker_state \<Rightarrow> time \<Rightarrow> bool" where
  "is_hijacked st now \<longleftrightarrow> is_dashboard_hijack_active st now \<or> has_valid_rest_lease st now"

text \<open>\<open>is_dashboard_hijack_active(st) and st.hijack_owner is ws\<close>.\<close>

abbreviation owns :: "worker_state \<Rightarrow> sock \<Rightarrow> time \<Rightarrow> bool" where
  "owns st ws now \<equiv> is_dashboard_hijack_active st now \<and> hijack_owner st = Some ws"

definition st_can_send_input :: "worker_state \<Rightarrow> sock \<Rightarrow> time \<Rightarrow> bool" where
  "st_can_send_input st ws now =
     (if input_mode st = ModeOpen
      then (case od_get (browsers st) ws of Some r \<Rightarrow> r \<in> {''operator'', ''admin''} | None \<Rightarrow> False)
      else owns st ws now)"

definition compute_lease_expirations :: "worker_state \<Rightarrow> time \<Rightarrow> bool \<times> bool" where
  "compute_lease_expirations st now =
     (let lz = lease_of st in
      ((case (lz_ws lz, lz_ws_expires_at lz) of (Some _, Some e) \<Rightarrow> e \<le> now | _ \<Rightarrow> False),
       (case lz_session lz of Some s \<Rightarrow> hs_expires s \<le> now | None \<Rightarrow> False)))"

subsection \<open>The hub and its registry\<close>

text \<open>
  The hub: the registry in insertion order, the limits it was built with, the per-principal
  browser counts, and the maps from a browser socket to its principal, its resume token and its
  startup window. The latch of a bound token (an \<open>asyncio.Event\<close>) is its membership in
  \<open>token_detached\<close>: armed when bound, gone once it has been set.
\<close>

record hub =
  workers :: "(string \<times> worker_state) list"
  next_ident :: nat
  max_workers :: nat
  dashboard_hijack_lease_s :: int
  event_deque_maxlen :: nat
  max_event_data_chars :: nat
  max_connections_per_principal :: nat
  principal_browser_counts :: "(string \<times> nat) list"
  ws_principal :: "(sock \<times> string) list"
  ws_to_resume_token :: "(sock \<times> string) list"
  token_detached :: "string list"
  startup_pending_browsers :: "sock set"
  startup_pending_frames :: "(sock \<times> jdict list) list"

definition find_worker :: "hub \<Rightarrow> string \<Rightarrow> worker_state option" where
  "find_worker h wid = od_get (workers h) wid"

definition put_worker :: "hub \<Rightarrow> string \<Rightarrow> worker_state \<Rightarrow> hub" where
  "put_worker h wid st = h\<lparr>workers := od_set (workers h) wid st\<rparr>"

definition pop_worker :: "hub \<Rightarrow> string \<Rightarrow> hub" where
  "pop_worker h wid = h\<lparr>workers := od_pop (workers h) wid\<rparr>"

text \<open>The state under \<open>wid\<close> when it is still the object with identity \<open>i\<close>.\<close>

definition same_worker :: "hub \<Rightarrow> string \<Rightarrow> nat \<Rightarrow> worker_state option" where
  "same_worker h wid i =
     (case find_worker h wid of None \<Rightarrow> None | Some st \<Rightarrow> if st_ident st = i then Some st else None)"

definition set_dashboard_hijack_lease_s :: "hub \<Rightarrow> int \<Rightarrow> hub" where
  "set_dashboard_hijack_lease_s h v = h\<lparr>dashboard_hijack_lease_s := max 1 (min v 600)\<rparr>"

definition create_worker :: "hub \<Rightarrow> string \<Rightarrow> time \<Rightarrow> worker_state \<times> hub" where
  "create_worker h wid now =
     (let st = new_worker_state (next_ident h) now in
      (st, put_worker (h\<lparr>next_ident := Suc (next_ident h)\<rparr>) wid st))"

definition get_or_create :: "hub \<Rightarrow> string \<Rightarrow> time \<Rightarrow> worker_state \<times> hub" where
  "get_or_create h wid now =
     (case find_worker h wid of Some st \<Rightarrow> (st, h) | None \<Rightarrow> create_worker h wid now)"

definition touch_activity :: "hub \<Rightarrow> string \<Rightarrow> time \<Rightarrow> hub" where
  "touch_activity h wid now =
     (case find_worker h wid of None \<Rightarrow> h | Some st \<Rightarrow> put_worker h wid (st\<lparr>last_activity_at := now\<rparr>))"

subsection \<open>Well-formed states and hubs\<close>

text \<open>The expiry slot is filled exactly when the owner slot is.\<close>

definition wst_wf :: "worker_state \<Rightarrow> bool" where
  "wst_wf st \<longleftrightarrow> (hijack_owner st = None \<longleftrightarrow> hijack_owner_expires_at st = None)"

lemmas lease_preds = is_hijacked_def is_dashboard_hijack_active_def has_valid_rest_lease_def

lemma find_put [simp]:
  "find_worker (put_worker h wid st) wid' = (if wid = wid' then Some st else find_worker h wid')"
  by (simp add: find_worker_def put_worker_def)

lemma find_pop [simp]:
  "od_ok (workers h) \<Longrightarrow>
   find_worker (pop_worker h wid) wid' = (if wid = wid' then None else find_worker h wid')"
  by (simp add: find_worker_def pop_worker_def)

lemma put_worker_fields [simp, frame_simps]:
  "next_ident (put_worker h wid st) = next_ident h" "max_workers (put_worker h wid st) = max_workers h"
  "dashboard_hijack_lease_s (put_worker h wid st) = dashboard_hijack_lease_s h"
  "principal_browser_counts (put_worker h wid st) = principal_browser_counts h"
  "ws_principal (put_worker h wid st) = ws_principal h"
  "ws_to_resume_token (put_worker h wid st) = ws_to_resume_token h"
  "token_detached (put_worker h wid st) = token_detached h"
  "startup_pending_browsers (put_worker h wid st) = startup_pending_browsers h"
  "startup_pending_frames (put_worker h wid st) = startup_pending_frames h"
  "max_connections_per_principal (put_worker h wid st) = max_connections_per_principal h"
  by (simp_all add: put_worker_def)

lemma same_worker_Some:
  "same_worker h wid i = Some st \<longleftrightarrow> find_worker h wid = Some st \<and> st_ident st = i"
  by (auto simp: same_worker_def split: option.splits)

lemma same_worker_cases:
  obtains "same_worker h wid i = None" | st where "find_worker h wid = Some st" "st_ident st = i" "same_worker h wid i = Some st"
  by (metis option.exhaust same_worker_Some)

lemma dashboard_active_antimono:
  "is_dashboard_hijack_active st u \<Longrightarrow> t \<le> u \<Longrightarrow> is_dashboard_hijack_active st t"
  by (auto simp: is_dashboard_hijack_active_def split: option.splits)

lemma rest_active_antimono:
  "has_valid_rest_lease st u \<Longrightarrow> t \<le> u \<Longrightarrow> has_valid_rest_lease st t"
  by (auto simp: has_valid_rest_lease_def split: option.splits)

lemma hijacked_antimono: "is_hijacked st u \<Longrightarrow> t \<le> u \<Longrightarrow> is_hijacked st t"
  by (auto simp: is_hijacked_def intro: dashboard_active_antimono rest_active_antimono)

text \<open>The view's own predicate agrees with the store's on every well-formed state.\<close>

lemma lease_view_agrees:
  assumes "wst_wf st"
  shows "is_dashboard_active (lease_of st) now = is_dashboard_hijack_active st now"
    and "is_rest_active (lease_of st) now = has_valid_rest_lease st now"
  using assms
  by (auto simp: wst_wf_def is_dashboard_active_def lease_of_def is_rest_active_def lease_preds
      split: option.splits)

lemma apply_lease_of [simp]: "apply_lease (lease_of st) st = st"
  by (simp add: apply_lease_def lease_of_def)

lemma apply_lease_ident [simp]:
  "st_ident (apply_lease lz st) = st_ident st" "hijack_owner (apply_lease lz st) = lz_ws lz"
  "hijack_owner_expires_at (apply_lease lz st) = lz_ws_expires_at lz"
  "rest_session (apply_lease lz st) = lz_session lz"
  "ownership_generation (apply_lease lz st) = ownership_generation st"
  "hijack_pending (apply_lease lz st) = hijack_pending st"
  "worker_ws (apply_lease lz st) = worker_ws st"
  by (simp_all add: apply_lease_def)

end
