(* ===== verification/HubLease.thy ===== *)
theory HubLease
  imports HubState
begin

text \<open>
  The lease manager of \<open>server/bridge/hub/lease.py\<close> and the fenced reclaim of
  \<open>hub/router_impl.py\<close>. A method that takes a worker's ownership fence is two definitions, the
  two sections the code runs under the hub lock: \<open>..._start\<close> captures the state and its fence
  (here its identity) or answers at once, and \<open>..._fenced\<close> is what runs once the fence is held.
  What may happen between the two is the transition system of theory \<open>HubSystem\<close>. Network
  sends are performed between lock sections; their outcome is an argument.
\<close>

type_synonym acq_result = "bool \<times> string option"

subsection \<open>Expiry\<close>

text \<open>The first section shared by every fenced method that only needs the worker to exist.\<close>

definition capture_fence :: "hub \<Rightarrow> string \<Rightarrow> nat option" where
  "capture_fence h wid = map_option st_ident (find_worker h wid)"

definition expire_leases_fenced :: "hub \<Rightarrow> string \<Rightarrow> nat \<Rightarrow> time \<Rightarrow> (bool \<times> bool \<times> bool) option \<times> hub" where
  "expire_leases_fenced h wid i now =
     (case same_worker h wid i of
        None \<Rightarrow> (None, h)
      | Some st \<Rightarrow>
          let lease = lease_of st in
          if is_idle lease then (None, h)
          else
            let ((rest_expired, dash_expired), lease') = lease_expire lease now;
                h' = (if rest_expired \<or> dash_expired
                      then put_worker h wid
                             ((apply_lease lease' st)\<lparr>ownership_generation := ownership_generation st + 1\<rparr>)
                      else h);
                should_resume = ((rest_expired \<or> dash_expired) \<and> is_idle lease')
            in (Some (rest_expired, dash_expired, should_resume), h'))"

definition get_rest_session_no_cleanup :: "hub \<Rightarrow> string \<Rightarrow> string \<Rightarrow> time \<Rightarrow> hijack_session option" where
  "get_rest_session_no_cleanup h wid hid now =
     (case find_worker h wid of
        None \<Rightarrow> None
      | Some st \<Rightarrow>
          (case rest_session st of
             None \<Rightarrow> None
           | Some hs \<Rightarrow> if hs_expires hs \<le> now \<or> hs_id hs \<noteq> hid then None else Some hs))"

subsection \<open>Acquiring\<close>

text \<open>The first section of both acquires.\<close>

definition acquire_start :: "hub \<Rightarrow> string \<Rightarrow> string + nat" where
  "acquire_start h wid =
     (case find_worker h wid of
        None \<Rightarrow> Inl ''no_worker''
      | Some st \<Rightarrow>
          if worker_ws st = None then Inl ''no_worker''
          else if hijack_pending st \<noteq> None then Inl ''already_hijacked''
          else Inr (st_ident st))"

text \<open>Phase 1 of \<open>try_acquire_rest\<close>: the reservation. \<open>Inr ws\<close> is the socket to pause.\<close>

definition acquire_rest_reserve ::
  "hub \<Rightarrow> string \<Rightarrow> nat \<Rightarrow> string \<Rightarrow> time \<Rightarrow> (string + sock) \<times> hub" where
  "acquire_rest_reserve h wid i hid now =
     (case same_worker h wid i of
        None \<Rightarrow> (Inl ''no_worker'', h)
      | Some st \<Rightarrow>
          (case worker_ws st of
             None \<Rightarrow> (Inl ''no_worker'', h)
           | Some ws \<Rightarrow>
               if input_mode st = ModeOpen then (Inl ''open_mode'', h)
               else if is_dashboard_hijack_active st now \<or> has_valid_rest_lease st now
                       \<or> hijack_pending st \<noteq> None
               then (Inl ''already_hijacked'', h)
               else (Inr ws, put_worker h wid (st\<lparr>hijack_pending := Some hid\<rparr>))))"

text \<open>The handler of a failed pause: the worker socket is dropped if it is still the one used.\<close>

definition acquire_rest_pause_failed :: "hub \<Rightarrow> string \<Rightarrow> nat \<Rightarrow> sock \<Rightarrow> hub" where
  "acquire_rest_pause_failed h wid i ws =
     (case same_worker h wid i of
        None \<Rightarrow> h
      | Some st \<Rightarrow>
          if worker_ws st = Some ws
          then put_worker h wid (st\<lparr>worker_ws := None, ownership_generation := ownership_generation st + 1\<rparr>)
          else h)"

text \<open>Phase 3: the lease is written. \<open>now\<close> is the reading the caller took before acquiring.\<close>

definition acquire_rest_finalise ::
  "hub \<Rightarrow> string \<Rightarrow> nat \<Rightarrow> sock \<Rightarrow> string \<Rightarrow> string \<Rightarrow> int \<Rightarrow> time \<Rightarrow> acq_result \<times> hub" where
  "acquire_rest_finalise h wid i ws hid ow lease_s now =
     (case same_worker h wid i of
        None \<Rightarrow> ((False, Some ''no_worker''), h)
      | Some st \<Rightarrow>
          if worker_ws st \<noteq> Some ws \<or> hijack_pending st \<noteq> Some hid
          then ((False, Some ''no_worker''), h)
          else
            ((True, None),
             put_worker h wid
               (st\<lparr>rest_session := Some \<lparr>hs_id = hid, hs_owner = ow, hs_expires = now + real_of_int lease_s,
                                        hs_acquired_at = now, hs_last_heartbeat = now,
                                        hs_acquired_by = None, hs_last_served_event_seq = 0\<rparr>,
                   hijack_pending := None,
                   ownership_generation := ownership_generation st + 1\<rparr>)))"

text \<open>The \<open>finally\<close> clause.\<close>

definition acquire_rest_rollback :: "hub \<Rightarrow> string \<Rightarrow> nat \<Rightarrow> string \<Rightarrow> hub" where
  "acquire_rest_rollback h wid i hid =
     (case same_worker h wid i of
        None \<Rightarrow> h
      | Some st \<Rightarrow> if hijack_pending st = Some hid then put_worker h wid (st\<lparr>hijack_pending := None\<rparr>) else h)"

definition acquire_ws_fenced :: "hub \<Rightarrow> string \<Rightarrow> nat \<Rightarrow> sock \<Rightarrow> time \<Rightarrow> acq_result \<times> hub" where
  "acquire_ws_fenced h wid i ws now =
     (case same_worker h wid i of
        None \<Rightarrow> ((False, Some ''no_worker''), h)
      | Some st \<Rightarrow>
          if worker_ws st = None then ((False, Some ''no_worker''), h)
          else if is_dashboard_hijack_active st now \<or> has_valid_rest_lease st now
                  \<or> hijack_pending st \<noteq> None
          then ((False, Some ''already_hijacked''), h)
          else
            ((True, None),
             put_worker h wid
               (st\<lparr>hijack_owner := Some ws,
                   hijack_owner_expires_at := Some (now + real_of_int (dashboard_hijack_lease_s h)),
                   ownership_generation := ownership_generation st + 1\<rparr>)))"

definition reclaim_fenced :: "hub \<Rightarrow> string \<Rightarrow> nat \<Rightarrow> sock \<Rightarrow> time \<Rightarrow> (bool \<times> bool) \<times> hub" where
  "reclaim_fenced h wid i ws now =
     (case same_worker h wid i of
        None \<Rightarrow> ((False, False), h)
      | Some st \<Rightarrow>
          if worker_ws st \<noteq> None \<and> input_mode st \<noteq> ModeOpen \<and> hijack_owner st = None \<and> \<not> is_hijacked st now
          then
            ((True, False),
             put_worker h wid
               (st\<lparr>hijack_owner := Some ws,
                   hijack_owner_expires_at := Some (now + real_of_int (dashboard_hijack_lease_s h)),
                   ownership_generation := ownership_generation st + 1\<rparr>))
          else ((False, is_hijacked st now), h))"

subsection \<open>Keeping a lease alive\<close>

definition renew_dashboard :: "hub \<Rightarrow> worker_state \<Rightarrow> time \<Rightarrow> worker_state" where
  "renew_dashboard h st now =
     st\<lparr>hijack_owner_expires_at := Some (now + real_of_int (dashboard_hijack_lease_s h))\<rparr>"

definition touch_owner :: "hub \<Rightarrow> string \<Rightarrow> int option \<Rightarrow> time \<Rightarrow> time option \<times> hub" where
  "touch_owner h wid lease_s now =
     (case find_worker h wid of
        None \<Rightarrow> (None, h)
      | Some st \<Rightarrow>
          if hijack_owner st = None then (None, h)
          else
            let ttl = (case lease_s of None \<Rightarrow> dashboard_hijack_lease_s h | Some l \<Rightarrow> max 1 (min l 600));
                e = now + real_of_int ttl
            in (Some e, put_worker h wid (st\<lparr>hijack_owner_expires_at := Some e\<rparr>)))"

definition touch_if_owner :: "hub \<Rightarrow> string \<Rightarrow> sock \<Rightarrow> time \<Rightarrow> time option \<times> hub" where
  "touch_if_owner h wid ws now =
     (case find_worker h wid of
        None \<Rightarrow> (None, h)
      | Some st \<Rightarrow>
          if \<not> is_dashboard_hijack_active st now \<or> hijack_owner st \<noteq> Some ws then (None, h)
          else (hijack_owner_expires_at (renew_dashboard h st now), put_worker h wid (renew_dashboard h st now)))"

definition extend_lease :: "hub \<Rightarrow> string \<Rightarrow> string \<Rightarrow> string \<Rightarrow> int \<Rightarrow> time \<Rightarrow> time option \<times> hub" where
  "extend_lease h wid hid ow lease_s now =
     (case find_worker h wid of
        None \<Rightarrow> (None, h)
      | Some st \<Rightarrow>
          (case rest_session st of
             None \<Rightarrow> (None, h)
           | Some hs \<Rightarrow>
               if hs_id hs \<noteq> hid then (None, h)
               else if hs_owner hs \<noteq> ow then (None, h)
               else
                 let e = now + real_of_int lease_s
                 in (Some e, put_worker h wid
                       (st\<lparr>rest_session := Some (hs\<lparr>hs_last_heartbeat := now, hs_expires := e\<rparr>)\<rparr>))))"

definition get_fresh_expiry :: "hub \<Rightarrow> string \<Rightarrow> string \<Rightarrow> time \<Rightarrow> time" where
  "get_fresh_expiry h wid hid fallback =
     (case find_worker h wid of
        None \<Rightarrow> fallback
      | Some st \<Rightarrow>
          (case rest_session st of
             Some hs \<Rightarrow> if hs_id hs = hid then hs_expires hs else fallback
           | None \<Rightarrow> fallback))"

subsection \<open>Releasing\<close>

definition release_ws_fenced :: "hub \<Rightarrow> string \<Rightarrow> nat \<Rightarrow> sock \<Rightarrow> time \<Rightarrow> (bool \<times> bool) \<times> hub" where
  "release_ws_fenced h wid i ws now =
     (case find_worker h wid of
        None \<Rightarrow> ((False, False), h)
      | Some st \<Rightarrow>
          if st_ident st \<noteq> i \<or> \<not> is_dashboard_hijack_active st now \<or> hijack_owner st \<noteq> Some ws
          then ((False, has_valid_rest_lease st now), h)
          else
            let st' = st\<lparr>hijack_owner := None, hijack_owner_expires_at := None,
                         ownership_generation := ownership_generation st + 1\<rparr>
            in ((True, has_valid_rest_lease st' now), put_worker h wid st'))"

text \<open>One iteration of the loop over \<open>dead\<close>; the flag is \<open>notify_hijack_off\<close>.\<close>

definition remove_dead_browser :: "time \<Rightarrow> sock \<Rightarrow> worker_state \<times> bool \<Rightarrow> worker_state \<times> bool" where
  "remove_dead_browser now ws p =
     (case p of (st, notify) \<Rightarrow>
        let st1 = st\<lparr>browsers := od_pop (browsers st) ws\<rparr> in
        if is_dashboard_hijack_active st1 now \<and> hijack_owner st1 = Some ws
        then
          let st2 = st1\<lparr>hijack_owner := None, hijack_owner_expires_at := None,
                        ownership_generation := ownership_generation st1 + 1\<rparr>
          in (st2, \<not> has_valid_rest_lease st2 now)
        else (st1, notify))"

definition remove_dead_fenced :: "hub \<Rightarrow> string \<Rightarrow> nat \<Rightarrow> sock list \<Rightarrow> time \<Rightarrow> bool \<times> hub" where
  "remove_dead_fenced h wid i dead now =
     (case same_worker h wid i of
        None \<Rightarrow> (False, h)
      | Some st \<Rightarrow>
          let (st', notify) = fold (remove_dead_browser now) dead (st, False)
          in (notify, put_worker h wid st'))"

definition release_rest_fenced :: "hub \<Rightarrow> string \<Rightarrow> nat \<Rightarrow> string \<Rightarrow> time \<Rightarrow> (bool \<times> bool) \<times> hub" where
  "release_rest_fenced h wid i hid now =
     (case same_worker h wid i of
        None \<Rightarrow> ((False, False), h)
      | Some st \<Rightarrow>
          (case rest_session st of
             None \<Rightarrow> ((False, False), h)
           | Some hs \<Rightarrow>
               if hs_id hs \<noteq> hid then ((False, False), h)
               else
                 let st' = st\<lparr>rest_session := None, ownership_generation := ownership_generation st + 1\<rparr>
                 in ((True, \<not> is_dashboard_hijack_active st' now), put_worker h wid st')))"

subsection \<open>Questions about a lease\<close>

definition check_valid :: "hub \<Rightarrow> string \<Rightarrow> string \<Rightarrow> time \<Rightarrow> bool" where
  "check_valid h wid hid now =
     (case find_worker h wid of
        None \<Rightarrow> False
      | Some st \<Rightarrow>
          (case rest_session st of None \<Rightarrow> False | Some hs \<Rightarrow> hs_id hs = hid \<and> now < hs_expires hs))"

definition still_hijacked :: "hub \<Rightarrow> string \<Rightarrow> time \<Rightarrow> bool" where
  "still_hijacked h wid now = (case find_worker h wid of None \<Rightarrow> False | Some st \<Rightarrow> is_hijacked st now)"

definition is_input_open_mode :: "hub \<Rightarrow> string \<Rightarrow> bool" where
  "is_input_open_mode h wid = (case find_worker h wid of None \<Rightarrow> False | Some st \<Rightarrow> input_mode st = ModeOpen)"

record events_data =
  ed_rows :: "event list"
  ed_latest_seq :: nat
  ed_min_event_seq :: nat
  ed_fresh_expires :: time

definition get_events_data ::
  "hub \<Rightarrow> string \<Rightarrow> string \<Rightarrow> hijack_session \<Rightarrow> nat \<Rightarrow> nat \<Rightarrow> events_data" where
  "get_events_data h wid hid hs after_seq limit =
     (case find_worker h wid of
        None \<Rightarrow> \<lparr>ed_rows = [], ed_latest_seq = 0, ed_min_event_seq = 0, ed_fresh_expires = hs_expires hs\<rparr>
      | Some st \<Rightarrow>
          \<lparr>ed_rows = take limit (filter (\<lambda>e. after_seq < ev_seq e) (st_events st)),
           ed_latest_seq = event_seq st, ed_min_event_seq = min_event_seq st,
           ed_fresh_expires =
             (case rest_session st of
                Some s \<Rightarrow> if hs_id s = hid then hs_expires s else hs_expires hs
              | None \<Rightarrow> hs_expires hs)\<rparr>)"

subsection \<open>Input under ownership\<close>

definition prepare_browser_input :: "hub \<Rightarrow> string \<Rightarrow> sock \<Rightarrow> time \<Rightarrow> bool \<times> hub" where
  "prepare_browser_input h wid ws now =
     (case find_worker h wid of
        None \<Rightarrow> (False, h)
      | Some st \<Rightarrow>
          (st_can_send_input st ws now,
           if owns st ws now then put_worker h wid (renew_dashboard h st now) else h))"

definition capture_browser_ownership :: "hub \<Rightarrow> string \<Rightarrow> sock \<Rightarrow> time \<Rightarrow> nat option \<times> hub" where
  "capture_browser_ownership h wid ws now =
     (case find_worker h wid of
        None \<Rightarrow> (None, h)
      | Some st \<Rightarrow>
          if \<not> st_can_send_input st ws now then (None, h)
          else (Some (ownership_generation st),
                if owns st ws now then put_worker h wid (renew_dashboard h st now) else h))"

definition capture_dashboard_ownership :: "hub \<Rightarrow> string \<Rightarrow> sock \<Rightarrow> time \<Rightarrow> nat option \<times> hub" where
  "capture_dashboard_ownership h wid ws now =
     (case find_worker h wid of
        None \<Rightarrow> (None, h)
      | Some st \<Rightarrow>
          if \<not> is_dashboard_hijack_active st now \<or> hijack_owner st \<noteq> Some ws then (None, h)
          else (Some (ownership_generation st), put_worker h wid (renew_dashboard h st now)))"

text \<open>Who claims the right to send: a browser (with the generation it captured) or a REST lease.\<close>

datatype claimant = ByBrowser sock "nat option" | ByRest string

text \<open>The check of \<open>send_owned_worker\<close>: \<open>Inr ws\<close> is the worker socket the message goes to.\<close>

definition send_owned_fenced :: "hub \<Rightarrow> string \<Rightarrow> nat \<Rightarrow> claimant \<Rightarrow> time \<Rightarrow> (string + sock) \<times> hub" where
  "send_owned_fenced h wid i cl now =
     (case same_worker h wid i of
        None \<Rightarrow> (Inl ''invalid_owner'', h)
      | Some st \<Rightarrow>
          let pick = (\<lambda>h'. (case worker_ws st of None \<Rightarrow> (Inl ''no_worker'', h') | Some w \<Rightarrow> (Inr w, h')))
          in
          (case cl of
             ByBrowser ws gen \<Rightarrow>
               if \<not> st_can_send_input st ws now then (Inl ''invalid_owner'', h)
               else if gen \<noteq> None \<and> gen \<noteq> Some (ownership_generation st) then (Inl ''invalid_owner'', h)
               else pick (if owns st ws now then put_worker h wid (renew_dashboard h st now) else h)
           | ByRest hid \<Rightarrow>
               (case rest_session st of
                  None \<Rightarrow> (Inl ''invalid_owner'', h)
                | Some s \<Rightarrow>
                    if hs_id s \<noteq> hid \<or> hs_expires s \<le> now then (Inl ''invalid_owner'', h) else pick h)))"

text \<open>The check of \<open>run_owned_browser_operation\<close>; the operation then sends through \<open>send_reserved\<close>.\<close>

definition run_owned_fenced :: "hub \<Rightarrow> string \<Rightarrow> nat \<Rightarrow> sock \<Rightarrow> nat \<Rightarrow> time \<Rightarrow> (string + sock) \<times> hub" where
  "run_owned_fenced h wid i ws gen now =
     (case same_worker h wid i of
        None \<Rightarrow> (Inl ''invalid_owner'', h)
      | Some st \<Rightarrow>
          if \<not> st_can_send_input st ws now \<or> ownership_generation st \<noteq> gen
          then (Inl ''invalid_owner'', h)
          else
            let h' = (if owns st ws now then put_worker h wid (renew_dashboard h st now) else h)
            in (case worker_ws st of None \<Rightarrow> (Inl ''no_worker'', h') | Some w \<Rightarrow> (Inr w, h')))"

text \<open>\<open>send_worker_if_unowned\<close>: whether the frame goes out.\<close>

definition send_unowned_fenced :: "hub \<Rightarrow> string \<Rightarrow> nat \<Rightarrow> time \<Rightarrow> bool" where
  "send_unowned_fenced h wid i now =
     (case same_worker h wid i of
        None \<Rightarrow> False
      | Some st \<Rightarrow> \<not> is_hijacked st now \<and> worker_ws st \<noteq> None)"

text \<open>
  \<open>send_worker\<close> of \<open>hub/router_broadcast.py\<close>: the socket it writes to, if any, and what a
  write that raised does to the registry.
\<close>

definition send_worker_target :: "hub \<Rightarrow> string \<Rightarrow> sock option \<Rightarrow> (sock \<times> bool) option" where
  "send_worker_target h wid expected =
     (case find_worker h wid of
        None \<Rightarrow> None
      | Some st \<Rightarrow>
          (case worker_ws st of
             None \<Rightarrow> None
           | Some ws \<Rightarrow>
               if expected \<noteq> None \<and> expected \<noteq> Some ws then None else Some (ws, is_tunnel_worker st)))"

definition send_worker_failed :: "hub \<Rightarrow> string \<Rightarrow> sock \<Rightarrow> hub" where
  "send_worker_failed h wid ws =
     (case find_worker h wid of
        None \<Rightarrow> h
      | Some st \<Rightarrow> if worker_ws st = Some ws then put_worker h wid (st\<lparr>worker_ws := None\<rparr>) else h)"

end
