(* ===== verification/HubConn.thy ===== *)
theory HubConn
  imports HubLease
begin

text \<open>
  Worker and browser connections (\<open>hub/connection.py\<close>, \<open>hub/connection_hijack.py\<close>), the resume
  token latches of \<open>hub/core_impl.py\<close>, and the registry side of \<open>hub/router_impl.py\<close>. The
  pairs \<open>..._start\<close>/\<open>..._fenced\<close> are as in theory \<open>HubLease\<close>.
\<close>

subsection \<open>Worker connections\<close>

datatype register_start = CapacityExceeded | Registered | AwaitFence nat

definition register_worker_start ::
  "hub \<Rightarrow> string \<Rightarrow> sock \<Rightarrow> bool \<Rightarrow> time \<Rightarrow> register_start \<times> hub" where
  "register_worker_start h wid ws is_tunnel now =
     (case find_worker h wid of
        Some st \<Rightarrow> (AwaitFence (st_ident st), h)
      | None \<Rightarrow>
          if max_workers h \<le> length (workers h) then (CapacityExceeded, h)
          else
            let st = (new_worker_state (next_ident h) now)
                       \<lparr>worker_ws := Some ws, is_tunnel_worker := is_tunnel,
                        events_maxlen := event_deque_maxlen h, ownership_generation := 1\<rparr>
            in (Registered, put_worker (h\<lparr>next_ident := Suc (next_ident h)\<rparr>) wid st))"

text \<open>
  Under the fence; \<open>None\<close> is the \<open>continue\<close> of the retry loop. \<open>deque(events, maxlen)\<close> keeps
  the newest events.
\<close>

definition deque_of :: "'a list \<Rightarrow> nat \<Rightarrow> 'a list" where
  "deque_of xs m = drop (length xs - m) xs"

definition register_worker_fenced ::
  "hub \<Rightarrow> string \<Rightarrow> nat \<Rightarrow> sock \<Rightarrow> bool \<Rightarrow> time \<Rightarrow> bool option \<times> hub" where
  "register_worker_fenced h wid i ws is_tunnel now =
     (case same_worker h wid i of
        None \<Rightarrow> (None, h)
      | Some st \<Rightarrow>
          let expired = (case rest_session st of Some s \<Rightarrow> hs_expires s \<le> now | None \<Rightarrow> False);
              prev_was_hijacked = (expired \<or> (rest_session st = None \<and> hijack_owner st \<noteq> None));
              changed_epoch = (worker_ws st \<noteq> Some ws \<or> prev_was_hijacked);
              st1 = st\<lparr>st_events := deque_of (st_events st) (event_deque_maxlen h),
                       events_maxlen := event_deque_maxlen h\<rparr>;
              st2 = (if expired then st1\<lparr>rest_session := None\<rparr> else st1);
              st3 = (if prev_was_hijacked
                     then st2\<lparr>hijack_owner := None, hijack_owner_expires_at := None\<rparr> else st2);
              st4 = st3\<lparr>worker_ws := Some ws, is_tunnel_worker := is_tunnel\<rparr>;
              st5 = (if changed_epoch
                     then st4\<lparr>ownership_generation := ownership_generation st4 + 1\<rparr> else st4)
          in (Some prev_was_hijacked, put_worker h wid st5))"

definition is_active_worker :: "hub \<Rightarrow> string \<Rightarrow> sock \<Rightarrow> bool" where
  "is_active_worker h wid ws =
     (case find_worker h wid of None \<Rightarrow> False | Some st \<Rightarrow> worker_ws st = Some ws)"

definition set_tunnel_flag_fenced :: "hub \<Rightarrow> string \<Rightarrow> nat \<Rightarrow> bool \<Rightarrow> hub" where
  "set_tunnel_flag_fenced h wid i v =
     (case same_worker h wid i of None \<Rightarrow> h | Some st \<Rightarrow> put_worker h wid (st\<lparr>is_tunnel_worker := v\<rparr>))"

definition set_worker_hello ::
  "hub \<Rightarrow> string \<Rightarrow> input_mode \<Rightarrow> int option \<Rightarrow> time \<Rightarrow> bool \<times> hub" where
  "set_worker_hello h wid mode pv now =
     (case find_worker h wid of
        None \<Rightarrow> (False, h)
      | Some st \<Rightarrow>
          let would_lower = (mode = ModeOpen \<and> input_mode st = ModeHijack) in
          if would_lower \<and> (input_mode_set_by_operator st \<or> is_hijacked st now) then (False, h)
          else
            let st1 = (if mode \<noteq> input_mode st then st\<lparr>input_mode_set_by_operator := False\<rparr> else st);
                st2 = st1\<lparr>input_mode := mode\<rparr>;
                st3 = (if pv \<noteq> None then st2\<lparr>protocol_version := pv\<rparr> else st2)
            in (True, put_worker h wid st3))"

definition update_last_snapshot :: "hub \<Rightarrow> string \<Rightarrow> snapshot \<Rightarrow> hub" where
  "update_last_snapshot h wid s =
     (case find_worker h wid of None \<Rightarrow> h | Some st \<Rightarrow> put_worker h wid (st\<lparr>last_snapshot := Some s\<rparr>))"

definition deregister_worker_start :: "hub \<Rightarrow> string \<Rightarrow> sock \<Rightarrow> nat option" where
  "deregister_worker_start h wid ws =
     (case find_worker h wid of
        None \<Rightarrow> None
      | Some st \<Rightarrow> if worker_ws st = Some ws then Some (st_ident st) else None)"

text \<open>The slots a worker's disappearance clears; shared by the two places that clear them.\<close>

definition clear_worker :: "worker_state \<Rightarrow> worker_state" where
  "clear_worker st =
     st\<lparr>worker_ws := None, rest_session := None, hijack_owner := None,
        hijack_owner_expires_at := None, ownership_generation := ownership_generation st + 1\<rparr>"

definition deregister_worker_fenced :: "hub \<Rightarrow> string \<Rightarrow> nat \<Rightarrow> sock \<Rightarrow> (bool \<times> bool) \<times> hub" where
  "deregister_worker_fenced h wid i ws =
     (case same_worker h wid i of
        None \<Rightarrow> ((False, False), h)
      | Some st \<Rightarrow>
          if worker_ws st \<noteq> Some ws then ((False, False), h)
          else ((True, rest_session st \<noteq> None \<or> hijack_owner st \<noteq> None),
                put_worker h wid (clear_worker st)))"

definition disconnect_worker_start :: "hub \<Rightarrow> string \<Rightarrow> nat option" where
  "disconnect_worker_start h wid =
     (case find_worker h wid of
        None \<Rightarrow> None
      | Some st \<Rightarrow> if worker_ws st = None then None else Some (st_ident st))"

text \<open>\<open>Some (ws, was_hijacked)\<close>: the socket to close and whether a notification follows.\<close>

definition disconnect_worker_fenced :: "hub \<Rightarrow> string \<Rightarrow> nat \<Rightarrow> (sock \<times> bool) option \<times> hub" where
  "disconnect_worker_fenced h wid i =
     (case same_worker h wid i of
        None \<Rightarrow> (None, h)
      | Some st \<Rightarrow>
          (case worker_ws st of
             None \<Rightarrow> (None, h)
           | Some ws \<Rightarrow> (Some (ws, rest_session st \<noteq> None \<or> hijack_owner st \<noteq> None),
                         put_worker h wid (clear_worker st))))"

text \<open>\<open>Some owner\<close> is the owner named in the resume frame when a hijack was cleared.\<close>

definition force_release_fenced :: "hub \<Rightarrow> string \<Rightarrow> nat \<Rightarrow> time \<Rightarrow> string option \<times> hub" where
  "force_release_fenced h wid i now =
     (case same_worker h wid i of
        None \<Rightarrow> (None, h)
      | Some st \<Rightarrow>
          let ow = (case rest_session st of Some s \<Rightarrow> hs_owner s | None \<Rightarrow> ''server-forced'');
              had_rest = (rest_session st \<noteq> None);
              st1 = st\<lparr>rest_session := None\<rparr>;
              had_dash = is_dashboard_hijack_active st1 now;
              st2 = (if had_dash then st1\<lparr>hijack_owner := None, hijack_owner_expires_at := None\<rparr> else st1)
          in if had_rest \<or> had_dash
             then (Some ow, put_worker h wid (st2\<lparr>ownership_generation := ownership_generation st2 + 1\<rparr>))
             else (None, h))"

subsection \<open>Resume token latches\<close>

definition detach_resume_token :: "hub \<Rightarrow> string option \<Rightarrow> hub" where
  "detach_resume_token h tok =
     (case tok of None \<Rightarrow> h | Some t \<Rightarrow> h\<lparr>token_detached := removeAll t (token_detached h)\<rparr>)"

definition bind_resume_token :: "hub \<Rightarrow> sock \<Rightarrow> string \<Rightarrow> hub" where
  "bind_resume_token h ws t =
     (let h1 = detach_resume_token h (od_get (ws_to_resume_token h) ws);
          h2 = h1\<lparr>ws_to_resume_token := od_set (ws_to_resume_token h1) ws t\<rparr>
      in if t \<in> set (token_detached h2) then h2 else h2\<lparr>token_detached := token_detached h2 @ [t]\<rparr>)"

text \<open>Whether \<open>wait_resume_token_ready\<close> returns at once, without waiting for a latch.\<close>

definition resume_token_ready :: "hub \<Rightarrow> string \<Rightarrow> sock \<Rightarrow> bool" where
  "resume_token_ready h t ws \<longleftrightarrow> od_get (ws_to_resume_token h) ws = Some t \<or> t \<notin> set (token_detached h)"

subsection \<open>Browser connections\<close>

definition rollback_browser_quota :: "hub \<Rightarrow> sock \<Rightarrow> hub" where
  "rollback_browser_quota h ws =
     (let tok = od_get (ws_to_resume_token h) ws;
          h1 = detach_resume_token (h\<lparr>ws_to_resume_token := od_pop (ws_to_resume_token h) ws\<rparr>) tok;
          subject = od_get (ws_principal h1) ws;
          h2 = h1\<lparr>ws_principal := od_pop (ws_principal h1) ws\<rparr>
      in case subject of
           None \<Rightarrow> h2
         | Some s \<Rightarrow>
             let remaining = int (case od_get (principal_browser_counts h2) s of Some c \<Rightarrow> c | None \<Rightarrow> 0) - 1
             in if remaining \<le> 0
                then h2\<lparr>principal_browser_counts := od_pop (principal_browser_counts h2) s\<rparr>
                else h2\<lparr>principal_browser_counts := od_set (principal_browser_counts h2) s (nat remaining)\<rparr>)"

record browser_hello =
  bh_is_hijacked :: bool
  bh_hijacked_by_me :: bool
  bh_worker_online :: bool
  bh_input_mode :: input_mode
  bh_initial_snapshot :: "snapshot option"
  bh_resume_token :: "string option"

text \<open>
  \<open>register_browser\<close>. \<open>subject\<close> is the principal the quota counts (\<open>None\<close> when it is exempt).
  \<open>mint\<close> is what the resume store does: no store, a token, or an exception. \<open>Inl\<close> is the
  exception that leaves the method.
\<close>

datatype mint = NoStore | Minted string | MintRaises string

definition admit_principal :: "hub \<Rightarrow> sock \<Rightarrow> string option \<Rightarrow> hub option" where
  "admit_principal h ws subject =
     (case subject of
        None \<Rightarrow> Some h
      | Some s \<Rightarrow>
          let current = (case od_get (principal_browser_counts h) s of Some c \<Rightarrow> c | None \<Rightarrow> 0) in
          if max_connections_per_principal h \<le> current then None
          else Some (h\<lparr>principal_browser_counts := od_set (principal_browser_counts h) s (current + 1),
                       ws_principal := od_set (ws_principal h) ws s\<rparr>))"

definition register_browser ::
  "hub \<Rightarrow> string \<Rightarrow> sock \<Rightarrow> string \<Rightarrow> bool \<Rightarrow> string option \<Rightarrow> mint \<Rightarrow> time \<Rightarrow> (string + browser_hello) \<times> hub" where
  "register_browser h wid ws role defer subject m now =
     (case admit_principal h ws subject of
        None \<Rightarrow> (Inl ''too many connections'', h)
      | Some h1 \<Rightarrow>
          (case m of
             MintRaises e \<Rightarrow> (Inl e, rollback_browser_quota h1 ws)
           | _ \<Rightarrow>
               let h2 = (case m of Minted t \<Rightarrow> bind_resume_token h1 ws t | _ \<Rightarrow> h1);
                   (st, h3) = get_or_create h2 wid now;
                   st' = st\<lparr>browsers := od_set (browsers st) ws role\<rparr>;
                   h4 = put_worker h3 wid st';
                   h5 = (if defer then h4\<lparr>startup_pending_browsers := insert ws (startup_pending_browsers h4)\<rparr>
                         else h4)
               in (Inr \<lparr>bh_is_hijacked = is_hijacked st' now, bh_hijacked_by_me = owns st' ws now,
                        bh_worker_online = (worker_ws st' \<noteq> None), bh_input_mode = input_mode st',
                        bh_initial_snapshot = last_snapshot st',
                        bh_resume_token = (case m of Minted t \<Rightarrow> Some t | _ \<Rightarrow> None)\<rparr>, h5)))"

fun scan_rev_events :: "event list \<Rightarrow> bool" where
  "scan_rev_events [] = True"
| "scan_rev_events (e # es) =
     (if ev_type e \<in> {''hijack_owner_expired'', ''hijack_lease_expired''} then False
      else if ev_type e \<in> {''hijack_acquired'', ''hijack_released''} then True
      else scan_rev_events es)"

definition scan_events_for_resume :: "worker_state \<Rightarrow> bool" where
  "scan_events_for_resume st = scan_rev_events (rev (st_events st))"

record disconnect_flags =
  df_was_owner :: bool
  df_rest_still_active :: bool
  df_resume_without_owner :: bool

definition drop_principal :: "hub \<Rightarrow> sock \<Rightarrow> hub" where
  "drop_principal h ws =
     (case od_get (ws_principal h) ws of
        None \<Rightarrow> h
      | Some s \<Rightarrow>
          let h1 = h\<lparr>ws_principal := od_pop (ws_principal h) ws\<rparr>;
              remaining = int (case od_get (principal_browser_counts h1) s of Some c \<Rightarrow> c | None \<Rightarrow> 0) - 1
          in if remaining \<le> 0
             then h1\<lparr>principal_browser_counts := od_pop (principal_browser_counts h1) s\<rparr>
             else h1\<lparr>principal_browser_counts := od_set (principal_browser_counts h1) s (nat remaining)\<rparr>)"

definition update_lock_state ::
  "hub \<Rightarrow> string \<Rightarrow> worker_state \<Rightarrow> sock \<Rightarrow> bool \<Rightarrow> time \<Rightarrow> disconnect_flags \<times> hub" where
  "update_lock_state h wid st ws owned_hijack now =
     (let was_owner = owns st ws now;
          st1 = st\<lparr>browsers := od_pop (browsers st) ws\<rparr>;
          h1 = drop_principal h ws
      in if was_owner
         then
           let st2 = st1\<lparr>hijack_owner := None, hijack_owner_expires_at := None,
                         ownership_generation := ownership_generation st1 + 1\<rparr>
           in (\<lparr>df_was_owner = True, df_rest_still_active = has_valid_rest_lease st2 now,
                df_resume_without_owner = False\<rparr>, put_worker h1 wid st2)
         else
           (\<lparr>df_was_owner = False, df_rest_still_active = False,
             df_resume_without_owner =
               (owned_hijack \<and> worker_ws st1 \<noteq> None \<and> \<not> is_hijacked st1 now \<and> scan_events_for_resume st1)\<rparr>,
            put_worker h1 wid st1))"

text \<open>
  \<open>_release_resume_token\<close>: the token to mark as the hijack owner's in the resume store (if any)
  and the hub with the token unbound and its latch released.
\<close>

definition release_resume_token :: "hub \<Rightarrow> sock \<Rightarrow> bool \<Rightarrow> bool \<Rightarrow> string option \<times> hub" where
  "release_resume_token h ws has_store mark_owner =
     (if \<not> has_store then (None, h)
      else
        let tok = od_get (ws_to_resume_token h) ws;
            h1 = h\<lparr>ws_to_resume_token := od_pop (ws_to_resume_token h) ws\<rparr>
        in (if mark_owner then tok else None, detach_resume_token h1 tok))"

text \<open>The section of \<open>cleanup_browser_disconnect\<close> under the fence, and the tail after it.\<close>

definition cleanup_browser_fenced ::
  "hub \<Rightarrow> string \<Rightarrow> nat \<Rightarrow> sock \<Rightarrow> bool \<Rightarrow> bool \<Rightarrow> time \<Rightarrow> (disconnect_flags \<times> string option) \<times> hub" where
  "cleanup_browser_fenced h wid i ws owned_hijack has_store now =
     (let (flags, h1) =
        (case same_worker h wid i of
           None \<Rightarrow> (\<lparr>df_was_owner = False, df_rest_still_active = False, df_resume_without_owner = False\<rparr>, h)
         | Some st \<Rightarrow> update_lock_state h wid st ws owned_hijack now);
          (marked, h2) = release_resume_token h1 ws has_store (df_was_owner flags \<or> owned_hijack)
      in ((flags, marked), h2))"

definition forget_startup :: "hub \<Rightarrow> sock \<Rightarrow> hub" where
  "forget_startup h ws =
     h\<lparr>startup_pending_browsers := startup_pending_browsers h - {ws},
       startup_pending_frames := od_pop (startup_pending_frames h) ws\<rparr>"

definition register_browser_state_snapshot :: "hub \<Rightarrow> string \<Rightarrow> sock \<Rightarrow> time \<Rightarrow> browser_hello" where
  "register_browser_state_snapshot h wid ws now =
     (case find_worker h wid of
        None \<Rightarrow> \<lparr>bh_is_hijacked = False, bh_hijacked_by_me = False, bh_worker_online = False,
                 bh_input_mode = ModeHijack, bh_initial_snapshot = None, bh_resume_token = None\<rparr>
      | Some st \<Rightarrow> \<lparr>bh_is_hijacked = is_hijacked st now, bh_hijacked_by_me = owns st ws now,
                    bh_worker_online = (worker_ws st \<noteq> None), bh_input_mode = input_mode st,
                    bh_initial_snapshot = None, bh_resume_token = None\<rparr>)"

subsection \<open>The registry side of the router\<close>

definition prune_if_idle :: "hub \<Rightarrow> string \<Rightarrow> hub" where
  "prune_if_idle h wid =
     (case find_worker h wid of
        None \<Rightarrow> h
      | Some st \<Rightarrow>
          if worker_ws st = None \<and> browsers st = [] \<and> hijack_owner st = None \<and> rest_session st = None
          then pop_worker h wid else h)"

definition router_set_input_mode :: "hub \<Rightarrow> string \<Rightarrow> input_mode \<Rightarrow> time \<Rightarrow> acq_result \<times> hub" where
  "router_set_input_mode h wid mode now =
     (case find_worker h wid of
        None \<Rightarrow> ((False, Some ''not_found''), h)
      | Some st \<Rightarrow>
          if mode = ModeOpen \<and> is_hijacked st now then ((False, Some ''active_hijack''), h)
          else ((True, None), put_worker h wid (st\<lparr>input_mode := mode, input_mode_set_by_operator := True\<rparr>)))"

definition set_browser_role :: "hub \<Rightarrow> string \<Rightarrow> sock \<Rightarrow> string \<Rightarrow> hub" where
  "set_browser_role h wid ws role =
     (case find_worker h wid of
        None \<Rightarrow> h
      | Some st \<Rightarrow>
          if ws \<in> fst ` set (browsers st)
          then put_worker h wid (st\<lparr>browsers := od_set (browsers st) ws role\<rparr>) else h)"

definition get_worker_browser_role :: "hub \<Rightarrow> string \<Rightarrow> sock \<Rightarrow> string option" where
  "get_worker_browser_role h wid ws =
     (case find_worker h wid of None \<Rightarrow> None | Some st \<Rightarrow> od_get (browsers st) ws)"

record hijack_state_msg =
  hm_hijacked :: bool
  hm_owner :: "string option"
  hm_lease_expires_at :: "time option"
  hm_input_mode :: input_mode

definition hijack_state_msg_for :: "hub \<Rightarrow> string \<Rightarrow> sock \<Rightarrow> time \<Rightarrow> hijack_state_msg" where
  "hijack_state_msg_for h wid ws now =
     (case find_worker h wid of
        None \<Rightarrow> \<lparr>hm_hijacked = False, hm_owner = None, hm_lease_expires_at = None, hm_input_mode = ModeHijack\<rparr>
      | Some st \<Rightarrow>
          let is_dashboard = is_dashboard_hijack_active st now;
              is_rest = has_valid_rest_lease st now
          in \<lparr>hm_hijacked = (is_dashboard \<or> is_rest),
              hm_owner = (if is_dashboard \<and> hijack_owner st = Some ws then Some ''me''
                          else if is_dashboard \<or> is_rest then Some ''other'' else None),
              hm_lease_expires_at =
                (case rest_session st of
                   Some s \<Rightarrow> if is_rest then Some (hs_expires s) else hijack_owner_expires_at st
                 | None \<Rightarrow> hijack_owner_expires_at st),
              hm_input_mode = input_mode st\<rparr>)"

definition get_idle_candidates :: "hub \<Rightarrow> time \<Rightarrow> time \<Rightarrow> (string \<times> time) list" where
  "get_idle_candidates h timeout_s now =
     map (\<lambda>(wid, st). (wid, last_activity_at st))
         (filter (\<lambda>(wid, st). browsers st = [] \<and> timeout_s < now - last_activity_at st) (workers h))"

definition browser_count :: "hub \<Rightarrow> string \<Rightarrow> nat" where
  "browser_count h wid = (case find_worker h wid of None \<Rightarrow> 0 | Some st \<Rightarrow> length (browsers st))"

definition browser_count_total :: "hub \<Rightarrow> nat" where
  "browser_count_total h = sum_list (map (\<lambda>(wid, st). length (browsers st)) (workers h))"

end
