(* ===== verification/HubEvents.thy ===== *)
theory HubEvents
  imports HubConn
begin

text \<open>
  The event ring of a worker and the snapshots committed into it (\<open>append_event\<close>,
  \<open>commit_snapshot_event\<close> and \<open>get_recent_events\<close> of \<open>hub/router_impl.py\<close>), and the frames held
  for browsers inside their startup window (\<open>hub/router_broadcast.py\<close>). The stream redactor and
  \<open>extract_prompt_id\<close> are arguments; payloads are values, so the deep copies of the code are not
  visible. A field name is a Python string (\<open>pykey\<close>).
\<close>

definition pykey :: "string \<Rightarrow> pystr" where
  "pykey s = map of_char s"

type_synonym redactor = "string \<Rightarrow> jdict \<Rightarrow> jdict"

subsection \<open>Appending\<close>

definition redacted_event_types :: "string set" where
  "redacted_event_types = {''term'', ''snapshot'', ''analysis'', ''annotation''}"

definition data_string :: "jdict \<Rightarrow> pystr option" where
  "data_string p = (case od_get p (pykey ''data'') of Some (JStr s) \<Rightarrow> Some s | _ \<Rightarrow> None)"

definition redact_event_payload :: "redactor \<Rightarrow> string \<Rightarrow> jdict \<Rightarrow> jdict" where
  "redact_event_payload red etype payload =
     (if etype = ''term'' \<and> data_string payload = None then payload else red etype payload)"

definition stored_payload :: "hub \<Rightarrow> redactor \<Rightarrow> string \<Rightarrow> jdict \<Rightarrow> jdict" where
  "stored_payload h red etype data =
     (let p1 = (if etype \<in> redacted_event_types then redact_event_payload red etype data else data) in
      if etype = ''term'' then
        (case data_string p1 of
           None \<Rightarrow> p1
         | Some raw \<Rightarrow>
             if max_event_data_chars h < length raw
             then od_set p1 (pykey ''data'') (JStr (take (max_event_data_chars h) raw)) else p1)
      else p1)"

text \<open>\<open>deque.append\<close> with a \<open>maxlen\<close>, then \<open>events[0]["seq"]\<close>; \<open>maxlen\<close> is at least 1 in a hub.\<close>

definition push_event :: "worker_state \<Rightarrow> event \<Rightarrow> worker_state" where
  "push_event st e =
     (let evs = deque_of (st_events st @ [e]) (events_maxlen st)
      in st\<lparr>st_events := evs, min_event_seq := ev_seq (hd evs)\<rparr>)"

definition append_event :: "hub \<Rightarrow> redactor \<Rightarrow> string \<Rightarrow> string \<Rightarrow> jdict \<Rightarrow> time \<Rightarrow> event \<times> hub" where
  "append_event h red wid etype data ts =
     (let payload = stored_payload h red etype data in
      case find_worker h wid of
        None \<Rightarrow> (\<lparr>ev_seq = 0, ev_ts = ts, ev_type = etype, ev_data = payload\<rparr>, h)
      | Some st \<Rightarrow>
          let st1 = st\<lparr>event_seq := event_seq st + 1\<rparr>;
              evt = \<lparr>ev_seq = event_seq st1, ev_ts = ts, ev_type = etype, ev_data = payload\<rparr>
          in (evt, put_worker h wid (push_event st1 evt)))"

text \<open>
  \<open>commit_snapshot_event\<close>: \<open>None\<close> is a dropped commit. The snapshot is stored raw with its
  sequence number; the ring gets the redacted payload.
\<close>

definition commit_snapshot_event ::
  "hub \<Rightarrow> redactor \<Rightarrow> (jdict \<Rightarrow> json) \<Rightarrow> string \<Rightarrow> jdict \<Rightarrow> sock option \<Rightarrow> time \<Rightarrow> snapshot option \<times> hub" where
  "commit_snapshot_event h red prompt_id wid snap expected ts =
     (let frame_type = (case od_get snap (pykey ''type'') of Some v \<Rightarrow> v | None \<Rightarrow> JStr (pykey ''snapshot''));
          raw = od_set (od_pop snap (pykey ''type'')) (pykey ''prompt_id'') (prompt_id snap);
          payload = fold (\<lambda>(k, v) d. od_set d k v) (redact_event_payload red ''snapshot'' raw)
                         [(pykey ''type'', frame_type)]
      in case find_worker h wid of
           None \<Rightarrow> if expected \<noteq> None then (None, h) else (Some (od_set snap (pykey ''event_seq'') (JInt 0)), h)
         | Some st \<Rightarrow>
             if expected \<noteq> None \<and> worker_ws st \<noteq> expected then (None, h)
             else
               let st1 = st\<lparr>event_seq := event_seq st + 1\<rparr>;
                   committed = od_set snap (pykey ''event_seq'') (JInt (int (event_seq st1)));
                   evt = \<lparr>ev_seq = event_seq st1, ev_ts = ts, ev_type = ''snapshot'',
                          ev_data = od_set payload (pykey ''event_seq'') (JInt (int (event_seq st1)))\<rparr>
               in (Some committed, put_worker h wid (push_event (st1\<lparr>last_snapshot := Some committed\<rparr>) evt)))"

definition get_recent_events :: "hub \<Rightarrow> string \<Rightarrow> int \<Rightarrow> event list" where
  "get_recent_events h wid limit =
     (case find_worker h wid of
        None \<Rightarrow> []
      | Some st \<Rightarrow> deque_of (st_events st) (nat (max 1 (min limit 500))))"

subsection \<open>The ring's invariant\<close>

text \<open>Consecutive sequence numbers up to \<open>event_seq\<close>, at most \<open>maxlen\<close> of them.\<close>

definition ring_ok :: "worker_state \<Rightarrow> bool" where
  "ring_ok st \<longleftrightarrow>
     0 < events_maxlen st \<and> length (st_events st) \<le> events_maxlen st \<and>
     length (st_events st) \<le> event_seq st \<and>
     map ev_seq (st_events st) = [event_seq st + 1 - length (st_events st) ..< event_seq st + 1]"

lemma length_deque_of [simp]: "length (deque_of xs m) = min (length xs) m"
  by (simp add: deque_of_def)

lemma map_deque_of: "map f (deque_of xs m) = deque_of (map f xs) m"
  by (simp add: deque_of_def drop_map)

lemma deque_of_upt: "n \<le> k \<Longrightarrow> deque_of [k - n ..< k] m = [k - min n m ..< k]"
proof -
  assume "n \<le> k"
  then have "k - n + (n - m) = k - min n m" by simp
  with \<open>n \<le> k\<close> show ?thesis by (simp add: deque_of_def drop_upt)
qed

lemma ring_ok_new [simp]: "ring_ok (new_worker_state i now)"
  by (simp add: ring_ok_def new_worker_state_def)

lemma upt_snoc: "j \<le> k \<Longrightarrow> [j ..< k] @ [k] = [j ..< Suc k]"
  by simp

lemma ring_seqs_push:
  assumes ok: "ring_ok st" and e: "ev_seq e = event_seq st + 1"
  shows "map ev_seq (deque_of (st_events st @ [e]) (events_maxlen st))
           = [event_seq st + 2 - min (length (st_events st) + 1) (events_maxlen st) ..< event_seq st + 2]"
proof -
  let ?m = "events_maxlen st" and ?n = "length (st_events st)" and ?q = "event_seq st"
  have le: "?n + 1 \<le> ?q + 2" and m: "map ev_seq (st_events st) = [?q + 1 - ?n ..< ?q + 1]"
    using ok by (simp_all add: ring_ok_def)
  have "map ev_seq (st_events st @ [e]) = [?q + 2 - (?n + 1) ..< ?q + 2]"
    using upt_snoc [of "?q + 1 - ?n" "?q + 1"] m e by (simp del: upt_Suc)
  then show ?thesis
    by (simp only: map_deque_of deque_of_upt [OF le])
qed

lemma ring_push:
  assumes ok: "ring_ok st" and e: "ev_seq e = event_seq st + 1"
  shows "ring_ok (push_event (st\<lparr>event_seq := event_seq st + 1\<rparr>) e)"
proof -
  have "length (st_events st) \<le> event_seq st" using ok by (simp add: ring_ok_def)
  then have "min (Suc (length (st_events st))) (events_maxlen st) \<le> Suc (event_seq st)" by simp
  with ring_seqs_push [OF assms] ok show ?thesis
    by (simp add: ring_ok_def push_event_def Let_def del: upt_Suc)
qed

lemma ring_push_min:
  assumes ok: "ring_ok st" and e: "ev_seq e = event_seq st + 1"
  defines "st' \<equiv> push_event (st\<lparr>event_seq := event_seq st + 1\<rparr>) e"
  shows "min_event_seq st' = event_seq st' + 1 - length (st_events st')"
proof -
  let ?d = "deque_of (st_events st @ [e]) (events_maxlen st)"
  have ne: "?d \<noteq> []" using ok by (simp add: ring_ok_def flip: length_0_conv)
  have "ev_seq (hd ?d) = hd (map ev_seq ?d)" using ne by (simp add: hd_map)
  then show ?thesis
    using ring_seqs_push [OF ok e] ok
    by (simp add: st'_def push_event_def Let_def ring_ok_def del: upt_Suc)
qed

lemma ring_shrink:
  assumes ok: "ring_ok st" and m: "0 < m"
  shows "ring_ok (st\<lparr>st_events := deque_of (st_events st) m, events_maxlen := m\<rparr>)"
proof -
  have le: "length (st_events st) \<le> event_seq st + 1" "min (length (st_events st)) m \<le> event_seq st"
    using ok by (simp_all add: ring_ok_def min_le_iff_disj)
  from deque_of_upt [OF le(1)] le(2) ok m show ?thesis
    by (simp add: ring_ok_def map_deque_of del: upt_Suc)
qed

lemma ring_push_snapshot:
  assumes "ring_ok st" and "ev_seq e = event_seq st + 1"
  shows "ring_ok (push_event (st\<lparr>event_seq := event_seq st + 1, last_snapshot := s\<rparr>) e)"
  using ring_push [OF assms] by (simp add: ring_ok_def push_event_def Let_def)

subsection \<open>Frames held for a browser that is starting up\<close>

definition msg_type :: "jdict \<Rightarrow> json option" where
  "msg_type msg = od_get msg (pykey ''type'')"

definition is_snapshot_frame :: "jdict \<Rightarrow> bool" where
  "is_snapshot_frame msg \<longleftrightarrow> msg_type msg = Some (JStr (pykey ''snapshot''))"

definition survives_startup_window :: "jdict \<Rightarrow> bool" where
  "survives_startup_window msg \<longleftrightarrow>
     od_get msg (pykey ''_channel'') = Some (JStr (pykey ''http'')) \<or>
     msg_type msg \<in> (\<lambda>t. Some (JStr (pykey t))) ` {''presence_sync'', ''presence_leave'', ''control_transfer''} \<or>
     is_snapshot_frame msg"

definition startup_buffer_max_frames :: nat where
  "startup_buffer_max_frames = 256"

text \<open>One browser's queue after \<open>msg\<close>: snapshots coalesce, anything else is bounded.\<close>

definition hold_frame :: "jdict \<Rightarrow> jdict list \<Rightarrow> jdict list" where
  "hold_frame msg queued =
     (if is_snapshot_frame msg then filter (\<lambda>f. \<not> is_snapshot_frame f) queued @ [msg]
      else if startup_buffer_max_frames \<le> length queued then queued
      else queued @ [msg])"

definition buffer_for_startup_browsers :: "hub \<Rightarrow> worker_state \<Rightarrow> jdict \<Rightarrow> hub" where
  "buffer_for_startup_browsers h st msg =
     fold (\<lambda>ws h.
             if ws \<notin> startup_pending_browsers h then h
             else
               let queued = (case od_get (startup_pending_frames h) ws of Some q \<Rightarrow> q | None \<Rightarrow> [])
               in h\<lparr>startup_pending_frames := od_set (startup_pending_frames h) ws (hold_frame msg queued)\<rparr>)
          (map fst (browsers st)) h"

text \<open>
  One turn of the loop of \<open>activate_browser_broadcasts\<close> under the lock: \<open>Some batch\<close> is what is
  written next, \<open>None\<close> that the socket has been released (or is gone) and the loop returns.
\<close>

definition activate_browser_turn :: "hub \<Rightarrow> string \<Rightarrow> sock \<Rightarrow> jdict list option \<times> hub" where
  "activate_browser_turn h wid ws =
     (case od_get (startup_pending_frames h) ws of
        Some (f # fs) \<Rightarrow> (Some (f # fs), h\<lparr>startup_pending_frames := od_set (startup_pending_frames h) ws []\<rparr>)
      | _ \<Rightarrow>
          let h1 = h\<lparr>startup_pending_frames := od_pop (startup_pending_frames h) ws\<rparr> in
          (None,
           (case find_worker h1 wid of
              None \<Rightarrow> h1
            | Some st \<Rightarrow>
                if ws \<in> fst ` set (browsers st)
                then h1\<lparr>startup_pending_browsers := startup_pending_browsers h1 - {ws}\<rparr> else h1)))"

definition activate_browser_failed :: "hub \<Rightarrow> sock \<Rightarrow> hub" where
  "activate_browser_failed h ws = h\<lparr>startup_pending_frames := od_pop (startup_pending_frames h) ws\<rparr>"

text \<open>
  The lock section of \<open>_broadcast_to_current_browsers\<close>: who is sent the frame now, and the hub
  with the frame held for the others. \<open>None\<close>: nothing is sent. The second component of
  \<open>expected\<close> is the event sequence number the snapshot was committed under.
\<close>

definition is_current_snapshot :: "worker_state \<Rightarrow> sock \<Rightarrow> int \<Rightarrow> bool" where
  "is_current_snapshot st expected_worker expected_seq \<longleftrightarrow>
     worker_ws st = Some expected_worker \<and>
     (case last_snapshot st of
        None \<Rightarrow> False
      | Some s \<Rightarrow> od_get s (pykey ''event_seq'') = Some (JInt expected_seq))"

definition broadcast_targets ::
  "hub \<Rightarrow> string \<Rightarrow> jdict \<Rightarrow> (sock \<times> int) option \<Rightarrow> (sock \<times> string) list option \<times> hub" where
  "broadcast_targets h wid msg expected =
     (case find_worker h wid of
        None \<Rightarrow> (None, h)
      | Some st \<Rightarrow>
          if (case expected of Some (w, q) \<Rightarrow> \<not> is_current_snapshot st w q | None \<Rightarrow> False) then (None, h)
          else (Some (filter (\<lambda>(ws, role). ws \<notin> startup_pending_browsers h) (browsers st)),
                if survives_startup_window msg then buffer_for_startup_browsers h st msg else h))"

text \<open>The check made again after the policy has been evaluated, right before the writes.\<close>

definition broadcast_still_current :: "hub \<Rightarrow> string \<Rightarrow> (sock \<times> int) option \<Rightarrow> bool" where
  "broadcast_still_current h wid expected =
     (case expected of
        None \<Rightarrow> True
      | Some (w, q) \<Rightarrow> (case find_worker h wid of None \<Rightarrow> False | Some st \<Rightarrow> is_current_snapshot st w q))"

end
