(* ===== verification/HubSteps.thy ===== *)
theory HubSteps
  imports HubEvents
begin

text \<open>
  What each operation of the hub does to one worker's state, in the two forms the transition
  system needs: \<open>keeps\<close> for the sections that run outside the fence (owner, session identifier,
  generation and reservation stay as they are) and \<open>moves\<close> for the sections under the fence
  (ownership may change, and then the generation goes up).
\<close>

subsection \<open>The lease invariant of one worker\<close>

definition lease_ok :: "time \<Rightarrow> worker_state \<Rightarrow> bool" where
  "lease_ok now st \<longleftrightarrow>
     wst_wf st \<and>
     \<not> (is_dashboard_hijack_active st now \<and> has_valid_rest_lease st now) \<and>
     (hijack_pending st \<noteq> None \<longrightarrow> \<not> is_hijacked st now)"

lemma lease_ok_mono: "lease_ok t st \<Longrightarrow> t \<le> u \<Longrightarrow> lease_ok u st"
  by (auto simp: lease_ok_def intro: dashboard_active_antimono rest_active_antimono hijacked_antimono)

definition session_id :: "worker_state \<Rightarrow> string option" where
  "session_id st = map_option hs_id (rest_session st)"

definition keeps :: "time \<Rightarrow> worker_state \<Rightarrow> worker_state \<Rightarrow> bool" where
  "keeps now st st' \<longleftrightarrow>
     st_ident st' = st_ident st \<and> hijack_pending st' = hijack_pending st \<and>
     ownership_generation st' = ownership_generation st \<and> hijack_owner st' = hijack_owner st \<and>
     session_id st' = session_id st \<and> (lease_ok now st \<longrightarrow> lease_ok now st') \<and>
     (ring_ok st \<longrightarrow> ring_ok st')"

definition moves :: "time \<Rightarrow> worker_state \<Rightarrow> worker_state \<Rightarrow> bool" where
  "moves now st st' \<longleftrightarrow>
     st_ident st' = st_ident st \<and> hijack_pending st' = hijack_pending st \<and>
     ownership_generation st \<le> ownership_generation st' \<and>
     (ownership_generation st' = ownership_generation st \<longrightarrow>
        hijack_owner st' = hijack_owner st \<and> session_id st' = session_id st) \<and>
     (lease_ok now st \<longrightarrow> hijack_pending st = None \<longrightarrow> lease_ok now st') \<and>
     (ring_ok st \<longrightarrow> ring_ok st')"

lemma keeps_moves: "keeps now st st' \<Longrightarrow> moves now st st'"
  by (simp add: keeps_def moves_def)

text \<open>A hub whose registry differs from \<open>h\<close>'s at most in the state under \<open>wid\<close>, as \<open>P\<close> allows.\<close>

definition only :: "(worker_state \<Rightarrow> worker_state \<Rightarrow> bool) \<Rightarrow> string \<Rightarrow> hub \<Rightarrow> hub \<Rightarrow> bool" where
  "only P wid h h' \<longleftrightarrow>
     next_ident h' = next_ident h \<and>
     event_deque_maxlen h' = event_deque_maxlen h \<and>
     dashboard_hijack_lease_s h' = dashboard_hijack_lease_s h \<and>
     (workers h' = workers h \<or>
      (\<exists>st st'. find_worker h wid = Some st \<and> workers h' = od_set (workers h) wid st' \<and> P st st'))"

lemma only_refl [simp]: "only P wid h h"
  by (simp add: only_def)

lemma only_put [intro]:
  "find_worker h wid = Some st \<Longrightarrow> P st st' \<Longrightarrow> only P wid h (put_worker h wid st')"
  by (auto simp: only_def put_worker_def)

lemma only_mono: "only P wid h h' \<Longrightarrow> (\<And>st st'. P st st' \<Longrightarrow> Q st st') \<Longrightarrow> only Q wid h h'"
  by (auto simp: only_def)

text \<open>The lease predicates without a case expression, for the simplifier.\<close>

lemma dash_iff:
  "is_dashboard_hijack_active st now \<longleftrightarrow>
     hijack_owner st \<noteq> None \<and> (\<forall>e. hijack_owner_expires_at st = Some e \<longrightarrow> now < e)"
  by (auto simp: is_dashboard_hijack_active_def split: option.splits)

lemma rest_iff:
  "has_valid_rest_lease st now \<longleftrightarrow> (\<exists>hs. rest_session st = Some hs \<and> now < hs_expires hs)"
  by (auto simp: has_valid_rest_lease_def split: option.splits)

lemmas lease_iffs = is_hijacked_def dash_iff rest_iff
lemmas keeps_defs = keeps_def session_id_def lease_ok_def wst_wf_def lease_iffs
lemmas moves_defs = moves_def session_id_def lease_ok_def wst_wf_def lease_iffs

subsection \<open>Sections outside the fence\<close>

lemma keeps_refl [simp]: "keeps now st st"
  by (simp add: keeps_def)

lemma keeps_renew:
  assumes "0 < dashboard_hijack_lease_s h" and "is_dashboard_hijack_active st now"
  shows "keeps now st (renew_dashboard h st now)"
  using assms
  by (auto simp: keeps_defs renew_dashboard_def ring_ok_def split: option.splits)

text \<open>Fields the lease invariant and the ring do not look at.\<close>

lemma keeps_same:
  assumes "st_ident st' = st_ident st" "hijack_pending st' = hijack_pending st"
    "ownership_generation st' = ownership_generation st" "hijack_owner st' = hijack_owner st"
    "hijack_owner_expires_at st' = hijack_owner_expires_at st" "rest_session st' = rest_session st"
    "st_events st' = st_events st" "events_maxlen st' = events_maxlen st" "event_seq st' = event_seq st"
  shows "keeps now st st'"
  using assms by (auto simp: keeps_defs ring_ok_def)

lemma keeps_fields [simp]:
  "keeps now st (st\<lparr>last_activity_at := v1\<rparr>)"
  "keeps now st (st\<lparr>is_tunnel_worker := v2\<rparr>)"
  "keeps now st (st\<lparr>last_snapshot := v3\<rparr>)"
  "keeps now st (st\<lparr>worker_ws := v4\<rparr>)"
  "keeps now st (st\<lparr>browsers := v5\<rparr>)"
  "keeps now st (st\<lparr>input_mode := v6\<rparr>)"
  "keeps now st (st\<lparr>input_mode := v6, input_mode_set_by_operator := v7\<rparr>)"
  "keeps now st (st\<lparr>input_mode := v6, input_mode_set_by_operator := v7, protocol_version := v8\<rparr>)"
  "keeps now st (st\<lparr>input_mode := v6, protocol_version := v8\<rparr>)"
  by (rule keeps_same; simp)+

lemma keeps_push:
  assumes "ev_seq e = event_seq st + 1"
  shows "keeps now st (push_event (st\<lparr>event_seq := event_seq st + 1\<rparr>) e)"
  using ring_push [OF _ assms] by (auto simp: keeps_defs push_event_def Let_def)

lemma keeps_push_snapshot:
  assumes "ev_seq e = event_seq st + 1"
  shows "keeps now st (push_event (st\<lparr>event_seq := event_seq st + 1, last_snapshot := s\<rparr>) e)"
  using ring_push_snapshot [OF _ assms] by (auto simp: keeps_defs push_event_def Let_def)

named_theorems unfenced \<open>operations that run without the fence leave ownership alone\<close>

lemma only_touch_activity [unfenced]: "only (keeps now) wid h (touch_activity h wid t)"
  by (auto simp: touch_activity_def split: option.splits)

lemma only_touch_if_owner [unfenced]:
  "0 < dashboard_hijack_lease_s h \<Longrightarrow> only (keeps now) wid h (snd (touch_if_owner h wid ws now))"
  by (auto simp: touch_if_owner_def keeps_renew split: option.splits)

lemma only_touch_owner:
  assumes pos: "0 < dashboard_hijack_lease_s h"
    and act: "\<forall>st. find_worker h wid = Some st \<longrightarrow> hijack_owner st \<noteq> None \<longrightarrow> is_dashboard_hijack_active st now"
  shows "only (keeps now) wid h (snd (touch_owner h wid l now))"
proof (cases "find_worker h wid")
  case (Some st)
  have "hijack_owner st \<noteq> None \<Longrightarrow> 0 < d \<Longrightarrow> keeps now st (st\<lparr>hijack_owner_expires_at := Some (now + d)\<rparr>)" for d
    using act Some by (auto simp: keeps_defs ring_ok_def split: option.splits)
  with Some pos show ?thesis
    by (auto simp: touch_owner_def Let_def split: option.splits)
qed (simp add: touch_owner_def)

lemma only_extend_lease:
  assumes pos: "0 < l" and val: "check_valid h wid hid now"
  shows "only (keeps now) wid h (snd (extend_lease h wid hid ow l now))"
proof (cases "find_worker h wid")
  case (Some st)
  show ?thesis
  proof (cases "rest_session st")
    case (Some hs)
    have "hs_id hs = hid \<Longrightarrow>
      keeps now st (st\<lparr>rest_session := Some (hs\<lparr>hs_last_heartbeat := now, hs_expires := now + real_of_int l\<rparr>)\<rparr>)"
      using val pos Some \<open>find_worker h wid = Some st\<close>
      by (auto simp: keeps_defs ring_ok_def check_valid_def split: option.splits)
    with Some \<open>find_worker h wid = Some st\<close> show ?thesis
      by (auto simp: extend_lease_def Let_def)
  qed (use Some in \<open>simp add: extend_lease_def\<close>)
qed (simp add: extend_lease_def)

lemma only_prepare [unfenced]:
  "0 < dashboard_hijack_lease_s h \<Longrightarrow> only (keeps now) wid h (snd (prepare_browser_input h wid ws now))"
  by (auto simp: prepare_browser_input_def keeps_renew split: option.splits)

lemma only_capture_browser [unfenced]:
  "0 < dashboard_hijack_lease_s h \<Longrightarrow> only (keeps now) wid h (snd (capture_browser_ownership h wid ws now))"
  by (auto simp: capture_browser_ownership_def keeps_renew split: option.splits)

lemma only_capture_dashboard [unfenced]:
  "0 < dashboard_hijack_lease_s h \<Longrightarrow> only (keeps now) wid h (snd (capture_dashboard_ownership h wid ws now))"
  by (auto simp: capture_dashboard_ownership_def keeps_renew split: option.splits)

lemma only_send_failed [unfenced]: "only (keeps now) wid h (send_worker_failed h wid ws)"
  by (auto simp: send_worker_failed_def split: option.splits)

lemma only_hello [unfenced]: "only (keeps now) wid h (snd (set_worker_hello h wid mode pv t))"
proof (cases "find_worker h wid")
  case (Some st)
  then show ?thesis
    by (auto simp: set_worker_hello_def Let_def intro!: only_put keeps_same)
qed (simp add: set_worker_hello_def)

lemma only_snapshot [unfenced]: "only (keeps now) wid h (update_last_snapshot h wid s)"
  by (auto simp: update_last_snapshot_def split: option.splits)

lemma only_set_mode [unfenced]: "only (keeps now) wid h (snd (router_set_input_mode h wid mode t))"
  by (auto simp: router_set_input_mode_def split: option.splits)

lemma only_set_role [unfenced]: "only (keeps now) wid h (set_browser_role h wid ws role)"
  by (auto simp: set_browser_role_def split: option.splits)

lemma only_append [unfenced]: "only (keeps now) wid h (snd (append_event h red wid ty d ts))"
  by (auto simp: append_event_def Let_def intro!: only_put keeps_push [simplified] split: option.splits)

lemma only_commit [unfenced]: "only (keeps now) wid h (snd (commit_snapshot_event h red pid wid s ex ts))"
  by (auto simp: commit_snapshot_event_def Let_def intro!: only_put keeps_push_snapshot [simplified] split: option.splits)

subsection \<open>Sections under the fence\<close>

named_theorems fenced \<open>sections that run under the fence\<close>

lemma only_same:
  assumes "same_worker h wid i = Some st" "P st st'"
  shows "only P wid h (put_worker h wid st')"
  using assms by (auto simp: same_worker_Some)

text \<open>Slots only get cleared, and if one is, the generation goes up.\<close>

lemma moves_clearing:
  assumes "st_ident st' = st_ident st" "hijack_pending st' = hijack_pending st"
    and "rest_session st' = rest_session st \<or> rest_session st' = None"
    and "hijack_owner st' = hijack_owner st \<and> hijack_owner_expires_at st' = hijack_owner_expires_at st \<or>
         hijack_owner st' = None \<and> hijack_owner_expires_at st' = None"
    and "ownership_generation st' = Suc (ownership_generation st) \<or>
         ownership_generation st' = ownership_generation st \<and>
         rest_session st' = rest_session st \<and> hijack_owner st' = hijack_owner st"
    and "ring_ok st \<Longrightarrow> ring_ok st'"
  shows "moves now st st'"
  using assms by (auto simp: moves_defs)

lemma ring_ok_cong:
  "st_events st' = st_events st \<Longrightarrow> events_maxlen st' = events_maxlen st \<Longrightarrow> event_seq st' = event_seq st \<Longrightarrow>
   ring_ok st' \<longleftrightarrow> ring_ok st"
  by (simp add: ring_ok_def)

lemma moves_expire:
  assumes "lease_expire (lease_of st) now' = ((r, d), lz)"
  shows "moves now st (if r \<or> d then (apply_lease lz st)\<lparr>ownership_generation := ownership_generation st + 1\<rparr> else st)"
proof (cases "r \<or> d")
  case True
  have "lz_ws lz = (if d then None else hijack_owner st)"
    "lz_ws_expires_at lz = (if d then None else hijack_owner_expires_at st)"
    "lz_session lz = (if r then None else rest_session st)"
    using assms by (auto simp: lease_expire_def lease_of_def Let_def split: if_splits)
  with True show ?thesis by (auto simp: moves_defs ring_ok_def apply_lease_def)
qed (simp add: keeps_moves)

lemma only_expire [fenced]: "only (moves now) wid h (snd (expire_leases_fenced h wid i t))"
proof (cases rule: same_worker_cases [of h wid i])
  case (2 st)
  obtain r d lz where lz: "lease_expire (lease_of st) t = ((r, d), lz)"
    by (metis surj_pair)
  from moves_expire [OF lz] 2 lz show ?thesis
    by (auto simp: expire_leases_fenced_def Let_def intro!: only_put split: if_splits)
qed (simp add: expire_leases_fenced_def)

lemma only_acquire_ws [fenced]:
  "0 < dashboard_hijack_lease_s h \<Longrightarrow> only (moves now) wid h (snd (acquire_ws_fenced h wid i ws now))"
  by (rule same_worker_cases [of h wid i])
     (auto simp: acquire_ws_fenced_def moves_defs ring_ok_def intro!: only_put)

lemma only_reclaim [fenced]:
  "0 < dashboard_hijack_lease_s h \<Longrightarrow> only (moves now) wid h (snd (reclaim_fenced h wid i ws now))"
  by (rule same_worker_cases [of h wid i])
     (auto simp: reclaim_fenced_def moves_defs ring_ok_def intro!: only_put)

lemma moves_drop_owner:
  "moves now st (st\<lparr>hijack_owner := None, hijack_owner_expires_at := None,
                   ownership_generation := ownership_generation st + 1\<rparr>)"
  by (auto simp: moves_defs ring_ok_def)

lemma only_release_ws [fenced]: "only (moves now) wid h (snd (release_ws_fenced h wid i ws t))"
  using moves_drop_owner [of now]
  by (auto simp: release_ws_fenced_def Let_def intro!: only_put split: option.splits)

lemma moves_trans: "moves now a b \<Longrightarrow> moves now b c \<Longrightarrow> moves now a c"
  unfolding moves_def by (metis le_trans le_antisym)

lemma moves_dead: "moves now st (fst (remove_dead_browser t ws (st, n)))"
proof -
  have a: "moves now st (st\<lparr>browsers := b\<rparr>)" for b
    by (rule keeps_moves) simp
  have b: "moves now st (st\<lparr>browsers := b, hijack_owner := None, hijack_owner_expires_at := None,
            ownership_generation := Suc (ownership_generation st)\<rparr>)" for b
    using moves_trans [OF a moves_drop_owner, of b] by simp
  show ?thesis by (simp add: remove_dead_browser_def Let_def a b)
qed

lemma moves_dead_all: "moves now st (fst (fold (remove_dead_browser t) dead (st, n)))"
proof (induction dead arbitrary: st n)
  case (Cons ws dead)
  obtain st' n' where r: "remove_dead_browser t ws (st, n) = (st', n')" by fastforce
  with moves_dead [of now st t ws n] have "moves now st st'" by simp
  with Cons.IH [of st' n'] r show ?case by (auto intro: moves_trans)
qed (simp add: keeps_moves)

lemma only_remove_dead [fenced]: "only (moves now) wid h (snd (remove_dead_fenced h wid i dead t))"
  by (rule same_worker_cases [of h wid i])
     (auto simp: remove_dead_fenced_def case_prod_beta intro!: only_put moves_dead_all)

lemma only_release_rest [fenced]: "only (moves now) wid h (snd (release_rest_fenced h wid i hid t))"
proof (cases rule: same_worker_cases [of h wid i])
  case (2 st)
  have "moves now st (st\<lparr>rest_session := None, ownership_generation := Suc (ownership_generation st)\<rparr>)"
    by (auto simp: moves_defs ring_ok_def)
  with 2 show ?thesis
    by (auto simp: release_rest_fenced_def Let_def intro!: only_put split: option.splits)
qed (simp add: release_rest_fenced_def)

lemma only_send_owned [fenced]:
  "0 < dashboard_hijack_lease_s h \<Longrightarrow> only (keeps now) wid h (snd (send_owned_fenced h wid i cl now))"
  by (rule same_worker_cases [of h wid i])
     (auto simp: send_owned_fenced_def Let_def keeps_renew intro!: only_put split: claimant.splits option.splits)

lemma only_run_owned [fenced]:
  "0 < dashboard_hijack_lease_s h \<Longrightarrow> only (keeps now) wid h (snd (run_owned_fenced h wid i ws gen now))"
  by (rule same_worker_cases [of h wid i])
     (auto simp: run_owned_fenced_def Let_def keeps_renew intro!: only_put split: option.splits)

lemma only_register [fenced]:
  assumes "0 < event_deque_maxlen h"
  shows "only (moves now) wid h (snd (register_worker_fenced h wid i ws tun now))"
proof (cases rule: same_worker_cases [of h wid i])
  case (2 st)
  have "ring_ok st \<Longrightarrow> st_events st' = deque_of (st_events st) (event_deque_maxlen h) \<Longrightarrow>
      events_maxlen st' = event_deque_maxlen h \<Longrightarrow> event_seq st' = event_seq st \<Longrightarrow> ring_ok st'" for st' :: worker_state
    using ring_shrink [OF _ assms, of st] by (simp add: ring_ok_def)
  with 2 show ?thesis
    by (auto simp: register_worker_fenced_def Let_def intro!: only_put moves_clearing split: option.splits)
qed (simp add: register_worker_fenced_def)

lemma only_tunnel [fenced]: "only (keeps now) wid h (set_tunnel_flag_fenced h wid i v)"
  by (rule same_worker_cases [of h wid i]) (auto simp: set_tunnel_flag_fenced_def intro!: only_put)

lemma moves_clear: "moves now st (clear_worker st)"
  by (auto simp: moves_defs ring_ok_def clear_worker_def)

lemma only_deregister [fenced]: "only (moves now) wid h (snd (deregister_worker_fenced h wid i ws))"
  by (rule same_worker_cases [of h wid i])
     (auto simp: deregister_worker_fenced_def intro!: only_put moves_clear)

lemma only_disconnect [fenced]: "only (moves now) wid h (snd (disconnect_worker_fenced h wid i))"
  by (rule same_worker_cases [of h wid i])
     (auto simp: disconnect_worker_fenced_def intro!: only_put moves_clear split: option.splits)

lemma only_force [fenced]: "only (moves now) wid h (snd (force_release_fenced h wid i t))"
proof (cases rule: same_worker_cases [of h wid i])
  case (2 st)
  have "moves now st (st\<lparr>rest_session := None, ownership_generation := Suc (ownership_generation st)\<rparr>)"
    "moves now st (st\<lparr>rest_session := None, hijack_owner := None, hijack_owner_expires_at := None,
                      ownership_generation := Suc (ownership_generation st)\<rparr>)"
    by (auto simp: moves_defs ring_ok_def)
  with 2 show ?thesis
    by (auto simp: force_release_fenced_def Let_def intro!: only_put split: option.splits)
qed (simp add: force_release_fenced_def)

end
