(* ===== verification/HubSystem.thy ===== *)
theory HubSystem
  imports HubSteps
begin

text \<open>
  The hub as a transition system. Coroutines run one at a time and switch only at an \<open>await\<close>, so
  a step is one section under the hub lock. A call that takes a worker's ownership fence is a task:
  it has captured the state (\<open>Waiting\<close>), then holds the fence (\<open>Holding\<close>), runs its section,
  and may keep the fence over a network send (\<open>Reserved\<close>, \<open>Sending\<close>, \<open>SendingControl\<close>).
  \<open>asyncio.Lock\<close> admits one holder: a fence is acquired only when no other task with the same
  identity holds it. Sends succeed, fail or are cancelled, tasks may be cancelled where they
  wait, and the clock may advance between any two steps.

  Two operations of the lease manager trust their callers: \<open>extend_lease\<close> and
  \<open>touch_owner\<close> do not look at the expiry. The heartbeat route calls the first one right after
  \<open>get_rest_session\<close> found the lease alive, and nothing under \<open>server/\<close> calls the second; here
  both are steps only while the lease they renew is alive.
\<close>

subsection \<open>Tasks\<close>

datatype fenced_op =
    OpExpire time
  | OpAcquireRest string string int time
  | OpAcquireWs sock
  | OpReclaim sock
  | OpReleaseWs sock
  | OpRemoveDead "sock list"
  | OpReleaseRest string
  | OpSend claimant
  | OpRunOwned sock nat
  | OpSendUnowned
  | OpRegister sock bool
  | OpTunnelFlag bool
  | OpDeregister sock
  | OpDisconnect
  | OpForceRelease
  | OpCleanup sock bool bool

datatype phase =
    Waiting fenced_op
  | Holding fenced_op
  | Reserved sock string string int time
  | RollingBack string
  | Sending claimant nat bool sock
  | SendingControl sock

type_synonym task = "string \<times> nat \<times> phase"

record system =
  sys_hub :: hub
  sys_now :: time
  sys_tasks :: "nat \<Rightarrow> task option"

fun holds_fence :: "phase \<Rightarrow> bool" where
  "holds_fence (Waiting _) = False"
| "holds_fence _ = True"

text \<open>The first lock section: the identity of the captured state, or \<open>None\<close> for an early return.\<close>

fun op_start :: "fenced_op \<Rightarrow> hub \<Rightarrow> string \<Rightarrow> nat option" where
  "op_start (OpAcquireRest _ _ _ _) h wid = (case acquire_start h wid of Inl _ \<Rightarrow> None | Inr i \<Rightarrow> Some i)"
| "op_start (OpAcquireWs _) h wid = (case acquire_start h wid of Inl _ \<Rightarrow> None | Inr i \<Rightarrow> Some i)"
| "op_start (OpDeregister ws) h wid = deregister_worker_start h wid ws"
| "op_start OpDisconnect h wid = disconnect_worker_start h wid"
| "op_start _ h wid = capture_fence h wid"

definition sending_phase :: "hub \<Rightarrow> string \<Rightarrow> nat \<Rightarrow> claimant \<Rightarrow> string + sock \<Rightarrow> phase option" where
  "sending_phase h wid i cl r =
     (case (r, same_worker h wid i) of
        (Inr w, Some st) \<Rightarrow> Some (Sending cl (ownership_generation st) (input_mode st = ModeOpen) w)
      | _ \<Rightarrow> None)"

text \<open>The section under the fence: what the task does next (\<open>None\<close>: it lets the fence go) and the hub.\<close>

fun run_section :: "fenced_op \<Rightarrow> hub \<Rightarrow> string \<Rightarrow> nat \<Rightarrow> time \<Rightarrow> phase option \<times> hub" where
  "run_section (OpExpire t) h wid i now = (None, snd (expire_leases_fenced h wid i t))"
| "run_section (OpAcquireRest hid ow l t) h wid i now =
     (case acquire_rest_reserve h wid i hid now of
        (Inl e, h') \<Rightarrow> (None, h')
      | (Inr ws, h') \<Rightarrow> (Some (Reserved ws hid ow l t), h'))"
| "run_section (OpAcquireWs ws) h wid i now = (None, snd (acquire_ws_fenced h wid i ws now))"
| "run_section (OpReclaim ws) h wid i now = (None, snd (reclaim_fenced h wid i ws now))"
| "run_section (OpReleaseWs ws) h wid i now = (None, snd (release_ws_fenced h wid i ws now))"
| "run_section (OpRemoveDead dead) h wid i now = (None, snd (remove_dead_fenced h wid i dead now))"
| "run_section (OpReleaseRest hid) h wid i now = (None, snd (release_rest_fenced h wid i hid now))"
| "run_section (OpSend cl) h wid i now =
     (let (r, h') = send_owned_fenced h wid i cl now in (sending_phase h wid i cl r, h'))"
| "run_section (OpRunOwned ws gen) h wid i now =
     (let (r, h') = run_owned_fenced h wid i ws gen now
      in (sending_phase h wid i (ByBrowser ws (Some gen)) r, h'))"
| "run_section OpSendUnowned h wid i now =
     (if send_unowned_fenced h wid i now
      then (case send_worker_target h wid None of Some (w, _) \<Rightarrow> Some (SendingControl w) | None \<Rightarrow> None)
      else None, h)"
| "run_section (OpRegister ws tun) h wid i now = (None, snd (register_worker_fenced h wid i ws tun now))"
| "run_section (OpTunnelFlag v) h wid i now = (None, set_tunnel_flag_fenced h wid i v)"
| "run_section (OpDeregister ws) h wid i now = (None, snd (deregister_worker_fenced h wid i ws))"
| "run_section OpDisconnect h wid i now = (None, snd (disconnect_worker_fenced h wid i))"
| "run_section OpForceRelease h wid i now =
     (let (r, h') = force_release_fenced h wid i now
      in (if r = None then None
          else case send_worker_target h' wid None of Some (w, _) \<Rightarrow> Some (SendingControl w) | None \<Rightarrow> None, h'))"
| "run_section (OpCleanup ws owned has_store) h wid i now =
     (None, snd (cleanup_browser_fenced h wid i ws owned has_store now))"

subsection \<open>Operations that take the lock only\<close>

datatype atomic_op =
    AtTouchActivity string
  | AtTouchIfOwner string sock
  | AtTouchOwner string "int option"
  | AtExtend string string string int
  | AtPrepare string sock
  | AtCaptureBrowser string sock
  | AtCaptureDashboard string sock
  | AtHello string input_mode "int option"
  | AtSnapshot string snapshot
  | AtSetMode string input_mode
  | AtSetRole string sock string
  | AtAppend redactor string string jdict time
  | AtCommit redactor "jdict \<Rightarrow> json" string jdict "sock option" time
  | AtBind string sock string
  | AtForget string sock
  | AtActivate string sock
  | AtBroadcast string jdict "(sock \<times> int) option"

fun at_worker :: "atomic_op \<Rightarrow> string" where
  "at_worker (AtTouchActivity wid) = wid"
| "at_worker (AtTouchIfOwner wid _) = wid"
| "at_worker (AtTouchOwner wid _) = wid"
| "at_worker (AtExtend wid _ _ _) = wid"
| "at_worker (AtPrepare wid _) = wid"
| "at_worker (AtCaptureBrowser wid _) = wid"
| "at_worker (AtCaptureDashboard wid _) = wid"
| "at_worker (AtHello wid _ _) = wid"
| "at_worker (AtSnapshot wid _) = wid"
| "at_worker (AtSetMode wid _) = wid"
| "at_worker (AtSetRole wid _ _) = wid"
| "at_worker (AtAppend _ wid _ _ _) = wid"
| "at_worker (AtCommit _ _ wid _ _ _) = wid"
| "at_worker (AtBind wid _ _) = wid"
| "at_worker (AtForget wid _) = wid"
| "at_worker (AtActivate wid _) = wid"
| "at_worker (AtBroadcast wid _ _) = wid"

fun at_allowed :: "atomic_op \<Rightarrow> hub \<Rightarrow> time \<Rightarrow> bool" where
  "at_allowed (AtTouchOwner wid l) h now =
     (case find_worker h wid of None \<Rightarrow> True
      | Some st \<Rightarrow> hijack_owner st \<noteq> None \<longrightarrow> is_dashboard_hijack_active st now)"
| "at_allowed (AtExtend wid hid ow l) h now = (0 < l \<and> check_valid h wid hid now)"
| "at_allowed _ h now = True"

fun run_atomic :: "atomic_op \<Rightarrow> hub \<Rightarrow> time \<Rightarrow> hub" where
  "run_atomic (AtTouchActivity wid) h now = touch_activity h wid now"
| "run_atomic (AtTouchIfOwner wid ws) h now = snd (touch_if_owner h wid ws now)"
| "run_atomic (AtTouchOwner wid l) h now = snd (touch_owner h wid l now)"
| "run_atomic (AtExtend wid hid ow l) h now = snd (extend_lease h wid hid ow l now)"
| "run_atomic (AtPrepare wid ws) h now = snd (prepare_browser_input h wid ws now)"
| "run_atomic (AtCaptureBrowser wid ws) h now = snd (capture_browser_ownership h wid ws now)"
| "run_atomic (AtCaptureDashboard wid ws) h now = snd (capture_dashboard_ownership h wid ws now)"
| "run_atomic (AtHello wid mode pv) h now = snd (set_worker_hello h wid mode pv now)"
| "run_atomic (AtSnapshot wid s) h now = update_last_snapshot h wid s"
| "run_atomic (AtSetMode wid mode) h now = snd (router_set_input_mode h wid mode now)"
| "run_atomic (AtSetRole wid ws role) h now = set_browser_role h wid ws role"
| "run_atomic (AtAppend red wid ty d ts) h now = snd (append_event h red wid ty d ts)"
| "run_atomic (AtCommit red pid wid s ex ts) h now = snd (commit_snapshot_event h red pid wid s ex ts)"
| "run_atomic (AtBind wid ws t) h now = bind_resume_token h ws t"
| "run_atomic (AtForget wid ws) h now = forget_startup h ws"
| "run_atomic (AtActivate wid ws) h now = snd (activate_browser_turn h wid ws)"
| "run_atomic (AtBroadcast wid msg ex) h now = snd (broadcast_targets h wid msg ex)"

subsection \<open>The step relation\<close>

definition sys_put :: "system \<Rightarrow> hub \<Rightarrow> nat \<Rightarrow> task option \<Rightarrow> system" where
  "sys_put s h tid t = s\<lparr>sys_hub := h, sys_tasks := (sys_tasks s)(tid := t)\<rparr>"

definition fence_free :: "system \<Rightarrow> nat \<Rightarrow> bool" where
  "fence_free s i \<longleftrightarrow> (\<forall>tid wid ph. sys_tasks s tid = Some (wid, i, ph) \<longrightarrow> \<not> holds_fence ph)"

inductive hub_step :: "system \<Rightarrow> system \<Rightarrow> bool" where
  step_start:
    "sys_tasks s tid = None \<Longrightarrow> op_start oper (sys_hub s) wid = Some i \<Longrightarrow>
     hub_step s (sys_put s (sys_hub s) tid (Some (wid, i, Waiting oper)))"
| step_fence:
    "sys_tasks s tid = Some (wid, i, Waiting oper) \<Longrightarrow> fence_free s i \<Longrightarrow>
     hub_step s (sys_put s (sys_hub s) tid (Some (wid, i, Holding oper)))"
| step_section:
    "sys_tasks s tid = Some (wid, i, Holding oper) \<Longrightarrow>
     run_section oper (sys_hub s) wid i (sys_now s) = (next, h') \<Longrightarrow>
     hub_step s (sys_put s h' tid (map_option (\<lambda>p. (wid, i, p)) next))"
| step_rest_paused:
    "sys_tasks s tid = Some (wid, i, Reserved ws hid ow l t) \<Longrightarrow>
     hub_step s (sys_put s (snd (acquire_rest_finalise (sys_hub s) wid i ws hid ow l t)) tid
                   (Some (wid, i, RollingBack hid)))"
| step_rest_pause_failed:
    "sys_tasks s tid = Some (wid, i, Reserved ws hid ow l t) \<Longrightarrow>
     hub_step s (sys_put s (acquire_rest_pause_failed (sys_hub s) wid i ws) tid
                   (Some (wid, i, RollingBack hid)))"
| step_rest_cancelled:
    "sys_tasks s tid = Some (wid, i, Reserved ws hid ow l t) \<Longrightarrow>
     hub_step s (sys_put s (sys_hub s) tid (Some (wid, i, RollingBack hid)))"
| step_rest_finally:
    "sys_tasks s tid = Some (wid, i, RollingBack hid) \<Longrightarrow>
     hub_step s (sys_put s (acquire_rest_rollback (sys_hub s) wid i hid) tid None)"
| step_sent:
    "sys_tasks s tid = Some (wid, i, Sending cl g op_mode w) \<or> sys_tasks s tid = Some (wid, i, SendingControl w) \<Longrightarrow>
     hub_step s (sys_put s (sys_hub s) tid None)"
| step_send_failed:
    "hub_step s (s\<lparr>sys_hub := send_worker_failed (sys_hub s) wid w\<rparr>)"
| step_cancelled:
    "sys_tasks s tid = Some (wid, i, Waiting oper) \<or> sys_tasks s tid = Some (wid, i, Holding oper) \<Longrightarrow>
     hub_step s (sys_put s (sys_hub s) tid None)"
| step_atomic:
    "at_allowed oper (sys_hub s) (sys_now s) \<Longrightarrow>
     hub_step s (s\<lparr>sys_hub := run_atomic oper (sys_hub s) (sys_now s)\<rparr>)"
| step_get_or_create:
    "hub_step s (s\<lparr>sys_hub := snd (get_or_create (sys_hub s) wid (sys_now s))\<rparr>)"
| step_register_worker:
    "hub_step s (s\<lparr>sys_hub := snd (register_worker_start (sys_hub s) wid ws tun (sys_now s))\<rparr>)"
| step_register_browser:
    "hub_step s (s\<lparr>sys_hub := snd (register_browser (sys_hub s) wid ws role defer subject m (sys_now s))\<rparr>)"
| step_prune:
    "hub_step s (s\<lparr>sys_hub := prune_if_idle (sys_hub s) wid\<rparr>)"
| step_tick:
    "sys_now s \<le> u \<Longrightarrow> hub_step s (s\<lparr>sys_now := u\<rparr>)"

text \<open>A hub that has just been built: empty, with the limits clamped as the constructor does.\<close>

definition hub_init :: "system \<Rightarrow> bool" where
  "hub_init s \<longleftrightarrow>
     workers (sys_hub s) = [] \<and> sys_tasks s = (\<lambda>_. None) \<and>
     0 < dashboard_hijack_lease_s (sys_hub s) \<and> 0 < event_deque_maxlen (sys_hub s)"

end
