(* ===== verification/HubInvariant.thy ===== *)
theory HubInvariant
  imports HubSystem
begin

text \<open>
  The invariant of the hub's transition system, that every step keeps it, and how ownership
  generations order the states of a run. \<open>safe_system\<close> is interpreted on the hub here.
\<close>

subsection \<open>The invariant\<close>

fun rest_phase :: "string \<Rightarrow> phase \<Rightarrow> bool" where
  "rest_phase hid (Reserved ws h ow l t) = (h = hid)"
| "rest_phase hid (RollingBack h) = (h = hid)"
| "rest_phase hid _ = False"

fun sending_ok :: "phase \<Rightarrow> worker_state \<Rightarrow> bool" where
  "sending_ok (Sending (ByBrowser ws gen) g opened w) st =
     (ownership_generation st = g \<and> (opened \<or> hijack_owner st = Some ws))"
| "sending_ok (Sending (ByRest hid) g opened w) st =
     (ownership_generation st = g \<and> session_id st = Some hid)"
| "sending_ok _ st = True"

definition inv_workers :: "hub \<Rightarrow> time \<Rightarrow> bool" where
  "inv_workers h now \<longleftrightarrow>
     od_ok (workers h) \<and> 0 < dashboard_hijack_lease_s h \<and> 0 < event_deque_maxlen h \<and>
     (\<forall>wid st. find_worker h wid = Some st \<longrightarrow> st_ident st < next_ident h \<and> lease_ok now st \<and> ring_ok st) \<and>
     (\<forall>wid wid' st st'. find_worker h wid = Some st \<longrightarrow> find_worker h wid' = Some st' \<longrightarrow>
        st_ident st = st_ident st' \<longrightarrow> wid = wid')"

definition inv_tasks :: "hub \<Rightarrow> (nat \<Rightarrow> task option) \<Rightarrow> bool" where
  "inv_tasks h ts \<longleftrightarrow>
     (\<forall>tid wid i ph. ts tid = Some (wid, i, ph) \<longrightarrow> i < next_ident h) \<and>
     (\<forall>tid wid i ph wid' st. ts tid = Some (wid, i, ph) \<longrightarrow> find_worker h wid' = Some st \<longrightarrow>
        st_ident st = i \<longrightarrow> wid' = wid \<and> sending_ok ph st) \<and>
     (\<forall>tid tid' wid wid' i ph ph'. ts tid = Some (wid, i, ph) \<longrightarrow> ts tid' = Some (wid', i, ph') \<longrightarrow>
        holds_fence ph \<longrightarrow> holds_fence ph' \<longrightarrow> tid = tid') \<and>
     (\<forall>wid st hid. find_worker h wid = Some st \<longrightarrow> hijack_pending st = Some hid \<longrightarrow>
        (\<exists>tid ph. ts tid = Some (wid, st_ident st, ph) \<and> rest_phase hid ph))"

definition hub_inv :: "system \<Rightarrow> bool" where
  "hub_inv s \<longleftrightarrow> inv_workers (sys_hub s) (sys_now s) \<and> inv_tasks (sys_hub s) (sys_tasks s)"

lemma inv_workersD:
  assumes "inv_workers h now" and "find_worker h wid = Some st"
  shows "st_ident st < next_ident h" "lease_ok now st" "ring_ok st"
  using assms unfolding inv_workers_def by blast+

lemma inv_workers_unique:
  "inv_workers h now \<Longrightarrow> find_worker h wid = Some st \<Longrightarrow> find_worker h wid' = Some st' \<Longrightarrow>
   st_ident st = st_ident st' \<Longrightarrow> wid = wid'"
  unfolding inv_workers_def by blast

lemma inv_tasks_bound: "inv_tasks h ts \<Longrightarrow> ts tid = Some (wid, i, ph) \<Longrightarrow> i < next_ident h"
  unfolding inv_tasks_def by blast

lemma inv_tasks_place:
  "inv_tasks h ts \<Longrightarrow> ts tid = Some (wid, i, ph) \<Longrightarrow> find_worker h wid' = Some st \<Longrightarrow> st_ident st = i \<Longrightarrow>
   wid' = wid \<and> sending_ok ph st"
  unfolding inv_tasks_def by blast

lemma inv_tasks_mutex:
  "inv_tasks h ts \<Longrightarrow> ts tid = Some (wid, i, ph) \<Longrightarrow> ts tid' = Some (wid', i, ph') \<Longrightarrow>
   holds_fence ph \<Longrightarrow> holds_fence ph' \<Longrightarrow> tid = tid'"
  unfolding inv_tasks_def by blast

lemma inv_tasks_pending:
  "inv_tasks h ts \<Longrightarrow> find_worker h wid = Some st \<Longrightarrow> hijack_pending st = Some hid \<Longrightarrow>
   \<exists>tid ph. ts tid = Some (wid, st_ident st, ph) \<and> rest_phase hid ph"
  unfolding inv_tasks_def by blast

lemma rest_phase_holds: "rest_phase hid ph \<Longrightarrow> holds_fence ph"
  by (cases ph) auto

lemma hub_init_inv: "hub_init s \<Longrightarrow> hub_inv s"
  by (simp add: hub_init_def hub_inv_def inv_workers_def inv_tasks_def find_worker_def)

lemma hub_invD:
  assumes "hub_inv s" and "find_worker (sys_hub s) wid = Some st"
  shows "st_ident st < next_ident (sys_hub s)" "lease_ok (sys_now s) st" "ring_ok st"
  using assms by (auto simp: hub_inv_def inv_workers_def)

lemma find_od_set: "workers h' = od_set (workers h) wid st' \<Longrightarrow>
    find_worker h' w = (if wid = w then Some st' else find_worker h w)"
  by (simp add: find_worker_def)

lemma find_same: "workers h' = workers h \<Longrightarrow> find_worker h' w = find_worker h w"
  by (simp add: find_worker_def)

subsection \<open>Updates that keep the invariant\<close>

lemma sending_ok_keeps: "keeps now st st' \<Longrightarrow> sending_ok ph st' = sending_ok ph st"
  by (cases "(ph, st)" rule: sending_ok.cases) (auto simp: keeps_def)

lemma inv_unfenced:
  assumes inv: "hub_inv s" and o: "only (keeps (sys_now s)) wid (sys_hub s) h'"
  shows "hub_inv (s\<lparr>sys_hub := h'\<rparr>)"
proof (cases "workers h' = workers (sys_hub s)")
  case True
  with inv o show ?thesis
    by (simp add: hub_inv_def inv_workers_def inv_tasks_def find_same [OF True] only_def)
next
  case False
  with o obtain st st' where st: "find_worker (sys_hub s) wid = Some st"
    and w: "workers h' = od_set (workers (sys_hub s)) wid st'" and k: "keeps (sys_now s) st st'"
    and c: "next_ident h' = next_ident (sys_hub s)" "event_deque_maxlen h' = event_deque_maxlen (sys_hub s)"
      "dashboard_hijack_lease_s h' = dashboard_hijack_lease_s (sys_hub s)"
    by (auto simp: only_def)
  have e: "st_ident st' = st_ident st" "hijack_pending st' = hijack_pending st"
    using k by (auto simp: keeps_def)
  have "inv_workers h' (sys_now s)"
    using inv k st by (auto simp: hub_inv_def inv_workers_def c w find_od_set [OF w] keeps_def split: if_splits)
  moreover have "inv_tasks h' (sys_tasks s)"
    using inv st e
    by (auto simp: hub_inv_def inv_tasks_def c find_od_set [OF w] sending_ok_keeps [OF k] split: if_splits)
  ultimately show ?thesis by (simp add: hub_inv_def)
qed

text \<open>The update a fenced section makes: at most the state it captured, if it is still there.\<close>

definition own_update :: "string \<Rightarrow> nat \<Rightarrow> hub \<Rightarrow> hub \<Rightarrow> bool" where
  "own_update wid i h h' \<longleftrightarrow>
     next_ident h' = next_ident h \<and> event_deque_maxlen h' = event_deque_maxlen h \<and>
     dashboard_hijack_lease_s h' = dashboard_hijack_lease_s h \<and>
     (workers h' = workers h \<or>
      (\<exists>st st'. find_worker h wid = Some st \<and> st_ident st = i \<and> st_ident st' = i \<and>
                workers h' = od_set (workers h) wid st'))"

lemma inv_fenced:
  assumes inv: "hub_inv s" and t: "sys_tasks s tid = Some (wid, i, ph)" and hold: "holds_fence ph"
    and own: "own_update wid i (sys_hub s) h'"
    and new: "\<And>st. find_worker h' wid = Some st \<Longrightarrow> st_ident st = i \<Longrightarrow>
       lease_ok (sys_now s) st \<and> ring_ok st \<and>
       (\<forall>hid. hijack_pending st = Some hid \<longrightarrow> (\<exists>p. nxt = Some p \<and> rest_phase hid p)) \<and>
       (\<forall>p. nxt = Some p \<longrightarrow> sending_ok p st)"
    and nh: "\<And>p. nxt = Some p \<Longrightarrow> holds_fence p"
  shows "hub_inv (sys_put s h' tid (map_option (\<lambda>p. (wid, i, p)) nxt))"
proof -
  let ?h = "sys_hub s" and ?ts = "sys_tasks s"
  let ?ts' = "?ts(tid := map_option (\<lambda>p. (wid, i, p)) nxt)"
  have c: "next_ident h' = next_ident ?h" "event_deque_maxlen h' = event_deque_maxlen ?h"
    "dashboard_hijack_lease_s h' = dashboard_hijack_lease_s ?h"
    using own by (auto simp: own_update_def)
  have iw: "inv_workers ?h (sys_now s)" and it: "inv_tasks ?h ?ts"
    using inv by (simp_all add: hub_inv_def)
  \<comment> \<open>lookups in the new registry\<close>
  have idents: "\<exists>st0. find_worker ?h w = Some st0 \<and> st_ident st0 = st_ident st \<and>
      (st_ident st \<noteq> i \<or> w \<noteq> wid \<longrightarrow> st0 = st)" if "find_worker h' w = Some st" for w st
    using own unfolding own_update_def
  proof (elim conjE disjE exE)
    assume "workers h' = workers ?h"
    from find_same [OF this] that show ?thesis by auto
  next
    fix st1 st2 assume "workers h' = od_set (workers ?h) wid st2"
      and "find_worker ?h wid = Some st1" "st_ident st1 = i" "st_ident st2 = i"
    with find_od_set [OF this(1)] that show ?thesis by (auto split: if_splits)
  qed
  have od: "od_ok (workers h')"
    using own iw by (auto simp: own_update_def inv_workers_def)
  have iw': "inv_workers h' (sys_now s)"
    unfolding inv_workers_def
  proof (intro conjI allI impI)
    fix w st assume f: "find_worker h' w = Some st"
    from idents [OF f] obtain st0 where st0: "find_worker ?h w = Some st0" "st_ident st0 = st_ident st"
      "st_ident st \<noteq> i \<or> w \<noteq> wid \<longrightarrow> st0 = st" by blast
    note old = inv_workersD [OF iw st0(1)]
    show "st_ident st < next_ident h'" using old(1) st0(2) by (simp add: c)
    have "lease_ok (sys_now s) st \<and> ring_ok st"
      using st0(3) old(2,3) new [of st] f by (cases "st_ident st = i \<and> w = wid") auto
    then show "lease_ok (sys_now s) st" "ring_ok st" by simp_all
  next
    fix w w' st st' assume "find_worker h' w = Some st" "find_worker h' w' = Some st'" "st_ident st = st_ident st'"
    with idents [of w st] idents [of w' st'] show "w = w'" by (metis inv_workers_unique [OF iw])
  qed (use od iw c in \<open>simp_all add: inv_workers_def\<close>)
  have others: "?ts t' = Some (w, i, p) \<Longrightarrow> holds_fence p \<Longrightarrow> t' = tid" for t' w p
    using inv_tasks_mutex [OF it _ t _ hold] by blast
  have bound: "i < next_ident ?h" by (rule inv_tasks_bound [OF it t])
  have place: "find_worker ?h w = Some st \<Longrightarrow> st_ident st = i \<Longrightarrow> w = wid" for w st
    using inv_tasks_place [OF it t] by blast
  have it': "inv_tasks h' ?ts'"
    unfolding inv_tasks_def
  proof (intro conjI allI impI)
    fix t' w j p assume "?ts' t' = Some (w, j, p)"
    then show "j < next_ident h'" using inv_tasks_bound [OF it, of t'] bound by (auto simp: c split: if_splits)
  next
    fix t' w j p w' st assume a: "?ts' t' = Some (w, j, p)" "find_worker h' w' = Some st" "st_ident st = j"
    from idents [OF a(2)] obtain st0 where st0: "find_worker ?h w' = Some st0" "st_ident st0 = j"
      "j \<noteq> i \<or> w' \<noteq> wid \<longrightarrow> st0 = st" using a(3) by blast
    show "w' = w"
      using a(1) st0(1,2) inv_tasks_place [OF it, of t' w j p w' st0] place [of w' st0]
      by (auto split: if_splits)
    show "sending_ok p st"
    proof (cases "t' = tid")
      case True
      with a have "j = i" "nxt = Some p" "w = wid" by auto
      with a \<open>w' = w\<close> new [of st] show ?thesis by auto
    next
      case False
      with a have old: "?ts t' = Some (w, j, p)" by simp
      show ?thesis
      proof (cases "j = i")
        case True
        with old False others [of t' w p] have "\<not> holds_fence p" by blast
        then show ?thesis by (cases p) auto
      next
        case False
        with st0 inv_tasks_place [OF it old, of w' st0] show ?thesis by auto
      qed
    qed
  next
    fix t1 t2 w1 w2 j p1 p2
    assume a: "?ts' t1 = Some (w1, j, p1)" "?ts' t2 = Some (w2, j, p2)" "holds_fence p1" "holds_fence p2"
    show "t1 = t2"
    proof (cases "j = i")
      case True
      have "t1 = tid" using a(1,3) others [of t1 w1 p1] True by (cases "t1 = tid") auto
      moreover have "t2 = tid" using a(2,4) others [of t2 w2 p2] True by (cases "t2 = tid") auto
      ultimately show ?thesis by simp
    next
      case False
      with a have "?ts t1 = Some (w1, j, p1)" "?ts t2 = Some (w2, j, p2)" by (auto split: if_splits)
      with a(3,4) show ?thesis using inv_tasks_mutex [OF it] by blast
    qed
  next
    fix w st hid assume a: "find_worker h' w = Some st" "hijack_pending st = Some hid"
    from idents [OF a(1)] obtain st0 where st0: "find_worker ?h w = Some st0" "st_ident st0 = st_ident st"
      "st_ident st \<noteq> i \<or> w \<noteq> wid \<longrightarrow> st0 = st" by blast
    show "\<exists>t' p. ?ts' t' = Some (w, st_ident st, p) \<and> rest_phase hid p"
    proof (cases "st_ident st = i")
      case True
      then have w: "w = wid" using place [OF st0(1)] st0(2) by simp
      have f: "find_worker h' wid = Some st" using a(1) w by simp
      from new [OF f True] a(2) obtain p where p: "nxt = Some p" "rest_phase hid p" by blast
      then show ?thesis using True w by (intro exI [of _ tid]) auto
    next
      case False
      with st0 have "st0 = st" by simp
      with st0(1) inv_tasks_pending [OF it _ a(2)] obtain t' p
        where tp: "?ts t' = Some (w, st_ident st, p)" "rest_phase hid p" by blast
      with t False have "t' \<noteq> tid" by auto
      with tp show ?thesis by (intro exI [of _ t'] exI [of _ p]) simp
    qed
  qed
  from iw' it' show ?thesis by (simp add: hub_inv_def sys_put_def)
qed

subsection \<open>Sections under the fence keep the invariant\<close>

lemma drop_principal_fields [simp, frame_simps]:
  "workers (drop_principal h ws) = workers h" "next_ident (drop_principal h ws) = next_ident h"
  "event_deque_maxlen (drop_principal h ws) = event_deque_maxlen h"
  "dashboard_hijack_lease_s (drop_principal h ws) = dashboard_hijack_lease_s h"
  by (simp_all add: drop_principal_def Let_def split: option.split)

lemma detach_fields [simp, frame_simps]:
  "workers (detach_resume_token h t) = workers h" "next_ident (detach_resume_token h t) = next_ident h"
  "event_deque_maxlen (detach_resume_token h t) = event_deque_maxlen h"
  "dashboard_hijack_lease_s (detach_resume_token h t) = dashboard_hijack_lease_s h"
  by (simp_all add: detach_resume_token_def split: option.split)

lemma release_token_fields [simp, frame_simps]:
  "workers (snd (release_resume_token h ws b m)) = workers h"
  "next_ident (snd (release_resume_token h ws b m)) = next_ident h"
  "event_deque_maxlen (snd (release_resume_token h ws b m)) = event_deque_maxlen h"
  "dashboard_hijack_lease_s (snd (release_resume_token h ws b m)) = dashboard_hijack_lease_s h"
  by (simp_all add: release_resume_token_def Let_def)

lemma only_cong:
  "only P wid h h' \<Longrightarrow> workers h'' = workers h' \<Longrightarrow> next_ident h'' = next_ident h' \<Longrightarrow>
   event_deque_maxlen h'' = event_deque_maxlen h' \<Longrightarrow>
   dashboard_hijack_lease_s h'' = dashboard_hijack_lease_s h' \<Longrightarrow> only P wid h h''"
  by (simp add: only_def)

lemma only_update_lock_state:
  assumes "find_worker h wid = Some st"
  shows "only (moves now) wid h (snd (update_lock_state h wid st ws owned t))"
proof -
  let ?st1 = "st\<lparr>browsers := od_pop (browsers st) ws\<rparr>"
  let ?st2 = "?st1\<lparr>hijack_owner := None, hijack_owner_expires_at := None,
                   ownership_generation := Suc (ownership_generation st)\<rparr>"
  have m: "moves now st ?st1" "moves now st ?st2"
    by (rule moves_clearing; simp add: ring_ok_def)+
  have "only (moves now) wid h (put_worker (drop_principal h ws) wid st')" if "moves now st st'" for st'
    by (rule only_cong [OF only_put [where P = "moves now", OF assms that]]) (simp_all add: put_worker_def)
  with m show ?thesis by (simp add: update_lock_state_def Let_def)
qed

lemma only_cleanup [fenced]: "only (moves now) wid h (snd (cleanup_browser_fenced h wid i ws owned b t))"
proof (cases rule: same_worker_cases [of h wid i])
  case 1
  then show ?thesis
    by (simp add: cleanup_browser_fenced_def Let_def case_prod_beta only_cong [OF only_refl])
next
  case (2 st)
  with only_update_lock_state [OF 2(1), of now ws owned t] show ?thesis
    by (auto simp: cleanup_browser_fenced_def Let_def case_prod_beta elim!: only_cong)
qed

text \<open>Without the captured state, a section leaves the registry alone.\<close>

lemma section_idle:
  assumes "same_worker h wid i = None" and "run_section oper h wid i now = (next, h')"
  shows "workers h' = workers h \<and> (\<forall>p. next = Some p \<longrightarrow> (\<exists>w. p = SendingControl w))"
  using assms
  by (cases oper)
     (auto simp: expire_leases_fenced_def acquire_rest_reserve_def acquire_ws_fenced_def reclaim_fenced_def
       release_ws_fenced_def remove_dead_fenced_def release_rest_fenced_def send_owned_fenced_def
       run_owned_fenced_def send_unowned_fenced_def register_worker_fenced_def set_tunnel_flag_fenced_def
       deregister_worker_fenced_def disconnect_worker_fenced_def force_release_fenced_def
       cleanup_browser_fenced_def sending_phase_def Let_def case_prod_beta same_worker_def
       split: option.splits if_splits prod.splits sum.splits)

lemma section_only:
  assumes "0 < dashboard_hijack_lease_s h" "0 < event_deque_maxlen h"
    and "run_section oper h wid i now = (next, h')" and "\<And>hid ow l t. oper \<noteq> OpAcquireRest hid ow l t"
  shows "only (moves now) wid h h'"
  using assms
proof (cases oper)
  case (OpSend cl)
  with assms only_send_owned [OF assms(1), of now wid i cl] show ?thesis
    by (auto simp: case_prod_beta elim: only_mono intro: keeps_moves)
next
  case (OpRunOwned ws gen)
  with assms only_run_owned [OF assms(1), of now wid i ws gen] show ?thesis
    by (auto simp: case_prod_beta elim: only_mono intro: keeps_moves)
next
  case (OpTunnelFlag v)
  with assms only_tunnel [of now wid h i v] show ?thesis
    by (auto elim: only_mono intro: keeps_moves)
qed (use assms in \<open>auto simp: case_prod_beta intro: fenced split: if_splits\<close>)

lemma send_owned_Inr:
  assumes "send_owned_fenced h wid i cl now = (Inr w, h')"
  obtains st where "same_worker h wid i = Some st"
    and "sending_ok (Sending cl (ownership_generation st) (input_mode st = ModeOpen) w) st"
  using assms
  by (cases cl)
     (auto simp: send_owned_fenced_def Let_def st_can_send_input_def session_id_def
       split: option.splits if_splits prod.splits)

lemma run_owned_Inr:
  assumes "run_owned_fenced h wid i ws gen now = (Inr w, h')"
  obtains st where "same_worker h wid i = Some st"
    and "sending_ok (Sending (ByBrowser ws (Some gen)) (ownership_generation st) (input_mode st = ModeOpen) w) st"
  using assms
  by (auto simp: run_owned_fenced_def Let_def st_can_send_input_def split: option.splits if_splits prod.splits)

lemma pending_holder:
  assumes "hub_inv s" and "sys_tasks s tid = Some (wid, i, ph)" and "holds_fence ph"
    and "find_worker (sys_hub s) w = Some st" and "st_ident st = i" and "hijack_pending st = Some hid"
  shows "rest_phase hid ph"
proof -
  have it: "inv_tasks (sys_hub s) (sys_tasks s)" using assms(1) by (simp add: hub_inv_def)
  obtain tid' ph' where t': "sys_tasks s tid' = Some (w, i, ph')" "rest_phase hid ph'"
    using inv_tasks_pending [OF it assms(4,6)] assms(5) by blast
  have "tid' = tid"
    using inv_tasks_mutex [OF it t'(1) assms(2) rest_phase_holds [OF t'(2)] assms(3)] .
  with t' assms(2) show ?thesis by simp
qed

lemma holding_unreserved:
  assumes "hub_inv s" and "sys_tasks s tid = Some (wid, i, Holding oper)"
    and "find_worker (sys_hub s) w = Some st" and "st_ident st = i"
  shows "hijack_pending st = None"
proof (cases "hijack_pending st")
  case (Some hid)
  have "rest_phase hid (Holding oper)"
    by (rule pending_holder [OF assms(1,2) _ assms(3,4) Some]) simp
  then show ?thesis by simp
qed

lemma onlyD:
  assumes "only P wid h h'" and "find_worker h' wid = Some st'"
  shows "\<exists>st. find_worker h wid = Some st \<and> (st' = st \<or> P st st')"
  using assms unfolding only_def
proof (elim conjE disjE exE)
  assume "workers h' = workers h"
  from find_same [OF this] assms(2) show ?thesis by auto
next
  fix a b assume "find_worker h wid = Some a" "workers h' = od_set (workers h) wid b" "P a b"
  with find_od_set [OF this(2)] assms(2) show ?thesis by auto
qed

lemma own_updateI:
  assumes "only P wid h h'" and "\<And>st st'. P st st' \<Longrightarrow> st_ident st' = st_ident st"
    and "same_worker h wid i = None \<Longrightarrow> workers h' = workers h"
  shows "own_update wid i h h'"
proof (cases "same_worker h wid i")
  case None
  with assms(1,3) show ?thesis by (simp add: only_def own_update_def)
next
  case (Some st0)
  then have st0: "find_worker h wid = Some st0" "st_ident st0 = i" by (simp_all add: same_worker_Some)
  from assms(1) show ?thesis
    unfolding only_def own_update_def
  proof (elim conjE disjE exE, goal_cases)
    case (2 a b)
    with st0 assms(2) [of a b] show ?case by (intro conjI disjI2 exI [of _ a] exI [of _ b]) simp_all
  qed simp
qed

lemma own_update_refl [simp]: "own_update wid i h h"
  by (simp add: own_update_def)

lemma own_put:
  "same_worker h wid i = Some st \<Longrightarrow> st_ident st' = i \<Longrightarrow> own_update wid i h (put_worker h wid st')"
  unfolding own_update_def same_worker_Some
  by (intro conjI disjI2 exI [of _ st] exI [of _ st']) (simp_all add: put_worker_def)

lemma sending_phase_ok:
  assumes "0 < dashboard_hijack_lease_s h" and "run_section oper h wid i now = (Some p, h')"
    and "find_worker h' wid = Some st'" and "st_ident st' = i"
  shows "sending_ok p st'"
proof -
  have *: "sending_ok p st'" if o: "only (keeps now) wid h h'" and sw: "same_worker h wid i = Some st"
    and ok: "sending_ok p st" for st
    using onlyD [OF o assms(3)] sw ok sending_ok_keeps [of now st st' p] by (auto simp: same_worker_Some)
  show ?thesis
  proof (cases oper)
    case (OpSend cl)
    with assms(2) obtain w where w: "send_owned_fenced h wid i cl now = (Inr w, h')"
      and p: "sending_phase h wid i cl (Inr w) = Some p"
      by (auto simp: case_prod_beta sending_phase_def prod_eq_iff split: sum.splits)
    obtain st where "same_worker h wid i = Some st"
      "sending_ok (Sending cl (ownership_generation st) (input_mode st = ModeOpen) w) st"
      by (rule send_owned_Inr [OF w])
    with p * [of st] only_send_owned [OF assms(1), of now wid i cl] w show ?thesis
      by (auto simp: sending_phase_def)
  next
    case (OpRunOwned ws gen)
    with assms(2) obtain w where w: "run_owned_fenced h wid i ws gen now = (Inr w, h')"
      and p: "sending_phase h wid i (ByBrowser ws (Some gen)) (Inr w) = Some p"
      by (auto simp: case_prod_beta sending_phase_def prod_eq_iff split: sum.splits)
    obtain st where "same_worker h wid i = Some st"
      "sending_ok (Sending (ByBrowser ws (Some gen)) (ownership_generation st) (input_mode st = ModeOpen) w) st"
      by (rule run_owned_Inr [OF w])
    with p * [of st] only_run_owned [OF assms(1), of now wid i ws gen] w show ?thesis
      by (auto simp: sending_phase_def)
  qed (use assms in \<open>auto simp: case_prod_beta split: if_splits option.splits sum.splits prod.splits\<close>)
qed

lemma section_holds:
  "run_section oper h wid i now = (Some p, h') \<Longrightarrow> holds_fence p"
  by (cases oper)
     (auto simp: case_prod_beta sending_phase_def split: if_splits option.splits sum.splits prod.splits)

lemma inv_hub_pos:
  "hub_inv s \<Longrightarrow> 0 < dashboard_hijack_lease_s (sys_hub s)" "hub_inv s \<Longrightarrow> 0 < event_deque_maxlen (sys_hub s)"
  by (simp_all add: hub_inv_def inv_workers_def)

lemma inv_reserve:
  assumes inv: "hub_inv s" and t: "sys_tasks s tid = Some (wid, i, Holding (OpAcquireRest hid ow l u))"
    and r: "run_section (OpAcquireRest hid ow l u) (sys_hub s) wid i (sys_now s) = (nxt, h')"
  shows "hub_inv (sys_put s h' tid (map_option (\<lambda>p. (wid, i, p)) nxt))"
proof (rule inv_fenced [OF inv t])
  have r': "(nxt = None \<and> h' = sys_hub s) \<or>
     (\<exists>st ws. same_worker (sys_hub s) wid i = Some st \<and> \<not> is_hijacked st (sys_now s) \<and>
        nxt = Some (Reserved ws hid ow l u) \<and> h' = put_worker (sys_hub s) wid (st\<lparr>hijack_pending := Some hid\<rparr>))"
    using r by (auto simp: acquire_rest_reserve_def is_hijacked_def split: option.splits if_splits prod.splits sum.splits)
  show "own_update wid i (sys_hub s) h'"
    using r' by (auto intro!: own_put simp: same_worker_Some)
  fix st' assume st': "find_worker h' wid = Some st'" "st_ident st' = i"
  show "lease_ok (sys_now s) st' \<and> ring_ok st' \<and>
       (\<forall>hid. hijack_pending st' = Some hid \<longrightarrow> (\<exists>p. nxt = Some p \<and> rest_phase hid p)) \<and>
       (\<forall>p. nxt = Some p \<longrightarrow> sending_ok p st')"
    using r'
  proof (elim disjE conjE exE)
    assume "nxt = None" "h' = sys_hub s"
    with st' have f: "find_worker (sys_hub s) wid = Some st'" by simp
    note holding_unreserved [OF inv t f st'(2)]
    with this hub_invD [OF inv f] \<open>nxt = None\<close> show ?thesis by simp
  next
    fix st ws assume a: "same_worker (sys_hub s) wid i = Some st" "\<not> is_hijacked st (sys_now s)"
      "nxt = Some (Reserved ws hid ow l u)" "h' = put_worker (sys_hub s) wid (st\<lparr>hijack_pending := Some hid\<rparr>)"
    then have f: "find_worker (sys_hub s) wid = Some st" by (simp add: same_worker_Some)
    have e: "st' = st\<lparr>hijack_pending := Some hid\<rparr>" using st'(1) a(4) by simp
    show ?thesis
      using hub_invD(2,3) [OF inv f] a(2,3) unfolding e
      by (simp add: lease_ok_def wst_wf_def lease_iffs ring_ok_def)
  qed
qed (use section_holds r in \<open>blast | simp\<close>)+

lemma inv_section:
  assumes inv: "hub_inv s" and t: "sys_tasks s tid = Some (wid, i, Holding oper)"
    and r: "run_section oper (sys_hub s) wid i (sys_now s) = (nxt, h')"
  shows "hub_inv (sys_put s h' tid (map_option (\<lambda>p. (wid, i, p)) nxt))"
proof (cases "\<exists>hid ow l u. oper = OpAcquireRest hid ow l u")
  case True
  with inv_reserve [OF inv] t r show ?thesis by blast
next
  case False
  note pos = inv_hub_pos [OF inv]
  have o: "only (moves (sys_now s)) wid (sys_hub s) h'"
    using section_only [OF pos r] False by blast
  show ?thesis
  proof (rule inv_fenced [OF inv t])
    show "own_update wid i (sys_hub s) h'"
      by (rule own_updateI [OF o]) (use section_idle r in \<open>auto simp: moves_def\<close>)
    fix st' assume st': "find_worker h' wid = Some st'" "st_ident st' = i"
    from onlyD [OF o st'(1)] obtain st where st: "find_worker (sys_hub s) wid = Some st"
      and m: "st' = st \<or> moves (sys_now s) st st'" by blast
    have "st_ident st = i" using m st'(2) by (auto simp: moves_def)
    note holding_unreserved [OF inv t st this]
    with m hub_invD [OF inv st] have "lease_ok (sys_now s) st' \<and> ring_ok st' \<and> hijack_pending st' = None"
      by (auto simp: moves_def)
    with sending_phase_ok [OF pos(1), of oper wid i "sys_now s" _ h' st'] r st'
    show "lease_ok (sys_now s) st' \<and> ring_ok st' \<and>
       (\<forall>hid. hijack_pending st' = Some hid \<longrightarrow> (\<exists>p. nxt = Some p \<and> rest_phase hid p)) \<and>
       (\<forall>p. nxt = Some p \<longrightarrow> sending_ok p st')" by auto
  qed (use section_holds r in \<open>blast | simp\<close>)+
qed

text \<open>The phases of a REST acquire after the reservation.\<close>

definition rest_upd :: "time \<Rightarrow> string \<Rightarrow> string \<Rightarrow> nat \<Rightarrow> hub \<Rightarrow> hub \<Rightarrow> bool" where
  "rest_upd now hid wid i h h' \<longleftrightarrow> h' = h \<or>
     (\<exists>st st'. same_worker h wid i = Some st \<and> st_ident st' = i \<and> h' = put_worker h wid st' \<and>
        (lease_ok now st \<longrightarrow> hijack_pending st = Some hid \<or> hijack_pending st = hijack_pending st' \<longrightarrow>
           lease_ok now st') \<and>
        (ring_ok st \<longrightarrow> ring_ok st') \<and>
        (hijack_pending st' = None \<or> hijack_pending st' = hijack_pending st))"

lemma rest_upd_refl [simp]: "rest_upd now hid wid i h h"
  by (simp add: rest_upd_def)

lemma rest_upd_put:
  assumes "same_worker h wid i = Some st" and "st_ident st' = i"
    and "lease_ok now st \<Longrightarrow> hijack_pending st = Some hid \<or> hijack_pending st = hijack_pending st' \<Longrightarrow> lease_ok now st'"
    and "ring_ok st \<Longrightarrow> ring_ok st'"
    and "hijack_pending st' = None \<or> hijack_pending st' = hijack_pending st"
  shows "rest_upd now hid wid i h (put_worker h wid st')"
  unfolding rest_upd_def using assms by blast

lemma inv_rest_step:
  assumes inv: "hub_inv s" and t: "sys_tasks s tid = Some (wid, i, ph)" and ph: "rest_phase hid ph"
    and upd: "rest_upd (sys_now s) hid wid i (sys_hub s) h'"
    and nxt: "nxt = Some (RollingBack hid) \<or>
       nxt = None \<and> (\<forall>st'. same_worker h' wid i = Some st' \<longrightarrow> hijack_pending st' \<noteq> Some hid)"
  shows "hub_inv (sys_put s h' tid (map_option (\<lambda>p. (wid, i, p)) nxt))"
proof (rule inv_fenced [OF inv t rest_phase_holds [OF ph]])
  show "own_update wid i (sys_hub s) h'"
    using upd unfolding rest_upd_def by (auto intro!: own_put)
  show "nxt = Some p \<Longrightarrow> holds_fence p" for p using nxt by auto
  fix st' assume st': "find_worker h' wid = Some st'" "st_ident st' = i"
  have only_hid: "hijack_pending st = None \<or> hijack_pending st = Some hid"
    if "find_worker (sys_hub s) wid = Some st" "st_ident st = i" for st
  proof (cases "hijack_pending st")
    case (Some h0)
    have "rest_phase h0 ph" by (rule pending_holder [OF inv t rest_phase_holds [OF ph] that Some])
    with ph have "h0 = hid" by (cases ph) auto
    with Some show ?thesis by simp
  qed simp
  have "lease_ok (sys_now s) st' \<and> ring_ok st' \<and> (hijack_pending st' = None \<or> hijack_pending st' = Some hid)"
    using upd unfolding rest_upd_def
  proof (elim disjE exE conjE)
    assume "h' = sys_hub s"
    with st' have f: "find_worker (sys_hub s) wid = Some st'" by simp
    with hub_invD [OF inv f] only_hid [OF f st'(2)] show ?thesis by simp
  next
    fix st st2 assume a: "same_worker (sys_hub s) wid i = Some st" "h' = put_worker (sys_hub s) wid st2"
      "lease_ok (sys_now s) st \<longrightarrow> hijack_pending st = Some hid \<or> hijack_pending st = hijack_pending st2 \<longrightarrow> lease_ok (sys_now s) st2"
      "ring_ok st \<longrightarrow> ring_ok st2"
    from a(1) have f: "find_worker (sys_hub s) wid = Some st" "st_ident st = i" by (simp_all add: same_worker_Some)
    have e: "st2 = st'" using st'(1) a(2) by simp
    note old = hub_invD(2,3) [OF inv f(1)] only_hid [OF f]
    {
      assume "hijack_pending st2 = None"
      with old a(3,4) show ?thesis unfolding e by auto
    next
      assume "hijack_pending st2 = hijack_pending st"
      with old a(3,4) show ?thesis unfolding e by auto
    }
  qed
  moreover have "nxt = None \<Longrightarrow> hijack_pending st' \<noteq> Some hid"
    using nxt st' by (auto simp: same_worker_Some)
  ultimately show "lease_ok (sys_now s) st' \<and> ring_ok st' \<and>
     (\<forall>hid. hijack_pending st' = Some hid \<longrightarrow> (\<exists>p. nxt = Some p \<and> rest_phase hid p)) \<and>
     (\<forall>p. nxt = Some p \<longrightarrow> sending_ok p st')"
    using nxt by (cases nxt) auto
qed

text \<open>What the three updates do to the lease invariant.\<close>

lemma rest_ok_fields:
  "lease_ok now st \<Longrightarrow> hijack_pending st = Some hid \<or> hijack_pending st = hijack_pending (st\<lparr>rest_session := x, hijack_pending := None, ownership_generation := g\<rparr>) \<Longrightarrow> hijack_pending st = Some hid \<Longrightarrow>
     lease_ok now (st\<lparr>rest_session := x, hijack_pending := None, ownership_generation := g\<rparr>)"
  "lease_ok now st \<Longrightarrow> lease_ok now (st\<lparr>worker_ws := w, ownership_generation := g\<rparr>)"
  "lease_ok now st \<Longrightarrow> lease_ok now (st\<lparr>hijack_pending := None\<rparr>)"
  "ring_ok st \<Longrightarrow> ring_ok (st\<lparr>rest_session := x, hijack_pending := p, ownership_generation := g\<rparr>)"
  "ring_ok st \<Longrightarrow> ring_ok (st\<lparr>worker_ws := w, ownership_generation := g\<rparr>)"
  "ring_ok st \<Longrightarrow> ring_ok (st\<lparr>hijack_pending := p\<rparr>)"
  by (auto simp: lease_ok_def wst_wf_def lease_iffs ring_ok_def)

lemma inv_finalise:
  assumes "hub_inv s" and "sys_tasks s tid = Some (wid, i, Reserved ws hid ow l u)"
  shows "hub_inv (sys_put s (snd (acquire_rest_finalise (sys_hub s) wid i ws hid ow l u)) tid
                   (Some (wid, i, RollingBack hid)))"
proof -
  have "rest_upd (sys_now s) hid wid i (sys_hub s) (snd (acquire_rest_finalise (sys_hub s) wid i ws hid ow l u))"
    by (rule same_worker_cases [of "sys_hub s" wid i])
       (auto simp: acquire_rest_finalise_def simp del: not_None_eq
         intro!: rest_upd_put rest_ok_fields)
  from inv_rest_step [OF assms _ this, of "Some (RollingBack hid)"] show ?thesis by simp
qed

lemma inv_pause_failed:
  assumes "hub_inv s" and "sys_tasks s tid = Some (wid, i, Reserved ws hid ow l u)"
  shows "hub_inv (sys_put s (acquire_rest_pause_failed (sys_hub s) wid i ws) tid (Some (wid, i, RollingBack hid)))"
proof -
  have "rest_upd (sys_now s) hid wid i (sys_hub s) (acquire_rest_pause_failed (sys_hub s) wid i ws)"
    by (rule same_worker_cases [of "sys_hub s" wid i])
       (auto simp: acquire_rest_pause_failed_def simp del: not_None_eq
         intro!: rest_upd_put rest_ok_fields)
  from inv_rest_step [OF assms _ this, of "Some (RollingBack hid)"] show ?thesis by simp
qed

lemma inv_rollback:
  assumes "hub_inv s" and "sys_tasks s tid = Some (wid, i, RollingBack hid)"
  shows "hub_inv (sys_put s (acquire_rest_rollback (sys_hub s) wid i hid) tid None)"
proof -
  have u: "rest_upd (sys_now s) hid wid i (sys_hub s) (acquire_rest_rollback (sys_hub s) wid i hid)"
    by (rule same_worker_cases [of "sys_hub s" wid i])
       (auto simp: acquire_rest_rollback_def simp del: not_None_eq
         intro!: rest_upd_put rest_ok_fields)
  have "same_worker (acquire_rest_rollback (sys_hub s) wid i hid) wid i = Some st' \<Longrightarrow>
      hijack_pending st' \<noteq> Some hid" for st'
    by (rule same_worker_cases [of "sys_hub s" wid i])
       (auto simp: acquire_rest_rollback_def same_worker_Some split: if_splits)
  with inv_rest_step [OF assms _ u, of None] show ?thesis by simp
qed

end
