(* ===== verification/HubRuns.thy ===== *)
theory HubRuns
  imports HubInvariant
begin

text \<open>
  Every step of the hub keeps the invariant, so \<open>safe_system\<close> holds of it; and every step moves
  ownership generations forward only. The properties of the hub's leases follow.
\<close>

subsection \<open>Task bookkeeping\<close>

lemma inv_tasks_set:
  assumes it: "inv_tasks h ts"
    and old: "\<And>wid i ph hid. ts tid = Some (wid, i, ph) \<Longrightarrow> \<not> rest_phase hid ph"
    and new: "\<And>wid i ph. t = Some (wid, i, ph) \<Longrightarrow> i < next_ident h \<and>
       (\<forall>w st. find_worker h w = Some st \<longrightarrow> st_ident st = i \<longrightarrow> w = wid) \<and> (\<forall>st. sending_ok ph st)"
    and fence: "\<And>wid i ph tid' wid' ph'. t = Some (wid, i, ph) \<Longrightarrow> holds_fence ph \<Longrightarrow> tid' \<noteq> tid \<Longrightarrow>
       ts tid' = Some (wid', i, ph') \<Longrightarrow> \<not> holds_fence ph'"
  shows "inv_tasks h (ts(tid := t))"
  unfolding inv_tasks_def
proof (intro conjI allI impI)
  fix t' w i p assume "(ts(tid := t)) t' = Some (w, i, p)"
  then show "i < next_ident h"
    using new [of w i p] inv_tasks_bound [OF it, of t' w i p] by (cases "t' = tid") auto
next
  fix t' w i p w' st assume a: "(ts(tid := t)) t' = Some (w, i, p)" "find_worker h w' = Some st" "st_ident st = i"
  have "w' = w \<and> sending_ok p st"
    using a new [of w i p] inv_tasks_place [OF it _ a(2,3), of t' w p] by (cases "t' = tid") auto
  then show "w' = w" "sending_ok p st" by simp_all
next
  fix t1 t2 w1 w2 i p1 p2
  assume a: "(ts(tid := t)) t1 = Some (w1, i, p1)" "(ts(tid := t)) t2 = Some (w2, i, p2)" "holds_fence p1" "holds_fence p2"
  show "t1 = t2"
  proof (cases "t1 = tid"; cases "t2 = tid")
    assume "t1 = tid" "t2 \<noteq> tid"
    then show ?thesis using a fence [of w1 i p1 t2 w2 p2] by simp
  next
    assume "t1 \<noteq> tid" "t2 = tid"
    then show ?thesis using a fence [of w2 i p2 t1 w1 p1] by simp
  next
    assume "t1 \<noteq> tid" "t2 \<noteq> tid"
    then show ?thesis using a inv_tasks_mutex [OF it, of t1 w1 i p1 t2 w2 p2] by simp
  qed simp
next
  fix w st hid assume a: "find_worker h w = Some st" "hijack_pending st = Some hid"
  obtain t' p where tp: "ts t' = Some (w, st_ident st, p)" "rest_phase hid p"
    using inv_tasks_pending [OF it a] by blast
  then have "t' \<noteq> tid" using old by auto
  with tp show "\<exists>t' p. (ts(tid := t)) t' = Some (w, st_ident st, p) \<and> rest_phase hid p"
    by (intro exI [of _ t'] exI [of _ p]) simp
qed

lemma op_start_find: "op_start oper h wid = Some i \<Longrightarrow> \<exists>st. find_worker h wid = Some st \<and> st_ident st = i"
  by (cases oper)
     (auto simp: capture_fence_def acquire_start_def deregister_worker_start_def disconnect_worker_start_def
       split: option.splits if_splits sum.splits)

lemma inv_start:
  assumes inv: "hub_inv s" and "sys_tasks s tid = None" and "op_start oper (sys_hub s) wid = Some i"
  shows "hub_inv (sys_put s (sys_hub s) tid (Some (wid, i, Waiting oper)))"
proof -
  obtain st where st: "find_worker (sys_hub s) wid = Some st" "st_ident st = i"
    using op_start_find [OF assms(3)] by blast
  have iw: "inv_workers (sys_hub s) (sys_now s)" and it: "inv_tasks (sys_hub s) (sys_tasks s)"
    using inv by (simp_all add: hub_inv_def)
  have "inv_tasks (sys_hub s) ((sys_tasks s)(tid := Some (wid, i, Waiting oper)))"
  proof (rule inv_tasks_set [OF it])
    fix w j ph assume "Some (wid, i, Waiting oper) = Some (w, j, ph)"
    then have e: "w = wid" "j = i" "ph = Waiting oper" by simp_all
    have "\<forall>w st'. find_worker (sys_hub s) w = Some st' \<longrightarrow> st_ident st' = i \<longrightarrow> w = wid"
      using inv_workers_unique [OF iw _ st(1)] st(2) by simp
    then show "j < next_ident (sys_hub s) \<and>
       (\<forall>w' st. find_worker (sys_hub s) w' = Some st \<longrightarrow> st_ident st = j \<longrightarrow> w' = w) \<and> (\<forall>st. sending_ok ph st)"
      using inv_workersD(1) [OF iw st(1)] st(2) e by simp
  qed (use assms(2) in simp_all)
  with iw show ?thesis by (simp add: hub_inv_def sys_put_def)
qed

lemma inv_acquire_fence:
  assumes inv: "hub_inv s" and t: "sys_tasks s tid = Some (wid, i, Waiting oper)" and free: "fence_free s i"
  shows "hub_inv (sys_put s (sys_hub s) tid (Some (wid, i, Holding oper)))"
proof -
  have iw: "inv_workers (sys_hub s) (sys_now s)" and it: "inv_tasks (sys_hub s) (sys_tasks s)"
    using inv by (simp_all add: hub_inv_def)
  have "inv_tasks (sys_hub s) ((sys_tasks s)(tid := Some (wid, i, Holding oper)))"
  proof (rule inv_tasks_set [OF it])
    fix w j ph assume "Some (wid, i, Holding oper) = Some (w, j, ph)"
    then have e: "w = wid" "j = i" "ph = Holding oper" by simp_all
    have "\<forall>w st'. find_worker (sys_hub s) w = Some st' \<longrightarrow> st_ident st' = i \<longrightarrow> w = wid"
      using inv_tasks_place [OF it t] by blast
    then show "j < next_ident (sys_hub s) \<and>
       (\<forall>w' st. find_worker (sys_hub s) w' = Some st \<longrightarrow> st_ident st = j \<longrightarrow> w' = w) \<and> (\<forall>st. sending_ok ph st)"
      using inv_tasks_bound [OF it t] e by simp
  next
    fix w j ph tid' w' ph' assume "Some (wid, i, Holding oper) = Some (w, j, ph)"
      and "sys_tasks s tid' = Some (w', j, ph')"
    with free show "\<not> holds_fence ph'" by (simp add: fence_free_def)
  qed (use t in simp)
  with iw show ?thesis by (simp add: hub_inv_def sys_put_def)
qed

lemma inv_drop:
  assumes inv: "hub_inv s" and t: "sys_tasks s tid = Some (wid, i, ph)" and "\<And>hid. \<not> rest_phase hid ph"
  shows "hub_inv (sys_put s (sys_hub s) tid None)"
proof -
  have it: "inv_tasks (sys_hub s) (sys_tasks s)" using inv by (simp add: hub_inv_def)
  have "inv_tasks (sys_hub s) ((sys_tasks s)(tid := None))"
    by (rule inv_tasks_set [OF it]) (use t assms(3) in auto)
  with inv show ?thesis by (simp add: hub_inv_def sys_put_def)
qed

lemma inv_cancel_reserved:
  assumes inv: "hub_inv s" and t: "sys_tasks s tid = Some (wid, i, Reserved ws hid ow l u)"
  shows "hub_inv (sys_put s (sys_hub s) tid (Some (wid, i, RollingBack hid)))"
  using inv_rest_step [OF inv t, of hid "sys_hub s" "Some (RollingBack hid)"] by simp

subsection \<open>Steps that change the set of workers\<close>

text \<open>Everything the invariant looks at is as before.\<close>

definition quiet :: "hub \<Rightarrow> hub \<Rightarrow> bool" where
  "quiet h h' \<longleftrightarrow> workers h' = workers h \<and> next_ident h' = next_ident h \<and>
     event_deque_maxlen h' = event_deque_maxlen h \<and> dashboard_hijack_lease_s h' = dashboard_hijack_lease_s h"

lemma quiet_only: "quiet h h' \<Longrightarrow> only P wid h h'"
  by (simp add: quiet_def only_def)

lemma quiet_refl [simp]: "quiet h h"
  by (simp add: quiet_def)

lemma quiet_trans: "quiet a b \<Longrightarrow> quiet b c \<Longrightarrow> quiet a c"
  by (simp add: quiet_def)

lemma quiet_bind [simp]: "quiet h (bind_resume_token h ws t)"
  by (simp add: quiet_def bind_resume_token_def Let_def)

lemma quiet_forget [simp]: "quiet h (forget_startup h ws)"
  by (simp add: quiet_def forget_startup_def)

lemma quiet_activate [simp]: "quiet h (snd (activate_browser_turn h wid ws))"
  by (auto simp: quiet_def activate_browser_turn_def Let_def split: option.splits list.splits)

lemma quiet_fold:
  "(\<And>x h. quiet h (f x h)) \<Longrightarrow> quiet h (fold f xs h)"
  by (induction xs arbitrary: h) (auto intro: quiet_trans)

lemma quiet_buffer [simp]: "quiet h (buffer_for_startup_browsers h st msg)"
  unfolding buffer_for_startup_browsers_def
  by (rule quiet_fold) (simp add: quiet_def Let_def)

lemma quiet_broadcast [simp]: "quiet h (snd (broadcast_targets h wid msg ex))"
  by (simp add: broadcast_targets_def split: option.split)

lemma quiet_admit: "admit_principal h ws sub = Some h' \<Longrightarrow> quiet h h'"
  by (auto simp: admit_principal_def quiet_def Let_def split: option.splits if_splits)

lemma quiet_rollback [simp]: "quiet h (rollback_browser_quota h ws)"
  by (auto simp: rollback_browser_quota_def quiet_def Let_def split: option.splits)

lemma inv_quiet: "hub_inv s \<Longrightarrow> quiet (sys_hub s) h' \<Longrightarrow> hub_inv (s\<lparr>sys_hub := h'\<rparr>)"
  by (rule inv_unfenced [OF _ quiet_only])

lemma inv_create:
  assumes inv: "hub_inv s" and none: "find_worker (sys_hub s) wid = None"
    and st: "st_ident st = next_ident (sys_hub s)" "\<And>now. lease_ok now st" "ring_ok st" "hijack_pending st = None"
    and h': "workers h' = od_set (workers (sys_hub s)) wid st" "next_ident h' = Suc (next_ident (sys_hub s))"
      "event_deque_maxlen h' = event_deque_maxlen (sys_hub s)"
      "dashboard_hijack_lease_s h' = dashboard_hijack_lease_s (sys_hub s)"
  shows "hub_inv (s\<lparr>sys_hub := h'\<rparr>)"
proof -
  let ?h = "sys_hub s"
  have iw: "inv_workers ?h (sys_now s)" and it: "inv_tasks ?h (sys_tasks s)"
    using inv by (simp_all add: hub_inv_def)
  note f = find_od_set [OF h'(1)]
  have old: "find_worker ?h w = Some st0 \<Longrightarrow> st_ident st0 < next_ident ?h" for w st0
    by (rule inv_workersD(1) [OF iw])
  have "inv_workers h' (sys_now s)"
    unfolding inv_workers_def
  proof (intro conjI allI impI)
    fix w st1 assume "find_worker h' w = Some st1"
    then have "st1 = st \<or> find_worker ?h w = Some st1" by (auto simp: f split: if_splits)
    then show "st_ident st1 < next_ident h'" "lease_ok (sys_now s) st1" "ring_ok st1"
      using st h'(2) inv_workersD [OF iw, of w st1] by auto
  next
    fix w w' st1 st2 assume "find_worker h' w = Some st1" "find_worker h' w' = Some st2" "st_ident st1 = st_ident st2"
    then show "w = w'"
      using st(1) old [of w st1] old [of w' st2] inv_workers_unique [OF iw, of w st1 w' st2]
      by (cases "w = wid"; cases "w' = wid") (simp_all add: f)
  qed (use iw h' in \<open>auto simp: inv_workers_def\<close>)
  moreover have "inv_tasks h' (sys_tasks s)"
    unfolding inv_tasks_def
  proof (intro conjI allI impI)
    fix t w i p assume "sys_tasks s t = Some (w, i, p)"
    from inv_tasks_bound [OF it this] show "i < next_ident h'" by (simp add: h')
  next
    fix t w i p w' st1 assume a: "sys_tasks s t = Some (w, i, p)" "find_worker h' w' = Some st1" "st_ident st1 = i"
    have "i < next_ident ?h" by (rule inv_tasks_bound [OF it a(1)])
    with a st(1) have "find_worker ?h w' = Some st1" by (auto simp: f split: if_splits)
    from inv_tasks_place [OF it a(1) this a(3)] show "w' = w" "sending_ok p st1" by simp_all
  next
    fix t t' w w' i p p' assume "sys_tasks s t = Some (w, i, p)" "sys_tasks s t' = Some (w', i, p')" "holds_fence p" "holds_fence p'"
    then show "t = t'" using inv_tasks_mutex [OF it] by blast
  next
    fix w st1 hid assume a: "find_worker h' w = Some st1" "hijack_pending st1 = Some hid"
    then have "find_worker ?h w = Some st1" using st(4) by (auto simp: f split: if_splits)
    from inv_tasks_pending [OF it this a(2)]
    show "\<exists>t p. sys_tasks s t = Some (w, st_ident st1, p) \<and> rest_phase hid p" .
  qed
  ultimately show ?thesis by (simp add: hub_inv_def)
qed

lemma new_state_ok [simp]: "lease_ok now (new_worker_state i t)" "hijack_pending (new_worker_state i t) = None"
  "st_ident (new_worker_state i t) = i"
  by (simp_all add: new_worker_state_def lease_ok_def wst_wf_def lease_iffs)

lemma inv_get_or_create:
  assumes "hub_inv s"
  shows "hub_inv (s\<lparr>sys_hub := snd (get_or_create (sys_hub s) wid t)\<rparr>)"
proof (cases "find_worker (sys_hub s) wid")
  case None
  show ?thesis
    by (rule inv_create [OF assms None, of "new_worker_state (next_ident (sys_hub s)) t"])
       (use None in \<open>simp_all add: get_or_create_def create_worker_def Let_def put_worker_def\<close>)
qed (use assms in \<open>simp add: get_or_create_def\<close>)

lemma inv_register_start:
  assumes "hub_inv s"
  shows "hub_inv (s\<lparr>sys_hub := snd (register_worker_start (sys_hub s) wid ws tun t)\<rparr>)"
proof (cases "find_worker (sys_hub s) wid = None \<and> length (workers (sys_hub s)) < max_workers (sys_hub s)")
  case True
  let ?st = "(new_worker_state (next_ident (sys_hub s)) t)
     \<lparr>worker_ws := Some ws, is_tunnel_worker := tun,
      events_maxlen := event_deque_maxlen (sys_hub s), ownership_generation := 1\<rparr>"
  have "lease_ok now ?st" "ring_ok ?st" for now
    using inv_hub_pos(2) [OF assms]
    by (simp_all add: new_worker_state_def lease_ok_def wst_wf_def lease_iffs ring_ok_def)
  with True show ?thesis
    by (intro inv_create [OF assms, of wid ?st])
       (simp_all add: register_worker_start_def Let_def put_worker_def new_worker_state_def)
qed (use assms in \<open>auto simp: register_worker_start_def split: option.split\<close>)

lemma get_or_create_find: "get_or_create h wid t = (st, h') \<Longrightarrow> find_worker h' wid = Some st"
  by (auto simp: get_or_create_def create_worker_def Let_def split: option.splits)

lemma inv_register_browser:
  assumes inv: "hub_inv s"
  shows "hub_inv (s\<lparr>sys_hub := snd (register_browser (sys_hub s) wid ws role defer sub m t)\<rparr>)"
proof (cases "admit_principal (sys_hub s) ws sub")
  case (Some h1)
  note q1 = quiet_admit [OF Some]
  have body: "hub_inv (s\<lparr>sys_hub := h5\<rparr>)"
    if h2: "quiet (sys_hub s) h2" and g: "get_or_create h2 wid t = (st, h3)"
      and q5: "quiet (put_worker h3 wid (st\<lparr>browsers := b\<rparr>)) h5" for h2 h3 h5 st b
  proof -
    have i3: "hub_inv (s\<lparr>sys_hub := h3\<rparr>)"
      using inv_get_or_create [OF inv_quiet [OF inv h2], of wid t] g by simp
    have "only (keeps (sys_now s)) wid h3 (put_worker h3 wid (st\<lparr>browsers := b\<rparr>))"
      using get_or_create_find [OF g] by auto
    with inv_unfenced [OF i3, of wid] have "hub_inv (s\<lparr>sys_hub := put_worker h3 wid (st\<lparr>browsers := b\<rparr>)\<rparr>)" by simp
    from inv_quiet [OF this, of h5] q5 show ?thesis by simp
  qed
  show ?thesis
  proof (cases m)
    case (MintRaises e)
    with Some inv_quiet [OF inv quiet_trans [OF q1 quiet_rollback]] show ?thesis
      by (simp add: register_browser_def)
  next
    case NoStore
    obtain st h3 where "get_or_create h1 wid t = (st, h3)" by fastforce
    with NoStore Some body [OF q1 this] show ?thesis
      by (auto simp: register_browser_def Let_def quiet_def)
  next
    case (Minted tok)
    obtain st h3 where g: "get_or_create (bind_resume_token h1 ws tok) wid t = (st, h3)" by fastforce
    with Minted Some body [OF quiet_trans [OF q1 quiet_bind] g] show ?thesis
      by (auto simp: register_browser_def Let_def quiet_def)
  qed
qed (use inv in \<open>simp add: register_browser_def\<close>)

lemma inv_prune:
  assumes inv: "hub_inv s"
  shows "hub_inv (s\<lparr>sys_hub := prune_if_idle (sys_hub s) wid\<rparr>)"
proof -
  let ?h = "sys_hub s"
  have iw: "inv_workers ?h (sys_now s)" and it: "inv_tasks ?h (sys_tasks s)"
    using inv by (simp_all add: hub_inv_def)
  have ok: "od_ok (workers ?h)" using iw by (simp add: inv_workers_def)
  have f: "find_worker (pop_worker ?h wid) w = Some st \<Longrightarrow> find_worker ?h w = Some st" for w st
    using ok by (simp split: if_splits)
  have c: "next_ident (pop_worker ?h wid) = next_ident ?h"
    "event_deque_maxlen (pop_worker ?h wid) = event_deque_maxlen ?h"
    "dashboard_hijack_lease_s (pop_worker ?h wid) = dashboard_hijack_lease_s ?h"
    by (simp_all add: pop_worker_def)
  have "inv_workers (pop_worker ?h wid) (sys_now s)"
    unfolding inv_workers_def c
  proof (intro conjI allI impI)
    fix w st assume "find_worker (pop_worker ?h wid) w = Some st"
    from inv_workersD [OF iw f [OF this]]
    show "st_ident st < next_ident ?h" "lease_ok (sys_now s) st" "ring_ok st" .
  next
    fix w w' st st' assume "find_worker (pop_worker ?h wid) w = Some st"
      "find_worker (pop_worker ?h wid) w' = Some st'" "st_ident st = st_ident st'"
    then show "w = w'" using inv_workers_unique [OF iw f f] by blast
  next
    show "od_ok (workers (pop_worker ?h wid))" using ok by (simp add: pop_worker_def od_ok_pop)
  qed (use iw in \<open>simp_all add: inv_workers_def\<close>)
  moreover have "inv_tasks (pop_worker ?h wid) (sys_tasks s)"
    unfolding inv_tasks_def c
  proof (intro conjI allI impI)
    fix t w i p w' st assume a: "sys_tasks s t = Some (w, i, p)" "st_ident st = i"
      and "find_worker (pop_worker ?h wid) w' = Some st"
    from inv_tasks_place [OF it a(1) f [OF this(3)] a(2)] show "w' = w" "sending_ok p st" by simp_all
  next
    fix w st hid assume "find_worker (pop_worker ?h wid) w = Some st" "hijack_pending st = Some hid"
    from inv_tasks_pending [OF it f [OF this(1)] this(2)]
    show "\<exists>t p. sys_tasks s t = Some (w, st_ident st, p) \<and> rest_phase hid p" .
  qed (use inv_tasks_bound [OF it] inv_tasks_mutex [OF it] in blast)+
  ultimately have "hub_inv (s\<lparr>sys_hub := pop_worker ?h wid\<rparr>)" by (simp add: hub_inv_def)
  with inv show ?thesis by (simp add: prune_if_idle_def split: option.split)
qed

lemma inv_tick:
  assumes "hub_inv s" and "sys_now s \<le> u"
  shows "hub_inv (s\<lparr>sys_now := u\<rparr>)"
  using assms lease_ok_mono unfolding hub_inv_def inv_workers_def by (simp; blast)

subsection \<open>Every step keeps the invariant\<close>

lemma only_atomic:
  assumes "at_allowed oper h now" and "0 < dashboard_hijack_lease_s h"
  shows "only (keeps now) (at_worker oper) h (run_atomic oper h now)"
  using assms
proof (cases oper)
  case (AtTouchOwner wid l)
  with assms only_touch_owner [OF assms(2), of wid now l] show ?thesis
    by (auto split: option.splits)
next
  case (AtExtend wid hid ow l)
  with assms only_extend_lease [of l h wid hid now ow] show ?thesis by simp
qed (auto intro: unfenced quiet_only)

lemma hub_step_inv: "hub_step s t \<Longrightarrow> hub_inv s \<Longrightarrow> hub_inv t"
proof (induction rule: hub_step.induct)
  case (step_atomic oper s)
  then show ?case
    using inv_unfenced [OF step_atomic(2) only_atomic [OF step_atomic(1)]] by (simp add: inv_hub_pos)
next
  case (step_sent s tid wid i cl g op_mode w)
  then show ?case by (auto intro: inv_drop)
next
  case (step_cancelled s tid wid i oper)
  then show ?case by (auto intro: inv_drop)
next
  case (step_send_failed s wid w)
  then show ?case by (intro inv_unfenced [OF _ only_send_failed])
qed (auto intro: inv_start inv_acquire_fence inv_section inv_finalise inv_pause_failed inv_cancel_reserved
      inv_rollback inv_get_or_create inv_register_start inv_register_browser inv_prune inv_tick)

interpretation hub: safe_system hub_init hub_step hub_inv
  by unfold_locales (auto intro: hub_init_inv hub_step_inv)

subsection \<open>Generations only move forward\<close>

definition epoch_le :: "hub \<Rightarrow> hub \<Rightarrow> bool" where
  "epoch_le h h' \<longleftrightarrow>
     next_ident h \<le> next_ident h' \<and>
     (\<forall>wid st'. find_worker h' wid = Some st' \<longrightarrow> st_ident st' < next_ident h \<longrightarrow>
        (\<exists>st. find_worker h wid = Some st \<and> st_ident st = st_ident st' \<and>
           ownership_generation st \<le> ownership_generation st' \<and>
           (ownership_generation st = ownership_generation st' \<longrightarrow>
              hijack_owner st = hijack_owner st' \<and> session_id st = session_id st')))"

lemma epoch_refl [simp]: "epoch_le h h"
  by (simp add: epoch_le_def)

lemma epoch_trans: "epoch_le a b \<Longrightarrow> epoch_le b c \<Longrightarrow> epoch_le a c"
  unfolding epoch_le_def
proof (intro conjI allI impI; elim conjE)
  fix wid st
  assume b: "\<forall>wid st'. find_worker b wid = Some st' \<longrightarrow> st_ident st' < next_ident a \<longrightarrow>
        (\<exists>st. find_worker a wid = Some st \<and> st_ident st = st_ident st' \<and>
           ownership_generation st \<le> ownership_generation st' \<and>
           (ownership_generation st = ownership_generation st' \<longrightarrow>
              hijack_owner st = hijack_owner st' \<and> session_id st = session_id st'))"
    and c: "\<forall>wid st'. find_worker c wid = Some st' \<longrightarrow> st_ident st' < next_ident b \<longrightarrow>
        (\<exists>st. find_worker b wid = Some st \<and> st_ident st = st_ident st' \<and>
           ownership_generation st \<le> ownership_generation st' \<and>
           (ownership_generation st = ownership_generation st' \<longrightarrow>
              hijack_owner st = hijack_owner st' \<and> session_id st = session_id st'))"
    and n: "next_ident a \<le> next_ident b" and f: "find_worker c wid = Some st" "st_ident st < next_ident a"
  from c f n obtain st2 where st2: "find_worker b wid = Some st2" "st_ident st2 = st_ident st"
    "ownership_generation st2 \<le> ownership_generation st"
    "ownership_generation st2 = ownership_generation st \<longrightarrow>
       hijack_owner st2 = hijack_owner st \<and> session_id st2 = session_id st"
    by (meson less_le_trans)
  with b f(2) obtain st1 where "find_worker a wid = Some st1" "st_ident st1 = st_ident st2"
    "ownership_generation st1 \<le> ownership_generation st2"
    "ownership_generation st1 = ownership_generation st2 \<longrightarrow>
       hijack_owner st1 = hijack_owner st2 \<and> session_id st1 = session_id st2"
    by metis
  with st2 show "\<exists>st0. find_worker a wid = Some st0 \<and> st_ident st0 = st_ident st \<and>
      ownership_generation st0 \<le> ownership_generation st \<and>
      (ownership_generation st0 = ownership_generation st \<longrightarrow>
         hijack_owner st0 = hijack_owner st \<and> session_id st0 = session_id st)"
    by (intro exI [of _ st1]) auto
qed simp

lemma epoch_sub:
  assumes "next_ident h \<le> next_ident h'"
    and "\<And>wid st'. find_worker h' wid = Some st' \<Longrightarrow> st_ident st' < next_ident h \<Longrightarrow> find_worker h wid = Some st'"
  shows "epoch_le h h'"
  using assms by (auto simp: epoch_le_def)

lemma epoch_only:
  assumes "only (moves now) wid h h'"
  shows "epoch_le h h'"
proof -
  from assms have n: "next_ident h' = next_ident h" by (simp add: only_def)
  from assms consider "workers h' = workers h"
    | a b where "find_worker h wid = Some a" "workers h' = od_set (workers h) wid b" "moves now a b"
    unfolding only_def by blast
  then show ?thesis
  proof cases
    case 1
    then show ?thesis using n find_same [OF 1] by (intro epoch_sub) simp_all
  next
    case (2 a b)
    show ?thesis
      unfolding epoch_le_def n
    proof (intro conjI allI impI)
      fix w st' assume f: "find_worker h' w = Some st'" "st_ident st' < next_ident h"
      show "\<exists>st. find_worker h w = Some st \<and> st_ident st = st_ident st' \<and>
           ownership_generation st \<le> ownership_generation st' \<and>
           (ownership_generation st = ownership_generation st' \<longrightarrow>
              hijack_owner st = hijack_owner st' \<and> session_id st = session_id st')"
        using f 2 find_od_set [OF 2(2), of w] by (cases "w = wid") (auto simp: moves_def)
    qed simp
  qed
qed

lemma epoch_keeps: "only (keeps now) wid h h' \<Longrightarrow> epoch_le h h'"
  by (rule epoch_only [of now wid]) (auto elim: only_mono intro: keeps_moves)

lemma epoch_quiet: "quiet h h' \<Longrightarrow> epoch_le h h'"
  by (rule epoch_keeps [OF quiet_only])

lemma epoch_put:
  assumes "same_worker h wid i = Some st" and "st_ident st' = i"
    and "ownership_generation st' = Suc (ownership_generation st) \<or>
      ownership_generation st' = ownership_generation st \<and> hijack_owner st' = hijack_owner st \<and> rest_session st' = rest_session st"
  shows "epoch_le h (put_worker h wid st')"
  using assms by (auto simp: epoch_le_def same_worker_Some session_id_def)

lemma epoch_rest_steps:
  "epoch_le h (snd (acquire_rest_reserve h wid i hid t))"
  "epoch_le h (snd (acquire_rest_finalise h wid i ws hid ow l t))"
  "epoch_le h (acquire_rest_pause_failed h wid i ws)"
  "epoch_le h (acquire_rest_rollback h wid i hid)"
  by (rule same_worker_cases [of h wid i],
      auto simp: acquire_rest_reserve_def acquire_rest_finalise_def acquire_rest_pause_failed_def
        acquire_rest_rollback_def intro!: epoch_put split: option.splits)+

lemma epoch_create:
  "next_ident h \<le> st_ident st \<Longrightarrow> next_ident h \<le> next_ident h' \<Longrightarrow> workers h' = od_set (workers h) wid st \<Longrightarrow>
   epoch_le h h'"
  by (rule epoch_sub) (auto simp: find_od_set split: if_splits)

lemma epoch_get_or_create [simp]: "epoch_le h (snd (get_or_create h wid t))"
proof (cases "find_worker h wid")
  case None
  show ?thesis
    by (rule epoch_create [of h "new_worker_state (next_ident h) t" _ wid])
       (use None in \<open>simp_all add: get_or_create_def create_worker_def Let_def put_worker_def\<close>)
qed (simp add: get_or_create_def)

lemma epoch_register_start [simp]: "epoch_le h (snd (register_worker_start h wid ws tun t))"
proof (cases "find_worker h wid = None \<and> length (workers h) < max_workers h")
  case True
  then show ?thesis
    by (intro epoch_create [of h "(new_worker_state (next_ident h) t)
       \<lparr>worker_ws := Some ws, is_tunnel_worker := tun,
        events_maxlen := event_deque_maxlen h, ownership_generation := 1\<rparr>" _ wid])
       (simp_all add: register_worker_start_def Let_def put_worker_def new_worker_state_def)
qed (auto simp: register_worker_start_def split: option.split)

lemma epoch_register_browser [simp]: "epoch_le h (snd (register_browser h wid ws role defer sub m t))"
proof (cases "admit_principal h ws sub")
  case (Some h1)
  note q1 = quiet_admit [OF Some]
  have body: "epoch_le h h5"
    if h2: "quiet h h2" and g: "get_or_create h2 wid t = (st, h3)"
      and q5: "quiet (put_worker h3 wid (st\<lparr>browsers := b\<rparr>)) h5" for h2 h3 h5 st b
  proof -
    have "epoch_le h2 h3" using epoch_get_or_create [of h2 wid t] g by simp
    moreover have "epoch_le h3 (put_worker h3 wid (st\<lparr>browsers := b\<rparr>))"
      using get_or_create_find [OF g] by (intro epoch_keeps [of t wid]) auto
    ultimately show ?thesis
      using epoch_quiet [OF h2] epoch_quiet [OF q5] by (blast intro: epoch_trans)
  qed
  show ?thesis
  proof (cases m)
    case (MintRaises e)
    with Some epoch_quiet [OF quiet_trans [OF q1 quiet_rollback]] show ?thesis
      by (simp add: register_browser_def)
  next
    case NoStore
    obtain st h3 where "get_or_create h1 wid t = (st, h3)" by fastforce
    with NoStore Some body [OF q1 this] show ?thesis
      by (auto simp: register_browser_def Let_def quiet_def)
  next
    case (Minted tok)
    obtain st h3 where g: "get_or_create (bind_resume_token h1 ws tok) wid t = (st, h3)" by fastforce
    with Minted Some body [OF quiet_trans [OF q1 quiet_bind] g] show ?thesis
      by (auto simp: register_browser_def Let_def quiet_def)
  qed
qed (simp add: register_browser_def)

lemma epoch_prune: "od_ok (workers h) \<Longrightarrow> epoch_le h (prune_if_idle h wid)"
  by (rule epoch_sub) (auto simp: prune_if_idle_def pop_worker_def find_worker_def split: option.splits if_splits)

lemma hub_step_epoch:
  assumes "hub_step s t" and "hub_inv s"
  shows "epoch_le (sys_hub s) (sys_hub t)"
  using assms
proof (induction rule: hub_step.induct)
  case (step_section s tid wid i oper nxt h')
  show ?case
  proof (cases "\<exists>hid ow l u. oper = OpAcquireRest hid ow l u")
    case True
    with step_section(2) epoch_rest_steps(1) [of "sys_hub s" wid i] show ?thesis
      by (auto simp: sys_put_def split: prod.splits sum.splits) (metis snd_conv)+
  next
    case False
    with section_only [OF inv_hub_pos step_section(2)] step_section(3) show ?thesis
      by (auto simp: sys_put_def intro: epoch_only)
  qed
next
  case (step_atomic oper s)
  then show ?case
    using epoch_keeps [OF only_atomic [OF step_atomic(1)]] by (simp add: inv_hub_pos)
next
  case (step_send_failed s wid w)
  then show ?case using epoch_keeps [OF only_send_failed] by simp
next
  case (step_prune s wid)
  then show ?case by (simp add: epoch_prune hub_inv_def inv_workers_def)
qed (simp_all add: sys_put_def epoch_rest_steps)

lemma hub_run_epoch:
  assumes "hub_step\<^sup>*\<^sup>* s t" and "hub_inv s"
  shows "epoch_le (sys_hub s) (sys_hub t)"
  using assms
proof (induction rule: rtranclp_induct)
  case (step t u)
  then show ?case
    using hub_step_epoch [OF step(2) hub.run_inv [OF assms(2) step(1)]] by (blast intro: epoch_trans)
qed simp

end
