(* ===== verification/HubProps.thy ===== *)
theory HubProps
  imports HubRuns
begin

text \<open>
  The properties of the hub's leases: exclusivity, ownership epochs, stability of a send in
  flight, reservations that never get stuck, and what may lower the input mode; and three
  behaviours of single operations that their callers have to know about.
\<close>

subsection \<open>Two short runs used as witnesses\<close>

definition demo_hub :: hub where
  "demo_hub = \<lparr>workers = [], next_ident = 0, max_workers = 4, dashboard_hijack_lease_s = 45,
     event_deque_maxlen = 8, max_event_data_chars = 256, max_connections_per_principal = 1,
     principal_browser_counts = [], ws_principal = [], ws_to_resume_token = [], token_detached = [],
     startup_pending_browsers = {}, startup_pending_frames = []\<rparr>"

definition demo_init :: system where
  "demo_init = \<lparr>sys_hub = demo_hub, sys_now = 0, sys_tasks = (\<lambda>_. None)\<rparr>"

text \<open>A worker on socket 5; browser 7 takes the dashboard lease and sends input.\<close>

definition demo_worker :: worker_state where
  "demo_worker = (new_worker_state 0 0)\<lparr>worker_ws := Some 5, is_tunnel_worker := False,
     events_maxlen := 8, ownership_generation := 1\<rparr>"

definition demo_registered :: system where
  "demo_registered = demo_init\<lparr>sys_hub := demo_hub\<lparr>workers := [(''w'', demo_worker)], next_ident := 1\<rparr>\<rparr>"

definition demo_owned_worker :: worker_state where
  "demo_owned_worker = demo_worker\<lparr>hijack_owner := Some 7, hijack_owner_expires_at := Some 45,
     ownership_generation := 2\<rparr>"

definition demo_owned :: system where
  "demo_owned = demo_registered\<lparr>sys_hub := (sys_hub demo_registered)\<lparr>workers := [(''w'', demo_owned_worker)]\<rparr>\<rparr>"

definition demo_sending :: system where
  "demo_sending = demo_owned\<lparr>sys_tasks := (\<lambda>_. None)(0 := Some (''w'', 0, Sending (ByBrowser 7 None) 2 False 5))\<rparr>"

definition demo_pending_worker :: worker_state where
  "demo_pending_worker = demo_worker\<lparr>hijack_pending := Some ''h''\<rparr>"

definition demo_pending :: system where
  "demo_pending = demo_registered\<lparr>sys_hub := (sys_hub demo_registered)\<lparr>workers := [(''w'', demo_pending_worker)]\<rparr>,
     sys_tasks := (\<lambda>_. None)(0 := Some (''w'', 0, Reserved 5 ''h'' ''bob'' 60 0))\<rparr>"

definition demo_rest_worker :: worker_state where
  "demo_rest_worker = demo_worker\<lparr>rest_session := Some \<lparr>hs_id = ''h'', hs_owner = ''bob'', hs_expires = 60,
     hs_acquired_at = 0, hs_last_heartbeat = 0, hs_acquired_by = None, hs_last_served_event_seq = 0\<rparr>,
     ownership_generation := 2\<rparr>"

definition demo_rest :: system where
  "demo_rest = demo_registered\<lparr>sys_hub := (sys_hub demo_registered)\<lparr>workers := [(''w'', demo_rest_worker)]\<rparr>\<rparr>"

lemmas demo_defs = demo_hub_def demo_init_def demo_worker_def demo_registered_def demo_owned_worker_def
  demo_owned_def demo_sending_def demo_pending_worker_def demo_pending_def demo_rest_worker_def demo_rest_def
  new_worker_state_def

lemma demo_find [simp]:
  "find_worker (sys_hub demo_registered) ''w'' = Some demo_worker"
  "find_worker (sys_hub demo_owned) ''w'' = Some demo_owned_worker"
  "find_worker (sys_hub demo_sending) ''w'' = Some demo_owned_worker"
  "find_worker (sys_hub demo_pending) ''w'' = Some demo_pending_worker"
  "find_worker (sys_hub demo_rest) ''w'' = Some demo_rest_worker"
  by (simp_all add: find_worker_def demo_defs)

lemma demo_reach_registered: "reach hub_init hub_step demo_registered"
proof -
  have "hub_init demo_init" by (simp add: hub_init_def demo_defs)
  then have r: "reach hub_init hub_step demo_init" by (rule reach_init)
  have "hub_step demo_init (demo_init\<lparr>sys_hub := snd (register_worker_start (sys_hub demo_init) ''w'' 5 False (sys_now demo_init))\<rparr>)"
    by (rule step_register_worker)
  moreover have "demo_init\<lparr>sys_hub := snd (register_worker_start (sys_hub demo_init) ''w'' 5 False (sys_now demo_init))\<rparr>
      = demo_registered"
    by (simp add: register_worker_start_def find_worker_def put_worker_def demo_defs Let_def)
  ultimately show ?thesis using reach_step [OF r] by simp
qed

text \<open>A call that runs to its section without interference.\<close>

lemma run_alone:
  assumes "op_start oper (sys_hub s) wid = Some i" and "sys_tasks s = (\<lambda>_. None)"
    and "run_section oper (sys_hub s) wid i (sys_now s) = (nxt, h')"
  shows "hub_step\<^sup>*\<^sup>* s (s\<lparr>sys_hub := h', sys_tasks := (\<lambda>_. None)(0 := map_option (\<lambda>p. (wid, i, p)) nxt)\<rparr>)"
proof -
  let ?s1 = "sys_put s (sys_hub s) 0 (Some (wid, i, Waiting oper))"
  let ?s2 = "sys_put ?s1 (sys_hub ?s1) 0 (Some (wid, i, Holding oper))"
  let ?s3 = "sys_put ?s2 h' 0 (map_option (\<lambda>p. (wid, i, p)) nxt)"
  have "hub_step s ?s1" using assms by (intro step_start) simp_all
  moreover have "hub_step ?s1 ?s2"
    using assms by (intro step_fence) (auto simp: sys_put_def fence_free_def split: if_splits)
  moreover have "hub_step ?s2 ?s3"
    using assms by (intro step_section) (simp_all add: sys_put_def)
  ultimately have "hub_step\<^sup>*\<^sup>* s ?s3"
    by (blast intro: converse_rtranclp_into_rtranclp)
  with assms(2) show ?thesis by (simp add: sys_put_def)
qed

lemma reach_run: "reach i st s \<Longrightarrow> st\<^sup>*\<^sup>* s t \<Longrightarrow> reach i st t"
  by (rotate_tac, induction rule: rtranclp_induct) (auto intro: reach_step)

lemma no_task [simp]: "(\<lambda>_. None)(0 := None) = (\<lambda>_. None)"
  by auto

lemma demo_run_owned: "hub_step\<^sup>*\<^sup>* demo_registered demo_owned"
proof -
  have "op_start (OpAcquireWs 7) (sys_hub demo_registered) ''w'' = Some 0"
    by (simp add: acquire_start_def) (simp add: demo_defs)
  moreover have "run_section (OpAcquireWs 7) (sys_hub demo_registered) ''w'' 0 (sys_now demo_registered) = (None, sys_hub demo_owned)"
    by (simp add: acquire_ws_fenced_def same_worker_def lease_preds)
       (simp add: demo_defs put_worker_def)
  ultimately show ?thesis
    using run_alone [of "OpAcquireWs 7" demo_registered "''w''" 0] by (simp add: demo_owned_def demo_registered_def demo_init_def)
qed

lemma demo_reach_owned: "reach hub_init hub_step demo_owned"
  by (rule reach_run [OF demo_reach_registered demo_run_owned])

lemma demo_reach_sending: "reach hub_init hub_step demo_sending"
proof -
  have "op_start (OpSend (ByBrowser 7 None)) (sys_hub demo_owned) ''w'' = Some 0"
    by (simp add: capture_fence_def) (simp add: demo_defs)
  moreover have "run_section (OpSend (ByBrowser 7 None)) (sys_hub demo_owned) ''w'' 0 (sys_now demo_owned)
      = (Some (Sending (ByBrowser 7 None) 2 False 5), sys_hub demo_owned)"
    by (simp add: send_owned_fenced_def same_worker_def lease_preds st_can_send_input_def sending_phase_def
         renew_dashboard_def Let_def put_worker_def demo_defs find_worker_def)
  ultimately have "hub_step\<^sup>*\<^sup>* demo_owned demo_sending"
    using run_alone [of "OpSend (ByBrowser 7 None)" demo_owned "''w''" 0]
    by (simp add: demo_sending_def demo_owned_def demo_registered_def demo_init_def)
  then show ?thesis by (rule reach_run [OF demo_reach_owned])
qed

lemma demo_reach_pending: "reach hub_init hub_step demo_pending"
proof -
  have "op_start (OpAcquireRest ''h'' ''bob'' 60 0) (sys_hub demo_registered) ''w'' = Some 0"
    by (simp add: acquire_start_def) (simp add: demo_defs)
  moreover have "run_section (OpAcquireRest ''h'' ''bob'' 60 0) (sys_hub demo_registered) ''w'' 0 (sys_now demo_registered)
      = (Some (Reserved 5 ''h'' ''bob'' 60 0), sys_hub demo_pending)"
    by (simp add: acquire_rest_reserve_def same_worker_def lease_preds put_worker_def demo_defs find_worker_def)
  ultimately have "hub_step\<^sup>*\<^sup>* demo_registered demo_pending"
    using run_alone [of "OpAcquireRest ''h'' ''bob'' 60 0" demo_registered "''w''" 0]
    by (simp add: demo_pending_def demo_registered_def demo_init_def)
  then show ?thesis by (rule reach_run [OF demo_reach_registered])
qed

lemma demo_run_rest: "hub_step\<^sup>*\<^sup>* demo_pending demo_rest"
proof -
  let ?s1 = "sys_put demo_pending (snd (acquire_rest_finalise (sys_hub demo_pending) ''w'' 0 5 ''h'' ''bob'' 60 0)) 0
    (Some (''w'', 0, RollingBack ''h''))"
  have a: "hub_step demo_pending ?s1"
    by (rule step_rest_paused) (simp add: demo_pending_def)
  have e: "snd (acquire_rest_finalise (sys_hub demo_pending) ''w'' 0 5 ''h'' ''bob'' 60 0) = sys_hub demo_rest"
    by (simp add: acquire_rest_finalise_def same_worker_def)
       (simp add: demo_defs put_worker_def)
  have "hub_step ?s1 (sys_put ?s1 (acquire_rest_rollback (sys_hub ?s1) ''w'' 0 ''h'') 0 None)"
    by (rule step_rest_finally) (simp add: sys_put_def)
  moreover have "sys_put ?s1 (acquire_rest_rollback (sys_hub ?s1) ''w'' 0 ''h'') 0 None = demo_rest"
    by (simp add: e sys_put_def acquire_rest_rollback_def same_worker_def)
       (simp add: demo_defs)
  ultimately have "hub_step ?s1 demo_rest" by simp
  with a show ?thesis by (rule converse_rtranclp_into_rtranclp [OF _ r_into_rtranclp])
qed

lemma demo_reach_rest: "reach hub_init hub_step demo_rest"
  by (rule reach_run [OF demo_reach_pending demo_run_rest])

subsection \<open>Exclusivity\<close>



text \<open>A REST lease shuts the browsers out: in every reachable state where a worker in hijack
  input mode has an unexpired REST lease, no browser may send it input, whatever its role.\<close>

theorem rest_lease_shuts_out_browsers:
  assumes "reach hub_init hub_step s" and "find_worker (sys_hub s) wid = Some st"
    and "has_valid_rest_lease st (sys_now s)" and "input_mode st = ModeHijack"
  shows "\<not> st_can_send_input st ws (sys_now s)"
  using hub_invD(2) [OF hub.reach_inv [OF assms(1)] assms(2)] assms(3,4)
  by (simp add: lease_ok_def st_can_send_input_def)

theorem rest_lease_shuts_out_browsers_witness:
  "\<not> st_can_send_input demo_rest_worker 7 (sys_now demo_rest)"
  by (rule rest_lease_shuts_out_browsers [OF demo_reach_rest, of "''w''"])
     (simp_all, simp_all add: rest_iff demo_defs)

subsection \<open>Ownership epochs\<close>

text \<open>C2: \<open>ownership_generation\<close> identifies an ownership epoch: along any run, while a worker's
  state object lives, its generation never goes down, and if it is the same at two moments then
  the dashboard owner and the REST lease identifier are the same too. An approval or input that
  captured a generation can therefore not be delivered under a later lease, not even one of the
  same browser.\<close>

theorem ownership_epoch:
  assumes "reach hub_init hub_step s" and "hub_step\<^sup>*\<^sup>* s t"
    and "find_worker (sys_hub s) wid = Some st" and "find_worker (sys_hub t) wid' = Some st'"
    and "st_ident st = st_ident st'"
  shows "wid = wid' \<and> ownership_generation st \<le> ownership_generation st' \<and>
         (ownership_generation st = ownership_generation st' \<longrightarrow>
            hijack_owner st = hijack_owner st' \<and> session_id st = session_id st')"
proof -
  have inv: "hub_inv s" by (rule hub.reach_inv [OF assms(1)])
  then have iw: "inv_workers (sys_hub s) (sys_now s)" by (simp add: hub_inv_def)
  have "st_ident st' < next_ident (sys_hub s)"
    using hub_invD(1) [OF inv assms(3)] assms(5) by simp
  then obtain st0 where st0: "find_worker (sys_hub s) wid' = Some st0" "st_ident st0 = st_ident st'"
    and g: "ownership_generation st0 \<le> ownership_generation st'"
      "ownership_generation st0 = ownership_generation st' \<longrightarrow>
         hijack_owner st0 = hijack_owner st' \<and> session_id st0 = session_id st'"
    using hub_run_epoch [OF assms(2) inv] assms(4) unfolding epoch_le_def by blast
  have "wid = wid'" using inv_workers_unique [OF iw assms(3) st0(1)] st0(2) assms(5) by simp
  with st0(1) assms(3) g show ?thesis by simp
qed

theorem ownership_epoch_witness:
  "ownership_generation demo_worker \<le> ownership_generation demo_owned_worker \<and>
   hijack_owner demo_worker \<noteq> hijack_owner demo_owned_worker \<and>
   ownership_generation demo_worker \<noteq> ownership_generation demo_owned_worker"
  using ownership_epoch [OF demo_reach_registered demo_run_owned, of "''w''" demo_worker "''w''" demo_owned_worker]
  by (simp add: demo_defs)

text \<open>C3: While input is on its way to the worker, ownership cannot change hands: in every
  reachable state, a task that is sending for a browser finds the worker's state at the
  generation it checked, with that browser still the owner (or the input mode was open when it
  was checked); one that is sending for a REST lease finds that lease in place.\<close>

theorem send_in_flight_keeps_owner:
  assumes "reach hub_init hub_step s" and "sys_tasks s tid = Some (wid, i, Sending cl g opened w)"
    and "find_worker (sys_hub s) wid' = Some st" and "st_ident st = i"
  shows "wid' = wid \<and> ownership_generation st = g \<and>
         (case cl of ByBrowser ws _ \<Rightarrow> opened \<or> hijack_owner st = Some ws
                   | ByRest hid \<Rightarrow> session_id st = Some hid)"
proof -
  have "inv_tasks (sys_hub s) (sys_tasks s)"
    using hub.reach_inv [OF assms(1)] by (simp add: hub_inv_def)
  from inv_tasks_place [OF this assms(2,3,4)] show ?thesis by (cases cl) auto
qed

theorem send_in_flight_keeps_owner_witness:
  "ownership_generation demo_owned_worker = 2 \<and> hijack_owner demo_owned_worker = Some 7"
  using send_in_flight_keeps_owner [OF demo_reach_sending, of 0 "''w''" 0 "ByBrowser 7 None" 2 False 5
      "''w''" demo_owned_worker]
  by (simp add: demo_find) (simp add: demo_defs)

subsection \<open>Reservations\<close>



text \<open>The REST acquire when nothing interferes, with the outcome of the pause frame.\<close>

definition try_acquire_rest ::
  "hub \<Rightarrow> string \<Rightarrow> string \<Rightarrow> string \<Rightarrow> int \<Rightarrow> time \<Rightarrow> time \<Rightarrow> bool \<Rightarrow> acq_result \<times> hub" where
  "try_acquire_rest h wid hid ow lease_s now t pause_ok =
     (case acquire_start h wid of
        Inl e \<Rightarrow> ((False, Some e), h)
      | Inr i \<Rightarrow>
          (case acquire_rest_reserve h wid i hid t of
             (Inl e, h1) \<Rightarrow> ((False, Some e), h1)
           | (Inr ws, h1) \<Rightarrow>
               let (r, h2) = (if pause_ok then acquire_rest_finalise h1 wid i ws hid ow lease_s now
                              else ((False, Some ''no_worker''), acquire_rest_pause_failed h1 wid i ws))
               in (r, acquire_rest_rollback h2 wid i hid)))"

declare od_set_set [simp]

lemma put_put [simp]: "put_worker (put_worker h wid a) wid b = put_worker h wid b"
  by (simp add: put_worker_def)

text \<open>Every outcome of a REST acquire: without a worker, in open mode, or while the worker is
  hijacked or reserved it is refused with the error of the first guard that fails, and nothing
  changes; when the pause frame cannot be delivered, the worker socket is dropped, the epoch moves
  on and the reservation is rolled back; otherwise the lease runs for exactly the requested time
  and everything else is as it was.\<close>

theorem acquire_rest_outcomes:
  assumes "find_worker h wid = Some st"
  shows "try_acquire_rest h wid hid ow l now t ok =
    (case worker_ws st of
       None \<Rightarrow> ((False, Some ''no_worker''), h)
     | Some ws \<Rightarrow>
         if hijack_pending st \<noteq> None then ((False, Some ''already_hijacked''), h)
         else if input_mode st = ModeOpen then ((False, Some ''open_mode''), h)
         else if is_hijacked st t then ((False, Some ''already_hijacked''), h)
         else if \<not> ok then
           ((False, Some ''no_worker''),
            put_worker h wid (st\<lparr>worker_ws := None, ownership_generation := ownership_generation st + 1\<rparr>))
         else
           ((True, None),
            put_worker h wid
              (st\<lparr>rest_session := Some \<lparr>hs_id = hid, hs_owner = ow, hs_expires = now + real_of_int l,
                    hs_acquired_at = now, hs_last_heartbeat = now, hs_acquired_by = None,
                    hs_last_served_event_seq = 0\<rparr>,
                  ownership_generation := ownership_generation st + 1\<rparr>)))"
  using assms
  by (auto simp: try_acquire_rest_def acquire_start_def acquire_rest_reserve_def acquire_rest_finalise_def
      acquire_rest_pause_failed_def acquire_rest_rollback_def same_worker_def is_hijacked_def Let_def
      intro!: arg_cong [where f = "put_worker h wid"] split: option.splits)

theorem acquire_rest_outcomes_witness:
  "fst (try_acquire_rest (sys_hub demo_owned) ''w'' ''h2'' ''bob'' 60 1 1 True) = (False, Some ''already_hijacked'')"
  by (subst acquire_rest_outcomes [where st = demo_owned_worker], simp)
     (simp add: lease_iffs demo_defs)

subsection \<open>Input mode\<close>

text \<open>A worker's hello never lowers a mode an operator decided: once an authenticated caller has
  set the mode to \<open>hijack\<close>, any number of hellos, whatever they announce, leaves it at
  \<open>hijack\<close> with the decision standing.\<close>

theorem hello_cannot_lower:
  assumes "router_set_input_mode h wid ModeHijack t = ((True, None), h')"
  shows "\<exists>st. find_worker (fold (\<lambda>(m, pv, u) h. snd (set_worker_hello h wid m pv u)) hellos h') wid = Some st \<and>
              input_mode st = ModeHijack \<and> input_mode_set_by_operator st"
proof (induction hellos rule: rev_induct)
  case Nil
  with assms show ?case
    by (auto simp: router_set_input_mode_def split: option.splits)
next
  case (snoc x hellos)
  obtain m pv u where x: "x = (m, pv, u)" by (cases x)
  from snoc x show ?case
    by (cases m) (auto simp: set_worker_hello_def Let_def)
qed

theorem hello_cannot_lower_witness:
  "\<exists>st. find_worker (snd (set_worker_hello (snd (router_set_input_mode (sys_hub demo_registered) ''w'' ModeHijack 0))
          ''w'' ModeOpen None 1)) ''w'' = Some st \<and> input_mode st = ModeHijack \<and> input_mode_set_by_operator st"
proof -
  have "router_set_input_mode (sys_hub demo_registered) ''w'' ModeHijack 0
      = ((True, None), snd (router_set_input_mode (sys_hub demo_registered) ''w'' ModeHijack 0))"
    by (simp add: router_set_input_mode_def)
  from hello_cannot_lower [OF this, of "[(ModeOpen, None, 1)]"] show ?thesis by simp
qed

subsection \<open>What the callers have to know\<close>

text \<open>The guard of \<open>set_input_mode\<close> does not see a reservation: there is a reachable state in
  which a worker is in open input mode while a REST lease is unexpired, so that an operator's
  browser may type into the terminal the lease was meant to hold exclusively.\<close>

theorem open_mode_under_rest_lease:
  "\<exists>s st. reach hub_init hub_step s \<and> find_worker (sys_hub s) ''w'' = Some st \<and>
     has_valid_rest_lease st (sys_now s) \<and> input_mode st = ModeOpen \<and> st_can_send_input st 9 (sys_now s)"
proof -
  \<comment> \<open>browser 9 joins, the REST acquire is reserved, the mode is lowered, the acquire completes\<close>
  let ?b = "demo_pending\<lparr>sys_hub := snd (register_browser (sys_hub demo_pending) ''w'' 9 ''operator'' False None NoStore (sys_now demo_pending))\<rparr>"
  let ?m = "?b\<lparr>sys_hub := run_atomic (AtSetMode ''w'' ModeOpen) (sys_hub ?b) (sys_now ?b)\<rparr>"
  let ?f = "sys_put ?m (snd (acquire_rest_finalise (sys_hub ?m) ''w'' 0 5 ''h'' ''bob'' 60 0)) 0
    (Some (''w'', 0, RollingBack ''h''))"
  let ?st = "demo_rest_worker\<lparr>browsers := [(9, ''operator'')], input_mode := ModeOpen, input_mode_set_by_operator := True\<rparr>"
  have b: "find_worker (sys_hub ?b) ''w'' = Some (demo_pending_worker\<lparr>browsers := [(9, ''operator'')]\<rparr>)"
    by (simp add: register_browser_def admit_principal_def get_or_create_def Let_def) (simp add: demo_defs)
  have m: "find_worker (sys_hub ?m) ''w'' = Some (demo_pending_worker\<lparr>browsers := [(9, ''operator'')],
      input_mode := ModeOpen, input_mode_set_by_operator := True\<rparr>)"
    using b by (simp add: router_set_input_mode_def) (simp add: lease_iffs demo_defs)
  have f: "find_worker (sys_hub ?f) ''w'' = Some ?st"
    using m by (simp add: acquire_rest_finalise_def same_worker_def sys_put_def) (simp add: demo_defs)
  have "hub_step demo_pending ?b" by (rule step_register_browser)
  moreover have "hub_step ?b ?m" by (rule step_atomic) simp
  moreover have "hub_step ?m ?f" by (rule step_rest_paused) (simp add: demo_pending_def)
  ultimately have "reach hub_init hub_step ?f"
    by (blast intro: reach_step demo_reach_pending)
  moreover have "has_valid_rest_lease ?st (sys_now ?f)" "input_mode ?st = ModeOpen" "st_can_send_input ?st 9 (sys_now ?f)"
    by (simp_all add: rest_iff st_can_send_input_def) (simp_all add: demo_defs sys_put_def)
  ultimately show ?thesis using f by blast
qed

text \<open>\<open>extend_lease\<close> revives an expired lease: it looks at the identifier and the owner only,
  so when it is called for a REST lease that has run out while a dashboard owner has taken over,
  both paths are active afterwards. Its caller must have checked the expiry in the same step.\<close>

theorem extend_revives_expired:
  assumes "find_worker h wid = Some st" and "rest_session st = Some hs" and "hs_expires hs \<le> now"
    and "is_dashboard_hijack_active st now" and "0 < l"
  shows "\<exists>st'. find_worker (snd (extend_lease h wid (hs_id hs) (hs_owner hs) l now)) wid = Some st' \<and>
           is_dashboard_hijack_active st' now \<and> has_valid_rest_lease st' now"
  using assms by (auto simp: extend_lease_def Let_def lease_iffs)

theorem extend_revives_expired_witness:
  "\<exists>st'. find_worker (snd (extend_lease
       (put_worker demo_hub ''w'' (demo_rest_worker\<lparr>hijack_owner := Some 7, hijack_owner_expires_at := Some 200\<rparr>))
       ''w'' ''h'' ''bob'' 60 100)) ''w'' = Some st' \<and>
     is_dashboard_hijack_active st' 100 \<and> has_valid_rest_lease st' 100"
proof -
  let ?hs = "\<lparr>hs_id = ''h'', hs_owner = ''bob'', hs_expires = 60, hs_acquired_at = 0, hs_last_heartbeat = 0,
     hs_acquired_by = None, hs_last_served_event_seq = 0\<rparr>"
  let ?st = "demo_rest_worker\<lparr>hijack_owner := Some 7, hijack_owner_expires_at := Some 200\<rparr>"
  have "rest_session ?st = Some ?hs" "is_dashboard_hijack_active ?st 100"
    by (simp_all add: demo_defs lease_iffs)
  from extend_revives_expired [of "put_worker demo_hub ''w'' ?st" "''w''" ?st ?hs 100 60, OF _ this(1) _ this(2)]
  show ?thesis by simp
qed

end
