(* ===== verification/HubQuota.thy ===== *)
theory HubQuota
  imports HubProps
begin

text \<open>
  The limit on a principal's concurrent browser connections (\<open>register_browser\<close>,
  \<open>_rollback_browser_quota\<close> and \<open>_update_lock_state\<close> of \<open>hub/connection.py\<close>): the counter is the
  number of that principal's sockets the hub still holds, it never exceeds the limit, and a
  connection is refused exactly when the limit is reached. A disconnect gives its slot back only
  when the worker is still registered; the last property is what happens when it is not.
\<close>

subsection \<open>The counter and what it counts\<close>

definition quota_count :: "hub \<Rightarrow> string \<Rightarrow> nat" where
  "quota_count h s = (case od_get (principal_browser_counts h) s of None \<Rightarrow> 0 | Some c \<Rightarrow> c)"

definition open_sockets :: "hub \<Rightarrow> string \<Rightarrow> sock list" where
  "open_sockets h s = map fst (filter (\<lambda>(ws, s'). s' = s) (ws_principal h))"

definition quota_ok :: "hub \<Rightarrow> bool" where
  "quota_ok h \<longleftrightarrow> od_ok (ws_principal h) \<and> od_ok (principal_browser_counts h) \<and>
     (\<forall>s. quota_count h s = length (open_sockets h s) \<and> quota_count h s \<le> max_connections_per_principal h)"

lemma quota_okD:
  assumes "quota_ok h"
  shows "od_ok (ws_principal h)" "od_ok (principal_browser_counts h)"
    "quota_count h s = length (open_sockets h s)" "length (open_sockets h s) \<le> max_connections_per_principal h"
  using assms unfolding quota_ok_def by (blast, blast, blast, metis)

text \<open>What an operation that leaves the quota alone keeps.\<close>

definition same_quota :: "hub \<Rightarrow> hub \<Rightarrow> bool" where
  "same_quota h h' \<longleftrightarrow> ws_principal h' = ws_principal h \<and>
     principal_browser_counts h' = principal_browser_counts h \<and>
     max_connections_per_principal h' = max_connections_per_principal h"

lemma same_quota_ok: "same_quota h h' \<Longrightarrow> quota_ok h' = quota_ok h"
  by (simp add: same_quota_def quota_ok_def quota_count_def open_sockets_def)

lemma same_quota_count: "same_quota h h' \<Longrightarrow> quota_count h' s = quota_count h s"
  by (simp add: same_quota_def quota_count_def)

lemma same_quota_open: "same_quota h h' \<Longrightarrow> open_sockets h' s = open_sockets h s"
  by (simp add: same_quota_def open_sockets_def)

lemma open_set_absent:
  "od_get m ws = None \<Longrightarrow> map fst (filter (\<lambda>(w, s'). s' = s) (od_set m ws v)) =
     map fst (filter (\<lambda>(w, s'). s' = s) m) @ (if v = s then [ws] else [])"
  by (induction m ws v rule: od_set.induct) (auto split: if_splits)

lemma open_pop:
  "od_ok m \<Longrightarrow> length (filter (\<lambda>(w, s'). s' = s) (od_pop m ws)) =
     length (filter (\<lambda>(w, s'). s' = s) m) - (if od_get m ws = Some s then 1 else 0)"
proof (induction m ws rule: od_pop.induct)
  case (2 k v m ws)
  show ?case
  proof (cases "k = ws")
    case False
    have "od_get m ws = Some s \<Longrightarrow> 0 < length (filter (\<lambda>(w, s'). s' = s) m)"
      by (auto simp: filter_empty_conv dest: od_get_in)
    with False 2 show ?thesis by (auto simp: Suc_diff_Suc)
  qed simp
qed simp

text \<open>Dropping a socket's entry, which a disconnect and a rolled back connect share.\<close>

lemma drop_principal_quota:
  assumes "quota_ok h"
  shows "quota_ok (drop_principal h ws)"
    and "quota_count (drop_principal h ws) s = quota_count h s - (if od_get (ws_principal h) ws = Some s then 1 else 0)"
    and "od_get (ws_principal (drop_principal h ws)) ws = None"
proof -
  note ok = quota_okD(1,2) [OF assms] and len = quota_okD(3,4) [OF assms]
  have c: "quota_count (drop_principal h ws) s =
      quota_count h s - (if od_get (ws_principal h) ws = Some s then 1 else 0)" for s
    using ok by (auto simp: drop_principal_def quota_count_def Let_def split: option.splits)
  moreover have w: "ws_principal (drop_principal h ws) = od_pop (ws_principal h) ws"
    by (auto simp: drop_principal_def Let_def od_pop_none split: option.splits)
  moreover have "od_ok (principal_browser_counts (drop_principal h ws))"
    using ok by (auto simp: drop_principal_def Let_def od_ok_pop od_ok_set split: option.splits)
  moreover have "max_connections_per_principal (drop_principal h ws) = max_connections_per_principal h"
    by (auto simp: drop_principal_def Let_def split: option.splits)
  ultimately show "quota_ok (drop_principal h ws)"
    using ok len by (auto simp: quota_ok_def open_sockets_def open_pop od_ok_pop le_diff_conv
        intro: le_SucI)
  show "quota_count (drop_principal h ws) s =
      quota_count h s - (if od_get (ws_principal h) ws = Some s then 1 else 0)" by (rule c)
  show "od_get (ws_principal (drop_principal h ws)) ws = None" using ok w by simp
qed

lemma same_quota_detach: "same_quota h (detach_resume_token h tok)"
  by (simp add: same_quota_def detach_resume_token_def split: option.split)

lemma rollback_is_drop:
  "same_quota (drop_principal h ws) (rollback_browser_quota h ws)"
  by (auto simp: rollback_browser_quota_def drop_principal_def same_quota_def detach_resume_token_def Let_def od_pop_none
      split: option.splits)

lemma admit_quota:
  assumes "quota_ok h" "od_get (ws_principal h) ws = None" "admit_principal h ws subject = Some h'"
  shows "quota_ok h'" "quota_count h' s = quota_count h s + (if subject = Some s then 1 else 0)"
proof -
  note ok = quota_okD(1,2) [OF assms(1)] and q = quota_okD(3,4) [OF assms(1)]
  have "quota_ok h' \<and> (\<forall>s. quota_count h' s = quota_count h s + (if subject = Some s then 1 else 0))"
  proof (cases subject)
    case None
    then show ?thesis using assms(1,3) by (simp add: admit_principal_def)
  next
    case (Some p)
    have h': "h' = h\<lparr>principal_browser_counts := od_set (principal_browser_counts h) p (quota_count h p + 1),
        ws_principal := od_set (ws_principal h) ws p\<rparr>" "quota_count h p < max_connections_per_principal h"
      using assms(3) Some by (auto simp: admit_principal_def quota_count_def Let_def split: if_splits)
    have c: "quota_count h' s = quota_count h s + (if p = s then 1 else 0)" for s
      unfolding h'(1) using ok by (auto simp: quota_count_def)
    moreover have "open_sockets h' s = open_sockets h s @ (if p = s then [ws] else [])" for s
      unfolding h'(1) by (simp add: open_sockets_def open_set_absent [OF assms(2)])
    moreover have "od_ok (ws_principal h')" "od_ok (principal_browser_counts h')"
      "max_connections_per_principal h' = max_connections_per_principal h"
      using ok h'(1) by (simp_all add: od_ok_set)
    ultimately show ?thesis using q h'(2) Some by (auto simp: quota_ok_def)
  qed
  then show "quota_ok h'" "quota_count h' s = quota_count h s + (if subject = Some s then 1 else 0)" by auto
qed

lemma same_quota_put: "same_quota h (put_worker h wid st)"
  by (simp add: same_quota_def)

lemma same_quota_trans: "same_quota h h' \<Longrightarrow> same_quota h' h'' \<Longrightarrow> same_quota h h''"
  by (simp add: same_quota_def)

lemma same_quota_refl [simp]: "same_quota h h" by (simp add: same_quota_def)

text \<open>The operations that touch neither table.\<close>

lemma same_quota_ops:
  "same_quota h (snd (remove_dead_fenced h wid i dead now))"
  "same_quota h (snd (disconnect_worker_fenced h wid i))"
  "same_quota h (snd (deregister_worker_fenced h wid i ws))"
  "same_quota h (snd (register_worker_fenced h wid i ws tunnel now))"
  "same_quota h (snd (acquire_ws_fenced h wid i ws now))"
  "same_quota h (snd (release_ws_fenced h wid i ws now))"
  "same_quota h (snd (release_rest_fenced h wid i hid now))"
  "same_quota h (prune_if_idle h wid)"
  "same_quota h (set_browser_role h wid ws role)"
  "same_quota h (forget_startup h ws)"
  by (auto simp: same_quota_def remove_dead_fenced_def disconnect_worker_fenced_def deregister_worker_fenced_def
      register_worker_fenced_def acquire_ws_fenced_def release_ws_fenced_def release_rest_fenced_def prune_if_idle_def
      set_browser_role_def forget_startup_def pop_worker_def Let_def split: option.splits prod.splits if_splits)

subsection \<open>Runs\<close>

text \<open>
  A connection of a socket the hub does not hold yet, a disconnect, or anything that leaves both
  tables alone.
\<close>

inductive quota_step :: "hub \<Rightarrow> hub \<Rightarrow> bool" where
  quota_connect: "od_get (ws_principal h) ws = None \<Longrightarrow>
    quota_step h (snd (register_browser h wid ws role defer subject m now))"
| quota_disconnect: "quota_step h (snd (cleanup_browser_fenced h wid i ws owned has_store now))"
| quota_other: "same_quota h h' \<Longrightarrow> quota_step h h'"

definition quota_init :: "hub \<Rightarrow> bool" where
  "quota_init h \<longleftrightarrow> principal_browser_counts h = [] \<and> ws_principal h = []"

lemma same_quota_bind: "same_quota h (bind_resume_token h ws t)"
  by (auto simp: bind_resume_token_def same_quota_def detach_resume_token_def Let_def split: option.split)

lemma same_quota_get_or_create: "same_quota h (snd (get_or_create h wid now))"
  by (auto simp: get_or_create_def same_quota_def create_worker_def Let_def split: option.split)

lemma register_same_quota:
  assumes "admit_principal h ws subject = Some h1" "\<And>e. m \<noteq> MintRaises e"
  shows "same_quota h1 (snd (register_browser h wid ws role defer subject m now))"
proof -
  define h2 where "h2 = (case m of Minted t \<Rightarrow> bind_resume_token h1 ws t | _ \<Rightarrow> h1)"
  have "same_quota h1 h2" by (simp add: h2_def same_quota_bind split: mint.split)
  moreover have "same_quota h2 (snd (register_browser h wid ws role defer subject m now))"
    using assms same_quota_get_or_create [of h2 wid now]
    by (cases m) (auto simp: register_browser_def Let_def case_prod_beta same_quota_def h2_def)
  ultimately show ?thesis by (rule same_quota_trans)
qed

lemma register_quota:
  assumes "quota_ok h" "od_get (ws_principal h) ws = None"
  shows "quota_ok (snd (register_browser h wid ws role defer subject m now))"
proof (cases "admit_principal h ws subject")
  case None
  then show ?thesis using assms(1) by (simp add: register_browser_def)
next
  case (Some h1)
  note q = admit_quota(1) [OF assms Some]
  show ?thesis
  proof (cases "\<exists>e. m = MintRaises e")
    case True
    have "quota_ok (rollback_browser_quota h1 ws)"
      using same_quota_ok [OF rollback_is_drop] drop_principal_quota(1) [OF q] by blast
    then show ?thesis using Some True by (auto simp: register_browser_def)
  next
    case False
    then show ?thesis using same_quota_ok [OF register_same_quota [OF Some]] q by blast
  qed
qed

lemma same_quota_release: "same_quota h (snd (release_resume_token h ws has_store mark))"
  by (auto simp: release_resume_token_def same_quota_def detach_resume_token_def Let_def split: option.split)

lemma update_lock_same_quota: "same_quota (drop_principal h ws) (snd (update_lock_state h wid st ws owned now))"
  by (simp add: update_lock_state_def same_quota_def Let_def)

text \<open>A disconnect drops the socket's entry when its worker is registered, and otherwise nothing.\<close>

lemma cleanup_same_quota:
  "same_quota (if same_worker h wid i = None then h else drop_principal h ws)
     (snd (cleanup_browser_fenced h wid i ws owned has_store now))"
  using same_quota_trans [OF update_lock_same_quota same_quota_release]
  by (auto simp: cleanup_browser_fenced_def case_prod_beta Let_def same_quota_release split: option.split)

lemma quota_step_ok: "quota_step h h' \<Longrightarrow> quota_ok h \<Longrightarrow> quota_ok h'"
  by (induction rule: quota_step.induct)
     (auto simp: register_quota same_quota_ok [OF cleanup_same_quota] drop_principal_quota same_quota_ok)

interpretation quota: safe_system quota_init quota_step quota_ok
proof
  show "quota_ok h" if "quota_init h" for h
    using that by (simp add: quota_init_def quota_ok_def quota_count_def open_sockets_def)
qed (rule quota_step_ok)

lemma refused_iff:
  "fst (register_browser h wid ws role defer (Some s) NoStore now) = Inl ''too many connections'' \<longleftrightarrow>
     max_connections_per_principal h \<le> quota_count h s"
  by (simp add: register_browser_def admit_principal_def quota_count_def Let_def case_prod_beta split: option.split)


text \<open>A hub that allows one connection, with a worker and the browser 7 of one principal.\<close>

definition demo_joined :: hub where
  "demo_joined = snd (register_browser (sys_hub demo_registered) ''w'' 7 ''viewer'' False (Some ''alice'') NoStore 0)"


text \<open>A disconnect can lose its slot for good. A browser that stopped answering is taken off its worker
  when a broadcast fails; the worker is disconnected and, with no browser left, pruned; then the
  browser's own disconnect finds no worker and leaves the counter alone. No browser is connected any
  more, and with a limit of one the principal can never connect again.\<close>

theorem browser_quota_slot_lost:
  "(let h2 = snd (remove_dead_fenced demo_joined ''w'' 0 [7] 1);
        h3 = prune_if_idle (snd (disconnect_worker_fenced h2 ''w'' 0)) ''w'';
        h4 = forget_startup (snd (cleanup_browser_fenced h3 ''w'' 0 7 False False 2)) 7
    in reach quota_init quota_step h4 \<and> browser_count_total h4 = 0 \<and> open_sockets h4 ''alice'' = [7] \<and>
       fst (register_browser h4 ''w'' 8 ''viewer'' False (Some ''alice'') NoStore 3) = Inl ''too many connections'')"
proof -
  let ?h2 = "snd (remove_dead_fenced demo_joined ''w'' 0 [7] 1)"
  let ?h3 = "prune_if_idle (snd (disconnect_worker_fenced ?h2 ''w'' 0)) ''w''"
  let ?h4 = "forget_startup (snd (cleanup_browser_fenced ?h3 ''w'' 0 7 False False 2)) 7"
  have j: "demo_joined = (sys_hub demo_registered)\<lparr>workers := [(''w'', demo_worker\<lparr>browsers := [(7, ''viewer'')]\<rparr>)],
      principal_browser_counts := [(''alice'', 1)], ws_principal := [(7, ''alice'')]\<rparr>"
    by (simp add: demo_joined_def register_browser_def admit_principal_def get_or_create_def find_worker_def
        put_worker_def Let_def demo_defs)
  have w: "workers ?h3 = []"
    unfolding j
    by (simp add: remove_dead_fenced_def remove_dead_browser_def same_worker_def find_worker_def disconnect_worker_fenced_def
      prune_if_idle_def pop_worker_def put_worker_def is_dashboard_hijack_active_def clear_worker_def demo_defs)
  then have h4: "?h4 = forget_startup ?h3 7"
    by (simp add: cleanup_browser_fenced_def release_resume_token_def same_worker_def find_worker_def)
  have "same_quota demo_joined ?h3"
    by (intro same_quota_trans [OF _ same_quota_ops(8)] same_quota_trans [OF _ same_quota_ops(2)] same_quota_ops(1))
  then have q: "same_quota demo_joined ?h4"
    unfolding h4 by (rule same_quota_trans [OF _ same_quota_ops(10)])
  have "quota_step (sys_hub demo_registered) demo_joined"
    unfolding demo_joined_def by (rule quota_connect) (simp add: demo_defs)
  moreover have "quota_init (sys_hub demo_registered)" by (simp add: quota_init_def demo_defs)
  ultimately have "reach quota_init quota_step ?h4"
    using quota_other [OF q] by (blast intro: reach_step reach_init)
  moreover have "browser_count_total ?h4 = 0"
    unfolding h4 using w by (simp add: browser_count_total_def forget_startup_def)
  moreover have "open_sockets demo_joined ''alice'' = [7]" "quota_count demo_joined ''alice'' = 1"
      "max_connections_per_principal demo_joined = 1"
    unfolding j by (simp_all add: open_sockets_def quota_count_def demo_defs)
  ultimately show ?thesis
    using q unfolding Let_def refused_iff same_quota_count [OF q] same_quota_open [OF q]
    by (simp add: same_quota_def)
qed

end
