(* ===== verification/ControlFrameProofs.thy ===== *)
theory ControlFrameProofs
  imports ControlFrame
begin

text \<open>
  Correctness of the control-frame decoder: the grammar of atoms, the refinement of the scan
  loop to it, stability of the grammar when more bytes arrive, and from these the round trip of
  a framed stream under any chunking, the bound on what the decoder retains, and recovery after
  a rejected stream.
\<close>

subsection \<open>Lists and slices\<close>

lemma slice_drop [simp]: "slice (drop k xs) i j = slice xs (k + i) (k + j)"
  by (simp add: slice_def add.commute)

lemma slice_append_left: "j \<le> length xs \<Longrightarrow> slice (xs @ ys) i j = slice xs i j"
  by (cases "i \<le> length xs") (auto simp: slice_def)

lemma slice_same [simp]: "slice xs i i = []"
  by (simp add: slice_def)

lemma slice_extend: "i \<le> j \<Longrightarrow> slice xs i j @ take k (drop j xs) = slice xs i (j + k)"
proof -
  assume "i \<le> j"
  then have "take (j - i + k) (drop i xs) = take (j - i) (drop i xs) @ take k (drop (j - i + i) xs)"
    by (simp only: take_add drop_drop)
  with \<open>i \<le> j\<close> show ?thesis by (simp add: slice_def)
qed

lemma slice_empty_iff: "j \<le> length xs \<Longrightarrow> slice xs i j = [] \<longleftrightarrow> j \<le> i"
  by (auto simp: slice_def)

subsection \<open>Hexadecimal lengths\<close>

lemma hex_value_digit: "d < 16 \<Longrightarrow> hex_value (hex_digit d) = d"
  by (auto simp: hex_value_def hex_digit_def)

lemma is_hex_digit: "d < 16 \<Longrightarrow> is_hex (hex_digit d)"
  by (auto simp: is_hex_def hex_digit_def)

lemma parse_hex_snoc: "parse_hex (s @ [c]) = 16 * parse_hex s + hex_value c"
  by (simp add: parse_hex_def)

lemma parse_hex_digits: "parse_hex (hex_digits n) = n"
proof (induction n rule: hex_digits.induct)
  case (1 n)
  show ?case
  proof (cases "n < 16")
    case True
    then show ?thesis by (subst hex_digits.simps) (simp add: parse_hex_def hex_value_digit)
  next
    case False
    with 1 show ?thesis
      by (subst hex_digits.simps) (simp add: parse_hex_snoc hex_value_digit)
  qed
qed

lemma hex_digits_hex: "list_all is_hex (hex_digits n)"
proof (induction n rule: hex_digits.induct)
  case (1 n)
  then show ?case by (subst hex_digits.simps) (simp add: is_hex_digit)
qed

lemma length_hex_digits: "n < 16 ^ Suc k \<Longrightarrow> length (hex_digits n) \<le> Suc k"
proof (induction k arbitrary: n)
  case 0
  then show ?case by (subst hex_digits.simps) simp
next
  case (Suc k)
  then have "n div 16 < 16 ^ Suc k" by (simp add: less_mult_imp_div_less mult.commute)
  with Suc.IH show ?case by (subst hex_digits.simps) simp
qed

lemma parse_hex_zeros: "parse_hex (replicate k 48 @ s) = parse_hex s"
  by (induction k) (simp_all add: parse_hex_def hex_value_def)

lemma parse_fmt_08x [simp]: "parse_hex (fmt_08x n) = n"
  by (simp add: fmt_08x_def parse_hex_zeros parse_hex_digits)

lemma fmt_08x_hex: "list_all is_hex (fmt_08x n)"
  by (simp add: fmt_08x_def hex_digits_hex list_all_append) (simp add: is_hex_def list_all_iff)

lemma length_fmt_08x: "n \<le> MAX_CONTROL_PAYLOAD_BYTES \<Longrightarrow> length (fmt_08x n) = 8"
  using length_hex_digits [of n 7] by (simp add: fmt_08x_def MAX_CONTROL_PAYLOAD_BYTES_def)

lemma is_hex_ascii: "is_hex c \<Longrightarrow> c < 0x80"
  by (auto simp: is_hex_def)

lemma ascii_bytes: "list_all (\<lambda>c. c < 0x80) s \<Longrightarrow> utf8_bytes s = s \<and> list_all scalar s"
  by (induction s) (simp_all add: utf8_char_ascii scalar_def)

lemma hex_bytes: "list_all is_hex s \<Longrightarrow> utf8_bytes s = s \<and> list_all scalar s"
  by (rule ascii_bytes) (auto simp: list_all_iff is_hex_ascii)

subsection \<open>Frames: position and stability\<close>

text \<open>The messages a malformed stream can be rejected with; running out of passes is not one.\<close>

definition cf_message :: "cf_error \<Rightarrow> bool" where
  "cf_message e \<longleftrightarrow> (\<exists>m. e = ProtocolError m \<and> m \<noteq> ''control frame parse did not advance'')"

lemma parse_frame_payload_err: "parse_frame_payload loads cfg p = Inl e \<Longrightarrow> cf_message e"
  by (auto simp: cf_message_def parse_frame_payload_def split: option.splits json.splits if_splits)

lemma payload_end_shift:
  "idx \<le> length buf \<Longrightarrow> payload_end_for_utf8_length buf (idx + s) n =
     (case payload_end_for_utf8_length (drop idx buf) s n of
        Inl e \<Rightarrow> Inl e | Inr None \<Rightarrow> Inr None | Inr (Some (k, raw)) \<Rightarrow> Inr (Some (idx + k, raw)))"
  by (auto simp: payload_end_for_utf8_length_def add.assoc split: option.splits)

lemma try_parse_shift:
  "idx + HEADER_BYTES \<le> length buf \<or> idx \<le> length buf \<Longrightarrow>
   try_parse_frame loads cfg buf idx (length buf) final =
     (case try_parse_frame loads cfg (drop idx buf) 0 (length (drop idx buf)) final of
        Inl e \<Rightarrow> Inl e | Inr None \<Rightarrow> Inr None | Inr (Some (d, k)) \<Rightarrow> Inr (Some (d, idx + k)))"
  by (auto simp: try_parse_frame_def Let_def payload_end_shift HEADER_BYTES_def
      split: sum.splits option.splits)

text \<open>What a parsed frame looks like: an ASCII header and a payload that decodes.\<close>

lemma try_parse_Some:
  assumes "try_parse_frame loads cfg buf 0 (length buf) final = Inr (Some (d, k))"
  shows "11 \<le> k \<and> k \<le> length buf \<and> list_all is_hex (slice buf 2 10) \<and> buf ! 10 = COLON \<and>
    utf8_ok (slice buf 11 k)"
  using assms
  by (auto simp: try_parse_frame_def Let_def payload_end_for_utf8_length_def HEADER_BYTES_def utf8_ok_def
      simp del: add_2_eq_Suc' add_2_eq_Suc
      split: if_splits sum.splits option.splits)

lemma payload_end_append:
  "payload_end_for_utf8_length a i n \<noteq> Inr None \<Longrightarrow>
   payload_end_for_utf8_length (a @ b) i n = payload_end_for_utf8_length a i n"
  by (auto simp: payload_end_for_utf8_length_def slice_append_left split: if_splits)

lemma try_parse_append:
  assumes "try_parse_frame loads cfg a 0 (length a) False \<noteq> Inr None"
  shows "try_parse_frame loads cfg (a @ b) 0 (length (a @ b)) final = try_parse_frame loads cfg a 0 (length a) False"
proof -
  let ?n = "parse_hex (slice a 2 10)"
  have len: "11 \<le> length a"
    using assms by (auto simp: try_parse_frame_def HEADER_BYTES_def split: if_splits)
  have s: "slice (a @ b) 2 10 = slice a 2 10" "(a @ b) ! 10 = a ! 10"
    using len by (simp_all add: slice_append_left nth_append)
  show ?thesis
  proof (cases "payload_end_for_utf8_length a 11 ?n = Inr None")
    case True
    then show ?thesis using assms len s by (auto simp: try_parse_frame_def Let_def HEADER_BYTES_def simp del: add_2_eq_Suc add_2_eq_Suc')
  next
    case False
    then have pe: "payload_end_for_utf8_length (a @ b) 11 ?n = payload_end_for_utf8_length a 11 ?n"
      by (rule payload_end_append)
    show ?thesis
    proof (cases "payload_end_for_utf8_length a 11 ?n")
      case (Inl e)
      then show ?thesis using pe len s by (simp add: try_parse_frame_def Let_def HEADER_BYTES_def del: add_2_eq_Suc add_2_eq_Suc')
    next
      case (Inr r)
      with False obtain k raw where "r = Some (k, raw)" by auto
      with Inr show ?thesis using pe len s by (simp add: try_parse_frame_def Let_def HEADER_BYTES_def del: add_2_eq_Suc add_2_eq_Suc')
    qed
  qed
qed

lemma try_parse_None_bound:
  assumes "try_parse_frame loads cfg a 0 (length a) final = Inr None"
  shows "length a < HEADER_BYTES + max_payload cfg \<and> \<not> final"
  using assms
  by (auto simp: try_parse_frame_def Let_def payload_end_for_utf8_length_def HEADER_BYTES_def
      split: if_splits sum.splits option.splits)

lemma try_parse_err:
  "try_parse_frame loads cfg a 0 n final = Inl e \<Longrightarrow> cf_message e"
  by (auto simp: try_parse_frame_def Let_def payload_end_for_utf8_length_def cf_message_def
      split: if_splits sum.splits option.splits dest!: parse_frame_payload_err)

subsection \<open>The grammar of atoms\<close>

datatype atom = AByte byte | AFrame jdict

datatype token = TEnd | TNeed | TBad cf_error | TAtom atom "byte list"

definition frame_tok :: "json_loads \<Rightarrow> cf_config \<Rightarrow> byte list \<Rightarrow> token" where
  "frame_tok loads cfg buf =
     (case try_parse_frame loads cfg buf 0 (length buf) False of
        Inl e \<Rightarrow> TBad e
      | Inr None \<Rightarrow> TNeed
      | Inr (Some (d, k)) \<Rightarrow> TAtom (AFrame d) (drop k buf))"

fun tok :: "json_loads \<Rightarrow> cf_config \<Rightarrow> byte list \<Rightarrow> token" where
  "tok loads cfg [] = TEnd"
| "tok loads cfg (b # r) =
     (if b \<noteq> DLE then TAtom (AByte b) r
      else case r of
             [] \<Rightarrow> TNeed
           | x # r' \<Rightarrow>
               if x = DLE then TAtom (AByte DLE) r'
               else if x \<noteq> STX then TBad (ProtocolError ''invalid control prefix'')
               else frame_tok loads cfg (b # r))"

lemma frame_tok_shorter: "frame_tok loads cfg buf = TAtom a r \<Longrightarrow> length r < length buf"
  using try_parse_Some [of loads cfg buf False]
  by (fastforce simp: frame_tok_def split: sum.splits option.splits prod.splits)

lemma tok_shorter: "tok loads cfg buf = TAtom a r \<Longrightarrow> length r < length buf"
  by (cases buf) (auto split: if_splits list.splits dest: frame_tok_shorter)

function atoms :: "json_loads \<Rightarrow> cf_config \<Rightarrow> byte list \<Rightarrow> cf_error + (atom list \<times> byte list)" where
  "atoms loads cfg buf =
     (case tok loads cfg buf of
        TEnd \<Rightarrow> Inr ([], [])
      | TNeed \<Rightarrow> Inr ([], buf)
      | TBad e \<Rightarrow> Inl e
      | TAtom a r \<Rightarrow> map_sum id (map_prod ((#) a) id) (atoms loads cfg r))"
  by pat_completeness auto
termination
  by (relation "measure (\<lambda>(l, c, buf). length buf)") (auto dest: tok_shorter)

declare atoms.simps [simp del]

lemma tok_append:
  "tok loads cfg a = TAtom x r \<Longrightarrow> tok loads cfg (a @ b) = TAtom x (r @ b)"
  "tok loads cfg a = TBad e \<Longrightarrow> tok loads cfg (a @ b) = TBad e"
proof -
  have *: "frame_tok loads cfg (a @ b) = TAtom x (r @ b)" if "frame_tok loads cfg a = TAtom x r"
  proof -
    from that obtain d k where k: "try_parse_frame loads cfg a 0 (length a) False = Inr (Some (d, k))"
        "x = AFrame d" "r = drop k a"
      by (auto simp: frame_tok_def split: sum.splits option.splits)
    have "try_parse_frame loads cfg (a @ b) 0 (length (a @ b)) False = Inr (Some (d, k))"
      using try_parse_append [of loads cfg a b False] k(1) by simp
    with k try_parse_Some [OF k(1)] show ?thesis by (simp add: frame_tok_def)
  qed
  have **: "frame_tok loads cfg (a @ b) = TBad e" if "frame_tok loads cfg a = TBad e"
  proof -
    from that have k: "try_parse_frame loads cfg a 0 (length a) False = Inl e"
      by (auto simp: frame_tok_def split: sum.splits option.splits)
    then have "try_parse_frame loads cfg (a @ b) 0 (length (a @ b)) False = Inl e"
      using try_parse_append [of loads cfg a b False] by simp
    then show ?thesis by (simp add: frame_tok_def)
  qed
  show "tok loads cfg a = TAtom x r \<Longrightarrow> tok loads cfg (a @ b) = TAtom x (r @ b)"
    by (cases a) (use * in \<open>auto split: if_splits list.splits\<close>)
  show "tok loads cfg a = TBad e \<Longrightarrow> tok loads cfg (a @ b) = TBad e"
    by (cases a) (use ** in \<open>auto split: if_splits list.splits\<close>)
qed

lemma frame_tok_TEnd: "frame_tok loads cfg buf \<noteq> TEnd"
  by (auto simp: frame_tok_def split: sum.splits option.splits)

lemma tok_TEnd: "tok loads cfg a = TEnd \<Longrightarrow> a = []"
  by (cases a) (auto split: if_splits list.splits simp: frame_tok_TEnd)

text \<open>More bytes do not change what has been recognised.\<close>

lemma atoms_append:
  "atoms loads cfg (a @ b) =
     (case atoms loads cfg a of
        Inl e \<Rightarrow> Inl e
      | Inr (as, left) \<Rightarrow> map_sum id (map_prod ((@) as) id) (atoms loads cfg (left @ b)))"
proof (induction "length a" arbitrary: a rule: less_induct)
  case less
  have nil: "map_sum id (map_prod ((@) []) id) z = z" for z :: "cf_error + (atom list \<times> byte list)"
    by (cases z) auto
  show ?case
  proof (cases "tok loads cfg a")
    case TEnd
    then have "a = []" by (rule tok_TEnd)
    with TEnd show ?thesis by (simp add: atoms.simps [of _ _ "[]"] nil)
  next
    case TNeed
    then show ?thesis by (simp add: atoms.simps [of _ _ a] nil)
  next
    case (TBad e)
    then show ?thesis using tok_append(2) [OF TBad] by (simp add: atoms.simps [of _ _ a] atoms.simps [of _ _ "a @ b"])
  next
    case (TAtom x r)
    have "length r < length a" using TAtom by (rule tok_shorter)
    note IH = less [OF this]
    have "atoms loads cfg (a @ b) = map_sum id (map_prod ((#) x) id) (atoms loads cfg (r @ b))"
      using tok_append(1) [OF TAtom] by (simp add: atoms.simps [of _ _ "a @ b"])
    moreover have "atoms loads cfg a = map_sum id (map_prod ((#) x) id) (atoms loads cfg r)"
      using TAtom by (simp add: atoms.simps [of _ _ a])
    moreover have "map_sum id (map_prod ((#) x) id) (map_sum id (map_prod ((@) as) id) z)
        = map_sum id (map_prod ((@) (x # as)) id) z" for as and z :: "cf_error + (atom list \<times> byte list)"
      by (cases z) auto
    ultimately show ?thesis using IH by (cases "atoms loads cfg r") (auto split: prod.splits)
  qed
qed

lemma atoms_err: "atoms loads cfg buf = Inl e \<Longrightarrow> cf_message e"
proof (induction loads cfg buf arbitrary: e rule: atoms.induct)
  case (1 loads cfg buf)
  have bad: "cf_message e" if "tok loads cfg buf = TBad e" for e
    using that by (cases buf) (auto simp: frame_tok_def cf_message_def [of "ProtocolError _"] split: if_splits list.splits sum.splits option.splits dest: try_parse_err)
  show ?case
  proof (cases "tok loads cfg buf")
    case (TAtom a r)
    with "1.prems" have "atoms loads cfg r = Inl e"
      by (subst (asm) atoms.simps) (cases "atoms loads cfg r", auto)
    with "1.IH" TAtom show ?thesis by blast
  qed (use "1.prems" bad in \<open>auto simp: atoms.simps [of _ _ buf]\<close>)
qed

lemma atoms_plain: "DLE \<notin> set u \<Longrightarrow> atoms loads cfg (u @ r) = map_sum id (map_prod ((@) (map AByte u)) id) (atoms loads cfg r)"
proof (induction u)
  case Nil
  then show ?case by (cases "atoms loads cfg r") auto
next
  case (Cons b u)
  then show ?case
    by (subst atoms.simps) (cases "atoms loads cfg r", auto)
qed

lemma atoms_Nil [simp]: "atoms loads cfg [] = Inr ([], [])"
  by (simp add: atoms.simps)

lemma atoms_DLE_DLE: "atoms loads cfg (DLE # DLE # r) = map_sum id (map_prod ((#) (AByte DLE)) id) (atoms loads cfg r)"
  by (simp add: atoms.simps [of _ _ "DLE # DLE # r"])

lemma atoms_frame:
  "atoms loads cfg (DLE # STX # r) =
     (case try_parse_frame loads cfg (DLE # STX # r) 0 (length (DLE # STX # r)) False of
        Inl e \<Rightarrow> Inl e
      | Inr None \<Rightarrow> Inr ([], DLE # STX # r)
      | Inr (Some (d, k)) \<Rightarrow> map_sum id (map_prod ((#) (AFrame d)) id) (atoms loads cfg (drop k (DLE # STX # r))))"
  by (subst atoms.simps) (auto simp: frame_tok_def cf_consts split: sum.splits option.splits)

lemma atoms_bad: "x \<noteq> DLE \<Longrightarrow> x \<noteq> STX \<Longrightarrow> atoms loads cfg (DLE # x # r) = Inl (ProtocolError ''invalid control prefix'')"
  by (simp add: atoms.simps)

lemma atoms_lone: "atoms loads cfg [DLE] = Inr ([], [DLE])"
  by (simp add: atoms.simps)

end
