(* ===== verification/ControlFrameStream.thy ===== *)
theory ControlFrameStream
  imports ControlFrameProofs
begin

text \<open>
  The decoder at the level of streams: the scan loop computes the grammar of atoms
  (\<open>drain_refines\<close>), so feeding a stream in pieces yields the same characters and control
  messages as feeding it whole, and a framed sequence of messages decodes to itself.
\<close>

subsection \<open>Chunks from atoms\<close>

definition flush :: "byte list \<Rightarrow> chunk list" where
  "flush acc = (if acc = [] then [] else [DataChunk (the (utf8_decode acc))])"

fun group :: "byte list \<Rightarrow> atom list \<Rightarrow> chunk list" where
  "group acc [] = flush acc"
| "group acc (AByte b # as) = group (acc @ [b]) as"
| "group acc (AFrame d # as) = flush acc @ ControlChunk d # group [] as"

lemma group_bytes: "group acc (map AByte u @ as) = group (acc @ u) as"
  by (induction u arbitrary: acc) simp_all

lemma flush_emit:
  assumes "utf8_ok (concat parts @ slice buf ds idx)" and "[] \<notin> set parts" and "idx \<le> length buf"
  shows "emit_data_chunk events parts buf ds idx = Inr (events @ flush (concat parts @ slice buf ds idx))"
proof -
  have "concat parts = [] \<longleftrightarrow> parts = []" using assms(2) by (cases parts) auto
  moreover have "slice buf ds idx = [] \<longleftrightarrow> idx \<le> ds" using assms(3) by (rule slice_empty_iff)
  ultimately show ?thesis using assms(1)
    by (auto simp: emit_data_chunk_def Let_def flush_def utf8_ok_def split: option.splits)
qed

subsection \<open>The scan loop computes the grammar\<close>

definition loop_result ::
  "byte list \<Rightarrow> cf_error + (nat \<times> nat \<times> byte list list \<times> chunk list) \<Rightarrow> cf_error + (chunk list \<times> byte list)" where
  "loop_result buf r =
     (case r of
        Inl e \<Rightarrow> Inl e
      | Inr (idx, ds, parts, events) \<Rightarrow>
          (case emit_data_chunk events parts buf ds idx of Inl e \<Rightarrow> Inl e | Inr ev \<Rightarrow> Inr (ev, drop idx buf)))"

definition atoms_result :: "chunk list \<Rightarrow> byte list \<Rightarrow> cf_error + (atom list \<times> byte list) \<Rightarrow> cf_error + (chunk list \<times> byte list)" where
  "atoms_result events acc r = map_sum id (\<lambda>(as, left). (events @ group acc as, left)) r"

lemma atoms_result_simps [simp]:
  "atoms_result ev acc (Inl e) = Inl e"
  "atoms_result ev acc (Inr (as, left)) = Inr (ev @ group acc as, left)"
  "atoms_result ev acc (map_sum id (map_prod ((@) (map AByte u)) id) r) = atoms_result ev (acc @ u) r"
  "atoms_result ev acc (map_sum id (map_prod ((#) (AByte b)) id) r) = atoms_result ev (acc @ [b]) r"
  "atoms_result ev acc (map_sum id (map_prod ((#) (AFrame d)) id) r) = atoms_result (ev @ flush acc @ [ControlChunk d]) [] r"
  by (cases r; auto simp: atoms_result_def group_bytes)+

lemma find_dle_props:
  assumes "idx < length buf" and "buf ! idx \<noteq> DLE"
  defines "u \<equiv> takeWhile (\<lambda>b. b \<noteq> DLE) (drop idx buf)"
  shows "find_dle buf idx = idx + length u" "0 < length u" "DLE \<notin> set u" "idx + length u \<le> length buf"
    "drop idx buf = u @ drop (idx + length u) buf" "u = take (length u) (drop idx buf)"
proof -
  have d: "drop idx buf = buf ! idx # drop (Suc idx) buf" using assms(1) by (rule Cons_nth_drop_Suc [symmetric])
  show "find_dle buf idx = idx + length u" by (simp add: find_dle_def u_def)
  show "0 < length u" using assms(2) d by (simp add: u_def)
  show "DLE \<notin> set u" by (auto simp: u_def dest: set_takeWhileD)
  have "length u \<le> length (drop idx buf)" unfolding u_def by (rule length_takeWhile_le)
  then show "idx + length u \<le> length buf" using assms(1) by simp
  show t: "u = take (length u) (drop idx buf)" by (simp add: u_def takeWhile_eq_take [symmetric])
  show "drop idx buf = u @ drop (idx + length u) buf"
    by (subst append_take_drop_id [symmetric, of _ "length u"], subst t [symmetric]) (simp add: add.commute)
qed

lemma frame_rest_ok:
  assumes "try_parse_frame loads cfg buf 0 (length buf) final = Inr (Some (d, k))"
    and "take 2 buf = [DLE, STX]" and "utf8_ok buf"
  shows "utf8_ok (drop k buf)"
proof -
  note f = try_parse_Some [OF assms(1)]
  have "take k buf = take 2 buf @ slice buf 2 10 @ [buf ! 10] @ slice buf 11 k"
  proof -
    have "take k buf = take 11 buf @ slice buf 11 k"
      using f slice_extend [of 0 11 buf "k - 11"] by (simp add: slice_def)
    moreover have "take 11 buf = take 10 buf @ [buf ! 10]"
      using f take_Suc_conv_app_nth [of 10 buf] by simp
    moreover have "take 10 buf = take 2 buf @ slice buf 2 10"
      using slice_extend [of 0 2 buf 8] by (simp add: slice_def)
    ultimately show ?thesis by simp
  qed
  moreover have "utf8_ok (take 2 buf @ slice buf 2 10 @ [buf ! 10] @ slice buf 11 k)"
  proof -
    have "list_all (\<lambda>c. c < 0x80) (take 2 buf @ slice buf 2 10 @ [buf ! 10])"
      using f assms(2) by (auto simp: cf_consts list_all_iff is_hex_ascii)
    then have "utf8_ok (take 2 buf @ slice buf 2 10 @ [buf ! 10])"
      by (metis ascii_bytes utf8_ok_iff)
    with f show ?thesis using utf8_ok_append [of "take 2 buf @ slice buf 2 10 @ [buf ! 10]" "slice buf 11 k"] by simp
  qed
  ultimately have "utf8_ok (take k buf)" by simp
  with assms(3) utf8_ok_append [of "take k buf" "drop k buf"] show ?thesis by simp
qed

lemma take_2_drop:
  "idx + 1 < length buf \<Longrightarrow> buf ! idx = x \<Longrightarrow> buf ! (idx + 1) = y \<Longrightarrow> drop idx buf = x # y # drop (idx + 2) buf"
  by (metis Cons_nth_drop_Suc Suc_eq_plus1 Suc_lessD add_2_eq_Suc')

lemma drain_loop_refines:
  assumes "length buf - idx < passes" and "ds \<le> idx" and "idx \<le> length buf" and "[] \<notin> set parts"
    and "utf8_ok (concat parts @ slice buf ds idx @ drop idx buf)"
  shows "loop_result buf (drain_loop loads cfg False buf passes idx ds parts events)
    = atoms_result events (concat parts @ slice buf ds idx) (atoms loads cfg (drop idx buf))"
  using assms
proof (induction passes arbitrary: idx ds parts events)
  case 0
  then show ?case by simp
next
  case (Suc passes)
  let ?acc = "concat parts @ slice buf ds idx"
  note IH = Suc.IH
  consider (end_) "idx = length buf" | (plain) "idx < length buf" "buf ! idx \<noteq> DLE"
    | (lone) "idx + 1 = length buf" "buf ! idx = DLE"
    | (esc) "idx + 1 < length buf" "buf ! idx = DLE" "buf ! (idx + 1) = DLE"
    | (bad) "idx + 1 < length buf" "buf ! idx = DLE" "buf ! (idx + 1) \<noteq> DLE" "buf ! (idx + 1) \<noteq> STX"
    | (frame) "idx + 1 < length buf" "buf ! idx = DLE" "buf ! (idx + 1) = STX"
    using Suc.prems(3) by force
  then show ?case
  proof cases
    case end_
    then show ?thesis using Suc.prems flush_emit [of parts buf ds idx events]
      by (simp add: loop_result_def)
  next
    case plain
    define u where "u = takeWhile (\<lambda>b. b \<noteq> DLE) (drop idx buf)"
    note fd = find_dle_props [OF plain, folded u_def]
    have sl: "slice buf ds (idx + length u) = slice buf ds idx @ u"
      using slice_extend [OF Suc.prems(2), of buf "length u"] fd(6) by simp
    have fuel: "length buf - (idx + length u) < passes" using Suc.prems(1) fd(2,4) by linarith
    have "loop_result buf (drain_loop loads cfg False buf (Suc passes) idx ds parts events)
        = loop_result buf (drain_loop loads cfg False buf passes (idx + length u) ds parts events)"
      using plain fd(1) by simp
    also have "\<dots> = atoms_result events (?acc @ u) (atoms loads cfg (drop (idx + length u) buf))"
      using IH [of "idx + length u" ds parts events] fuel Suc.prems fd plain sl by simp
    also have "\<dots> = atoms_result events ?acc (atoms loads cfg (drop idx buf))"
      unfolding fd(5) atoms_plain [OF fd(3)] by simp
    finally show ?thesis .
  next
    case lone
    then have d: "drop idx buf = [DLE]" by (metis Cons_nth_drop_Suc Suc_eq_plus1 drop_all lessI order_refl)
    have "utf8_ok ?acc" using Suc.prems(5) utf8_ok_cut(1) [of ?acc DLE "[]"] d by (simp add: cf_consts)
    then show ?thesis using lone Suc.prems flush_emit [of parts buf ds idx events] d
      by (simp add: loop_result_def atoms_lone)
  next
    case esc
    note d = take_2_drop [OF esc]
    have ok: "utf8_ok ?acc" "utf8_ok (DLE # DLE # drop (idx + 2) buf)"
      using Suc.prems(5) utf8_ok_cut [of ?acc DLE "DLE # drop (idx + 2) buf"] d by (simp_all add: cf_consts)
    then have rest: "utf8_ok (drop (idx + 2) buf)" by (simp add: utf8_ok_ascii cf_consts)
    have acc': "utf8_ok (?acc @ [DLE] @ drop (idx + 2) buf)"
      using utf8_ok_append [OF ok(1), of "[DLE] @ drop (idx + 2) buf"] rest by (simp add: utf8_ok_ascii cf_consts)
    define parts' where "parts' = (if ds < idx then parts @ [slice buf ds idx] else parts) @ [[DLE]]"
    have parts': "concat parts' = ?acc @ [DLE]" "[] \<notin> set parts'"
      using Suc.prems(2-4) slice_empty_iff [of idx buf ds] by (auto simp: parts'_def)
    have "loop_result buf (drain_loop loads cfg False buf (Suc passes) idx ds parts events)
        = loop_result buf (drain_loop loads cfg False buf passes (idx + 2) (idx + 2) parts' events)"
      using esc by (simp add: parts'_def)
    also have "\<dots> = atoms_result events (?acc @ [DLE]) (atoms loads cfg (drop (idx + 2) buf))"
      using IH [of "idx + 2" "idx + 2" parts' events] Suc.prems esc parts' acc' by simp
    also have "\<dots> = atoms_result events ?acc (atoms loads cfg (drop idx buf))"
      unfolding d atoms_DLE_DLE by simp
    finally show ?thesis .
  next
    case bad
    then show ?thesis using take_2_drop [OF bad(1,2) refl] by (simp add: loop_result_def atoms_bad)
  next
    case frame
    note d = take_2_drop [OF frame]
    have ok: "utf8_ok ?acc" "utf8_ok (drop idx buf)"
      using Suc.prems(5) utf8_ok_cut [of ?acc DLE "STX # drop (idx + 2) buf"] d by (simp_all add: cf_consts)
    have emit: "emit_data_chunk events parts buf ds idx = Inr (events @ flush ?acc)"
      using flush_emit ok(1) Suc.prems(3,4) by blast
    have ns: "STX \<noteq> DLE" "DLE \<noteq> STX" by (simp_all add: cf_consts)
    have len: "Suc idx < length buf" using frame(1) by simp
    let ?tp = "try_parse_frame loads cfg (drop idx buf) 0 (length (drop idx buf)) False"
    have tp: "try_parse_frame loads cfg buf idx (length buf) False =
        (case ?tp of Inl e \<Rightarrow> Inl e | Inr None \<Rightarrow> Inr None | Inr (Some (d, k)) \<Rightarrow> Inr (Some (d, idx + k)))"
      using try_parse_shift Suc.prems(3) by blast
    have at: "atoms loads cfg (drop idx buf) =
        (case ?tp of Inl e \<Rightarrow> Inl e | Inr None \<Rightarrow> Inr ([], drop idx buf)
         | Inr (Some (d, k)) \<Rightarrow> map_sum id (map_prod ((#) (AFrame d)) id) (atoms loads cfg (drop k (drop idx buf))))"
      unfolding d by (rule atoms_frame)
    show ?thesis
    proof (cases ?tp)
      case (Inl e)
      then show ?thesis using frame emit tp at ns by (simp add: loop_result_def)
    next
      case (Inr r)
      show ?thesis
      proof (cases r)
        case None
        then show ?thesis using frame emit tp at ns Inr
          by (simp add: loop_result_def emit_data_chunk_def)
      next
        case (Some p)
        obtain dd k where p: "p = (dd, k)" by (cases p)
        have tpk: "?tp = Inr (Some (dd, k))" using Inr Some p by simp
        note f = try_parse_Some [OF tpk]
        have rest: "utf8_ok (drop k (drop idx buf))"
          using frame_rest_ok [OF tpk] ok(2) by (simp add: d)
        have "loop_result buf (drain_loop loads cfg False buf (Suc passes) idx ds parts events)
          = loop_result buf (drain_loop loads cfg False buf passes (idx + k) (idx + k) [] (events @ flush ?acc @ [ControlChunk dd]))"
          using frame emit tp ns tpk by (simp add: loop_result_def)
        also have "\<dots> = atoms_result (events @ flush ?acc @ [ControlChunk dd]) [] (atoms loads cfg (drop (idx + k) buf))"
        proof -
          have "length buf - (idx + k) < passes" "idx + k \<le> length buf" using f Suc.prems(1,3) by auto
          then show ?thesis using IH [of "idx + k" "idx + k" "[]"] rest by (simp add: add.commute)
        qed
        also have "\<dots> = atoms_result events ?acc (atoms loads cfg (drop idx buf))"
          unfolding at tpk by (simp add: add.commute)
        finally show ?thesis .
      qed
    qed
  qed
qed

lemma drain_loop_start:
  "utf8_ok buf \<Longrightarrow> loop_result buf (drain_loop loads cfg False buf (length buf + 1) 0 0 [] [])
    = atoms_result [] [] (atoms loads cfg buf)"
  using drain_loop_refines [of buf 0 "length buf + 1" 0 "[]"] by simp

subsection \<open>What remains after the atoms\<close>

fun runs_ok :: "byte list \<Rightarrow> atom list \<Rightarrow> bool" where
  "runs_ok acc [] = utf8_ok acc"
| "runs_ok acc (AByte b # as) = runs_ok (acc @ [b]) as"
| "runs_ok acc (AFrame d # as) = (utf8_ok acc \<and> runs_ok [] as)"

definition settled :: "json_loads \<Rightarrow> cf_config \<Rightarrow> byte list \<Rightarrow> bool" where
  "settled loads cfg buf \<longleftrightarrow> utf8_ok buf \<and> atoms loads cfg buf = Inr ([], buf)"

lemma frame_tok_cases:
  assumes "frame_tok loads cfg (DLE # STX # r) = TAtom a rest" and "utf8_ok (DLE # STX # r)"
  shows "\<exists>d. a = AFrame d \<and> utf8_ok rest"
proof -
  from assms(1) obtain d k where
    k: "try_parse_frame loads cfg (DLE # STX # r) 0 (length (DLE # STX # r)) False = Inr (Some (d, k))"
    and "a = AFrame d" "rest = drop k (DLE # STX # r)"
    by (auto simp: frame_tok_def split: sum.splits option.splits)
  with frame_rest_ok [OF k] assms(2) show ?thesis by simp
qed

lemma atoms_ok:
  assumes "atoms loads cfg buf = Inr (as, left)" and "utf8_ok (acc @ buf)"
  shows "runs_ok acc as \<and> settled loads cfg left"
  using assms
proof (induction "length buf" arbitrary: buf acc as rule: less_induct)
  case less
  show ?case
  proof (cases "tok loads cfg buf")
    case TEnd
    then show ?thesis using less.prems tok_TEnd [OF TEnd] by (auto simp: settled_def)
  next
    case TNeed
    then have "as = []" "left = buf" using less.prems(1) by (auto simp: atoms.simps [of _ _ buf])
    moreover obtain r where "buf = DLE # r" using TNeed by (cases buf) (auto split: if_splits)
    ultimately show ?thesis using less.prems utf8_ok_cut [of acc DLE r] by (auto simp: settled_def cf_consts)
  next
    case (TBad e)
    then show ?thesis using less.prems(1) by (simp add: atoms.simps [of _ _ buf])
  next
    case (TAtom a r)
    have len: "length r < length buf" using TAtom by (rule tok_shorter)
    obtain as' where as': "atoms loads cfg r = Inr (as', left)" "as = a # as'"
      using less.prems(1) TAtom by (auto simp: atoms.simps [of _ _ buf] split: sum.splits elim!: map_sum_sel)
         (cases "atoms loads cfg r"; auto)
    obtain b buf' where buf: "buf = b # buf'" using TAtom by (cases buf) auto
    consider (plain) "b \<noteq> DLE" "a = AByte b" "r = buf'"
      | (esc) "b = DLE" "buf' = DLE # r" "a = AByte DLE"
      | (frame) s where "b = DLE" "buf' = STX # s" "frame_tok loads cfg (DLE # STX # s) = TAtom a r"
      using TAtom buf by (auto split: if_splits list.splits)
    then show ?thesis
    proof cases
      case plain
      then show ?thesis using less.hyps [OF len as'(1), of "acc @ [b]"] less.prems(2) as'(2) buf by simp
    next
      case esc
      have ok: "utf8_ok acc" "utf8_ok (DLE # DLE # r)"
        using less.prems(2) utf8_ok_cut [of acc DLE "DLE # r"] buf esc by (auto simp: cf_consts)
      then have "utf8_ok ((acc @ [DLE]) @ r)" by (simp add: utf8_ok_append utf8_ok_ascii cf_consts)
      then show ?thesis using less.hyps [OF len as'(1), of "acc @ [DLE]"] as'(2) esc by simp
    next
      case (frame s)
      have ok: "utf8_ok acc" "utf8_ok (DLE # STX # s)"
        using less.prems(2) utf8_ok_cut [of acc DLE "STX # s"] buf frame by (auto simp: cf_consts)
      from frame_tok_cases [OF frame(3) ok(2)] obtain d where "a = AFrame d" "utf8_ok r" by blast
      then show ?thesis using less.hyps [OF len as'(1), of "[]"] as'(2) ok(1) by simp
    qed
  qed
qed

lemma atoms_left_length: "atoms loads cfg buf = Inr (as, left) \<Longrightarrow> length left \<le> length buf"
proof (induction "length buf" arbitrary: buf as rule: less_induct)
  case less
  show ?case
  proof (cases "tok loads cfg buf")
    case (TAtom a r)
    have len: "length r < length buf" using TAtom by (rule tok_shorter)
    obtain as' where "atoms loads cfg r = Inr (as', left)"
      using less.prems TAtom by (cases "atoms loads cfg r") (auto simp: atoms.simps [of _ _ buf])
    with less.hyps [OF len] len show ?thesis by fastforce
  qed (use less.prems in \<open>auto simp: atoms.simps [of _ _ buf]\<close>)
qed

lemma settled_Nil [simp]: "settled loads cfg []"
  by (simp add: settled_def)

subsection \<open>Draining and feeding\<close>

lemma drain_via_loop:
  assumes "buf \<noteq> []"
  shows "drain loads cfg final buf =
    (case loop_result buf (drain_loop loads cfg final buf (length buf + 1) 0 0 [] []) of
       Inl e \<Rightarrow> Inl e
     | Inr (events, rest) \<Rightarrow>
         if rest = [] then Inr (events, []) else if utf8_decode rest = None then Inl UnicodeError
         else Inr (events, rest))"
proof (cases "drain_loop loads cfg final buf (length buf + 1) 0 0 [] []")
  case (Inl e)
  then show ?thesis unfolding drain_def loop_result_def using assms by simp
next
  case (Inr p)
  obtain idx ds parts events where p: "p = (idx, ds, parts, events)" by (cases p)
  show ?thesis unfolding drain_def loop_result_def Inr p using assms
    by (cases "emit_data_chunk events parts buf ds idx") auto
qed

theorem drain_refines:
  assumes "utf8_ok buf"
  shows "drain loads cfg False buf = map_sum id (\<lambda>(as, left). (group [] as, left)) (atoms loads cfg buf)"
proof (cases "buf = []")
  case True
  then show ?thesis by (simp add: drain_def flush_def)
next
  case False
  note L = drain_via_loop [OF False, of loads cfg False, folded Suc_eq_plus1,
      unfolded Suc_eq_plus1 drain_loop_start [OF assms]]
  show ?thesis
  proof (cases "atoms loads cfg buf")
    case (Inl e)
    with L show ?thesis by simp
  next
    case (Inr p)
    obtain as left where p: "p = (as, left)" by (cases p)
    have "settled loads cfg left" using atoms_ok [of loads cfg buf as left "[]"] assms Inr p by simp
    then have "utf8_decode left \<noteq> None" by (simp add: settled_def utf8_ok_def)
    with L Inr p show ?thesis by auto
  qed
qed

lemma feed_spec:
  assumes "utf8_ok buffer" and "list_all scalar chunk"
  shows "feed loads cfg buffer chunk =
    (if length (buffer @ utf8_bytes chunk) > max_buffer cfg
     then (Inl (ProtocolError ''control frame buffer overflow''), [])
     else case atoms loads cfg (buffer @ utf8_bytes chunk) of
            Inl e \<Rightarrow> (Inl e, [])
          | Inr (as, left) \<Rightarrow> (Inr (group [] as), left))"
proof -
  have ok: "utf8_ok (buffer @ utf8_bytes chunk)"
    using assms utf8_decode_bytes [of chunk] by (simp add: utf8_ok_append) (simp add: utf8_ok_def)
  show ?thesis
  proof (cases "atoms loads cfg (buffer @ utf8_bytes chunk)")
    case (Inl e)
    with atoms_err [OF Inl] show ?thesis using assms(2) drain_refines [OF ok, of loads cfg]
      by (auto simp: feed_def utf8_encode_def Let_def buffer_on_error_def cf_message_def)
  next
    case (Inr p)
    then show ?thesis using assms(2) drain_refines [OF ok, of loads cfg]
      by (cases p) (simp add: feed_def utf8_encode_def Let_def)
  qed
qed

subsection \<open>The stream a consumer sees\<close>

text \<open>Where one data chunk ends and the next begins depends on how the bytes arrived; what a
  consumer relies on is the sequence of characters and control messages.\<close>

datatype item = ItemChar cp | ItemControl jdict

fun chunk_items :: "chunk \<Rightarrow> item list" where
  "chunk_items (DataChunk s) = map ItemChar s"
| "chunk_items (ControlChunk d) = [ItemControl d]"

definition items :: "chunk list \<Rightarrow> item list" where
  "items cs = concat (map chunk_items cs)"

lemma items_simps [simp]:
  "items [] = []" "items (c # cs) = chunk_items c @ items cs" "items (xs @ ys) = items xs @ items ys"
  by (simp_all add: items_def)

lemma items_flush_append:
  assumes "utf8_ok acc" and "utf8_ok acc'"
  shows "items (flush (acc @ acc')) = items (flush acc) @ items (flush acc')"
proof -
  from assms obtain s t where "list_all scalar s" "acc = utf8_bytes s" "list_all scalar t" "acc' = utf8_bytes t"
    by (auto simp: utf8_ok_iff)
  then show ?thesis by (auto simp: flush_def utf8_decode_append utf8_decode_bytes)
qed

lemma items_group_acc:
  "utf8_ok acc \<Longrightarrow> runs_ok acc' as \<Longrightarrow> items (group (acc @ acc') as) = items (flush acc) @ items (group acc' as)"
proof (induction as arbitrary: acc')
  case Nil
  then show ?case by (simp add: items_flush_append)
next
  case (Cons a as)
  then show ?case by (cases a) (auto simp: items_flush_append)
qed

lemma items_group_append:
  "runs_ok acc as \<Longrightarrow> runs_ok [] bs \<Longrightarrow> items (group acc (as @ bs)) = items (group acc as) @ items (group [] bs)"
proof (induction as arbitrary: acc)
  case Nil
  then show ?case using items_group_acc [of acc "[]" bs] by simp
next
  case (Cons a as)
  then show ?case by (cases a) auto
qed

lemma runs_ok_acc: "utf8_ok acc \<Longrightarrow> runs_ok acc' as \<Longrightarrow> runs_ok (acc @ acc') as"
proof (induction as arbitrary: acc')
  case (Cons a as)
  then show ?case by (cases a) (auto simp: utf8_ok_append)
qed (simp add: utf8_ok_append)

lemma runs_ok_append: "runs_ok acc as \<Longrightarrow> runs_ok [] bs \<Longrightarrow> runs_ok acc (as @ bs)"
proof (induction as arbitrary: acc)
  case Nil
  then show ?case using runs_ok_acc [of acc "[]" bs] by simp
next
  case (Cons a as)
  then show ?case by (cases a) auto
qed

lemma items_group_text: "list_all scalar s \<Longrightarrow> items (group [] (map AByte (utf8_bytes s))) = map ItemChar s"
  using group_bytes [of "[]" "utf8_bytes s" "[]"] by (auto simp: flush_def utf8_decode_bytes)

lemma runs_ok_bytes: "runs_ok acc (map AByte u) = utf8_ok (acc @ u)"
  by (induction u arbitrary: acc) simp_all

subsection \<open>Chunking\<close>

text \<open>What the decoder keeps between calls is less than one header and one payload.\<close>

lemma settled_bound:
  assumes "settled loads cfg buf"
  shows "length buf < HEADER_BYTES + max_payload cfg"
proof (cases "tok loads cfg buf")
  case TEnd
  then show ?thesis using tok_TEnd [OF TEnd] by (simp add: HEADER_BYTES_def)
next
  case TNeed
  then show ?thesis using try_parse_None_bound [of loads cfg buf False]
    by (cases buf) (auto simp: frame_tok_def HEADER_BYTES_def split: if_splits list.splits sum.splits option.splits)
next
  case (TBad e)
  then show ?thesis using assms by (simp add: settled_def atoms.simps [of _ _ buf])
next
  case (TAtom a r)
  then show ?thesis using assms
    by (cases "atoms loads cfg r") (auto simp: settled_def atoms.simps [of _ _ buf])
qed

lemma feed_settled:
  assumes "settled loads cfg buffer" and "list_all scalar chunk" and "feed loads cfg buffer chunk = (Inr es, b)"
  shows "settled loads cfg b"
proof -
  have ok: "utf8_ok buffer" "utf8_ok (buffer @ utf8_bytes chunk)"
    using assms(1,2) utf8_decode_bytes [of chunk] by (auto simp: settled_def utf8_ok_append) (simp add: utf8_ok_def)
  show ?thesis using assms(3) atoms_ok [of loads cfg "buffer @ utf8_bytes chunk" _ _ "[]"] ok(2)
    by (auto simp: feed_spec [OF ok(1) assms(2)] split: if_splits sum.splits)
qed

text \<open>Feeding pieces is parsing their concatenation, as long as no piece overflows the buffer.\<close>

lemma feed_all_atoms:
  assumes "settled loads cfg buffer" and "\<And>c. c \<in> set cs \<Longrightarrow> list_all scalar c"
    and "\<And>c. c \<in> set cs \<Longrightarrow> length (utf8_bytes c) + HEADER_BYTES + max_payload cfg \<le> max_buffer cfg + 1"
    and "atoms loads cfg (buffer @ utf8_bytes (concat cs)) = Inr (as, left)"
  shows "\<exists>es. feed_all loads cfg buffer cs = (Inr es, left) \<and> items es = items (group [] as)"
  using assms
proof (induction cs arbitrary: buffer as)
  case Nil
  then show ?case by (auto simp: settled_def flush_def)
next
  case (Cons c cs)
  have ok: "utf8_ok buffer" and c: "list_all scalar c"
    using Cons.prems(1,2) by (simp_all add: settled_def)
  have ok1: "utf8_ok (buffer @ utf8_bytes c)"
    using ok c utf8_decode_bytes [of c] by (simp add: utf8_ok_append) (simp add: utf8_ok_def)
  have nov: "length (buffer @ utf8_bytes c) \<le> max_buffer cfg"
    using settled_bound [OF Cons.prems(1)] Cons.prems(3) [of c] by simp
  obtain as1 left1 where a1: "atoms loads cfg (buffer @ utf8_bytes c) = Inr (as1, left1)"
    using Cons.prems(4) atoms_append [of loads cfg "buffer @ utf8_bytes c" "utf8_bytes (concat cs)"]
    by (cases "atoms loads cfg (buffer @ utf8_bytes c)") auto
  obtain as2 where a2: "atoms loads cfg (left1 @ utf8_bytes (concat cs)) = Inr (as2, left)" "as = as1 @ as2"
    using Cons.prems(4) atoms_append [of loads cfg "buffer @ utf8_bytes c" "utf8_bytes (concat cs)"] a1
    by (cases "atoms loads cfg (left1 @ utf8_bytes (concat cs))") auto
  have s1: "runs_ok [] as1" "settled loads cfg left1"
    using atoms_ok [OF a1, of "[]"] ok1 by simp_all
  have f1: "feed loads cfg buffer c = (Inr (group [] as1), left1)"
    using nov a1 by (simp add: feed_spec [OF ok c])
  obtain es2 where f2: "feed_all loads cfg left1 cs = (Inr es2, left)" "items es2 = items (group [] as2)"
    using Cons.IH [OF s1(2) _ _ a2(1)] Cons.prems(2,3) by auto
  have cs: "list_all scalar (concat cs)" using Cons.prems(2) by (auto simp: list_all_iff)
  have "utf8_ok (left1 @ utf8_bytes (concat cs))"
    using s1(2) utf8_decode_bytes [OF cs] by (simp add: settled_def utf8_ok_append) (simp add: utf8_ok_def)
  then have "runs_ok [] as2" using atoms_ok [OF a2(1), of "[]"] by simp
  with f1 f2 a2(2) s1(1) show ?case by (simp add: items_group_append)
qed

subsection \<open>Encoded messages\<close>

datatype wire_msg = WData pystr | WControl jdict

fun encode_msg :: "json_dumps \<Rightarrow> wire_msg \<Rightarrow> pystr" where
  "encode_msg dumps (WData s) = encode_terminal_data s"
| "encode_msg dumps (WControl d) = encode_control_frame dumps d"

fun msg_items :: "wire_msg \<Rightarrow> item list" where
  "msg_items (WData s) = map ItemChar s"
| "msg_items (WControl d) = [ItemControl d]"

text \<open>What a message must satisfy to be sendable: text without surrogates; a control payload that
  the codec reads back, within the decoder's limits.\<close>

fun sendable :: "json_dumps \<Rightarrow> json_loads \<Rightarrow> cf_config \<Rightarrow> wire_msg \<Rightarrow> bool" where
  "sendable dumps loads cfg (WData s) = list_all scalar s"
| "sendable dumps loads cfg (WControl d) =
     (list_all scalar (dumps d) \<and> loads (dumps d) = Some (JObj d) \<and>
      length (utf8_bytes (dumps d)) \<le> MAX_CONTROL_PAYLOAD_BYTES \<and>
      length (utf8_bytes (dumps d)) \<le> max_payload cfg \<and> json_depth (JObj d) \<le> max_depth cfg)"

lemma encode_terminal_simps [simp]:
  "encode_terminal_data [] = []"
  "encode_terminal_data (c # s) = (if c = DLE then [DLE, DLE] else [c]) @ encode_terminal_data s"
  by (simp_all add: encode_terminal_data_def)

lemma encode_terminal_scalar: "list_all scalar s \<Longrightarrow> list_all scalar (encode_terminal_data s)"
  by (induction s) (auto simp: scalar_def cf_consts)

lemma atoms_text:
  "list_all scalar s \<Longrightarrow> atoms loads cfg (utf8_bytes (encode_terminal_data s) @ r)
     = map_sum id (map_prod ((@) (map AByte (utf8_bytes s))) id) (atoms loads cfg r)"
proof (induction s)
  case Nil
  then show ?case by (cases "atoms loads cfg r") auto
next
  case (Cons c s)
  have u: "utf8_char DLE = [DLE]" by (simp add: utf8_char_def DLE_def)
  show ?case
  proof (cases "c = DLE")
    case True
    with Cons show ?thesis by (cases "atoms loads cfg r") (auto simp: u atoms_DLE_DLE)
  next
    case False
    have "DLE \<notin> set (utf8_char c)"
      using False utf8_char_multi [of c DLE] by (cases "c < 0x80") (auto simp: utf8_char_ascii DLE_def)
    with False Cons show ?thesis by (cases "atoms loads cfg r") (auto simp: atoms_plain)
  qed
qed

lemma control_bytes:
  assumes "length (utf8_bytes (dumps d)) \<le> MAX_CONTROL_PAYLOAD_BYTES"
  shows "utf8_bytes (encode_control_frame dumps d)
    = DLE # STX # fmt_08x (length (utf8_bytes (dumps d))) @ COLON # utf8_bytes (dumps d)"
  using hex_bytes [OF fmt_08x_hex]
  by (simp add: encode_control_frame_def Let_def utf8_char_def cf_consts)

lemma atoms_control:
  assumes "sendable dumps loads cfg (WControl d)" and "1 \<le> max_depth cfg"
  shows "atoms loads cfg (utf8_bytes (encode_control_frame dumps d) @ r)
    = map_sum id (map_prod ((#) (AFrame d)) id) (atoms loads cfg r)"
proof -
  let ?p = "utf8_bytes (dumps d)" and ?h = "fmt_08x (length (utf8_bytes (dumps d)))"
  let ?buf = "DLE # STX # ?h @ COLON # ?p @ r"
  have len: "length ?h = 8" using assms(1) by (simp add: length_fmt_08x)
  have h: "slice ?buf 2 10 = ?h" "?buf ! 10 = COLON" "slice ?buf 11 (11 + length ?p) = ?p" "drop (11 + length ?p) ?buf = r"
    using len by (simp_all add: slice_def nth_append numeral_eq_Suc)
  have "payload_end_for_utf8_length ?buf 11 (length ?p) = Inr (Some (11 + length ?p, dumps d))"
    using assms(1) len h(3) by (simp add: payload_end_for_utf8_length_def utf8_decode_bytes)
  moreover have "parse_frame_payload loads cfg (dumps d) = Inr d"
    using assms by (simp add: parse_frame_payload_def check_json_depth_def depth_loop_iff)
  ultimately have "try_parse_frame loads cfg ?buf 0 (length ?buf) False = Inr (Some (d, 11 + length ?p))"
    using assms(1) len h(1,2) fmt_08x_hex
    by (simp add: try_parse_frame_def Let_def HEADER_BYTES_def del: add_2_eq_Suc add_2_eq_Suc')
  with atoms_frame [of loads cfg "?h @ COLON # ?p @ r"] h(4) show ?thesis
    using assms(1) by (simp add: control_bytes)
qed

lemma control_scalar:
  "list_all scalar (dumps d) \<Longrightarrow> list_all scalar (encode_control_frame dumps d)"
  using hex_bytes [OF fmt_08x_hex] by (simp add: encode_control_frame_def Let_def scalar_def cf_consts)

lemma encode_msg_scalar: "sendable dumps loads cfg m \<Longrightarrow> list_all scalar (encode_msg dumps m)"
  by (cases m) (simp_all add: encode_terminal_scalar control_scalar)

lemma atoms_messages:
  assumes "\<forall>m \<in> set ms. sendable dumps loads cfg m" and "1 \<le> max_depth cfg"
  shows "\<exists>as. atoms loads cfg (utf8_bytes (concat (map (encode_msg dumps) ms))) = Inr (as, []) \<and>
    runs_ok [] as \<and> items (group [] as) = concat (map msg_items ms)"
  using assms(1)
proof (induction ms)
  case Nil
  then show ?case by (simp add: flush_def)
next
  case (Cons m ms)
  then obtain as where as: "atoms loads cfg (utf8_bytes (concat (map (encode_msg dumps) ms))) = Inr (as, [])"
      "runs_ok [] as" "items (group [] as) = concat (map msg_items ms)" by auto
  show ?case
  proof (cases m)
    case (WData s)
    with Cons.prems have s: "list_all scalar s" by simp
    have ok: "runs_ok [] (map AByte (utf8_bytes s))"
      using utf8_decode_bytes [OF s] by (simp add: runs_ok_bytes utf8_ok_def)
    with as have "runs_ok [] (map AByte (utf8_bytes s) @ as)"
      by (simp add: runs_ok_append)
    with WData as s ok items_group_append [OF ok as(2)] show ?thesis
      by (auto simp: atoms_text items_group_text)
  next
    case (WControl d)
    with Cons.prems have "sendable dumps loads cfg (WControl d)" by simp
    with WControl as atoms_control [OF _ assms(2)] show ?thesis by (auto simp: flush_def)
  qed
qed

subsection \<open>Finishing, and whole frames\<close>

lemma try_parse_final:
  "try_parse_frame loads cfg a 0 n False = Inr None \<Longrightarrow>
   try_parse_frame loads cfg a 0 n True = Inl (ProtocolError ''truncated control frame'')"
  by (auto simp: try_parse_frame_def Let_def split: if_splits sum.splits option.splits)

lemma settled_tok:
  assumes "settled loads cfg b" and "b \<noteq> []"
  shows "tok loads cfg b = TNeed"
proof (cases "tok loads cfg b")
  case TEnd
  with assms(2) tok_TEnd show ?thesis by blast
next
  case (TAtom a r)
  with assms(1) show ?thesis
    by (cases "atoms loads cfg r") (auto simp: settled_def atoms.simps [of _ _ b])
qed (use assms(1) in \<open>auto simp: settled_def atoms.simps [of _ _ b]\<close>)

lemma payload_end_loop_whole:
  "bc \<le> n \<Longrightarrow> payload_end_loop buf idx bc n = Inr (Some (idx + length buf)) \<longleftrightarrow>
    bc + length (utf8_bytes buf) = n"
proof (induction buf arbitrary: idx bc)
  case Nil
  then show ?case by (subst payload_end_loop.simps) auto
next
  case (Cons c buf)
  show ?case
  proof (cases "bc + length (utf8_char c) \<le> n")
    case True
    moreover have "0 < length (utf8_char c)" by simp
    ultimately have "bc < n" by linarith
    with True Cons.IH [OF True, of "Suc idx"] show ?thesis
      by (subst payload_end_loop.simps) (simp add: Let_def add.assoc)
  next
    case False
    then show ?thesis by (subst payload_end_loop.simps) (auto simp: Let_def Cons.prems)
  qed
qed

definition frame_text :: "pystr \<Rightarrow> pystr" where
  "frame_text raw = [DLE, STX] @ fmt_08x (length (utf8_bytes raw)) @ [COLON] @ raw"

lemma encode_frame_text: "encode_control_frame dumps d = frame_text (dumps d)"
  by (simp add: encode_control_frame_def frame_text_def Let_def)

lemma frame_text_parts:
  assumes "length (utf8_bytes raw) \<le> MAX_CONTROL_PAYLOAD_BYTES"
  shows "take 2 (frame_text raw) = [DLE, STX]" "frame_text raw ! 10 = COLON"
    "slice (frame_text raw) 2 10 = fmt_08x (length (utf8_bytes raw))" "drop 11 (frame_text raw) = raw"
    "length (frame_text raw) = 11 + length raw"
  using length_fmt_08x [OF assms] by (simp_all add: frame_text_def slice_def nth_append numeral_eq_Suc)

lemma frame_text_whole:
  assumes "11 \<le> length m" and "take 2 m = [DLE, STX]" and "m ! 10 = COLON"
    and "slice m 2 10 = fmt_08x (length (utf8_bytes (drop 11 m)))"
  shows "m = frame_text (drop 11 m)"
proof -
  have "take 11 m = take 10 m @ [m ! 10]" using assms(1) take_Suc_conv_app_nth [of 10 m] by simp
  moreover have "take 10 m = take 2 m @ slice m 2 10" using slice_extend [of 0 2 m 8] by (simp add: slice_def)
  ultimately have "take 11 m = [DLE, STX] @ fmt_08x (length (utf8_bytes (drop 11 m))) @ [COLON]"
    using assms by simp
  then show ?thesis unfolding frame_text_def using append_take_drop_id [of 11 m] by simp
qed

subsection \<open>Properties\<close>

text \<open>A codec for the witnesses: it writes the empty object and reads nothing else.\<close>

definition braces_dumps :: json_dumps where "braces_dumps d = [0x7B, 0x7D]"
definition braces_loads :: json_loads where
  "braces_loads s = (if s = [0x7B, 0x7D] then Some (JObj []) else None)"
definition default_config :: cf_config where "default_config = decoder_config 1048576 10485760 32"

lemma default_config_simps [simp]:
  "max_payload default_config = 1048576" "max_buffer default_config = 10485760" "max_depth default_config = 32"
  by (simp_all add: default_config_def decoder_config_def)

lemma utf8_bytes_single [simp]: "length (utf8_bytes [c]) \<le> 4"
  by (simp add: utf8_char_len)

lemma braces_sendable: "sendable braces_dumps braces_loads default_config (WControl [])"
  by (simp add: braces_dumps_def braces_loads_def scalar_def utf8_char_def MAX_CONTROL_PAYLOAD_BYTES_def)

text \<open>C4: A framed stream decodes to itself however it is cut. Terminal text and control messages
  are encoded and concatenated; the wire text is cut anywhere, into any number of pieces (each
  small enough for the decoder's buffer beside one pending frame); feeding the pieces in order
  raises nothing, leaves nothing buffered, and yields exactly the characters and control
  messages that were sent, in order. The codec is a parameter: \<open>loads\<close> must read back what
  \<open>dumps\<close> wrote for the payloads sent.\<close>

theorem decoder_stream_roundtrip:
  assumes "\<forall>m \<in> set ms. sendable dumps loads cfg m" and "1 \<le> max_depth cfg"
    and "concat cs = concat (map (encode_msg dumps) ms)"
    and "\<forall>c \<in> set cs. length (utf8_bytes c) + HEADER_BYTES + max_payload cfg \<le> max_buffer cfg + 1"
  shows "\<exists>es. feed_all loads cfg [] cs = (Inr es, []) \<and> items es = concat (map msg_items ms)"
proof -
  obtain as where as: "atoms loads cfg (utf8_bytes (concat cs)) = Inr (as, [])"
      "items (group [] as) = concat (map msg_items ms)"
    using atoms_messages [OF assms(1,2)] assms(3) by auto
  have "list_all scalar (concat cs)"
    using assms(1) by (auto simp: assms(3) list_all_iff dest!: encode_msg_scalar)
  then have "list_all scalar c" if "c \<in> set cs" for c using that by (auto simp: list_all_iff)
  with feed_all_atoms [OF settled_Nil, where cs = cs and as = as and left = "[]"] assms(4) as show ?thesis by auto
qed

theorem decoder_stream_roundtrip_witness:
  "\<exists>es. feed_all braces_loads default_config []
      (map (\<lambda>c. [c]) (concat (map (encode_msg braces_dumps) [WData [0x61, 0x10], WControl []]))) = (Inr es, []) \<and>
    items es = [ItemChar 0x61, ItemChar 0x10, ItemControl []]"
proof -
  let ?ms = "[WData [0x61, 0x10], WControl []]"
  let ?wire = "concat (map (encode_msg braces_dumps) ?ms)"
  have m: "\<forall>m \<in> set ?ms. sendable braces_dumps braces_loads default_config m"
    using braces_sendable by (simp add: scalar_def)
  have d: "1 \<le> max_depth default_config" by simp
  have c: "concat (map (\<lambda>c. [c]) xs) = xs" for xs :: pystr by (induction xs) simp_all
  have b: "\<forall>c \<in> set (map (\<lambda>c. [c]) xs). length (utf8_bytes c) + HEADER_BYTES + max_payload default_config
      \<le> max_buffer default_config + 1" for xs
    by (auto simp: HEADER_BYTES_def intro: order_trans [OF utf8_char_len])
  obtain es where es: "feed_all braces_loads default_config [] (map (\<lambda>c. [c]) ?wire) = (Inr es, [])"
      "items es = concat (map msg_items ?ms)"
    using decoder_stream_roundtrip [OF m d c b] by blast
  show ?thesis by (rule exI [of _ es], rule conjI, rule es(1)) (use es(2) in simp)
qed



text \<open>The decoder is safe on any text whatever: a call either succeeds, and then keeps less
  than one header and one maximal payload and never more than its buffer limit, or it raises a
  protocol error and starts again from an empty buffer. It never raises a decoding error, and
  the scan loop never runs out of its bounded number of passes.\<close>

theorem feed_safe:
  assumes "settled loads cfg buffer" and "list_all scalar chunk"
  shows "case feed loads cfg buffer chunk of
      (Inr es, b) \<Rightarrow> settled loads cfg b \<and> length b < HEADER_BYTES + max_payload cfg \<and> length b \<le> max_buffer cfg
    | (Inl e, b) \<Rightarrow> b = [] \<and> cf_message e"
proof (cases "feed loads cfg buffer chunk")
  case (Pair r b)
  have ok: "utf8_ok buffer" using assms(1) by (simp add: settled_def)
  show ?thesis
  proof (cases r)
    case (Inl e)
    then show ?thesis using Pair atoms_err
      by (auto simp: feed_spec [OF ok assms(2)] cf_message_def [of "ProtocolError _"] split: if_splits sum.splits)
  next
    case (Inr es)
    have s: "settled loads cfg b" using feed_settled [OF assms] Pair Inr by simp
    obtain as where as: "atoms loads cfg (buffer @ utf8_bytes chunk) = Inr (as, b)"
        and le: "length (buffer @ utf8_bytes chunk) \<le> max_buffer cfg"
      using Pair Inr by (auto simp: feed_spec [OF ok assms(2)] split: if_splits sum.splits)
    then have "length b \<le> max_buffer cfg" using atoms_left_length [OF as] by simp
    with s settled_bound [OF s] Pair Inr show ?thesis by simp
  qed
qed

theorem feed_safe_witness:
  "feed braces_loads default_config [] [DLE, 0x61] = (Inl (ProtocolError ''invalid control prefix''), []) \<and>
   cf_message (ProtocolError ''invalid control prefix'')"
proof -
  have f: "feed braces_loads default_config [] [DLE, 0x61] = (Inl (ProtocolError ''invalid control prefix''), [])"
    using atoms_bad [where x = "0x61" and loads = braces_loads and cfg = default_config and r = "[]"]
    by (simp add: feed_spec scalar_def utf8_char_def cf_consts)
  with feed_safe [where loads = braces_loads and cfg = default_config and buffer = "[]" and chunk = "[DLE, 0x61]"] show ?thesis
    by (simp add: scalar_def DLE_def)
qed

text \<open>At the end of the stream, \<open>finish\<close> accepts exactly when nothing is pending; otherwise it
  reports a truncated frame and leaves the decoder empty.\<close>

theorem finish_settled:
  assumes "settled loads cfg buffer"
  shows "finish loads cfg buffer =
    (if buffer = [] then (Inr [], []) else (Inl (ProtocolError ''truncated control frame''), []))"
proof (cases "buffer = []")
  case True
  then show ?thesis by (simp add: finish_def drain_def)
next
  case False
  note t = settled_tok [OF assms False]
  obtain r where b: "buffer = DLE # r" using False t by (cases buffer) (auto split: if_splits)
  have "drain_loop loads cfg True buffer (length buffer + 1) 0 0 [] [] = Inl (ProtocolError ''truncated control frame'')"
  proof (cases r)
    case Nil
    then show ?thesis using b by simp
  next
    case (Cons x r')
    with t b have x: "x = STX" "STX \<noteq> DLE" and f: "frame_tok loads cfg buffer = TNeed"
      by (auto split: if_splits simp: cf_consts)
    have tp: "try_parse_frame loads cfg buffer 0 (length buffer) False = Inr None"
      using f by (auto simp: frame_tok_def split: sum.splits option.splits)
    have "emit_data_chunk [] [] buffer 0 0 = Inr []" by (simp add: emit_data_chunk_def)
    with b Cons x try_parse_final [OF tp] show ?thesis by simp
  qed
  then show ?thesis using False by (simp add: finish_def drain_def buffer_on_error_def)
qed

theorem finish_settled_witness:
  "finish braces_loads default_config [DLE] = (Inl (ProtocolError ''truncated control frame''), [])"
proof -
  have "settled braces_loads default_config [DLE]"
    by (simp add: settled_def atoms_lone utf8_ok_ascii DLE_def [symmetric]) (simp add: utf8_ok_ascii DLE_def)
  then show ?thesis using finish_settled by simp
qed

text \<open>\<open>is_control_frame\<close> recognises exactly the canonical frames: DLE, STX, the payload's UTF-8
  length in eight lowercase hex digits, a colon and the payload, with a payload of at most one
  mebibyte. In particular it holds of every frame the encoder makes within that limit, and of no
  message with another spelling of the length.\<close>

theorem is_control_frame_iff:
  "is_control_frame m \<longleftrightarrow>
    (\<exists>raw. length (utf8_bytes raw) \<le> MAX_CONTROL_PAYLOAD_BYTES \<and>
       m = [DLE, STX] @ fmt_08x (length (utf8_bytes raw)) @ [COLON] @ raw)"
proof
  assume f: "is_control_frame m"
  let ?n = "parse_hex (slice m 2 10)"
  have c: "11 \<le> length m" "take 2 m = [DLE, STX]" "m ! 10 = COLON" "fmt_08x ?n = slice m 2 10"
      "?n \<le> MAX_CONTROL_PAYLOAD_BYTES" "utf8_payload_end m 11 ?n = Inr (Some (length m))"
    using f by (auto simp: is_control_frame_def Let_def HEADER_BYTES_def split: if_splits sum.splits)
  have "length (utf8_bytes (drop 11 m)) = ?n"
    using c(1,6) payload_end_loop_whole [of 0 ?n "drop 11 m" 11] by (simp add: utf8_payload_end_def)
  with c frame_text_whole [OF c(1-3)] show "\<exists>raw. length (utf8_bytes raw) \<le> MAX_CONTROL_PAYLOAD_BYTES \<and>
       m = [DLE, STX] @ fmt_08x (length (utf8_bytes raw)) @ [COLON] @ raw"
    unfolding frame_text_def by metis
next
  assume "\<exists>raw. length (utf8_bytes raw) \<le> MAX_CONTROL_PAYLOAD_BYTES \<and>
       m = [DLE, STX] @ fmt_08x (length (utf8_bytes raw)) @ [COLON] @ raw"
  then obtain raw where raw: "length (utf8_bytes raw) \<le> MAX_CONTROL_PAYLOAD_BYTES" "m = frame_text raw"
    by (auto simp: frame_text_def)
  have "utf8_payload_end m 11 (length (utf8_bytes raw)) = Inr (Some (length m))"
    using payload_end_loop_whole [of 0 "length (utf8_bytes raw)" raw 11] frame_text_parts [OF raw(1)] raw(2)
    by (simp add: utf8_payload_end_def)
  then show "is_control_frame m"
    using frame_text_parts [OF raw(1)] raw fmt_08x_hex
    by (simp add: is_control_frame_def Let_def HEADER_BYTES_def)
qed

end
