(* ===== verification/Tunnel.thy ===== *)
theory Tunnel
  imports Json
begin

text \<open>
  The binary tunnel frames of \<open>tunnel/protocol.py\<close>: a channel byte, a flag byte and the payload,
  and the JSON control messages on channel 0. Byte strings are lists of \<open>nat\<close>; the JSON codec is
  a parameter, as in theory \<open>ControlFrame\<close>.
\<close>

definition CHANNEL_CONTROL :: int where "CHANNEL_CONTROL = 0x00"
definition CHANNEL_DATA :: int where "CHANNEL_DATA = 0x01"
definition CHANNEL_TCP :: int where "CHANNEL_TCP = 0x02"
definition CHANNEL_HTTP :: int where "CHANNEL_HTTP = 0x03"
definition FLAG_DATA :: int where "FLAG_DATA = 0x00"
definition FLAG_EOF :: int where "FLAG_EOF = 0x01"

record tunnel_frame =
  tf_channel :: int
  tf_flags :: int
  tf_payload :: "byte list"

definition tf_is_eof :: "tunnel_frame \<Rightarrow> bool" where
  "tf_is_eof f \<longleftrightarrow> and (tf_flags f) FLAG_EOF \<noteq> 0"

definition tf_is_control :: "tunnel_frame \<Rightarrow> bool" where
  "tf_is_control f \<longleftrightarrow> tf_channel f = CHANNEL_CONTROL"

definition encode_frame :: "int \<Rightarrow> byte list \<Rightarrow> int \<Rightarrow> string + byte list" where
  "encode_frame channel payload flags =
     (if \<not> (0 \<le> channel \<and> channel \<le> 0xFF) then Inl ''channel must be 0..255''
      else if \<not> (0 \<le> flags \<and> flags \<le> 0xFF) then Inl ''flags must be 0..255''
      else Inr ([nat channel, nat flags] @ payload))"

definition decode_frame :: "byte list \<Rightarrow> string + tunnel_frame" where
  "decode_frame bs =
     (case bs of
        c # f # payload \<Rightarrow> Inr \<lparr>tf_channel = int c, tf_flags = int f, tf_payload = payload\<rparr>
      | _ \<Rightarrow> Inl ''frame too short'')"

definition TYPE_KEY :: pystr where "TYPE_KEY = [116, 121, 112, 101]"

text \<open>\<open>Inl (Inr ())\<close> is the \<open>UnicodeEncodeError\<close> of a text that cannot be encoded.\<close>

definition encode_control :: "json_dumps \<Rightarrow> jdict \<Rightarrow> (string + unit) + byte list" where
  "encode_control dumps msg =
     (if TYPE_KEY \<notin> fst ` set msg then Inl (Inl ''control message must have a type key'')
      else case utf8_encode (dumps msg) of
             None \<Rightarrow> Inl (Inr ())
           | Some payload \<Rightarrow>
               (case encode_frame CHANNEL_CONTROL payload FLAG_DATA of Inl e \<Rightarrow> Inl (Inl e) | Inr bs \<Rightarrow> Inr bs))"

definition decode_control :: "json_loads \<Rightarrow> byte list \<Rightarrow> string + jdict" where
  "decode_control loads payload =
     (case utf8_decode payload of
        None \<Rightarrow> Inl ''invalid control payload''
      | Some text \<Rightarrow>
          (case loads text of
             None \<Rightarrow> Inl ''invalid control payload''
           | Some (JObj d) \<Rightarrow> Inr d
           | Some _ \<Rightarrow> Inl ''control payload must be a JSON object''))"

lemma encode_frame_Inr:
  "encode_frame ch p fl = Inr bs \<longleftrightarrow>
     0 \<le> ch \<and> ch \<le> 255 \<and> 0 \<le> fl \<and> fl \<le> 255 \<and> bs = nat ch # nat fl # p"
  by (auto simp: encode_frame_def)

text \<open>Tunnel frames are a bijection between the frames whose channel and flags fit a byte and
  the byte strings of at least two bytes: what \<open>encode_frame\<close> accepts, \<open>decode_frame\<close> gives
  back, and every byte string \<open>decode_frame\<close> accepts is the encoding of what it returned; it
  refuses exactly the strings shorter than two bytes.\<close>

theorem tunnel_frame_bijection:
  assumes "list_all (\<lambda>b. b < 256) bs"
  shows "(encode_frame ch p fl = Inr bs \<longrightarrow>
            decode_frame bs = Inr \<lparr>tf_channel = ch, tf_flags = fl, tf_payload = p\<rparr>) \<and>
         (\<forall>f. decode_frame bs = Inr f \<longrightarrow> encode_frame (tf_channel f) (tf_payload f) (tf_flags f) = Inr bs) \<and>
         ((\<exists>e. decode_frame bs = Inl e) \<longleftrightarrow> length bs < 2)"
  using assms
  by (auto simp: encode_frame_Inr decode_frame_def split: list.splits)

theorem tunnel_frame_bijection_witness:
  "decode_frame [1, 0, 104] = Inr \<lparr>tf_channel = 1, tf_flags = 0, tf_payload = [104]\<rparr>"
proof -
  have "encode_frame 1 [104] 0 = Inr [1, 0, 104]" by (simp add: encode_frame_def)
  then show ?thesis using tunnel_frame_bijection [of "[1, 0, 104]" 1 "[104]" 0] by simp
qed

text \<open>A control message with a \<open>type\<close> survives the tunnel: its frame is a control frame, not
  an EOF, and the payload decodes to the message (for a codec that reads back what it wrote in
  encodable text). Without a \<open>type\<close> it is refused.\<close>

theorem tunnel_control_roundtrip:
  assumes "loads (dumps msg) = Some (JObj msg)" and "list_all scalar (dumps msg)"
  shows "(TYPE_KEY \<in> fst ` set msg \<longrightarrow>
            (\<exists>bs f. encode_control dumps msg = Inr bs \<and> decode_frame bs = Inr f \<and>
                    tf_is_control f \<and> \<not> tf_is_eof f \<and> decode_control loads (tf_payload f) = Inr msg)) \<and>
         (TYPE_KEY \<notin> fst ` set msg \<longrightarrow>
            encode_control dumps msg = Inl (Inl ''control message must have a type key''))"
  using assms utf8_decode_bytes [OF assms(2)]
  by (auto simp: encode_control_def utf8_encode_def encode_frame_def CHANNEL_CONTROL_def FLAG_DATA_def
      decode_frame_def tf_is_control_def tf_is_eof_def FLAG_EOF_def decode_control_def)

definition typed_dumps :: json_dumps where "typed_dumps d = [0x7B]"
definition typed_loads :: json_loads where "typed_loads s = Some (JObj [(TYPE_KEY, JNull)])"

theorem tunnel_control_roundtrip_witness:
  "\<exists>bs f. encode_control typed_dumps [(TYPE_KEY, JNull)] = Inr bs \<and> decode_frame bs = Inr f \<and>
     decode_control typed_loads (tf_payload f) = Inr [(TYPE_KEY, JNull)]"
  using tunnel_control_roundtrip [of typed_loads typed_dumps "[(TYPE_KEY, JNull)]"]
  by (auto simp: typed_dumps_def typed_loads_def scalar_def)

end
