(* ===== verification/RateLimit.thy ===== *)
theory RateLimit
  imports Prelude
begin

text \<open>
  The token bucket of \<open>server/bridge/ratelimit.py\<close> and the limiter of
  \<open>server/bridge/hub/limiter.py\<close>, which keeps one bucket per client in an LRU dictionary beside
  a global bucket. A bucket is shared by the dictionary and the caller, so what \<open>allow\<close> does to
  it is written back under its key. Rates and tokens are floats in the code and reals here.
\<close>

definition MIN_RATE_PER_SEC :: real where "MIN_RATE_PER_SEC = 1"

record bucket =
  tb_rate :: real
  tb_burst :: real
  tb_tokens :: real
  tb_last_refill :: time

definition new_bucket :: "real \<Rightarrow> real option \<Rightarrow> time \<Rightarrow> bucket" where
  "new_bucket rate burst now =
     (let b = (case burst of None \<Rightarrow> rate | Some b \<Rightarrow> b)
      in \<lparr>tb_rate = rate, tb_burst = b, tb_tokens = b, tb_last_refill = now\<rparr>)"

definition allow :: "bucket \<Rightarrow> time \<Rightarrow> bool \<times> bucket" where
  "allow b now =
     (let elapsed = now - tb_last_refill b;
          tokens = min (tb_burst b) (tb_tokens b + elapsed * tb_rate b);
          b1 = b\<lparr>tb_tokens := tokens, tb_last_refill := now\<rparr>
      in if 1 \<le> tokens then (True, b1\<lparr>tb_tokens := tokens - 1\<rparr>) else (False, b1))"

subsection \<open>The limiter\<close>

definition REST_CLIENT_CACHE_MAX :: nat where "REST_CLIENT_CACHE_MAX = 1024"
definition REST_CLIENT_EVICT_COUNT :: nat where "REST_CLIENT_EVICT_COUNT = REST_CLIENT_CACHE_MAX div 2"

type_synonym clients = "(string \<times> bucket) list"

record rate_limiter =
  rl_acquire_rate :: real
  rl_send_rate :: real
  rl_acquire_bucket :: bucket
  rl_send_bucket :: bucket
  rl_acquire_per_client :: clients
  rl_send_per_client :: clients

definition new_rate_limiter :: "real \<Rightarrow> real \<Rightarrow> time \<Rightarrow> rate_limiter" where
  "new_rate_limiter acquire_rate send_rate now =
     (let ar = max MIN_RATE_PER_SEC acquire_rate; sr = max MIN_RATE_PER_SEC send_rate
      in \<lparr>rl_acquire_rate = ar, rl_send_rate = sr,
          rl_acquire_bucket = new_bucket ar None now, rl_send_bucket = new_bucket sr None now,
          rl_acquire_per_client = [], rl_send_per_client = []\<rparr>)"

definition evict_if_full :: "clients \<Rightarrow> clients" where
  "evict_if_full d = (if REST_CLIENT_CACHE_MAX < length d then drop REST_CLIENT_EVICT_COUNT d else d)"

definition touch :: "clients \<Rightarrow> string \<Rightarrow> real \<Rightarrow> time \<Rightarrow> bucket \<times> clients" where
  "touch d cid rate now =
     (let b = (case od_get d cid of Some b \<Rightarrow> b | None \<Rightarrow> new_bucket rate None now)
      in (b, evict_if_full (od_pop d cid @ [(cid, b)])))"

text \<open>The body the two policies share: the client's bucket first, the global one only if it admits.\<close>

definition admit :: "real \<Rightarrow> bucket \<Rightarrow> clients \<Rightarrow> string \<Rightarrow> time \<Rightarrow> bool \<times> bucket \<times> clients" where
  "admit rate glob d cid now =
     (let (b, d1) = touch d cid rate now;
          (ok, b1) = allow b now;
          d2 = od_set d1 cid b1
      in if ok then (let (ok2, g1) = allow glob now in (ok2, g1, d2)) else (False, glob, d2))"

definition allow_rest_acquire :: "rate_limiter \<Rightarrow> string \<Rightarrow> time \<Rightarrow> bool \<times> rate_limiter" where
  "allow_rest_acquire l cid now =
     (let (ok, g, d) = admit (rl_acquire_rate l) (rl_acquire_bucket l) (rl_acquire_per_client l) cid now
      in (ok, l\<lparr>rl_acquire_bucket := g, rl_acquire_per_client := d\<rparr>))"

definition allow_rest_send :: "rate_limiter \<Rightarrow> string \<Rightarrow> time \<Rightarrow> bool \<times> rate_limiter" where
  "allow_rest_send l cid now =
     (let (ok, g, d) = admit (rl_send_rate l) (rl_send_bucket l) (rl_send_per_client l) cid now
      in (ok, l\<lparr>rl_send_bucket := g, rl_send_per_client := d\<rparr>))"

subsection \<open>A bucket never admits more than its rate\<close>

definition bucket_ok :: "bucket \<Rightarrow> bool" where
  "bucket_ok b \<longleftrightarrow> 0 \<le> tb_rate b \<and> 0 \<le> tb_tokens b \<and> tb_tokens b \<le> tb_burst b"

lemma bucket_ok_new: "0 \<le> rate \<Longrightarrow> bucket_ok (new_bucket rate None now)"
  by (simp add: bucket_ok_def new_bucket_def)

lemma allow_config [simp]:
  "tb_rate (snd (allow b now)) = tb_rate b" "tb_burst (snd (allow b now)) = tb_burst b"
  "tb_last_refill (snd (allow b now)) = now"
  by (simp_all add: allow_def Let_def)

lemma allow_ok:
  assumes "bucket_ok b" and "tb_last_refill b \<le> now"
  shows "bucket_ok (snd (allow b now))"
proof -
  have "0 \<le> (now - tb_last_refill b) * tb_rate b"
    using assms by (simp add: bucket_ok_def)
  with assms show ?thesis by (auto simp: bucket_ok_def allow_def Let_def min_def)
qed

text \<open>Admitting costs a token; the refill gives at most the elapsed time's worth.\<close>

lemma allow_budget:
  "(if fst (allow b now) then 1 else 0) + tb_tokens (snd (allow b now))
     \<le> tb_tokens b + (now - tb_last_refill b) * tb_rate b"
  by (auto simp: allow_def Let_def min_def)

fun admitted :: "bucket \<Rightarrow> time list \<Rightarrow> nat" where
  "admitted b [] = 0"
| "admitted b (t # ts) = (if fst (allow b t) then 1 else 0) + admitted (snd (allow b t)) ts"

lemma admitted_budget:
  assumes "bucket_ok b" and "sorted (tb_last_refill b # ts)"
  shows "real (admitted b ts) \<le> tb_tokens b + (last (tb_last_refill b # ts) - tb_last_refill b) * tb_rate b"
  using assms
proof (induction ts arbitrary: b)
  case Nil
  then show ?case by (simp add: bucket_ok_def)
next
  case (Cons t ts)
  let ?b = "snd (allow b t)"
  have le: "tb_last_refill b \<le> t" and s: "sorted (tb_last_refill ?b # ts)" using Cons.prems(2) by auto
  note IH = Cons.IH [OF allow_ok [OF Cons.prems(1) le] s]
  have "real (admitted b (t # ts)) = (if fst (allow b t) then 1 else 0) + real (admitted ?b ts)" by simp
  also have "\<dots> \<le> (if fst (allow b t) then 1 else 0) + tb_tokens ?b + (last (t # ts) - t) * tb_rate b"
    using IH by simp
  also have "\<dots> \<le> tb_tokens b + (t - tb_last_refill b) * tb_rate b + (last (t # ts) - t) * tb_rate b"
    using allow_budget [of b t] by simp
  also have "\<dots> = tb_tokens b + (last (t # ts) - tb_last_refill b) * tb_rate b"
    by (simp add: algebra_simps)
  finally show ?case by simp
qed

text \<open>C39: The token bucket keeps its promise over any run of calls in time order: from its last
  refill on, at most \<open>burst + rate * elapsed\<close> calls are admitted, and the token count stays
  between zero and the burst.\<close>

theorem bucket_rate_bound:
  assumes "bucket_ok b" and "sorted (tb_last_refill b # ts)"
  shows "real (admitted b ts) \<le> tb_burst b + (last (tb_last_refill b # ts) - tb_last_refill b) * tb_rate b \<and>
         bucket_ok (fold (\<lambda>t b. snd (allow b t)) ts b)"
proof
  show "real (admitted b ts) \<le> tb_burst b + (last (tb_last_refill b # ts) - tb_last_refill b) * tb_rate b"
    using admitted_budget [OF assms] assms(1) by (simp add: bucket_ok_def)
  show "bucket_ok (fold (\<lambda>t b. snd (allow b t)) ts b)"
    using assms
  proof (induction ts arbitrary: b)
    case (Cons t ts)
    then show ?case using allow_ok [of b t] by simp
  qed simp
qed

theorem bucket_rate_bound_witness:
  "real (admitted (new_bucket 2 None 0) [0, 0, 0, 1]) \<le> 2 + (1 - 0) * 2"
  using bucket_rate_bound [of "new_bucket 2 None 0" "[0, 0, 0, 1]"] bucket_ok_new [of 2 0]
  by (simp add: new_bucket_def)

subsection \<open>The per-client cache\<close>

definition clients_ok :: "clients \<Rightarrow> bool" where
  "clients_ok d \<longleftrightarrow> od_ok d \<and> length d \<le> REST_CLIENT_CACHE_MAX"

lemma od_pop_append:
  "od_pop (xs @ ys) k = (if k \<in> fst ` set xs then od_pop xs k @ ys else xs @ od_pop ys k)"
  by (induction xs k rule: od_pop.induct) auto

lemma od_set_append:
  "k \<notin> fst ` set xs \<Longrightarrow> od_set (xs @ ys) k v = xs @ od_set ys k v"
  by (induction xs k v rule: od_set.induct) auto

declare od_pop_absent [simp]

lemma od_get_append: "od_get (xs @ ys) k = (case od_get xs k of Some v \<Rightarrow> Some v | None \<Rightarrow> od_get ys k)"
  by (induction xs k rule: od_get.induct) auto

text \<open>One touch: the touched client ends last, whatever is evicted.\<close>

lemma touch_admit:
  assumes "clients_ok d" and "admit rate glob d cid now = (ok, g, d2)"
  obtains d0 b where "d2 = d0 @ [(cid, b)]" and "clients_ok d2"
    and "d0 = od_pop d cid \<or> REST_CLIENT_CACHE_MAX \<le> length (od_pop d cid) \<and> d0 = drop REST_CLIENT_EVICT_COUNT (od_pop d cid)"
    and "d2 \<noteq> []"
proof -
  let ?p = "od_pop d cid"
  have ok: "od_ok ?p" "cid \<notin> fst ` set ?p"
    using assms(1) od_ok_pop [of d cid] od_pop_keys [of d cid] by (auto simp: clients_ok_def)
  have len: "length ?p \<le> REST_CLIENT_CACHE_MAX"
    using assms(1) length_od_pop_le [of d cid] by (simp add: clients_ok_def)
  let ?b0 = "case od_get d cid of None \<Rightarrow> new_bucket rate None now | Some b \<Rightarrow> b"
  have pos: "(0::nat) < REST_CLIENT_EVICT_COUNT" "REST_CLIENT_EVICT_COUNT \<le> REST_CLIENT_CACHE_MAX"
    by (simp_all add: REST_CLIENT_EVICT_COUNT_def REST_CLIENT_CACHE_MAX_def)
  define d0 where "d0 = (if REST_CLIENT_CACHE_MAX < length ?p + 1 then drop REST_CLIENT_EVICT_COUNT ?p else ?p)"
  have e: "evict_if_full (?p @ [(cid, ?b0)]) = d0 @ [(cid, ?b0)]"
    using pos by (auto simp: evict_if_full_def d0_def)
  have sub: "set d0 \<subseteq> set ?p" using set_drop_subset [of REST_CLIENT_EVICT_COUNT ?p] by (auto simp: d0_def)
  have nin: "cid \<notin> fst ` set d0" using ok(2) sub by blast
  have "d2 = d0 @ [(cid, snd (allow ?b0 now))]"
    using assms(2) e nin
    by (auto simp: admit_def touch_def Let_def case_prod_beta od_set_append split: if_splits)
  moreover have "od_ok d0" using ok(1) by (auto simp: d0_def drop_map [symmetric] intro: distinct_drop)
  moreover have "length d0 + 1 \<le> REST_CLIENT_CACHE_MAX" using len pos by (auto simp: d0_def)
  ultimately have "clients_ok d2" using nin by (auto simp: clients_ok_def)
  moreover have "d0 = ?p \<or> REST_CLIENT_CACHE_MAX \<le> length ?p \<and> d0 = drop REST_CLIENT_EVICT_COUNT ?p"
    by (auto simp: d0_def)
  ultimately show ?thesis using that \<open>d2 = d0 @ [(cid, snd (allow ?b0 now))]\<close> by blast
qed

lemma touch_other:
  assumes ok: "clients_ok d" and d: "d = xs @ (c, b) # ys" and "c' \<noteq> c" and k: "length ys < REST_CLIENT_EVICT_COUNT"
    and a: "admit rate glob d c' now = (r, g, d2)"
  shows "clients_ok d2 \<and> (\<exists>xs' ys'. d2 = xs' @ (c, b) # ys' \<and> length ys' \<le> length ys + 1)"
proof -
  obtain d0 b' where d2: "d2 = d0 @ [(c', b')]" and ok2: "clients_ok d2"
    and d0: "d0 = od_pop d c' \<or> REST_CLIENT_CACHE_MAX \<le> length (od_pop d c') \<and> d0 = drop REST_CLIENT_EVICT_COUNT (od_pop d c')"
    by (rule touch_admit [OF ok a])
  obtain x1 y1 where p: "od_pop d c' = x1 @ (c, b) # y1" and l: "length y1 \<le> length ys"
    using d \<open>c' \<noteq> c\<close> length_od_pop_le [of ys c'] by (cases "c' \<in> fst ` set xs") (auto simp: od_pop_append)
  have "REST_CLIENT_CACHE_MAX = 2 * REST_CLIENT_EVICT_COUNT"
    by (simp add: REST_CLIENT_EVICT_COUNT_def REST_CLIENT_CACHE_MAX_def)
  with d0 p l k have "\<exists>x2. d0 = x2 @ (c, b) # y1"
  proof (elim disjE)
    assume "REST_CLIENT_CACHE_MAX \<le> length (od_pop d c') \<and> d0 = drop REST_CLIENT_EVICT_COUNT (od_pop d c')"
    moreover from this p l k \<open>REST_CLIENT_CACHE_MAX = 2 * REST_CLIENT_EVICT_COUNT\<close>
    have "REST_CLIENT_EVICT_COUNT \<le> length x1" by simp
    ultimately show ?thesis using p by auto
  qed auto
  with d2 l ok2 show ?thesis by fastforce
qed

text \<open>A run of acquire calls.\<close>

definition acquire_run :: "(string \<times> time) list \<Rightarrow> rate_limiter \<Rightarrow> rate_limiter" where
  "acquire_run = fold (\<lambda>(c, t) l. snd (allow_rest_acquire l c t))"

lemma acquire_step:
  obtains r g d where "admit (rl_acquire_rate l) (rl_acquire_bucket l) (rl_acquire_per_client l) c t = (r, g, d)"
    and "snd (allow_rest_acquire l c t) = l\<lparr>rl_acquire_bucket := g, rl_acquire_per_client := d\<rparr>"
    and "fst (allow_rest_acquire l c t) = r"
  by (cases "admit (rl_acquire_rate l) (rl_acquire_bucket l) (rl_acquire_per_client l) c t")
     (auto simp: allow_rest_acquire_def)

lemma others_keep:
  assumes "clients_ok (rl_acquire_per_client l)" and "rl_acquire_per_client l = xs @ (c, b) # ys"
    and "length ys + length es \<le> REST_CLIENT_EVICT_COUNT" and "c \<notin> fst ` set es"
  shows "clients_ok (rl_acquire_per_client (acquire_run es l)) \<and>
         (\<exists>xs' ys'. rl_acquire_per_client (acquire_run es l) = xs' @ (c, b) # ys')"
  using assms
proof (induction es arbitrary: l xs ys)
  case Nil
  then show ?case by (auto simp: acquire_run_def)
next
  case (Cons e es)
  obtain c' t where e: "e = (c', t)" by (cases e)
  obtain r g d where a: "admit (rl_acquire_rate l) (rl_acquire_bucket l) (rl_acquire_per_client l) c' t = (r, g, d)"
    and s: "snd (allow_rest_acquire l c' t) = l\<lparr>rl_acquire_bucket := g, rl_acquire_per_client := d\<rparr>"
    by (rule acquire_step)
  obtain xs' ys' where "clients_ok d" "d = xs' @ (c, b) # ys'" "length ys' \<le> length ys + 1"
    using touch_other [OF Cons.prems(1,2) _ _ a] Cons.prems(3,4) e by auto
  with Cons.IH [of "snd (allow_rest_acquire l c' t)" xs' ys'] Cons.prems(3,4) s e
  show ?case by (simp add: acquire_run_def)
qed

text \<open>The per-client cache is bounded and cannot be used to reset a limit: it never holds more
  than 1024 clients, and after a client's acquire call its bucket, drained or not, is still
  there unchanged after up to 512 further calls by any other clients.\<close>

theorem limiter_remembers:
  assumes "clients_ok (rl_acquire_per_client l)" and "allow_rest_acquire l c t = (ok, l1)"
    and "length es \<le> 512" and "c \<notin> fst ` set es"
  shows "\<exists>b. od_get (rl_acquire_per_client l1) c = Some b \<and>
             od_get (rl_acquire_per_client (acquire_run es l1)) c = Some b \<and>
             length (rl_acquire_per_client (acquire_run es l1)) \<le> 1024"
proof -
  obtain r g d where a: "admit (rl_acquire_rate l) (rl_acquire_bucket l) (rl_acquire_per_client l) c t = (r, g, d)"
    and s: "snd (allow_rest_acquire l c t) = l\<lparr>rl_acquire_bucket := g, rl_acquire_per_client := d\<rparr>"
    by (rule acquire_step)
  obtain d0 b where d: "d = d0 @ [(c, b)]" and ok1: "clients_ok d"
    by (rule touch_admit [OF assms(1) a])
  have l1: "rl_acquire_per_client l1 = d0 @ (c, b) # []" using s assms(2) d by simp
  have get: "od_get xs c = Some b" if "clients_ok xs" "xs = u @ (c, b) # v" for xs u v
    using that od_get_iff [of xs c b] by (auto simp: clients_ok_def)
  obtain u v where k: "clients_ok (rl_acquire_per_client (acquire_run es l1))"
    "rl_acquire_per_client (acquire_run es l1) = u @ (c, b) # v"
    using others_keep [OF _ l1, of es] ok1 l1 d assms(3,4)
    by (auto simp: REST_CLIENT_EVICT_COUNT_def REST_CLIENT_CACHE_MAX_def)
  show ?thesis
    using get [OF k] get [OF _ l1] k(1) ok1 l1 d by (auto simp: clients_ok_def REST_CLIENT_CACHE_MAX_def)
qed

theorem limiter_remembers_witness:
  "\<exists>b. od_get (rl_acquire_per_client (snd (allow_rest_acquire (new_rate_limiter 5 20 0) ''a'' 0))) ''a'' = Some b \<and>
     od_get (rl_acquire_per_client (acquire_run [(''b'', 0), (''c'', 1)]
       (snd (allow_rest_acquire (new_rate_limiter 5 20 0) ''a'' 0)))) ''a'' = Some b"
proof -
  have "clients_ok (rl_acquire_per_client (new_rate_limiter 5 20 0))"
    by (simp add: clients_ok_def new_rate_limiter_def Let_def)
  from limiter_remembers [OF this prod.collapse [symmetric], of "[(''b'', 0), (''c'', 1)]" "''a''" 0]
  show ?thesis by auto
qed

subsection \<open>The global bucket\<close>

definition budget :: "bucket \<Rightarrow> time \<Rightarrow> real" where
  "budget b now = tb_tokens b + (now - tb_last_refill b) * tb_rate b"

lemma admit_budget:
  assumes "bucket_ok glob" and "tb_last_refill glob \<le> now" and "admit rate glob d c now = (ok, g, d2)"
  shows "bucket_ok g \<and> tb_last_refill g \<le> now \<and> tb_rate g = tb_rate glob \<and> tb_burst g = tb_burst glob \<and>
         (if ok then 1 else 0) + budget g now \<le> budget glob now"
proof -
  obtain b d1 where "touch d c rate now = (b, d1)" by fastforce
  then have "(ok = fst (allow glob now) \<and> g = snd (allow glob now)) \<or> (\<not> ok \<and> g = glob)"
    using assms(3) by (auto simp: admit_def Let_def case_prod_beta split: if_splits)
  then show ?thesis
    using allow_ok [OF assms(1,2)] allow_budget [of glob now] assms(1,2)
    by (auto simp: budget_def)
qed

fun acquire_admitted :: "rate_limiter \<Rightarrow> (string \<times> time) list \<Rightarrow> nat" where
  "acquire_admitted l [] = 0"
| "acquire_admitted l ((c, t) # es) =
     (if fst (allow_rest_acquire l c t) then 1 else 0) + acquire_admitted (snd (allow_rest_acquire l c t)) es"

lemma acquire_budget:
  assumes "bucket_ok (rl_acquire_bucket l)" and "sorted (t0 # map snd es)"
    and "tb_last_refill (rl_acquire_bucket l) \<le> t0"
  shows "real (acquire_admitted l es)
           \<le> budget (rl_acquire_bucket l) t0 + (last (t0 # map snd es) - t0) * tb_rate (rl_acquire_bucket l)"
  using assms
proof (induction es arbitrary: l t0)
  case Nil
  then show ?case by (simp add: budget_def bucket_ok_def)
next
  case (Cons e es)
  obtain c t where e: "e = (c, t)" by (cases e)
  let ?b = "rl_acquire_bucket l"
  obtain r g d where a: "admit (rl_acquire_rate l) ?b (rl_acquire_per_client l) c t = (r, g, d)"
    and s: "snd (allow_rest_acquire l c t) = l\<lparr>rl_acquire_bucket := g, rl_acquire_per_client := d\<rparr>"
    "fst (allow_rest_acquire l c t) = r"
    by (rule acquire_step)
  have le: "t0 \<le> t" "sorted (t # map snd es)" using Cons.prems(2) e by auto
  have g: "bucket_ok g" "tb_last_refill g \<le> t" "tb_rate g = tb_rate ?b"
    "(if r then 1 else 0) + budget g t \<le> budget ?b t"
    using admit_budget [OF Cons.prems(1) _ a] Cons.prems(3) le(1) by auto
  have "real (acquire_admitted (snd (allow_rest_acquire l c t)) es)
      \<le> budget g t + (last (t # map snd es) - t) * tb_rate ?b"
    using Cons.IH [of "snd (allow_rest_acquire l c t)" t] g le s by simp
  moreover have "budget ?b t = budget ?b t0 + (t - t0) * tb_rate ?b"
    by (simp add: budget_def algebra_simps)
  ultimately show ?case using g(4) e s by (simp add: algebra_simps split: if_splits)
qed

text \<open>The REST acquire policy holds for the server as a whole: whatever mix of clients calls, in
  time order, a limiter built at time \<open>t0\<close> admits at most \<open>rate * (1 + elapsed)\<close> acquires,
  where the rate is the configured one, but never below one per second.\<close>

theorem limiter_global_bound:
  assumes "sorted (t0 # map snd es)"
  shows "real (acquire_admitted (new_rate_limiter ar sr t0) es)
           \<le> max 1 ar * (1 + (last (t0 # map snd es) - t0))"
proof -
  let ?l = "new_rate_limiter ar sr t0"
  have b: "rl_acquire_bucket ?l = new_bucket (max 1 ar) None t0"
    by (simp add: new_rate_limiter_def Let_def MIN_RATE_PER_SEC_def)
  have "bucket_ok (new_bucket (max 1 ar) None t0)" by (rule bucket_ok_new) simp
  from acquire_budget [of ?l t0 es] this b assms show ?thesis
    by (simp add: budget_def new_bucket_def Let_def algebra_simps)
qed

theorem limiter_global_bound_witness:
  "real (acquire_admitted (new_rate_limiter 5 20 0) [(''a'', 0), (''b'', 1)]) \<le> 10"
  using limiter_global_bound [of 0 "[(''a'', 0), (''b'', 1)]" 5 20] by simp

end
