(* ===== verification/Approvals.thy ===== *)
theory Approvals
  imports Prelude
begin

text \<open>
  Held commands waiting for a decision (\<open>server/bridge/hub/approvals.py\<close>):
  \<open>InMemoryApprovalStore\<close>. Every method body is one critical section of a lock, so it is one
  definition; records are copied at the boundary, as values are here. The store keeps requests by
  id in insertion order and stamps each with a fresh revision. \<open>expired_notifications\<close> queues the
  snapshots of requests that timed out until \<open>notify_expired\<close> hands them to the listeners.
\<close>

datatype approval_status = Pending | Resolving | Approved | Rejected | Refused | TimedOut

record approval_request =
  aq_id :: string
  aq_worker_id :: string
  aq_submitter_id :: string
  aq_command :: string
  aq_status :: approval_status
  aq_created_at :: time
  aq_expires_at :: time
  aq_group_id :: "string option"
  aq_is_fanout :: bool
  aq_origin_browser :: "nat option"
  aq_ownership_generation :: "nat option"
  aq_revision :: nat

record approval_store =
  as_requests :: "(string \<times> approval_request) list"
  as_next_revision :: nat
  as_expiration_listeners :: "nat list"
  as_expired_notifications :: "((string \<times> nat) \<times> approval_request) list"

definition new_approval_store :: approval_store where
  "new_approval_store = \<lparr>as_requests = [], as_next_revision = 0, as_expiration_listeners = [],
                         as_expired_notifications = []\<rparr>"

subsection \<open>Operations\<close>

definition subscribe_expired :: "approval_store \<Rightarrow> nat \<Rightarrow> approval_store" where
  "subscribe_expired s l = s\<lparr>as_expiration_listeners := as_expiration_listeners s @ [l]\<rparr>"

definition expire_locked :: "approval_store \<Rightarrow> string \<Rightarrow> approval_request \<Rightarrow> approval_store" where
  "expire_locked s rid req =
     (let req' = req\<lparr>aq_status := TimedOut\<rparr>
      in s\<lparr>as_requests := od_set (as_requests s) rid req',
           as_expired_notifications := od_set (as_expired_notifications s) (aq_id req', aq_revision req') req'\<rparr>)"

definition approval_add :: "approval_store \<Rightarrow> approval_request \<Rightarrow> bool \<times> approval_store" where
  "approval_add s req =
     (if od_get (as_requests s) (aq_id req) \<noteq> None then (False, s)
      else
        let rv = as_next_revision s + 1
        in (True, s\<lparr>as_next_revision := rv,
                    as_requests := od_set (as_requests s) (aq_id req) (req\<lparr>aq_revision := rv\<rparr>)\<rparr>))"

definition approval_get :: "approval_store \<Rightarrow> string \<Rightarrow> approval_request option" where
  "approval_get s rid = od_get (as_requests s) rid"

definition approval_pending :: "approval_store \<Rightarrow> approval_request list" where
  "approval_pending s = filter (\<lambda>r. aq_status r = Pending) (map snd (as_requests s))"

definition claim_request ::
  "approval_store \<Rightarrow> string \<Rightarrow> approval_status \<Rightarrow> nat \<Rightarrow> time \<Rightarrow> approval_request option \<times> approval_store" where
  "claim_request s rid status rv now =
     (case od_get (as_requests s) rid of
        None \<Rightarrow> (None, s)
      | Some req \<Rightarrow>
          if aq_status req \<noteq> Pending \<or> aq_revision req \<noteq> rv then (None, s)
          else if aq_expires_at req \<le> now then (None, expire_locked s rid req)
          else
            let req' = req\<lparr>aq_status := status\<rparr>
            in (Some req', s\<lparr>as_requests := od_set (as_requests s) rid req'\<rparr>))"

text \<open>\<open>claim\<close> and \<open>resolve\<close> have the same body and answer with a truth value only.\<close>

definition approval_claim ::
  "approval_store \<Rightarrow> string \<Rightarrow> approval_status \<Rightarrow> nat \<Rightarrow> time \<Rightarrow> bool \<times> approval_store" where
  "approval_claim s rid status rv now =
     (case od_get (as_requests s) rid of
        None \<Rightarrow> (False, s)
      | Some req \<Rightarrow>
          if aq_status req \<noteq> Pending \<or> aq_revision req \<noteq> rv then (False, s)
          else if aq_expires_at req \<le> now then (False, expire_locked s rid req)
          else (True, s\<lparr>as_requests := od_set (as_requests s) rid (req\<lparr>aq_status := status\<rparr>)\<rparr>))"

definition approval_resolve ::
  "approval_store \<Rightarrow> string \<Rightarrow> approval_status \<Rightarrow> nat \<Rightarrow> time \<Rightarrow> bool \<times> approval_store" where
  "approval_resolve s rid status rv now =
     (case od_get (as_requests s) rid of
        None \<Rightarrow> (False, s)
      | Some req \<Rightarrow>
          if aq_status req \<noteq> Pending \<or> aq_revision req \<noteq> rv then (False, s)
          else if aq_expires_at req \<le> now then (False, expire_locked s rid req)
          else (True, s\<lparr>as_requests := od_set (as_requests s) rid (req\<lparr>aq_status := status\<rparr>)\<rparr>))"

definition approval_finalize ::
  "approval_store \<Rightarrow> string \<Rightarrow> approval_status \<Rightarrow> nat \<Rightarrow> (string + bool) \<times> approval_store" where
  "approval_finalize s rid status rv =
     (if status \<notin> {Approved, Refused}
      then (Inl ''approval resolution must finalize as approved or refused'', s)
      else case od_get (as_requests s) rid of
             None \<Rightarrow> (Inr False, s)
           | Some req \<Rightarrow>
               if aq_status req \<noteq> Resolving \<or> aq_revision req \<noteq> rv then (Inr False, s)
               else (Inr True, s\<lparr>as_requests := od_set (as_requests s) rid (req\<lparr>aq_status := status\<rparr>)\<rparr>))"

definition PRUNE_TTL :: real where "PRUNE_TTL = 3600"

text \<open>One entry of the loop of \<open>cleanup_expired\<close>, which runs over a copy of the items.\<close>

definition cleanup_entry :: "time \<Rightarrow> string \<times> approval_request \<Rightarrow> approval_store \<Rightarrow> approval_store" where
  "cleanup_entry now e s =
     (case e of (rid, req) \<Rightarrow>
        if aq_status req = Pending \<and> aq_expires_at req < now then expire_locked s rid req
        else if aq_status req \<noteq> Pending \<and> aq_expires_at req + PRUNE_TTL < now
        then s\<lparr>as_requests := od_pop (as_requests s) rid\<rparr> else s)"

definition cleanup_pass :: "approval_store \<Rightarrow> time \<Rightarrow> approval_store" where
  "cleanup_pass s now = fold (cleanup_entry now) (as_requests s) s"

text \<open>What \<open>notify_expired\<close> delivers: every queued snapshot, once to every listener.\<close>

definition notify_expired :: "approval_store \<Rightarrow> (nat \<times> approval_request) list \<times> approval_store" where
  "notify_expired s =
     (concat (map (\<lambda>(k, r). map (\<lambda>l. (l, r)) (as_expiration_listeners s)) (as_expired_notifications s)),
      s\<lparr>as_expired_notifications := []\<rparr>)"

subsection \<open>Runs\<close>

datatype approval_event =
    ApAdd approval_request
  | ApClaimRequest string approval_status nat time
  | ApClaim string approval_status nat time
  | ApResolve string approval_status nat time
  | ApFinalize string approval_status nat
  | ApCleanup time
  | ApNotify
  | ApSubscribe nat

fun approval_apply :: "approval_event \<Rightarrow> approval_store \<Rightarrow> approval_store" where
  "approval_apply (ApAdd r) s = snd (approval_add s r)"
| "approval_apply (ApClaimRequest i st rv t) s = snd (claim_request s i st rv t)"
| "approval_apply (ApClaim i st rv t) s = snd (approval_claim s i st rv t)"
| "approval_apply (ApResolve i st rv t) s = snd (approval_resolve s i st rv t)"
| "approval_apply (ApFinalize i st rv) s = snd (approval_finalize s i st rv)"
| "approval_apply (ApCleanup t) s = cleanup_pass s t"
| "approval_apply ApNotify s = snd (notify_expired s)"
| "approval_apply (ApSubscribe l) s = subscribe_expired s l"

text \<open>No caller claims a request back into the pending state.\<close>

fun settles :: "approval_event \<Rightarrow> bool" where
  "settles (ApClaimRequest i st rv t) = (st \<noteq> Pending)"
| "settles (ApClaim i st rv t) = (st \<noteq> Pending)"
| "settles (ApResolve i st rv t) = (st \<noteq> Pending)"
| "settles _ = True"

text \<open>A revision that has been settled: it is not pending and never will be again.\<close>

definition settled_revision :: "string \<times> nat \<Rightarrow> approval_store \<Rightarrow> bool" where
  "settled_revision k s \<longleftrightarrow>
     (case k of (rid, rv) \<Rightarrow>
        rv \<le> as_next_revision s \<and>
        (\<forall>req. od_get (as_requests s) rid = Some req \<longrightarrow> aq_revision req = rv \<longrightarrow> aq_status req \<noteq> Pending))"

definition store_ok :: "approval_store \<Rightarrow> bool" where
  "store_ok s \<longleftrightarrow>
     od_ok (as_requests s) \<and> od_ok (as_expired_notifications s) \<and>
     (\<forall>rid req. od_get (as_requests s) rid = Some req \<longrightarrow>
        aq_id req = rid \<and> aq_revision req \<le> as_next_revision s) \<and>
     (\<forall>k req. od_get (as_expired_notifications s) k = Some req \<longrightarrow>
        k = (aq_id req, aq_revision req) \<and> aq_status req = TimedOut \<and> settled_revision k s)"

lemmas approval_defs = approval_add_def claim_request_def approval_claim_def approval_resolve_def
  approval_finalize_def expire_locked_def Let_def

lemma store_ok_new [simp]: "store_ok new_approval_store"
  by (simp add: store_ok_def new_approval_store_def)

text \<open>The transitions of one request, which all operations but \<open>add\<close> and the pruning are made of.\<close>

definition move_request :: "approval_store \<Rightarrow> string \<Rightarrow> approval_request \<Rightarrow> approval_status \<Rightarrow> approval_store" where
  "move_request s rid req st = s\<lparr>as_requests := od_set (as_requests s) rid (req\<lparr>aq_status := st\<rparr>)\<rparr>"

lemma settled_move:
  assumes "od_get (as_requests s) rid = Some req" "st \<noteq> Pending" "settled_revision k s"
  shows "settled_revision k (move_request s rid req st)"
  using assms by (auto simp: settled_revision_def move_request_def split: if_splits)

lemma settled_expire:
  assumes "od_get (as_requests s) rid = Some req" "settled_revision k s"
  shows "settled_revision k (expire_locked s rid req)"
  using assms by (auto simp: settled_revision_def expire_locked_def Let_def split: if_splits)

lemma store_ok_move:
  assumes "store_ok s" "od_get (as_requests s) rid = Some req" "st \<noteq> Pending"
  shows "store_ok (move_request s rid req st)"
  using assms settled_move [OF assms(2,3)]
  by (fastforce simp: store_ok_def move_request_def)

lemma store_ok_expire:
  assumes ok: "store_ok s" and g: "od_get (as_requests s) rid = Some req"
  shows "store_ok (expire_locked s rid req)"
proof -
  have "aq_id req = rid" "aq_revision req \<le> as_next_revision s" using assms by (auto simp: store_ok_def)
  then have "settled_revision (aq_id req, aq_revision req) (expire_locked s rid req)"
    by (auto simp: settled_revision_def expire_locked_def Let_def)
  then show ?thesis
    using assms settled_expire [OF g] by (auto simp: store_ok_def expire_locked_def Let_def)
qed

definition drop_request :: "approval_store \<Rightarrow> string \<Rightarrow> approval_store" where
  "drop_request s rid = s\<lparr>as_requests := od_pop (as_requests s) rid\<rparr>"

lemma settled_drop: "store_ok s \<Longrightarrow> settled_revision k s \<Longrightarrow> settled_revision k (drop_request s rid)"
  by (auto simp: settled_revision_def drop_request_def store_ok_def split: if_splits)

lemma store_ok_drop: "store_ok s \<Longrightarrow> store_ok (drop_request s rid)"
proof -
  assume ok: "store_ok s"
  note settled_drop [OF ok]
  with ok show ?thesis by (auto simp: store_ok_def drop_request_def)
qed

lemma settled_add: "settled_revision k s \<Longrightarrow> settled_revision k (snd (approval_add s r))"
  by (auto simp: settled_revision_def approval_add_def Let_def split: if_splits)

lemma store_ok_add: "store_ok s \<Longrightarrow> store_ok (snd (approval_add s r))"
proof -
  assume ok: "store_ok s"
  note settled_add [of _ s r]
  with ok show ?thesis
    by (auto simp: store_ok_def approval_add_def Let_def le_SucI split: if_splits)
qed

text \<open>Every event is made of the transitions above.\<close>

lemma claim_moves:
  "snd (claim_request s i st rv t) = s \<or>
   (\<exists>req. od_get (as_requests s) i = Some req \<and> aq_status req = Pending \<and>
      (snd (claim_request s i st rv t) = expire_locked s i req \<or>
       snd (claim_request s i st rv t) = move_request s i req st))"
  "approval_claim s i st rv t = (fst (claim_request s i st rv t) \<noteq> None, snd (claim_request s i st rv t))"
  "approval_resolve s i st rv t = (fst (claim_request s i st rv t) \<noteq> None, snd (claim_request s i st rv t))"
  by (auto simp: claim_request_def approval_claim_def approval_resolve_def move_request_def Let_def
      split: option.splits)

lemma finalize_moves:
  "snd (approval_finalize s i st rv) = s \<or>
   (\<exists>req. od_get (as_requests s) i = Some req \<and> st \<noteq> Pending \<and>
      snd (approval_finalize s i st rv) = move_request s i req st)"
  by (auto simp: approval_finalize_def move_request_def split: option.splits)

lemma cleanup_pass_keeps:
  assumes "store_ok s" and "P s"
    and exp: "\<And>s rid req. store_ok s \<Longrightarrow> P s \<Longrightarrow> od_get (as_requests s) rid = Some req \<Longrightarrow>
       aq_status req = Pending \<Longrightarrow> P (expire_locked s rid req)"
    and dr: "\<And>s rid. store_ok s \<Longrightarrow> P s \<Longrightarrow> P (drop_request s rid)"
  shows "store_ok (cleanup_pass s now) \<and> P (cleanup_pass s now)"
proof -
  have loop: "store_ok (fold (cleanup_entry now) es s) \<and> P (fold (cleanup_entry now) es s)"
    if "store_ok s" "P s" "od_ok es" "\<forall>(rid, req) \<in> set es. od_get (as_requests s) rid = Some req" for es s
    using that
  proof (induction es arbitrary: s)
    case (Cons e es)
    obtain rid req where e: "e = (rid, req)" by (cases e)
    have g: "od_get (as_requests s) rid = Some req" using Cons.prems(4) e by simp
    let ?s = "cleanup_entry now e s"
    have "?s = s \<or> aq_status req = Pending \<and> ?s = expire_locked s rid req \<or> ?s = drop_request s rid"
      by (simp add: e cleanup_entry_def drop_request_def)
    then have "store_ok ?s \<and> P ?s"
      using Cons.prems(1,2) exp [OF _ _ g] dr store_ok_expire [OF _ g] store_ok_drop by auto
    moreover have other: "od_get (as_requests ?s) r = od_get (as_requests s) r" if "r \<noteq> rid" for r
      using that Cons.prems(1) by (simp add: e cleanup_entry_def expire_locked_def Let_def store_ok_def)
    moreover have nin: "od_ok es" "rid \<notin> fst ` set es" using Cons.prems(3) e by auto
    have "od_get (as_requests ?s) r = Some q" if "(r, q) \<in> set es" for r q
    proof -
      have "r \<noteq> rid" using nin(2) that by force
      then show ?thesis using other [of r] Cons.prems(4) that by auto
    qed
    ultimately have "store_ok (fold (cleanup_entry now) es ?s) \<and> P (fold (cleanup_entry now) es ?s)"
      using nin(1) by (intro Cons.IH) blast+
    then show ?case by simp
  qed simp
  have d: "od_ok (as_requests s)" using assms(1) by (simp add: store_ok_def)
  then have "\<forall>(rid, req) \<in> set (as_requests s). od_get (as_requests s) rid = Some req"
    by (auto simp: od_get_iff)
  from loop [OF assms(1,2) d this] show ?thesis by (simp add: cleanup_pass_def)
qed

lemma approval_keeps:
  assumes ok: "store_ok s" and P: "P s" and e: "settles e"
    and mv: "\<And>rid req st. od_get (as_requests s) rid = Some req \<Longrightarrow> st \<noteq> Pending \<Longrightarrow> P (move_request s rid req st)"
    and exp: "\<And>s rid req. store_ok s \<Longrightarrow> P s \<Longrightarrow> od_get (as_requests s) rid = Some req \<Longrightarrow>
       aq_status req = Pending \<Longrightarrow> P (expire_locked s rid req)"
    and dr: "\<And>s rid. store_ok s \<Longrightarrow> P s \<Longrightarrow> P (drop_request s rid)"
    and ad: "\<And>r. P (snd (approval_add s r))"
    and nt: "P (s\<lparr>as_expired_notifications := []\<rparr>)"
    and sb: "\<And>l. P (subscribe_expired s l)"
  shows "store_ok (approval_apply e s) \<and> P (approval_apply e s)"
proof -
  have cl: "store_ok (snd (claim_request s i st rv t)) \<and> P (snd (claim_request s i st rv t))" if "st \<noteq> Pending" for i st rv t
    using claim_moves(1) [of s i st rv t] ok P mv [OF _ that] exp [OF ok P] store_ok_move [OF ok _ that] store_ok_expire [OF ok]
    by auto
  show ?thesis
  proof (cases e)
    case (ApFinalize i st rv)
    then show ?thesis using finalize_moves [of s i st rv] ok P mv store_ok_move [OF ok] by auto
  next
    case (ApCleanup t)
    then show ?thesis using cleanup_pass_keeps [of s P t] ok P exp dr by simp
  next
    case ApNotify
    have "store_ok (s\<lparr>as_expired_notifications := []\<rparr>)"
      using ok by (simp add: store_ok_def settled_revision_def)
    with ApNotify nt show ?thesis by (simp add: notify_expired_def)
  next
    case (ApSubscribe l)
    have "store_ok (subscribe_expired s l)"
      using ok by (simp add: store_ok_def settled_revision_def subscribe_expired_def)
    with ApSubscribe sb show ?thesis by simp
  qed (use cl e ad store_ok_add [OF ok] claim_moves(2,3) in auto)
qed

lemma settled_drained [simp]:
  "settled_revision k (s\<lparr>as_expired_notifications := q\<rparr>) = settled_revision k s"
  "settled_revision k (subscribe_expired s l) = settled_revision k s"
  by (simp_all add: settled_revision_def subscribe_expired_def)

lemma settled_apply:
  assumes "store_ok s" "settled_revision k s" "settles e"
  shows "store_ok (approval_apply e s) \<and> settled_revision k (approval_apply e s)"
  by (rule approval_keeps) (use assms in \<open>simp_all add: settled_move settled_expire settled_drop settled_add\<close>)

lemma claim_Some:
  assumes "claim_request s i st rv t = (Some r, s')"
  obtains req where "od_get (as_requests s) i = Some req" "aq_status req = Pending" "aq_revision req = rv"
    "t < aq_expires_at req" "r = req\<lparr>aq_status := st\<rparr>" "s' = move_request s i req st"
  using assms by (auto simp: claim_request_def move_request_def Let_def split: option.splits if_splits)

subsection \<open>Exactly once\<close>

text \<open>
  What a run tells the outside of each revision: a successful claim, or the delivery of its
  expiry. A revision is answered once it is settled and no delivery for it is queued.
\<close>

fun approval_outs :: "approval_event \<Rightarrow> approval_store \<Rightarrow> (string \<times> nat) list" where
  "approval_outs (ApClaimRequest i st rv t) s = (if fst (claim_request s i st rv t) = None then [] else [(i, rv)])"
| "approval_outs (ApClaim i st rv t) s = (if fst (approval_claim s i st rv t) then [(i, rv)] else [])"
| "approval_outs (ApResolve i st rv t) s = (if fst (approval_resolve s i st rv t) then [(i, rv)] else [])"
| "approval_outs ApNotify s = map fst (as_expired_notifications s)"
| "approval_outs _ s = []"

primrec run_outs :: "approval_store \<Rightarrow> approval_event list \<Rightarrow> (string \<times> nat) list" where
  "run_outs s [] = []"
| "run_outs s (e # es) = approval_outs e s @ run_outs (approval_apply e s) es"

definition answered :: "string \<times> nat \<Rightarrow> approval_store \<Rightarrow> bool" where
  "answered k s \<longleftrightarrow> settled_revision k s \<and> od_get (as_expired_notifications s) k = None"

lemma answered_expire:
  assumes "store_ok s" "od_get (as_requests s) rid = Some req" "aq_status req = Pending" "answered k s"
  shows "answered k (expire_locked s rid req)"
proof -
  have "k \<noteq> (aq_id req, aq_revision req)"
    using assms by (auto simp: answered_def settled_revision_def store_ok_def)
  then show ?thesis
    using assms settled_expire [OF assms(2)] by (auto simp: answered_def expire_locked_def Let_def)
qed

lemma answered_apply:
  assumes "store_ok s" "answered k s" "settles e"
  shows "store_ok (approval_apply e s) \<and> answered k (approval_apply e s)"
proof (rule approval_keeps)
  have add_q: "as_expired_notifications (snd (approval_add s r)) = as_expired_notifications s" for r
    by (simp add: approval_add_def Let_def)
  show "answered k (snd (approval_add s r))" for r
    using assms(2) by (simp add: answered_def settled_add add_q)
  show "answered k (move_request s rid req st)" if "od_get (as_requests s) rid = Some req" "st \<noteq> Pending" for rid req st
    using assms(2) settled_move [OF that] by (simp add: answered_def move_request_def)
  show "answered k (drop_request u rid)" if "store_ok u" "answered k u" for u rid
    using that settled_drop [OF that(1)] by (simp add: answered_def drop_request_def)
  show "answered k (subscribe_expired s l)" for l
    using assms(2) by (simp add: answered_def) (simp add: subscribe_expired_def)
qed (use assms in \<open>simp_all add: answered_expire, simp_all add: answered_def\<close>)

lemma outs_cases:
  assumes "settles e" "k \<in> set (approval_outs e s)"
  obtains i st rv t r s' where "k = (i, rv)" "st \<noteq> Pending" "claim_request s i st rv t = (Some r, s')"
      "approval_apply e s = s'"
  | "e = ApNotify" "k \<in> fst ` set (as_expired_notifications s)"
proof (cases e)
  case (ApClaimRequest i st rv t)
  with assms that(1) [of i rv st t _ "snd (claim_request s i st rv t)"] show ?thesis
    by (cases "claim_request s i st rv t") (auto split: if_splits)
next
  case (ApClaim i st rv t)
  with assms that(1) [of i rv st t _ "snd (claim_request s i st rv t)"] show ?thesis
    by (cases "claim_request s i st rv t") (auto simp: claim_moves(2) split: if_splits)
next
  case (ApResolve i st rv t)
  with assms that(1) [of i rv st t _ "snd (claim_request s i st rv t)"] show ?thesis
    by (cases "claim_request s i st rv t") (auto simp: claim_moves(3) split: if_splits)
qed (use assms that(2) in auto)

lemma outs_answered:
  assumes ok: "store_ok s" and e: "settles e" and k: "k \<in> set (approval_outs e s)"
  shows "\<not> answered k s" and "answered k (approval_apply e s)"
proof -
  have goal: "\<not> answered k s \<and> answered k (approval_apply e s)"
    using e k
  proof (cases rule: outs_cases)
    case (1 i st rv t r s')
    obtain req where g: "od_get (as_requests s) i = Some req" "aq_status req = Pending" "aq_revision req = rv"
      and s': "s' = move_request s i req st" by (rule claim_Some [OF 1(3)]) blast
    have n: "\<not> settled_revision (i, rv) s" using g by (auto simp: settled_revision_def)
    have le: "rv \<le> as_next_revision s" using ok g by (auto simp: store_ok_def)
    have q: "od_get (as_expired_notifications s) (i, rv) = None"
      using n ok by (cases "od_get (as_expired_notifications s) (i, rv)") (auto simp: store_ok_def)
    show ?thesis
      using n q g le 1(1,2,4) by (auto simp: s' answered_def settled_revision_def move_request_def)
  next
    case 2
    then obtain r where r: "od_get (as_expired_notifications s) k = Some r"
      using od_get_None [of "as_expired_notifications s" k] by (cases "od_get (as_expired_notifications s) k") auto
    then have "settled_revision k s" using ok unfolding store_ok_def by blast
    with r 2(1) show ?thesis by (simp add: answered_def notify_expired_def)
  qed
  then show "\<not> answered k s" and "answered k (approval_apply e s)" by auto
qed

lemma run_outs_fresh:
  "store_ok s \<Longrightarrow> list_all settles es \<Longrightarrow> distinct (run_outs s es) \<and> (\<forall>k \<in> set (run_outs s es). \<not> answered k s)"
proof (induction es arbitrary: s)
  case (Cons e es)
  have e: "settles e" "list_all settles es" using Cons.prems by auto
  let ?s = "approval_apply e s"
  have ok: "store_ok ?s" using approval_keeps [of s "\<lambda>_. True" e] Cons.prems e by simp
  note IH = Cons.IH [OF ok e(2)] and o = outs_answered [OF Cons.prems(1) e(1)]
  have d: "distinct (approval_outs e s)"
    using Cons.prems(1) by (cases e) (auto simp: store_ok_def)
  have "\<not> answered k s" if "k \<in> set (run_outs ?s es)" for k
    using IH that answered_apply [OF Cons.prems(1) _ e(1)] by blast
  then show ?case using IH o d by auto
qed simp

lemma claim_settles:
  assumes "store_ok s" "st \<noteq> Pending" "claim_request s i st rv t = (Some r, s')"
  shows "store_ok s' \<and> settled_revision (i, rv) s'"
proof -
  obtain req where "od_get (as_requests s) i = Some req" "aq_revision req = rv" "s' = move_request s i req st"
    by (rule claim_Some [OF assms(3)]) blast
  moreover have "rv \<le> as_next_revision s" using calculation assms(1) by (auto simp: store_ok_def)
  ultimately show ?thesis
    using assms(2) store_ok_move [OF assms(1) _ assms(2)] by (simp add: settled_revision_def move_request_def)
qed

interpretation claim: single_use "\<lambda>(st, t) (i, rv) s. claim_request s i st rv t" approval_apply
  settled_revision store_ok "\<lambda>(st, t). st \<noteq> Pending" "\<lambda>k e. settles e"
proof unfold_locales
  show "fst ((case a of (st, t) \<Rightarrow> \<lambda>(i, rv) s. claim_request s i st rv t) k s) = None"
    if "settled_revision k s" for a k s
    using that by (auto simp: claim_request_def settled_revision_def split: prod.splits option.splits)
qed (auto dest: claim_settles settled_apply)

subsection \<open>Properties\<close>

text \<open>A held command is injected at most once: once \<open>claim_request\<close> has handed out a revision,
  no later claim of it succeeds, whatever requests, decisions, clean-ups and notifications come
  between, so that of two concurrent approvals only one injects the command.\<close>

theorem approval_claimed_once:
  assumes "store_ok s" "st \<noteq> Pending" "claim_request s i st rv t = (Some r, s')" "list_all settles es"
  shows "fst (claim_request (fold approval_apply es s') i st' rv t') = None"
  using claim.taken_once [where a = "(st, t)" and k = "(i, rv)" and b = "(st', t')", OF assms(1)] assms by simp

definition demo_request :: "string \<Rightarrow> approval_request" where
  "demo_request i = \<lparr>aq_id = i, aq_worker_id = ''w'', aq_submitter_id = ''u'', aq_command = ''ls'',
     aq_status = Pending, aq_created_at = 2, aq_expires_at = 9, aq_group_id = None, aq_is_fanout = False,
     aq_origin_browser = None, aq_ownership_generation = None, aq_revision = 0\<rparr>"

definition demo_store :: approval_store where
  "demo_store = snd (approval_add (snd (approval_add new_approval_store (demo_request ''a''))) (demo_request ''b''))"

lemmas demo_eval = demo_store_def new_approval_store_def demo_request_def approval_defs

lemma demo_store_ok [simp]: "store_ok demo_store"
  by (simp add: demo_store_def store_ok_add)

lemma demo_claim:
  "claim_request demo_store ''b'' Resolving 2 5 =
     (Some (demo_request ''b''\<lparr>aq_status := Resolving, aq_revision := 2\<rparr>),
      demo_store\<lparr>as_requests := [(''a'', demo_request ''a''\<lparr>aq_revision := 1\<rparr>),
                                (''b'', demo_request ''b''\<lparr>aq_status := Resolving, aq_revision := 2\<rparr>)]\<rparr>)"
  by (simp add: demo_eval)

theorem approval_claimed_once_witness:
  "fst (claim_request (fold approval_apply [ApFinalize ''b'' Approved 2, ApCleanup 4000, ApAdd (demo_request ''b'')]
     (snd (claim_request demo_store ''b'' Resolving 2 5))) ''b'' Rejected 2 6) = None"
  using approval_claimed_once [OF demo_store_ok _ demo_claim,
      of "[ApFinalize ''b'' Approved 2, ApCleanup 4000, ApAdd (demo_request ''b'')]" Rejected 6]
  by (simp add: demo_claim)

text \<open>C37: Every revision of a held command is answered at most once: over any run of the store from
  its empty state, the successful claims (through any of the three claiming operations) and the
  expiries delivered to the listeners are pairwise about different revisions, so that no command is
  both injected and reported as timed out, and none is injected or reported twice.\<close>

theorem approval_answered_once:
  assumes "list_all settles es"
  shows "distinct (run_outs new_approval_store es)"
  using run_outs_fresh [OF store_ok_new assms] by simp

theorem approval_answered_once_witness:
  "let es = [ApAdd (demo_request ''a''), ApAdd (demo_request ''b''), ApClaim ''a'' Approved 1 5,
             ApCleanup 20, ApResolve ''b'' Approved 2 30, ApNotify, ApCleanup 40, ApNotify]
   in run_outs new_approval_store es = [(''a'', 1), (''b'', 2)] \<and> distinct (run_outs new_approval_store es)"
proof -
  let ?es = "[ApAdd (demo_request ''a''), ApAdd (demo_request ''b''), ApClaim ''a'' Approved 1 5,
             ApCleanup 20, ApResolve ''b'' Approved 2 30, ApNotify, ApCleanup 40, ApNotify]"
  have "distinct (run_outs new_approval_store ?es)" by (rule approval_answered_once) simp
  moreover have "run_outs new_approval_store ?es = [(''a'', 1), (''b'', 2)]"
    by (simp add: demo_eval cleanup_pass_def cleanup_entry_def notify_expired_def PRUNE_TTL_def numeral_2_eq_2)
  ultimately show ?thesis by (simp only: Let_def simp_thms)
qed

fun touches :: "string \<Rightarrow> approval_event \<Rightarrow> bool" where
  "touches i (ApClaimRequest j st rv t) = (j = i)"
| "touches i (ApClaim j st rv t) = (j = i)"
| "touches i (ApResolve j st rv t) = (j = i)"
| "touches i (ApFinalize j st rv) = (j = i)"
| "touches i (ApCleanup t) = True"
| "touches i _ = False"

lemma untouched:
  assumes "\<not> touches i e" "od_get (as_requests s) i = Some req"
  shows "od_get (as_requests (approval_apply e s)) i = Some req"
proof (cases e)
  case (ApFinalize j st rv)
  then show ?thesis using assms finalize_moves [of s j st rv] by (auto simp: move_request_def)
qed (use assms claim_moves(1) [of s] in
      \<open>auto simp: approval_add_def Let_def notify_expired_def subscribe_expired_def claim_request_def
         approval_claim_def approval_resolve_def expire_locked_def split: option.splits\<close>)

text \<open>What a claim hands out is what was submitted: when a request was accepted into a store and
  only decisions about other requests, additions and subscriptions came after, claiming it at the
  stamped revision before its deadline returns the request unchanged but for the status and the
  stamp, and after its deadline returns nothing and queues its expiry.\<close>

theorem approval_claim_returns:
  assumes "approval_add s req = (True, s')" "aq_status req = Pending" "list_all (\<lambda>e. \<not> touches (aq_id req) e) es"
  defines "rv \<equiv> as_next_revision s + 1"
  defines "u \<equiv> fold approval_apply es s'"
  shows "claim_request u (aq_id req) st rv t =
    (if t < aq_expires_at req
     then (Some (req\<lparr>aq_revision := rv, aq_status := st\<rparr>),
           u\<lparr>as_requests := od_set (as_requests u) (aq_id req) (req\<lparr>aq_revision := rv, aq_status := st\<rparr>)\<rparr>)
     else (None, expire_locked u (aq_id req) (req\<lparr>aq_revision := rv\<rparr>)))"
proof -
  have keep: "od_get (as_requests (fold approval_apply es w)) i = Some q"
    if "od_get (as_requests w) i = Some q" "list_all (\<lambda>e. \<not> touches i e) es" for w i q
    using that by (induction es arbitrary: w) (simp_all add: untouched)
  have "od_get (as_requests s') (aq_id req) = Some (req\<lparr>aq_revision := rv\<rparr>)"
    using assms(1) by (auto simp: approval_add_def Let_def rv_def split: if_splits)
  from keep [OF this assms(3)] show ?thesis
    using assms(2) by (simp add: u_def claim_request_def Let_def)
qed

theorem approval_claim_returns_witness:
  "fst (claim_request (fold approval_apply [ApAdd (demo_request ''c''), ApResolve ''c'' Rejected 2 4]
      (snd (approval_add new_approval_store (demo_request ''a'')))) ''a'' Resolving 1 5)
   = Some (demo_request ''a''\<lparr>aq_revision := 1, aq_status := Resolving\<rparr>)"
proof -
  have "approval_add new_approval_store (demo_request ''a'') =
      (True, snd (approval_add new_approval_store (demo_request ''a'')))"
    by (simp add: demo_eval)
  from approval_claim_returns [OF this, of "[ApAdd (demo_request ''c''), ApResolve ''c'' Rejected 2 4]" Resolving 5]
  show ?thesis by (simp add: demo_request_def new_approval_store_def)
qed

end
