(* ===== verification/Resume.thy ===== *)
theory Resume
  imports Prelude
begin

text \<open>
  Session resumption tokens (\<open>server/bridge/hub/resume.py\<close>): \<open>InMemoryResumeStore\<close>. The token
  is drawn from \<open>secrets.token_urlsafe\<close>, so every creation takes it as an argument. Expired
  entries are dropped when they are looked up, taken, or when a later creation prunes the store.
\<close>

record resume_session =
  rs_token :: string
  rs_worker_id :: string
  rs_role :: string
  rs_created_at :: time
  rs_expires_at :: time
  rs_was_hijack_owner :: bool
  rs_wall_created_at :: time

type_synonym resume_store = "(string \<times> resume_session) list"

definition resume_cleanup :: "time \<Rightarrow> resume_store \<Rightarrow> nat \<times> resume_store" where
  "resume_cleanup now d =
     (let expired = map fst (filter (\<lambda>(t, s). rs_expires_at s < now) d)
      in (length expired, fold (\<lambda>t d. od_pop d t) expired d))"

definition resume_create :: "string \<Rightarrow> string \<Rightarrow> string \<Rightarrow> real \<Rightarrow> time \<Rightarrow> time \<Rightarrow> time \<Rightarrow> resume_store \<Rightarrow> resume_store" where
  "resume_create token worker_id role ttl pruned now wall d =
     od_set (snd (resume_cleanup pruned d)) token
       \<lparr>rs_token = token, rs_worker_id = worker_id, rs_role = role, rs_created_at = now,
        rs_expires_at = now + ttl, rs_was_hijack_owner = False, rs_wall_created_at = wall\<rparr>"

definition resume_get :: "time \<Rightarrow> string \<Rightarrow> resume_store \<Rightarrow> resume_session option \<times> resume_store" where
  "resume_get now token d =
     (case od_get d token of
        None \<Rightarrow> (None, d)
      | Some session \<Rightarrow>
          if rs_expires_at session < now then (None, od_pop d token) else (Some session, d))"

definition resume_consume :: "time \<Rightarrow> string \<Rightarrow> resume_store \<Rightarrow> resume_session option \<times> resume_store" where
  "resume_consume now token d =
     (case od_get d token of
        None \<Rightarrow> (None, d)
      | Some session \<Rightarrow>
          if rs_expires_at session < now then (None, od_pop d token) else (Some session, od_pop d token))"

definition mark_hijack_owner :: "string \<Rightarrow> bool \<Rightarrow> resume_store \<Rightarrow> resume_store" where
  "mark_hijack_owner token is_owner d =
     (case od_get d token of
        None \<Rightarrow> d
      | Some session \<Rightarrow> od_set d token (session\<lparr>rs_was_hijack_owner := is_owner\<rparr>))"

definition resume_revoke :: "string \<Rightarrow> resume_store \<Rightarrow> resume_store" where
  "resume_revoke token d = od_pop d token"

definition active_tokens :: "time \<Rightarrow> resume_store \<Rightarrow> resume_store" where
  "active_tokens now d = filter (\<lambda>(t, s). now \<le> rs_expires_at s) d"

subsection \<open>Runs\<close>

datatype resume_event =
    RsCreate string string string real time time time
  | RsGet time string
  | RsConsume time string
  | RsMark string bool
  | RsRevoke string
  | RsCleanup time

fun resume_apply :: "resume_event \<Rightarrow> resume_store \<Rightarrow> resume_store" where
  "resume_apply (RsCreate tk w r ttl pruned now wall) d = resume_create tk w r ttl pruned now wall d"
| "resume_apply (RsGet now tk) d = snd (resume_get now tk d)"
| "resume_apply (RsConsume now tk) d = snd (resume_consume now tk d)"
| "resume_apply (RsMark tk b) d = mark_hijack_owner tk b d"
| "resume_apply (RsRevoke tk) d = resume_revoke tk d"
| "resume_apply (RsCleanup now) d = snd (resume_cleanup now d)"

fun recreates :: "string \<Rightarrow> resume_event \<Rightarrow> bool" where
  "recreates tk (RsCreate tk' w r ttl pruned now wall) = (tk' = tk)"
| "recreates tk _ = False"

subsection \<open>Pruning\<close>

lemma cleanup_ok: "od_ok d \<Longrightarrow> od_ok (snd (resume_cleanup now d))"
  by (simp add: resume_cleanup_def Let_def od_pops)

lemma cleanup_get:
  assumes "od_ok d"
  shows "od_get (snd (resume_cleanup now d)) k =
    (case od_get d k of None \<Rightarrow> None | Some s \<Rightarrow> if rs_expires_at s < now then None else Some s)"
  using od_filter_pops [OF assms, of "\<lambda>(t, s). rs_expires_at s < now" k]
  by (simp add: resume_cleanup_def Let_def split: option.splits)

lemmas resume_defs = resume_create_def resume_get_def resume_consume_def mark_hijack_owner_def resume_revoke_def

lemma resume_apply_ok: "od_ok d \<Longrightarrow> od_ok (resume_apply e d)"
  by (cases e) (auto simp: resume_defs cleanup_ok od_ok_set od_ok_pop split: option.splits)

lemma resume_run_ok: "od_ok d \<Longrightarrow> od_ok (fold resume_apply es d)"
  by (induction es arbitrary: d) (simp_all add: resume_apply_ok)

lemma absent_stays:
  "od_ok d \<Longrightarrow> od_get d tk = None \<Longrightarrow> \<not> recreates tk e \<Longrightarrow> od_get (resume_apply e d) tk = None"
  by (cases e) (auto simp: resume_defs cleanup_get cleanup_ok od_ok_pop split: option.splits)

interpretation resume: single_use resume_consume resume_apply
  "\<lambda>tk d. od_get d tk = None" od_ok "\<lambda>_. True" "\<lambda>tk e. \<not> recreates tk e"
  by unfold_locales
     (auto simp: resume_apply_ok absent_stays, auto simp: resume_consume_def od_ok_pop split: option.splits if_splits)

subsection \<open>Properties\<close>

text \<open>A resume token works once: after \<open>consume\<close> has returned a session, no lookup and no
  second consume of the same token succeeds, whatever other tokens are created, marked, looked up,
  revoked or pruned in between, as long as the same token is not created again.\<close>

theorem resume_token_single_use:
  assumes "od_ok d" "resume_consume t tk d = (Some session, d')" "list_all (\<lambda>e. \<not> recreates tk e) es"
  shows "fst (resume_consume u tk (fold resume_apply es d')) = None \<and>
         fst (resume_get u tk (fold resume_apply es d')) = None"
proof -
  have "od_get (fold resume_apply es d') tk = None"
    using resume.take_spends [OF assms(1) TrueI assms(2)] resume.spent_run [OF _ _ assms(3)] by blast
  then show ?thesis by (simp add: resume_get_def resume_consume_def)
qed

definition demo_tokens :: resume_store where
  "demo_tokens = resume_create ''b'' ''w'' ''viewer'' 60 5 5 5 (resume_create ''a'' ''w'' ''admin'' 60 3 3 3 [])"

lemmas demo_eval = demo_tokens_def resume_defs resume_cleanup_def Let_def

lemma demo_tokens_ok [simp]: "od_ok demo_tokens"
  by (simp add: demo_eval)

theorem resume_token_single_use_witness:
  "fst (resume_consume 9 ''a'' (fold resume_apply [RsMark ''a'' True, RsGet 8 ''b''] (snd (resume_consume 7 ''a'' demo_tokens)))) = None
   \<and> fst (resume_consume 7 ''a'' demo_tokens) \<noteq> None"
proof -
  have c: "resume_consume 7 ''a'' demo_tokens =
      (od_get demo_tokens ''a'', od_pop demo_tokens ''a'')" and s: "od_get demo_tokens ''a'' \<noteq> None"
    by (simp_all add: demo_eval)
  then obtain se where se: "resume_consume 7 ''a'' demo_tokens = (Some se, od_pop demo_tokens ''a'')" by auto
  show ?thesis
    using resume_token_single_use [OF demo_tokens_ok se, of "[RsMark ''a'' True, RsGet 8 ''b'']" 9] s
    by (simp add: c)
qed

text \<open>What an event may not do to a token before its deadline for the session to be kept.\<close>

fun leaves :: "string \<Rightarrow> time \<Rightarrow> resume_event \<Rightarrow> bool" where
  "leaves tk dl (RsCreate tk' w r ttl pruned now wall) = (tk' \<noteq> tk \<and> pruned \<le> dl)"
| "leaves tk dl (RsGet now tk') = (tk' = tk \<longrightarrow> now \<le> dl)"
| "leaves tk dl (RsConsume now tk') = (tk' \<noteq> tk)"
| "leaves tk dl (RsMark tk' b) = True"
| "leaves tk dl (RsRevoke tk') = (tk' \<noteq> tk)"
| "leaves tk dl (RsCleanup now) = (now \<le> dl)"

fun last_mark :: "string \<Rightarrow> bool \<Rightarrow> resume_event list \<Rightarrow> bool" where
  "last_mark tk b [] = b"
| "last_mark tk b (RsMark tk' b' # es) = last_mark tk (if tk' = tk then b' else b) es"
| "last_mark tk b (_ # es) = last_mark tk b es"

lemma leaves_step:
  assumes "od_ok d" "od_get d tk = Some s" "leaves tk (rs_expires_at s) e"
  shows "od_get (resume_apply e d) tk = Some (s\<lparr>rs_was_hijack_owner := last_mark tk (rs_was_hijack_owner s) [e]\<rparr>)"
  using assms by (cases e) (auto simp: resume_defs cleanup_get split: option.splits)

lemma last_mark_Cons: "last_mark tk b (e # es) = last_mark tk (last_mark tk b [e]) es"
  by (cases e) simp_all

lemma leaves_run:
  "od_ok d \<Longrightarrow> od_get d tk = Some s \<Longrightarrow> list_all (leaves tk (rs_expires_at s)) es \<Longrightarrow>
   od_get (fold resume_apply es d) tk = Some (s\<lparr>rs_was_hijack_owner := last_mark tk (rs_was_hijack_owner s) es\<rparr>)"
proof (induction es arbitrary: d s)
  case (Cons e es)
  let ?s = "s\<lparr>rs_was_hijack_owner := last_mark tk (rs_was_hijack_owner s) [e]\<rparr>"
  have "od_get (resume_apply e d) tk = Some ?s"
    using leaves_step Cons.prems by simp
  from Cons.IH [OF resume_apply_ok [OF Cons.prems(1)] this] Cons.prems(3)
  show ?case by (simp add: last_mark_Cons [of _ _ e es])
qed simp

text \<open>Resumption restores the session that was dropped, until the time to live is over: a token
  that was created and neither consumed, revoked nor created again since gives, when it is consumed
  by its deadline, the worker and role it was created for and the last recorded hijack ownership;
  consumed after the deadline it gives nothing.\<close>

theorem resume_restores_session:
  assumes "od_ok d" "list_all (leaves tk (now + ttl)) es"
  shows "fst (resume_consume t tk (fold resume_apply es (resume_create tk w r ttl pruned now wall d))) =
    (if t \<le> now + ttl
     then Some \<lparr>rs_token = tk, rs_worker_id = w, rs_role = r, rs_created_at = now, rs_expires_at = now + ttl,
                rs_was_hijack_owner = last_mark tk False es, rs_wall_created_at = wall\<rparr>
     else None)"
proof -
  let ?s = "\<lparr>rs_token = tk, rs_worker_id = w, rs_role = r, rs_created_at = now, rs_expires_at = now + ttl,
      rs_was_hijack_owner = False, rs_wall_created_at = wall\<rparr>"
  have "od_ok (resume_create tk w r ttl pruned now wall d)"
    and "od_get (resume_create tk w r ttl pruned now wall d) tk = Some ?s"
    using assms(1) by (auto simp: resume_create_def cleanup_ok od_ok_set)
  from leaves_run [OF this] assms(2)
  show ?thesis by (simp add: resume_consume_def)
qed

theorem resume_restores_session_witness:
  "fst (resume_consume 60 ''a'' (fold resume_apply
      [RsMark ''a'' True, RsCreate ''b'' ''w'' ''viewer'' 60 40 40 40, RsRevoke ''b'', RsGet 50 ''a'']
      (resume_create ''a'' ''w'' ''admin'' 60 3 3 3 []))) =
   Some \<lparr>rs_token = ''a'', rs_worker_id = ''w'', rs_role = ''admin'', rs_created_at = 3, rs_expires_at = 63,
         rs_was_hijack_owner = True, rs_wall_created_at = 3\<rparr>"
  by (subst resume_restores_session) simp_all

end
