(* ===== verification/CommandSplitter.thy ===== *)
theory CommandSplitter
  imports Utf8
begin

text \<open>
  \<open>CommandSplitter.split\<close> (\<open>server/bridge/hub/semantics.py\<close>): a shell command line is cut at the
  operators that stand outside quotes, and every part is stripped of surrounding white space. The
  policy engine judges the parts one by one, so a part must not hide a further command. The loop
  over the index \<open>i\<close> is \<open>split_loop\<close>; \<open>segments\<close> is the reference it is compared with.
\<close>

subsection \<open>The code\<close>

record quote_state =
  qs_single :: bool
  qs_double :: bool
  qs_escaped :: bool

definition BACKSLASH :: cp where "BACKSLASH = 92"
definition SQUOTE :: cp where "SQUOTE = 39"
definition DQUOTE :: cp where "DQUOTE = 34"
definition AMP :: cp where "AMP = 38"
definition BAR :: cp where "BAR = 124"
definition SEMI :: cp where "SEMI = 59"

lemmas char_defs = BACKSLASH_def SQUOTE_def DQUOTE_def AMP_def BAR_def SEMI_def

text \<open>The length of the operator at the head of a text, 0 when there is none.\<close>

fun operator_len :: "pystr \<Rightarrow> nat" where
  "operator_len [] = 0"
| "operator_len (c # cs) =
     (if c = AMP \<and> cs \<noteq> [] \<and> hd cs = AMP then 2
      else if c = BAR \<and> cs \<noteq> [] \<and> hd cs = BAR then 2
      else if c = SEMI then 1
      else if c = BAR then 1
      else 0)"

definition add_part :: "pystr list \<Rightarrow> pystr \<Rightarrow> pystr list" where
  "add_part parts p = (if py_strip p \<noteq> [] then parts @ [py_strip p] else parts)"

function split_loop :: "pystr \<Rightarrow> nat \<Rightarrow> nat \<Rightarrow> quote_state \<Rightarrow> pystr list \<Rightarrow> pystr list" where
  "split_loop command i start q parts =
     (if i < length command then
        let char = command ! i in
        if qs_escaped q then split_loop command (i + 1) start (q\<lparr>qs_escaped := False\<rparr>) parts
        else if char = BACKSLASH \<and> \<not> qs_single q
        then split_loop command (i + 1) start (q\<lparr>qs_escaped := True\<rparr>) parts
        else if char = SQUOTE \<and> \<not> qs_double q
        then split_loop command (i + 1) start (q\<lparr>qs_single := \<not> qs_single q\<rparr>) parts
        else if char = DQUOTE \<and> \<not> qs_single q
        then split_loop command (i + 1) start (q\<lparr>qs_double := \<not> qs_double q\<rparr>) parts
        else if \<not> qs_single q \<and> \<not> qs_double q \<and> operator_len (drop i command) \<noteq> 0
        then let op_len = operator_len (drop i command) in
             split_loop command (i + op_len) (i + op_len) q
               (add_part parts (List.take (i - start) (drop start command)))
        else split_loop command (i + 1) start q parts
      else add_part parts (drop start command))"
  by pat_completeness auto
termination by (relation "measure (\<lambda>(command, i, start, q, parts). length command - i)") auto

declare split_loop.simps [simp del]

definition neutral :: quote_state where
  "neutral = \<lparr>qs_single = False, qs_double = False, qs_escaped = False\<rparr>"

definition split :: "pystr \<Rightarrow> pystr list" where
  "split command = (if command = [] then [] else split_loop command 0 0 neutral [])"

subsection \<open>Reference: segments of a text\<close>

text \<open>How one character moves the quoting state, and whether it may start an operator.\<close>

definition quote_step :: "quote_state \<Rightarrow> cp \<Rightarrow> quote_state" where
  "quote_step q c =
     (if qs_escaped q then q\<lparr>qs_escaped := False\<rparr>
      else if c = BACKSLASH \<and> \<not> qs_single q then q\<lparr>qs_escaped := True\<rparr>
      else if c = SQUOTE \<and> \<not> qs_double q then q\<lparr>qs_single := \<not> qs_single q\<rparr>
      else if c = DQUOTE \<and> \<not> qs_single q then q\<lparr>qs_double := \<not> qs_double q\<rparr>
      else q)"

definition cuts :: "quote_state \<Rightarrow> pystr \<Rightarrow> bool" where
  "cuts q s \<longleftrightarrow> q = neutral \<and> operator_len s \<noteq> 0"

lemma operator_len_bounds: "operator_len s \<noteq> 0 \<Longrightarrow> 0 < operator_len s \<and> operator_len s \<le> length s"
  by (cases s rule: operator_len.cases) (auto simp: Suc_le_eq)

text \<open>A text is cut at each operator in the neutral state; what is between is kept with its operator.\<close>

function segments :: "quote_state \<Rightarrow> pystr \<Rightarrow> pystr \<Rightarrow> pystr list \<times> pystr list" where
  "segments q cur [] = ([cur], [])"
| "segments q cur (c # cs) =
     (if cuts q (c # cs)
      then let n = operator_len (c # cs); (ss, ops) = segments neutral [] (drop n (c # cs))
           in (cur # ss, List.take n (c # cs) # ops)
      else segments (quote_step q c) (cur @ [c]) cs)"
  by pat_completeness auto
termination
  by (relation "measure (\<lambda>(q, cur, s). length s)") (use operator_len_bounds in \<open>auto simp: cuts_def simp del: operator_len.simps\<close>)

declare segments.simps(2) [simp del]

fun interleave :: "pystr list \<Rightarrow> pystr list \<Rightarrow> pystr" where
  "interleave (s # ss) (p # ps) = s @ p @ interleave ss ps"
| "interleave ss [] = concat ss"
| "interleave [] ps = concat ps"

text \<open>No operator stands in the neutral state.\<close>

fun uncut :: "quote_state \<Rightarrow> pystr \<Rightarrow> bool" where
  "uncut q [] = True"
| "uncut q (c # cs) = (\<not> cuts q (c # cs) \<and> uncut (quote_step q c) cs)"

subsection \<open>The loop computes the segments\<close>

lemma take_snoc:
  "start \<le> i \<Longrightarrow> i < length s \<Longrightarrow>
   List.take (i - start) (drop start s) @ [s ! i] = List.take (i + 1 - start) (drop start s)"
  by (simp add: Suc_diff_le take_Suc_conv_app_nth)

lemma neutral_iff: "q = neutral \<longleftrightarrow> \<not> qs_escaped q \<and> \<not> qs_single q \<and> \<not> qs_double q"
  by (cases q) (auto simp: neutral_def)

lemma quote_no_operator:
  "operator_len (c # cs) \<noteq> 0 \<Longrightarrow> c \<noteq> BACKSLASH \<and> c \<noteq> SQUOTE \<and> c \<noteq> DQUOTE"
  by (auto simp: char_defs split: if_splits)

lemma split_loop_step:
  assumes "i < length command"
  shows "split_loop command i start q parts =
    (if cuts q (drop i command)
     then let n = operator_len (drop i command) in
          split_loop command (i + n) (i + n) q (add_part parts (List.take (i - start) (drop start command)))
     else split_loop command (i + 1) start (quote_step q (command ! i)) parts)"
proof -
  have d: "drop i command = command ! i # drop (Suc i) command" using assms by (simp add: Cons_nth_drop_Suc)
  show ?thesis
    using assms quote_no_operator [of "command ! i" "drop (Suc i) command", folded d]
    by (subst split_loop.simps) (auto simp: cuts_def neutral_iff quote_step_def Let_def)
qed

lemma segments_cut:
  "cuts q s \<Longrightarrow> segments q cur s =
     (cur # fst (segments neutral [] (drop (operator_len s) s)),
      List.take (operator_len s) s # snd (segments neutral [] (drop (operator_len s) s)))"
  by (cases s) (simp add: cuts_def, simp add: segments.simps(2) Let_def case_prod_beta del: operator_len.simps)

lemma segments_uncut:
  "\<not> cuts q (c # cs) \<Longrightarrow> segments q cur (c # cs) = segments (quote_step q c) (cur @ [c]) cs"
  by (simp add: segments.simps(2))

definition parts_of :: "pystr list \<Rightarrow> pystr list" where
  "parts_of ss = filter (\<lambda>p. p \<noteq> []) (map py_strip ss)"

lemma split_loop_segments:
  "start \<le> i \<Longrightarrow> i \<le> length command \<Longrightarrow>
   split_loop command i start q parts =
     parts @ parts_of (fst (segments q (List.take (i - start) (drop start command)) (drop i command)))"
proof (induction "length command - i" arbitrary: i start q parts rule: less_induct)
  case less
  show ?case
  proof (cases "i < length command")
    case False
    then show ?thesis using less.prems by (simp add: split_loop.simps add_part_def parts_of_def)
  next
    case True
    then have d: "drop i command = command ! i # drop (i + 1) command" by (simp add: Cons_nth_drop_Suc)
    show ?thesis
    proof (cases "cuts q (drop i command)")
      case c: True
      let ?n = "operator_len (drop i command)"
      have n: "0 < ?n" "i + ?n \<le> length command"
        using c operator_len_bounds [of "drop i command"] less.prems by (auto simp: cuts_def)
      have q: "q = neutral" using c by (simp add: cuts_def)
      have "split_loop command i start q parts =
          split_loop command (i + ?n) (i + ?n) q (add_part parts (List.take (i - start) (drop start command)))"
        using split_loop_step [OF True] c by (simp add: Let_def)
      also have "\<dots> = add_part parts (List.take (i - start) (drop start command)) @
          parts_of (fst (segments neutral [] (drop (i + ?n) command)))"
        using less.hyps [of "i + ?n" "i + ?n"] n True by (simp add: q)
      also have "\<dots> = parts @ parts_of (fst (segments q (List.take (i - start) (drop start command)) (drop i command)))"
        using c by (simp add: segments_cut add_part_def parts_of_def add.commute)
      finally show ?thesis .
    next
      case c: False
      have "split_loop command i start q parts = split_loop command (i + 1) start (quote_step q (command ! i)) parts"
        using split_loop_step [OF True] c by simp
      also have "\<dots> = parts @ parts_of (fst (segments (quote_step q (command ! i))
          (List.take (i + 1 - start) (drop start command)) (drop (i + 1) command)))"
        using less.hyps [of "i + 1" start] less.prems True by simp
      finally show ?thesis
        using c unfolding d segments_uncut [OF c [unfolded d]] take_snoc [OF less.prems(1) True] by simp
    qed
  qed
qed

corollary split_segments: "split c = (if c = [] then [] else parts_of (fst (segments neutral [] c)))"
  using split_loop_segments [of 0 0 c neutral "[]"] by (simp add: split_def)

subsection \<open>What the segments are\<close>

lemma operator_len_append: "operator_len s \<noteq> 0 \<Longrightarrow> operator_len (s @ t) \<noteq> 0"
  by (cases s) (auto split: if_splits)

lemma cuts_prefix: "\<not> cuts q (s @ t) \<Longrightarrow> \<not> cuts q s"
  using operator_len_append [of s t] unfolding cuts_def by blast

lemma uncut_prefix: "uncut q (s @ t) \<Longrightarrow> uncut q s"
  by (induction s arbitrary: q) (use cuts_prefix [of _ "_ # _" t] in auto)

lemma interleave_head: "\<exists>w. interleave (s # ss) ops = s @ w"
  by (cases ops) auto

definition operators :: "pystr set" where
  "operators = {[AMP, AMP], [BAR, BAR], [SEMI], [BAR]}"

lemma take_operator: "operator_len s \<noteq> 0 \<Longrightarrow> List.take (operator_len s) s \<in> operators"
proof (cases s)
  case (Cons c cs)
  assume "operator_len s \<noteq> 0"
  with Cons show ?thesis by (cases cs) (auto simp: operators_def split: if_splits)
qed simp

lemma segments_spec:
  "segments q cur s = (ss, ops) \<Longrightarrow>
   interleave ss ops = cur @ s \<and> length ss = Suc (length ops) \<and> set ops \<subseteq> operators \<and>
   (\<exists>t r. ss = (cur @ t) # r \<and> uncut q t \<and> (\<forall>p \<in> set r. uncut neutral p))"
proof (induction "length s" arbitrary: q cur s ss ops rule: less_induct)
  case less
  show ?case
  proof (cases "cuts q s")
    case True
    let ?r = "drop (operator_len s) s"
    obtain ss' ops' where r: "segments neutral [] ?r = (ss', ops')" by fastforce
    have n: "operator_len s \<noteq> 0" using True by (simp add: cuts_def)
    have "length ?r < length s" using operator_len_bounds [OF n] by (simp only: length_drop) linarith
    note IH = less.hyps [OF this r]
    have "ss = cur # ss'" "ops = List.take (operator_len s) s # ops'"
      using less.prems segments_cut [OF True, of cur] r by auto
    with IH take_operator [OF n] show ?thesis by auto
  next
    case False
    show ?thesis
    proof (cases s)
      case Nil
      then show ?thesis using less.prems by auto
    next
      case (Cons c cs)
      note F = False [unfolded Cons]
      have "segments (quote_step q c) (cur @ [c]) cs = (ss, ops)"
        using less.prems segments_uncut [OF F] by (simp add: Cons)
      from less.hyps [OF _ this] Cons obtain t r where
        "interleave ss ops = cur @ s" "length ss = Suc (length ops)" "set ops \<subseteq> operators"
        and t: "ss = (cur @ c # t) # r" "uncut (quote_step q c) t" "\<forall>p \<in> set r. uncut neutral p" by auto
      moreover obtain w where "interleave ss ops = (cur @ c # t) @ w"
        using interleave_head [of "cur @ c # t" r ops] t(1) by auto
      ultimately have "cs = t @ w" by (simp add: Cons)
      then have "uncut q (c # t)" using t(2) cuts_prefix [of q "c # t" w] F by simp
      with t \<open>interleave ss ops = cur @ s\<close> \<open>length ss = Suc (length ops)\<close> \<open>set ops \<subseteq> operators\<close>
      show ?thesis by blast
    qed
  qed
qed

lemma segments_of_uncut: "uncut q s \<Longrightarrow> segments q cur s = ([cur @ s], [])"
  by (induction s arbitrary: q cur) (simp_all add: segments_uncut)

subsection \<open>Stripping\<close>

lemma space_quote_step: "py_space c \<Longrightarrow> quote_step neutral c = neutral"
  by (auto simp: py_space_def quote_step_def neutral_def char_defs)

lemma uncut_dropWhile: "uncut neutral s \<Longrightarrow> uncut neutral (dropWhile py_space s)"
  by (induction s) (auto simp: space_quote_step)

lemma uncut_strip: "uncut neutral s \<Longrightarrow> uncut neutral (py_strip s)"
proof -
  assume "uncut neutral s"
  let ?d = "dropWhile py_space s"
  have "?d = py_strip s @ rev (takeWhile py_space (rev ?d))"
    unfolding py_strip_def by (simp flip: rev_append)
  with uncut_dropWhile [OF \<open>uncut neutral s\<close>] uncut_prefix show ?thesis by metis
qed

subsection \<open>Properties\<close>

lemma split_uncut: "p \<noteq> [] \<Longrightarrow> uncut neutral p \<Longrightarrow> py_strip p = p \<Longrightarrow> split p = [p]"
  by (simp add: split_segments segments_of_uncut parts_of_def)

text \<open>Splitting loses nothing: a command line is its segments with operators between them, no
  segment holds an operator outside quotes, and what \<open>split\<close> returns is exactly the segments,
  stripped, in order, without the blank ones.\<close>

theorem split_decomposes:
  "\<exists>ss ops. c = interleave ss ops \<and> length ss = Suc (length ops) \<and> set ops \<subseteq> operators \<and>
     list_all (uncut neutral) ss \<and> split c = filter (\<lambda>p. p \<noteq> []) (map py_strip ss)"
proof -
  obtain ss ops where s: "segments neutral [] c = (ss, ops)" by fastforce
  moreover have "split c = parts_of ss"
    using s by (simp add: split_segments) (auto simp: parts_of_def py_strip_def)
  moreover have "list_all (uncut neutral) ss" using segments_spec [OF s] by (auto simp: list_all_iff)
  ultimately show ?thesis
    using segments_spec [OF s] unfolding parts_of_def append_Nil by metis
qed

text \<open>No part hides a command: every part the splitter returns is not blank and splits into itself
  alone, so a policy that judged the parts has judged every command the line contains.\<close>

theorem split_parts_atomic:
  assumes "p \<in> set (split c)"
  shows "split p = [p]"
proof -
  obtain ss ops where s: "segments neutral [] c = (ss, ops)" by fastforce
  have "p \<in> set (parts_of ss)" using assms s by (simp add: split_segments split: if_splits)
  then obtain q where q: "q \<in> set ss" "p = py_strip q" "p \<noteq> []" by (auto simp: parts_of_def)
  have "uncut neutral q" using segments_spec [OF s] q(1) by auto
  then show ?thesis using split_uncut [OF q(3)] q(2) uncut_strip strip_strip by simp
qed

text \<open>\<open>ls;rm 'a|b'\<close>\<close>

definition demo_line :: pystr where
  "demo_line = [108, 115, 59, 114, 109, 32, 39, 97, 124, 98, 39]"

theorem split_parts_atomic_witness:
  "split [114, 109, 32, 39, 97, 124, 98, 39] = [[114, 109, 32, 39, 97, 124, 98, 39]] \<and>
   split demo_line = [[108, 115], [114, 109, 32, 39, 97, 124, 98, 39]]"
proof -
  have s: "split demo_line = [[108, 115], [114, 109, 32, 39, 97, 124, 98, 39]]"
    by (simp add: split_segments demo_line_def segments.simps cuts_def quote_step_def neutral_def char_defs
        parts_of_def py_strip_def py_space_def)
  moreover have "split [114, 109, 32, 39, 97, 124, 98, 39] = [[114, 109, 32, 39, 97, 124, 98, 39]]"
    by (rule split_parts_atomic [of _ demo_line]) (simp add: s)
  ultimately show ?thesis by simp
qed

end
