(* ===== verification/LineEditor.thy ===== *)
theory LineEditor
  imports Utf8
begin

text \<open>
  The line editor of terminal sessions (\<open>line_editor.py\<close>), with the text it emits. \<open>zipper\<close> is
  its abstract contract, a text before and a text after the cursor. \<open>vt\<close> is the terminal the
  docstring assumes (one VT100 row wide enough for the line, every character one cell), used to state
  that what the editor emits keeps the screen equal to its buffer.
\<close>

subsection \<open>The code\<close>

record line_editor =
  le_max_length :: int
  le_password_mode :: bool
  le_on_write :: bool
  le_buffer :: pystr
  le_cursor_pos :: nat

definition new_line_editor :: "int \<Rightarrow> bool \<Rightarrow> bool \<Rightarrow> line_editor" where
  "new_line_editor max_length password_mode on_write =
     \<lparr>le_max_length = max_length, le_password_mode = password_mode, le_on_write = on_write,
      le_buffer = [], le_cursor_pos = 0\<rparr>"

text \<open>The digits of a formatted number, and the escape sequences built from it.\<close>

fun py_digits :: "nat \<Rightarrow> pystr" where
  "py_digits n = (if n < 10 then [48 + n] else py_digits (n div 10) @ [48 + n mod 10])"

declare py_digits.simps [simp del]

definition csi :: "nat \<Rightarrow> cp \<Rightarrow> pystr" where "csi n f = [27, 91] @ py_digits n @ [f]"
definition csi0 :: "cp \<Rightarrow> pystr" where "csi0 f = [27, 91, f]"

definition LEFT :: cp where "LEFT = 68"
definition RIGHT :: cp where "RIGHT = 67"
definition ERASE :: cp where "ERASE = 75"

lemmas final_defs = LEFT_def RIGHT_def ERASE_def

definition emit :: "line_editor \<Rightarrow> pystr \<Rightarrow> pystr" where
  "emit e text = (if le_on_write e then text else [])"

definition display :: "line_editor \<Rightarrow> pystr \<Rightarrow> pystr" where
  "display e s = (if le_password_mode e then replicate (length s) 42 else s)"

text \<open>\<open>while pos > 0 and p(buffer[pos - 1]): pos -= 1\<close>\<close>

fun back_while :: "(cp \<Rightarrow> bool) \<Rightarrow> pystr \<Rightarrow> nat \<Rightarrow> nat" where
  "back_while p buf 0 = 0"
| "back_while p buf (Suc pos) = (if p (buf ! pos) then back_while p buf pos else Suc pos)"

text \<open>One branch of \<open>process_char\<close> each; the result is the finished line, the emitted text, the editor.\<close>

definition le_enter :: "line_editor \<Rightarrow> pystr option \<times> pystr \<times> line_editor" where
  "le_enter e = (Some (le_buffer e), emit e [13, 10], e\<lparr>le_buffer := [], le_cursor_pos := 0\<rparr>)"

definition le_backspace :: "line_editor \<Rightarrow> pystr option \<times> pystr \<times> line_editor" where
  "le_backspace e =
     (if 0 < le_cursor_pos e then
        let tail = drop (le_cursor_pos e) (le_buffer e) in
        (None, emit e ([8] @ display e tail @ [32] @ csi (length tail + 1) LEFT),
         e\<lparr>le_buffer := take (le_cursor_pos e - 1) (le_buffer e) @ tail, le_cursor_pos := le_cursor_pos e - 1\<rparr>)
      else (None, [], e))"

definition le_home :: "line_editor \<Rightarrow> pystr option \<times> pystr \<times> line_editor" where
  "le_home e =
     (if 0 < le_cursor_pos e
      then (None, emit e (csi (le_cursor_pos e) LEFT), e\<lparr>le_cursor_pos := 0\<rparr>) else (None, [], e))"

definition le_end :: "line_editor \<Rightarrow> pystr option \<times> pystr \<times> line_editor" where
  "le_end e =
     (let n = int (length (le_buffer e)) - int (le_cursor_pos e) in
      if 0 < n then (None, emit e (csi (nat n) RIGHT), e\<lparr>le_cursor_pos := length (le_buffer e)\<rparr>)
      else (None, [], e))"

definition le_left :: "line_editor \<Rightarrow> pystr option \<times> pystr \<times> line_editor" where
  "le_left e =
     (if 0 < le_cursor_pos e
      then (None, emit e (csi0 LEFT), e\<lparr>le_cursor_pos := le_cursor_pos e - 1\<rparr>) else (None, [], e))"

definition le_right :: "line_editor \<Rightarrow> pystr option \<times> pystr \<times> line_editor" where
  "le_right e =
     (if le_cursor_pos e < length (le_buffer e)
      then (None, emit e (csi0 RIGHT), e\<lparr>le_cursor_pos := le_cursor_pos e + 1\<rparr>) else (None, [], e))"

definition le_kill_backward :: "line_editor \<Rightarrow> pystr option \<times> pystr \<times> line_editor" where
  "le_kill_backward e =
     (if 0 < le_cursor_pos e then
        let remaining = drop (le_cursor_pos e) (le_buffer e) in
        (None, emit e (csi (le_cursor_pos e) LEFT @ display e remaining @ csi0 ERASE @
                       (if remaining \<noteq> [] then csi (length remaining) LEFT else [])),
         e\<lparr>le_buffer := remaining, le_cursor_pos := 0\<rparr>)
      else (None, [], e))"

definition le_kill_forward :: "line_editor \<Rightarrow> pystr option \<times> pystr \<times> line_editor" where
  "le_kill_forward e =
     (if le_cursor_pos e < length (le_buffer e)
      then (None, emit e (csi0 ERASE), e\<lparr>le_buffer := take (le_cursor_pos e) (le_buffer e)\<rparr>)
      else (None, [], e))"

definition le_kill_word :: "line_editor \<Rightarrow> pystr option \<times> pystr \<times> line_editor" where
  "le_kill_word e =
     (if 0 < le_cursor_pos e then
        let pos = back_while (\<lambda>c. c \<noteq> 32) (le_buffer e)
                    (back_while (\<lambda>c. c = 32) (le_buffer e) (le_cursor_pos e));
            deleted = le_cursor_pos e - pos;
            remaining = drop (le_cursor_pos e) (le_buffer e)
        in (None, emit e (csi deleted LEFT @ display e remaining @ csi0 ERASE @
                          (if remaining \<noteq> [] then csi (length remaining) LEFT else [])),
            e\<lparr>le_buffer := take pos (le_buffer e) @ remaining, le_cursor_pos := pos\<rparr>)
      else (None, [], e))"

definition le_insert :: "cp \<Rightarrow> line_editor \<Rightarrow> pystr option \<times> pystr \<times> line_editor" where
  "le_insert ch e =
     (if le_max_length e \<le> int (length (le_buffer e)) then (None, emit e [7], e)
      else
        let tail = drop (le_cursor_pos e) (le_buffer e);
            e' = e\<lparr>le_buffer := take (le_cursor_pos e) (le_buffer e) @ ch # tail,
                   le_cursor_pos := le_cursor_pos e + 1\<rparr>
        in if tail = [] then (None, emit e (if le_password_mode e then [42] else [ch]), e')
           else (None, emit e (display e (ch # tail) @ csi (length tail) LEFT), e'))"

definition process_char :: "cp \<Rightarrow> line_editor \<Rightarrow> pystr option \<times> pystr \<times> line_editor" where
  "process_char ch e =
     (if ch \<in> {13, 10} then le_enter e
      else if ch \<in> {127, 8} then le_backspace e
      else if ch = 1 then le_home e
      else if ch = 5 then le_end e
      else if ch = 2 then le_left e
      else if ch = 6 then le_right e
      else if ch = 21 then le_kill_backward e
      else if ch = 11 then le_kill_forward e
      else if ch = 23 then le_kill_word e
      else le_insert ch e)"

definition le_reset :: "line_editor \<Rightarrow> line_editor" where
  "le_reset e = e\<lparr>le_buffer := [], le_cursor_pos := 0\<rparr>"

definition set_max_length :: "int \<Rightarrow> line_editor \<Rightarrow> line_editor" where
  "set_max_length n e = e\<lparr>le_max_length := n\<rparr>"

definition set_password_mode :: "bool \<Rightarrow> line_editor \<Rightarrow> line_editor" where
  "set_password_mode b e = e\<lparr>le_password_mode := b\<rparr>"

lemmas le_defs = le_enter_def le_backspace_def le_home_def le_end_def le_left_def le_right_def
  le_kill_backward_def le_kill_forward_def le_kill_word_def le_insert_def

subsection \<open>The text before and after the cursor\<close>

type_synonym zipper = "pystr \<times> pystr"

definition drop_word :: "pystr \<Rightarrow> pystr" where
  "drop_word l = rev (dropWhile (\<lambda>c. c \<noteq> 32) (dropWhile (\<lambda>c. c = 32) (rev l)))"

fun zipper_edit :: "int \<Rightarrow> cp \<Rightarrow> zipper \<Rightarrow> pystr option \<times> zipper" where
  "zipper_edit m ch (l, r) =
     (if ch \<in> {13, 10} then (Some (l @ r), ([], []))
      else (None,
        if ch \<in> {127, 8} then (butlast l, r)
        else if ch = 1 then ([], l @ r)
        else if ch = 5 then (l @ r, [])
        else if ch = 2 then (butlast l, (if l = [] then r else last l # r))
        else if ch = 6 then (if r = [] then (l, r) else (l @ [hd r], tl r))
        else if ch = 21 then ([], r)
        else if ch = 11 then (l, [])
        else if ch = 23 then (drop_word l, r)
        else if m \<le> int (length l + length r) then (l, r)
        else (l @ [ch], r)))"

definition zip_of :: "line_editor \<Rightarrow> zipper" where
  "zip_of e = (take (le_cursor_pos e) (le_buffer e), drop (le_cursor_pos e) (le_buffer e))"

definition editor_ok :: "line_editor \<Rightarrow> bool" where
  "editor_ok e \<longleftrightarrow> le_cursor_pos e \<le> length (le_buffer e)"

lemma back_while_le: "back_while p buf n \<le> n"
  by (induction n) (auto intro: le_SucI)

lemma back_while_take:
  "n \<le> length buf \<Longrightarrow> take (back_while p buf n) buf = rev (dropWhile p (rev (take n buf)))"
  by (induction n) (auto simp: take_Suc_conv_app_nth)

lemma drop_word_take:
  "n \<le> length buf \<Longrightarrow>
   take (back_while (\<lambda>c. c \<noteq> 32) buf (back_while (\<lambda>c. c = 32) buf n)) buf = drop_word (take n buf)"
  using back_while_le [of "\<lambda>c. c = 32" buf n] by (simp add: back_while_take drop_word_def)

lemma kill_word_pos:
  "back_while (\<lambda>c. c \<noteq> 32) buf (back_while (\<lambda>c. c = 32) buf n) \<le> n"
  using back_while_le order_trans by blast

text \<open>Each branch on the zipper.\<close>

abbreviation refines :: "pystr option \<times> pystr \<times> line_editor \<Rightarrow> line_editor \<Rightarrow> pystr option \<Rightarrow> zipper \<Rightarrow> bool" where
  "refines r e out z \<equiv> fst r = out \<and> zip_of (snd (snd r)) = z \<and> editor_ok (snd (snd r)) \<and>
     le_max_length (snd (snd r)) = le_max_length e \<and> le_password_mode (snd (snd r)) = le_password_mode e \<and>
     le_on_write (snd (snd r)) = le_on_write e"

lemma ref_enter:
  assumes "le_buffer e = l @ r" "le_cursor_pos e = length l"
  shows "refines (le_enter e) e (Some (l @ r)) ([], [])"
  by (simp add: le_enter_def assms zip_of_def editor_ok_def)

lemma ref_backspace:
  assumes "le_buffer e = l @ r" "le_cursor_pos e = length l"
  shows "refines (le_backspace e) e None (butlast l, r)"
  by (simp add: le_backspace_def Let_def assms zip_of_def editor_ok_def butlast_conv_take)

lemma ref_home:
  assumes "le_buffer e = l @ r" "le_cursor_pos e = length l"
  shows "refines (le_home e) e None ([], l @ r)"
  by (simp add: le_home_def assms zip_of_def editor_ok_def)

lemma ref_end:
  assumes "le_buffer e = l @ r" "le_cursor_pos e = length l"
  shows "refines (le_end e) e None (l @ r, [])"
  by (simp add: le_end_def Let_def assms zip_of_def editor_ok_def)

lemma ref_left:
  assumes "le_buffer e = l @ r" "le_cursor_pos e = length l"
  shows "refines (le_left e) e None (butlast l, if l = [] then r else last l # r)"
  by (cases l rule: rev_cases) (simp_all add: le_left_def assms zip_of_def editor_ok_def)

lemma ref_right:
  assumes "le_buffer e = l @ r" "le_cursor_pos e = length l"
  shows "refines (le_right e) e None (if r = [] then (l, r) else (l @ [hd r], tl r))"
  by (cases r) (simp_all add: le_right_def assms zip_of_def editor_ok_def)

lemma ref_kill_backward:
  assumes "le_buffer e = l @ r" "le_cursor_pos e = length l"
  shows "refines (le_kill_backward e) e None ([], r)"
  by (simp add: le_kill_backward_def Let_def assms zip_of_def editor_ok_def)

lemma ref_kill_forward:
  assumes "le_buffer e = l @ r" "le_cursor_pos e = length l"
  shows "refines (le_kill_forward e) e None (l, [])"
  by (simp add: le_kill_forward_def assms zip_of_def editor_ok_def)

lemma kill_word_length:
  "back_while (\<lambda>c. c \<noteq> 32) (l @ r) (back_while (\<lambda>c. c = 32) (l @ r) (length l)) = length (drop_word l)"
  (is "?p = _")
proof -
  have "take ?p (l @ r) = drop_word l" using drop_word_take [of "length l" "l @ r"] by simp
  moreover have "?p \<le> length l" by (rule kill_word_pos)
  ultimately show ?thesis by (metis length_take min_absorb2 length_append trans_le_add1)
qed

lemma ref_kill_word:
  assumes "le_buffer e = l @ r" "le_cursor_pos e = length l"
  shows "refines (le_kill_word e) e None (drop_word l, r)"
proof -
  let ?p = "back_while (\<lambda>c. c \<noteq> 32) (l @ r) (back_while (\<lambda>c. c = 32) (l @ r) (length l))"
  have t: "take ?p (l @ r) = drop_word l" using drop_word_take [of "length l" "l @ r"] by simp
  have "?p \<le> length l" by (rule kill_word_pos)
  then have t': "take ?p l = drop_word l" using t by simp
  with \<open>?p \<le> length l\<close> have p: "?p = length (drop_word l)" by (metis length_take min_absorb2)
  show ?thesis
  proof (cases "l = []")
    case False
    have "length (drop_word l) \<le> length l" using \<open>?p \<le> length l\<close> p by simp
    with False show ?thesis using t' p by (simp add: le_kill_word_def Let_def assms zip_of_def editor_ok_def)
  qed (simp add: le_kill_word_def assms zip_of_def editor_ok_def drop_word_def)
qed

lemma ref_insert:
  assumes "le_buffer e = l @ r" "le_cursor_pos e = length l"
  shows "refines (le_insert ch e) e None (if le_max_length e \<le> int (length l + length r) then (l, r) else (l @ [ch], r))"
  by (simp add: le_insert_def Let_def assms zip_of_def editor_ok_def)

lemmas refine_branches = ref_enter ref_backspace ref_home ref_end ref_left ref_right ref_kill_backward
  ref_kill_forward ref_kill_word ref_insert

lemma process_refines:
  assumes "editor_ok e"
  shows "refines (process_char ch e) e (fst (zipper_edit (le_max_length e) ch (zip_of e)))
    (snd (zipper_edit (le_max_length e) ch (zip_of e)))"
proof -
  obtain l r where z: "zip_of e = (l, r)" by fastforce
  with assms have "le_buffer e = l @ r" "le_cursor_pos e = length l" by (auto simp: zip_of_def editor_ok_def)
  note refine_branches [OF this]
  then show ?thesis by (simp add: process_char_def z)
qed

subsection \<open>A terminal row\<close>

datatype vt_mode = Ground | Esc | Csi "nat option"

record vt =
  vt_row :: "nat \<Rightarrow> cp"
  vt_col :: nat
  vt_mode :: vt_mode

definition erase_from :: "nat \<Rightarrow> (nat \<Rightarrow> cp) \<Rightarrow> nat \<Rightarrow> cp" where
  "erase_from k row = (\<lambda>i. if k \<le> i then 32 else row i)"

definition overlay :: "nat \<Rightarrow> pystr \<Rightarrow> (nat \<Rightarrow> cp) \<Rightarrow> nat \<Rightarrow> cp" where
  "overlay k s row = (\<lambda>i. if k \<le> i \<and> i < k + length s then s ! (i - k) else row i)"

definition row_of :: "pystr \<Rightarrow> nat \<Rightarrow> cp" where
  "row_of s = (\<lambda>i. if i < length s then s ! i else 32)"

definition vt_final :: "cp \<Rightarrow> nat \<Rightarrow> vt \<Rightarrow> vt" where
  "vt_final c n t =
     (if c = LEFT then t\<lparr>vt_col := vt_col t - n, vt_mode := Ground\<rparr>
      else if c = RIGHT then t\<lparr>vt_col := vt_col t + n, vt_mode := Ground\<rparr>
      else if c = ERASE then t\<lparr>vt_row := erase_from (vt_col t) (vt_row t), vt_mode := Ground\<rparr>
      else t\<lparr>vt_mode := Ground\<rparr>)"

definition vt_char :: "cp \<Rightarrow> vt \<Rightarrow> vt" where
  "vt_char c t =
     (case vt_mode t of
        Ground \<Rightarrow>
          if c = 27 then t\<lparr>vt_mode := Esc\<rparr>
          else if c = 8 then t\<lparr>vt_col := vt_col t - 1\<rparr>
          else if c = 13 then t\<lparr>vt_col := 0\<rparr>
          else if c = 10 then t\<lparr>vt_row := row_of []\<rparr>
          else if c = 7 then t
          else t\<lparr>vt_row := (vt_row t)(vt_col t := c), vt_col := vt_col t + 1\<rparr>
      | Esc \<Rightarrow> t\<lparr>vt_mode := (if c = 91 then Csi None else Ground)\<rparr>
      | Csi n \<Rightarrow>
          if 48 \<le> c \<and> c \<le> 57
          then t\<lparr>vt_mode := Csi (Some (10 * (case n of None \<Rightarrow> 0 | Some k \<Rightarrow> k) + (c - 48)))\<rparr>
          else vt_final c (case n of None \<Rightarrow> 1 | Some k \<Rightarrow> max 1 k) t)"

abbreviation vt_feed :: "pystr \<Rightarrow> vt \<Rightarrow> vt" where
  "vt_feed s t \<equiv> fold vt_char s t"

definition printable :: "cp \<Rightarrow> bool" where
  "printable c \<longleftrightarrow> 32 \<le> c \<and> c \<noteq> 127"

lemma feed_digits: "vt_mode t = Csi None \<Longrightarrow> vt_feed (py_digits n) t = t\<lparr>vt_mode := Csi (Some n)\<rparr>"
proof (induction n rule: py_digits.induct)
  case (1 n)
  show ?case
  proof (cases "n < 10")
    case True
    then show ?thesis using 1 by (simp add: py_digits.simps [of n] vt_char_def)
  next
    case False
    have "10 * (n div 10) + n mod 10 = n" by simp
    then show ?thesis using False 1 by (simp add: py_digits.simps [of n] vt_char_def)
  qed
qed

lemma feed_csi:
  assumes "vt_mode t = Ground" "0 < n" "f \<in> {LEFT, RIGHT, ERASE}"
  shows "vt_feed (csi n f) t = vt_final f n t"
proof -
  have "vt_feed [27, 91] t = t\<lparr>vt_mode := Csi None\<rparr>" using assms(1) by (simp add: vt_char_def)
  moreover have "vt_feed (csi n f) t = vt_char f (vt_feed (py_digits n) (vt_feed [27, 91] t))"
    by (simp add: csi_def)
  ultimately show ?thesis
    using assms by (auto simp: feed_digits vt_char_def vt_final_def final_defs max_def)
qed

lemma feed_csi0:
  "vt_mode t = Ground \<Longrightarrow> f \<in> {LEFT, RIGHT, ERASE} \<Longrightarrow> vt_feed (csi0 f) t = vt_final f 1 t"
  by (auto simp: csi0_def vt_char_def vt_final_def final_defs)

lemma overlay_Nil [simp]: "overlay k [] row = row"
  by (auto simp: overlay_def fun_eq_iff)

lemma overlay_Cons: "overlay k (c # s) row = overlay (Suc k) s (row(k := c))"
  by (auto simp: overlay_def fun_eq_iff nth_Cons' Suc_le_eq)

lemma feed_text:
  "vt_mode t = Ground \<Longrightarrow> list_all printable s \<Longrightarrow>
   vt_feed s t = t\<lparr>vt_row := overlay (vt_col t) s (vt_row t), vt_col := vt_col t + length s\<rparr>"
proof (induction s arbitrary: t)
  case Nil
  then show ?case by simp
next
  case (Cons c s)
  have "vt_char c t = t\<lparr>vt_row := (vt_row t)(vt_col t := c), vt_col := vt_col t + 1\<rparr>"
    using Cons.prems by (simp add: vt_char_def printable_def)
  with Cons show ?case by (simp add: overlay_Cons)
qed

lemma feed_backspace: "vt_mode t = Ground \<Longrightarrow> vt_char 8 t = t\<lparr>vt_col := vt_col t - 1\<rparr>"
  by (simp add: vt_char_def)

lemma overlay_row: "length b \<le> length s \<Longrightarrow> overlay (length a) s (row_of (a @ b)) = row_of (a @ s)"
  by (auto simp: overlay_def row_of_def fun_eq_iff nth_append)

lemma erase_overlay: "erase_from (length a + length s) (overlay (length a) s (row_of (a @ b))) = row_of (a @ s)"
  by (auto simp: erase_from_def overlay_def row_of_def fun_eq_iff nth_append)

lemma erase_row: "erase_from (length a) (row_of (a @ b)) = row_of a"
  by (auto simp: erase_from_def row_of_def fun_eq_iff nth_append)

lemma row_blank: "row_of (s @ [32]) = row_of s"
  by (auto simp: row_of_def fun_eq_iff nth_append)

text \<open>The row shows a prompt, the text before the cursor and the text after it.\<close>

definition scr :: "pystr \<Rightarrow> pystr \<Rightarrow> pystr \<Rightarrow> vt \<Rightarrow> bool" where
  "scr p l r t \<longleftrightarrow> vt_mode t = Ground \<and> vt_row t = row_of (p @ l @ r) \<and> vt_col t = length p + length l"

lemma scr_backspace:
  assumes "scr p (l @ [x]) r t" "list_all printable r"
  shows "scr p l r (vt_feed (8 # r @ 32 # csi (length r + 1) LEFT) t)"
proof -
  have m: "vt_mode t = Ground" and c: "vt_col t = length p + Suc (length l)" and w: "vt_row t = row_of (p @ l @ x # r)"
    using assms(1) by (simp_all add: scr_def)
  have "list_all printable (r @ [32])" using assms(2) by (simp add: printable_def)
  from feed_text [OF _ this, of "vt_char 8 t"]
  have "vt_feed (r @ [32]) (vt_char 8 t) =
      t\<lparr>vt_row := row_of (p @ l @ r), vt_col := length p + length l + Suc (length r)\<rparr>"
    using m c w overlay_row [of "x # r" "r @ [32]" "p @ l"] row_blank [of "p @ l @ r"]
    by (simp add: feed_backspace del: fold_append)
  moreover have "vt_feed (8 # r @ 32 # csi (length r + 1) LEFT) t =
      vt_feed (csi (length r + 1) LEFT) (vt_feed (r @ [32]) (vt_char 8 t))" by simp
  ultimately show ?thesis using m by (simp add: scr_def feed_csi vt_final_def del: fold_append)
qed

lemma scr_home: "scr p l r t \<Longrightarrow> l \<noteq> [] \<Longrightarrow> scr p [] (l @ r) (vt_feed (csi (length l) LEFT) t)"
  by (simp add: scr_def feed_csi vt_final_def)

lemma scr_end: "scr p l r t \<Longrightarrow> r \<noteq> [] \<Longrightarrow> scr p (l @ r) [] (vt_feed (csi (length r) RIGHT) t)"
  by (simp add: scr_def feed_csi vt_final_def final_defs)

lemma scr_left: "scr p (l @ [x]) r t \<Longrightarrow> scr p l (x # r) (vt_feed (csi0 LEFT) t)"
  by (simp add: scr_def feed_csi0 vt_final_def)

lemma scr_right: "scr p l (x # r) t \<Longrightarrow> scr p (l @ [x]) r (vt_feed (csi0 RIGHT) t)"
  by (simp add: scr_def feed_csi0 vt_final_def final_defs)

lemma scr_kill:
  assumes "scr p (l @ w) r t" "w \<noteq> []" "list_all printable r"
  shows "scr p l r (vt_feed (csi (length w) LEFT @ r @ csi0 ERASE @ (if r \<noteq> [] then csi (length r) LEFT else [])) t)"
  using assms erase_overlay [of "p @ l" r "w @ r"] erase_row [of "p @ l" w]
  by (auto simp: scr_def feed_csi feed_csi0 feed_text vt_final_def final_defs)

lemma scr_kill_forward: "scr p l r t \<Longrightarrow> scr p l [] (vt_feed (csi0 ERASE) t)"
  using erase_row [of "p @ l" r] by (simp add: scr_def feed_csi0 vt_final_def final_defs)

lemma scr_insert:
  assumes "scr p l r t" "list_all printable (c # r)"
  shows "scr p (l @ [c]) r (vt_feed (c # r @ (if r \<noteq> [] then csi (length r) LEFT else [])) t)"
proof -
  have "c # r @ (if r \<noteq> [] then csi (length r) LEFT else []) =
      (c # r) @ (if r \<noteq> [] then csi (length r) LEFT else [])" by simp
  then show ?thesis
    using assms overlay_row [of r "c # r" "p @ l"]
    by (simp only: fold_append o_apply) (auto simp: scr_def feed_text feed_csi vt_final_def simp del: fold.simps)
qed

lemma scr_enter: "scr p l r t \<Longrightarrow> scr [] [] [] (vt_feed [13, 10] t)"
  by (simp add: scr_def vt_char_def)

lemma scr_bell: "scr p l r t \<Longrightarrow> scr p l r (vt_feed [7] t)"
  by (simp add: scr_def vt_char_def)

subsection \<open>What the editor emits\<close>

lemma display_simps [simp]:
  "display e [] = []"
  "display e (s @ t) = display e s @ display e t"
  "length (display e s) = length s"
  "display e s = [] \<longleftrightarrow> s = []"
  "display e (c # s) = (if le_password_mode e then 42 else c) # display e s"
  by (simp_all add: display_def replicate_add)

lemma display_same: "le_password_mode e' = le_password_mode e \<Longrightarrow> display e' s = display e s"
  by (simp add: display_def)

lemma printable_display: "list_all printable s \<Longrightarrow> list_all printable (display e s)"
  by (simp add: display_def list_all_length printable_def)

text \<open>The screen shows a prompt and the displayed buffer, with the cursor where the editor has it.\<close>

definition screen_shows :: "line_editor \<Rightarrow> pystr \<Rightarrow> vt \<Rightarrow> bool" where
  "screen_shows e p t \<longleftrightarrow>
     vt_mode t = Ground \<and> vt_row t = row_of (p @ display e (le_buffer e)) \<and>
     vt_col t = length p + le_cursor_pos e"

lemma screen_scr:
  "le_buffer e = l @ r \<Longrightarrow> le_cursor_pos e = length l \<Longrightarrow>
   screen_shows e p t \<longleftrightarrow> scr p (display e l) (display e r) t"
  by (simp add: screen_shows_def scr_def)

lemma scr_shows:
  assumes "refines x e out (l', r')" "scr p (display e l') (display e r') t"
  shows "screen_shows (snd (snd x)) p t"
  using assms display_same [of "snd (snd x)" e] screen_scr [of "snd (snd x)" l' r' p t]
  by (auto simp: zip_of_def editor_ok_def)

lemma drop_word_prefix: obtains w where "l = drop_word l @ w" "l \<noteq> [] \<longrightarrow> w \<noteq> []"
proof -
  let ?d = "dropWhile (\<lambda>c. c = 32) (rev l)"
  have "rev l = takeWhile (\<lambda>c. c = 32) (rev l) @ takeWhile (\<lambda>c. c \<noteq> 32) ?d @ dropWhile (\<lambda>c. c \<noteq> 32) ?d"
    by simp
  then have l: "l = drop_word l @ rev (takeWhile (\<lambda>c. c \<noteq> 32) ?d) @ rev (takeWhile (\<lambda>c. c = 32) (rev l))"
    unfolding drop_word_def by (metis append_assoc rev_append rev_swap)
  have "takeWhile (\<lambda>c. c \<noteq> 32) ?d @ takeWhile (\<lambda>c. c = 32) (rev l) \<noteq> []" if "l \<noteq> []"
    using that by (cases "rev l") auto
  with that [OF l] show ?thesis by auto
qed

text \<open>A branch keeps the screen right: what it emits, fed to the terminal, shows its editor.\<close>

abbreviation shown :: "pystr option \<times> pystr \<times> line_editor \<Rightarrow> pystr \<Rightarrow> vt \<Rightarrow> bool" where
  "shown x p t \<equiv> screen_shows (snd (snd x)) p (vt_feed (fst (snd x)) t)"

definition editing :: "line_editor \<Rightarrow> pystr \<Rightarrow> pystr \<Rightarrow> pystr \<Rightarrow> vt \<Rightarrow> bool" where
  "editing e l r p t \<longleftrightarrow>
     le_buffer e = l @ r \<and> le_cursor_pos e = length l \<and> le_on_write e \<and>
     list_all printable (l @ r) \<and> scr p (display e l) (display e r) t"

lemma editingD:
  assumes "editing e l r p t"
  shows "le_buffer e = l @ r" "le_cursor_pos e = length l" "le_on_write e"
    "scr p (display e l) (display e r) t" "list_all printable (display e r)"
  using assms printable_display [of r e] by (auto simp: editing_def)

lemma shown_enter:
  assumes "editing e l r p t" shows "shown (le_enter e) [] t"
proof -
  note d = editingD [OF assms]
  show ?thesis
    by (rule scr_shows [OF refine_branches(1) [OF d(1,2)]])
       (use d scr_enter [OF d(4)] in \<open>simp_all add: le_enter_def emit_def\<close>)
qed

lemma shown_backspace:
  assumes "editing e l r p t" shows "shown (le_backspace e) p t"
proof -
  note d = editingD [OF assms]
  have "scr p (display e (butlast l)) (display e r) (vt_feed (fst (snd (le_backspace e))) t)"
  proof (cases l rule: rev_cases)
    case (snoc l' x)
    with d scr_backspace [of p "display e l'" _ "display e r" t] show ?thesis
      by (simp add: le_backspace_def Let_def emit_def del: fold.simps fold_append)
  qed (use d in \<open>simp add: le_backspace_def\<close>)
  from scr_shows [OF refine_branches(2) [OF d(1,2)] this] show ?thesis .
qed

lemma shown_home:
  assumes "editing e l r p t" shows "shown (le_home e) p t"
proof -
  note d = editingD [OF assms]
  show ?thesis
    by (rule scr_shows [OF refine_branches(3) [OF d(1,2)]], cases "l = []")
       (use d scr_home [OF d(4)] in \<open>simp_all add: le_home_def emit_def\<close>)
qed

lemma shown_end:
  assumes "editing e l r p t" shows "shown (le_end e) p t"
proof -
  note d = editingD [OF assms]
  show ?thesis
    by (rule scr_shows [OF refine_branches(4) [OF d(1,2)]], cases "r = []")
       (use d scr_end [OF d(4)] in \<open>simp_all add: le_end_def Let_def emit_def\<close>)
qed

lemma shown_left:
  assumes "editing e l r p t" shows "shown (le_left e) p t"
proof -
  note d = editingD [OF assms]
  have "scr p (display e (butlast l)) (display e (if l = [] then r else last l # r)) (vt_feed (fst (snd (le_left e))) t)"
  proof (cases l rule: rev_cases)
    case (snoc l' x)
    with d scr_left [of p "display e l'" _ "display e r" t] show ?thesis by (simp add: le_left_def emit_def)
  qed (use d in \<open>simp add: le_left_def\<close>)
  from scr_shows [OF refine_branches(5) [OF d(1,2)] this] show ?thesis .
qed

lemma shown_right:
  assumes "editing e l r p t" shows "shown (le_right e) p t"
proof -
  note d = editingD [OF assms]
  note ref = refine_branches(6) [OF d(1,2)]
  show ?thesis
  proof (cases r)
    case Nil
    with ref have "refines (le_right e) e None (l, [])" by simp
    from scr_shows [OF this] show ?thesis using Nil d by (simp add: le_right_def)
  next
    case (Cons c r')
    with ref have "refines (le_right e) e None (l @ [c], r')" by simp
    from scr_shows [OF this] show ?thesis using Cons d scr_right by (simp add: le_right_def emit_def)
  qed
qed

lemma shown_kill_backward:
  assumes "editing e l r p t" shows "shown (le_kill_backward e) p t"
proof -
  note d = editingD [OF assms]
  have "scr p (display e []) (display e r) (vt_feed (fst (snd (le_kill_backward e))) t)"
    using d scr_kill [of p "[]" "display e l" "display e r" t]
    by (cases "l = []"; cases "r = []") (simp_all add: le_kill_backward_def Let_def emit_def)
  from scr_shows [OF refine_branches(7) [OF d(1,2)] this] show ?thesis .
qed

lemma shown_kill_forward:
  assumes "editing e l r p t" shows "shown (le_kill_forward e) p t"
proof -
  note d = editingD [OF assms]
  show ?thesis
    by (rule scr_shows [OF refine_branches(8) [OF d(1,2)]], cases "r = []")
       (use d scr_kill_forward [OF d(4)] in \<open>simp_all add: le_kill_forward_def emit_def\<close>)
qed

lemma shown_kill_word:
  assumes "editing e l r p t" shows "shown (le_kill_word e) p t"
proof -
  note d = editingD [OF assms]
  obtain v where v: "l = drop_word l @ v" "l \<noteq> [] \<longrightarrow> v \<noteq> []" by (rule drop_word_prefix)
  have n: "length l - length (drop_word l) = length v" using v(1) by (metis add_diff_cancel_left' length_append)
  have "display e l = display e (drop_word l) @ display e v" using v(1) by (metis display_simps(2))
  with d(4) have "scr p (display e (drop_word l) @ display e v) (display e r) t" by simp
  from scr_kill [OF this _ d(5)] v(2) d
  have "scr p (display e (drop_word l)) (display e r) (vt_feed (fst (snd (le_kill_word e))) t)"
    by (cases "l = []"; cases "r = []")
       (simp_all add: le_kill_word_def Let_def emit_def kill_word_length kill_word_length [of l "[]", simplified]
          n drop_word_def [of "[]"])
  from scr_shows [OF refine_branches(9) [OF d(1,2)] this] show ?thesis .
qed

lemma shown_insert:
  assumes "editing e l r p t" "printable ch" shows "shown (le_insert ch e) p t"
proof -
  note d = editingD [OF assms(1)]
  show ?thesis
  proof (cases "le_max_length e \<le> int (length l + length r)")
    case True
    with refine_branches(10) [OF d(1,2)] have "refines (le_insert ch e) e None (l, r)" by simp
    from scr_shows [OF this] show ?thesis using True d scr_bell [OF d(4)] by (simp add: le_insert_def emit_def)
  next
    case False
    with refine_branches(10) [OF d(1,2)] have ref: "refines (le_insert ch e) e None (l @ [ch], r)" by simp
    have "list_all printable ((if le_password_mode e then 42 else ch) # display e r)"
      using assms(2) d(5) by (simp add: printable_def)
    from scr_insert [OF d(4) this] scr_shows [OF ref] show ?thesis
      using False d by (cases "r = []") (auto simp: le_insert_def Let_def emit_def)
  qed
qed

lemmas shown_branches = shown_enter shown_backspace shown_home shown_end shown_left shown_right
  shown_kill_backward shown_kill_forward shown_kill_word shown_insert

subsection \<open>Properties\<close>

text \<open>C31: The editor implements a text with a cursor: from any state with the cursor inside the
  buffer, every character acts on the text before and after the cursor as the abstract editor does
  (insert, delete back, move, kill to either end or a word, refuse at the length limit, hand out the
  whole line and clear it on Enter), and the cursor stays inside the buffer.\<close>

theorem editor_refines_zipper:
  assumes "editor_ok e" "process_char ch e = (out, text, e')"
  shows "zipper_edit (le_max_length e) ch (zip_of e) = (out, zip_of e') \<and> editor_ok e'"
  using process_refines [OF assms(1), of ch] assms(2) by (simp add: prod_eq_iff)

definition demo_editor :: line_editor where
  "demo_editor = \<lparr>le_max_length = 9, le_password_mode = False, le_on_write = True,
     le_buffer = [97, 98, 32, 99], le_cursor_pos = 3\<rparr>"

lemmas demo_eval = demo_editor_def process_char_def le_defs emit_def csi_def csi0_def display_def
  py_digits.simps final_defs

lemma demo_ctrl_w:
  "process_char 23 demo_editor =
     (None, [27, 91, 51, 68, 99, 27, 91, 75, 27, 91, 49, 68], demo_editor\<lparr>le_buffer := [99], le_cursor_pos := 0\<rparr>)"
  by (simp add: demo_eval numeral_3_eq_3)

theorem editor_refines_zipper_witness:
  "zipper_edit 9 23 ([97, 98, 32], [99]) = (None, ([], [99]))"
  using editor_refines_zipper [OF _ demo_ctrl_w]
  by (simp add: demo_editor_def zip_of_def editor_ok_def numeral_3_eq_3 del: zipper_edit.simps)

text \<open>What the user sees is what is edited: on a terminal that shows a prompt and the displayed
  buffer (stars in password mode) with the cursor at the editor's position, feeding it what
  \<open>process_char\<close> emits for a printable or editing character leaves the row equal to the prompt and
  the new displayed buffer with nothing left over behind it, the cursor at its new position, and the
  terminal ready for text; after Enter the row is empty.\<close>

theorem editor_screen_faithful:
  assumes "screen_shows e p t" "editor_ok e" "le_on_write e" "list_all printable (le_buffer e)"
    and "printable ch \<or> ch \<in> {13, 10, 127, 8, 1, 5, 2, 6, 21, 11, 23}"
    and "process_char ch e = (out, text, e')"
  shows "screen_shows e' (if ch \<in> {13, 10} then [] else p) (vt_feed text t)"
proof -
  let ?l = "take (le_cursor_pos e) (le_buffer e)" and ?r = "drop (le_cursor_pos e) (le_buffer e)"
  have "le_buffer e = ?l @ ?r" "le_cursor_pos e = length ?l" using assms(2) by (auto simp: editor_ok_def)
  then have "editing e ?l ?r p t"
    using screen_scr [of e ?l ?r p t] assms(1,3,4) by (simp add: editing_def)
  note shown_branches [OF this]
  moreover have "ch \<notin> {13, 10, 127, 8, 1, 5, 2, 6, 21, 11, 23} \<Longrightarrow> printable ch" using assms(5) by blast
  ultimately have "shown (process_char ch e) (if ch \<in> {13, 10} then [] else p) t"
    by (simp add: process_char_def)
  then show ?thesis by (simp add: assms(6))
qed

definition demo_screen :: vt where
  "demo_screen = \<lparr>vt_row = row_of [62, 97, 98, 32, 99], vt_col = 4, vt_mode = Ground\<rparr>"

theorem editor_screen_faithful_witness:
  "screen_shows (demo_editor\<lparr>le_buffer := [99], le_cursor_pos := 0\<rparr>) [62]
     (vt_feed [27, 91, 51, 68, 99, 27, 91, 75, 27, 91, 49, 68] demo_screen)"
  using editor_screen_faithful [OF _ _ _ _ _ demo_ctrl_w, of "[62]" demo_screen]
  by (simp add: demo_editor_def demo_screen_def screen_shows_def editor_ok_def printable_def display_def)

fun process_line :: "pystr \<Rightarrow> line_editor \<Rightarrow> pystr list \<times> line_editor" where
  "process_line [] e = ([], e)"
| "process_line (c # cs) e =
     (let (out, _, e1) = process_char c e; (outs, e2) = process_line cs e1
      in (case out of None \<Rightarrow> outs | Some s \<Rightarrow> s # outs, e2))"

lemma drop_word_length: "length (drop_word l) \<le> length l"
  using kill_word_length [of l "[]"] kill_word_pos [of "l @ []" "length l"] by simp

lemma process_bounded:
  assumes "editor_ok e" "process_char ch e = (out, text, e')"
    and k: "le_max_length e \<le> k" "int (length (le_buffer e)) \<le> k"
  shows "editor_ok e' \<and> le_max_length e' = le_max_length e \<and> int (length (le_buffer e')) \<le> k \<and>
    (\<forall>s. out = Some s \<longrightarrow> int (length s) \<le> k)"
proof -
  obtain l r where z: "zip_of e = (l, r)" by fastforce
  have b: "length (le_buffer e) = length l + length r"
    using z by (auto simp: zip_of_def)
  have *: "length (le_buffer e') = length (fst (zip_of e')) + length (snd (zip_of e'))"
    by (simp add: zip_of_def)
  note p = process_refines [OF assms(1), of ch, unfolded assms(2) z]
  let ?z = "zipper_edit (le_max_length e) ch (l, r)"
  have "int (length (fst (snd ?z)) + length (snd (snd ?z))) \<le> k \<and> (\<forall>s. fst ?z = Some s \<longrightarrow> int (length s) \<le> k)"
  proof -
    have "int (length l + length r) \<le> k" using k b by simp
    then show ?thesis
      using k(1) drop_word_length [of l] by (cases r; cases l rule: rev_cases; simp)
  qed
  then show ?thesis using p * by simp
qed

text \<open>The length limit holds: whatever characters arrive, the buffer never grows past the larger
  of its length at the start and \<open>max_length\<close>, and no line handed out by Enter is longer.\<close>

theorem editor_bounded:
  assumes "editor_ok e" "le_max_length e \<le> k" "int (length (le_buffer e)) \<le> k"
    "process_line cs e = (outs, e')"
  shows "int (length (le_buffer e')) \<le> k \<and> list_all (\<lambda>s. int (length s) \<le> k) outs"
  using assms
proof (induction cs arbitrary: e outs)
  case (Cons c cs)
  obtain out tx e1 where p: "process_char c e = (out, tx, e1)" by (rule prod_cases3)
  obtain outs1 where q: "process_line cs e1 = (outs1, e')" and ou: "outs = (case out of None \<Rightarrow> outs1 | Some s \<Rightarrow> s # outs1)"
    using Cons.prems(4) by (auto simp: p split: prod.splits)
  note b = process_bounded [OF Cons.prems(1) p Cons.prems(2,3)]
  from Cons.IH [OF _ _ _ q] b Cons.prems(2) ou show ?case by (auto split: option.splits)
qed simp

theorem editor_bounded_witness:
  "int (length (le_buffer (snd (process_line [120, 23, 121, 13, 97] demo_editor)))) \<le> 9"
  using editor_bounded [of demo_editor 9 "[120, 23, 121, 13, 97]"
      "fst (process_line [120, 23, 121, 13, 97] demo_editor)" "snd (process_line [120, 23, 121, 13, 97] demo_editor)"]
  by (simp add: demo_editor_def editor_ok_def del: process_line.simps)

end
