(* ===== verification/Authz.thy ===== *)
theory Authz
  imports Json "HOL-Library.Sublist"
begin

text \<open>
  Who may do what: the principal (\<open>server/bridge/identity.py\<close>), the built-in role policy
  (\<open>LocalAuthorizationProvider\<close> of \<open>server/authorization.py\<close>), the provider that asks a webhook,
  the canonical role filter (\<open>server/auth_roles.py\<close>) and the operation policy shared with the other
  ports (\<open>bridge/policy.py\<close>). HTTP and the HMAC are parameters: a webhook call is given by the
  response it got, or \<open>None\<close> when anything on the way raised.
\<close>

subsection \<open>Principals and sessions\<close>

datatype claim = ClBool bool | ClInt int | ClFloat real | ClOther

record principal =
  pr_subject_id :: string
  pr_tenant_id :: "string option"
  pr_roles :: "string set"
  pr_scopes :: "string set"
  pr_claims :: "(string \<times> claim) list"
  pr_display_name :: "string option"
  pr_admin_session_scope :: "string option"
  pr_tunnel_share :: bool

record session_def =
  sd_session_id :: string
  sd_owner :: "string option"
  sd_visibility :: string

record profile =
  pf_profile_id :: string
  pf_owner :: string
  pf_visibility :: string

subsection \<open>The built-in role policy\<close>

definition viewer_caps :: "string set" where
  "viewer_caps = {''session.read'', ''session.recording.read'', ''graphical.target.read''}"

definition operator_caps :: "string set" where
  "operator_caps =
     {''session.read'', ''session.recording.read'', ''session.control.create'', ''session.control.connect'',
      ''session.control.mode'', ''session.control.clear'', ''session.control.update'',
      ''graphical.target.read'', ''graphical.target.manage'', ''graphical.session.attach''}"

definition admin_caps :: "string set" where
  "admin_caps =
     {''session.read'', ''session.recording.read'', ''session.control.create'', ''session.control.connect'',
      ''session.control.mode'', ''session.control.clear'', ''session.control.update'',
      ''session.control.delete'', ''session.control.hijack'',
      ''graphical.target.read'', ''graphical.target.manage'', ''graphical.session.attach''}"

definition ROLE_CAPABILITIES :: "string \<Rightarrow> string set" where
  "ROLE_CAPABILITIES role =
     (if role = ''viewer'' then viewer_caps
      else if role = ''operator'' then operator_caps
      else if role = ''admin'' then admin_caps
      else {})"

definition capabilities_for :: "principal \<Rightarrow> string set" where
  "capabilities_for p =
     (let role_caps = \<Union> (ROLE_CAPABILITIES ` pr_roles p)
      in if pr_scopes p \<noteq> {} \<and> ''*'' \<notin> pr_scopes p then role_caps \<inter> pr_scopes p else role_caps)"

definition has_capability :: "principal \<Rightarrow> string \<Rightarrow> bool" where
  "has_capability p cap \<longleftrightarrow> cap \<in> capabilities_for p"

definition is_admin :: "principal \<Rightarrow> bool" where
  "is_admin p \<longleftrightarrow> ''admin'' \<in> pr_roles p \<and> pr_admin_session_scope p = None"

definition is_admin_for_session :: "principal \<Rightarrow> session_def \<Rightarrow> bool" where
  "is_admin_for_session p s \<longleftrightarrow>
     ''admin'' \<in> pr_roles p \<and>
     (case pr_admin_session_scope p of None \<Rightarrow> True | Some scope \<Rightarrow> scope = sd_session_id s)"

definition is_owner :: "principal \<Rightarrow> session_def \<Rightarrow> bool" where
  "is_owner p s \<longleftrightarrow> sd_owner s = Some (pr_subject_id p)"

definition share_prefix :: "string \<Rightarrow> string" where
  "share_prefix sid = ''share:'' @ sid @ '':''"

definition can_read_session :: "principal \<Rightarrow> session_def \<Rightarrow> bool" where
  "can_read_session p s =
     (if \<not> has_capability p ''session.read'' then False
      else if is_admin_for_session p s \<or> is_owner p s then True
      else if prefix (share_prefix (sd_session_id s)) (pr_subject_id p) then True
      else if sd_visibility s = ''public'' then True
      else if sd_visibility s = ''operator'' then ''operator'' \<in> pr_roles p
      else False)"

definition can_read_recording :: "principal \<Rightarrow> session_def \<Rightarrow> bool" where
  "can_read_recording p s \<longleftrightarrow> can_read_session p s \<and> has_capability p ''session.recording.read''"

definition can_create_session :: "principal \<Rightarrow> bool" where
  "can_create_session p = has_capability p ''session.control.create''"

definition can_mutate_session :: "principal \<Rightarrow> session_def \<Rightarrow> string \<Rightarrow> bool" where
  "can_mutate_session p s action =
     (if \<not> has_capability p action then False
      else if is_admin_for_session p s then True
      else if sd_owner s = None then False
      else is_owner p s)"

definition can_read_profile :: "principal \<Rightarrow> profile \<Rightarrow> bool" where
  "can_read_profile p f \<longleftrightarrow> pf_owner f = pr_subject_id p \<or> pf_visibility f = ''shared'' \<or> is_admin p"

definition can_mutate_profile :: "principal \<Rightarrow> profile \<Rightarrow> bool" where
  "can_mutate_profile p f \<longleftrightarrow> pf_owner f = pr_subject_id p \<or> is_admin p"

definition resolve_browser_role :: "principal \<Rightarrow> session_def \<Rightarrow> string" where
  "resolve_browser_role p s =
     (if \<not> can_read_session p s then ''viewer''
      else if can_mutate_session p s ''session.control.hijack'' then ''admin''
      else if ''operator'' \<in> pr_roles p \<or> is_owner p s then ''operator''
      else ''viewer'')"

subsection \<open>Roles from outside\<close>

definition KNOWN_ROLES :: "string set" where "KNOWN_ROLES = {''viewer'', ''operator'', ''admin''}"

text \<open>\<open>clean\<close> is \<open>str(role).strip().lower()\<close> of each entry.\<close>

definition filter_known_roles :: "('a \<Rightarrow> string) \<Rightarrow> 'a list \<Rightarrow> string set" where
  "filter_known_roles clean roles =
     (let cleaned = set (filter (\<lambda>r. r \<noteq> '''') (map clean roles)); allowed = cleaned \<inter> KNOWN_ROLES
      in if allowed \<noteq> {} then allowed else {''viewer''})"

subsection \<open>The webhook provider\<close>

record response =
  re_status :: int
  re_content :: "byte list"
  re_signature :: "string option"
  re_timestamp :: "string option"

text \<open>\<open>secret\<close> is the configured secret with surrounding white space stripped, empty when there is none.\<close>

definition require_signed :: "bool \<Rightarrow> string \<Rightarrow> bool" where
  "require_signed require_signed_response secret \<longleftrightarrow> require_signed_response \<and> secret \<noteq> ''''"

definition response_signature_ok ::
  "(byte list \<Rightarrow> string option \<Rightarrow> string option \<Rightarrow> bool) \<Rightarrow> bool \<Rightarrow> response \<Rightarrow> bool" where
  "response_signature_ok verify required r =
     (if \<not> required then True else verify (re_content r) (re_signature r) (re_timestamp r))"

text \<open>Python's truth value of a JSON value.\<close>

fun truthy :: "json \<Rightarrow> bool" where
  "truthy JNull = False"
| "truthy (JBool b) = b"
| "truthy (JInt i) = (i \<noteq> 0)"
| "truthy (JFloat x) = (x \<noteq> 0)"
| "truthy (JStr s) = (s \<noteq> [])"
| "truthy (JArr xs) = (xs \<noteq> [])"
| "truthy (JObj d) = (d \<noteq> [])"

definition ALLOW_KEY :: pystr where "ALLOW_KEY = [97, 108, 108, 111, 119]"

definition webhook_check ::
  "(byte list \<Rightarrow> json option) \<Rightarrow> (byte list \<Rightarrow> string option \<Rightarrow> string option \<Rightarrow> bool) \<Rightarrow> bool \<Rightarrow>
   response option \<Rightarrow> bool" where
  "webhook_check loads verify required resp =
     (case resp of
        None \<Rightarrow> False
      | Some r \<Rightarrow>
          if re_status r = 200 then
            if \<not> response_signature_ok verify required r then False
            else case loads (re_content r) of
                   Some (JObj d) \<Rightarrow> (case od_get d ALLOW_KEY of None \<Rightarrow> False | Some v \<Rightarrow> truthy v)
                 | _ \<Rightarrow> False
          else False)"

definition CAPABILITIES_KEY :: pystr where
  "CAPABILITIES_KEY = [99, 97, 112, 97, 98, 105, 108, 105, 116, 105, 101, 115]"
definition ROLE_KEY :: pystr where "ROLE_KEY = [114, 111, 108, 101]"

text \<open>\<open>elements\<close> is \<open>frozenset\<close> of a JSON value, \<open>None\<close> when that raises.\<close>

definition webhook_capabilities_for ::
  "(byte list \<Rightarrow> json option) \<Rightarrow> (byte list \<Rightarrow> string option \<Rightarrow> string option \<Rightarrow> bool) \<Rightarrow> (json \<Rightarrow> string set option) \<Rightarrow>
   bool \<Rightarrow> response option \<Rightarrow> string set" where
  "webhook_capabilities_for loads verify elements required resp =
     (case resp of
        None \<Rightarrow> {}
      | Some r \<Rightarrow>
          if re_status r = 200 \<and> response_signature_ok verify required r then
            (case loads (re_content r) of
               Some (JObj d) \<Rightarrow>
                 (case elements (case od_get d CAPABILITIES_KEY of None \<Rightarrow> JArr [] | Some v \<Rightarrow> v) of
                    None \<Rightarrow> {} | Some caps \<Rightarrow> caps)
             | _ \<Rightarrow> {})
          else {})"

text \<open>
  The role the webhook assigns to a browser. \<open>next(iter(...))\<close> picks an element of the filtered set,
  which has just the one (\<open>filter_known_single\<close>).
\<close>

definition first_role :: "string set \<Rightarrow> string" where
  "first_role roles =
     (if ''admin'' \<in> roles then ''admin'' else if ''operator'' \<in> roles then ''operator'' else ''viewer'')"

definition webhook_resolve_browser_role ::
  "(byte list \<Rightarrow> json option) \<Rightarrow> (json \<Rightarrow> string) \<Rightarrow> response option \<Rightarrow> string" where
  "webhook_resolve_browser_role loads clean resp =
     (case resp of
        None \<Rightarrow> ''viewer''
      | Some r \<Rightarrow>
          if re_status r = 200 then
            (case loads (re_content r) of
               Some (JObj d) \<Rightarrow>
                 (case od_get d ROLE_KEY of
                    None \<Rightarrow> ''viewer''
                  | Some raw_role \<Rightarrow> first_role (filter_known_roles clean [raw_role]))
             | _ \<Rightarrow> ''viewer'')
          else ''viewer'')"

lemma filter_known_single:
  "filter_known_roles clean [v] = {if clean v \<in> KNOWN_ROLES then clean v else ''viewer''}"
  "first_role (filter_known_roles clean [v]) = (if clean v \<in> KNOWN_ROLES then clean v else ''viewer'')"
  by (auto simp: filter_known_roles_def KNOWN_ROLES_def first_role_def Let_def)

subsection \<open>The operation policy\<close>

definition ROLE_RANK :: "string \<Rightarrow> int option" where
  "ROLE_RANK role =
     (if role = ''viewer'' then Some 0 else if role = ''operator'' then Some 1
      else if role = ''admin'' then Some 2 else None)"

definition role_rank :: "string \<Rightarrow> int" where
  "role_rank role = (case ROLE_RANK role of None \<Rightarrow> -1 | Some n \<Rightarrow> n)"

definition op_min_role :: "string \<Rightarrow> string option" where
  "op_min_role op =
     (if op \<in> {''input_inject'', ''hijack_step'', ''hijack_release'', ''hijack_acquire''}
      then Some ''operator'' else None)"

definition can_perform :: "string \<Rightarrow> string \<Rightarrow> bool \<Rightarrow> bool \<Rightarrow> string option" where
  "can_perform op role lease_owned session_active =
     (case op_min_role op of
        None \<Rightarrow> Some (''forbidden: unknown operation '' @ op)
      | Some min_role \<Rightarrow>
          if role_rank role < role_rank min_role then Some ''forbidden: insufficient role''
          else if op \<in> {''input_inject'', ''hijack_step''} \<and> \<not> lease_owned then Some ''forbidden: no active lease''
          else if op \<in> {''hijack_step'', ''hijack_acquire''} \<and> \<not> session_active
          then Some ''forbidden: session inactive''
          else None)"

definition can_inject :: "string \<Rightarrow> string \<Rightarrow> string \<Rightarrow> string option" where
  "can_inject session_id lease_id role = can_perform ''input_inject'' role (lease_id \<noteq> '''') True"

subsection \<open>Properties\<close>

lemma hijack_cap: "has_capability p ''session.control.hijack'' \<Longrightarrow> ''admin'' \<in> pr_roles p"
  by (auto simp: has_capability_def capabilities_for_def ROLE_CAPABILITIES_def Let_def viewer_caps_def
      operator_caps_def split: if_splits)

lemma admin_confined:
  "pr_admin_session_scope p = Some sid \<Longrightarrow> sid \<noteq> sd_session_id s \<Longrightarrow> \<not> is_owner p s \<Longrightarrow> \<not> can_mutate_session p s a"
  by (auto simp: can_mutate_session_def is_admin_for_session_def is_owner_def split: option.splits)


definition demo_share_operator :: principal where
  "demo_share_operator = \<lparr>pr_subject_id = ''share:a:operator'', pr_tenant_id = None, pr_roles = {''admin''},
     pr_scopes = {}, pr_claims = [], pr_display_name = None, pr_admin_session_scope = Some ''a'', pr_tunnel_share = True\<rparr>"


text \<open>The webhook policy fails closed: any error, other status, bad signature or malformed body denies.\<close>

lemma webhook_check_iff:
  "webhook_check loads verify required resp \<longleftrightarrow>
     (\<exists>r d v. resp = Some r \<and> re_status r = 200 \<and> (required \<longrightarrow> verify (re_content r) (re_signature r) (re_timestamp r)) \<and>
        loads (re_content r) = Some (JObj d) \<and> od_get d ALLOW_KEY = Some v \<and> truthy v)"
  by (auto simp: webhook_check_def response_signature_ok_def split: option.splits json.splits if_splits)

text \<open>The operation policy is monotone in the role, the lease and the activity of the session.\<close>

lemma can_perform_monotone:
  assumes "can_perform op role lease act = None" "role_rank role \<le> role_rank role'" "lease \<longrightarrow> lease'" "act \<longrightarrow> act'"
  shows "can_perform op role' lease' act' = None"
  using assms by (auto simp: can_perform_def split: option.splits if_splits)

lemma can_inject_iff: "can_inject sid lid role = None \<longleftrightarrow> 1 \<le> role_rank role \<and> lid \<noteq> ''''"
  by (auto simp: can_perform_def can_inject_def op_min_role_def role_rank_def ROLE_RANK_def split: option.splits if_splits)

text \<open>A response the webhook did not sign grants neither a permission nor a capability when signatures are
  required, but it does assign a browser's role: \<open>resolve_browser_role\<close> never looks at the
  signature, so whoever can answer in the webhook's place makes any browser an administrator of
  any session.\<close>

theorem webhook_role_unsigned:
  assumes "re_status r = 200" "loads (re_content r) = Some (JObj d)" "od_get d ROLE_KEY = Some v"
    "clean v = ''admin''" "\<not> verify (re_content r) (re_signature r) (re_timestamp r)"
  shows "\<not> webhook_check loads verify (require_signed True ''secret'') (Some r) \<and>
    webhook_capabilities_for loads verify elements (require_signed True ''secret'') (Some r) = {} \<and>
    webhook_resolve_browser_role loads clean (Some r) = ''admin''"
  using assms
  by (simp add: webhook_check_iff webhook_capabilities_for_def webhook_resolve_browser_role_def require_signed_def
      response_signature_ok_def filter_known_single KNOWN_ROLES_def first_role_def)

theorem webhook_role_unsigned_witness:
  "webhook_resolve_browser_role (\<lambda>_. Some (JObj [(ROLE_KEY, JStr [])])) (\<lambda>_. ''admin'')
     (Some \<lparr>re_status = 200, re_content = [], re_signature = None, re_timestamp = None\<rparr>) = ''admin''"
  using webhook_role_unsigned [of "\<lparr>re_status = 200, re_content = [], re_signature = None, re_timestamp = None\<rparr>"
      "\<lambda>_. Some (JObj [(ROLE_KEY, JStr [])])" "[(ROLE_KEY, JStr [])]" "JStr []" "\<lambda>_. ''admin''" "\<lambda>_ _ _. False" "\<lambda>_. None"]
  by simp

end
