(* ===== verification/ShareViewers.thy ===== *)
theory ShareViewers
  imports Authz
begin

text \<open>
  Revoking share viewers: the cutoff tables of \<open>AuthorizationService\<close> (\<open>server/authorization.py\<close>)
  and the read checks that consult them ahead of whatever provider is plugged in. Dictionaries are
  association lists because their insertion order is the revocation order the code relies on; a
  Python dictionary used as an ordered set has unit values. A lookup the code makes without a default
  is a \<open>KeyError\<close> here, and \<open>revocations_ok\<close> is the invariant that rules it out.
\<close>

subsection \<open>State\<close>

definition VIEWER_REVOCATIONS_MAX :: nat where "VIEWER_REVOCATIONS_MAX = 10000"
definition VIEWER_REVOCATIONS_PER_PRINCIPAL_MAX :: nat where "VIEWER_REVOCATIONS_PER_PRINCIPAL_MAX = 100"
definition VIEWER_REVOCATION_TTL_S :: real where "VIEWER_REVOCATION_TTL_S = 86400"
definition VIEWER_SUBJECT_REVOCATIONS_PER_SESSION_MAX :: nat where
  "VIEWER_SUBJECT_REVOCATIONS_PER_SESSION_MAX = 100"
definition VIEWER_SUBJECT_REVOCATIONS_MAX :: nat where "VIEWER_SUBJECT_REVOCATIONS_MAX = 10000"

lemmas limit_defs = VIEWER_REVOCATIONS_MAX_def VIEWER_REVOCATIONS_PER_PRINCIPAL_MAX_def
  VIEWER_REVOCATION_TTL_S_def VIEWER_SUBJECT_REVOCATIONS_PER_SESSION_MAX_def VIEWER_SUBJECT_REVOCATIONS_MAX_def

type_synonym 'k oset = "('k \<times> unit) list"

record authz_service =
  sv_revocations :: "(string \<times> time) list"
  sv_revokers :: "(string \<times> string) list"
  sv_revoked_by :: "(string \<times> string oset) list"
  sv_subject_revocations :: "((string \<times> string) \<times> time) list"
  sv_revoked_subjects :: "(string \<times> string oset) list"

definition new_authz_service :: authz_service where
  "new_authz_service = \<lparr>sv_revocations = [], sv_revokers = [], sv_revoked_by = [],
     sv_subject_revocations = [], sv_revoked_subjects = []\<rparr>"

datatype sv_error = KeyError | RevocationsFull | SubjectRevocationsFull

subsection \<open>Dropping cutoffs\<close>

text \<open>\<open>m = d[k]; del m[x]; if not m: del d[k]\<close>, which both tables end with.\<close>

definition unindex :: "(string \<times> string oset) list \<Rightarrow> string \<Rightarrow> string \<Rightarrow> (string \<times> string oset) list option" where
  "unindex d k x =
     (case od_get d k of
        None \<Rightarrow> None
      | Some m \<Rightarrow>
          if od_get m x = None then None
          else (let m' = od_pop m x in Some (if m' = [] then od_pop d k else od_set d k m')))"

text \<open>\<open>d.setdefault(k, {})[x] = None\<close>\<close>

definition index_add :: "(string \<times> string oset) list \<Rightarrow> string \<Rightarrow> string \<Rightarrow> (string \<times> string oset) list" where
  "index_add d k x = od_set d k (od_set (case od_get d k of None \<Rightarrow> [] | Some m \<Rightarrow> m) x ())"

text \<open>The elements of \<open>d.get(k, {})\<close>, oldest first.\<close>

definition members :: "(string \<times> string oset) list \<Rightarrow> string \<Rightarrow> string list" where
  "members d k = map fst (case od_get d k of None \<Rightarrow> [] | Some m \<Rightarrow> m)"

definition drop_viewer_revocation :: "authz_service \<Rightarrow> string \<Rightarrow> sv_error + authz_service" where
  "drop_viewer_revocation s sid =
     (let s1 = s\<lparr>sv_revocations := od_pop (sv_revocations s) sid, sv_revokers := od_pop (sv_revokers s) sid\<rparr>
      in case od_get (sv_revokers s) sid of
           None \<Rightarrow> Inr s1
         | Some revoker \<Rightarrow>
             (case unindex (sv_revoked_by s) revoker sid of
                None \<Rightarrow> Inl KeyError
              | Some d \<Rightarrow> Inr (s1\<lparr>sv_revoked_by := d\<rparr>)))"

definition drop_viewer_subject :: "authz_service \<Rightarrow> string \<Rightarrow> string \<Rightarrow> sv_error + authz_service" where
  "drop_viewer_subject s sid subject =
     (if od_get (sv_subject_revocations s) (sid, subject) = None then Inr s
      else
        let s1 = s\<lparr>sv_subject_revocations := od_pop (sv_subject_revocations s) (sid, subject)\<rparr>
        in case unindex (sv_revoked_subjects s) sid subject of
             None \<Rightarrow> Inl KeyError
           | Some d \<Rightarrow> Inr (s1\<lparr>sv_revoked_subjects := d\<rparr>))"

text \<open>The \<open>while\<close> loops that drop stale entries from the front.\<close>

lemma drop_shorter:
  "drop_viewer_revocation s k = Inr s' \<Longrightarrow> sv_revocations s = (k, c) # r \<Longrightarrow> sv_revocations s' = r"
  by (auto simp: drop_viewer_revocation_def Let_def split: option.splits)

lemma drop_subject_shorter:
  "drop_viewer_subject s a b = Inr s' \<Longrightarrow> sv_subject_revocations s = ((a, b), c) # r \<Longrightarrow> sv_subject_revocations s' = r"
  by (auto simp: drop_viewer_subject_def Let_def split: option.splits if_splits)

function prune_revocations :: "time \<Rightarrow> authz_service \<Rightarrow> sv_error + authz_service" where
  "prune_revocations cutoff s =
     (case sv_revocations s of
        [] \<Rightarrow> Inr s
      | (oldest, c) # r \<Rightarrow>
          if c < cutoff - VIEWER_REVOCATION_TTL_S then
            (case drop_viewer_revocation s oldest of Inl e \<Rightarrow> Inl e | Inr s' \<Rightarrow> prune_revocations cutoff s')
          else Inr s)"
  by pat_completeness auto
termination
  by (relation "measure (\<lambda>(c, s). length (sv_revocations s))") (auto dest: drop_shorter)

function prune_subjects :: "time \<Rightarrow> authz_service \<Rightarrow> sv_error + authz_service" where
  "prune_subjects cutoff s =
     (case sv_subject_revocations s of
        [] \<Rightarrow> Inr s
      | ((sid, subject), c) # r \<Rightarrow>
          if c < cutoff - VIEWER_REVOCATION_TTL_S then
            (case drop_viewer_subject s sid subject of Inl e \<Rightarrow> Inl e | Inr s' \<Rightarrow> prune_subjects cutoff s')
          else Inr s)"
  by pat_completeness auto
termination
  by (relation "measure (\<lambda>(c, s). length (sv_subject_revocations s))") (auto dest: drop_subject_shorter)

declare prune_revocations.simps [simp del] prune_subjects.simps [simp del]

text \<open>The loop of a session revoke over the session's subjects, and that of a deletion.\<close>

fun drop_subsumed :: "authz_service \<Rightarrow> string \<Rightarrow> time \<Rightarrow> string list \<Rightarrow> sv_error + authz_service" where
  "drop_subsumed s sid cutoff [] = Inr s"
| "drop_subsumed s sid cutoff (subject # subjects) =
     (case od_get (sv_subject_revocations s) (sid, subject) of
        None \<Rightarrow> Inl KeyError
      | Some c \<Rightarrow>
          if c \<le> cutoff then
            (case drop_viewer_subject s sid subject of Inl e \<Rightarrow> Inl e | Inr s' \<Rightarrow> drop_subsumed s' sid cutoff subjects)
          else drop_subsumed s sid cutoff subjects)"

fun drop_subjects :: "authz_service \<Rightarrow> string \<Rightarrow> string list \<Rightarrow> sv_error + authz_service" where
  "drop_subjects s sid [] = Inr s"
| "drop_subjects s sid (subject # subjects) =
     (case drop_viewer_subject s sid subject of Inl e \<Rightarrow> Inl e | Inr s' \<Rightarrow> drop_subjects s' sid subjects)"

subsection \<open>Recording cutoffs\<close>

text \<open>
  \<open>revoke_share_viewers\<close>, in the stages of its body. The first decides what goes to make room: the
  session's own cutoff and, when it is new and its revoker holds a full quota, that revoker's oldest.
\<close>

definition make_room :: "authz_service \<Rightarrow> string \<Rightarrow> string option \<Rightarrow> sv_error + (authz_service \<times> string option)" where
  "make_room s sid revoker =
     (case drop_viewer_revocation s sid of
        Inl e \<Rightarrow> Inl e
      | Inr s1 \<Rightarrow>
          (case revoker of
             None \<Rightarrow> Inr (s1, None)
           | Some r \<Rightarrow>
               if od_get (sv_revocations s) sid \<noteq> None then Inr (s1, None)
               else
                 (let mine = members (sv_revoked_by s1) r
                  in if VIEWER_REVOCATIONS_PER_PRINCIPAL_MAX \<le> length mine then
                       (let evicted = hd mine
                        in case drop_viewer_revocation s1 evicted of
                             Inl e \<Rightarrow> Inl e
                           | Inr s2 \<Rightarrow> Inr (s2, Some evicted))
                     else Inr (s1, None))))"

definition record_cutoff :: "authz_service \<Rightarrow> string \<Rightarrow> time \<Rightarrow> string option \<Rightarrow> authz_service" where
  "record_cutoff s sid cutoff owner =
     (let s1 = s\<lparr>sv_revocations := od_set (sv_revocations s) sid cutoff\<rparr>
      in case owner of
           None \<Rightarrow> s1
         | Some r \<Rightarrow> s1\<lparr>sv_revokers := od_set (sv_revokers s) sid r, sv_revoked_by := index_add (sv_revoked_by s) r sid\<rparr>)"

definition revoke_share_viewers ::
  "authz_service \<Rightarrow> string \<Rightarrow> time \<Rightarrow> string option \<Rightarrow> (sv_error + time \<times> string option) \<times> authz_service" where
  "revoke_share_viewers s sid cutoff revoker =
     (case prune_revocations cutoff s of
        Inl e \<Rightarrow> (Inl e, s)
      | Inr s1 \<Rightarrow>
          (let seen = od_get (sv_revocations s1) sid \<noteq> None;
               owner = (if seen then od_get (sv_revokers s1) sid else revoker)
           in case make_room s1 sid revoker of
                Inl e \<Rightarrow> (Inl e, s1)
              | Inr (s2, evicted) \<Rightarrow>
                  if \<not> seen \<and> VIEWER_REVOCATIONS_MAX \<le> length (sv_revocations s2) then (Inl RevocationsFull, s2)
                  else
                    (let s3 = record_cutoff s2 sid cutoff owner
                     in case drop_subsumed s3 sid cutoff (members (sv_revoked_subjects s3) sid) of
                          Inl e \<Rightarrow> (Inl e, s3)
                        | Inr s4 \<Rightarrow> (Inr (cutoff, evicted), s4))))"

definition revoke_share_viewer_subject ::
  "authz_service \<Rightarrow> string \<Rightarrow> string \<Rightarrow> time \<Rightarrow> (sv_error + time) \<times> authz_service" where
  "revoke_share_viewer_subject s sid subject cutoff =
     (case prune_subjects cutoff s of
        Inl e \<Rightarrow> (Inl e, s)
      | Inr s1 \<Rightarrow>
          (let held = members (sv_revoked_subjects s1) sid
           in if subject \<notin> set held \<and> VIEWER_SUBJECT_REVOCATIONS_PER_SESSION_MAX \<le> length held
              then (Inl SubjectRevocationsFull, s1)
              else if subject \<notin> set held \<and> VIEWER_SUBJECT_REVOCATIONS_MAX \<le> length (sv_subject_revocations s1)
              then (Inl RevocationsFull, s1)
              else case drop_viewer_subject s1 sid subject of
                     Inl e \<Rightarrow> (Inl e, s1)
                   | Inr s2 \<Rightarrow>
                       (Inr cutoff,
                        s2\<lparr>sv_subject_revocations := od_set (sv_subject_revocations s2) (sid, subject) cutoff,
                           sv_revoked_subjects := index_add (sv_revoked_subjects s2) sid subject\<rparr>)))"

definition forget_share_viewers :: "authz_service \<Rightarrow> string \<Rightarrow> sv_error + authz_service" where
  "forget_share_viewers s sid =
     (case drop_viewer_revocation s sid of
        Inl e \<Rightarrow> Inl e
      | Inr s1 \<Rightarrow> drop_subjects s1 sid (members (sv_revoked_subjects s1) sid))"

definition revoked_sessions :: "authz_service \<Rightarrow> string list" where
  "revoked_sessions s = rev (remdups (rev (map fst (sv_revocations s) @ map fst (sv_revoked_subjects s))))"

subsection \<open>Reading\<close>

definition is_share_viewer :: "principal \<Rightarrow> string \<Rightarrow> bool" where
  "is_share_viewer p sid \<longleftrightarrow>
     prefix (share_prefix sid) (pr_subject_id p) \<and> \<not> pr_tunnel_share p \<and>
     pr_roles p \<subseteq> {''viewer''} \<and> pr_admin_session_scope p = None"

definition issued_at :: "principal \<Rightarrow> time option" where
  "issued_at p =
     (case od_get (pr_claims p) ''iat'' of
        Some (ClInt i) \<Rightarrow> Some (real_of_int i)
      | Some (ClFloat x) \<Rightarrow> Some x
      | _ \<Rightarrow> None)"

definition latest :: "time option \<Rightarrow> time option \<Rightarrow> time option" where
  "latest a b =
     (case a of None \<Rightarrow> b | Some x \<Rightarrow> (case b of None \<Rightarrow> a | Some y \<Rightarrow> Some (max x y)))"

definition share_viewer_revocation :: "authz_service \<Rightarrow> string \<Rightarrow> time option" where
  "share_viewer_revocation s sid = od_get (sv_revocations s) sid"

definition share_viewer_subject_revocation :: "authz_service \<Rightarrow> string \<Rightarrow> string \<Rightarrow> time option" where
  "share_viewer_subject_revocation s sid subject = od_get (sv_subject_revocations s) (sid, subject)"

definition share_viewer_revoked :: "authz_service \<Rightarrow> principal \<Rightarrow> string \<Rightarrow> bool" where
  "share_viewer_revoked s p sid =
     (case latest (share_viewer_revocation s sid) (share_viewer_subject_revocation s sid (pr_subject_id p)) of
        None \<Rightarrow> False
      | Some cutoff \<Rightarrow>
          if \<not> is_share_viewer p sid then False
          else (case issued_at p of None \<Rightarrow> True | Some issued \<Rightarrow> issued \<le> cutoff))"

text \<open>A provider may lack any method; the service then falls back to the built-in policy.\<close>

record provider =
  pv_can_read_session :: "(principal \<Rightarrow> session_def \<Rightarrow> bool) option"
  pv_can_read_recording :: "(principal \<Rightarrow> session_def \<Rightarrow> bool) option"
  pv_can_mutate_session :: "(principal \<Rightarrow> session_def \<Rightarrow> string \<Rightarrow> bool) option"
  pv_can_create_session :: "(principal \<Rightarrow> bool) option"
  pv_is_admin :: "(principal \<Rightarrow> bool) option"
  pv_is_owner :: "(principal \<Rightarrow> session_def \<Rightarrow> bool) option"
  pv_can_read_profile :: "(principal \<Rightarrow> profile \<Rightarrow> bool) option"
  pv_can_mutate_profile :: "(principal \<Rightarrow> profile \<Rightarrow> bool) option"
  pv_capabilities_for :: "(principal \<Rightarrow> string set) option"
  pv_has_capability :: "(principal \<Rightarrow> string \<Rightarrow> bool) option"
  pv_resolve_browser_role :: "(principal \<Rightarrow> session_def \<Rightarrow> string) option"

abbreviation method_or :: "'m option \<Rightarrow> 'm \<Rightarrow> 'm" where
  "method_or m local_method \<equiv> (case m of None \<Rightarrow> local_method | Some f \<Rightarrow> f)"

definition svc_can_read_session :: "provider \<Rightarrow> authz_service \<Rightarrow> principal \<Rightarrow> session_def \<Rightarrow> bool" where
  "svc_can_read_session pv s p sd =
     (if share_viewer_revoked s p (sd_session_id sd) then False
      else method_or (pv_can_read_session pv) can_read_session p sd)"

definition svc_can_read_recording :: "provider \<Rightarrow> authz_service \<Rightarrow> principal \<Rightarrow> session_def \<Rightarrow> bool" where
  "svc_can_read_recording pv s p sd =
     (if share_viewer_revoked s p (sd_session_id sd) then False
      else method_or (pv_can_read_recording pv) can_read_recording p sd)"

definition svc_can_mutate_session :: "provider \<Rightarrow> principal \<Rightarrow> session_def \<Rightarrow> string \<Rightarrow> bool" where
  "svc_can_mutate_session pv p sd a = method_or (pv_can_mutate_session pv) can_mutate_session p sd a"

definition svc_can_create_session :: "provider \<Rightarrow> principal \<Rightarrow> bool" where
  "svc_can_create_session pv p = method_or (pv_can_create_session pv) can_create_session p"

definition svc_is_admin :: "provider \<Rightarrow> principal \<Rightarrow> bool" where
  "svc_is_admin pv p = method_or (pv_is_admin pv) is_admin p"

definition svc_is_owner :: "provider \<Rightarrow> principal \<Rightarrow> session_def \<Rightarrow> bool" where
  "svc_is_owner pv p sd = method_or (pv_is_owner pv) is_owner p sd"

definition svc_can_read_profile :: "provider \<Rightarrow> principal \<Rightarrow> profile \<Rightarrow> bool" where
  "svc_can_read_profile pv p f = method_or (pv_can_read_profile pv) can_read_profile p f"

definition svc_can_mutate_profile :: "provider \<Rightarrow> principal \<Rightarrow> profile \<Rightarrow> bool" where
  "svc_can_mutate_profile pv p f = method_or (pv_can_mutate_profile pv) can_mutate_profile p f"

definition svc_capabilities_for :: "provider \<Rightarrow> principal \<Rightarrow> string set" where
  "svc_capabilities_for pv p = method_or (pv_capabilities_for pv) capabilities_for p"

definition svc_has_role :: "principal \<Rightarrow> string \<Rightarrow> bool" where
  "svc_has_role p role \<longleftrightarrow> role \<in> pr_roles p"

definition svc_has_capability :: "provider \<Rightarrow> principal \<Rightarrow> string \<Rightarrow> bool" where
  "svc_has_capability pv p c =
     (case pv_has_capability pv of None \<Rightarrow> c \<in> svc_capabilities_for pv p | Some f \<Rightarrow> f p c)"

definition svc_resolve_browser_role :: "provider \<Rightarrow> principal \<Rightarrow> session_def \<Rightarrow> string" where
  "svc_resolve_browser_role pv p sd = method_or (pv_resolve_browser_role pv) resolve_browser_role p sd"

subsection \<open>The index tables\<close>

definition index_ok :: "(string \<times> string oset) list \<Rightarrow> bool" where
  "index_ok d \<longleftrightarrow> od_ok d \<and> (\<forall>k m. od_get d k = Some m \<longrightarrow> od_ok m)"

lemma keys_pop: "map fst (od_pop m x) = remove1 x (map fst m)"
  by (induction m x rule: od_pop.induct) auto

lemma length_remove1_less: "x \<in> set xs \<Longrightarrow> length (remove1 x xs) < length xs"
  by (induction xs) auto

lemma keys_set: "map fst (od_set m x v) = (if x \<in> set (map fst m) then map fst m else map fst m @ [x])"
  by (induction m x v rule: od_set.induct) auto

lemma unindex_ok:
  assumes "index_ok d" "x \<in> set (members d k)"
  obtains d' where "unindex d k x = Some d'" "index_ok d'"
    "\<And>k'. members d' k' = (if k' = k then remove1 x (members d k) else members d k')"
proof -
  obtain m where m: "od_get d k = Some m" "x \<in> fst ` set m"
    using assms(2) by (cases "od_get d k") (auto simp: members_def)
  then have g: "od_get m x \<noteq> None" by (simp add: od_get_None)
  have ok: "od_ok d" "od_ok m" using assms(1) m(1) by (auto simp: index_ok_def)
  define m' where "m' = od_pop m x"
  have m': "od_ok m'" "map fst m' = remove1 x (map fst m)" using ok(2) by (auto simp: m'_def od_ok_pop keys_pop)
  let ?d = "if m' = [] then od_pop d k else od_set d k m'"
  have "unindex d k x = Some ?d" using m(1) g by (simp add: unindex_def m'_def Let_def)
  moreover have "index_ok ?d"
    using assms(1) ok m' by (auto simp: index_ok_def od_ok_pop od_ok_set split: if_splits)
  moreover have "members ?d k' = (if k' = k then remove1 x (members d k) else members d k')" for k'
    using ok m' m(1) by (auto simp: members_def)
  ultimately show ?thesis by (rule that)
qed

lemma index_add_ok: "index_ok d \<Longrightarrow> index_ok (index_add d k x)"
  by (auto simp: index_ok_def index_add_def od_ok_set split: option.splits)

lemma index_add_members [simp]:
  "members (index_add d k x) k' =
     (if k' = k then (if x \<in> set (members d k) then members d k else members d k @ [x]) else members d k')"
  by (auto simp: members_def index_add_def keys_set split: option.splits)

lemma members_distinct: "index_ok d \<Longrightarrow> distinct (members d k)"
  by (auto simp: members_def index_ok_def split: option.splits)

subsection \<open>The invariant\<close>

text \<open>
  Both halves say the same of their tables: the reverse index lists exactly the entries it should.
  The bounds are what the code promises of its memory.
\<close>

definition viewers_ok :: "authz_service \<Rightarrow> bool" where
  "viewers_ok s \<longleftrightarrow>
     od_ok (sv_revocations s) \<and> od_ok (sv_revokers s) \<and> index_ok (sv_revoked_by s) \<and>
     (\<forall>sid r. od_get (sv_revokers s) sid = Some r \<longleftrightarrow> sid \<in> set (members (sv_revoked_by s) r)) \<and>
     (\<forall>sid. od_get (sv_revokers s) sid \<noteq> None \<longrightarrow> od_get (sv_revocations s) sid \<noteq> None)"

definition subjects_ok :: "authz_service \<Rightarrow> bool" where
  "subjects_ok s \<longleftrightarrow>
     od_ok (sv_subject_revocations s) \<and> index_ok (sv_revoked_subjects s) \<and>
     (\<forall>sid x. od_get (sv_subject_revocations s) (sid, x) \<noteq> None \<longleftrightarrow> x \<in> set (members (sv_revoked_subjects s) sid))"

definition within_bounds :: "authz_service \<Rightarrow> bool" where
  "within_bounds s \<longleftrightarrow>
     length (sv_revocations s) \<le> VIEWER_REVOCATIONS_MAX \<and>
     (\<forall>r. length (members (sv_revoked_by s) r) \<le> VIEWER_REVOCATIONS_PER_PRINCIPAL_MAX) \<and>
     length (sv_subject_revocations s) \<le> VIEWER_SUBJECT_REVOCATIONS_MAX \<and>
     (\<forall>sid. length (members (sv_revoked_subjects s) sid) \<le> VIEWER_SUBJECT_REVOCATIONS_PER_SESSION_MAX)"

definition service_ok :: "authz_service \<Rightarrow> bool" where
  "service_ok s \<longleftrightarrow> viewers_ok s \<and> subjects_ok s \<and> within_bounds s"

lemma service_ok_new [simp]: "service_ok new_authz_service"
  by (simp add: service_ok_def viewers_ok_def subjects_ok_def within_bounds_def index_ok_def members_def
      new_authz_service_def)

text \<open>
  \<open>shrinks s s'\<close>: cutoffs were dropped and nothing else happened. What is left of either table is as
  it was, and the order of the session table is kept.
\<close>

definition shrinks :: "authz_service \<Rightarrow> authz_service \<Rightarrow> bool" where
  "shrinks s s' \<longleftrightarrow>
     service_ok s' \<and>
     (\<forall>sid. od_get (sv_revocations s') sid = None \<and> od_get (sv_revokers s') sid = None \<or>
            od_get (sv_revocations s') sid = od_get (sv_revocations s) sid \<and>
            od_get (sv_revokers s') sid = od_get (sv_revokers s) sid) \<and>
     (\<forall>k. od_get (sv_subject_revocations s') k = None \<or>
          od_get (sv_subject_revocations s') k = od_get (sv_subject_revocations s) k) \<and>
     length (sv_revocations s') \<le> length (sv_revocations s) \<and>
     length (sv_subject_revocations s') \<le> length (sv_subject_revocations s)"

lemma shrinks_refl: "service_ok s \<Longrightarrow> shrinks s s"
  by (simp add: shrinks_def)

lemma shrinks_trans:
  assumes "shrinks s t" "shrinks t u" shows "shrinks s u"
proof -
  have "od_get (sv_revocations u) sid = None \<and> od_get (sv_revokers u) sid = None \<or>
      od_get (sv_revocations u) sid = od_get (sv_revocations s) sid \<and>
      od_get (sv_revokers u) sid = od_get (sv_revokers s) sid" for sid
    using assms unfolding shrinks_def by metis
  moreover have "od_get (sv_subject_revocations u) k = None \<or>
      od_get (sv_subject_revocations u) k = od_get (sv_subject_revocations s) k" for k
    using assms unfolding shrinks_def by metis
  ultimately show ?thesis using assms by (auto simp: shrinks_def)
qed

lemma drop_revocation_ok:
  assumes "service_ok s"
  obtains s' where "drop_viewer_revocation s sid = Inr s'" "shrinks s s'"
    "sv_revocations s' = od_pop (sv_revocations s) sid" "sv_revokers s' = od_pop (sv_revokers s) sid"
    "sv_subject_revocations s' = sv_subject_revocations s" "sv_revoked_subjects s' = sv_revoked_subjects s"
    "\<And>r. members (sv_revoked_by s') r = (if od_get (sv_revokers s) sid = Some r
        then remove1 sid (members (sv_revoked_by s) r) else members (sv_revoked_by s) r)"
proof -
  have v: "viewers_ok s" and sj: "subjects_ok s" and b: "within_bounds s"
    using assms by (auto simp: service_ok_def)
  then have R: "od_ok (sv_revocations s)" and K: "od_ok (sv_revokers s)" and B: "index_ok (sv_revoked_by s)"
    and idx: "\<And>sid r. od_get (sv_revokers s) sid = Some r \<longleftrightarrow> sid \<in> set (members (sv_revoked_by s) r)"
    by (auto simp: viewers_ok_def)
  have "\<exists>d. (case od_get (sv_revokers s) sid of None \<Rightarrow> Some (sv_revoked_by s)
        | Some r \<Rightarrow> unindex (sv_revoked_by s) r sid) = Some d \<and> index_ok d \<and>
      (\<forall>r. members d r = (if od_get (sv_revokers s) sid = Some r
        then remove1 sid (members (sv_revoked_by s) r) else members (sv_revoked_by s) r))"
  proof (cases "od_get (sv_revokers s) sid")
    case (Some r)
    then have "sid \<in> set (members (sv_revoked_by s) r)" using idx by simp
    from unindex_ok [OF B this] obtain d where "unindex (sv_revoked_by s) r sid = Some d" "index_ok d"
      "\<And>k. members d k = (if k = r then remove1 sid (members (sv_revoked_by s) r) else members (sv_revoked_by s) k)"
      by blast
    with Some show ?thesis by auto
  qed (use B in auto)
  then obtain d where d: "(case od_get (sv_revokers s) sid of None \<Rightarrow> Some (sv_revoked_by s)
        | Some r \<Rightarrow> unindex (sv_revoked_by s) r sid) = Some d" "index_ok d"
    "\<And>r. members d r = (if od_get (sv_revokers s) sid = Some r
        then remove1 sid (members (sv_revoked_by s) r) else members (sv_revoked_by s) r)" by blast
  define s' where "s' = s\<lparr>sv_revocations := od_pop (sv_revocations s) sid, sv_revokers := od_pop (sv_revokers s) sid,
      sv_revoked_by := d\<rparr>"
  have "drop_viewer_revocation s sid = Inr s'"
    using d(1) by (auto simp: drop_viewer_revocation_def s'_def Let_def split: option.splits)
  have m: "set (members d r) = {x \<in> set (members (sv_revoked_by s) r). x \<noteq> sid}" for r
    using d(3) [of r] idx [of sid r] members_distinct [OF B, of r] by auto
  have "viewers_ok s'"
    using v R K d(2) m by (auto simp: viewers_ok_def s'_def od_ok_pop)
  moreover have "length (members d r) \<le> length (members (sv_revoked_by s) r)" for r
    using d(3) [of r] by (simp add: length_remove1)
  then have "within_bounds s'"
    using b by (auto simp: within_bounds_def s'_def intro: le_trans [OF length_od_pop_le] le_trans)
  moreover have "subjects_ok s'" using sj by (simp add: subjects_ok_def s'_def)
  ultimately have "service_ok s'" by (simp add: service_ok_def)
  then have "shrinks s s'" using R K by (simp add: shrinks_def s'_def length_od_pop)
  then show ?thesis
    using that [of s'] \<open>drop_viewer_revocation s sid = Inr s'\<close> d(3) by (simp add: s'_def)
qed

lemma drop_subject_ok:
  assumes "service_ok s"
  obtains s' where "drop_viewer_subject s sid x = Inr s'" "shrinks s s'"
    "sv_subject_revocations s' = od_pop (sv_subject_revocations s) (sid, x)"
    "sv_revocations s' = sv_revocations s" "sv_revokers s' = sv_revokers s" "sv_revoked_by s' = sv_revoked_by s"
    "\<And>k. members (sv_revoked_subjects s') k = (if k = sid then remove1 x (members (sv_revoked_subjects s) k)
        else members (sv_revoked_subjects s) k)"
proof -
  have v: "viewers_ok s" and sj: "subjects_ok s" and b: "within_bounds s"
    using assms by (auto simp: service_ok_def)
  then have S: "od_ok (sv_subject_revocations s)" and B: "index_ok (sv_revoked_subjects s)"
    and idx: "\<And>sid x. od_get (sv_subject_revocations s) (sid, x) \<noteq> None \<longleftrightarrow> x \<in> set (members (sv_revoked_subjects s) sid)"
    by (auto simp: subjects_ok_def)
  show ?thesis
  proof (cases "od_get (sv_subject_revocations s) (sid, x) = None")
    case True
    then have "od_pop (sv_subject_revocations s) (sid, x) = sv_subject_revocations s"
      by (simp add: od_get_None od_pop_absent)
    moreover have "x \<notin> set (members (sv_revoked_subjects s) sid)" using True idx by blast
    ultimately show ?thesis
      using that [of s] True shrinks_refl [OF assms] by (simp add: drop_viewer_subject_def remove1_idem)
  next
    case False
    then have "x \<in> set (members (sv_revoked_subjects s) sid)" using idx by blast
    from unindex_ok [OF B this] obtain d where d: "unindex (sv_revoked_subjects s) sid x = Some d" "index_ok d"
      and md: "\<And>k. members d k = (if k = sid then remove1 x (members (sv_revoked_subjects s) sid) else members (sv_revoked_subjects s) k)"
      by blast
    define s' where "s' = s\<lparr>sv_subject_revocations := od_pop (sv_subject_revocations s) (sid, x), sv_revoked_subjects := d\<rparr>"
    have m: "y \<in> set (members d k) \<longleftrightarrow> y \<in> set (members (sv_revoked_subjects s) k) \<and> (k, y) \<noteq> (sid, x)" for k y
      using md [of k] members_distinct [OF B, of sid] by auto
    have "subjects_ok s'"
      using S d(2) idx m by (auto simp: subjects_ok_def s'_def od_ok_pop)
    moreover have "length (members d k) \<le> length (members (sv_revoked_subjects s) k)" for k
      using md [of k] by (simp add: length_remove1)
    then have "within_bounds s'"
      using b by (auto simp: within_bounds_def s'_def intro: le_trans [OF length_od_pop_le] le_trans)
    moreover have "viewers_ok s'" using v by (simp add: viewers_ok_def s'_def)
    ultimately have "service_ok s'" by (simp add: service_ok_def)
    then have "shrinks s s'" using S by (simp add: shrinks_def s'_def length_od_pop)
    moreover have "drop_viewer_subject s sid x = Inr s'"
      using False d(1) by (auto simp: drop_viewer_subject_def s'_def Let_def)
    ultimately show ?thesis using that [of s'] md by (simp add: s'_def)
  qed
qed

subsection \<open>The loops\<close>

lemma prune_revocations_ok:
  "service_ok s \<Longrightarrow> \<exists>s'. prune_revocations cutoff s = Inr s' \<and> shrinks s s' \<and>
     sv_subject_revocations s' = sv_subject_revocations s \<and> sv_revoked_subjects s' = sv_revoked_subjects s \<and>
     sv_revocations s' = dropWhile (\<lambda>(k, c). c < cutoff - VIEWER_REVOCATION_TTL_S) (sv_revocations s)"
proof (induction cutoff s rule: prune_revocations.induct)
  case (1 cutoff s)
  show ?case
  proof (cases "sv_revocations s")
    case Nil
    then show ?thesis using 1 by (simp add: prune_revocations.simps [of cutoff s] shrinks_refl)
  next
    case (Cons e r)
    obtain oldest c where e: "e = (oldest, c)" by (cases e)
    show ?thesis
    proof (cases "c < cutoff - VIEWER_REVOCATION_TTL_S")
      case True
      obtain s1 where s1: "drop_viewer_revocation s oldest = Inr s1" "shrinks s s1" "sv_revocations s1 = r"
        "sv_subject_revocations s1 = sv_subject_revocations s" "sv_revoked_subjects s1 = sv_revoked_subjects s"
        using drop_revocation_ok [OF "1.prems", of oldest] Cons e by (metis od_pop.simps(2))
      from s1(2) have "service_ok s1" by (simp add: shrinks_def)
      from "1.IH" [OF Cons e [symmetric] True s1(1) this] obtain s' where
        "prune_revocations cutoff s1 = Inr s'" "shrinks s1 s'"
        "sv_subject_revocations s' = sv_subject_revocations s" "sv_revoked_subjects s' = sv_revoked_subjects s"
        "sv_revocations s' = dropWhile (\<lambda>(k, c). c < cutoff - VIEWER_REVOCATION_TTL_S) r"
        using s1 by auto
      then show ?thesis
        using True s1 shrinks_trans [OF s1(2)] Cons e by (simp add: prune_revocations.simps [of cutoff s])
    next
      case False
      then show ?thesis using "1.prems" Cons e by (simp add: prune_revocations.simps [of cutoff s] shrinks_refl)
    qed
  qed
qed

lemma prune_subjects_ok:
  "service_ok s \<Longrightarrow> \<exists>s'. prune_subjects cutoff s = Inr s' \<and> shrinks s s' \<and>
     sv_revocations s' = sv_revocations s \<and> sv_revokers s' = sv_revokers s \<and> sv_revoked_by s' = sv_revoked_by s \<and>
     sv_subject_revocations s' = dropWhile (\<lambda>(k, c). c < cutoff - VIEWER_REVOCATION_TTL_S) (sv_subject_revocations s)"
proof (induction cutoff s rule: prune_subjects.induct)
  case (1 cutoff s)
  show ?case
  proof (cases "sv_subject_revocations s")
    case Nil
    then show ?thesis using 1 by (simp add: prune_subjects.simps [of cutoff s] shrinks_refl)
  next
    case (Cons e r)
    obtain sid x c where e: "e = ((sid, x), c)" by (metis prod.exhaust)
    show ?thesis
    proof (cases "c < cutoff - VIEWER_REVOCATION_TTL_S")
      case True
      obtain s1 where s1: "drop_viewer_subject s sid x = Inr s1" "shrinks s s1" "sv_subject_revocations s1 = r"
        "sv_revocations s1 = sv_revocations s" "sv_revokers s1 = sv_revokers s" "sv_revoked_by s1 = sv_revoked_by s"
        using drop_subject_ok [OF "1.prems", of sid x] Cons e by (metis od_pop.simps(2))
      from s1(2) have "service_ok s1" by (simp add: shrinks_def)
      from "1.IH" [OF Cons e [symmetric] refl True s1(1) this] obtain s' where
        "prune_subjects cutoff s1 = Inr s'" "shrinks s1 s'" "sv_revocations s' = sv_revocations s"
        "sv_revokers s' = sv_revokers s" "sv_revoked_by s' = sv_revoked_by s"
        "sv_subject_revocations s' = dropWhile (\<lambda>(k, c). c < cutoff - VIEWER_REVOCATION_TTL_S) r"
        using s1 by auto
      then show ?thesis
        using True s1 shrinks_trans [OF s1(2)] Cons e by (simp add: prune_subjects.simps [of cutoff s])
    next
      case False
      then show ?thesis using "1.prems" Cons e by (simp add: prune_subjects.simps [of cutoff s] shrinks_refl)
    qed
  qed
qed

lemma shrinks_ok: "shrinks s s' \<Longrightarrow> service_ok s'"
  by (simp add: shrinks_def)

lemma drop_subsumed_ok:
  "service_ok s \<Longrightarrow> distinct xs \<Longrightarrow> \<forall>x \<in> set xs. od_get (sv_subject_revocations s) (sid, x) \<noteq> None \<Longrightarrow>
   \<exists>s'. drop_subsumed s sid cutoff xs = Inr s' \<and> shrinks s s' \<and>
     sv_revocations s' = sv_revocations s \<and> sv_revokers s' = sv_revokers s"
proof (induction s sid cutoff xs rule: drop_subsumed.induct)
  case (2 s sid cutoff x xs)
  then obtain c where c: "od_get (sv_subject_revocations s) (sid, x) = Some c" by auto
  show ?case
  proof (cases "c \<le> cutoff")
    case True
    obtain s1 where s1: "drop_viewer_subject s sid x = Inr s1" "shrinks s s1"
      "sv_subject_revocations s1 = od_pop (sv_subject_revocations s) (sid, x)"
      "sv_revocations s1 = sv_revocations s" "sv_revokers s1 = sv_revokers s"
      using drop_subject_ok [OF "2.prems"(1), of sid x] by metis
    have "od_ok (sv_subject_revocations s)" using "2.prems"(1) by (simp add: service_ok_def subjects_ok_def)
    then have "\<forall>y \<in> set xs. od_get (sv_subject_revocations s1) (sid, y) \<noteq> None"
      using "2.prems"(2,3) s1(3) by auto
    then obtain s' where "drop_subsumed s1 sid cutoff xs = Inr s'" "shrinks s1 s'"
      "sv_revocations s' = sv_revocations s1" "sv_revokers s' = sv_revokers s1"
      using "2.IH"(1) [OF c True s1(1) shrinks_ok [OF s1(2)]] "2.prems"(2) by auto
    then show ?thesis using c True s1 shrinks_trans [OF s1(2)] by simp
  next
    case False
    then show ?thesis using "2.IH"(2) [OF c False] "2.prems" c by simp
  qed
qed (simp add: shrinks_refl)

lemma drop_subjects_ok:
  "service_ok s \<Longrightarrow> \<exists>s'. drop_subjects s sid xs = Inr s' \<and> shrinks s s' \<and>
     sv_revocations s' = sv_revocations s \<and> sv_revokers s' = sv_revokers s"
proof (induction s sid xs rule: drop_subjects.induct)
  case (2 s sid x xs)
  obtain s1 where s1: "drop_viewer_subject s sid x = Inr s1" "shrinks s s1"
    "sv_revocations s1 = sv_revocations s" "sv_revokers s1 = sv_revokers s"
    using drop_subject_ok [OF "2.prems", of sid x] by metis
  from "2.IH" [OF s1(1) shrinks_ok [OF s1(2)]] show ?case using s1 shrinks_trans [OF s1(2)] by auto
qed (simp add: shrinks_refl)

subsection \<open>Recording a cutoff\<close>

text \<open>What goes to make room: the session's own entry and at most one entry of the revoker itself.\<close>

lemma make_room_ok:
  assumes ok: "service_ok s"
  obtains s2 ev where "make_room s sid revoker = Inr (s2, ev)" "shrinks s s2"
    "od_get (sv_revocations s2) sid = None"
    "\<And>k. k \<noteq> sid \<Longrightarrow> od_get (sv_revocations s) k \<noteq> None \<Longrightarrow> od_get (sv_revocations s2) k = None \<Longrightarrow>
       revoker \<noteq> None \<and> od_get (sv_revokers s) k = revoker \<and> ev = Some k"
    "\<And>r. revoker = Some r \<Longrightarrow> od_get (sv_revocations s) sid = None \<Longrightarrow>
       length (members (sv_revoked_by s2) r) < VIEWER_REVOCATIONS_PER_PRINCIPAL_MAX"
    "od_get (sv_revocations s) sid \<noteq> None \<Longrightarrow> length (sv_revocations s2) < VIEWER_REVOCATIONS_MAX"
    "\<And>r. od_get (sv_revokers s) sid = Some r \<Longrightarrow> length (members (sv_revoked_by s2) r) < VIEWER_REVOCATIONS_PER_PRINCIPAL_MAX"
proof -
  have v: "viewers_ok s" and b: "within_bounds s" using ok by (auto simp: service_ok_def)
  have R: "od_ok (sv_revocations s)" and idx: "\<And>k r. od_get (sv_revokers s) k = Some r \<longleftrightarrow> k \<in> set (members (sv_revoked_by s) r)"
    using v by (auto simp: viewers_ok_def)
  obtain s1 where s1: "drop_viewer_revocation s sid = Inr s1" "shrinks s s1"
    "sv_revocations s1 = od_pop (sv_revocations s) sid" "sv_revokers s1 = od_pop (sv_revokers s) sid"
    and m1: "\<And>r. members (sv_revoked_by s1) r = (if od_get (sv_revokers s) sid = Some r
        then remove1 sid (members (sv_revoked_by s) r) else members (sv_revoked_by s) r)"
    using drop_revocation_ok [OF ok, of sid] by metis
  note ok1 = shrinks_ok [OF s1(2)]
  have len1: "length (sv_revocations s1) < VIEWER_REVOCATIONS_MAX" if "od_get (sv_revocations s) sid \<noteq> None"
    using that b by (cases "sv_revocations s") (auto simp: s1(3) length_od_pop od_get_None within_bounds_def)
  have own: "length (members (sv_revoked_by s1) r) < VIEWER_REVOCATIONS_PER_PRINCIPAL_MAX"
    if "od_get (sv_revokers s) sid = Some r" for r
  proof -
    have "sid \<in> set (members (sv_revoked_by s) r)" using that idx by simp
    then have "length (members (sv_revoked_by s1) r) < length (members (sv_revoked_by s) r)"
      using m1 [of r] that length_pos_if_in_set [of sid "members (sv_revoked_by s) r"] by (simp add: length_remove1)
    also have "\<dots> \<le> VIEWER_REVOCATIONS_PER_PRINCIPAL_MAX" using b by (simp add: within_bounds_def)
    finally show ?thesis .
  qed
  show ?thesis
  proof (cases "revoker = None \<or> od_get (sv_revocations s) sid \<noteq> None \<or>
      length (members (sv_revoked_by s1) (the revoker)) < VIEWER_REVOCATIONS_PER_PRINCIPAL_MAX")
    case True
    then have "make_room s sid revoker = Inr (s1, None)"
      using s1(1) by (auto simp: make_room_def Let_def split: option.splits)
    then show ?thesis
      by (rule that) (use s1 R len1 own True in auto)
  next
    case False
    then obtain r where r: "revoker = Some r" and new: "od_get (sv_revocations s) sid = None"
      and full: "VIEWER_REVOCATIONS_PER_PRINCIPAL_MAX \<le> length (members (sv_revoked_by s1) r)" by auto
    let ?ev = "hd (members (sv_revoked_by s1) r)"
    have "members (sv_revoked_by s1) r \<noteq> []" using full by (auto simp: VIEWER_REVOCATIONS_PER_PRINCIPAL_MAX_def)
    then have ev: "?ev \<in> set (members (sv_revoked_by s1) r)" by simp
    obtain s2 where s2: "drop_viewer_revocation s1 ?ev = Inr s2" "shrinks s1 s2"
      "sv_revocations s2 = od_pop (sv_revocations s1) ?ev"
      and m2: "\<And>q. members (sv_revoked_by s2) q = (if od_get (sv_revokers s1) ?ev = Some q
          then remove1 ?ev (members (sv_revoked_by s1) q) else members (sv_revoked_by s1) q)"
      using drop_revocation_ok [OF ok1, of ?ev] by metis
    have none: "od_get (sv_revokers s) sid = None" using v new unfolding viewers_ok_def by blast
    then have "od_get (sv_revokers s1) ?ev = Some r" "od_get (sv_revokers s) ?ev = Some r"
      using ev m1 idx ok1 by (auto simp: service_ok_def viewers_ok_def)
    moreover have "length (members (sv_revoked_by s1) r) \<le> VIEWER_REVOCATIONS_PER_PRINCIPAL_MAX"
      using ok1 by (simp add: service_ok_def within_bounds_def)
    ultimately have lt: "length (members (sv_revoked_by s2) r) < VIEWER_REVOCATIONS_PER_PRINCIPAL_MAX"
      using m2 [of r] ev by (cases "members (sv_revoked_by s1) r") (auto simp: length_remove1)
    have mr: "make_room s sid revoker = Inr (s2, Some ?ev)"
      using s1(1) s2(1) r new full by (simp add: make_room_def Let_def)
    have "od_ok (sv_revocations s1)" using R by (simp add: s1(3) od_ok_pop)
    then have g: "od_get (sv_revocations s2) k = (if k = ?ev \<or> k = sid then None else od_get (sv_revocations s) k)" for k
      using R by (simp add: s1(3) s2(3))
    show ?thesis
      by (rule that [OF mr shrinks_trans [OF s1(2) s2(2)]])
         (use g lt r new none \<open>od_get (sv_revokers s) ?ev = Some r\<close> in \<open>auto split: if_splits\<close>)
  qed
qed

lemma record_ok:
  assumes ok: "service_ok s" and new: "od_get (sv_revocations s) sid = None"
    and len: "length (sv_revocations s) < VIEWER_REVOCATIONS_MAX"
    and own: "\<And>r. owner = Some r \<Longrightarrow> length (members (sv_revoked_by s) r) < VIEWER_REVOCATIONS_PER_PRINCIPAL_MAX"
  shows "service_ok (record_cutoff s sid cutoff owner)"
    and "od_get (sv_revocations (record_cutoff s sid cutoff owner)) k =
      (if k = sid then Some cutoff else od_get (sv_revocations s) k)"
    and "od_get (sv_revokers (record_cutoff s sid cutoff owner)) k =
      (if k = sid then owner else od_get (sv_revokers s) k)"
    and "sv_subject_revocations (record_cutoff s sid cutoff owner) = sv_subject_revocations s"
    and "sv_revoked_subjects (record_cutoff s sid cutoff owner) = sv_revoked_subjects s"
proof -
  have v: "viewers_ok s" and b: "within_bounds s" and sj: "subjects_ok s" using ok by (auto simp: service_ok_def)
  have K: "od_get (sv_revokers s) sid = None" using v new unfolding viewers_ok_def by blast
  then have nm: "sid \<notin> set (members (sv_revoked_by s) r)" for r using v unfolding viewers_ok_def by (metis option.distinct(1))
  have l: "length (od_set (sv_revocations s) sid cutoff) \<le> VIEWER_REVOCATIONS_MAX"
    using len by (simp add: length_od_set)
  show "od_get (sv_revocations (record_cutoff s sid cutoff owner)) k =
      (if k = sid then Some cutoff else od_get (sv_revocations s) k)"
    and "od_get (sv_revokers (record_cutoff s sid cutoff owner)) k = (if k = sid then owner else od_get (sv_revokers s) k)"
    and "sv_subject_revocations (record_cutoff s sid cutoff owner) = sv_subject_revocations s"
    and "sv_revoked_subjects (record_cutoff s sid cutoff owner) = sv_revoked_subjects s"
    using K by (auto simp: record_cutoff_def Let_def split: option.splits)
  show "service_ok (record_cutoff s sid cutoff owner)"
  proof (cases owner)
    case None
    then show ?thesis
      using v b sj l K by (auto simp: record_cutoff_def service_ok_def viewers_ok_def subjects_ok_def within_bounds_def od_ok_set)
  next
    case (Some r)
    let ?s = "record_cutoff s sid cutoff owner"
    have s': "sv_revocations ?s = od_set (sv_revocations s) sid cutoff" "sv_revokers ?s = od_set (sv_revokers s) sid r"
      "sv_revoked_by ?s = index_add (sv_revoked_by s) r sid"
      using Some by (simp_all add: record_cutoff_def Let_def)
    have "viewers_ok ?s"
      using v nm K unfolding viewers_ok_def s' by (auto simp: od_ok_set index_add_ok)
    moreover have "length (members (sv_revoked_by ?s) q) \<le> VIEWER_REVOCATIONS_PER_PRINCIPAL_MAX" for q
      using own [OF Some] b nm by (auto simp: s' within_bounds_def)
    then have "within_bounds ?s" using b l by (simp add: within_bounds_def s' record_cutoff_def Let_def Some)
    moreover have "subjects_ok ?s" using sj by (simp add: subjects_ok_def record_cutoff_def Let_def Some)
    ultimately show ?thesis by (simp add: service_ok_def)
  qed
qed

lemma od_get_dropWhile:
  "od_ok d \<Longrightarrow> od_get d k = Some c \<Longrightarrow> \<not> P (k, c) \<Longrightarrow> od_get (dropWhile P d) k = Some c"
  by (induction d) (auto split: if_splits dest: od_get_in)

text \<open>The state before a new cutoff is recorded.\<close>

lemma revoke_room:
  assumes ok: "service_ok s"
  obtains s1 s2 ev where "prune_revocations cutoff s = Inr s1" "make_room s1 sid revoker = Inr (s2, ev)"
    "service_ok s2" "od_get (sv_revocations s2) sid = None"
    "\<And>k c. od_get (sv_revocations s) k = Some c \<Longrightarrow> cutoff - VIEWER_REVOCATION_TTL_S \<le> c \<Longrightarrow>
       od_get (sv_revocations s1) k = Some c \<and> od_get (sv_revokers s1) k = od_get (sv_revokers s) k"
    "\<And>k c. k \<noteq> sid \<Longrightarrow> od_get (sv_revocations s) k = Some c \<Longrightarrow> cutoff - VIEWER_REVOCATION_TTL_S \<le> c \<Longrightarrow>
       revoker = None \<or> od_get (sv_revokers s) k \<noteq> revoker \<Longrightarrow>
       od_get (sv_revocations s2) k = Some c \<and> od_get (sv_revokers s2) k = od_get (sv_revokers s) k"
    "\<And>r. (if od_get (sv_revocations s1) sid \<noteq> None then od_get (sv_revokers s1) sid else revoker) = Some r \<Longrightarrow>
       length (members (sv_revoked_by s2) r) < VIEWER_REVOCATIONS_PER_PRINCIPAL_MAX"
    "od_get (sv_revocations s1) sid \<noteq> None \<Longrightarrow> length (sv_revocations s2) < VIEWER_REVOCATIONS_MAX"
proof -
  obtain s1 where s1: "prune_revocations cutoff s = Inr s1" "shrinks s s1"
    "sv_revocations s1 = dropWhile (\<lambda>(k, c). c < cutoff - VIEWER_REVOCATION_TTL_S) (sv_revocations s)"
    using prune_revocations_ok [OF ok, of cutoff] by blast
  note ok1 = shrinks_ok [OF s1(2)]
  have young: "od_get (sv_revocations s1) k = Some c \<and> od_get (sv_revokers s1) k = od_get (sv_revokers s) k"
    if "od_get (sv_revocations s) k = Some c" "cutoff - VIEWER_REVOCATION_TTL_S \<le> c" for k c
  proof -
    have "od_ok (sv_revocations s)" using ok by (simp add: service_ok_def viewers_ok_def)
    then have "od_get (sv_revocations s1) k = Some c"
      unfolding s1(3) using that by (intro od_get_dropWhile) auto
    then show ?thesis using s1(2) unfolding shrinks_def by (metis option.distinct(1))
  qed
  let ?seen = "od_get (sv_revocations s1) sid \<noteq> None"
  let ?owner = "if ?seen then od_get (sv_revokers s1) sid else revoker"
  obtain s2 ev where s2: "make_room s1 sid revoker = Inr (s2, ev)" "shrinks s1 s2" "od_get (sv_revocations s2) sid = None"
    and keeps: "\<And>k. k \<noteq> sid \<Longrightarrow> od_get (sv_revocations s1) k \<noteq> None \<Longrightarrow> od_get (sv_revocations s2) k = None \<Longrightarrow>
       revoker \<noteq> None \<and> od_get (sv_revokers s1) k = revoker \<and> ev = Some k"
    and room: "\<And>r. revoker = Some r \<Longrightarrow> od_get (sv_revocations s1) sid = None \<Longrightarrow>
       length (members (sv_revoked_by s2) r) < VIEWER_REVOCATIONS_PER_PRINCIPAL_MAX"
    and seen_len: "?seen \<Longrightarrow> length (sv_revocations s2) < VIEWER_REVOCATIONS_MAX"
    and own: "\<And>r. od_get (sv_revokers s1) sid = Some r \<Longrightarrow>
       length (members (sv_revoked_by s2) r) < VIEWER_REVOCATIONS_PER_PRINCIPAL_MAX"
    using make_room_ok [OF ok1, of sid revoker] by blast
  note ok2 = shrinks_ok [OF s2(2)]
  have other: "od_get (sv_revocations s2) k = Some c \<and> od_get (sv_revokers s2) k = od_get (sv_revokers s) k"
    if "k \<noteq> sid" "od_get (sv_revocations s) k = Some c" "cutoff - VIEWER_REVOCATION_TTL_S \<le> c"
      "revoker = None \<or> od_get (sv_revokers s) k \<noteq> revoker" for k c
  proof -
    note y = young [OF that(2,3)]
    then have "od_get (sv_revocations s2) k \<noteq> None" using keeps [OF that(1)] that(4) by auto
    then show ?thesis using y s2(2) unfolding shrinks_def by (metis option.distinct(1))
  qed
  have owner_room: "length (members (sv_revoked_by s2) r) < VIEWER_REVOCATIONS_PER_PRINCIPAL_MAX" if "?owner = Some r" for r
    using that room own by (cases ?seen) auto
  show ?thesis
    by (rule that [OF s1(1) s2(1) ok2 s2(3) young other owner_room seen_len])
qed

text \<open>
  A revoke never fails with a \<open>KeyError\<close>, keeps the invariant, moves a cutoff that is held forward
  without changing whom it counts against, and takes away no other cutoff that is still young enough
  to matter and does not count against the caller.
\<close>

lemma revoke_ok:
  assumes ok: "service_ok s" and r: "revoke_share_viewers s sid cutoff revoker = (res, s')"
  shows "service_ok s'" and "res \<noteq> Inl KeyError"
    and "res = Inr out \<Longrightarrow> fst out = cutoff \<and> od_get (sv_revocations s') sid = Some cutoff"
    and "od_get (sv_revocations s) sid = Some c \<Longrightarrow> cutoff - VIEWER_REVOCATION_TTL_S \<le> c \<Longrightarrow>
      od_get (sv_revocations s') sid = Some cutoff \<and> od_get (sv_revokers s') sid = od_get (sv_revokers s) sid"
    and "k \<noteq> sid \<Longrightarrow> od_get (sv_revocations s) k = Some c \<Longrightarrow> cutoff - VIEWER_REVOCATION_TTL_S \<le> c \<Longrightarrow>
      revoker = None \<or> od_get (sv_revokers s) k \<noteq> revoker \<Longrightarrow>
      od_get (sv_revocations s') k = Some c \<and> od_get (sv_revokers s') k = od_get (sv_revokers s) k"
proof -
  obtain s1 s2 ev where s1: "prune_revocations cutoff s = Inr s1" and s2: "make_room s1 sid revoker = Inr (s2, ev)"
    and ok2: "service_ok s2" and new: "od_get (sv_revocations s2) sid = None"
    and young: "\<And>k c. od_get (sv_revocations s) k = Some c \<Longrightarrow> cutoff - VIEWER_REVOCATION_TTL_S \<le> c \<Longrightarrow>
       od_get (sv_revocations s1) k = Some c \<and> od_get (sv_revokers s1) k = od_get (sv_revokers s) k"
    and other: "\<And>k c. k \<noteq> sid \<Longrightarrow> od_get (sv_revocations s) k = Some c \<Longrightarrow> cutoff - VIEWER_REVOCATION_TTL_S \<le> c \<Longrightarrow>
       revoker = None \<or> od_get (sv_revokers s) k \<noteq> revoker \<Longrightarrow>
       od_get (sv_revocations s2) k = Some c \<and> od_get (sv_revokers s2) k = od_get (sv_revokers s) k"
    and room: "\<And>r. (if od_get (sv_revocations s1) sid \<noteq> None then od_get (sv_revokers s1) sid else revoker) = Some r \<Longrightarrow>
       length (members (sv_revoked_by s2) r) < VIEWER_REVOCATIONS_PER_PRINCIPAL_MAX"
    and seen: "od_get (sv_revocations s1) sid \<noteq> None \<Longrightarrow> length (sv_revocations s2) < VIEWER_REVOCATIONS_MAX"
    using revoke_room [OF ok, of cutoff sid revoker] by blast
  let ?seen = "od_get (sv_revocations s1) sid \<noteq> None"
  let ?owner = "if ?seen then od_get (sv_revokers s1) sid else revoker"
  let ?s3 = "record_cutoff s2 sid cutoff ?owner"
  have goal: "service_ok s' \<and> res \<noteq> Inl KeyError \<and>
    (\<forall>k c. k \<noteq> sid \<longrightarrow> od_get (sv_revocations s2) k = Some c \<longrightarrow>
       od_get (sv_revocations s') k = Some c \<and> od_get (sv_revokers s') k = od_get (sv_revokers s2) k) \<and>
    (res = Inl RevocationsFull \<and> \<not> ?seen \<or>
     res = Inr (cutoff, ev) \<and> od_get (sv_revocations s') sid = Some cutoff \<and> od_get (sv_revokers s') sid = ?owner)"
  proof (cases "\<not> ?seen \<and> VIEWER_REVOCATIONS_MAX \<le> length (sv_revocations s2)")
    case True
    then have "res = Inl RevocationsFull" "s' = s2"
      using r s1 s2 by (auto simp: revoke_share_viewers_def)
    with True ok2 show ?thesis by simp
  next
    case False
    then have len: "length (sv_revocations s2) < VIEWER_REVOCATIONS_MAX" using seen by linarith
    note rec = record_ok [OF ok2 new len room]
    have "subjects_ok ?s3" using rec(1) by (simp add: service_ok_def)
    then have "distinct (members (sv_revoked_subjects ?s3) sid)"
      and "\<forall>x \<in> set (members (sv_revoked_subjects ?s3) sid). od_get (sv_subject_revocations ?s3) (sid, x) \<noteq> None"
      unfolding subjects_ok_def by (simp_all add: members_distinct)
    from drop_subsumed_ok [OF rec(1) this] obtain s4 where
      "drop_subsumed ?s3 sid cutoff (members (sv_revoked_subjects ?s3) sid) = Inr s4" and s4: "shrinks ?s3 s4"
      "sv_revocations s4 = sv_revocations ?s3" "sv_revokers s4 = sv_revokers ?s3" by blast
    then have "res = Inr (cutoff, ev)" "s' = s4"
      using r s1 s2 False by (auto simp: revoke_share_viewers_def Let_def simp del: if_image_distrib)
    then show ?thesis using shrinks_ok [OF s4(1)] s4(2,3) rec(2,3) by simp
  qed
  then show "service_ok s'" "res \<noteq> Inl KeyError" by blast+
  show "res = Inr out \<Longrightarrow> fst out = cutoff \<and> od_get (sv_revocations s') sid = Some cutoff"
    using goal by auto
  show "od_get (sv_revocations s) sid = Some c \<Longrightarrow> cutoff - VIEWER_REVOCATION_TTL_S \<le> c \<Longrightarrow>
      od_get (sv_revocations s') sid = Some cutoff \<and> od_get (sv_revokers s') sid = od_get (sv_revokers s) sid"
    using goal young by auto
  show "k \<noteq> sid \<Longrightarrow> od_get (sv_revocations s) k = Some c \<Longrightarrow> cutoff - VIEWER_REVOCATION_TTL_S \<le> c \<Longrightarrow>
      revoker = None \<or> od_get (sv_revokers s) k \<noteq> revoker \<Longrightarrow>
      od_get (sv_revocations s') k = Some c \<and> od_get (sv_revokers s') k = od_get (sv_revokers s) k"
    using goal other by metis
qed

lemma revoke_subject_ok:
  assumes ok: "service_ok s" and r: "revoke_share_viewer_subject s sid x cutoff = (res, s')"
  shows "service_ok s'" and "res \<noteq> Inl KeyError"
    and "sv_revocations s' = sv_revocations s" and "sv_revokers s' = sv_revokers s"
    and "res = Inr c \<Longrightarrow> c = cutoff \<and> od_get (sv_subject_revocations s') (sid, x) = Some cutoff"
    and "k \<noteq> (sid, x) \<Longrightarrow> od_get (sv_subject_revocations s) k = Some d \<Longrightarrow> cutoff - VIEWER_REVOCATION_TTL_S \<le> d \<Longrightarrow>
      od_get (sv_subject_revocations s') k = Some d"
proof -
  obtain s1 where s1: "prune_subjects cutoff s = Inr s1" "shrinks s s1"
    "sv_revocations s1 = sv_revocations s" "sv_revokers s1 = sv_revokers s"
    "sv_subject_revocations s1 = dropWhile (\<lambda>(k, c). c < cutoff - VIEWER_REVOCATION_TTL_S) (sv_subject_revocations s)"
    using prune_subjects_ok [OF ok, of cutoff] by blast
  note ok1 = shrinks_ok [OF s1(2)]
  have young: "od_get (sv_subject_revocations s1) k = Some d"
    if "od_get (sv_subject_revocations s) k = Some d" "cutoff - VIEWER_REVOCATION_TTL_S \<le> d" for k d
    unfolding s1(5) using ok that by (intro od_get_dropWhile) (auto simp: service_ok_def subjects_ok_def)
  obtain s2 where s2: "drop_viewer_subject s1 sid x = Inr s2" "shrinks s1 s2"
    "sv_subject_revocations s2 = od_pop (sv_subject_revocations s1) (sid, x)"
    "sv_revocations s2 = sv_revocations s" "sv_revokers s2 = sv_revokers s"
    and m2: "\<And>k. members (sv_revoked_subjects s2) k = (if k = sid then remove1 x (members (sv_revoked_subjects s1) k)
        else members (sv_revoked_subjects s1) k)"
    using drop_subject_ok [OF ok1, of sid x] s1(3,4) by metis
  note ok2 = shrinks_ok [OF s2(2)]
  have sj1: "subjects_ok s1" "within_bounds s1" and sj2: "subjects_ok s2" "within_bounds s2" "viewers_ok s2"
    using ok1 ok2 by (auto simp: service_ok_def)
  let ?held = "members (sv_revoked_subjects s1) sid"
  let ?s3 = "s2\<lparr>sv_subject_revocations := od_set (sv_subject_revocations s2) (sid, x) cutoff,
      sv_revoked_subjects := index_add (sv_revoked_subjects s2) sid x\<rparr>"
  have goal: "service_ok s' \<and> res \<noteq> Inl KeyError \<and> sv_revocations s' = sv_revocations s \<and> sv_revokers s' = sv_revokers s \<and>
      (\<forall>c. res = Inr c \<longrightarrow> c = cutoff \<and> od_get (sv_subject_revocations s') (sid, x) = Some cutoff) \<and>
      (\<forall>k d. k \<noteq> (sid, x) \<longrightarrow> od_get (sv_subject_revocations s) k = Some d \<longrightarrow> cutoff - VIEWER_REVOCATION_TTL_S \<le> d \<longrightarrow>
      od_get (sv_subject_revocations s') k = Some d)"
  proof (cases "x \<notin> set ?held \<and> (VIEWER_SUBJECT_REVOCATIONS_PER_SESSION_MAX \<le> length ?held \<or>
        VIEWER_SUBJECT_REVOCATIONS_MAX \<le> length (sv_subject_revocations s1))")
    case True
    then have "s' = s1 \<and> (res = Inl SubjectRevocationsFull \<or> res = Inl RevocationsFull)"
      using r s1(1) by (auto simp: revoke_share_viewer_subject_def Let_def split: if_splits)
    then show ?thesis
      using ok1 s1(3,4) young by auto
  next
    case False
    then have s': "s' = ?s3" "res = Inr cutoff"
      using r s1(1) s2(1) by (auto simp: revoke_share_viewer_subject_def Let_def split: if_splits)
    have pop: "x \<in> set ?held \<Longrightarrow> length (sv_subject_revocations s2) < length (sv_subject_revocations s1)"
    proof -
      assume "x \<in> set ?held"
      then have "od_get (sv_subject_revocations s1) (sid, x) \<noteq> None" using sj1(1) unfolding subjects_ok_def by blast
      then show ?thesis
        by (cases "sv_subject_revocations s1") (auto simp: s2(3) length_od_pop od_get_None)
    qed
    have len: "length (sv_subject_revocations s2) < VIEWER_SUBJECT_REVOCATIONS_MAX"
      using False pop sj1(2) s2(2) by (cases "x \<in> set ?held") (auto simp: within_bounds_def shrinks_def)
    have nm: "x \<notin> set (members (sv_revoked_subjects s2) sid)"
      using m2 [of sid] members_distinct [of "sv_revoked_subjects s1" sid] sj1(1) by (simp add: subjects_ok_def)
    have held: "length (members (sv_revoked_subjects s2) sid) < VIEWER_SUBJECT_REVOCATIONS_PER_SESSION_MAX"
    proof (cases "x \<in> set ?held")
      case True
      have "length ?held \<le> VIEWER_SUBJECT_REVOCATIONS_PER_SESSION_MAX" using sj1(2) by (simp add: within_bounds_def)
      with length_remove1_less [OF True] m2 [of sid] show ?thesis by simp
    qed (use False m2 [of sid] in \<open>auto simp: remove1_idem\<close>)
    have "subjects_ok ?s3"
      using sj2(1) nm unfolding subjects_ok_def by (auto simp: od_ok_set index_add_ok)
    moreover have "within_bounds ?s3"
      using sj2(2) len held nm by (auto simp: within_bounds_def length_od_set)
    moreover have "viewers_ok ?s3" using sj2(3) by (simp add: viewers_ok_def)
    ultimately have "service_ok ?s3" by (simp add: service_ok_def)
    moreover have "od_ok (sv_subject_revocations s1)" using sj1(1) by (simp add: subjects_ok_def)
    ultimately show ?thesis
      using s' s2(3-5) young by auto
  qed
  show "service_ok s'" and "res \<noteq> Inl KeyError"
    and "sv_revocations s' = sv_revocations s" and "sv_revokers s' = sv_revokers s"
    and "res = Inr c \<Longrightarrow> c = cutoff \<and> od_get (sv_subject_revocations s') (sid, x) = Some cutoff"
    and "k \<noteq> (sid, x) \<Longrightarrow> od_get (sv_subject_revocations s) k = Some d \<Longrightarrow> cutoff - VIEWER_REVOCATION_TTL_S \<le> d \<Longrightarrow>
      od_get (sv_subject_revocations s') k = Some d"
    using goal by blast+
qed

lemma forget_ok:
  assumes ok: "service_ok s"
  obtains s' where "forget_share_viewers s sid = Inr s'" "service_ok s'"
    "\<And>k. k \<noteq> sid \<Longrightarrow> od_get (sv_revocations s') k = od_get (sv_revocations s) k \<and>
       od_get (sv_revokers s') k = od_get (sv_revokers s) k"
proof -
  obtain s1 where s1: "drop_viewer_revocation s sid = Inr s1" "shrinks s s1"
    "sv_revocations s1 = od_pop (sv_revocations s) sid" "sv_revokers s1 = od_pop (sv_revokers s) sid"
    using drop_revocation_ok [OF ok, of sid] by metis
  obtain s2 where s2: "drop_subjects s1 sid (members (sv_revoked_subjects s1) sid) = Inr s2" "shrinks s1 s2"
    "sv_revocations s2 = sv_revocations s1" "sv_revokers s2 = sv_revokers s1"
    using drop_subjects_ok [OF shrinks_ok [OF s1(2)]] by blast
  have "od_ok (sv_revocations s)" "od_ok (sv_revokers s)" using ok by (auto simp: service_ok_def viewers_ok_def)
  with s1 s2 shrinks_ok [OF s2(2)] show ?thesis
    by (intro that [of s2]) (auto simp: forget_share_viewers_def)
qed

subsection \<open>Runs\<close>

datatype sv_event = SvRevoke string time "string option" | SvSubject string string time | SvForget string

fun sv_apply :: "sv_event \<Rightarrow> authz_service \<Rightarrow> authz_service" where
  "sv_apply (SvRevoke sid t rv) s = snd (revoke_share_viewers s sid t rv)"
| "sv_apply (SvSubject sid x t) s = snd (revoke_share_viewer_subject s sid x t)"
| "sv_apply (SvForget sid) s = (case forget_share_viewers s sid of Inl _ \<Rightarrow> s | Inr s' \<Rightarrow> s')"

fun sv_failed :: "sv_event \<Rightarrow> authz_service \<Rightarrow> bool" where
  "sv_failed (SvRevoke sid t rv) s = (fst (revoke_share_viewers s sid t rv) = Inl KeyError)"
| "sv_failed (SvSubject sid x t) s = (fst (revoke_share_viewer_subject s sid x t) = Inl KeyError)"
| "sv_failed (SvForget sid) s = (\<exists>e. forget_share_viewers s sid = Inl e)"

lemma sv_apply_ok:
  assumes "service_ok s" shows "service_ok (sv_apply e s) \<and> \<not> sv_failed e s"
proof (cases e)
  case (SvRevoke sid t rv)
  with revoke_ok(1,2) [OF assms, of sid t rv] show ?thesis by (cases "revoke_share_viewers s sid t rv") auto
next
  case (SvSubject sid x t)
  with revoke_subject_ok(1,2) [OF assms, of sid x t] show ?thesis by (cases "revoke_share_viewer_subject s sid x t") auto
next
  case (SvForget sid)
  with forget_ok [OF assms, of sid] show ?thesis by (metis sv_apply.simps(3) sv_failed.simps(3) sum.simps(6) Inl_Inr_False)
qed

definition sv_init :: "authz_service \<Rightarrow> bool" where "sv_init s \<longleftrightarrow> s = new_authz_service"
definition sv_step :: "authz_service \<Rightarrow> authz_service \<Rightarrow> bool" where "sv_step s t \<longleftrightarrow> (\<exists>e. t = sv_apply e s)"

interpretation viewers: safe_system sv_init sv_step service_ok
  by unfold_locales (auto simp: sv_init_def sv_step_def sv_apply_ok)

lemma sv_run_ok: "service_ok s \<Longrightarrow> service_ok (fold sv_apply es s)"
  by (induction es arbitrary: s) (simp_all add: sv_apply_ok)

text \<open>
  What an event may not do for a cutoff of \<open>sid\<close>, recorded at \<open>now\<close> and counted against \<open>owner\<close>, to
  hold: it is not the session's deletion, it comes within the time to live, and it is not a revoke of
  another session by the very principal the cutoff counts against (who may push out its own oldest).
\<close>

fun keeps_cutoff :: "string \<Rightarrow> time \<Rightarrow> string option \<Rightarrow> sv_event \<Rightarrow> bool" where
  "keeps_cutoff sid now owner (SvRevoke sid' t rv) =
     (now \<le> t \<and> t \<le> now + VIEWER_REVOCATION_TTL_S \<and> (sid' = sid \<or> rv = None \<or> rv \<noteq> owner))"
| "keeps_cutoff sid now owner (SvSubject sid' x t) = True"
| "keeps_cutoff sid now owner (SvForget sid') = (sid' \<noteq> sid)"

definition cut_at :: "string \<Rightarrow> time \<Rightarrow> string option \<Rightarrow> authz_service \<Rightarrow> bool" where
  "cut_at sid now owner s \<longleftrightarrow>
     service_ok s \<and> (\<exists>c \<ge> now. od_get (sv_revocations s) sid = Some c) \<and> od_get (sv_revokers s) sid = owner"

lemma cut_at_step:
  assumes c: "cut_at sid now owner s" and k: "keeps_cutoff sid now owner e"
  shows "cut_at sid now owner (sv_apply e s)"
proof -
  obtain c where ok: "service_ok s" and c: "od_get (sv_revocations s) sid = Some c" "now \<le> c"
    and o': "od_get (sv_revokers s) sid = owner" using c by (auto simp: cut_at_def)
  note ok' = sv_apply_ok [OF ok, of e]
  show ?thesis
  proof (cases e)
    case (SvRevoke sid' t rv)
    obtain res s' where r: "revoke_share_viewers s sid' t rv = (res, s')" by fastforce
    note R = revoke_ok [OF ok r]
    show ?thesis
    proof (cases "sid' = sid")
      case True
      with R(4) [of c] c o' k ok' r SvRevoke show ?thesis by (auto simp: cut_at_def)
    next
      case False
      with R(5) [of sid c] c o' k ok' r SvRevoke show ?thesis by (auto simp: cut_at_def)
    qed
  next
    case (SvSubject sid' x t)
    obtain res s' where r: "revoke_share_viewer_subject s sid' x t = (res, s')" by fastforce
    with revoke_subject_ok(3,4) [OF ok r] SvSubject c o' ok' show ?thesis by (auto simp: cut_at_def)
  next
    case (SvForget sid')
    obtain s' where "forget_share_viewers s sid' = Inr s'"
      "\<And>k. k \<noteq> sid' \<Longrightarrow> od_get (sv_revocations s') k = od_get (sv_revocations s) k \<and>
         od_get (sv_revokers s') k = od_get (sv_revokers s) k"
      using forget_ok [OF ok, of sid'] by metis
    with SvForget c o' k ok' show ?thesis by (auto simp: cut_at_def)
  qed
qed

lemma cut_at_run: "cut_at sid now owner s \<Longrightarrow> list_all (keeps_cutoff sid now owner) es \<Longrightarrow> cut_at sid now owner (fold sv_apply es s)"
  by (induction es arbitrary: s) (simp_all add: cut_at_step)

lemma cut_at_refuses:
  assumes "cut_at sid now owner s" "is_share_viewer p sid"
    and "case issued_at p of None \<Rightarrow> True | Some i \<Rightarrow> i \<le> now"
  shows "share_viewer_revoked s p sid"
proof -
  obtain c where "od_get (sv_revocations s) sid = Some c" "now \<le> c" using assms(1) by (auto simp: cut_at_def)
  then obtain d where "latest (share_viewer_revocation s sid)
      (share_viewer_subject_revocation s sid (pr_subject_id p)) = Some d" "now \<le> d"
    by (cases "share_viewer_subject_revocation s sid (pr_subject_id p)")
       (auto simp: latest_def share_viewer_revocation_def le_max_iff_disj)
  then show ?thesis using assms(2,3) by (auto simp: share_viewer_revoked_def split: option.splits)
qed

subsection \<open>Properties\<close>

text \<open>C6: The revocation tables stay consistent and bounded whatever the embedder does: after any run of
  session revokes, subject revokes and deletions the reverse indices list exactly the entries of the
  tables, no principal and no session exceeds its quota, neither table exceeds its limit, and no
  operation ever fails with a \<open>KeyError\<close>.\<close>

theorem viewer_tables_consistent:
  "service_ok (fold sv_apply es new_authz_service) \<and> \<not> sv_failed e (fold sv_apply es new_authz_service)"
  using sv_apply_ok [OF sv_run_ok [OF service_ok_new]] sv_run_ok [OF service_ok_new] by blast

text \<open>C7: A revoked share viewer stays out: once a revoke of a session has succeeded, no share-viewer token
  of that session issued up to then (or without an issue time) can read the session or its recording,
  whatever the plugged-in provider says, throughout the cutoff's time to live and across any further
  revokes, subject revokes and deletions of other sessions -- except that the principal the cutoff
  counts against may push it out by revoking further sessions of its own. In particular nobody else
  can flush it, and a cutoff recorded by a global admin cannot be flushed at all.\<close>

theorem revoked_viewer_stays_out:
  assumes "service_ok s" "revoke_share_viewers s sid now rv = (Inr out, s1)"
    and "is_share_viewer p sid" "case issued_at p of None \<Rightarrow> True | Some i \<Rightarrow> i \<le> now"
    and "list_all (keeps_cutoff sid now (od_get (sv_revokers s1) sid)) es"
    and "sd_session_id sd = sid"
  shows "\<not> svc_can_read_session pv (fold sv_apply es s1) p sd \<and>
         \<not> svc_can_read_recording pv (fold sv_apply es s1) p sd"
proof -
  have "cut_at sid now (od_get (sv_revokers s1) sid) s1"
    using revoke_ok(1,3) [OF assms(1,2)] by (auto simp: cut_at_def)
  from cut_at_refuses [OF cut_at_run [OF this assms(5)] assms(3,4)]
  show ?thesis by (simp add: svc_can_read_session_def svc_can_read_recording_def assms(6))
qed

definition demo_viewer :: principal where
  "demo_viewer = \<lparr>pr_subject_id = ''share:a:eve'', pr_tenant_id = None, pr_roles = {''viewer''},
     pr_scopes = {}, pr_claims = [(''iat'', ClInt 50)], pr_display_name = None, pr_admin_session_scope = None,
     pr_tunnel_share = False\<rparr>"

definition demo_provider :: provider where
  "demo_provider = \<lparr>pv_can_read_session = Some (\<lambda>_ _. True), pv_can_read_recording = None, pv_can_mutate_session = None,
     pv_can_create_session = None, pv_is_admin = None, pv_is_owner = None, pv_can_read_profile = None,
     pv_can_mutate_profile = None, pv_capabilities_for = None, pv_has_capability = None, pv_resolve_browser_role = None\<rparr>"

definition demo_session :: session_def where
  "demo_session = \<lparr>sd_session_id = ''a'', sd_owner = None, sd_visibility = ''public''\<rparr>"

lemma demo_revoke:
  "revoke_share_viewers new_authz_service ''a'' 60 (Some ''u'') =
     (Inr (60, None), new_authz_service\<lparr>sv_revocations := [(''a'', 60)], sv_revokers := [(''a'', ''u'')],
        sv_revoked_by := [(''u'', [(''a'', ())])]\<rparr>)"
  by (simp add: revoke_share_viewers_def new_authz_service_def prune_revocations.simps make_room_def
      drop_viewer_revocation_def members_def record_cutoff_def index_add_def limit_defs Let_def)

theorem revoked_viewer_stays_out_witness:
  "svc_can_read_session demo_provider new_authz_service demo_viewer demo_session \<and>
   \<not> svc_can_read_session demo_provider
      (fold sv_apply [SvRevoke ''b'' 70 (Some ''v''), SvForget ''c'', SvSubject ''a'' ''share:a:bob'' 80]
        (snd (revoke_share_viewers new_authz_service ''a'' 60 (Some ''u'')))) demo_viewer demo_session"
proof -
  have sv: "is_share_viewer demo_viewer ''a''"
    by (simp add: is_share_viewer_def demo_viewer_def share_prefix_def)
  have i: "case issued_at demo_viewer of None \<Rightarrow> True | Some i \<Rightarrow> i \<le> 60"
    by (simp add: issued_at_def demo_viewer_def)
  have "svc_can_read_session demo_provider new_authz_service demo_viewer demo_session"
    by (simp add: svc_can_read_session_def demo_provider_def new_authz_service_def share_viewer_revoked_def latest_def
        share_viewer_revocation_def share_viewer_subject_revocation_def)
  moreover have "\<not> svc_can_read_session demo_provider
      (fold sv_apply [SvRevoke ''b'' 70 (Some ''v''), SvForget ''c'', SvSubject ''a'' ''share:a:bob'' 80]
        (snd (revoke_share_viewers new_authz_service ''a'' 60 (Some ''u'')))) demo_viewer demo_session"
    using revoked_viewer_stays_out [OF service_ok_new demo_revoke sv i,
        of "[SvRevoke ''b'' 70 (Some ''v''), SvForget ''c'', SvSubject ''a'' ''share:a:bob'' 80]" demo_session demo_provider]
    by (simp add: demo_revoke demo_session_def VIEWER_REVOCATION_TTL_S_def del: sv_apply.simps)
  ultimately show ?thesis by blast
qed

end
