(* ===== verification/RfbFilter.thy ===== *)
theory RfbFilter
  imports Prelude "HOL-Library.Word" "HOL-Library.Sublist"
begin

text \<open>
  The input filter of a relayed VNC session (\<open>vnc/rfb_filter.py\<close>): client messages are copied to the
  server, but key, pointer and clipboard messages only while the injection callback allows them.
  Bytes are 8-bit words and the stream is the list of bytes still to be read. The callback's answers
  are a function of how often it was asked, \<open>None\<close> when there is no callback, so that it may change
  its mind between messages. The output is the sequence of writes, with a mark where
  \<open>on_client_ready\<close> is called.
\<close>

type_synonym octet = "8 word"

datatype rfb_out = Emit "octet list" | ClientReady

datatype rfb_end = RfbDone | RfbEof | RfbUnsupported octet | RfbUnknown octet

definition SET_PIXEL_FORMAT :: octet where "SET_PIXEL_FORMAT = 0"
definition SET_ENCODINGS :: octet where "SET_ENCODINGS = 2"
definition FRAMEBUFFER_UPDATE_REQUEST :: octet where "FRAMEBUFFER_UPDATE_REQUEST = 3"
definition KEY_EVENT :: octet where "KEY_EVENT = 4"
definition POINTER_EVENT :: octet where "POINTER_EVENT = 5"
definition CLIENT_CUT_TEXT :: octet where "CLIENT_CUT_TEXT = 6"
definition MAX_CUT_TEXT :: nat where "MAX_CUT_TEXT = 2 ^ 20"

lemmas msg_defs = SET_PIXEL_FORMAT_def SET_ENCODINGS_def FRAMEBUFFER_UPDATE_REQUEST_def KEY_EVENT_def
  POINTER_EVENT_def CLIENT_CUT_TEXT_def

definition read_exact :: "nat \<Rightarrow> octet list \<Rightarrow> (octet list \<times> octet list) option" where
  "read_exact n src = (if length src < n then None else Some (take n src, drop n src))"

text \<open>\<open>struct.unpack\<close> of network-order integers.\<close>

definition be16 :: "octet list \<Rightarrow> nat" where
  "be16 bs = unat (bs ! 0) * 2 ^ 8 + unat (bs ! 1)"

definition be32 :: "octet list \<Rightarrow> nat" where
  "be32 bs = unat (bs ! 0) * 2 ^ 24 + unat (bs ! 1) * 2 ^ 16 + unat (bs ! 2) * 2 ^ 8 + unat (bs ! 3)"

text \<open>The high bit of the length marks the extended clipboard and is masked off.\<close>

definition cut_text_len :: "octet list \<Rightarrow> nat" where
  "cut_text_len header = be32 (drop 3 header) mod 2 ^ 31"

text \<open>The loop that discards an oversized clipboard; \<open>None\<close> when the stream ends in it.\<close>

function drain :: "nat \<Rightarrow> octet list \<Rightarrow> octet list option" where
  "drain remaining src =
     (if 0 < remaining then
        let chunk = take (min remaining 65536) src
        in if chunk = [] then None else drain (remaining - length chunk) (drop (length chunk) src)
      else Some src)"
  by pat_completeness auto
termination
  by (relation "measure (\<lambda>(n, src). n)") (auto simp: Let_def min_def)

declare drain.simps [simp del]

definition allowed :: "(nat \<Rightarrow> bool) option \<Rightarrow> nat \<Rightarrow> bool" where
  "allowed can_inject asked = (case can_inject of None \<Rightarrow> False | Some f \<Rightarrow> f asked)"

text \<open>
  One turn of the loop after the type byte \<open>t\<close>: a message that passes, one the callback decides, an
  oversized clipboard that is dropped, or how the loop ends.
\<close>

datatype rfb_turn =
    Forward "octet list" "octet list"
  | Gate "octet list" "octet list"
  | Skip "octet list"
  | Stop rfb_end

definition rfb_message :: "octet \<Rightarrow> octet list \<Rightarrow> rfb_turn" where
  "rfb_message t src =
     (if t = SET_PIXEL_FORMAT then
        (case read_exact 19 src of None \<Rightarrow> Stop RfbEof | Some (p, r) \<Rightarrow> Forward (t # p) r)
      else if t = SET_ENCODINGS then
        (case read_exact 3 src of
           None \<Rightarrow> Stop RfbEof
         | Some (header, r) \<Rightarrow>
             (case read_exact (be16 (drop 1 header) * 4) r of
                None \<Rightarrow> Stop RfbEof
              | Some (body, r') \<Rightarrow> Forward (t # header @ body) r'))
      else if t = FRAMEBUFFER_UPDATE_REQUEST then
        (case read_exact 9 src of None \<Rightarrow> Stop RfbEof | Some (p, r) \<Rightarrow> Forward (t # p) r)
      else if t = KEY_EVENT then
        (case read_exact 7 src of None \<Rightarrow> Stop RfbEof | Some (p, r) \<Rightarrow> Gate (t # p) r)
      else if t = POINTER_EVENT then
        (case read_exact 5 src of None \<Rightarrow> Stop RfbEof | Some (p, r) \<Rightarrow> Gate (t # p) r)
      else if t = CLIENT_CUT_TEXT then
        (case read_exact 7 src of
           None \<Rightarrow> Stop RfbEof
         | Some (header, r) \<Rightarrow>
             if MAX_CUT_TEXT < cut_text_len header then
               (case drain (cut_text_len header) r of None \<Rightarrow> Stop RfbDone | Some r' \<Rightarrow> Skip r')
             else
               (case read_exact (cut_text_len header) r of
                  None \<Rightarrow> Stop RfbEof
                | Some (payload, r') \<Rightarrow> Gate (t # header @ payload) r'))
      else Stop (RfbUnknown t))"

text \<open>Draining consumes exactly the announced bytes; the chunk size does not show.\<close>

lemma drain_drop: "drain n src = (if length src < n then None else Some (drop n src))"
proof (induction n src rule: drain.induct)
  case (1 n src)
  show ?case
  proof (cases "0 < n \<and> src \<noteq> []")
    case True
    define c where "c = take (min n 65536) src"
    have ne: "c \<noteq> []" and le: "length c \<le> n" "length c \<le> length src" using True by (auto simp: c_def)
    have "drain n src = drain (n - length c) (drop (length c) src)"
      using True ne by (subst drain.simps) (simp add: Let_def flip: c_def)
    also have "\<dots> = (if length (drop (length c) src) < n - length c then None
        else Some (drop (n - length c) (drop (length c) src)))"
      using "1.IH" [OF _ c_def ne] True by simp
    also have "\<dots> = (if length src < n then None else Some (drop n src))"
      using le by auto
    finally show ?thesis .
  next
    case False
    then show ?thesis by (subst drain.simps) auto
  qed
qed

lemma read_exact_Some: "read_exact n src = Some (p, r) \<longleftrightarrow> length p = n \<and> src = p @ r"
  by (auto simp: read_exact_def)

lemma rfb_message_rest:
  "rfb_message t src = Forward m r \<Longrightarrow> t # src = m @ r"
  "rfb_message t src = Gate m r \<Longrightarrow> t # src = m @ r"
  "rfb_message t src = Skip r \<Longrightarrow> \<exists>d. src = d @ r"
  by (auto simp: rfb_message_def read_exact_Some drain_drop split: if_splits option.splits)
     (metis append_take_drop_id append.assoc)

lemma rfb_message_shorter:
  "rfb_message t src = Forward m r \<Longrightarrow> length r \<le> length src"
  "rfb_message t src = Gate m r \<Longrightarrow> length r \<le> length src"
  "rfb_message t src = Skip r \<Longrightarrow> length r \<le> length src"
  by (auto simp: rfb_message_def read_exact_Some drain_drop split: if_splits option.splits)

function rfb_loop :: "(nat \<Rightarrow> bool) option \<Rightarrow> bool \<Rightarrow> bool \<Rightarrow> nat \<Rightarrow> octet list \<Rightarrow> rfb_out list \<times> rfb_end" where
  "rfb_loop can_inject has_ready fired asked [] = ([], RfbDone)"
| "rfb_loop can_inject has_ready fired asked (t # src) =
     (case rfb_message t src of
        Forward m r \<Rightarrow>
          (let ready = (t = FRAMEBUFFER_UPDATE_REQUEST \<and> has_ready \<and> \<not> fired);
               (out, e) = rfb_loop can_inject has_ready (fired \<or> ready) asked r
           in (Emit m # (if ready then [ClientReady] else []) @ out, e))
      | Gate m r \<Rightarrow>
          (let (out, e) = rfb_loop can_inject has_ready fired (asked + 1) r
           in ((if allowed can_inject asked then [Emit m] else []) @ out, e))
      | Skip r \<Rightarrow> rfb_loop can_inject has_ready fired asked r
      | Stop e \<Rightarrow> ([], e))"
  by pat_completeness auto
termination
  by (relation "measure (\<lambda>(c, h, f, k, src). length src)") (auto dest: rfb_message_shorter simp: less_Suc_eq_le)

definition filter_rfb_client_input :: "(nat \<Rightarrow> bool) option \<Rightarrow> bool \<Rightarrow> octet list \<Rightarrow> rfb_out list \<times> rfb_end" where
  "filter_rfb_client_input can_inject has_ready src =
     (case read_exact 12 src of
        None \<Rightarrow> ([], RfbEof)
      | Some (version, r1) \<Rightarrow>
          (case read_exact 1 r1 of
             None \<Rightarrow> ([Emit version], RfbEof)
           | Some (sec, r2) \<Rightarrow>
               if sec ! 0 \<noteq> 1 then ([Emit version], RfbUnsupported (sec ! 0))
               else
                 (case read_exact 1 r2 of
                    None \<Rightarrow> ([Emit version, Emit sec], RfbEof)
                  | Some (client_init, r3) \<Rightarrow>
                      (let (out, e) = rfb_loop can_inject has_ready False 0 r3
                       in (Emit version # Emit sec # Emit client_init # out, e)))))"

subsection \<open>Messages\<close>

text \<open>The client messages of the protocol, as sequences of bytes after the type byte.\<close>

datatype rfb_msg = Plain octet "octet list" | Input octet "octet list" | Oversized "octet list"

fun enc :: "rfb_msg \<Rightarrow> octet list" where
  "enc (Plain t p) = t # p"
| "enc (Input t p) = t # p"
| "enc (Oversized p) = CLIENT_CUT_TEXT # p"

fun valid :: "rfb_msg \<Rightarrow> bool" where
  "valid (Plain t p) \<longleftrightarrow>
     t = SET_PIXEL_FORMAT \<and> length p = 19 \<or>
     t = SET_ENCODINGS \<and> 3 \<le> length p \<and> length p = 3 + be16 (drop 1 p) * 4 \<or>
     t = FRAMEBUFFER_UPDATE_REQUEST \<and> length p = 9"
| "valid (Input t p) \<longleftrightarrow>
     t = KEY_EVENT \<and> length p = 7 \<or> t = POINTER_EVENT \<and> length p = 5 \<or>
     t = CLIENT_CUT_TEXT \<and> 7 \<le> length p \<and> cut_text_len p \<le> MAX_CUT_TEXT \<and> length p = 7 + cut_text_len p"
| "valid (Oversized p) \<longleftrightarrow> 7 \<le> length p \<and> MAX_CUT_TEXT < cut_text_len p \<and> length p = 7 + cut_text_len p"

text \<open>What may pass: oversized clipboards never, input messages one answer of the callback each.\<close>

fun gate :: "(nat \<Rightarrow> bool) option \<Rightarrow> nat \<Rightarrow> rfb_msg list \<Rightarrow> octet list list" where
  "gate ci k [] = []"
| "gate ci k (Plain t p # ms) = (t # p) # gate ci k ms"
| "gate ci k (Input t p # ms) = (if allowed ci k then [t # p] else []) @ gate ci (k + 1) ms"
| "gate ci k (Oversized p # ms) = gate ci k ms"

fun emits :: "rfb_out list \<Rightarrow> octet list list" where
  "emits [] = []"
| "emits (Emit m # out) = m # emits out"
| "emits (ClientReady # out) = emits out"

lemma emits_append [simp]: "emits (a @ b) = emits a @ emits b"
  by (induction a rule: emits.induct) auto

lemma be16_append: "2 \<le> length h \<Longrightarrow> be16 (h @ b) = be16 h"
  by (cases h) (auto simp: be16_def nth_append)

lemma cut_text_len_append: "length h = 7 \<Longrightarrow> cut_text_len (h @ b) = cut_text_len h"
  by (simp add: cut_text_len_def be32_def nth_append)

lemma read_exact_append: "length p = n \<Longrightarrow> read_exact n (p @ r) = Some (p, r)"
  by (simp add: read_exact_def)

lemma split_header:
  assumes "n \<le> length p" obtains h b where "p = h @ b" "length h = n"
  using assms by (metis append_take_drop_id length_take min_absorb2)

lemma encodings_distinct: "SET_ENCODINGS \<noteq> SET_PIXEL_FORMAT" "SET_ENCODINGS \<noteq> FRAMEBUFFER_UPDATE_REQUEST"
  by (simp_all add: msg_defs)

lemma turn_plain:
  assumes "valid (Plain t p)" shows "rfb_message t (p @ r) = Forward (t # p) r"
proof (cases "t = SET_ENCODINGS")
  case True
  with assms have l: "3 \<le> length p" "length p = 3 + be16 (drop 1 p) * 4"
    by (simp_all only: valid.simps encodings_distinct simp_thms)
  from split_header [OF l(1)] obtain h b where p: "p = h @ b" "length h = 3" by metis
  then have "length b = be16 (drop 1 h) * 4" using l(2) be16_append [of "drop 1 h" b] by simp
  then show ?thesis
    using True p read_exact_append [of h 3 "b @ r"] read_exact_append [of b _ r]
    by (simp add: rfb_message_def msg_defs)
next
  case False
  with assms show ?thesis by (auto simp: rfb_message_def msg_defs read_exact_append)
qed

lemma turn_cut_text:
  assumes "7 \<le> length p" "length p = 7 + cut_text_len p"
  shows "rfb_message CLIENT_CUT_TEXT (p @ r) =
    (if MAX_CUT_TEXT < cut_text_len p then Skip r else Gate (CLIENT_CUT_TEXT # p) r)"
proof -
  obtain h b where p: "p = h @ b" "length h = 7" using split_header [OF assms(1)] by blast
  then have c: "cut_text_len p = cut_text_len h" "length b = cut_text_len h"
    using assms(2) cut_text_len_append [of h b] by auto
  then show ?thesis
    using p read_exact_append [of h 7 "b @ r"] read_exact_append [of b _ r]
    by (simp add: rfb_message_def msg_defs drain_drop)
qed

lemma turn_input: "valid (Input t p) \<Longrightarrow> rfb_message t (p @ r) = Gate (t # p) r"
  using turn_cut_text [of p r] by (auto simp: rfb_message_def msg_defs read_exact_append)

lemma turn_oversized: "valid (Oversized p) \<Longrightarrow> rfb_message CLIENT_CUT_TEXT (p @ r) = Skip r"
  using turn_cut_text [of p r] by auto

lemma turn_valid:
  "rfb_message t src = Forward m r \<Longrightarrow> \<exists>p. m = t # p \<and> src = p @ r \<and> valid (Plain t p)"
  "rfb_message t src = Gate m r \<Longrightarrow> \<exists>p. m = t # p \<and> src = p @ r \<and> valid (Input t p)"
  "rfb_message t src = Skip r \<Longrightarrow> \<exists>p. t = CLIENT_CUT_TEXT \<and> src = p @ r \<and> valid (Oversized p)"
proof -
  show "rfb_message t src = Forward m r \<Longrightarrow> \<exists>p. m = t # p \<and> src = p @ r \<and> valid (Plain t p)"
    by (auto simp: rfb_message_def read_exact_Some be16_append split: if_splits option.splits)
  show "rfb_message t src = Gate m r \<Longrightarrow> \<exists>p. m = t # p \<and> src = p @ r \<and> valid (Input t p)"
    by (auto simp: rfb_message_def read_exact_Some cut_text_len_append split: if_splits option.splits)
  assume "rfb_message t src = Skip r"
  then obtain h s where t: "t = CLIENT_CUT_TEXT" and h: "length h = 7" "src = h @ s" "MAX_CUT_TEXT < cut_text_len h"
    and r: "\<not> length s < cut_text_len h" "r = drop (cut_text_len h) s"
    by (auto simp: rfb_message_def read_exact_Some drain_drop split: if_splits option.splits)
  let ?p = "h @ take (cut_text_len h) s"
  have "src = ?p @ r" "valid (Oversized ?p)" using h r by (auto simp: cut_text_len_append)
  with t show "\<exists>p. t = CLIENT_CUT_TEXT \<and> src = p @ r \<and> valid (Oversized p)" by blast
qed

lemma loop_messages:
  "list_all valid ms \<Longrightarrow>
   emits (fst (rfb_loop ci hr fired k (concat (map enc ms)))) = gate ci k ms \<and>
   snd (rfb_loop ci hr fired k (concat (map enc ms))) = RfbDone"
proof (induction ms arbitrary: fired k)
  case (Cons m ms)
  show ?case
  proof (cases m)
    case (Plain t p)
    with Cons turn_plain [of t p] show ?thesis by (simp add: Let_def case_prod_beta)
  next
    case (Input t p)
    with Cons turn_input [of t p] show ?thesis by (simp add: Let_def case_prod_beta)
  next
    case (Oversized p)
    with Cons turn_oversized [of p] show ?thesis by auto
  qed
qed simp

lemma loop_any:
  "\<exists>ms rest. list_all valid ms \<and> src = concat (map enc ms) @ rest \<and> emits (fst (rfb_loop ci hr fired k src)) = gate ci k ms"
proof (induction ci hr fired k src rule: rfb_loop.induct)
  case (1 ci hr fired k)
  show ?case by (rule exI [of _ "[]"]) simp
next
  case (2 ci hr fired k t src)
  show ?case
  proof (cases "rfb_message t src")
    case (Forward m r)
    obtain p where p: "m = t # p" "src = p @ r" "valid (Plain t p)" using turn_valid(1) [OF Forward] by blast
    let ?f = "fired \<or> t = FRAMEBUFFER_UPDATE_REQUEST \<and> hr \<and> \<not> fired"
    obtain ms rest where "list_all valid ms" "r = concat (map enc ms) @ rest" "emits (fst (rfb_loop ci hr ?f k r)) = gate ci k ms"
      using "2.IH"(1) [OF Forward refl] by blast
    with Forward p show ?thesis
      by (intro exI [of _ "Plain t p # ms"] exI [of _ rest]) (simp_all add: Let_def case_prod_beta)
  next
    case (Gate m r)
    obtain p where p: "m = t # p" "src = p @ r" "valid (Input t p)" using turn_valid(2) [OF Gate] by blast
    obtain ms rest where "list_all valid ms" "r = concat (map enc ms) @ rest"
      "emits (fst (rfb_loop ci hr fired (k + 1) r)) = gate ci (k + 1) ms"
      using "2.IH"(2) [OF Gate] by blast
    with Gate p show ?thesis
      by (intro exI [of _ "Input t p # ms"] exI [of _ rest]) (simp_all add: Let_def case_prod_beta)
  next
    case (Skip r)
    obtain p where p: "t = CLIENT_CUT_TEXT" "src = p @ r" "valid (Oversized p)" using turn_valid(3) [OF Skip] by blast
    obtain ms rest where "list_all valid ms" "r = concat (map enc ms) @ rest" "emits (fst (rfb_loop ci hr fired k r)) = gate ci k ms"
      using "2.IH"(3) [OF Skip] by blast
    with Skip p show ?thesis
      by (intro exI [of _ "Oversized p # ms"] exI [of _ rest]) auto
  next
    case (Stop e)
    then show ?thesis by (intro exI [of _ "[]"] exI [of _ "t # src"]) simp
  qed
qed

subsection \<open>Properties\<close>

text \<open>C27: The filter passes a well-formed session exactly: after the handshake, on any sequence of client
  messages it writes, each in one piece and in order, every message that is not an input message and
  of the input messages exactly those the callback allowed when it was asked, one question per input
  message; oversized clipboards are dropped without a question and the relay goes on to the next
  message and ends normally.\<close>

theorem rfb_filter_exact:
  assumes "length v = 12" "list_all valid ms"
  shows "emits (fst (filter_rfb_client_input ci hr (v @ [1, i] @ concat (map enc ms)))) = v # [1] # [i] # gate ci 0 ms \<and>
         snd (filter_rfb_client_input ci hr (v @ [1, i] @ concat (map enc ms))) = RfbDone"
proof -
  have "read_exact 12 (v @ [1, i] @ concat (map enc ms)) = Some (v, [1, i] @ concat (map enc ms))"
    using assms(1) by (simp add: read_exact_append)
  moreover have "read_exact 1 ([1, i] @ concat (map enc ms)) = Some ([1], i # concat (map enc ms))"
    and "read_exact 1 (i # concat (map enc ms)) = Some ([i], concat (map enc ms))"
    by (simp_all add: read_exact_def)
  ultimately show ?thesis
    using loop_messages [OF assms(2), of ci hr False 0]
    by (simp add: filter_rfb_client_input_def Let_def case_prod_beta)
qed

definition demo_version :: "octet list" where "demo_version = replicate 12 65"

definition demo_messages :: "rfb_msg list" where
  "demo_messages = [Plain 2 [0, 0, 1, 0, 0, 0, 7], Input 4 [1, 0, 0, 0, 0, 0, 97], Input 5 [0, 0, 3, 0, 4],
     Plain 3 [0, 0, 0, 0, 0, 9, 9, 9, 9]]"

lemma demo_valid: "list_all valid demo_messages"
  by (simp add: demo_messages_def msg_defs be16_def)

theorem rfb_filter_exact_witness:
  "emits (fst (filter_rfb_client_input (Some (\<lambda>k. k = 0)) True (demo_version @ [1, 0] @ concat (map enc demo_messages)))) =
     [demo_version, [1], [0], [2, 0, 0, 1, 0, 0, 0, 7], [4, 1, 0, 0, 0, 0, 0, 97], [3, 0, 0, 0, 0, 0, 9, 9, 9, 9]]"
  using rfb_filter_exact [OF _ demo_valid, of demo_version "Some (\<lambda>k. k = 0)" True 0]
  by (simp add: demo_version_def) (simp add: demo_messages_def allowed_def)

lemma subseq_pre [simp]: "subseq v (v @ r)"
  by (induction v) auto

lemma subseq_pre2 [simp]: "subseq (v @ w) (v @ w @ r)"
  using subseq_pre [of "v @ w" r] by simp

lemma gate_sub: "subseq (concat (gate ci k ms)) (concat (map enc ms))"
proof (induction ci k ms rule: gate.induct)
  case (3 ci k t p ms)
  then show ?case using list_emb_append_mono [OF subseq_order.refl, of _ _ "t # p"] by (auto intro: list_emb_append2)
next
  case (4 ci k p ms)
  then show ?case by (auto intro: list_emb_append2 list_emb_Cons)
qed (auto intro: list_emb_append_mono)

fun is_plain :: "rfb_msg \<Rightarrow> bool" where
  "is_plain (Plain t p) = True"
| "is_plain _ = False"

lemma gate_closed: "(\<And>k. \<not> allowed ci k) \<Longrightarrow> gate ci k ms = map enc (filter is_plain ms)"
  by (induction ci k ms rule: gate.induct) auto

lemma filter_any:
  "\<exists>hs ms. length hs \<le> 3 \<and> list_all valid ms \<and> emits (fst (filter_rfb_client_input ci hr src)) = hs @ gate ci 0 ms \<and>
     subseq (concat (emits (fst (filter_rfb_client_input ci hr src)))) src"
proof -
  have short: "\<exists>hs ms. length hs \<le> 3 \<and> list_all valid ms \<and> emits out = hs @ gate ci 0 ms \<and> subseq (concat (emits out)) src"
    if "length (emits out) \<le> 3" "subseq (concat (emits out)) src" for out
    using that by (intro exI [of _ "emits out"] exI [of _ "[]"]) simp
  show ?thesis
  proof (cases "read_exact 12 src")
    case None
    then show ?thesis by (intro short) (simp_all add: filter_rfb_client_input_def)
  next
    case (Some vr)
    obtain v r1 where v: "vr = (v, r1)" "src = v @ r1" using Some by (cases vr) (auto simp: read_exact_Some)
    show ?thesis
    proof (cases "read_exact 1 r1")
      case None
      then show ?thesis using Some v by (intro short) (simp_all add: filter_rfb_client_input_def)
    next
      case (Some sr)
      note S = \<open>read_exact 12 src = Some vr\<close> Some
      obtain sec r2 where s: "sr = (sec, r2)" "r1 = sec @ r2" using Some by (cases sr) (auto simp: read_exact_Some)
      show ?thesis
      proof (cases "sec ! 0 \<noteq> 1 \<or> read_exact 1 r2 = None")
        case True
        then show ?thesis using S v s by (intro short) (auto simp: filter_rfb_client_input_def)
      next
        case False
        then obtain ci' r3 where c: "read_exact 1 r2 = Some (ci', r3)" "sec ! 0 = 1" by auto
        then have r2: "r2 = ci' @ r3" by (simp add: read_exact_Some)
        obtain ms rest where ms: "list_all valid ms" "r3 = concat (map enc ms) @ rest"
          "emits (fst (rfb_loop ci hr False 0 r3)) = gate ci 0 ms" using loop_any by blast
        have e: "emits (fst (filter_rfb_client_input ci hr src)) = [v, sec, ci'] @ gate ci 0 ms"
          using S v s c ms(3) by (simp add: filter_rfb_client_input_def Let_def case_prod_beta)
        have "subseq (concat (gate ci 0 ms)) r3"
          using subseq_order.trans [OF gate_sub [of ci 0 ms] subseq_pre [of _ rest]] ms(2) by simp
        with e ms(1) v s r2 show ?thesis
              by (intro exI [of _ "[v, sec, ci']"] exI [of _ ms]) (simp add: subseq_append')
      qed
    qed
  qed
qed

text \<open>C26: The filter fails closed on any byte stream: as long as the callback never allows (or there is
  none), what is written after the three handshake pieces consists of whole messages that are no
  input messages, so no key, pointer or clipboard message and no fragment of one gets through; and
  whatever the callback says, the bytes written are a subsequence of those read.\<close>

theorem rfb_filter_fails_closed:
  assumes "\<And>k. \<not> allowed ci k"
  shows "\<exists>hs ms. length hs \<le> 3 \<and> list_all valid ms \<and> list_all is_plain ms \<and>
      emits (fst (filter_rfb_client_input ci hr src)) = hs @ map enc ms \<and>
      subseq (concat (emits (fst (filter_rfb_client_input ci hr src)))) src"
proof -
  obtain hs ms where h: "length hs \<le> 3" "list_all valid ms"
    "emits (fst (filter_rfb_client_input ci hr src)) = hs @ gate ci 0 ms"
    "subseq (concat (emits (fst (filter_rfb_client_input ci hr src)))) src" using filter_any by blast
  have "list_all valid (filter is_plain ms)" "list_all is_plain (filter is_plain ms)"
    using h(2) by (auto simp: list_all_iff)
  then show ?thesis using h gate_closed [OF assms, of 0 ms] by metis
qed

theorem rfb_filter_fails_closed_witness:
  "\<exists>hs ms. length hs \<le> 3 \<and> list_all is_plain ms \<and>
     emits (fst (filter_rfb_client_input None False (demo_version @ [1, 0, 4, 1, 0, 0, 0, 0, 0, 97, 3]))) = hs @ map enc ms"
  using rfb_filter_fails_closed [of None False "demo_version @ [1, 0, 4, 1, 0, 0, 0, 0, 0, 97, 3]"]
  by (auto simp: allowed_def)

end
