(* ===== verification/Invites.thy ===== *)
theory Invites
  imports Utf8
begin

text \<open>
  One-time tunnel invites (\<open>server/tunnel_invites.py\<close>) and the hashed tokens they are stored under
  (\<open>tunnel/token_hash.py\<close>). The digest is the parameter \<open>blake\<close>; the tokens are drawn from
  \<open>secrets.token_urlsafe\<close> and come in as arguments. What is assumed of the digest is stated where it
  is used: that it tells the tokens in play apart.
\<close>

definition hash_token :: "(pystr \<Rightarrow> pystr) \<Rightarrow> pystr \<Rightarrow> pystr" where
  "hash_token blake plain = (if plain = [] then [] else blake plain)"

definition verify_token :: "(pystr \<Rightarrow> pystr) \<Rightarrow> pystr \<Rightarrow> pystr \<Rightarrow> bool" where
  "verify_token blake plain stored_hash =
     (if plain = [] \<or> stored_hash = [] then False else hash_token blake plain = stored_hash)"

definition INVITE_TTL_S :: real where "INVITE_TTL_S = 300"

definition VIEWER :: pystr where "VIEWER = [118, 105, 101, 119, 101, 114]"
definition OPERATOR :: pystr where "OPERATOR = [111, 112, 101, 114, 97, 116, 111, 114]"

text \<open>A stored entry; \<open>expires_at\<close> is \<open>None\<close> for a value that is no number.\<close>

record stored_invite =
  si_session_id :: pystr
  si_role :: pystr
  si_tunnel_token :: pystr
  si_expires_at :: "time option"
  si_issued_ip :: "pystr option"

record tunnel_invite =
  ti_session_id :: pystr
  ti_role :: pystr
  ti_tunnel_token :: pystr
  ti_expires_at :: time
  ti_issued_ip :: "pystr option"

type_synonym invite_store = "(pystr \<times> stored_invite) list"

definition issue_tunnel_invites ::
  "(pystr \<Rightarrow> pystr) \<Rightarrow> pystr \<Rightarrow> pystr \<Rightarrow> pystr \<Rightarrow> pystr \<Rightarrow> pystr \<Rightarrow> time \<Rightarrow> pystr option \<Rightarrow> time \<Rightarrow>
   invite_store \<Rightarrow> invite_store" where
  "issue_tunnel_invites blake share_invite control_invite sid share_token control_token tunnel_expires_at ip now d =
     (let expires = Some (min tunnel_expires_at (now + INVITE_TTL_S));
          d1 = od_set d (hash_token blake share_invite)
                 \<lparr>si_session_id = sid, si_role = VIEWER, si_tunnel_token = share_token, si_expires_at = expires, si_issued_ip = ip\<rparr>
      in od_set d1 (hash_token blake control_invite)
           \<lparr>si_session_id = sid, si_role = OPERATOR, si_tunnel_token = control_token, si_expires_at = expires, si_issued_ip = ip\<rparr>)"

definition consume_tunnel_invite ::
  "(pystr \<Rightarrow> pystr) \<Rightarrow> pystr \<Rightarrow> time \<Rightarrow> pystr \<Rightarrow> invite_store \<Rightarrow> tunnel_invite option \<times> invite_store" where
  "consume_tunnel_invite blake sid now invite d =
     (let value = py_strip invite
      in if value = [] then (None, d)
         else let h = hash_token blake value
              in case od_get d h of
                   None \<Rightarrow> (None, d)
                 | Some raw \<Rightarrow>
                     let d' = od_pop d h
                     in case si_expires_at raw of
                          None \<Rightarrow> (None, d')
                        | Some expires_at \<Rightarrow>
                            if expires_at < now then (None, d')
                            else if si_session_id raw \<noteq> sid then (None, d')
                            else if si_role raw \<notin> {VIEWER, OPERATOR} then (None, d')
                            else if py_strip (si_tunnel_token raw) = [] then (None, d')
                            else (Some \<lparr>ti_session_id = sid, ti_role = si_role raw,
                                        ti_tunnel_token = py_strip (si_tunnel_token raw),
                                        ti_expires_at = expires_at, ti_issued_ip = si_issued_ip raw\<rparr>, d'))"

definition discard_tunnel_invites_for_session :: "pystr \<Rightarrow> invite_store \<Rightarrow> invite_store" where
  "discard_tunnel_invites_for_session sid d =
     fold (\<lambda>k d. od_pop d k) (map fst (filter (\<lambda>(k, v). si_session_id v = sid) d)) d"

definition sweep_expired_tunnel_invites :: "time \<Rightarrow> invite_store \<Rightarrow> invite_store" where
  "sweep_expired_tunnel_invites now d =
     fold (\<lambda>k d. od_pop d k)
       (map fst (filter (\<lambda>(k, v). case si_expires_at v of None \<Rightarrow> False | Some t \<Rightarrow> t < now) d)) d"

definition invite_matches_token_hash :: "(pystr \<Rightarrow> pystr) \<Rightarrow> tunnel_invite \<Rightarrow> pystr \<Rightarrow> bool" where
  "invite_matches_token_hash blake invite token_hash = verify_token blake (ti_tunnel_token invite) token_hash"

subsection \<open>Runs\<close>

datatype invite_event =
    IvIssue pystr pystr pystr pystr pystr time "pystr option" time
  | IvConsume pystr time pystr
  | IvDiscard pystr
  | IvSweep time

fun invite_apply :: "(pystr \<Rightarrow> pystr) \<Rightarrow> invite_event \<Rightarrow> invite_store \<Rightarrow> invite_store" where
  "invite_apply blake (IvIssue si ci sid st ct te ip now) d = issue_tunnel_invites blake si ci sid st ct te ip now d"
| "invite_apply blake (IvConsume sid now i) d = snd (consume_tunnel_invite blake sid now i d)"
| "invite_apply blake (IvDiscard sid) d = discard_tunnel_invites_for_session sid d"
| "invite_apply blake (IvSweep now) d = sweep_expired_tunnel_invites now d"

lemma invite_apply_ok: "od_ok d \<Longrightarrow> od_ok (invite_apply blake e d)"
  by (cases e)
     (auto simp: issue_tunnel_invites_def consume_tunnel_invite_def discard_tunnel_invites_for_session_def
        sweep_expired_tunnel_invites_def Let_def od_ok_set od_ok_pop od_filter_pops split: option.splits)

lemma invite_run_ok: "od_ok d \<Longrightarrow> od_ok (fold (invite_apply blake) es d)"
  by (induction es arbitrary: d) (simp_all add: invite_apply_ok)

text \<open>The key an invite is stored under, and the events that issue an invite under it.\<close>

definition invite_key :: "(pystr \<Rightarrow> pystr) \<Rightarrow> pystr \<Rightarrow> pystr" where
  "invite_key blake invite = hash_token blake (py_strip invite)"

fun issues :: "(pystr \<Rightarrow> pystr) \<Rightarrow> pystr \<Rightarrow> invite_event \<Rightarrow> bool" where
  "issues blake k (IvIssue si ci sid st ct te ip now) = (hash_token blake si = k \<or> hash_token blake ci = k)"
| "issues blake k _ = False"

lemma consume_get:
  assumes "od_ok d"
  shows "od_get (snd (consume_tunnel_invite blake sid now i d)) k =
    (if py_strip i \<noteq> [] \<and> k = invite_key blake i then None else od_get d k)"
  using assms by (auto simp: consume_tunnel_invite_def invite_key_def Let_def split: option.splits)

lemma gone_stays:
  "od_ok d \<Longrightarrow> od_get d k = None \<Longrightarrow> \<not> issues blake k e \<Longrightarrow> od_get (invite_apply blake e d) k = None"
  by (cases e)
     (auto simp: consume_get issue_tunnel_invites_def discard_tunnel_invites_for_session_def
        sweep_expired_tunnel_invites_def Let_def od_filter_pops)

lemma consume_Some:
  "consume_tunnel_invite blake sid now i d = (Some r, d') \<Longrightarrow> od_ok d \<Longrightarrow>
   py_strip i \<noteq> [] \<and> od_ok d' \<and> od_get d' (invite_key blake i) = None"
  by (auto simp: consume_tunnel_invite_def invite_key_def Let_def od_ok_pop split: option.splits if_splits)

interpretation invite: single_use "\<lambda>(sid, now) i d. consume_tunnel_invite blake sid now i d" "invite_apply blake"
  "\<lambda>i d. od_get d (invite_key blake i) = None" od_ok "\<lambda>_. True" "\<lambda>i e. \<not> issues blake (invite_key blake i) e"
  for blake
proof unfold_locales
  show "od_ok s' \<and> od_get s' (invite_key blake k) = None"
    if "od_ok s" "(case a of (sid, now) \<Rightarrow> consume_tunnel_invite blake sid now) k s = (Some r, s')" for a k s s' r
    using that consume_Some by (auto split: prod.splits)
  show "fst ((case a of (sid, now) \<Rightarrow> consume_tunnel_invite blake sid now) k s) = None"
    if "od_get s (invite_key blake k) = None" for a k s
    using that by (auto simp: consume_tunnel_invite_def invite_key_def Let_def split: prod.splits)
qed (auto simp: invite_apply_ok gone_stays)

subsection \<open>Properties\<close>

text \<open>What leaves a stored invite of session \<open>sid\<close> under key \<open>k\<close> in place until its deadline.\<close>

fun spares :: "(pystr \<Rightarrow> pystr) \<Rightarrow> pystr \<Rightarrow> pystr \<Rightarrow> time \<Rightarrow> invite_event \<Rightarrow> bool" where
  "spares blake k sid dl (IvIssue si ci sid' st ct te ip now) \<longleftrightarrow> hash_token blake si \<noteq> k \<and> hash_token blake ci \<noteq> k"
| "spares blake k sid dl (IvConsume sid' now i) \<longleftrightarrow> invite_key blake i \<noteq> k"
| "spares blake k sid dl (IvDiscard sid') \<longleftrightarrow> sid' \<noteq> sid"
| "spares blake k sid dl (IvSweep now) \<longleftrightarrow> now \<le> dl"

lemma spares_run:
  "od_ok d \<Longrightarrow> od_get d k = Some v \<Longrightarrow> si_expires_at v = Some dl \<Longrightarrow>
   list_all (spares blake k (si_session_id v) dl) es \<Longrightarrow> od_get (fold (invite_apply blake) es d) k = Some v"
proof (induction es arbitrary: d)
  case (Cons e es)
  have "od_get (invite_apply blake e d) k = Some v"
    using Cons.prems
    by (cases e) (auto simp: consume_get issue_tunnel_invites_def discard_tunnel_invites_for_session_def
        sweep_expired_tunnel_invites_def Let_def od_filter_pops)
  with Cons show ?case by (simp add: invite_apply_ok)
qed simp

text \<open>A tunnel invite is redeemed exactly once: the viewer invite of an issued pair, presented for its
  session by its deadline (five minutes after it was issued, or the tunnel's own end) after any other
  issuing, redeeming, discarding of other sessions and sweeping, yields the viewer role and the share
  token; after the deadline it yields nothing; and once it has been redeemed no later presentation of
  it, for whatever session, yields anything -- provided the digest tells the tokens apart.\<close>

theorem invite_redeemed_once:
  fixes now ttl_end :: time
  assumes "od_ok d" "py_strip si = si" "si \<noteq> []" "hash_token blake si \<noteq> hash_token blake ci" "py_strip st \<noteq> []"
    and "list_all (spares blake (hash_token blake si) sid (min ttl_end (now + 300))) es"
    and "list_all (\<lambda>e. \<not> issues blake (hash_token blake si) e) es'"
    and u: "u = fold (invite_apply blake) es (issue_tunnel_invites blake si ci sid st ct ttl_end ip now d)"
  shows "fst (consume_tunnel_invite blake sid t si u) =
      (if t \<le> min ttl_end (now + 300)
       then Some \<lparr>ti_session_id = sid, ti_role = VIEWER, ti_tunnel_token = py_strip st,
                  ti_expires_at = min ttl_end (now + 300), ti_issued_ip = ip\<rparr>
       else None) \<and>
    fst (consume_tunnel_invite blake sid' t' si
          (fold (invite_apply blake) es' (snd (consume_tunnel_invite blake sid t si u)))) = None"
proof -
  let ?k = "hash_token blake si" and ?dl = "min ttl_end (now + 300)"
  let ?v = "\<lparr>si_session_id = sid, si_role = VIEWER, si_tunnel_token = st, si_expires_at = Some ?dl, si_issued_ip = ip\<rparr>"
  let ?d = "issue_tunnel_invites blake si ci sid st ct ttl_end ip now d"
  have ok: "od_ok ?d" and g: "od_get ?d ?k = Some ?v"
    using assms(1,4) by (auto simp: issue_tunnel_invites_def Let_def od_ok_set INVITE_TTL_S_def)
  have got: "od_get u ?k = Some ?v" "od_ok u"
    using spares_run [OF ok g, of ?dl blake es] assms(6) invite_run_ok [OF ok] by (simp_all add: u)
  have first: "fst (consume_tunnel_invite blake sid t si u) =
      (if t \<le> ?dl then Some \<lparr>ti_session_id = sid, ti_role = VIEWER, ti_tunnel_token = py_strip st,
                  ti_expires_at = ?dl, ti_issued_ip = ip\<rparr> else None)"
    using got(1) assms(2,3,5) by (auto simp: consume_tunnel_invite_def Let_def)
  let ?w = "snd (consume_tunnel_invite blake sid t si u)"
  have k: "invite_key blake si = ?k" using assms(2) by (simp add: invite_key_def)
  have "od_get ?w (invite_key blake si) = None" "od_ok ?w"
    using consume_get [OF got(2), of blake sid t si ?k] invite_apply_ok [OF got(2), of blake "IvConsume sid t si"] assms(2,3)
    by (simp_all add: k)
  from invite.spent_run [OF this(2,1)] assms(7)
  have "od_get (fold (invite_apply blake) es' ?w) (invite_key blake si) = None" by (simp add: k)
  from invite.spent_refuses [OF this, of "(sid', t')"] first show ?thesis by simp
qed

theorem invite_redeemed_once_witness:
  "fst (consume_tunnel_invite (\<lambda>s. s) [1] 40 [97]
      (fold (invite_apply (\<lambda>s. s)) [IvConsume [1] 20 [98], IvSweep 30, IvDiscard [2]]
        (issue_tunnel_invites (\<lambda>s. s) [97] [98] [1] [115] [99] 500 None 10 []))) =
   Some \<lparr>ti_session_id = [1], ti_role = VIEWER, ti_tunnel_token = [115], ti_expires_at = 310, ti_issued_ip = None\<rparr>"
proof -
  have s: "py_strip [97] = [97]" "py_strip [98] = [98]" "py_strip [115] = [115]"
    by (simp_all add: py_strip_def py_space_def)
  have "list_all (spares (\<lambda>s. s) (hash_token (\<lambda>s. s) [97]) [1] (min 500 (10 + 300))) [IvConsume [1] 20 [98], IvSweep 30, IvDiscard [2]]"
    by (simp add: invite_key_def hash_token_def s)
  from invite_redeemed_once [OF _ s(1) _ _ _ this _ refl, where d = "[]" and es' = "[]" and st = "[115]" and ci = "[98]" and t = 40]
  show ?thesis by (simp add: hash_token_def s del: fold.simps)
qed

end
