(* ===== verification/WatchPattern.thy ===== *)
theory WatchPattern
  imports Utf8
begin

text \<open>
  The check that refuses watch patterns with catastrophic backtracking
  (\<open>_validate_pattern_safety\<close> of \<open>server/bridge/hub/event_bus.py\<close>) before \<open>re.compile\<close> sees them, and
  the two places that compile with it. The scan keeps what the code's variables keep; the rest of the
  pattern stands for its index. \<open>digit\<close> is \<open>str.isdigit\<close> of one character and \<open>re_compile\<close> the
  regular-expression compiler.
\<close>

subsection \<open>The scan\<close>

abbreviation C_BACKSLASH :: cp where "C_BACKSLASH \<equiv> 92"
abbreviation C_LBRACKET :: cp where "C_LBRACKET \<equiv> 91"
abbreviation C_RBRACKET :: cp where "C_RBRACKET \<equiv> 93"
abbreviation C_LPAREN :: cp where "C_LPAREN \<equiv> 40"
abbreviation C_RPAREN :: cp where "C_RPAREN \<equiv> 41"
abbreviation C_LBRACE :: cp where "C_LBRACE \<equiv> 123"
abbreviation C_RBRACE :: cp where "C_RBRACE \<equiv> 125"
abbreviation C_QUESTION :: cp where "C_QUESTION \<equiv> 63"
abbreviation C_LESS :: cp where "C_LESS \<equiv> 60"
abbreviation C_GREATER :: cp where "C_GREATER \<equiv> 62"
abbreviation C_EQUALS :: cp where "C_EQUALS \<equiv> 61"
abbreviation C_BANG :: cp where "C_BANG \<equiv> 33"
abbreviation C_COLON :: cp where "C_COLON \<equiv> 58"
abbreviation C_P :: cp where "C_P \<equiv> 80"
abbreviation C_BAR :: cp where "C_BAR \<equiv> 124"
abbreviation C_PLUS :: cp where "C_PLUS \<equiv> 43"
abbreviation C_STAR :: cp where "C_STAR \<equiv> 42"
abbreviation C_COMMA :: cp where "C_COMMA \<equiv> 44"

datatype prev_kind = PrevNone | PrevLiteral | PrevGroup | PrevAlternation | PrevQuantifier

datatype unsafe = NestedQuantifier | QuantifiedAlternation

text \<open>The top of the group stack is its head; a frame is [has_inner_quantifier, has_alternation].\<close>

record pattern_state =
  ps_stack :: "(bool \<times> bool) list"
  ps_prev :: prev_kind
  ps_closed_quantifier :: bool
  ps_closed_alternation :: bool
  ps_escaped :: bool
  ps_in_class :: bool

definition pattern_start :: pattern_state where
  "pattern_start = \<lparr>ps_stack = [], ps_prev = PrevNone, ps_closed_quantifier = False,
     ps_closed_alternation = False, ps_escaped = False, ps_in_class = False\<rparr>"

text \<open>\<open>pattern[i:]\<close> after \<open>pattern.find(c, i)\<close> and one more step, when \<open>c\<close> occurs.\<close>

definition past :: "cp \<Rightarrow> pystr \<Rightarrow> pystr" where
  "past c s = tl (dropWhile (\<lambda>x. x \<noteq> c) s)"

text \<open>\<open>_looks_like_counted_quantifier\<close>, on what follows the brace; \<open>body.partition(",")\<close> written out.\<close>

definition all_digits :: "(cp \<Rightarrow> bool) \<Rightarrow> pystr \<Rightarrow> bool" where
  "all_digits digit s \<longleftrightarrow> s \<noteq> [] \<and> list_all digit s"

definition counted_quantifier :: "(cp \<Rightarrow> bool) \<Rightarrow> pystr \<Rightarrow> bool" where
  "counted_quantifier digit s =
     (if C_RBRACE \<notin> set s then False
      else
        let body = takeWhile (\<lambda>x. x \<noteq> C_RBRACE) s
        in if body = [] then False
           else
             let left = takeWhile (\<lambda>x. x \<noteq> C_COMMA) body; sep = (C_COMMA \<in> set body); right = past C_COMMA body
             in all_digits digit left \<and> (\<not> sep \<or> right = [] \<or> all_digits digit right))"

text \<open>The group prefix after an opening parenthesis.\<close>

definition skip_prefix :: "pystr \<Rightarrow> pystr" where
  "skip_prefix s =
     (case s of
        c # r \<Rightarrow>
          if c \<noteq> C_QUESTION then s
          else
            (case r of
               [] \<Rightarrow> []
             | d # r' \<Rightarrow>
                 if d = C_LESS \<and> r' \<noteq> [] \<and> hd r' \<in> {C_EQUALS, C_BANG} then tl r'
                 else if d = C_P then (if C_GREATER \<in> set r then past C_GREATER r else r)
                 else if d \<in> {C_COLON, C_EQUALS, C_BANG} then r'
                 else r)
      | [] \<Rightarrow> [])"

text \<open>\<open>group_stack[-1][k] = True\<close> for either flag, when there is an open group.\<close>

fun mark_top :: "bool \<Rightarrow> bool \<Rightarrow> (bool \<times> bool) list \<Rightarrow> (bool \<times> bool) list" where
  "mark_top q a [] = []"
| "mark_top q a ((q', a') # st) = (q' \<or> q, a' \<or> a) # st"

text \<open>One turn of the loop at character \<open>c\<close>, with \<open>rest\<close> behind it.\<close>

definition pattern_turn :: "(cp \<Rightarrow> bool) \<Rightarrow> pattern_state \<Rightarrow> cp \<Rightarrow> pystr \<Rightarrow> unsafe + (pattern_state \<times> pystr)" where
  "pattern_turn digit s c rest =
     (if ps_escaped s then Inr (s\<lparr>ps_escaped := False, ps_prev := PrevLiteral\<rparr>, rest)
      else if c = C_BACKSLASH then Inr (s\<lparr>ps_escaped := True\<rparr>, rest)
      else if ps_in_class s then
        Inr (if c = C_RBRACKET then s\<lparr>ps_in_class := False, ps_prev := PrevLiteral\<rparr> else s, rest)
      else if c = C_LBRACKET then Inr (s\<lparr>ps_in_class := True\<rparr>, rest)
      else if c = C_LPAREN then
        Inr (s\<lparr>ps_stack := (False, False) # ps_stack s, ps_prev := PrevNone,
               ps_closed_quantifier := False, ps_closed_alternation := False\<rparr>, skip_prefix rest)
      else if c = C_RPAREN \<and> ps_stack s \<noteq> [] then
        (let (q, a) = hd (ps_stack s)
         in Inr (s\<lparr>ps_stack := mark_top q a (tl (ps_stack s)), ps_prev := PrevGroup,
                   ps_closed_quantifier := q, ps_closed_alternation := a\<rparr>, rest))
      else if c = C_BAR then
        Inr (s\<lparr>ps_stack := mark_top False True (ps_stack s), ps_prev := PrevAlternation\<rparr>, rest)
      else if c \<in> {C_PLUS, C_STAR} \<or> (c = C_LBRACE \<and> counted_quantifier digit rest) then
        (if ps_prev s = PrevGroup \<and> ps_closed_quantifier s then Inl NestedQuantifier
         else if ps_prev s = PrevGroup \<and> ps_closed_alternation s then Inl QuantifiedAlternation
         else Inr (s\<lparr>ps_stack := mark_top True False (ps_stack s), ps_prev := PrevQuantifier\<rparr>,
                   if c = C_LBRACE then past C_RBRACE rest else rest))
      else Inr (s\<lparr>ps_prev := PrevLiteral, ps_closed_quantifier := False, ps_closed_alternation := False\<rparr>, rest))"

lemma past_le: "length (past c s) \<le> length s"
  using length_dropWhile_le [of "\<lambda>x. x \<noteq> c" s] by (simp add: past_def)

lemma skip_prefix_le: "length (skip_prefix s) \<le> length s"
  using past_le [of C_GREATER "tl s"] by (auto simp: skip_prefix_def split: list.splits)

lemma pattern_turn_le: "pattern_turn digit s c rest = Inr (s', rest') \<Longrightarrow> length rest' \<le> length rest"
  using past_le [of C_RBRACE rest] skip_prefix_le [of rest]
  by (auto simp: pattern_turn_def Let_def split: if_splits prod.splits)

function pattern_scan :: "(cp \<Rightarrow> bool) \<Rightarrow> pattern_state \<Rightarrow> pystr \<Rightarrow> unsafe option" where
  "pattern_scan digit s [] = None"
| "pattern_scan digit s (c # rest) =
     (case pattern_turn digit s c rest of
        Inl e \<Rightarrow> Some e
      | Inr (s', rest') \<Rightarrow> pattern_scan digit s' rest')"
  by pat_completeness auto
termination
  by (relation "measure (\<lambda>(d, s, r). length r)") (auto dest: pattern_turn_le simp: less_Suc_eq_le)

definition validate_pattern_safety :: "(cp \<Rightarrow> bool) \<Rightarrow> pystr \<Rightarrow> unsafe option" where
  "validate_pattern_safety digit p = pattern_scan digit pattern_start p"

subsection \<open>Compiling\<close>

datatype pattern_error = PatternTooLong | PatternUnsafe unsafe | PatternInvalid

text \<open>\<open>_compile_pattern\<close>\<close>

definition compile_pattern ::
  "(cp \<Rightarrow> bool) \<Rightarrow> (pystr \<Rightarrow> (pystr \<Rightarrow> bool) option) \<Rightarrow> nat \<Rightarrow> pystr option \<Rightarrow> pattern_error + (pystr \<Rightarrow> bool) option" where
  "compile_pattern digit re_compile max_len pattern =
     (case pattern of
        None \<Rightarrow> Inr None
      | Some p \<Rightarrow>
          if max 1 max_len < length p then Inl PatternTooLong
          else case validate_pattern_safety digit p of
                 Some e \<Rightarrow> Inl (PatternUnsafe e)
               | None \<Rightarrow> (case re_compile p of None \<Rightarrow> Inl PatternInvalid | Some search \<Rightarrow> Inr (Some search)))"

text \<open>\<open>compile_expect_regex\<close> of \<open>server/bridge/rest_helpers.py\<close>\<close>

definition compile_expect_regex ::
  "(cp \<Rightarrow> bool) \<Rightarrow> (pystr \<Rightarrow> (pystr \<Rightarrow> bool) option) \<Rightarrow> nat \<Rightarrow> pystr option \<Rightarrow> pattern_error + (pystr \<Rightarrow> bool) option" where
  "compile_expect_regex digit re_compile max_len pattern =
     (case pattern of
        None \<Rightarrow> Inr None
      | Some p \<Rightarrow>
          if p = [] then Inr None
          else if max_len < length p then Inl PatternTooLong
          else case validate_pattern_safety digit p of
                 Some e \<Rightarrow> Inl (PatternUnsafe e)
               | None \<Rightarrow> (case re_compile p of None \<Rightarrow> Inl PatternInvalid | Some search \<Rightarrow> Inr (Some search)))"

subsection \<open>Patterns as trees\<close>

text \<open>
  The part of the pattern syntax the check reads: plain and escaped characters, character classes,
  groups with their prefixes, alternation bars and the quantifiers \<open>+\<close>, \<open>*\<close> and \<open>{m,n}\<close>, which follow
  what they quantify.
\<close>

datatype group_prefix = Capturing | Marked cp | LookBehind cp | Named pystr

datatype quantifier = Plus | Star | Counted pystr "pystr option"

datatype rx = Chr cp | Esc cp | Cls pystr | Bar | Quant quantifier | Grp group_prefix "rx list"

fun show_prefix :: "group_prefix \<Rightarrow> pystr" where
  "show_prefix Capturing = []"
| "show_prefix (Marked c) = [C_QUESTION, c]"
| "show_prefix (LookBehind c) = [C_QUESTION, C_LESS, c]"
| "show_prefix (Named n) = [C_QUESTION, C_P, C_LESS] @ n @ [C_GREATER]"

fun show_quantifier :: "quantifier \<Rightarrow> pystr" where
  "show_quantifier Plus = [C_PLUS]"
| "show_quantifier Star = [C_STAR]"
| "show_quantifier (Counted m up) =
     C_LBRACE # m @ (case up of None \<Rightarrow> [] | Some n \<Rightarrow> C_COMMA # n) @ [C_RBRACE]"

function show_rx :: "rx list \<Rightarrow> pystr" where
  "show_rx [] = []"
| "show_rx (Chr c # xs) = c # show_rx xs"
| "show_rx (Esc c # xs) = C_BACKSLASH # c # show_rx xs"
| "show_rx (Cls cs # xs) = C_LBRACKET # cs @ C_RBRACKET # show_rx xs"
| "show_rx (Bar # xs) = C_BAR # show_rx xs"
| "show_rx (Quant q # xs) = show_quantifier q @ show_rx xs"
| "show_rx (Grp p ys # xs) = C_LPAREN # show_prefix p @ show_rx ys @ C_RPAREN # show_rx xs"
  by pat_completeness auto
termination by (relation "measure (size_list size)") auto

text \<open>What may stand in a tree, so that its text is read back as the tree.\<close>

definition specials :: "cp set" where
  "specials = {C_BACKSLASH, C_LBRACKET, C_LPAREN, C_RPAREN, C_BAR, C_PLUS, C_STAR, C_LBRACE}"

fun prefix_ok :: "group_prefix \<Rightarrow> rx list \<Rightarrow> bool" where
  "prefix_ok Capturing ys \<longleftrightarrow> (case ys of Chr c # _ \<Rightarrow> c \<noteq> C_QUESTION | _ \<Rightarrow> True)"
| "prefix_ok (Marked c) ys \<longleftrightarrow> c \<in> {C_COLON, C_EQUALS, C_BANG}"
| "prefix_ok (LookBehind c) ys \<longleftrightarrow> c \<in> {C_EQUALS, C_BANG}"
| "prefix_ok (Named n) ys \<longleftrightarrow> C_GREATER \<notin> set n"

fun quantifier_ok :: "(cp \<Rightarrow> bool) \<Rightarrow> quantifier \<Rightarrow> bool" where
  "quantifier_ok digit (Counted m up) \<longleftrightarrow>
     all_digits digit m \<and> (case up of None \<Rightarrow> True | Some n \<Rightarrow> list_all digit n)"
| "quantifier_ok digit q \<longleftrightarrow> True"

function rx_ok :: "(cp \<Rightarrow> bool) \<Rightarrow> rx list \<Rightarrow> bool" where
  "rx_ok digit [] \<longleftrightarrow> True"
| "rx_ok digit (Chr c # xs) \<longleftrightarrow> c \<notin> specials \<and> rx_ok digit xs"
| "rx_ok digit (Esc c # xs) \<longleftrightarrow> rx_ok digit xs"
| "rx_ok digit (Cls cs # xs) \<longleftrightarrow> C_RBRACKET \<notin> set cs \<and> C_BACKSLASH \<notin> set cs \<and> rx_ok digit xs"
| "rx_ok digit (Bar # xs) \<longleftrightarrow> rx_ok digit xs"
| "rx_ok digit (Quant q # xs) \<longleftrightarrow> quantifier_ok digit q \<and> rx_ok digit xs"
| "rx_ok digit (Grp p ys # xs) \<longleftrightarrow> prefix_ok p ys \<and> rx_ok digit ys \<and> rx_ok digit xs"
  by pat_completeness auto
termination by (relation "measure (\<lambda>(d, xs). size_list size xs)") auto

text \<open>
  The rule the check enforces: a group with a quantifier or an alternation anywhere in it is not
  itself quantified.
\<close>

function quantifies :: "rx list \<Rightarrow> bool" where
  "quantifies [] \<longleftrightarrow> False"
| "quantifies (Quant q # xs) \<longleftrightarrow> True"
| "quantifies (Grp p ys # xs) \<longleftrightarrow> quantifies ys \<or> quantifies xs"
| "quantifies (Chr c # xs) \<longleftrightarrow> quantifies xs"
| "quantifies (Esc c # xs) \<longleftrightarrow> quantifies xs"
| "quantifies (Cls cs # xs) \<longleftrightarrow> quantifies xs"
| "quantifies (Bar # xs) \<longleftrightarrow> quantifies xs"
  by pat_completeness auto
termination by (relation "measure (size_list size)") auto

function alternates :: "rx list \<Rightarrow> bool" where
  "alternates [] \<longleftrightarrow> False"
| "alternates (Bar # xs) \<longleftrightarrow> True"
| "alternates (Grp p ys # xs) \<longleftrightarrow> alternates ys \<or> alternates xs"
| "alternates (Chr c # xs) \<longleftrightarrow> alternates xs"
| "alternates (Esc c # xs) \<longleftrightarrow> alternates xs"
| "alternates (Cls cs # xs) \<longleftrightarrow> alternates xs"
| "alternates (Quant q # xs) \<longleftrightarrow> alternates xs"
  by pat_completeness auto
termination by (relation "measure (size_list size)") auto

fun quantified_next :: "rx list \<Rightarrow> bool" where
  "quantified_next (Quant q # xs) \<longleftrightarrow> True"
| "quantified_next _ \<longleftrightarrow> False"

function rx_safe :: "rx list \<Rightarrow> bool" where
  "rx_safe [] \<longleftrightarrow> True"
| "rx_safe (Grp p ys # xs) \<longleftrightarrow>
     rx_safe ys \<and> rx_safe xs \<and> \<not> (quantified_next xs \<and> (quantifies ys \<or> alternates ys))"
| "rx_safe (Chr c # xs) \<longleftrightarrow> rx_safe xs"
| "rx_safe (Esc c # xs) \<longleftrightarrow> rx_safe xs"
| "rx_safe (Cls cs # xs) \<longleftrightarrow> rx_safe xs"
| "rx_safe (Bar # xs) \<longleftrightarrow> rx_safe xs"
| "rx_safe (Quant q # xs) \<longleftrightarrow> rx_safe xs"
  by pat_completeness auto
termination by (relation "measure (size_list size)") auto

subsection \<open>The scan reads the tree\<close>

text \<open>Whether a quantifier here would be refused; and what the tokens of a tree leave of that.\<close>

definition danger :: "pattern_state \<Rightarrow> bool" where
  "danger s \<longleftrightarrow> ps_prev s = PrevGroup \<and> (ps_closed_quantifier s \<or> ps_closed_alternation s)"

definition between :: "pattern_state \<Rightarrow> bool" where
  "between s \<longleftrightarrow> \<not> ps_escaped s \<and> \<not> ps_in_class s"

lemma mark_top_simps [simp]:
  "mark_top False False st = st" "mark_top q a (mark_top q' a' st) = mark_top (q' \<or> q) (a' \<or> a) st"
  "mark_top q a st = [] \<longleftrightarrow> st = []"
  by (cases st; auto)+

lemma past_append: "c \<notin> set xs \<Longrightarrow> past c (xs @ c # r) = r"
  by (induction xs) (auto simp: past_def)

lemma before_append: "c \<notin> set xs \<Longrightarrow> takeWhile (\<lambda>x. x \<noteq> c) (xs @ c # r) = xs"
  by (induction xs) auto

lemma quantifier_head [simp]: "show_quantifier q @ r \<noteq> C_QUESTION # cs"
  by (cases q) auto

lemma skip_shown:
  assumes "prefix_ok p ys"
  shows "skip_prefix (show_prefix p @ show_rx ys @ C_RPAREN # r) = show_rx ys @ C_RPAREN # r"
proof (cases p)
  case Capturing
  show ?thesis
  proof (cases "show_rx ys")
    case Nil
    then show ?thesis using Capturing by (simp add: skip_prefix_def)
  next
    case (Cons c cs)
    then have "c \<noteq> C_QUESTION"
      using assms Capturing by (cases ys rule: show_rx.cases) auto
    then show ?thesis using Capturing Cons by (simp add: skip_prefix_def)
  qed
next
  case (Marked c)
  then show ?thesis using assms by (auto simp: skip_prefix_def)
next
  case (LookBehind c)
  then show ?thesis using assms by (auto simp: skip_prefix_def)
next
  case (Named n)
  then show ?thesis using assms past_append [of C_GREATER "C_P # C_LESS # n"] by (simp add: skip_prefix_def)
qed

lemma scan_class:
  "ps_in_class s \<Longrightarrow> \<not> ps_escaped s \<Longrightarrow> C_RBRACKET \<notin> set cs \<Longrightarrow> C_BACKSLASH \<notin> set cs \<Longrightarrow>
   pattern_scan digit s (cs @ C_RBRACKET # r) =
     pattern_scan digit (s\<lparr>ps_in_class := False, ps_prev := PrevLiteral\<rparr>) r"
  by (induction cs) (auto simp: pattern_turn_def)

lemma counted_shown:
  assumes "quantifier_ok digit (Counted m up)" "\<not> digit C_RBRACE" "\<not> digit C_COMMA"
  shows "\<exists>b. show_quantifier (Counted m up) = C_LBRACE # b @ [C_RBRACE] \<and>
    counted_quantifier digit (b @ C_RBRACE # r) \<and> past C_RBRACE (b @ C_RBRACE # r) = r"
proof -
  let ?b = "m @ (case up of None \<Rightarrow> [] | Some n \<Rightarrow> C_COMMA # n)"
  have m: "m \<noteq> []" "C_RBRACE \<notin> set m" "C_COMMA \<notin> set m" "list_all digit m"
    using assms by (auto simp: all_digits_def list_all_iff)
  have b: "C_RBRACE \<notin> set ?b" using m assms by (auto simp: list_all_iff split: option.splits)
  have t: "takeWhile (\<lambda>x. x \<noteq> C_RBRACE) (?b @ C_RBRACE # r) = ?b"
    using before_append [OF b] by simp
  have c: "takeWhile (\<lambda>x. x \<noteq> C_COMMA) ?b = m" "(C_COMMA \<in> set ?b) = (up \<noteq> None)"
    "up = Some n \<Longrightarrow> past C_COMMA ?b = n" for n
    using m past_append [of C_COMMA m] before_append [of C_COMMA m]
    by (auto simp: takeWhile_eq_all_conv split: option.splits)
  then have "counted_quantifier digit (?b @ C_RBRACE # r)"
    using m(1,4) assms(1) unfolding counted_quantifier_def t Let_def c(1)
    by (cases up) (simp_all add: all_digits_def)
  moreover have "past C_RBRACE (?b @ C_RBRACE # r) = r" using b by (rule past_append)
  ultimately show ?thesis by (intro exI [of _ ?b]) simp
qed

text \<open>What scanning the text of a tree comes to, in any open group and before any continuation.\<close>

definition scanned :: "(cp \<Rightarrow> bool) \<Rightarrow> pattern_state \<Rightarrow> rx list \<Rightarrow> pystr \<Rightarrow> bool" where
  "scanned digit s xs r \<longleftrightarrow>
     (if rx_safe xs \<and> \<not> (danger s \<and> quantified_next xs) then
        \<exists>s'. pattern_scan digit s (show_rx xs @ r) = pattern_scan digit s' r \<and> between s' \<and>
             ps_stack s' = mark_top (quantifies xs) (alternates xs) (ps_stack s)
      else pattern_scan digit s (show_rx xs @ r) \<noteq> None)"

text \<open>A single token that leaves no danger behind it.\<close>

lemma scanned_token:
  assumes "pattern_scan digit s (show_rx (x # xs) @ r) = pattern_scan digit s1 (show_rx xs @ r)"
    and "scanned digit s1 xs r" and "\<not> danger s1" and "ps_stack s1 = mark_top q a (ps_stack s)"
    and "rx_safe (x # xs) = rx_safe xs" "\<not> (danger s \<and> quantified_next (x # xs))"
    and "quantifies (x # xs) = (q \<or> quantifies xs)" "alternates (x # xs) = (a \<or> alternates xs)"
  shows "scanned digit s (x # xs) r"
  using assms unfolding scanned_def by (auto split: if_splits)

lemma scan_rx:
  assumes "rx_ok digit xs" "\<not> digit C_RBRACE" "\<not> digit C_COMMA" "between s"
  shows "scanned digit s xs r"
  using assms(1,4)
proof (induction xs arbitrary: s r rule: show_rx.induct)
  case 1
  then show ?case by (auto simp: scanned_def)
next
  case (2 c xs s r)
  let ?s = "s\<lparr>ps_prev := PrevLiteral, ps_closed_quantifier := False, ps_closed_alternation := False\<rparr>"
  show ?case
    using 2 by (intro scanned_token [where ?s1.0 = ?s and q = False and a = False])
      (auto simp: pattern_turn_def between_def danger_def specials_def)
next
  case (3 c xs s r)
  let ?s = "s\<lparr>ps_escaped := False, ps_prev := PrevLiteral\<rparr>"
  show ?case
    using 3 by (intro scanned_token [where ?s1.0 = ?s and q = False and a = False])
      (auto simp: pattern_turn_def between_def danger_def)
next
  case (4 cs xs s r)
  let ?s = "s\<lparr>ps_in_class := False, ps_prev := PrevLiteral\<rparr>"
  show ?case
    using 4 scan_class [of "s\<lparr>ps_in_class := True\<rparr>" cs digit "show_rx xs @ r"]
    by (intro scanned_token [where ?s1.0 = ?s and q = False and a = False])
      (auto simp: pattern_turn_def between_def danger_def)
next
  case (5 xs s r)
  let ?s = "s\<lparr>ps_stack := mark_top False True (ps_stack s), ps_prev := PrevAlternation\<rparr>"
  show ?case
    using 5 by (intro scanned_token [where ?s1.0 = ?s and q = False and a = True])
      (auto simp: pattern_turn_def between_def danger_def)
next
  case (6 q xs s r)
  let ?s = "s\<lparr>ps_stack := mark_top True False (ps_stack s), ps_prev := PrevQuantifier\<rparr>"
  have turn: "pattern_scan digit s (show_quantifier q @ t) =
      (if danger s then Some (if ps_closed_quantifier s then NestedQuantifier else QuantifiedAlternation)
       else pattern_scan digit ?s t)" for t
  proof (cases q)
    case (Counted m up)
    with 6(2) counted_shown [of digit m up t] assms(2,3) obtain b where
      "show_quantifier q = C_LBRACE # b @ [C_RBRACE]" "counted_quantifier digit (b @ C_RBRACE # t)"
      "past C_RBRACE (b @ C_RBRACE # t) = t" by auto
    then show ?thesis using 6(3) by (auto simp: pattern_turn_def between_def danger_def)
  qed (use 6(3) in \<open>auto simp: pattern_turn_def between_def danger_def\<close>)
  show ?case
  proof (cases "danger s")
    case True
    then show ?thesis by (simp add: scanned_def turn)
  next
    case False
    with 6 turn show ?thesis
      by (intro scanned_token [where ?s1.0 = ?s and q = True and a = False]) (auto simp: between_def danger_def)
  qed
next
  case (7 p ys xs s r)
  let ?in = "s\<lparr>ps_stack := (False, False) # ps_stack s, ps_prev := PrevNone,
     ps_closed_quantifier := False, ps_closed_alternation := False\<rparr>"
  have enter: "pattern_scan digit s (show_rx (Grp p ys # xs) @ r) =
      pattern_scan digit ?in (show_rx ys @ C_RPAREN # show_rx xs @ r)"
    using 7(3,4) skip_shown [of p ys "show_rx xs @ r"] by (simp add: pattern_turn_def between_def)
  have inner: "scanned digit ?in ys (C_RPAREN # show_rx xs @ r)"
    using 7 by (intro "7.IH"(1)) (simp_all add: between_def)
  have nd: "\<not> danger ?in" by (simp add: danger_def)
  show ?case
  proof (cases "rx_safe ys")
    case False
    then show ?thesis using inner enter by (simp add: scanned_def)
  next
    case True
    with inner nd obtain s1 where s1: "pattern_scan digit ?in (show_rx ys @ C_RPAREN # show_rx xs @ r) =
        pattern_scan digit s1 (C_RPAREN # show_rx xs @ r)" "between s1"
      "ps_stack s1 = (quantifies ys, alternates ys) # ps_stack s" by (auto simp: scanned_def)
    let ?s = "s1\<lparr>ps_stack := mark_top (quantifies ys) (alternates ys) (ps_stack s), ps_prev := PrevGroup,
      ps_closed_quantifier := quantifies ys, ps_closed_alternation := alternates ys\<rparr>"
    have leave: "pattern_scan digit s (show_rx (Grp p ys # xs) @ r) = pattern_scan digit ?s (show_rx xs @ r)"
      using enter s1 by (simp add: pattern_turn_def between_def)
    have "scanned digit ?s xs r" using 7(3) s1(2) by (intro "7.IH"(2)) (simp_all add: between_def)
    then show ?thesis using leave True by (auto simp: scanned_def danger_def split: if_splits)
  qed
qed

subsection \<open>Properties\<close>

text \<open>The check enforces its rule exactly on the patterns it understands: a pattern written from a
  tree is accepted if and only if no group that contains a quantifier or an alternation, at any
  depth, is itself quantified; whether a group captures, looks around or has a name makes no
  difference. (Digits are not braces or commas.)\<close>

theorem watch_pattern_rule:
  assumes "rx_ok digit xs" "\<not> digit C_RBRACE" "\<not> digit C_COMMA"
  shows "validate_pattern_safety digit (show_rx xs) = None \<longleftrightarrow> rx_safe xs"
proof -
  have "scanned digit pattern_start xs []"
    using assms by (intro scan_rx) (simp_all add: between_def pattern_start_def)
  then show ?thesis
    by (auto simp: scanned_def validate_pattern_safety_def danger_def pattern_start_def split: if_splits)
qed

text \<open>\<open>((a|b)c)+\<close>\<close>

theorem watch_pattern_rule_witness:
  "validate_pattern_safety (\<lambda>c. 48 \<le> c \<and> c \<le> 57) [40, 40, 97, 124, 98, 41, 99, 41, 43] \<noteq> None \<and>
   validate_pattern_safety (\<lambda>c. 48 \<le> c \<and> c \<le> 57) [40, 40, 97, 98, 41, 99, 41, 43] = None"
  using watch_pattern_rule [of "\<lambda>c. 48 \<le> c \<and> c \<le> 57"
      "[Grp Capturing [Grp Capturing [Chr 97, Bar, Chr 98], Chr 99], Quant Plus]"]
    watch_pattern_rule [of "\<lambda>c. 48 \<le> c \<and> c \<le> 57"
      "[Grp Capturing [Grp Capturing [Chr 97, Chr 98], Chr 99], Quant Plus]"]
  by (simp add: specials_def)

text \<open>Two parts of the syntax that the check does not understand let catastrophic patterns through.
  \<open>(a+)+>\<close> and \<open>(a+)+$\<close> are refused; but after a back reference \<open>(?P=x)\<close> the scan jumps to the next
  \<open>>\<close>, whatever stands before it, and a comment \<open>(?#)\<close> counts as a group of its own, so that the
  quantifier behind it, which the compiler applies to the group before the comment, looks harmless.\<close>

theorem watch_pattern_bypass:
  "validate_pattern_safety digit [40, 97, 43, 41, 43, 62] = Some NestedQuantifier \<and>
   validate_pattern_safety digit
     ([40, 63, 80, 60, 120, 62, 98, 41] @ [40, 63, 80, 61, 120, 41] @ [40, 97, 43, 41, 43, 62]) = None \<and>
   validate_pattern_safety digit [40, 97, 43, 41, 43, 36] = Some NestedQuantifier \<and>
   validate_pattern_safety digit ([40, 97, 43, 41] @ [40, 63, 35, 41] @ [43, 36]) = None"
  by (simp add: validate_pattern_safety_def pattern_start_def pattern_turn_def skip_prefix_def past_def Let_def)

end
