(* ===== verification/EventBus.thy ===== *)
theory EventBus
  imports Json WatchPattern
begin

text \<open>
  The event bus (\<open>server/bridge/hub/event_bus.py\<close>): bounded subscriber queues with drop-oldest
  delivery, byte budgets, and the sentinel that ends a subscription. A queue is the list of its
  items with their weights, oldest first; \<open>None\<close> is the sentinel. The JSON serialiser's length
  \<open>nbytes\<close> (\<open>None\<close> when it raises, on a lone surrogate), the lenient UTF-8 decoder \<open>decode\<close> and the
  compiled pattern's \<open>search\<close> are parameters.
  The per-call cache of fitted items is left out: it memoises a function of the cap. An exception is
  \<open>Inl ()\<close>; \<open>enqueue\<close> catches it and leaves the remaining subscribers unserved.
\<close>

record subscription =
  su_id :: nat
  su_worker_id :: pystr
  su_queue :: "(jdict option \<times> nat) list"
  su_maxsize :: nat
  su_event_types :: "pystr set option"
  su_search :: "(pystr \<Rightarrow> bool) option"
  su_max_queue_bytes :: nat
  su_dropped :: nat

record event_bus =
  eb_max_queue_depth :: nat
  eb_max_subscribers :: nat
  eb_default_max_queue_bytes :: nat
  eb_max_pattern_length :: nat
  eb_max_match_input_chars :: nat
  eb_closed :: bool
  eb_subs :: "(pystr \<times> subscription list) list"

definition new_event_bus :: "int \<Rightarrow> int \<Rightarrow> int \<Rightarrow> int \<Rightarrow> int \<Rightarrow> event_bus" where
  "new_event_bus depth subs bytes plen chars =
     \<lparr>eb_max_queue_depth = nat (max 1 depth), eb_max_subscribers = nat (max 1 subs),
      eb_default_max_queue_bytes = nat (max 1 bytes), eb_max_pattern_length = nat (max 1 plen),
      eb_max_match_input_chars = nat (max 1 chars),
      eb_closed = False, eb_subs = []\<rparr>"

definition queued_bytes :: "subscription \<Rightarrow> nat" where
  "queued_bytes s = sum_list (map snd (su_queue s))"

definition queue_full :: "subscription \<Rightarrow> bool" where
  "queue_full s \<longleftrightarrow> su_maxsize s \<le> length (su_queue s)"

text \<open>Keys of the event dictionaries.\<close>

definition K_WORKER_ID :: pystr where "K_WORKER_ID = [119, 111, 114, 107, 101, 114, 95, 105, 100]"
definition K_TYPE :: pystr where "K_TYPE = [116, 121, 112, 101]"
definition K_DATA :: pystr where "K_DATA = [100, 97, 116, 97]"
definition K_SCREEN :: pystr where "K_SCREEN = [115, 99, 114, 101, 101, 110]"
definition K_FORMATTED :: pystr where "K_FORMATTED = [102, 111, 114, 109, 97, 116, 116, 101, 100]"
definition K_RAW_TAIL :: pystr where "K_RAW_TAIL = [114, 97, 119, 95, 116, 97, 105, 108]"
definition V_TERM :: pystr where "V_TERM = [116, 101, 114, 109]"
definition V_SNAPSHOT :: pystr where "V_SNAPSHOT = [115, 110, 97, 112, 115, 104, 111, 116]"

subsection \<open>Fitting an item into a byte budget\<close>

text \<open>\<open>encoded[-keep:].decode("utf-8", errors="ignore") if keep else ""\<close>\<close>

definition kept_text :: "(byte list \<Rightarrow> pystr) \<Rightarrow> byte list \<Rightarrow> nat \<Rightarrow> pystr" where
  "kept_text decode encoded keep =
     (if keep = 0 then [] else decode (drop (length encoded - keep) encoded))"

text \<open>The binary search for the longest suffix whose candidate fits; \<open>cand\<close> builds the candidate.\<close>

function fit_search ::
  "(jdict \<Rightarrow> nat option) \<Rightarrow> (nat \<Rightarrow> jdict) \<Rightarrow> nat \<Rightarrow> int \<Rightarrow> int \<Rightarrow> (jdict \<times> nat) option \<Rightarrow>
   unit + (jdict \<times> nat) option" where
  "fit_search nbytes cand max_bytes low high best =
     (if low \<le> high then
        let keep = (low + high) div 2; c = cand (nat keep)
        in case nbytes c of
             None \<Rightarrow> Inl ()
           | Some n \<Rightarrow>
               if n \<le> max_bytes then fit_search nbytes cand max_bytes (keep + 1) high (Some (c, n))
               else fit_search nbytes cand max_bytes low (keep - 1) best
      else Inr best)"
  by pat_completeness auto
termination
  by (relation "measure (\<lambda>(s, c, m, low, high, b). nat (high - low + 1))") auto

declare fit_search.simps [simp del]

definition text_field :: "json option \<Rightarrow> pystr" where
  "text_field event_type =
     (if event_type = Some (JStr V_TERM) then K_DATA
      else if event_type = Some (JStr V_SNAPSHOT) then K_SCREEN else K_FORMATTED)"

definition fit_item ::
  "(jdict \<Rightarrow> nat option) \<Rightarrow> (byte list \<Rightarrow> pystr) \<Rightarrow> jdict \<Rightarrow> nat \<Rightarrow> unit + (jdict \<times> nat) option" where
  "fit_item nbytes decode item max_bytes =
     (case nbytes item of
        None \<Rightarrow> Inl ()
      | Some item_bytes \<Rightarrow>
          if item_bytes \<le> max_bytes then Inr (Some (item, item_bytes))
          else
            (case od_get item K_DATA of
               Some (JObj data) \<Rightarrow>
                 (let event_type = od_get item K_TYPE; field = text_field event_type
                  in case od_get data field of
                       Some (JStr txt) \<Rightarrow>
                         (let data1 = (if event_type = Some (JStr V_SNAPSHOT) \<and> od_get data K_RAW_TAIL \<noteq> None
                                       then od_set data K_RAW_TAIL (JStr []) else data)
                          in case utf8_encode txt of
                               None \<Rightarrow> Inl ()
                             | Some encoded \<Rightarrow>
                                 fit_search nbytes
                                   (\<lambda>keep. od_set item K_DATA (JObj (od_set data1 field (JStr (kept_text decode encoded keep)))))
                                   max_bytes 0 (int (min (length encoded) max_bytes)) None)
                     | _ \<Rightarrow> Inr None)
             | _ \<Rightarrow> Inr None))"

subsection \<open>Delivery\<close>

definition record_drop :: "subscription \<Rightarrow> subscription" where
  "record_drop s = s\<lparr>su_dropped := su_dropped s + 1\<rparr>"

text \<open>The loop that makes room: oldest items go until the new one fits or the queue is empty.\<close>

function make_room :: "nat \<Rightarrow> subscription \<Rightarrow> subscription" where
  "make_room item_bytes s =
     (if queue_full s \<or> su_max_queue_bytes s < queued_bytes s + item_bytes then
        (case su_queue s of
           [] \<Rightarrow> s
         | _ # q \<Rightarrow> make_room item_bytes (record_drop (s\<lparr>su_queue := q\<rparr>)))
      else s)"
  by pat_completeness auto
termination
  by (relation "measure (\<lambda>(b, s). length (su_queue s))") (auto simp: record_drop_def)

declare make_room.simps [simp del]

definition put_nowait :: "jdict option \<Rightarrow> nat \<Rightarrow> subscription \<Rightarrow> subscription option" where
  "put_nowait item w s = (if queue_full s then None else Some (s\<lparr>su_queue := su_queue s @ [(item, w)]\<rparr>))"

definition type_passes :: "subscription \<Rightarrow> jdict \<Rightarrow> bool" where
  "type_passes s event =
     (case su_event_types s of
        None \<Rightarrow> True
      | Some types \<Rightarrow> (case od_get event K_TYPE of Some (JStr t) \<Rightarrow> t \<in> types | _ \<Rightarrow> False))"

text \<open>The text filter reads \<open>event.get("data", {}).get("screen", "")\<close>; \<open>to_str\<close> is \<open>str\<close> of a non-string.\<close>

definition pattern_passes :: "(json \<Rightarrow> pystr) \<Rightarrow> nat \<Rightarrow> subscription \<Rightarrow> jdict \<Rightarrow> unit + bool" where
  "pattern_passes to_str max_chars s event =
     (case su_search s of
        None \<Rightarrow> Inr True
      | Some search \<Rightarrow>
          (case (case od_get event K_DATA of None \<Rightarrow> JObj [] | Some d \<Rightarrow> d) of
             JObj data \<Rightarrow>
               (let screen = (case od_get data K_SCREEN of
                                None \<Rightarrow> [] | Some (JStr t) \<Rightarrow> t | Some v \<Rightarrow> to_str v)
                in Inr (search (take max_chars screen)))
           | _ \<Rightarrow> Inl ()))"

definition add_worker_id :: "pystr \<Rightarrow> jdict \<Rightarrow> jdict" where
  "add_worker_id w event = fold (\<lambda>(k, v) d. od_set d k v) event [(K_WORKER_ID, JStr w)]"

definition push_item :: "jdict \<Rightarrow> nat \<Rightarrow> subscription \<Rightarrow> subscription" where
  "push_item item w s =
     (let s1 = make_room w s in case put_nowait (Some item) w s1 of None \<Rightarrow> s1 | Some s2 \<Rightarrow> s2)"

definition deliver ::
  "(jdict \<Rightarrow> nat option) \<Rightarrow> (byte list \<Rightarrow> pystr) \<Rightarrow> (json \<Rightarrow> pystr) \<Rightarrow> nat \<Rightarrow> pystr \<Rightarrow> jdict \<Rightarrow> subscription \<Rightarrow>
   unit + subscription" where
  "deliver nbytes decode to_str max_chars w event s =
     (if \<not> type_passes s event then Inr s
      else case pattern_passes to_str max_chars s event of
             Inl e \<Rightarrow> Inl e
           | Inr False \<Rightarrow> Inr s
           | Inr True \<Rightarrow>
               (case fit_item nbytes decode (add_worker_id w event) (su_max_queue_bytes s) of
                  Inl e \<Rightarrow> Inl e
                | Inr None \<Rightarrow> Inr (record_drop s)
                | Inr (Some (item, item_bytes)) \<Rightarrow> Inr (push_item item item_bytes s)))"

text \<open>One event to all subscribers in order; the first exception ends the round.\<close>

fun deliver_all :: "(subscription \<Rightarrow> unit + subscription) \<Rightarrow> subscription list \<Rightarrow> subscription list" where
  "deliver_all f [] = []"
| "deliver_all f (s # ss) = (case f s of Inl _ \<Rightarrow> s # ss | Inr s' \<Rightarrow> s' # deliver_all f ss)"

definition enqueue ::
  "(jdict \<Rightarrow> nat option) \<Rightarrow> (byte list \<Rightarrow> pystr) \<Rightarrow> (json \<Rightarrow> pystr) \<Rightarrow> pystr \<Rightarrow> jdict \<Rightarrow> event_bus \<Rightarrow> event_bus" where
  "enqueue nbytes decode to_str w event b =
     (if eb_closed b then b
      else case od_get (eb_subs b) w of
             None \<Rightarrow> b
           | Some subs \<Rightarrow>
               b\<lparr>eb_subs := od_set (eb_subs b) w
                   (deliver_all (deliver nbytes decode to_str (eb_max_match_input_chars b) w event) subs)\<rparr>)"

subsection \<open>Ending subscriptions\<close>

definition put_sentinel :: "subscription \<Rightarrow> subscription" where
  "put_sentinel s =
     (case put_nowait None 0 s of
        Some s' \<Rightarrow> s'
      | None \<Rightarrow>
          (let s1 = record_drop (s\<lparr>su_queue := tl (su_queue s)\<rparr>)
           in case put_nowait None 0 s1 of
                Some s2 \<Rightarrow> s2
              | None \<Rightarrow> s1\<lparr>su_queue := [(None, 0)]\<rparr>))"

text \<open>Both return the subscriptions that were ended, for their consumers still hold them.\<close>

definition close_worker :: "pystr \<Rightarrow> event_bus \<Rightarrow> subscription list \<times> event_bus" where
  "close_worker w b =
     (map put_sentinel (case od_get (eb_subs b) w of None \<Rightarrow> [] | Some subs \<Rightarrow> subs),
      b\<lparr>eb_subs := od_pop (eb_subs b) w\<rparr>)"

definition close_bus :: "event_bus \<Rightarrow> subscription list \<times> event_bus" where
  "close_bus b =
     (if eb_closed b then ([], b)
      else (map put_sentinel (concat (map snd (eb_subs b))), b\<lparr>eb_closed := True, eb_subs := []\<rparr>))"

text \<open>Entering \<open>watch\<close>.\<close>

datatype watch_error = TooManySubscribers | BadPattern pattern_error

definition watch_enter ::
  "(cp \<Rightarrow> bool) \<Rightarrow> (pystr \<Rightarrow> (pystr \<Rightarrow> bool) option) \<Rightarrow> nat \<Rightarrow> pystr \<Rightarrow> pystr list option \<Rightarrow> pystr option \<Rightarrow>
   int option \<Rightarrow> event_bus \<Rightarrow> watch_error + (subscription \<times> event_bus)" where
  "watch_enter digit re_compile new_id w event_types pattern max_bytes b =
     (let current = (case od_get (eb_subs b) w of None \<Rightarrow> [] | Some subs \<Rightarrow> subs)
      in if eb_max_subscribers b \<le> length current then Inl TooManySubscribers
         else
           case compile_pattern digit re_compile (eb_max_pattern_length b) pattern of
             Inl e \<Rightarrow> Inl (BadPattern e)
           | Inr search \<Rightarrow>
               let sub = \<lparr>su_id = new_id, su_worker_id = w, su_queue = [], su_maxsize = eb_max_queue_depth b,
                     su_event_types = map_option set event_types, su_search = search,
                     su_max_queue_bytes = nat (max 1 (case max_bytes of None \<Rightarrow> int (eb_default_max_queue_bytes b) | Some n \<Rightarrow> n)),
                     su_dropped = 0\<rparr>
               in if eb_closed b then Inr (put_sentinel sub, b)
                  else Inr (sub, b\<lparr>eb_subs := od_set (eb_subs b) w (current @ [sub])\<rparr>))"

definition remove_sub :: "pystr \<Rightarrow> nat \<Rightarrow> event_bus \<Rightarrow> event_bus" where
  "remove_sub w sid b =
     (case od_get (eb_subs b) w of
        None \<Rightarrow> b
      | Some subs \<Rightarrow>
          (let remaining = filter (\<lambda>s. su_id s \<noteq> sid) subs
           in if remaining \<noteq> [] then b\<lparr>eb_subs := od_set (eb_subs b) w remaining\<rparr>
              else b\<lparr>eb_subs := od_pop (eb_subs b) w\<rparr>))"

definition subscriber_count :: "pystr \<Rightarrow> event_bus \<Rightarrow> nat" where
  "subscriber_count w b = length (case od_get (eb_subs b) w of None \<Rightarrow> [] | Some subs \<Rightarrow> subs)"

subsection \<open>Queues stay within their budgets\<close>

definition sub_ok :: "subscription \<Rightarrow> bool" where
  "sub_ok s \<longleftrightarrow> 0 < su_maxsize s \<and> 0 < su_max_queue_bytes s \<and>
     length (su_queue s) \<le> su_maxsize s \<and> queued_bytes s \<le> su_max_queue_bytes s"

text \<open>Room is made by dropping a number of oldest items, as few as will do.\<close>

definition dropped_first :: "nat \<Rightarrow> subscription \<Rightarrow> subscription" where
  "dropped_first k s = s\<lparr>su_queue := drop k (su_queue s), su_dropped := su_dropped s + k\<rparr>"

definition has_room :: "nat \<Rightarrow> subscription \<Rightarrow> bool" where
  "has_room w s \<longleftrightarrow> \<not> queue_full s \<and> queued_bytes s + w \<le> su_max_queue_bytes s"

lemma make_room_least:
  assumes "0 < su_maxsize s" "w \<le> su_max_queue_bytes s"
  shows "\<exists>k. make_room w s = dropped_first k s \<and> k \<le> length (su_queue s) \<and> has_room w (dropped_first k s) \<and>
    (\<forall>j < k. \<not> has_room w (dropped_first j s))"
  using assms
proof (induction w s rule: make_room.induct)
  case (1 w s)
  show ?case
  proof (cases "has_room w s")
    case True
    then have "make_room w s = dropped_first 0 s"
      by (subst make_room.simps) (auto simp: has_room_def dropped_first_def)
    moreover have "dropped_first 0 s = s" by (simp add: dropped_first_def)
    ultimately show ?thesis using True by (metis le0 not_less_zero)
  next
    case False
    then obtain x q where q: "su_queue s = x # q"
      using "1.prems" by (cases "su_queue s") (auto simp: has_room_def queue_full_def queued_bytes_def)
    let ?s = "record_drop (s\<lparr>su_queue := q\<rparr>)"
    have c: "queue_full s \<or> su_max_queue_bytes s < queued_bytes s + w" using False by (auto simp: has_room_def)
    have mk: "make_room w s = make_room w ?s" using c q by (subst make_room.simps) simp
    have sh: "dropped_first (Suc k) s = dropped_first k ?s" for k
      using q by (simp add: dropped_first_def record_drop_def)
    obtain k where k: "make_room w ?s = dropped_first k ?s" "k \<le> length q" "has_room w (dropped_first k ?s)"
      "\<forall>j < k. \<not> has_room w (dropped_first j ?s)"
      using "1.IH" [OF c q] "1.prems" by (auto simp: record_drop_def)
    have "\<not> has_room w (dropped_first j s)" if "j < Suc k" for j
      using that k(4) False sh by (cases j) (auto simp: dropped_first_def)
    with k mk sh show ?thesis by (intro exI [of _ "Suc k"]) (simp add: q)
  qed
qed

lemma queued_bytes_drop: "queued_bytes (dropped_first k s) \<le> queued_bytes s"
  by (simp add: queued_bytes_def dropped_first_def)
     (metis append_take_drop_id le_add2 map_append sum_list_append)

lemma push_item_spec:
  assumes "sub_ok s" "w \<le> su_max_queue_bytes s"
  shows "\<exists>k. push_item item w s = (dropped_first k s)\<lparr>su_queue := drop k (su_queue s) @ [(Some item, w)]\<rparr> \<and>
    (\<forall>j < k. \<not> has_room w (dropped_first j s)) \<and> sub_ok (push_item item w s)"
proof -
  obtain k where k: "make_room w s = dropped_first k s" "has_room w (dropped_first k s)"
    "\<forall>j < k. \<not> has_room w (dropped_first j s)"
    using make_room_least [of s w] assms unfolding sub_ok_def by metis
  then have p: "push_item item w s = (dropped_first k s)\<lparr>su_queue := drop k (su_queue s) @ [(Some item, w)]\<rparr>"
    by (simp add: push_item_def put_nowait_def has_room_def Let_def) (simp add: dropped_first_def)
  moreover have "sub_ok (push_item item w s)"
    using assms k(2) unfolding p by (auto simp: sub_ok_def has_room_def queue_full_def dropped_first_def queued_bytes_def)
  ultimately show ?thesis using k(3) by blast
qed

lemma put_sentinel_spec:
  assumes "sub_ok s"
  shows "\<exists>k \<le> 1. put_sentinel s = (dropped_first k s)\<lparr>su_queue := drop k (su_queue s) @ [(None, 0)]\<rparr> \<and>
    (k = 1 \<longleftrightarrow> queue_full s) \<and> sub_ok (put_sentinel s)"
proof (cases "queue_full s")
  case False
  then have "put_sentinel s = (dropped_first 0 s)\<lparr>su_queue := drop 0 (su_queue s) @ [(None, 0)]\<rparr>"
    by (simp add: put_sentinel_def put_nowait_def dropped_first_def)
  moreover have "sub_ok \<dots>"
    using assms False by (auto simp: sub_ok_def queue_full_def dropped_first_def queued_bytes_def)
  ultimately show ?thesis using False by (intro exI [of _ 0]) simp
next
  case True
  with assms obtain x q where q: "su_queue s = x # q" by (cases "su_queue s") (auto simp: sub_ok_def queue_full_def)
  then have "\<not> queue_full (record_drop (s\<lparr>su_queue := q\<rparr>))"
    using assms True by (auto simp: queue_full_def record_drop_def sub_ok_def)
  then have p: "put_sentinel s = (dropped_first 1 s)\<lparr>su_queue := drop 1 (su_queue s) @ [(None, 0)]\<rparr>"
    using True q by (simp add: put_sentinel_def put_nowait_def dropped_first_def record_drop_def Let_def)
  moreover have "sub_ok \<dots>"
    using assms q by (auto simp: sub_ok_def dropped_first_def queued_bytes_def)
  ultimately show ?thesis using True by (intro exI [of _ 1]) simp
qed

subsection \<open>The binary search\<close>

text \<open>Whatever it returns fits; and when longer texts never make smaller items, it is the longest that fits.\<close>

lemma fit_search_fits:
  "(\<And>c w. best = Some (c, w) \<Longrightarrow> nbytes c = Some w \<and> w \<le> m) \<Longrightarrow>
   fit_search nbytes cand m low high best = Inr (Some (c, w)) \<Longrightarrow> nbytes c = Some w \<and> w \<le> m"
proof (induction nbytes cand m low high best rule: fit_search.induct)
  case (1 nbytes cand m low high best)
  let ?c = "cand (nat ((low + high) div 2))"
  show ?case
  proof (cases "low \<le> high")
    case True
    obtain n where n: "nbytes ?c = Some n"
      using "1.prems"(2) True by (subst (asm) fit_search.simps) (auto simp: Let_def split: option.splits)
    show ?thesis
    proof (cases "n \<le> m")
      case f: True
      have "fit_search nbytes cand m ((low + high) div 2 + 1) high (Some (?c, n)) = Inr (Some (c, w))"
        using "1.prems"(2) True f n by (subst (asm) fit_search.simps) (simp add: Let_def)
      with "1.IH"(1) [OF True refl refl n f] n f show ?thesis by simp
    next
      case f: False
      have "fit_search nbytes cand m low ((low + high) div 2 - 1) best = Inr (Some (c, w))"
        using "1.prems"(2) True f n by (subst (asm) fit_search.simps) (simp add: Let_def)
      from "1.IH"(2) [OF True refl refl n f "1.prems"(1) this] show ?thesis .
    qed
  next
    case False
    with "1.prems"(2) have "best = Some (c, w)" by (subst (asm) fit_search.simps) simp
    then show ?thesis by (rule "1.prems"(1))
  qed
qed

lemma fit_search_longest:
  fixes low high top :: int and weight :: "nat \<Rightarrow> nat" and cand :: "nat \<Rightarrow> jdict"
  assumes mono: "\<And>a b. a \<le> b \<Longrightarrow> weight a \<le> weight b" and nbytes: "\<And>k. nbytes (cand k) = Some (weight k)"
    and "0 \<le> low" "low \<le> high + 1"
    and "\<And>k. int k < low \<Longrightarrow> weight k \<le> m"
    and "\<And>k. high < int k \<Longrightarrow> int k \<le> top \<Longrightarrow> m < weight k"
    and "best = (if low = 0 then None else Some (cand (nat (low - 1)), weight (nat (low - 1))))"
    and "high \<le> top"
  shows "fit_search nbytes cand m low high best =
    Inr (if weight 0 \<le> m \<and> 0 \<le> top
     then (let k = Max {k. int k \<le> top \<and> weight k \<le> m} in Some (cand k, weight k)) else None)"
  using assms(3-)
proof (induction "nat (high - low + 1)" arbitrary: low high best rule: less_induct)
  case less
  show ?case
  proof (cases "low \<le> high")
    case True
    let ?k = "(low + high) div 2"
    have k: "low \<le> ?k" "?k \<le> high" "0 \<le> ?k" using True less.prems(1) by auto
    show ?thesis
    proof (cases "weight (nat ?k) \<le> m")
      case f: True
      have "weight j \<le> m" if "int j < ?k + 1" for j
        using mono [of j "nat ?k"] f that k(3) by linarith
      then have "fit_search nbytes cand m (?k + 1) high (Some (cand (nat ?k), weight (nat ?k))) =
        Inr (if weight 0 \<le> m \<and> 0 \<le> top
         then (let k = Max {k. int k \<le> top \<and> weight k \<le> m} in Some (cand k, weight k)) else None)"
        using k less.prems(4,6) by (intro less.hyps) auto
      then show ?thesis using True f by (subst fit_search.simps) (simp add: Let_def nbytes)
    next
      case f: False
      have "m < weight j" if "?k - 1 < int j" "int j \<le> top" for j
        using mono [of "nat ?k" j] f that k(3) by linarith
      then have "fit_search nbytes cand m low (?k - 1) best =
        Inr (if weight 0 \<le> m \<and> 0 \<le> top
         then (let k = Max {k. int k \<le> top \<and> weight k \<le> m} in Some (cand k, weight k)) else None)"
        using k less.prems by (intro less.hyps) auto
      then show ?thesis using True f by (subst fit_search.simps) (simp add: Let_def nbytes)
    qed
  next
    case False
    then have h: "high = low - 1" using less.prems(2) by simp
    have r: "fit_search nbytes cand m low high best = Inr best" using False by (subst fit_search.simps) simp
    show ?thesis
    proof (cases "low = 0")
      case True
      then have "\<not> (weight 0 \<le> m \<and> 0 \<le> top)" using less.prems(4) [of 0] h by auto
      then show ?thesis using r True less.prems(5) by auto
    next
      case pos: False
      have "weight 0 \<le> m" using less.prems(3) [of 0] pos less.prems(1) by simp
      moreover have "Max {k. int k \<le> top \<and> weight k \<le> m} = nat (low - 1)"
      proof (rule Max_eqI)
        show "finite {k. int k \<le> top \<and> weight k \<le> m}"
          by (rule finite_subset [of _ "{..nat top}"]) auto
        show "y \<le> nat (low - 1)" if "y \<in> {k. int k \<le> top \<and> weight k \<le> m}" for y
          using that less.prems(4) [of y] h by force
        show "nat (low - 1) \<in> {k. int k \<le> top \<and> weight k \<le> m}"
          using less.prems(1,6) less.prems(3) [of "nat (low - 1)"] pos h by auto
      qed
      ultimately show ?thesis using r pos less.prems(1,5,6) h by (simp add: Let_def)
    qed
  qed
qed

subsection \<open>Properties\<close>

lemma deliver_cases:
  assumes "deliver nbytes decode to_str mc w ev s = Inr s'"
  obtains "s' = s" | "s' = record_drop s"
  | item n where "fit_item nbytes decode (add_worker_id w ev) (su_max_queue_bytes s) = Inr (Some (item, n))" "s' = push_item item n s"
proof (cases "type_passes s ev \<and> pattern_passes to_str mc s ev = Inr True")
  case True
  show ?thesis
  proof (cases "fit_item nbytes decode (add_worker_id w ev) (su_max_queue_bytes s)")
    case (Inl e)
    with True assms show ?thesis by (simp add: deliver_def)
  next
    case (Inr r)
    show ?thesis
    proof (cases r)
      case None
      with True Inr assms show ?thesis by (intro that(2)) (simp add: deliver_def)
    next
      case (Some p)
      obtain item n where p: "p = (item, n)" by (cases p)
      show ?thesis
      proof (rule that(3))
        show "fit_item nbytes decode (add_worker_id w ev) (su_max_queue_bytes s) = Inr (Some (item, n))"
          using Inr Some p by simp
        show "s' = push_item item n s" using True Inr Some p assms by (simp add: deliver_def)
      qed
    qed
  qed
next
  case False
  show ?thesis
  proof (cases "pattern_passes to_str mc s ev")
    case (Inl e)
    with False assms show ?thesis by (intro that(1)) (simp add: deliver_def split: if_splits)
  next
    case (Inr p)
    with False assms show ?thesis by (intro that(1)) (cases p; simp add: deliver_def split: if_splits)
  qed
qed

lemma fit_item_fits:
  assumes "fit_item nbytes decode item m = Inr (Some (c, n))"
  shows "nbytes c = Some n \<and> n \<le> m"
proof (cases "nbytes item = Some n \<and> c = item \<and> n \<le> m")
  case False
  then obtain cand high where "fit_search nbytes cand m 0 high None = Inr (Some (c, n))"
    using assms by (simp add: fit_item_def Let_def split: option.splits if_splits json.splits)
  from fit_search_fits [OF _ this] show ?thesis by simp
qed auto

text \<open>A subscriber's memory is bounded and loses the oldest first: delivering an event to a queue within
  its depth and byte budget leaves it within both; the events already queued that remain are a suffix
  of what was there, in order, and the new event, cut to fit the byte budget, is last; no more events
  were dropped than had to be, and each is counted.\<close>

theorem delivery_bounded:
  assumes "sub_ok s" "deliver nbytes decode to_str mc w ev s = Inr s'"
  shows "sub_ok s' \<and>
    (\<exists>k new. su_queue s' = drop k (su_queue s) @ new \<and>
       (new = [] \<and> k = 0 \<or>
        (\<exists>item n. new = [(Some item, n)] \<and> nbytes item = Some n \<and> su_dropped s' = su_dropped s + k \<and>
           list_all (\<lambda>j. \<not> has_room n (dropped_first j s)) [0..<k])))"
  using assms(2)
proof (cases rule: deliver_cases)
  case 1
  then show ?thesis using assms(1) by (intro conjI exI [of _ 0] exI [of _ "[]"]) auto
next
  case 2
  then show ?thesis
    using assms(1) by (intro conjI exI [of _ 0] exI [of _ "[]"]) (auto simp: record_drop_def sub_ok_def queued_bytes_def)
next
  case (3 item n)
  note n = fit_item_fits [OF 3(1)]
  then obtain k where k: "push_item item n s = (dropped_first k s)\<lparr>su_queue := drop k (su_queue s) @ [(Some item, n)]\<rparr>"
    "\<forall>j < k. \<not> has_room n (dropped_first j s)" "sub_ok (push_item item n s)"
    using push_item_spec [OF assms(1), of n item] by blast
  moreover have "list_all (\<lambda>j. \<not> has_room n (dropped_first j s)) [0..<k]" using k(2) by (simp add: list_all_iff)
  ultimately show ?thesis
    using n 3(2) by (intro conjI exI [of _ k] exI [of _ "[(Some item, n)]"]) (auto simp: dropped_first_def)
qed

definition demo_sub :: subscription where
  "demo_sub = \<lparr>su_id = 1, su_worker_id = [119], su_queue = [(Some [], 3), (Some [], 3)], su_maxsize = 2,
     su_event_types = None, su_search = None, su_max_queue_bytes = 9, su_dropped = 0\<rparr>"

lemma demo_deliver:
  "deliver (\<lambda>_. Some 5) (\<lambda>bs. bs) (\<lambda>_. []) 8 [119] [] demo_sub =
     Inr (demo_sub\<lparr>su_queue := [(Some [], 3), (Some [(K_WORKER_ID, JStr [119])], 5)], su_dropped := 1\<rparr>)"
  by (simp add: deliver_def type_passes_def pattern_passes_def fit_item_def demo_sub_def push_item_def add_worker_id_def
      make_room.simps queue_full_def queued_bytes_def record_drop_def put_nowait_def Let_def)

theorem delivery_bounded_witness:
  "sub_ok (demo_sub\<lparr>su_queue := [(Some [], 3), (Some [(K_WORKER_ID, JStr [119])], 5)], su_dropped := 1\<rparr>)"
proof -
  have "sub_ok demo_sub" by (simp add: sub_ok_def demo_sub_def queued_bytes_def)
  from delivery_bounded [OF this demo_deliver] show ?thesis by blast
qed

text \<open>Ending a subscription always gets through: closing a worker or the whole bus puts the end mark last in
  the queue of every subscriber it removes, dropping at most one event and only from a full queue,
  and afterwards the bus delivers nothing to anybody it removed, for it no longer lists them.\<close>

theorem close_ends_subscriptions:
  assumes "list_all (\<lambda>(w, subs). list_all sub_ok subs) (eb_subs b)" "od_ok (eb_subs b)"
  shows "(case close_worker w b of (ended, b') \<Rightarrow>
      list_all (\<lambda>s. su_queue s \<noteq> [] \<and> fst (last (su_queue s)) = None \<and> sub_ok s) ended \<and>
      length ended = subscriber_count w b \<and> subscriber_count w b' = 0) \<and>
    (case close_bus b of (ended, b') \<Rightarrow>
      list_all (\<lambda>s. su_queue s \<noteq> [] \<and> fst (last (su_queue s)) = None \<and> sub_ok s) ended \<and>
      (eb_closed b \<or> length ended = sum_list (map (length \<circ> snd) (eb_subs b))) \<and>
      eb_closed b' \<and> enqueue nbytes decode to_str v ev b' = b')"
proof -
  have s: "su_queue (put_sentinel s) \<noteq> [] \<and> fst (last (su_queue (put_sentinel s))) = None \<and> sub_ok (put_sentinel s)"
    if "sub_ok s" for s
    using put_sentinel_spec [OF that] by auto
  have "list_all sub_ok (case od_get (eb_subs b) w of None \<Rightarrow> [] | Some subs \<Rightarrow> subs)"
    using assms(1) by (cases "od_get (eb_subs b) w") (auto simp: list_all_iff dest: od_get_in)
  then have "list_all (\<lambda>s. su_queue s \<noteq> [] \<and> fst (last (su_queue s)) = None \<and> sub_ok s) (fst (close_worker w b))"
    using s by (auto simp: close_worker_def list_all_iff)
  moreover have "list_all (\<lambda>s. su_queue s \<noteq> [] \<and> fst (last (su_queue s)) = None \<and> sub_ok s) (fst (close_bus b))"
    using s assms(1) by (auto simp: close_bus_def list_all_iff)
  moreover have "length (concat (map snd (eb_subs b))) = sum_list (map (length \<circ> snd) (eb_subs b))"
    by (simp add: length_concat comp_def)
  ultimately show ?thesis
    using assms(2) by (auto simp: close_worker_def close_bus_def subscriber_count_def enqueue_def)
qed

definition demo_bus :: event_bus where
  "demo_bus = (new_event_bus 2 4 9 9 8)\<lparr>eb_subs := [([119], [demo_sub])]\<rparr>"

theorem close_ends_subscriptions_witness:
  "subscriber_count [119] demo_bus = 1 \<and> subscriber_count [119] (snd (close_worker [119] demo_bus)) = 0 \<and>
   map su_queue (fst (close_worker [119] demo_bus)) = [[(Some [], 3), (None, 0)]]"
proof -
  have "list_all (\<lambda>(w, subs). list_all sub_ok subs) (eb_subs demo_bus)" "od_ok (eb_subs demo_bus)"
    by (simp_all add: demo_bus_def demo_sub_def sub_ok_def queued_bytes_def new_event_bus_def)
  from close_ends_subscriptions [OF this, of "[119]" "\<lambda>_. Some 0" "\<lambda>bs. bs" "\<lambda>_. []" "[119]" "[]"]
  have "subscriber_count [119] (snd (close_worker [119] demo_bus)) = 0"
    by (simp add: case_prod_beta)
  then show ?thesis
    by (simp add: demo_bus_def demo_sub_def new_event_bus_def subscriber_count_def close_worker_def put_sentinel_def
        put_nowait_def queue_full_def record_drop_def)
qed

text \<open>An item too large for the budget keeps as much of its newest text as can be kept: when a longer
  suffix of the text never makes a smaller item, the search returns the item with the longest suffix
  that fits the byte budget, and gives up only when not even the empty text fits.\<close>

theorem fit_keeps_longest:
  assumes "\<And>a b. a \<le> b \<Longrightarrow> weight a \<le> weight b" "\<And>k. nbytes (cand k) = Some (weight k)"
  shows "fit_search nbytes cand m 0 (int n) None =
    Inr (if weight 0 \<le> m
     then (let k = Max {k. k \<le> n \<and> weight k \<le> m} in Some (cand k, weight k)) else None)"
  using fit_search_longest [of weight nbytes cand 0 "int n" m "int n" None, OF assms] by simp

theorem fit_keeps_longest_witness:
  "fit_search (\<lambda>d. Some (2 * length d)) (\<lambda>k. replicate k ([97], JNull)) 5 0 (int 4) None =
     Inr (Some (replicate 2 ([97], JNull), 4))"
proof -
  have "{k. k \<le> 4 \<and> 2 * k \<le> 5} = {0, 1, 2::nat}" by auto
  then show ?thesis
    using fit_keeps_longest [of "\<lambda>k. 2 * k" "\<lambda>d. Some (2 * length d)" "\<lambda>k. replicate k ([97], JNull)" 5 4]
    by (simp add: numeral_2_eq_2)
qed

end
