(* ===== verification/AuditChain.thy ===== *)
theory AuditChain
  imports Json
begin

text \<open>
  The tamper-evident audit log (\<open>server/audit_chain.py\<close>): appending records that are chained by their
  hashes, verifying a list of records or a file, and resuming the chain at start-up
  (\<open>resume_audit_chain\<close> of \<open>server/app/factory_components.py\<close>). \<open>canon\<close> is the canonical JSON text of a
  record's fields (\<open>None\<close> when \<open>json.dumps\<close> or the encoding raises) and \<open>sha\<close> the SHA-256 hex digest;
  a record is the dictionary that is written as one line.
\<close>

subsection \<open>Records\<close>

definition ascii :: "string \<Rightarrow> pystr" where "ascii s = map of_char s"

definition K_SEQ :: pystr where "K_SEQ = ascii ''seq''"
definition K_TS :: pystr where "K_TS = ascii ''ts''"
definition K_MONO_NS :: pystr where "K_MONO_NS = ascii ''mono_ns''"
definition K_ACTION :: pystr where "K_ACTION = ascii ''action''"
definition K_PRINCIPAL :: pystr where "K_PRINCIPAL = ascii ''principal''"
definition K_SESSION_ID :: pystr where "K_SESSION_ID = ascii ''session_id''"
definition K_SOURCE_IP :: pystr where "K_SOURCE_IP = ascii ''source_ip''"
definition K_DETAIL :: pystr where "K_DETAIL = ascii ''detail''"
definition K_PREV_HASH :: pystr where "K_PREV_HASH = ascii ''prev_hash''"
definition K_RECORD_HASH :: pystr where "K_RECORD_HASH = ascii ''record_hash''"

lemmas key_defs = K_SEQ_def K_TS_def K_MONO_NS_def K_ACTION_def K_PRINCIPAL_def K_SESSION_ID_def
  K_SOURCE_IP_def K_DETAIL_def K_PREV_HASH_def K_RECORD_HASH_def ascii_def

definition GENESIS_HASH :: pystr where "GENESIS_HASH = replicate 64 48"

definition RECORD_KEYS :: "pystr list" where
  "RECORD_KEYS = [K_SEQ, K_TS, K_MONO_NS, K_ACTION, K_PRINCIPAL, K_SESSION_ID, K_SOURCE_IP, K_DETAIL,
     K_PREV_HASH, K_RECORD_HASH]"

definition PAYLOAD_KEYS :: "pystr list" where
  "PAYLOAD_KEYS = [K_SEQ, K_TS, K_MONO_NS, K_ACTION, K_PRINCIPAL, K_SESSION_ID, K_SOURCE_IP, K_DETAIL, K_PREV_HASH]"

text \<open>The fields a record's hash covers: all but the hash itself.\<close>

definition field :: "jdict \<Rightarrow> pystr \<Rightarrow> json" where
  "field d k = (case od_get d k of None \<Rightarrow> JNull | Some v \<Rightarrow> v)"

definition payload_fields :: "jdict \<Rightarrow> jdict" where
  "payload_fields d = map (\<lambda>k. (k, field d k)) PAYLOAD_KEYS"

subsection \<open>The writer\<close>

record audit_chain =
  ac_seq :: int
  ac_last_hash :: pystr
  ac_log :: "jdict list"

definition new_audit_chain :: "int \<Rightarrow> pystr \<Rightarrow> jdict list \<Rightarrow> audit_chain" where
  "new_audit_chain sq h ls = \<lparr>ac_seq = sq, ac_last_hash = h, ac_log = ls\<rparr>"

record audit_entry =
  ae_action :: pystr
  ae_principal :: pystr
  ae_session_id :: pystr
  ae_source_ip :: pystr
  ae_detail :: jdict

text \<open>\<open>written\<close> says whether the durable write succeeds; an exception leaves the chain as it was.\<close>

definition audit_append ::
  "(jdict \<Rightarrow> byte list option) \<Rightarrow> (byte list \<Rightarrow> pystr) \<Rightarrow> audit_entry \<Rightarrow> time \<Rightarrow> int \<Rightarrow> bool \<Rightarrow> audit_chain \<Rightarrow>
   jdict option \<times> audit_chain" where
  "audit_append canon sha e ts mono_ns written c =
     (let sq = ac_seq c + 1;
          payload = [(K_SEQ, JInt sq), (K_TS, JFloat ts), (K_MONO_NS, JInt mono_ns), (K_ACTION, JStr (ae_action e)),
                     (K_PRINCIPAL, JStr (ae_principal e)), (K_SESSION_ID, JStr (ae_session_id e)),
                     (K_SOURCE_IP, JStr (ae_source_ip e)), (K_DETAIL, JObj (ae_detail e)),
                     (K_PREV_HASH, JStr (ac_last_hash c))]
      in case canon payload of
           None \<Rightarrow> (None, c)
         | Some b \<Rightarrow>
             if \<not> written then (None, c)
             else
               let h = sha b; r = payload @ [(K_RECORD_HASH, JStr h)]
               in (Some r, \<lparr>ac_seq = sq, ac_last_hash = h, ac_log = ac_log c @ [r]\<rparr>))"

definition audit_anchor ::
  "(jdict \<Rightarrow> byte list option) \<Rightarrow> (byte list \<Rightarrow> pystr) \<Rightarrow> time \<Rightarrow> int \<Rightarrow> bool \<Rightarrow> audit_chain \<Rightarrow> jdict option \<times> audit_chain" where
  "audit_anchor canon sha ts mono_ns written c =
     audit_append canon sha
       \<lparr>ae_action = ascii ''audit.anchor'', ae_principal = [], ae_session_id = [], ae_source_ip = [],
        ae_detail = [(ascii ''anchored_seq'', JInt (ac_seq c)), (ascii ''anchored_hash'', JStr (ac_last_hash c))]\<rparr>
       ts mono_ns written c"

subsection \<open>The verifier\<close>

datatype audit_problem =
    Malformed | NonContiguous | BrokenLink | HashMismatch | HeadMismatch | NotFound | Unparseable nat

record verify_result =
  vr_ok :: bool
  vr_count :: nat
  vr_head_seq :: "int option"
  vr_head_hash :: "json option"
  vr_first_bad_seq :: "int option"
  vr_reason :: "audit_problem option"

definition bad :: "nat \<Rightarrow> int option \<Rightarrow> audit_problem \<Rightarrow> verify_result" where
  "bad n sq p = \<lparr>vr_ok = False, vr_count = n, vr_head_seq = None, vr_head_hash = None,
     vr_first_bad_seq = sq, vr_reason = Some p\<rparr>"

definition seq_of :: "json \<Rightarrow> int option" where
  "seq_of r = (case r of JObj d \<Rightarrow> (case od_get d K_SEQ of Some (JInt i) \<Rightarrow> Some i | _ \<Rightarrow> None) | _ \<Rightarrow> None)"

text \<open>
  The loop over the records. \<open>Inl ()\<close> is an exception of the canonical text, which nothing catches.
  The last head is threaded as a pair.
\<close>

fun verify_loop ::
  "(jdict \<Rightarrow> byte list option) \<Rightarrow> (byte list \<Rightarrow> pystr) \<Rightarrow> json \<Rightarrow> int option \<Rightarrow> nat \<Rightarrow> (int \<times> json) option \<Rightarrow> json list \<Rightarrow>
   unit + verify_result + nat \<times> (int \<times> json) option" where
  "verify_loop canon sha prev expected n last_head [] = Inr (Inr (n, last_head))"
| "verify_loop canon sha prev expected n last_head (r # rs) =
     (case r of
        JObj d \<Rightarrow>
          if \<not> list_all (\<lambda>k. od_get d k \<noteq> None) RECORD_KEYS then Inr (Inl (bad (n + 1) (seq_of r) Malformed))
          else
            (case field d K_SEQ of
               JInt sq \<Rightarrow>
                 if (case expected of None \<Rightarrow> False | Some e \<Rightarrow> sq \<noteq> e) then Inr (Inl (bad (n + 1) (Some sq) NonContiguous))
                 else if field d K_PREV_HASH \<noteq> prev then Inr (Inl (bad (n + 1) (Some sq) BrokenLink))
                 else
                   (case canon (payload_fields d) of
                      None \<Rightarrow> Inl ()
                    | Some b \<Rightarrow>
                        if JStr (sha b) \<noteq> field d K_RECORD_HASH then Inr (Inl (bad (n + 1) (Some sq) HashMismatch))
                        else verify_loop canon sha (field d K_RECORD_HASH) (Some (sq + 1)) (n + 1)
                               (Some (sq, field d K_RECORD_HASH)) rs)
             | _ \<Rightarrow> Inr (Inl (bad (n + 1) (seq_of r) Malformed)))
      | _ \<Rightarrow> Inr (Inl (bad (n + 1) None Malformed)))"

definition verify_records ::
  "(jdict \<Rightarrow> byte list option) \<Rightarrow> (byte list \<Rightarrow> pystr) \<Rightarrow> pystr \<Rightarrow> (int \<times> pystr) option \<Rightarrow> json list \<Rightarrow>
   unit + verify_result" where
  "verify_records canon sha genesis expected_head rs =
     (case verify_loop canon sha (JStr genesis) None 0 None rs of
        Inl e \<Rightarrow> Inl e
      | Inr (Inl v) \<Rightarrow> Inr v
      | Inr (Inr (n, last_head)) \<Rightarrow>
          (let ls = map_option fst last_head; lh = map_option snd last_head
           in if (case expected_head of None \<Rightarrow> False
                  | Some (es, eh) \<Rightarrow> ls \<noteq> Some es \<or> lh \<noteq> Some (JStr eh))
              then Inr \<lparr>vr_ok = False, vr_count = n, vr_head_seq = ls, vr_head_hash = lh,
                     vr_first_bad_seq = ls, vr_reason = Some HeadMismatch\<rparr>
              else Inr \<lparr>vr_ok = True, vr_count = n, vr_head_seq = ls, vr_head_hash = lh,
                     vr_first_bad_seq = None, vr_reason = None\<rparr>))"

text \<open>\<open>verify_audit_log\<close>: \<open>file\<close> is the lines, \<open>None\<close> when there is no file; blank ones are skipped.\<close>

fun parse_lines :: "json_loads \<Rightarrow> nat \<Rightarrow> nat \<Rightarrow> pystr list \<Rightarrow> (nat \<times> nat) + json list" where
  "parse_lines loads index parsed [] = Inr []"
| "parse_lines loads index parsed (raw # raws) =
     (let line = py_strip raw
      in if line = [] then parse_lines loads (index + 1) parsed raws
         else case loads line of
                None \<Rightarrow> Inl (parsed, index)
              | Some r \<Rightarrow> map_sum id ((#) r) (parse_lines loads (index + 1) (parsed + 1) raws))"

definition verify_audit_log ::
  "json_loads \<Rightarrow> (jdict \<Rightarrow> byte list option) \<Rightarrow> (byte list \<Rightarrow> pystr) \<Rightarrow> (int \<times> pystr) option \<Rightarrow> pystr list option \<Rightarrow>
   unit + verify_result" where
  "verify_audit_log loads canon sha expected_head file =
     (case file of
        None \<Rightarrow> Inr (bad 0 None NotFound)
      | Some raws \<Rightarrow>
          (case parse_lines loads 1 0 raws of
             Inl (parsed, index) \<Rightarrow> Inr (bad parsed (Some (int index)) (Unparseable index))
           | Inr rs \<Rightarrow> verify_records canon sha GENESIS_HASH expected_head rs))"

text \<open>The head kept by the control plane never moves back (\<open>set_audit_head\<close> of \<open>control/plane/memory/engine.py\<close>).\<close>

definition set_audit_head :: "int \<Rightarrow> pystr \<Rightarrow> (int \<times> pystr) option \<Rightarrow> (int \<times> pystr) option" where
  "set_audit_head sq h cur =
     (case cur of Some (s, _) \<Rightarrow> if sq \<le> s then cur else Some (sq, h) | None \<Rightarrow> Some (sq, h))"

text \<open>Where \<open>resume_audit_chain\<close> continues after a verification, and whether it raises the alarm.\<close>

definition resume_alarm :: "bool \<Rightarrow> bool \<Rightarrow> verify_result \<Rightarrow> bool" where
  "resume_alarm has_head file_exists v \<longleftrightarrow> \<not> vr_ok v \<and> (has_head \<or> file_exists)"

definition resume_audit_chain :: "verify_result \<Rightarrow> jdict list \<Rightarrow> audit_chain" where
  "resume_audit_chain v ls =
     new_audit_chain (case vr_head_seq v of None \<Rightarrow> 0 | Some n \<Rightarrow> n)
       (case vr_head_hash v of Some (JStr h) \<Rightarrow> (if h = [] then GENESIS_HASH else h) | _ \<Rightarrow> GENESIS_HASH) ls"

subsection \<open>Runs of the writer\<close>

datatype audit_event = AuEntry audit_entry time int bool | AuAnchor time int bool

fun audit_apply :: "(jdict \<Rightarrow> byte list option) \<Rightarrow> (byte list \<Rightarrow> pystr) \<Rightarrow> audit_event \<Rightarrow> audit_chain \<Rightarrow> audit_chain" where
  "audit_apply canon sha (AuEntry e ts m w) c = snd (audit_append canon sha e ts m w c)"
| "audit_apply canon sha (AuAnchor ts m w) c = snd (audit_anchor canon sha ts m w c)"

abbreviation audit_run :: "(jdict \<Rightarrow> byte list option) \<Rightarrow> (byte list \<Rightarrow> pystr) \<Rightarrow> audit_event list \<Rightarrow> audit_chain" where
  "audit_run canon sha es \<equiv> fold (audit_apply canon sha) es (new_audit_chain 0 GENESIS_HASH [])"

lemma keys_distinct: "distinct RECORD_KEYS"
  by (simp add: RECORD_KEYS_def key_defs)

text \<open>A verified list leaves the head of its last record, and verification goes on from there.\<close>

definition from_head :: "(int \<times> json) option \<Rightarrow> json \<times> int option" where
  "from_head h = (case h of None \<Rightarrow> (JStr GENESIS_HASH, None) | Some (sq, v) \<Rightarrow> (v, Some (sq + 1)))"

abbreviation verify_from ::
  "(jdict \<Rightarrow> byte list option) \<Rightarrow> (byte list \<Rightarrow> pystr) \<Rightarrow> nat \<Rightarrow> (int \<times> json) option \<Rightarrow> json list \<Rightarrow>
   unit + verify_result + nat \<times> (int \<times> json) option" where
  "verify_from canon sha n h rs \<equiv> verify_loop canon sha (fst (from_head h)) (snd (from_head h)) n h rs"

lemma verify_append:
  "verify_from canon sha n h (rs @ rs') =
     (case verify_from canon sha n h rs of
        Inl e \<Rightarrow> Inl e
      | Inr (Inl v) \<Rightarrow> Inr (Inl v)
      | Inr (Inr (n', h')) \<Rightarrow> verify_from canon sha n' h' rs')"
proof (induction rs arbitrary: n h)
  case (Cons r rs)
  have step: "verify_loop canon sha v (Some (sq + 1)) (n + 1) (Some (sq, v)) xs = verify_from canon sha (n + 1) (Some (sq, v)) xs"
    for v sq xs by (simp add: from_head_def)
  show ?case using Cons.IH by (simp only: append_Cons verify_loop.simps step) (auto split: json.split option.split)
qed simp

text \<open>A single record that is accepted.\<close>

definition accepts :: "(jdict \<Rightarrow> byte list option) \<Rightarrow> (byte list \<Rightarrow> pystr) \<Rightarrow> (int \<times> json) option \<Rightarrow> jdict \<Rightarrow> int \<Rightarrow> bool" where
  "accepts canon sha h d sq \<longleftrightarrow>
     list_all (\<lambda>k. od_get d k \<noteq> None) RECORD_KEYS \<and> field d K_SEQ = JInt sq \<and>
     (h \<noteq> None \<longrightarrow> snd (from_head h) = Some sq) \<and> field d K_PREV_HASH = fst (from_head h) \<and>
     (\<exists>b. canon (payload_fields d) = Some b \<and> field d K_RECORD_HASH = JStr (sha b))"

lemma verify_Cons_ok:
  "verify_from canon sha n h (r # rs) = Inr (Inr res) \<longleftrightarrow>
     (\<exists>d sq. r = JObj d \<and> accepts canon sha h d sq \<and>
        verify_from canon sha (n + 1) (Some (sq, field d K_RECORD_HASH)) rs = Inr (Inr res))"
  by (cases h) (auto simp: accepts_def from_head_def split: json.splits option.splits if_splits)

definition chain_head :: "audit_chain \<Rightarrow> (int \<times> json) option" where
  "chain_head c = (if ac_log c = [] then None else Some (ac_seq c, JStr (ac_last_hash c)))"

definition chain_ok :: "(jdict \<Rightarrow> byte list option) \<Rightarrow> (byte list \<Rightarrow> pystr) \<Rightarrow> audit_chain \<Rightarrow> bool" where
  "chain_ok canon sha c \<longleftrightarrow>
     verify_from canon sha 0 None (map JObj (ac_log c)) = Inr (Inr (length (ac_log c), chain_head c)) \<and>
     (ac_log c = [] \<longrightarrow> ac_last_hash c = GENESIS_HASH) \<and> ac_seq c = int (length (ac_log c))"

lemma append_accepted:
  assumes "audit_append canon sha e ts m w c = (Some r, c')" "ac_log c = [] \<longrightarrow> ac_last_hash c = GENESIS_HASH"
  shows "accepts canon sha (chain_head c) r (ac_seq c + 1)" "field r K_RECORD_HASH = JStr (ac_last_hash c')"
    "ac_seq c' = ac_seq c + 1" "ac_log c' = ac_log c @ [r]"
proof -
  let ?p = "[(K_SEQ, JInt (ac_seq c + 1)), (K_TS, JFloat ts), (K_MONO_NS, JInt m), (K_ACTION, JStr (ae_action e)),
    (K_PRINCIPAL, JStr (ae_principal e)), (K_SESSION_ID, JStr (ae_session_id e)),
    (K_SOURCE_IP, JStr (ae_source_ip e)), (K_DETAIL, JObj (ae_detail e)), (K_PREV_HASH, JStr (ac_last_hash c))]"
  obtain b where b: "canon ?p = Some b" "r = ?p @ [(K_RECORD_HASH, JStr (sha b))]"
    "c' = \<lparr>ac_seq = ac_seq c + 1, ac_last_hash = sha b, ac_log = ac_log c @ [r]\<rparr>"
    using assms(1) by (auto simp: audit_append_def Let_def split: option.splits if_splits)
  have "payload_fields r = ?p" "list_all (\<lambda>k. od_get r k \<noteq> None) RECORD_KEYS"
    "field r K_SEQ = JInt (ac_seq c + 1)" "field r K_PREV_HASH = JStr (ac_last_hash c)" "field r K_RECORD_HASH = JStr (sha b)"
    unfolding b(2) using keys_distinct
    by (simp_all add: payload_fields_def PAYLOAD_KEYS_def field_def RECORD_KEYS_def)
  then show "accepts canon sha (chain_head c) r (ac_seq c + 1)" "field r K_RECORD_HASH = JStr (ac_last_hash c')"
    "ac_seq c' = ac_seq c + 1" "ac_log c' = ac_log c @ [r]"
    using b assms(2) by (auto simp: accepts_def chain_head_def from_head_def)
qed

lemma append_ok:
  assumes "chain_ok canon sha c"
  shows "chain_ok canon sha (snd (audit_append canon sha e ts m w c))"
proof (cases "fst (audit_append canon sha e ts m w c)")
  case None
  then have "snd (audit_append canon sha e ts m w c) = c"
    by (auto simp: audit_append_def Let_def split: option.splits if_splits)
  with assms show ?thesis by simp
next
  case (Some r)
  then obtain c' where a: "audit_append canon sha e ts m w c = (Some r, c')" by (metis prod.collapse)
  note acc = append_accepted [OF a] 
  have g: "ac_log c = [] \<longrightarrow> ac_last_hash c = GENESIS_HASH" using assms by (simp add: chain_ok_def)
  have "verify_from canon sha (length (ac_log c)) (chain_head c) [JObj r] =
      Inr (Inr (length (ac_log c) + 1, Some (ac_seq c', JStr (ac_last_hash c'))))"
    unfolding verify_Cons_ok using acc(1,2,3) [OF g] by (intro exI [of _ r] exI [of _ "ac_seq c'"]) simp
  then show ?thesis
    using assms a acc(3,4) [OF g] verify_append [where n = 0 and h = None and rs = "map JObj (ac_log c)" and rs' = "[JObj r]" and canon = canon and sha = sha]
    by (simp add: chain_ok_def chain_head_def)
qed

lemma run_ok: "chain_ok canon sha c \<Longrightarrow> chain_ok canon sha (fold (audit_apply canon sha) es c)"
proof (induction es arbitrary: c)
  case (Cons e es)
  then show ?case by (cases e) (auto simp: audit_anchor_def intro!: Cons.IH append_ok)
qed simp

lemma new_ok [simp]: "chain_ok canon sha (new_audit_chain 0 GENESIS_HASH [])"
  by (simp add: chain_ok_def new_audit_chain_def chain_head_def)

text \<open>What verification says of an untouched log, whatever head it is held against.\<close>

lemma verify_ok_chain:
  assumes "chain_ok canon sha c"
  shows "verify_records canon sha GENESIS_HASH eh (map JObj (ac_log c)) =
    Inr (let ls = map_option fst (chain_head c); lh = map_option snd (chain_head c);
             good = (case eh of None \<Rightarrow> True | Some (es, h) \<Rightarrow> ls = Some es \<and> lh = Some (JStr h))
         in \<lparr>vr_ok = good, vr_count = length (ac_log c), vr_head_seq = ls, vr_head_hash = lh,
              vr_first_bad_seq = (if good then None else ls),
              vr_reason = (if good then None else Some HeadMismatch)\<rparr>)"
proof -
  have "verify_loop canon sha (JStr GENESIS_HASH) None 0 None (map JObj (ac_log c)) =
      Inr (Inr (length (ac_log c), chain_head c))"
    using assms by (simp add: chain_ok_def from_head_def)
  then show ?thesis by (auto simp: verify_records_def Let_def split: option.splits)
qed

lemma run_longer: "length (ac_log c) \<le> length (ac_log (fold (audit_apply canon sha) es c))"
proof (induction es arbitrary: c)
  case (Cons e es)
  have "length (ac_log c) \<le> length (ac_log (audit_apply canon sha e c))"
    by (cases e) (auto simp: audit_anchor_def audit_append_def Let_def split: option.splits)
  with Cons.IH [of "audit_apply canon sha e c"] show ?case by simp
qed simp

text \<open>The last record of a verified list.\<close>

lemma verify_snoc:
  "verify_from canon sha 0 None (rs @ [r]) = Inr (Inr (n, h)) \<longleftrightarrow>
     (\<exists>n1 h1 d sq. verify_from canon sha 0 None rs = Inr (Inr (n1, h1)) \<and> n = n1 + 1 \<and> r = JObj d \<and>
        accepts canon sha h1 d sq \<and> h = Some (sq, field d K_RECORD_HASH))"
proof -
  have one: "verify_from canon sha n1 h1 [r] = Inr (Inr (n, h)) \<longleftrightarrow>
      (\<exists>d sq. n = n1 + 1 \<and> r = JObj d \<and> accepts canon sha h1 d sq \<and> h = Some (sq, field d K_RECORD_HASH))" for n1 h1
    unfolding verify_Cons_ok by auto
  show ?thesis
    unfolding verify_append [where n = 0 and h = None and rs = rs] using one
    by (auto split: sum.splits)
qed

lemma verify_head:
  assumes "verify_from canon sha 0 None rs = Inr (Inr (n, h))"
  shows "h = None \<longleftrightarrow> rs = []" and "h = Some (sq, v) \<Longrightarrow> \<exists>b. v = JStr (sha b)"
proof -
  have "(h = None \<longleftrightarrow> rs = []) \<and> (\<forall>sq v. h = Some (sq, v) \<longrightarrow> (\<exists>b. v = JStr (sha b)))"
  proof (cases rs rule: rev_cases)
    case Nil
    with assms show ?thesis by simp
  next
    case (snoc ys y)
    with assms show ?thesis unfolding snoc verify_snoc by (auto simp: accepts_def)
  qed
  then show "h = None \<longleftrightarrow> rs = []" "h = Some (sq, v) \<Longrightarrow> \<exists>b. v = JStr (sha b)" by blast+
qed

lemma verify_loop_bad: "verify_loop canon sha prev expected n h rs = Inr (Inl v) \<Longrightarrow> \<not> vr_ok v \<and> vr_head_seq v = None \<and> vr_head_hash v = None"
  by (induction canon sha prev expected n h rs rule: verify_loop.induct)
     (auto simp: bad_def split: json.splits option.splits if_splits)

text \<open>
  Two verified logs with the same head: their records have the same canonical texts, or the hash is
  broken, by a collision or by a preimage of the genesis value.
\<close>

definition hash_broken :: "(byte list \<Rightarrow> pystr) \<Rightarrow> bool" where
  "hash_broken sha \<longleftrightarrow> (\<exists>p q. p \<noteq> q \<and> sha p = sha q) \<or> (\<exists>p. sha p = GENESIS_HASH)"

lemma same_head_same_log:
  assumes prev: "\<And>d d' b. canon d = Some b \<Longrightarrow> canon d' = Some b \<Longrightarrow> od_get d K_PREV_HASH = od_get d' K_PREV_HASH"
    and "verify_from canon sha 0 None rs = Inr (Inr (n, h))" "verify_from canon sha 0 None rs' = Inr (Inr (n', h))"
  shows "hash_broken sha \<or> (\<exists>ds ds'. rs = map JObj ds \<and> rs' = map JObj ds' \<and>
    map (\<lambda>d. (canon (payload_fields d), field d K_RECORD_HASH)) ds =
    map (\<lambda>d. (canon (payload_fields d), field d K_RECORD_HASH)) ds')"
  using assms(2,3)
proof (induction rs arbitrary: rs' n n' h rule: rev_induct)
  case Nil
  then have "rs' = []" using verify_head(1) by fastforce
  then show ?case by simp
next
  case (snoc x xs)
  obtain n1 h1 d sq where d: "verify_from canon sha 0 None xs = Inr (Inr (n1, h1))" "x = JObj d"
    "accepts canon sha h1 d sq" "h = Some (sq, field d K_RECORD_HASH)"
    using snoc.prems(1) unfolding verify_snoc by blast
  then have "rs' \<noteq> []" using verify_head(1) [OF snoc.prems(2)] by auto
  then obtain ys y where ys: "rs' = ys @ [y]" by (cases rs' rule: rev_cases) auto
  obtain n2 h2 d' where d': "verify_from canon sha 0 None ys = Inr (Inr (n2, h2))" "y = JObj d'"
    "accepts canon sha h2 d' sq" "field d' K_RECORD_HASH = field d K_RECORD_HASH"
    using snoc.prems(2) d(4) unfolding ys verify_snoc by auto
  obtain b b' where b: "canon (payload_fields d) = Some b" "canon (payload_fields d') = Some b'" "sha b = sha b'"
    using d(3) d'(3,4) by (auto simp: accepts_def)
  show ?case
  proof (cases "b = b' \<and> h1 \<noteq> None \<and> h2 \<noteq> None \<or> b = b' \<and> h1 = None \<and> h2 = None")
    case True
    have "od_get (payload_fields d) K_PREV_HASH = od_get (payload_fields d') K_PREV_HASH"
      using prev b True by blast
    then have "field d K_PREV_HASH = field d' K_PREV_HASH"
      using keys_distinct by (simp add: payload_fields_def PAYLOAD_KEYS_def RECORD_KEYS_def)
    then have "h1 = h2"
      using d(3) d'(3) True by (auto simp: accepts_def from_head_def split: option.splits)
    have "verify_from canon sha 0 None ys = Inr (Inr (n2, h1))" using d'(1) \<open>h1 = h2\<close> by simp
    from snoc.IH [OF d(1) this] show ?thesis
    proof (elim disjE exE conjE)
      fix ds ds'
      assume "xs = map JObj ds" "ys = map JObj ds'"
        "map (\<lambda>d. (canon (payload_fields d), field d K_RECORD_HASH)) ds =
         map (\<lambda>d. (canon (payload_fields d), field d K_RECORD_HASH)) ds'"
      then show ?thesis
        using d(2) d'(2,4) b True ys by - (rule disjI2, rule exI [of _ "ds @ [d]"], rule exI [of _ "ds' @ [d']"], auto)
    qed simp
  next
    case False
    have "hash_broken sha"
    proof (cases "b = b'")
      case True
      then have "od_get (payload_fields d) K_PREV_HASH = od_get (payload_fields d') K_PREV_HASH"
        using prev b by blast
      then have e: "fst (from_head h1) = fst (from_head h2)"
        using d(3) d'(3) keys_distinct
        by (simp add: accepts_def payload_fields_def PAYLOAD_KEYS_def RECORD_KEYS_def)
      obtain v sq1 where "h1 = None \<and> h2 = Some (sq1, v) \<or> h2 = None \<and> h1 = Some (sq1, v)"
        using False True by (cases h1; cases h2) auto
      then have "v = JStr GENESIS_HASH" "\<exists>b. v = JStr (sha b)"
        using e verify_head(2) [OF d(1)] verify_head(2) [OF d'(1)] by (auto simp: from_head_def)
      then show ?thesis unfolding hash_broken_def by (metis json.inject(4))
    qed (use b in \<open>auto simp: hash_broken_def\<close>)
    then show ?thesis ..
  qed
qed

subsection \<open>Properties\<close>

text \<open>The log of an untouched chain verifies, and a restart continues it: after any sequence of
  appends and anchors, failed ones included, verifying the file against the writer's own head
  succeeds and counts every record, and resuming from that verification gives back the writer's
  state. (A digest is not empty.)\<close>

theorem audit_log_verifies:
  assumes "\<And>b. sha b \<noteq> []"
  shows "(let c = audit_run canon sha es in
    \<exists>v. verify_records canon sha GENESIS_HASH (if ac_log c = [] then None else Some (ac_seq c, ac_last_hash c))
          (map JObj (ac_log c)) = Inr v \<and>
        vr_ok v \<and> vr_count v = length (ac_log c) \<and> resume_audit_chain v (ac_log c) = c)"
proof -
  let ?c = "audit_run canon sha es"
  have ok: "chain_ok canon sha ?c" by (rule run_ok [OF new_ok])
  have "ac_last_hash ?c \<noteq> []" if "ac_log ?c \<noteq> []"
  proof -
    have "verify_from canon sha 0 None (map JObj (ac_log ?c)) =
        Inr (Inr (length (ac_log ?c), Some (ac_seq ?c, JStr (ac_last_hash ?c))))"
      using ok that by (simp add: chain_ok_def chain_head_def)
    from verify_head(2) [OF this refl] obtain b where "ac_last_hash ?c = sha b" by auto
    with assms [of b] show ?thesis by simp
  qed
  then show ?thesis
    using ok unfolding Let_def verify_ok_chain [OF ok]
    by (auto simp: chain_head_def resume_audit_chain_def new_audit_chain_def chain_ok_def)
qed

definition demo_canon :: "jdict \<Rightarrow> byte list option" where
  "demo_canon d = (case (field d K_SEQ, field d K_PREV_HASH) of (JInt i, JStr h) \<Rightarrow> Some (nat i # h) | _ \<Rightarrow> None)"

definition demo_entry :: audit_event where
  "demo_entry = AuEntry \<lparr>ae_action = ascii ''x'', ae_principal = [], ae_session_id = [], ae_source_ip = [], ae_detail = []\<rparr> 1 2 True"

theorem audit_log_verifies_witness:
  "\<exists>v. verify_records demo_canon (\<lambda>b. 49 # b) GENESIS_HASH
         (Some (ac_seq (audit_run demo_canon (\<lambda>b. 49 # b) [demo_entry]), ac_last_hash (audit_run demo_canon (\<lambda>b. 49 # b) [demo_entry])))
         (map JObj (ac_log (audit_run demo_canon (\<lambda>b. 49 # b) [demo_entry]))) = Inr v \<and> vr_ok v \<and> vr_count v = 1"
proof -
  have "length (ac_log (audit_run demo_canon (\<lambda>b. 49 # b) [demo_entry])) = 1"
    using keys_distinct
    by (simp add: demo_entry_def audit_append_def new_audit_chain_def demo_canon_def field_def RECORD_KEYS_def Let_def)
  moreover from this have "ac_log (audit_run demo_canon (\<lambda>b. 49 # b) [demo_entry]) \<noteq> []" by auto
  ultimately show ?thesis
    using audit_log_verifies [of "\<lambda>b. 49 # b" demo_canon "[demo_entry]"] by (auto simp: Let_def)
qed


abbreviation demo_sha :: "byte list \<Rightarrow> pystr" where "demo_sha \<equiv> (#) 49"

lemma demo_prev: "demo_canon d = Some b \<Longrightarrow> demo_canon d' = Some b \<Longrightarrow> od_get d K_PREV_HASH = od_get d' K_PREV_HASH"
  by (auto simp: demo_canon_def field_def split: json.splits option.splits)

lemma demo_logged: "ac_log (audit_run demo_canon demo_sha [demo_entry]) \<noteq> []"
  using keys_distinct
  by (simp add: demo_entry_def audit_append_def new_audit_chain_def demo_canon_def field_def RECORD_KEYS_def Let_def)


text \<open>
  A break inside the log loses its head: whatever was recorded after it, the writer starts again at
  the genesis value.
\<close>

lemma resume_after_break:
  assumes "verify_records canon sha GENESIS_HASH eh rs = Inr v" "\<not> vr_ok v" "vr_reason v \<noteq> Some HeadMismatch"
  shows "resume_audit_chain v ls = new_audit_chain 0 GENESIS_HASH ls"
  using assms
  by (auto simp: verify_records_def resume_audit_chain_def Let_def dest: verify_loop_bad split: sum.splits if_splits)

text \<open>The start-up check raises its alarm over logs nobody touched. The head in the control plane is
  checkpointed from time to time, so after a crash it is older than the log; the verifier wants the
  log to end exactly there and reports truncation or roll-back. And a deployment that has recorded
  nothing by its second start has a head already, from the first, and no file.\<close>

theorem audit_false_alarm:
  assumes "length (ac_log (audit_run canon sha es)) < length (ac_log (audit_run canon sha (es @ es')))"
  shows "(\<exists>v. verify_records canon sha GENESIS_HASH
               (Some (ac_seq (audit_run canon sha es), ac_last_hash (audit_run canon sha es)))
               (map JObj (ac_log (audit_run canon sha (es @ es')))) = Inr v \<and>
             vr_reason v = Some HeadMismatch \<and> resume_alarm True True v) \<and>
    (\<exists>v c. verify_audit_log loads canon sha None None = Inr v \<and> \<not> resume_alarm False False v \<and>
           c = resume_audit_chain v [] \<and> verify_audit_log loads canon sha (set_audit_head (ac_seq c) (ac_last_hash c) None) None = Inr v \<and>
           resume_alarm (set_audit_head (ac_seq c) (ac_last_hash c) None \<noteq> None) False v)"
proof
  let ?c = "audit_run canon sha es" and ?c' = "audit_run canon sha (es @ es')"
  have ok: "chain_ok canon sha ?c" "chain_ok canon sha ?c'" by (rule run_ok [OF new_ok])+
  have "ac_seq ?c < ac_seq ?c'" "ac_log ?c' \<noteq> []" using ok assms by (auto simp: chain_ok_def)
  then show "\<exists>v. verify_records canon sha GENESIS_HASH (Some (ac_seq ?c, ac_last_hash ?c)) (map JObj (ac_log ?c')) = Inr v \<and>
      vr_reason v = Some HeadMismatch \<and> resume_alarm True True v"
    unfolding verify_ok_chain [OF ok(2)] by (auto simp: Let_def chain_head_def resume_alarm_def)
qed (simp add: verify_audit_log_def bad_def resume_alarm_def set_audit_head_def)

theorem audit_false_alarm_witness:
  "\<exists>v. verify_records demo_canon demo_sha GENESIS_HASH (Some (0, GENESIS_HASH))
         (map JObj (ac_log (audit_run demo_canon demo_sha [demo_entry]))) = Inr v \<and>
       vr_reason v = Some HeadMismatch"
  using audit_false_alarm [of demo_canon demo_sha "[]" "[demo_entry]" "\<lambda>_. None"] demo_logged
  by (auto simp: new_audit_chain_def)

end
