(* ===== verification/OutputCapture.thy ===== *)
theory OutputCapture
  imports Json
begin

text \<open>
  Collecting the output of one session after a fan-out command
  (\<open>server/bridge/fanout/_collector.py\<close>): the bounded text a capture keeps and the loop of \<open>collect\<close>.
  The asynchronous queue is a script: for each turn of the loop the clock reading at its top and how
  \<open>queue.get()\<close> under \<open>wait_for\<close> ends there.
\<close>

subsection \<open>The newest part of a text\<close>

text \<open>
  \<open>encoded[-n:].decode("utf-8", errors="ignore")\<close> for \<open>n \<ge> 1\<close>: cutting an encoding leaves at most some
  continuation bytes in front, which the decoder skips; the rest is strict.
\<close>

definition decode_cut :: "byte list \<Rightarrow> pystr option" where
  "decode_cut bs = utf8_decode (dropWhile cont bs)"

definition newest_utf8_suffix :: "pystr \<Rightarrow> nat \<Rightarrow> pystr option" where
  "newest_utf8_suffix text max_bytes =
     (case utf8_encode text of
        None \<Rightarrow> None
      | Some encoded \<Rightarrow>
          if length encoded \<le> max_bytes then Some text
          else decode_cut (drop (length encoded - max_bytes) encoded))"

text \<open>Without bytes: characters go from the front until the rest fits.\<close>

fun fitting_suffix :: "nat \<Rightarrow> pystr \<Rightarrow> pystr" where
  "fitting_suffix n [] = []"
| "fitting_suffix n (c # s) = (if length (utf8_bytes (c # s)) \<le> n then c # s else fitting_suffix n s)"

lemma char_head: "cont b = False" if "utf8_char c = b # bs" "c < 0x110000"
  using that by (auto simp: utf8_char_def cont_def split: if_splits)

lemma char_tail: "utf8_char c = b # bs \<Longrightarrow> x \<in> set bs \<Longrightarrow> cont x"
  by (auto simp: utf8_char_def cont_def split: if_splits)

lemma bytes_no_cont: "list_all scalar s \<Longrightarrow> dropWhile cont (utf8_bytes s) = utf8_bytes s"
proof (cases s)
  case (Cons c s')
  assume "list_all scalar s"
  then have "c < 0x110000" using Cons by (auto simp: scalar_def)
  then show ?thesis using Cons char_head [of c] by (cases "utf8_char c") auto
qed simp

lemma dropWhile_cut:
  assumes "list_all scalar s"
  shows "dropWhile cont (drop (length (utf8_bytes s) - n) (utf8_bytes s)) = utf8_bytes (fitting_suffix n s)"
  using assms
proof (induction s)
  case (Cons c s)
  let ?k = "length (utf8_bytes (c # s)) - n"
  show ?case
  proof (cases "length (utf8_bytes (c # s)) \<le> n")
    case True
    then show ?thesis using bytes_no_cont [OF Cons.prems] by simp
  next
    case over: False
    obtain b bs where c: "utf8_char c = b # bs" by (cases "utf8_char c") auto
    show ?thesis
    proof (cases "length (utf8_char c) \<le> ?k")
      case True
      then have "drop ?k (utf8_bytes (c # s)) = drop (length (utf8_bytes s) - n) (utf8_bytes s)" by simp
      with Cons over show ?thesis by simp
    next
      case False
      obtain k where k: "?k = Suc k" using over not0_implies_Suc [of ?k] by force
      have "length (utf8_char c) = Suc (length bs)" using c by simp
      with False k have kl: "k < length bs" by linarith
      have "drop ?k (utf8_bytes (c # s)) = drop k bs @ utf8_bytes s" unfolding k unfolding utf8_bytes_simps c using kl by simp
      moreover have "\<And>x. x \<in> set (drop k bs) \<Longrightarrow> cont x"
        by (rule char_tail [OF c]) (rule in_set_dropD)
      ultimately have "dropWhile cont (drop ?k (utf8_bytes (c # s))) = utf8_bytes s"
        using bytes_no_cont [of s] Cons.prems by (simp add: dropWhile_append2)
      moreover have "length (utf8_bytes s) \<le> n" using False over by simp
      then have "fitting_suffix n s = s" by (cases s) auto
      ultimately show ?thesis using over by simp
    qed
  qed
qed simp

lemma fitting_scalar: "list_all scalar s \<Longrightarrow> list_all scalar (fitting_suffix n s)"
  by (induction s) auto

lemma fitting_short: "length (utf8_bytes s) \<le> n \<Longrightarrow> fitting_suffix n s = s"
  by (cases s) auto

lemma newest_is_fitting:
  "newest_utf8_suffix s n = (if list_all scalar s then Some (fitting_suffix n s) else None)"
  using dropWhile_cut [of s n] utf8_decode_bytes fitting_scalar [of s n] fitting_short [of s n]
  by (simp add: newest_utf8_suffix_def utf8_encode_def decode_cut_def)

lemma fitting_length: "length (utf8_bytes (fitting_suffix n s)) \<le> n"
  by (induction s) auto

lemma fitting_append: "fitting_suffix n (fitting_suffix n a @ b) = fitting_suffix n (a @ b)"
proof (induction a)
  case (Cons c a)
  show ?case
  proof (cases "length (utf8_bytes (c # a)) \<le> n")
    case False
    then have "\<not> length (utf8_bytes (c # a @ b)) \<le> n" by simp
    with False Cons show ?thesis by simp
  qed simp
qed simp

lemma fitting_sub: "\<exists>p. s = p @ fitting_suffix n s"
proof (induction s)
  case (Cons c s)
  then obtain p where p: "s = p @ fitting_suffix n s" by blast
  show ?case
  proof (cases "length (utf8_bytes (c # s)) \<le> n")
    case False
    then have "c # s = (c # p) @ fitting_suffix n (c # s)" using p by simp
    then show ?thesis by blast
  qed (auto intro: exI [of _ "[]"])
qed simp

subsection \<open>The collecting loop\<close>

text \<open>
  How one \<open>wait_for(queue.get(), min(remaining, quiesce))\<close> ends: in time-out, with the bus's end mark,
  or with an event. A script gives the clock reading at the top of each turn with it.
\<close>

datatype get_outcome = GetTimeout | GetEnd | GetEvent jdict

type_synonym get_script = "(time \<times> get_outcome) list"

definition K_TYPE :: pystr where "K_TYPE = map of_char ''type''"
definition K_DATA :: pystr where "K_DATA = map of_char ''data''"
definition K_SCREEN :: pystr where "K_SCREEN = map of_char ''screen''"
definition V_TERM :: pystr where "V_TERM = map of_char ''term''"

text \<open>The string \<open>event["data"][key]\<close>, empty when anything on the way is missing or of another type.\<close>

definition event_text :: "pystr \<Rightarrow> jdict \<Rightarrow> pystr" where
  "event_text key ev =
     (case od_get ev K_DATA of
        Some (JObj data) \<Rightarrow> (case od_get data key of Some (JStr t) \<Rightarrow> t | _ \<Rightarrow> [])
      | _ \<Rightarrow> [])"

definition is_term :: "jdict \<Rightarrow> bool" where
  "is_term ev \<longleftrightarrow> od_get ev K_TYPE = Some (JStr V_TERM)"

text \<open>
  The loop. \<open>None\<close>: the script ended while the loop was still waiting. \<open>Some (Inl ())\<close>: the
  \<open>UnicodeEncodeError\<close> of a text that has no UTF-8 encoding.
\<close>

fun collect_loop :: "nat \<Rightarrow> real \<Rightarrow> time \<Rightarrow> pystr \<Rightarrow> pystr \<Rightarrow> get_script \<Rightarrow> (unit + pystr \<times> pystr) option" where
  "collect_loop max_bytes max_s start term_output last_screen [] = None"
| "collect_loop max_bytes max_s start term_output last_screen ((now, outcome) # script) =
     (let remaining = max_s - (now - start)
      in if remaining \<le> 0 then Some (Inr (term_output, last_screen))
         else case outcome of
                GetTimeout \<Rightarrow> Some (Inr (term_output, last_screen))
              | GetEnd \<Rightarrow> Some (Inr (term_output, last_screen))
              | GetEvent ev \<Rightarrow>
                  if is_term ev then
                    let text = event_text K_DATA ev
                    in if text = [] then collect_loop max_bytes max_s start term_output last_screen script
                       else case newest_utf8_suffix (term_output @ text) max_bytes of
                              None \<Rightarrow> Some (Inl ())
                            | Some t \<Rightarrow> collect_loop max_bytes max_s start t last_screen script
                  else
                    let screen = event_text K_SCREEN ev
                    in if screen = [] then collect_loop max_bytes max_s start term_output last_screen script
                       else case newest_utf8_suffix screen max_bytes of
                              None \<Rightarrow> Some (Inl ())
                            | Some t \<Rightarrow> collect_loop max_bytes max_s start term_output t script)"

text \<open>
  \<open>collect\<close>: \<open>start\<close> is when the input was accepted, \<open>left\<close> how many events are still queued at the end
  and \<open>finish\<close> the last clock reading. The result is the text, the milliseconds and
  \<open>deadline_exceeded\<close>.
\<close>

definition python_int :: "real \<Rightarrow> int" where
  "python_int x = (if 0 \<le> x then \<lfloor>x\<rfloor> else \<lceil>x\<rceil>)"

definition capture_limit :: "int \<Rightarrow> nat" where
  "capture_limit max_output_bytes = nat (max 1 max_output_bytes)"

definition collect ::
  "int \<Rightarrow> bool \<Rightarrow> int \<Rightarrow> time \<Rightarrow> get_script \<Rightarrow> nat \<Rightarrow> time \<Rightarrow> (unit + pystr \<times> int \<times> bool) option" where
  "collect max_output_bytes subscribed max_ms start script left finish =
     (if \<not> subscribed then Some (Inr ([], 0, False))
      else case collect_loop (capture_limit max_output_bytes) (of_int max_ms / 1000) start [] [] script of
             None \<Rightarrow> None
           | Some (Inl e) \<Rightarrow> Some (Inl e)
           | Some (Inr (term_output, last_screen)) \<Rightarrow>
               Some (Inr (if term_output = [] then last_screen else term_output,
                          python_int ((finish - start) * 1000), 0 < left)))"

subsection \<open>What is collected\<close>

text \<open>The events the loop takes before it ends, and whether the script lets it end.\<close>

fun consumed :: "real \<Rightarrow> time \<Rightarrow> get_script \<Rightarrow> jdict list" where
  "consumed max_s start [] = []"
| "consumed max_s start ((now, outcome) # script) =
     (if start + max_s \<le> now then []
      else case outcome of GetEvent ev \<Rightarrow> ev # consumed max_s start script | _ \<Rightarrow> [])"

fun script_ends :: "real \<Rightarrow> time \<Rightarrow> get_script \<Rightarrow> bool" where
  "script_ends max_s start [] = False"
| "script_ends max_s start ((now, outcome) # script) =
     (start + max_s \<le> now \<or> (case outcome of GetEvent _ \<Rightarrow> script_ends max_s start script | _ \<Rightarrow> True))"

definition term_text :: "jdict \<Rightarrow> pystr" where
  "term_text ev = (if is_term ev then event_text K_DATA ev else [])"

definition screen_text :: "jdict \<Rightarrow> pystr" where
  "screen_text ev = (if is_term ev then [] else event_text K_SCREEN ev)"

definition newest_screen :: "pystr \<Rightarrow> jdict list \<Rightarrow> pystr" where
  "newest_screen dflt es = last (dflt # filter (\<lambda>t. t \<noteq> []) (map screen_text es))"

lemma newest_screen_simps:
  "newest_screen d [] = d"
  "newest_screen d (e # es) = newest_screen (if screen_text e = [] then d else screen_text e) es"
  by (simp_all add: newest_screen_def)

lemma collect_loop_spec:
  assumes "script_ends max_s start script"
    and "\<And>e. e \<in> set (consumed max_s start script) \<Longrightarrow> list_all scalar (term_text e) \<and> list_all scalar (screen_text e)"
    and "t = fitting_suffix n t0" "s = fitting_suffix n s0" "list_all scalar t0"
  shows "collect_loop n max_s start t s script =
    Some (Inr (fitting_suffix n (t0 @ concat (map term_text (consumed max_s start script))),
               fitting_suffix n (newest_screen s0 (consumed max_s start script))))"
  using assms
proof (induction script arbitrary: t s t0 s0)
  case (Cons x script)
  obtain now outcome where x: "x = (now, outcome)" by (cases x)
  show ?case
  proof (cases "start + max_s \<le> now \<or> (\<forall>ev. outcome \<noteq> GetEvent ev)")
    case True
    then show ?thesis using Cons.prems x by (cases outcome) (auto simp: newest_screen_simps)
  next
    case False
    then obtain ev where ev: "outcome = GetEvent ev" "\<not> start + max_s \<le> now" by blast
    let ?t = "term_text ev" and ?s = "screen_text ev"
    have sc: "list_all scalar ?t" "list_all scalar ?s" using Cons.prems(2) x ev by auto
    have IH: "collect_loop n max_s start (fitting_suffix n (t0 @ ?t)) s' script =
        Some (Inr (fitting_suffix n (t0 @ concat (map term_text (consumed max_s start (x # script)))),
                   fitting_suffix n (newest_screen s0' (consumed max_s start script))))"
      if "s' = fitting_suffix n s0'" for s' s0'
      using Cons.IH [of "fitting_suffix n (t0 @ ?t)" "t0 @ ?t" s' s0'] Cons.prems sc x ev that by auto
    have t: "newest_utf8_suffix (t @ ?t) n = Some (fitting_suffix n (t0 @ ?t))"
      using Cons.prems(3,5) sc(1) fitting_scalar [of t0 n] by (simp add: newest_is_fitting fitting_append)
    show ?thesis
    proof (cases "is_term ev")
      case True
      then have tt: "event_text K_DATA ev = ?t" "?s = []" by (simp_all add: term_text_def screen_text_def)
      show ?thesis
        using IH [OF Cons.prems(4)] t True tt x ev Cons.prems(3)
        by (cases "?t = []") (simp_all add: newest_screen_simps)
    next
      case other: False
      then have tt: "event_text K_SCREEN ev = ?s" "?t = []" by (simp_all add: term_text_def screen_text_def)
      show ?thesis
        using IH [of s s0] IH [of "fitting_suffix n ?s" ?s] other tt x ev sc(2) Cons.prems(3,4)
        by (cases "?s = []") (simp_all add: newest_screen_simps newest_is_fitting)
    qed
  qed
qed simp

subsection \<open>Properties\<close>

text \<open>Collecting always returns once the bus is quiet, ends or the time is over, and it returns the
  newest output: of all terminal text taken before that, the longest suffix of whole characters
  within the byte limit, or that of the last screen when there was no such text. Cutting after every
  event loses nothing that cutting once would keep. (Texts without a UTF-8 encoding raise.)\<close>

theorem collect_newest:
  assumes "script_ends (of_int max_ms / 1000) start script"
    and "\<And>e. e \<in> set (consumed (of_int max_ms / 1000) start script) \<Longrightarrow>
      list_all scalar (term_text e) \<and> list_all scalar (screen_text e)"
  shows "\<exists>txt. collect mx True max_ms start script left finish =
      Some (Inr (txt, python_int ((finish - start) * 1000), 0 < left)) \<and>
    length (utf8_bytes txt) \<le> capture_limit mx \<and>
    (let es = consumed (of_int max_ms / 1000) start script;
         t = fitting_suffix (capture_limit mx) (concat (map term_text es))
     in txt = (if t = [] then fitting_suffix (capture_limit mx) (newest_screen [] es) else t))"
  using collect_loop_spec [OF assms, of "[]" "capture_limit mx" "[]" "[]" "[]"] fitting_length
  by (auto simp: collect_def Let_def)

definition demo_term :: "pystr \<Rightarrow> jdict" where
  "demo_term t = [(K_TYPE, JStr V_TERM), (K_DATA, JObj [(K_DATA, JStr t)])]"

theorem collect_newest_witness:
  "\<exists>txt el. collect 3 True 10 0 [(0, GetEvent (demo_term [97, 98])), (0, GetEvent (demo_term [233, 99])), (0, GetEnd)] 0 0 =
      Some (Inr (txt, el, False)) \<and> txt = [233, 99]"
proof -
  let ?s = "[(0, GetEvent (demo_term [97, 98])), (0, GetEvent (demo_term [233, 99])), (0, GetEnd)]"
  have k: "K_TYPE \<noteq> K_DATA" by (simp add: K_TYPE_def K_DATA_def)
  have t: "term_text (demo_term x) = x" "screen_text (demo_term x) = []" for x
    using k by (simp_all add: term_text_def screen_text_def is_term_def demo_term_def event_text_def)
  have c: "consumed (of_int 10 / 1000) 0 ?s = [demo_term [97, 98], demo_term [233, 99]]" by simp
  have e: "script_ends (of_int 10 / 1000) 0 ?s" by simp
  have sc: "list_all scalar (term_text e) \<and> list_all scalar (screen_text e)"
    if "e \<in> set (consumed (of_int 10 / 1000) 0 ?s)" for e
    using that unfolding c by (auto simp: t scalar_def)
  have f: "fitting_suffix (capture_limit 3) (concat (map term_text [demo_term [97, 98], demo_term [233, 99]])) = [233, 99]"
    by (simp add: t capture_limit_def utf8_char_def)
  show ?thesis using collect_newest [OF e sc, of 3 0 0] unfolding c f Let_def by simp
qed

end
