(* ===== verification/FanOut.thy ===== *)
theory FanOut
  imports Authz Approvals OutputCapture WatchPattern
begin

text \<open>
  Fan-out groups (\<open>server/bridge/fanout/\<close>): one command sent to many sessions, in parallel or one
  after the other, with policy, approval and authorization in front (\<open>FanOutController\<close> of
  \<open>_controller.py\<close>), the group store (\<open>_store.py\<close>) and the comparison of the answers
  (\<open>_divergence.py\<close>). What the hub does for one member of a dispatch is the argument \<open>io\<close>, by the
  member's place in the group; the effects on the hub are a trace. The authorizers, the policy gate,
  \<open>re.search\<close> and \<open>SequenceMatcher.ratio\<close> are arguments as well.
\<close>

subsection \<open>Groups and results (\<open>_models.py\<close>)\<close>

record fanout_group =
  fg_group_id :: string
  fg_name :: string
  fg_worker_ids :: "string list"
  fg_created_by :: string
  fg_created_at :: time
  fg_mode :: string
  fg_stop_on_first_error :: bool
  fg_error_pattern :: "pystr option"
  fg_quiesce_ms :: int
  fg_max_response_ms :: int
  fg_divergence_threshold :: real
  fg_grants :: "string list"

record session_result =
  sr_worker_id :: string
  sr_ok :: bool
  sr_output_delta :: "pystr option"
  sr_elapsed_ms :: int
  sr_divergent :: bool

record fanout_result =
  fr_group_id :: string
  fr_send_id :: string
  fr_command :: string
  fr_sent_at :: time
  fr_results :: "session_result list"
  fr_divergent_sessions :: "string list"
  fr_failed_sessions :: "string list"
  fr_error :: "string option"
  fr_approval_required :: bool
  fr_approval_id :: "string option"

subsection \<open>The in-memory store (\<open>_store.py\<close>)\<close>

text \<open>Groups are copied on the way in and out, so they are values here.\<close>

type_synonym fanout_store = "(string \<times> fanout_group) list"

definition fanout_save :: "fanout_store \<Rightarrow> fanout_group \<Rightarrow> fanout_store" where
  "fanout_save s g = od_set s (fg_group_id g) g"

definition fanout_get :: "fanout_store \<Rightarrow> string \<Rightarrow> fanout_group option" where
  "fanout_get s gid = od_get s gid"

definition fanout_delete :: "fanout_store \<Rightarrow> string \<Rightarrow> fanout_store" where
  "fanout_delete s gid = od_pop s gid"

definition fanout_list_for_principal :: "fanout_store \<Rightarrow> string \<Rightarrow> fanout_group list" where
  "fanout_list_for_principal s p =
     filter (\<lambda>g. fg_created_by g = p \<or> p \<in> set (fg_grants g)) (map snd s)"

definition fanout_store_grant :: "fanout_store \<Rightarrow> string \<Rightarrow> string \<Rightarrow> string \<Rightarrow> bool \<times> fanout_store" where
  "fanout_store_grant s gid grantee creator =
     (case od_get s gid of
        None \<Rightarrow> (False, s)
      | Some g \<Rightarrow>
          if fg_created_by g \<noteq> creator then (False, s)
          else if grantee \<in> set (fg_grants g) then (True, s)
          else (True, od_set s gid (g\<lparr>fg_grants := fg_grants g @ [grantee]\<rparr>)))"

subsection \<open>Divergence (\<open>_divergence.py\<close>)\<close>

definition average_similarity :: "(pystr \<Rightarrow> pystr \<Rightarrow> real) \<Rightarrow> pystr list \<Rightarrow> nat \<Rightarrow> real" where
  "average_similarity ratio outputs i =
     sum_list (map (\<lambda>j. ratio (outputs ! i) (outputs ! j)) (filter (\<lambda>j. j \<noteq> i) [0..<length outputs]))
       / of_nat (length outputs - 1)"

text \<open>\<open>xs.index(max(xs))\<close>\<close>

definition index_of_max :: "real list \<Rightarrow> nat" where
  "index_of_max xs = length (takeWhile (\<lambda>x. x \<noteq> Max (set xs)) xs)"

definition compute_divergence :: "(pystr \<Rightarrow> pystr \<Rightarrow> real) \<Rightarrow> real \<Rightarrow> pystr list \<Rightarrow> bool list" where
  "compute_divergence ratio threshold outputs =
     (let n = length outputs in
      if n = 0 then []
      else if n = 1 then [False]
      else
        let avg = map (average_similarity ratio outputs) [0..<n];
            majority_idx = index_of_max avg;
            majority = outputs ! majority_idx;
            sim = map (\<lambda>out. ratio out majority) outputs;
            has_supporters = list_ex (\<lambda>i. i \<noteq> majority_idx \<and> threshold \<le> sim ! i) [0..<n]
        in map (\<lambda>i. if i = majority_idx then \<not> has_supporters else sim ! i < threshold) [0..<n])"

subsection \<open>Dispatch\<close>

text \<open>
  What happens with one member: whether its capture opens, what \<open>send_worker\<close> answers (\<open>None\<close> when it
  raises), and what \<open>collect\<close> gives for a quiescence and a limit in milliseconds (\<open>None\<close> when it
  raises): text, elapsed milliseconds and whether output was left over.
\<close>

record member_io =
  io_open :: bool
  io_send :: "bool option"
  io_collect :: "int \<Rightarrow> int \<Rightarrow> (pystr \<times> int \<times> bool) option"

datatype fanout_effect =
    Subscribed nat string
  | Observed "string list"
  | InputSent nat string string
  | Collected nat string
  | Unsubscribed nat string
  | HoldRecorded string

text \<open>The four lists both modes fill: results, failed sessions, outputs and the places they belong to.\<close>

record gathered =
  ga_results :: "session_result list"
  ga_failed :: "string list"
  ga_outputs :: "pystr list"
  ga_indices :: "nat list"

definition no_results :: gathered where
  "no_results = \<lparr>ga_results = [], ga_failed = [], ga_outputs = [], ga_indices = []\<rparr>"

definition failed_result :: "string \<Rightarrow> session_result" where
  "failed_result w =
     \<lparr>sr_worker_id = w, sr_ok = False, sr_output_delta = None, sr_elapsed_ms = 0, sr_divergent = False\<rparr>"

definition add_result :: "gathered \<Rightarrow> string \<Rightarrow> (pystr \<times> int \<times> bool) option \<Rightarrow> gathered" where
  "add_result a w item =
     (case item of
        Some (delta, elapsed, cut_short) \<Rightarrow>
          (let a1 = a\<lparr>ga_results := ga_results a @ [\<lparr>sr_worker_id = w, sr_ok = \<not> cut_short, sr_output_delta = Some delta,
                                       sr_elapsed_ms = elapsed, sr_divergent = False\<rparr>]\<rparr>
           in if cut_short then a1\<lparr>ga_failed := ga_failed a1 @ [w]\<rparr>
              else a1\<lparr>ga_outputs := ga_outputs a1 @ [delta], ga_indices := ga_indices a1 @ [length (ga_results a1) - 1]\<rparr>)
      | None \<Rightarrow> a\<lparr>ga_results := ga_results a @ [failed_result w], ga_failed := ga_failed a @ [w]\<rparr>)"

fun mark_divergent :: "(bool \<times> nat) list \<Rightarrow> session_result list \<Rightarrow> string list \<Rightarrow> session_result list \<times> string list" where
  "mark_divergent [] rs ds = (rs, ds)"
| "mark_divergent ((flag, i) # fs) rs ds =
     (if flag then mark_divergent fs (rs[i := (rs ! i)\<lparr>sr_divergent := True\<rparr>]) (ds @ [sr_worker_id (rs ! i)])
      else mark_divergent fs rs ds)"

definition conclude :: "(pystr \<Rightarrow> pystr \<Rightarrow> real) \<Rightarrow> fanout_group \<Rightarrow> string \<Rightarrow> string \<Rightarrow> time \<Rightarrow> gathered \<Rightarrow> fanout_result" where
  "conclude ratio g data send_id sent_at a =
     (let (rs, ds) = (if ga_outputs a = [] then (ga_results a, [])
                      else mark_divergent
                             (zip (compute_divergence ratio (fg_divergence_threshold g) (ga_outputs a)) (ga_indices a))
                             (ga_results a) [])
      in \<lparr>fr_group_id = fg_group_id g, fr_send_id = send_id, fr_command = data, fr_sent_at = sent_at,
           fr_results = rs, fr_divergent_sessions = ds, fr_failed_sessions = ga_failed a, fr_error = None,
           fr_approval_required = False, fr_approval_id = None\<rparr>)"

text \<open>
  Parallel mode, phase by phase: every capture is opened, the observers of the sessions that have one
  are told, the input goes out, the outputs are collected, and every open capture is closed.
\<close>

definition members :: "fanout_group \<Rightarrow> (nat \<times> string) list" where
  "members g = enumerate 0 (fg_worker_ids g)"

definition send_parallel ::
  "(pystr \<Rightarrow> pystr \<Rightarrow> real) \<Rightarrow> (nat \<Rightarrow> member_io) \<Rightarrow> fanout_group \<Rightarrow> string \<Rightarrow> int \<Rightarrow> int \<Rightarrow> string \<Rightarrow> time \<Rightarrow>
   fanout_result \<times> fanout_effect list" where
  "send_parallel ratio io g data quiesce_ms max_response_ms send_id sent_at =
     (let ready = filter (\<lambda>(i, w). io_open (io i)) (members g);
          collecting = filter (\<lambda>(i, w). io_send (io i) = Some True) ready;
          item = (\<lambda>i. if io_open (io i) \<and> io_send (io i) = Some True
                       then io_collect (io i) quiesce_ms max_response_ms else None);
          gathered = fold (\<lambda>(i, w) a. add_result a w (item i)) (members g) no_results
      in (conclude ratio g data send_id sent_at gathered,
          map (\<lambda>(i, w). Subscribed i w) ready @
          (if ready = [] then [] else [Observed (map snd ready)]) @
          map (\<lambda>(i, w). InputSent i w data) ready @
          map (\<lambda>(i, w). Collected i w) collecting @
          map (\<lambda>(i, w). Unsubscribed i w) ready))"

text \<open>Sequential mode: the members in turn, until one's output matches the error pattern.\<close>

fun sequential_loop ::
  "(pystr \<Rightarrow> pystr \<Rightarrow> bool) \<Rightarrow> (nat \<Rightarrow> member_io) \<Rightarrow> fanout_group \<Rightarrow> string \<Rightarrow> int \<Rightarrow> int \<Rightarrow>
   (nat \<times> string) list \<Rightarrow> bool \<Rightarrow> gathered \<Rightarrow> fanout_effect list \<Rightarrow> gathered \<times> fanout_effect list" where
  "sequential_loop search io g data q m [] stopped a tr = (a, tr)"
| "sequential_loop search io g data q m ((i, w) # ws) stopped a tr =
     (if stopped \<or> \<not> io_open (io i) then
        sequential_loop search io g data q m ws stopped (add_result a w None) tr
      else
        let tr1 = tr @ [Subscribed i w, Observed [w], InputSent i w data]
        in if io_send (io i) \<noteq> Some True then
             sequential_loop search io g data q m ws stopped (add_result a w None) (tr1 @ [Unsubscribed i w])
           else
             let tr2 = tr1 @ [Collected i w, Unsubscribed i w]
             in case io_collect (io i) q m of
                  None \<Rightarrow> sequential_loop search io g data q m ws stopped (add_result a w None) tr2
                | Some (delta, elapsed, cut_short) \<Rightarrow>
                    sequential_loop search io g data q m ws
                      (fg_stop_on_first_error g \<and> (case fg_error_pattern g of None \<Rightarrow> False | Some p \<Rightarrow> search p delta))
                      (add_result a w (Some (delta, elapsed, cut_short))) tr2)"

definition send_sequential ::
  "(pystr \<Rightarrow> pystr \<Rightarrow> real) \<Rightarrow> (pystr \<Rightarrow> pystr \<Rightarrow> bool) \<Rightarrow> (nat \<Rightarrow> member_io) \<Rightarrow> fanout_group \<Rightarrow> string \<Rightarrow> int \<Rightarrow> int \<Rightarrow>
   string \<Rightarrow> time \<Rightarrow> fanout_result \<times> fanout_effect list" where
  "send_sequential ratio search io g data quiesce_ms max_response_ms send_id sent_at =
     (let (a, tr) = sequential_loop search io g data quiesce_ms max_response_ms (members g) False no_results []
      in (conclude ratio g data send_id sent_at a, tr))"

definition append_refused :: "fanout_result \<Rightarrow> string list \<Rightarrow> fanout_result" where
  "append_refused r refused =
     fold (\<lambda>w r. r\<lparr>fr_results := fr_results r @ [failed_result w], fr_failed_sessions := fr_failed_sessions r @ [w]\<rparr>) refused r"

subsection \<open>The controller\<close>

record pending_fanout =
  pf_revision :: nat
  pf_group_id :: string
  pf_command :: string
  pf_quiesce_ms :: "int option"
  pf_max_response_ms :: "int option"
  pf_principal :: principal

record fanout_controller =
  fc_store :: fanout_store
  fc_max_group_size :: nat
  fc_allow_unknown_members :: bool
  fc_pending_approvals :: "(string \<times> pending_fanout) list"

text \<open>
  The three authorizers, each \<open>None\<close> when it is not wired; an inner \<open>None\<close> is an exception. A caller is a
  principal, or a name, which is not enough to dispatch.
\<close>

record authorizers =
  az_is_global_admin :: "(principal \<Rightarrow> bool option) option"
  az_resolve_session :: "(string \<Rightarrow> session_def option option) option"
  az_can_read_session :: "(principal \<Rightarrow> session_def \<Rightarrow> bool option) option"

datatype caller = NoCaller | NamedCaller string | Caller principal

definition pop_pending_approval :: "string \<Rightarrow> nat \<Rightarrow> fanout_controller \<Rightarrow> pending_fanout option \<times> fanout_controller" where
  "pop_pending_approval rid rv c =
     (case od_get (fc_pending_approvals c) rid of
        None \<Rightarrow> (None, c)
      | Some p \<Rightarrow>
          if pf_revision p \<noteq> rv then (None, c)
          else (Some p, c\<lparr>fc_pending_approvals := od_pop (fc_pending_approvals c) rid\<rparr>))"

definition on_approval_expired :: "approval_request \<Rightarrow> fanout_controller \<Rightarrow> fanout_controller" where
  "on_approval_expired r c = snd (pop_pending_approval (aq_id r) (aq_revision r) c)"

datatype group_error = GroupTooLarge | GroupPattern pattern_error

definition MAX_EXPECT_REGEX_LEN :: nat where "MAX_EXPECT_REGEX_LEN = 200"

definition create_group ::
  "(cp \<Rightarrow> bool) \<Rightarrow> (pystr \<Rightarrow> (pystr \<Rightarrow> bool) option) \<Rightarrow> fanout_group \<Rightarrow> string \<Rightarrow> fanout_controller \<Rightarrow>
   (group_error + string) \<times> fanout_controller" where
  "create_group digit re_compile g principal_id c =
     (if fc_max_group_size c < length (fg_worker_ids g) then (Inl GroupTooLarge, c)
      else case compile_expect_regex digit re_compile MAX_EXPECT_REGEX_LEN (fg_error_pattern g) of
             Inl e \<Rightarrow> (Inl (GroupPattern e), c)
           | Inr _ \<Rightarrow>
               (Inr (fg_group_id g), c\<lparr>fc_store := fanout_save (fc_store c) (g\<lparr>fg_created_by := principal_id\<rparr>)\<rparr>))"

definition group_visible :: "string \<Rightarrow> fanout_group \<Rightarrow> bool" where
  "group_visible principal_id g \<longleftrightarrow> fg_created_by g = principal_id \<or> principal_id \<in> set (fg_grants g)"

definition authorized_group :: "fanout_controller \<Rightarrow> string \<Rightarrow> string \<Rightarrow> fanout_group option" where
  "authorized_group c gid principal_id =
     (case fanout_get (fc_store c) gid of
        None \<Rightarrow> None
      | Some g \<Rightarrow> if group_visible principal_id g then Some g else None)"

definition delete_group :: "string \<Rightarrow> string \<Rightarrow> fanout_controller \<Rightarrow> fanout_controller" where
  "delete_group gid principal_id c =
     (case authorized_group c gid principal_id of
        None \<Rightarrow> c
      | Some _ \<Rightarrow> c\<lparr>fc_store := fanout_delete (fc_store c) gid\<rparr>)"

definition get_group :: "string \<Rightarrow> string \<Rightarrow> fanout_controller \<Rightarrow> fanout_group option" where
  "get_group gid principal_id c = authorized_group c gid principal_id"

definition list_groups :: "string \<Rightarrow> fanout_controller \<Rightarrow> fanout_group list" where
  "list_groups principal_id c = fanout_list_for_principal (fc_store c) principal_id"

definition grant_access :: "string \<Rightarrow> string \<Rightarrow> string \<Rightarrow> fanout_controller \<Rightarrow> fanout_controller" where
  "grant_access gid grantee principal_id c =
     c\<lparr>fc_store := snd (fanout_store_grant (fc_store c) gid grantee principal_id)\<rparr>"

definition authorization_ready :: "authorizers \<Rightarrow> bool" where
  "authorization_ready az \<longleftrightarrow>
     az_is_global_admin az \<noteq> None \<and> az_resolve_session az \<noteq> None \<and> az_can_read_session az \<noteq> None"

definition member_readable ::
  "(string \<Rightarrow> session_def option option) \<Rightarrow> (principal \<Rightarrow> session_def \<Rightarrow> bool option) \<Rightarrow> principal \<Rightarrow> string \<Rightarrow> bool" where
  "member_readable resolve can_read p w =
     (case resolve w of
        Some (Some d) \<Rightarrow> can_read p d = Some True
      | _ \<Rightarrow> False)"

definition validate_members :: "authorizers \<Rightarrow> string list \<Rightarrow> principal \<Rightarrow> string list \<times> string list" where
  "validate_members az ws p =
     (case (az_resolve_session az, az_can_read_session az) of
        (Some resolve, Some can_read) \<Rightarrow>
          (filter (member_readable resolve can_read p) ws, filter (\<lambda>w. \<not> member_readable resolve can_read p w) ws)
      | _ \<Rightarrow> ([], ws))"

definition error_result :: "string \<Rightarrow> string \<Rightarrow> string \<Rightarrow> string \<Rightarrow> time \<Rightarrow> fanout_result" where
  "error_result gid data err send_id sent_at =
     \<lparr>fr_group_id = gid, fr_send_id = send_id, fr_command = data, fr_sent_at = sent_at, fr_results = [],
      fr_divergent_sessions = [], fr_failed_sessions = [], fr_error = Some err,
      fr_approval_required = False, fr_approval_id = None\<rparr>"

text \<open>\<open>_authorized_dispatch_snapshot\<close>: the reason of the refusal, or the narrowed group and who was refused.\<close>

definition authorized_dispatch_snapshot ::
  "authorizers \<Rightarrow> fanout_controller \<Rightarrow> string \<Rightarrow> caller \<Rightarrow> string + fanout_group \<times> string list" where
  "authorized_dispatch_snapshot az c gid who =
     (case who of
        Caller p \<Rightarrow>
          (if \<not> authorization_ready az then Inl ''fan-out authorization is unavailable''
           else case the (az_is_global_admin az) p of
                  None \<Rightarrow> Inl ''fan-out authorization failed''
                | Some False \<Rightarrow> Inl ''global admin role required''
                | Some True \<Rightarrow>
                    (case fanout_get (fc_store c) gid of
                       None \<Rightarrow> Inl ''fan-out group not found''
                     | Some g \<Rightarrow>
                         if \<not> group_visible (pr_subject_id p) g then Inl ''fan-out group not found''
                         else let (allowed, refused) = validate_members az (fg_worker_ids g) p
                              in Inr (g\<lparr>fg_worker_ids := allowed\<rparr>, refused)))
      | _ \<Rightarrow> Inl ''authenticated principal required'')"

definition strongest_role :: "principal \<Rightarrow> string" where
  "strongest_role p =
     (case filter (\<lambda>r. r \<in> pr_roles p) [''admin'', ''operator'', ''viewer''] of [] \<Rightarrow> ''viewer'' | r # _ \<Rightarrow> r)"

definition dispatch ::
  "(pystr \<Rightarrow> pystr \<Rightarrow> real) \<Rightarrow> (pystr \<Rightarrow> pystr \<Rightarrow> bool) \<Rightarrow> (nat \<Rightarrow> member_io) \<Rightarrow> fanout_group \<Rightarrow> string list \<Rightarrow> string \<Rightarrow>
   int option \<Rightarrow> int option \<Rightarrow> string \<Rightarrow> time \<Rightarrow> fanout_result \<times> fanout_effect list" where
  "dispatch ratio search io g refused data quiesce_ms max_response_ms send_id sent_at =
     (let q_ms = (case quiesce_ms of None \<Rightarrow> fg_quiesce_ms g | Some q \<Rightarrow> q);
          m_ms = (case max_response_ms of None \<Rightarrow> fg_max_response_ms g | Some m \<Rightarrow> m);
          (r, tr) = (if fg_mode g = ''sequential'' then send_sequential ratio search io g data q_ms m_ms send_id sent_at
                     else send_parallel ratio io g data q_ms m_ms send_id sent_at)
      in (append_refused r refused, tr))"

text \<open>
  \<open>send\<close>. The gate is \<open>None\<close> when none is configured (every command is allowed); it answers with an
  action and a reason, or raises. \<open>ids\<close> and \<open>now\<close> are the fresh identifier and the clock of the call,
  \<open>approvals\<close> the hub's store if it has one.
\<close>

datatype gate_action = GateAllow | GateDeny | GateHold

type_synonym fanout_gate = "(string \<Rightarrow> string \<Rightarrow> string \<Rightarrow> string \<Rightarrow> (gate_action \<times> string option) option) option"

datatype fanout_exception = GateRaised | ApprovalStoreUnavailable | ApprovalIdCollision

definition hold_request :: "string \<Rightarrow> string \<Rightarrow> string \<Rightarrow> string \<Rightarrow> time \<Rightarrow> approval_request" where
  "hold_request rid gid submitter data now =
     \<lparr>aq_id = rid, aq_worker_id = ''group:'' @ gid, aq_submitter_id = submitter, aq_command = data,
      aq_status = Pending, aq_created_at = now, aq_expires_at = now + 300, aq_group_id = Some gid,
      aq_is_fanout = True, aq_origin_browser = None, aq_ownership_generation = None, aq_revision = 0\<rparr>"

definition fanout_send ::
  "(pystr \<Rightarrow> pystr \<Rightarrow> real) \<Rightarrow> (pystr \<Rightarrow> pystr \<Rightarrow> bool) \<Rightarrow> (nat \<Rightarrow> member_io) \<Rightarrow> authorizers \<Rightarrow> fanout_gate \<Rightarrow>
   string \<Rightarrow> string \<Rightarrow> caller \<Rightarrow> int option \<Rightarrow> int option \<Rightarrow> string \<Rightarrow> time \<Rightarrow>
   fanout_controller \<Rightarrow> approval_store option \<Rightarrow>
   (fanout_exception + fanout_result) \<times> fanout_effect list \<times> fanout_controller \<times> approval_store option" where
  "fanout_send ratio search io az gate gid data who quiesce_ms max_response_ms rid now c approvals =
     (case authorized_dispatch_snapshot az c gid who of
        Inl err \<Rightarrow> (Inr (error_result gid data err rid now), [], c, approvals)
      | Inr (g, refused) \<Rightarrow>
          let p = (case who of Caller p \<Rightarrow> p);
              decision = (case gate of None \<Rightarrow> Some (GateAllow, None)
                          | Some intercept \<Rightarrow> intercept data (pr_subject_id p) (strongest_role p) gid)
          in case decision of
               None \<Rightarrow> (Inl GateRaised, [], c, approvals)
             | Some (GateDeny, reason) \<Rightarrow>
                 (Inr (error_result gid data
                        (case reason of None \<Rightarrow> ''Command blocked by fan-out policy''
                         | Some r \<Rightarrow> if r = [] then ''Command blocked by fan-out policy'' else r) rid now),
                  [], c, approvals)
             | Some (GateHold, _) \<Rightarrow>
                 (case approvals of
                    None \<Rightarrow> (Inl ApprovalStoreUnavailable, [HoldRecorded rid], c, None)
                  | Some s \<Rightarrow>
                      (case approval_add s (hold_request rid gid (pr_subject_id p) data now) of
                         (False, s') \<Rightarrow> (Inl ApprovalIdCollision, [HoldRecorded rid], c, Some s')
                       | (True, s') \<Rightarrow>
                           (Inr ((error_result gid data [] rid now)\<lparr>fr_error := None, fr_approval_required := True,
                                   fr_approval_id := Some rid\<rparr>),
                            [HoldRecorded rid],
                            c\<lparr>fc_pending_approvals := od_set (fc_pending_approvals c) rid
                               \<lparr>pf_revision = (case approval_get s' rid of Some r \<Rightarrow> aq_revision r), pf_group_id = gid,
                                pf_command = data, pf_quiesce_ms = quiesce_ms, pf_max_response_ms = max_response_ms,
                                pf_principal = p\<rparr>\<rparr>,
                            Some s')))
             | Some (GateAllow, _) \<Rightarrow>
                 (let (r, tr) = dispatch ratio search io g refused data quiesce_ms max_response_ms rid now
                  in (Inr r, tr, c, approvals)))"

definition release_approved_command ::
  "(pystr \<Rightarrow> pystr \<Rightarrow> real) \<Rightarrow> (pystr \<Rightarrow> pystr \<Rightarrow> bool) \<Rightarrow> (nat \<Rightarrow> member_io) \<Rightarrow> authorizers \<Rightarrow>
   string \<Rightarrow> nat \<Rightarrow> string \<Rightarrow> time \<Rightarrow> fanout_controller \<Rightarrow> fanout_result option \<times> fanout_effect list \<times> fanout_controller" where
  "release_approved_command ratio search io az rid rv send_id now c =
     (case pop_pending_approval rid rv c of
        (None, c') \<Rightarrow> (None, [], c')
      | (Some p, c') \<Rightarrow>
          (case authorized_dispatch_snapshot az c' (pf_group_id p) (Caller (pf_principal p)) of
             Inl err \<Rightarrow> (Some (error_result (pf_group_id p) (pf_command p) err send_id now), [], c')
           | Inr (g, refused) \<Rightarrow>
               (let (r, tr) = dispatch ratio search io g refused (pf_command p) (pf_quiesce_ms p) (pf_max_response_ms p) send_id now
                in (Some r, tr, c'))))"

text \<open>The fan-out part of \<open>resolve_approval\<close> (\<open>server/bridge/hub/core_orchestration.py\<close>) once the request was claimed.\<close>

fun join_commas :: "string list \<Rightarrow> string" where
  "join_commas [] = []"
| "join_commas [x] = x"
| "join_commas (x # y # zs) = x @ '','' @ join_commas (y # zs)"

definition fanout_outcome :: "fanout_result option \<Rightarrow> bool \<times> string option" where
  "fanout_outcome result =
     (case result of
        None \<Rightarrow> (False, Some ''fanout_approval_not_pending'')
      | Some r \<Rightarrow>
          if fr_error r \<noteq> None \<and> fr_error r \<noteq> Some [] then (False, Some (''fanout_error:'' @ the (fr_error r)))
          else if fr_failed_sessions r \<noteq> [] then
            (if list_ex sr_ok (fr_results r) then (True, Some (''fanout_partial_failure:'' @ join_commas (fr_failed_sessions r)))
             else (False, Some (''fanout_delivery_failed:'' @ join_commas (fr_failed_sessions r))))
          else if \<not> list_ex sr_ok (fr_results r) then (False, Some ''fanout_no_targets'')
          else (True, None))"

definition resolve_fanout_approval ::
  "(pystr \<Rightarrow> pystr \<Rightarrow> real) \<Rightarrow> (pystr \<Rightarrow> pystr \<Rightarrow> bool) \<Rightarrow> (nat \<Rightarrow> member_io) \<Rightarrow> authorizers \<Rightarrow>
   string \<Rightarrow> string \<Rightarrow> gate_action \<Rightarrow> approval_request \<Rightarrow> string \<Rightarrow> time \<Rightarrow> fanout_controller option \<Rightarrow>
   (bool \<times> string option) \<times> fanout_effect list \<times> fanout_controller option" where
  "resolve_fanout_approval ratio search io az worker_id rid action req send_id now ctrl =
     (if aq_id req \<noteq> rid \<or> aq_worker_id req \<noteq> worker_id then ((False, Some ''approval_mismatch''), [], ctrl)
      else case action of
             GateAllow \<Rightarrow>
               (case ctrl of
                  None \<Rightarrow> ((False, Some ''fanout_controller_unavailable''), [], None)
                | Some c \<Rightarrow>
                    (let (r, tr, c') = release_approved_command ratio search io az rid (aq_revision req) send_id now c
                     in (fanout_outcome r, tr, Some c')))
           | GateDeny \<Rightarrow> ((True, None), [], map_option (on_approval_expired req) ctrl)
           | GateHold \<Rightarrow> ((True, None), [], ctrl))"

end
