(* ===== verification/FanOutProps.thy ===== *)
theory FanOutProps
  imports FanOut
begin

text \<open>
  Fan-out: every member gets exactly one result in either mode, the two modes agree, output is
  watched before input goes out, input reaches only sessions its sender may read, and a held command
  is released at most once.
\<close>

subsection \<open>One result for each member\<close>

text \<open>What a member's answer comes to in a mode without early stop.\<close>

definition member_item :: "(nat \<Rightarrow> member_io) \<Rightarrow> int \<Rightarrow> int \<Rightarrow> nat \<Rightarrow> (pystr \<times> int \<times> bool) option" where
  "member_item io q m i =
     (if io_open (io i) \<and> io_send (io i) = Some True then io_collect (io i) q m else None)"

lemma sequential_items:
  "\<exists>items. length items = length ws \<and>
     fst (sequential_loop search io g data q m ws stopped a tr) =
       fold (\<lambda>((i, w), x) a. add_result a w x) (zip ws items) a \<and>
     (\<forall>k < length ws. items ! k = None \<or> items ! k = member_item io q m (fst (ws ! k)))"
proof (induction search io g data q m ws stopped a tr rule: sequential_loop.induct)
  case (2 search io g data q m i w ws stopped a tr)
  have cons: "\<exists>items. length items = length ((i, w) # ws) \<and>
      r = fold (\<lambda>((i, w), x) a. add_result a w x) (zip ((i, w) # ws) items) a \<and>
      (\<forall>k < length ((i, w) # ws). items ! k = None \<or> items ! k = member_item io q m (fst (((i, w) # ws) ! k)))"
    if "\<exists>items. length items = length ws \<and> r = fold (\<lambda>((i, w), x) a. add_result a w x) (zip ws items) (add_result a w x) \<and>
          (\<forall>k < length ws. items ! k = None \<or> items ! k = member_item io q m (fst (ws ! k)))"
      and "x = None \<or> x = member_item io q m i" for r x
  proof -
    from that(1) obtain items where i: "length items = length ws"
      "r = fold (\<lambda>((i, w), x) a. add_result a w x) (zip ws items) (add_result a w x)"
      "\<forall>k < length ws. items ! k = None \<or> items ! k = member_item io q m (fst (ws ! k))" by blast
    have "(x # items) ! k = None \<or> (x # items) ! k = member_item io q m (fst (((i, w) # ws) ! k))"
      if "k < length ((i, w) # ws)" for k
      using that i(3) \<open>x = None \<or> x = member_item io q m i\<close> by (cases k) auto
    then show ?thesis using i by (intro exI [of _ "x # items"]) simp
  qed
  consider "stopped \<or> \<not> io_open (io i)" | "\<not> (stopped \<or> \<not> io_open (io i))" "io_send (io i) \<noteq> Some True"
    | "\<not> (stopped \<or> \<not> io_open (io i))" "io_send (io i) = Some True" "io_collect (io i) q m = None"
    | d e c where "\<not> (stopped \<or> \<not> io_open (io i))" "io_send (io i) = Some True" "io_collect (io i) q m = Some (d, e, c)"
    by (cases "io_collect (io i) q m") auto
  then show ?case
  proof cases
    case 1
    then show ?thesis using cons [OF "2.IH"(1) [OF 1]] 1 by simp
  next
    case 2
    then show ?thesis using cons [OF "2.IH"(2) [OF 2(1) refl 2(2)]] by (simp add: member_item_def)
  next
    case 3
    then show ?thesis using cons [OF "2.IH"(3) [OF 3(1) refl _ refl 3(3)]] by (simp add: member_item_def)
  next
    case 4
    then show ?thesis using cons [OF "2.IH"(4) [OF 4(1) refl _ refl 4(3) refl refl]] by (simp add: member_item_def)
  qed
qed simp

text \<open>The invariant of the four lists.\<close>

definition gathered_ok :: "gathered \<Rightarrow> bool" where
  "gathered_ok a \<longleftrightarrow>
     ga_failed a = map sr_worker_id (filter (\<lambda>r. \<not> sr_ok r) (ga_results a)) \<and>
     ga_indices a = filter (\<lambda>i. sr_ok (ga_results a ! i)) [0..<length (ga_results a)] \<and>
     length (ga_outputs a) = length (ga_indices a) \<and>
     list_all (\<lambda>r. \<not> sr_divergent r) (ga_results a)"

lemma gathered_ok_new [simp]: "gathered_ok no_results"
  by (simp add: gathered_ok_def no_results_def)

lemma indices_snoc:
  "filter (\<lambda>i. P ((xs @ [x]) ! i)) [0..<length (xs @ [x])] =
   filter (\<lambda>i. P (xs ! i)) [0..<length xs] @ (if P x then [length xs] else [])"
proof -
  have "filter (\<lambda>i. P ((xs @ [x]) ! i)) [0..<length xs] = filter (\<lambda>i. P (xs ! i)) [0..<length xs]"
    by (rule filter_cong) (auto simp: nth_append)
  then show ?thesis by simp
qed

lemma add_result_ok: "gathered_ok a \<Longrightarrow> gathered_ok (add_result a w x)"
  using indices_snoc [of sr_ok "ga_results a"]
  by (auto simp: gathered_ok_def add_result_def failed_result_def Let_def simp del: upt_Suc split: option.splits)

lemma add_results_ok: "gathered_ok a \<Longrightarrow> gathered_ok (fold (\<lambda>((i, w), x) a. add_result a w x) zs a)"
  by (induction zs arbitrary: a) (auto simp: add_result_ok)

definition result_of :: "string \<Rightarrow> (pystr \<times> int \<times> bool) option \<Rightarrow> session_result" where
  "result_of w x = hd (ga_results (add_result no_results w x))"

lemma add_result_appends: "ga_results (add_result a w x) = ga_results a @ [result_of w x]"
  by (auto simp: result_of_def add_result_def no_results_def Let_def split: option.split)

lemma add_results_append:
  "ga_results (fold (\<lambda>((i, w), x) a. add_result a w x) zs a) = ga_results a @ map (\<lambda>((i, w), x). result_of w x) zs"
  by (induction zs arbitrary: a) (auto simp: add_result_appends)

lemma result_of_simps [simp]:
  "sr_worker_id (result_of w x) = w"
  "sr_ok (result_of w x) \<longleftrightarrow> (\<exists>d e. x = Some (d, e, False))"
  "sr_output_delta (result_of w x) = map_option fst x"
  by (auto simp: result_of_def add_result_def no_results_def failed_result_def Let_def split: option.split)

subsection \<open>Marking the divergent results\<close>

lemma compute_divergence_length [simp]: "length (compute_divergence ratio thr outs) = length outs"
  by (simp add: compute_divergence_def Let_def)

lemma mark_divergent_spec:
  assumes "distinct (map snd fs)" "\<And>f i. (f, i) \<in> set fs \<Longrightarrow> i < length rs"
  shows "length (fst (mark_divergent fs rs ds)) = length rs"
    and "i < length rs \<Longrightarrow> fst (mark_divergent fs rs ds) ! i =
      (if (True, i) \<in> set fs then (rs ! i)\<lparr>sr_divergent := True\<rparr> else rs ! i)"
    and "snd (mark_divergent fs rs ds) = ds @ map (\<lambda>i. sr_worker_id (rs ! i)) (map snd (filter fst fs))"
proof -
  have "length (fst (mark_divergent fs rs ds)) = length rs \<and>
    (\<forall>i < length rs. fst (mark_divergent fs rs ds) ! i =
      (if (True, i) \<in> set fs then (rs ! i)\<lparr>sr_divergent := True\<rparr> else rs ! i)) \<and>
    snd (mark_divergent fs rs ds) = ds @ map (\<lambda>i. sr_worker_id (rs ! i)) (map snd (filter fst fs))"
    using assms
  proof (induction fs arbitrary: rs ds)
    case (Cons x fs)
    obtain f j where x: "x = (f, j)" by (cases x)
    let ?rs = "if f then rs[j := (rs ! j)\<lparr>sr_divergent := True\<rparr>] else rs"
    have j: "j < length rs" "j \<notin> snd ` set fs" using Cons.prems x by auto
    have w: "sr_worker_id (?rs ! i) = sr_worker_id (rs ! i)" for i
      using j(1) by (cases "i = j") auto
    have d: "distinct (map snd fs)" and b: "\<And>f' i. (f', i) \<in> set fs \<Longrightarrow> i < length ?rs"
      using Cons.prems x by auto
    have IH: "length (fst (mark_divergent fs ?rs ds')) = length ?rs \<and>
        (\<forall>i < length ?rs. fst (mark_divergent fs ?rs ds') ! i =
          (if (True, i) \<in> set fs then (?rs ! i)\<lparr>sr_divergent := True\<rparr> else ?rs ! i)) \<and>
        snd (mark_divergent fs ?rs ds') = ds' @ map (\<lambda>i. sr_worker_id (?rs ! i)) (map snd (filter fst fs))" for ds'
      by (rule Cons.IH [OF d]) (rule b)
    have nj: "(True, j) \<notin> set fs" using j(2) by force
    have "fst (mark_divergent (x # fs) rs ds) ! i =
        (if (True, i) \<in> set (x # fs) then (rs ! i)\<lparr>sr_divergent := True\<rparr> else rs ! i)" if "i < length rs" for i
    proof -
      have "fst (mark_divergent fs ?rs ds') ! i =
          (if (True, i) \<in> set fs then (?rs ! i)\<lparr>sr_divergent := True\<rparr> else ?rs ! i)" for ds'
        using IH [of ds'] that by simp
      then show ?thesis using that x nj j(1) by (cases f; cases "i = j") simp_all
    qed
    moreover have "length (fst (mark_divergent fs ?rs ds')) = length ?rs"
      "snd (mark_divergent fs ?rs ds') = ds' @ map (\<lambda>i. sr_worker_id (rs ! i)) (map snd (filter fst fs))" for ds'
      using IH [of ds'] unfolding w by blast+
    ultimately show ?case using x by (cases f) simp_all
  qed simp
  then show "length (fst (mark_divergent fs rs ds)) = length rs"
    "i < length rs \<Longrightarrow> fst (mark_divergent fs rs ds) ! i =
      (if (True, i) \<in> set fs then (rs ! i)\<lparr>sr_divergent := True\<rparr> else rs ! i)"
    "snd (mark_divergent fs rs ds) = ds @ map (\<lambda>i. sr_worker_id (rs ! i)) (map snd (filter fst fs))" by blast+
qed

lemma filter_flagged:
  "distinct xs \<Longrightarrow> length fl = length xs \<Longrightarrow>
   filter (\<lambda>i. (True, i) \<in> set (zip fl xs)) xs = map snd (filter fst (zip fl xs))"
proof (induction xs arbitrary: fl)
  case (Cons x xs)
  then obtain f fl' where fl: "fl = f # fl'" by (cases fl) auto
  have nx: "(True, x) \<notin> set (zip fl' xs)" using Cons.prems(1) by (auto dest: set_zip_rightD)
  have "filter (\<lambda>i. (True, i) \<in> set (zip fl (x # xs))) xs = filter (\<lambda>i. (True, i) \<in> set (zip fl' xs)) xs"
    using Cons.prems(1) fl by (intro filter_cong) auto
  then show ?case using Cons fl nx by auto
qed simp

lemma filter_nth: "filter P xs = map (\<lambda>i. xs ! i) (filter (\<lambda>i. P (xs ! i)) [0..<length xs])"
proof -
  have "filter P (map ((!) xs) [0..<length xs]) = map ((!) xs) (filter (P \<circ> (!) xs) [0..<length xs])"
    by (rule filter_map)
  then show ?thesis by (simp add: map_nth comp_def)
qed

lemma conclude_results:
  assumes "gathered_ok a"
  shows "length (fr_results (conclude ratio g data sid tm a)) = length (ga_results a)"
    and "i < length (ga_results a) \<Longrightarrow>
      \<exists>d. fr_results (conclude ratio g data sid tm a) ! i = (ga_results a ! i)\<lparr>sr_divergent := d\<rparr> \<and> (d \<longrightarrow> sr_ok (ga_results a ! i))"
    and "fr_failed_sessions (conclude ratio g data sid tm a) = ga_failed a"
    and "fr_divergent_sessions (conclude ratio g data sid tm a) =
      map sr_worker_id (filter sr_divergent (fr_results (conclude ratio g data sid tm a)))"
proof -
  let ?r = "conclude ratio g data sid tm a" and ?rs = "ga_results a"
  let ?fl = "compute_divergence ratio (fg_divergence_threshold g) (ga_outputs a)"
  let ?fs = "zip ?fl (ga_indices a)"
  have idx: "ga_indices a = filter (\<lambda>i. sr_ok (?rs ! i)) [0..<length ?rs]" "length ?fl = length (ga_indices a)"
    and nd: "\<And>i. i < length ?rs \<Longrightarrow> \<not> sr_divergent (?rs ! i)"
    using assms by (auto simp: gathered_ok_def list_all_iff)
  have di: "distinct (ga_indices a)" unfolding idx(1) by simp
  have ms: "distinct (map snd ?fs)" "\<And>f i. (f, i) \<in> set ?fs \<Longrightarrow> i < length ?rs \<and> sr_ok (?rs ! i)"
    using di idx(2) by (auto dest!: set_zip_rightD simp: idx(1))
  note M = mark_divergent_spec [OF ms(1), where rs = ?rs and ds = "[]"]
  have r: "fr_results ?r = fst (mark_divergent ?fs ?rs [])" "fr_divergent_sessions ?r = snd (mark_divergent ?fs ?rs [])"
    by (auto simp: conclude_def compute_divergence_def split: prod.splits)
  have len: "length (fr_results ?r) = length ?rs" unfolding r by (rule M(1)) (use ms in blast)
  have nth: "fr_results ?r ! i = (if (True, i) \<in> set ?fs then (?rs ! i)\<lparr>sr_divergent := True\<rparr> else ?rs ! i)"
    if "i < length ?rs" for i unfolding r by (rule M(2)) (use ms that in blast)+
  show "length (fr_results ?r) = length ?rs" by (rule len)
  show "\<exists>d. fr_results ?r ! i = (?rs ! i)\<lparr>sr_divergent := d\<rparr> \<and> (d \<longrightarrow> sr_ok (?rs ! i))" if "i < length ?rs"
  proof (cases "(True, i) \<in> set ?fs")
    case True
    then show ?thesis using nth [OF that] ms(2) by (intro exI [of _ True]) auto
  next
    case False
    then show ?thesis using nth [OF that] nd [OF that] by (intro exI [of _ False]) simp
  qed
  show "fr_failed_sessions ?r = ga_failed a" by (simp add: conclude_def split: prod.splits)
  have "filter sr_divergent (fr_results ?r) =
      map (\<lambda>i. fr_results ?r ! i) (filter (\<lambda>i. sr_divergent (fr_results ?r ! i)) [0..<length ?rs])"
    using filter_nth [of sr_divergent "fr_results ?r"] unfolding len .
  also have "filter (\<lambda>i. sr_divergent (fr_results ?r ! i)) [0..<length ?rs] =
      filter (\<lambda>i. (True, i) \<in> set ?fs) (filter (\<lambda>i. sr_ok (?rs ! i)) [0..<length ?rs])"
    unfolding filter_filter
  proof (rule filter_cong [OF refl])
    fix i
    assume "i \<in> set [0..<length ?rs]"
    then have "i < length ?rs" by simp
    then show "sr_divergent (fr_results ?r ! i) \<longleftrightarrow> sr_ok (?rs ! i) \<and> (True, i) \<in> set ?fs"
      using nth [of i] nd [of i] ms(2) [of True i] by (cases "(True, i) \<in> set ?fs") simp_all
  qed
  also have "filter (\<lambda>i. sr_ok (?rs ! i)) [0..<length ?rs] = ga_indices a" by (rule idx(1) [symmetric])
  also have "filter (\<lambda>i. (True, i) \<in> set ?fs) (ga_indices a) = map snd (filter fst ?fs)" by (rule filter_flagged [OF di idx(2)])
  finally have f: "filter sr_divergent (fr_results ?r) = map (\<lambda>i. fr_results ?r ! i) (map snd (filter fst ?fs))" .
  have "snd (mark_divergent ?fs ?rs []) = [] @ map (\<lambda>i. sr_worker_id (?rs ! i)) (map snd (filter fst ?fs))"
    by (rule M(3)) (use ms in blast)
  moreover have "sr_worker_id (fr_results ?r ! i) = sr_worker_id (?rs ! i)" if "i \<in> set (map snd (filter fst ?fs))" for i
    using that ms(2) nth by fastforce
  ultimately show "fr_divergent_sessions ?r = map sr_worker_id (filter sr_divergent (fr_results ?r))"
    unfolding f r(2) map_map comp_def by simp
qed

subsection \<open>Either mode gathers one item for each member\<close>

abbreviation effective :: "int option \<Rightarrow> int \<Rightarrow> int" where
  "effective o' d \<equiv> (case o' of None \<Rightarrow> d | Some x \<Rightarrow> x)"

lemma parallel_items:
  "fold (\<lambda>(i, w) a. add_result a w (f i)) ws a =
   fold (\<lambda>((i, w), x) a. add_result a w x) (zip ws (map (f \<circ> fst) ws)) a"
  by (induction ws arbitrary: a) auto

lemma conclude_items:
  assumes "length items = length (members g)"
    and a: "a = fold (\<lambda>((i, w), x) a. add_result a w x) (zip (members g) items) no_results"
    and items: "\<And>k. k < length (members g) \<Longrightarrow> items ! k = None \<or> items ! k = member_item io q m k"
  shows "map sr_worker_id (fr_results (conclude ratio g data sid tm a)) = fg_worker_ids g"
    and "fr_failed_sessions (conclude ratio g data sid tm a) =
      map sr_worker_id (filter (\<lambda>s. \<not> sr_ok s) (fr_results (conclude ratio g data sid tm a)))"
    and "k < length (fg_worker_ids g) \<Longrightarrow> sr_ok (fr_results (conclude ratio g data sid tm a) ! k) \<Longrightarrow>
      \<exists>delta el. member_item io q m k = Some (delta, el, False) \<and>
        sr_output_delta (fr_results (conclude ratio g data sid tm a) ! k) = Some delta"
    and "k < length (fg_worker_ids g) \<Longrightarrow> sr_divergent (fr_results (conclude ratio g data sid tm a) ! k) \<Longrightarrow>
      sr_ok (fr_results (conclude ratio g data sid tm a) ! k)"
proof -
  let ?r = "conclude ratio g data sid tm a"
  have ok: "gathered_ok a" unfolding a by (rule add_results_ok) simp
  note C = conclude_results [OF ok, where ratio = ratio and g = g and data = data and sid = sid and tm = tm]
  have n: "length (members g) = length (fg_worker_ids g)" by (simp add: members_def)
  have rs: "ga_results a = map (\<lambda>((i, w), x). result_of w x) (zip (members g) items)"
    unfolding a add_results_append by (simp add: no_results_def)
  have nth: "ga_results a ! k = result_of (fg_worker_ids g ! k) (items ! k)" if "k < length (fg_worker_ids g)" for k
    using that assms(1) n by (simp add: rs members_def nth_enumerate_eq)
  have len: "length (fr_results ?r) = length (fg_worker_ids g)" "length (ga_results a) = length (fg_worker_ids g)"
    using C(1) assms(1) n by (simp_all add: rs)
  have keep: "\<exists>d. fr_results ?r ! k = (result_of (fg_worker_ids g ! k) (items ! k))\<lparr>sr_divergent := d\<rparr> \<and>
      (d \<longrightarrow> sr_ok (result_of (fg_worker_ids g ! k) (items ! k)))"
    if "k < length (fg_worker_ids g)" for k
    using C(2) [of k] that len(2) nth [OF that] by simp
  show ids: "map sr_worker_id (fr_results ?r) = fg_worker_ids g"
    by (rule nth_equalityI) (use len(1) keep in \<open>force+\<close>)
  have "filter (\<lambda>i. \<not> sr_ok (fr_results ?r ! i)) [0..<length (fg_worker_ids g)] =
      filter (\<lambda>i. \<not> sr_ok (ga_results a ! i)) [0..<length (fg_worker_ids g)]"
    by (rule filter_cong [OF refl]) (use keep nth in force)
  moreover have "sr_worker_id (fr_results ?r ! i) = sr_worker_id (ga_results a ! i)" if "i < length (fg_worker_ids g)" for i
    using keep [OF that] nth [OF that] by auto
  ultimately show "fr_failed_sessions ?r = map sr_worker_id (filter (\<lambda>s. \<not> sr_ok s) (fr_results ?r))"
    using ok C(3) filter_nth [of "\<lambda>s. \<not> sr_ok s" "fr_results ?r"] filter_nth [of "\<lambda>s. \<not> sr_ok s" "ga_results a"] len
    by (simp add: gathered_ok_def)
  show "\<exists>delta el. member_item io q m k = Some (delta, el, False) \<and> sr_output_delta (fr_results ?r ! k) = Some delta"
    if k: "k < length (fg_worker_ids g)" and kok: "sr_ok (fr_results ?r ! k)"
  proof -
    obtain d where d: "fr_results ?r ! k = (result_of (fg_worker_ids g ! k) (items ! k))\<lparr>sr_divergent := d\<rparr>"
      using keep [OF k] by blast
    then obtain delta el where i: "items ! k = Some (delta, el, False)" using kok by auto
    then have "member_item io q m k = Some (delta, el, False)" using items [of k] k unfolding n by (metis option.distinct(1))
    moreover have "sr_output_delta (fr_results ?r ! k) = Some delta" unfolding d i by simp
    ultimately show ?thesis by blast
  qed
  show "sr_ok (fr_results ?r ! k)" if "k < length (fg_worker_ids g)" "sr_divergent (fr_results ?r ! k)"
    using keep [OF that(1)] that(2) by auto
qed

lemma append_refused_fields:
  "fr_results (append_refused r ws) = fr_results r @ map failed_result ws"
  "fr_failed_sessions (append_refused r ws) = fr_failed_sessions r @ ws"
  "fr_divergent_sessions (append_refused r ws) = fr_divergent_sessions r"
  unfolding append_refused_def by (induction ws arbitrary: r) auto

lemma conclude_divergent:
  "gathered_ok a \<Longrightarrow> fr_divergent_sessions (conclude ratio g data sid tm a) =
     map sr_worker_id (filter sr_divergent (fr_results (conclude ratio g data sid tm a)))"
  by (rule conclude_results(4))

text \<open>The gathered lists of a dispatch, and its result.\<close>

lemma dispatch_gathers:
  assumes "dispatch ratio search io g refused data q m sid tm = (r, tr)"
  obtains a items where "r = append_refused (conclude ratio g data sid tm a) refused"
    "length items = length (members g)"
    "a = fold (\<lambda>((i, w), x) a. add_result a w x) (zip (members g) items) no_results"
    "\<And>k. k < length (members g) \<Longrightarrow> items ! k = None \<or>
       items ! k = member_item io (effective q (fg_quiesce_ms g)) (effective m (fg_max_response_ms g)) k"
proof (cases "fg_mode g = ''sequential''")
  case True
  let ?q = "effective q (fg_quiesce_ms g)" and ?m = "effective m (fg_max_response_ms g)"
  let ?l = "sequential_loop search io g data ?q ?m (members g) False no_results []"
  obtain items where "length items = length (members g)"
    "fst ?l = fold (\<lambda>((i, w), x) a. add_result a w x) (zip (members g) items) no_results"
    "\<forall>k < length (members g). items ! k = None \<or> items ! k = member_item io ?q ?m (fst (members g ! k))"
    using sequential_items by blast
  moreover have "r = append_refused (conclude ratio g data sid tm (fst ?l)) refused"
    using assms True by (auto simp: dispatch_def send_sequential_def Let_def split: prod.splits)
  moreover have "fst (members g ! k) = k" if "k < length (members g)" for k
    using that by (simp add: members_def nth_enumerate_eq)
  ultimately show ?thesis using that by simp
next
  case False
  let ?f = "member_item io (effective q (fg_quiesce_ms g)) (effective m (fg_max_response_ms g))"
  let ?items = "map (?f \<circ> fst) (members g)"
  let ?a = "fold (\<lambda>((i, w), x) a. add_result a w x) (zip (members g) ?items) no_results"
  have "r = append_refused (conclude ratio g data sid tm ?a) refused"
    using assms False unfolding parallel_items [symmetric]
    by (auto simp: dispatch_def send_parallel_def member_item_def Let_def)
  moreover have "?items ! k = ?f k" if "k < length (members g)" for k
    using that by (simp add: members_def nth_enumerate_eq)
  ultimately show ?thesis using that [of ?a ?items] by simp
qed

subsection \<open>Inputs for the witnesses\<close>

definition demo_group :: "string \<Rightarrow> fanout_group" where
  "demo_group mode = \<lparr>fg_group_id = ''g'', fg_name = ''all'', fg_worker_ids = [''a'', ''b''], fg_created_by = ''ann'',
     fg_created_at = 0, fg_mode = mode, fg_stop_on_first_error = (mode = ''sequential''), fg_error_pattern = Some [69],
     fg_quiesce_ms = 500, fg_max_response_ms = 1000, fg_divergence_threshold = 1/2, fg_grants = []\<rparr>"

definition demo_io :: "nat \<Rightarrow> member_io" where
  "demo_io i = \<lparr>io_open = True, io_send = Some True, io_collect = (\<lambda>q m. Some ([69], q, False))\<rparr>"

definition demo_ratio :: "pystr \<Rightarrow> pystr \<Rightarrow> real" where
  "demo_ratio a b = (if a = b then 1 else 0)"

definition demo_admin :: principal where
  "demo_admin = \<lparr>pr_subject_id = ''ann'', pr_tenant_id = None, pr_roles = {''admin''}, pr_scopes = {}, pr_claims = [],
     pr_display_name = None, pr_admin_session_scope = None, pr_tunnel_share = False\<rparr>"

definition demo_authorizers :: authorizers where
  "demo_authorizers = \<lparr>az_is_global_admin = Some (\<lambda>p. Some (''admin'' \<in> pr_roles p)),
     az_resolve_session = Some (\<lambda>w. Some (Some \<lparr>sd_session_id = w, sd_owner = None, sd_visibility = ''public''\<rparr>)),
     az_can_read_session = Some (\<lambda>p d. Some (sd_session_id d = ''a''))\<rparr>"

definition demo_controller :: fanout_controller where
  "demo_controller = \<lparr>fc_store = [(''g'', demo_group ''parallel'')], fc_max_group_size = 50, fc_allow_unknown_members = False,
     fc_pending_approvals = [(''r'', \<lparr>pf_revision = 0, pf_group_id = ''g'', pf_command = ''ls'', pf_quiesce_ms = None,
       pf_max_response_ms = None, pf_principal = demo_admin\<rparr>)]\<rparr>"

lemma demo_members: "members (demo_group mode) = [(0, ''a''), (1, ''b'')]"
  by (simp add: members_def demo_group_def)

lemma demo_pair: "\<exists>r tr. dispatch ratio search io g ws d q m sid tm = (r, tr)"
  by (rule prod.exhaust) blast

lemma demo_snapshot:
  "authorized_dispatch_snapshot demo_authorizers (c\<lparr>fc_store := [(''g'', demo_group ''parallel'')]\<rparr>) ''g'' (Caller demo_admin) =
     Inr ((demo_group ''parallel'')\<lparr>fg_worker_ids := [''a'']\<rparr>, [''b''])"
  by (simp add: authorized_dispatch_snapshot_def authorization_ready_def demo_authorizers_def demo_admin_def
      fanout_get_def group_visible_def demo_group_def validate_members_def member_readable_def)

subsection \<open>Properties\<close>

text \<open>C30: Whatever the members do, a dispatch answers for each of them once, in the order of the group and
  with the refused ones behind; the failed and the divergent sessions are exactly those whose result
  says so, and a result that is not a failure is the whole output of a session that took the input:
  nothing cut off, refused or raised is reported as a success.\<close>

theorem fanout_results_complete:
  assumes "dispatch ratio search io g refused data q m sid tm = (r, tr)"
  shows "map sr_worker_id (fr_results r) = fg_worker_ids g @ refused \<and>
    fr_failed_sessions r = map sr_worker_id (filter (\<lambda>s. \<not> sr_ok s) (fr_results r)) \<and>
    fr_divergent_sessions r = map sr_worker_id (filter sr_divergent (fr_results r)) \<and>
    (\<forall>k < length (fr_results r). sr_divergent (fr_results r ! k) \<longrightarrow> sr_ok (fr_results r ! k)) \<and>
    (\<forall>k < length (fr_results r). sr_ok (fr_results r ! k) \<longrightarrow>
       io_open (io k) \<and> io_send (io k) = Some True \<and>
       (\<exists>delta el. io_collect (io k) (effective q (fg_quiesce_ms g)) (effective m (fg_max_response_ms g)) = Some (delta, el, False) \<and>
          sr_output_delta (fr_results r ! k) = Some delta))"
proof -
  let ?q = "effective q (fg_quiesce_ms g)" and ?m = "effective m (fg_max_response_ms g)"
  obtain a items where a: "r = append_refused (conclude ratio g data sid tm a) refused"
    "length items = length (members g)"
    "a = fold (\<lambda>((i, w), x) a. add_result a w x) (zip (members g) items) no_results"
    "\<And>k. k < length (members g) \<Longrightarrow> items ! k = None \<or> items ! k = member_item io ?q ?m k"
    by (rule dispatch_gathers [OF assms]) blast
  let ?c = "conclude ratio g data sid tm a"
  note C = conclude_items [OF a(2,3,4), where ratio = ratio and data = data and sid = sid and tm = tm]
  have "gathered_ok a" unfolding a(3) by (rule add_results_ok) simp
  note D = conclude_divergent [OF this, of ratio g data sid tm]
  have n: "length (fr_results ?c) = length (fg_worker_ids g)" using arg_cong [OF C(1), of length] by simp
  have f: "\<not> sr_ok (failed_result w)" "\<not> sr_divergent (failed_result w)" "sr_worker_id (failed_result w) = w" for w
    by (simp_all add: failed_result_def)
  have R: "fr_results r = fr_results ?c @ map failed_result refused" by (simp add: a(1) append_refused_fields)
  have k: "k < length (fg_worker_ids g) \<and> fr_results r ! k = fr_results ?c ! k"
    if "k < length (fr_results r)" "sr_ok (fr_results r ! k) \<or> sr_divergent (fr_results r ! k)" for k
    using that f n by (cases "k < length (fr_results ?c)") (auto simp: R nth_append)
  have items: "io_open (io k) \<and> io_send (io k) = Some True \<and> io_collect (io k) ?q ?m = Some x"
    if "member_item io ?q ?m k = Some x" for k x
    using that by (simp add: member_item_def split: if_splits)
  have "\<forall>k < length (fr_results r). sr_divergent (fr_results r ! k) \<longrightarrow> sr_ok (fr_results r ! k)"
    using k C(4) by metis
  moreover have "\<forall>k < length (fr_results r). sr_ok (fr_results r ! k) \<longrightarrow>
       io_open (io k) \<and> io_send (io k) = Some True \<and>
       (\<exists>delta el. io_collect (io k) ?q ?m = Some (delta, el, False) \<and> sr_output_delta (fr_results r ! k) = Some delta)"
    using k C(3) items by metis
  ultimately show ?thesis
    using C(1,2) D f by (simp add: R a(1) append_refused_fields comp_def)
qed

theorem fanout_results_complete_witness:
  "\<exists>r tr. dispatch demo_ratio (\<lambda>p d. False) demo_io (demo_group ''parallel'') [''c''] ''ls'' None None ''s'' 0 = (r, tr) \<and>
     map sr_worker_id (fr_results r) = [''a'', ''b'', ''c'']"
proof -
  obtain r tr where d: "dispatch demo_ratio (\<lambda>p d. False) demo_io (demo_group ''parallel'') [''c''] ''ls'' None None ''s'' 0 = (r, tr)"
    using demo_pair by blast
  from fanout_results_complete [OF this] have "map sr_worker_id (fr_results r) = fg_worker_ids (demo_group ''parallel'') @ [''c'']" ..
  with d show ?thesis by (auto simp: demo_group_def)
qed

subsection \<open>The traces\<close>

text \<open>What one member adds to the trace of a sequential dispatch that reaches it.\<close>

definition member_trace :: "(nat \<Rightarrow> member_io) \<Rightarrow> string \<Rightarrow> nat \<times> string \<Rightarrow> fanout_effect list" where
  "member_trace io data m =
     (case m of (i, w) \<Rightarrow>
        [Subscribed i w, Observed [w], InputSent i w data] @
        (if io_send (io i) = Some True then [Collected i w] else []) @ [Unsubscribed i w])"

lemma member_trace_pair:
  "member_trace io data (i, w) =
     [Subscribed i w, Observed [w], InputSent i w data] @
     (if io_send (io i) = Some True then [Collected i w] else []) @ [Unsubscribed i w]"
  by (simp add: member_trace_def)

text \<open>A member whose output stops a sequential dispatch.\<close>

definition matches :: "(pystr \<Rightarrow> pystr \<Rightarrow> bool) \<Rightarrow> (nat \<Rightarrow> member_io) \<Rightarrow> fanout_group \<Rightarrow> int \<Rightarrow> int \<Rightarrow> nat \<Rightarrow> bool" where
  "matches search io g q m i \<longleftrightarrow>
     fg_stop_on_first_error g \<and> io_open (io i) \<and> io_send (io i) = Some True \<and>
     (case (fg_error_pattern g, io_collect (io i) q m) of
        (Some p, Some (delta, el, short)) \<Rightarrow> search p delta
      | _ \<Rightarrow> False)"

fun reached :: "(pystr \<Rightarrow> pystr \<Rightarrow> bool) \<Rightarrow> (nat \<Rightarrow> member_io) \<Rightarrow> fanout_group \<Rightarrow> int \<Rightarrow> int \<Rightarrow> (nat \<times> string) list \<Rightarrow> (nat \<times> string) list" where
  "reached search io g q m [] = []"
| "reached search io g q m ((i, w) # ws) =
     (if io_open (io i) then (i, w) # (if matches search io g q m i then [] else reached search io g q m ws)
      else reached search io g q m ws)"

lemma sequential_trace:
  "snd (sequential_loop search io g data q m ws stopped a tr) =
     tr @ (if stopped then [] else concat (map (member_trace io data) (reached search io g q m ws)))"
proof (induction ws arbitrary: stopped a tr)
  case (Cons x ws)
  obtain i w where x: "x = (i, w)" by (cases x)
  consider "stopped \<or> \<not> io_open (io i)" | "\<not> stopped" "io_open (io i)" "io_send (io i) \<noteq> Some True"
    | "\<not> stopped" "io_open (io i)" "io_send (io i) = Some True" "io_collect (io i) q m = None"
    | d e c where "\<not> stopped" "io_open (io i)" "io_send (io i) = Some True" "io_collect (io i) q m = Some (d, e, c)"
    by (cases "io_collect (io i) q m") auto
  then show ?case
  proof cases
    case 4
    then have "(fg_stop_on_first_error g \<and> (case fg_error_pattern g of None \<Rightarrow> False | Some p \<Rightarrow> search p d)) = matches search io g q m i"
      by (simp add: matches_def split: option.split)
    with 4 show ?thesis by (simp add: x Cons.IH member_trace_def)
  qed (auto simp: x Cons.IH member_trace_def matches_def split: option.splits)
qed simp

lemma reached_sub: "set (reached search io g q m ws) \<subseteq> {(i, w) \<in> set ws. io_open (io i)}"
  by (induction search io g q m ws rule: reached.induct) auto

lemma reached_distinct: "distinct (map fst ws) \<Longrightarrow> distinct (map fst (reached search io g q m ws))"
proof (induction search io g q m ws rule: reached.induct)
  case (2 search io g q m i w ws)
  have "i \<notin> fst ` set (reached search io g q m ws)"
    using 2(3) reached_sub [of search io g q m ws] by force
  then show ?case using 2 by auto
qed simp

lemma members_fst [simp]: "map fst (members g) = [0..<length (fg_worker_ids g)]"
  by (simp add: members_def)

lemma in_members: "(i, w) \<in> set (members g) \<longleftrightarrow> i < length (fg_worker_ids g) \<and> fg_worker_ids g ! i = w"
  by (auto simp: members_def in_set_enumerate_eq)

abbreviation ready_members :: "(nat \<Rightarrow> member_io) \<Rightarrow> fanout_group \<Rightarrow> (nat \<times> string) list" where
  "ready_members io g \<equiv> filter (\<lambda>(i, w). io_open (io i)) (members g)"

lemma dispatch_trace:
  assumes "dispatch ratio search io g refused data q m sid tm = (r, tr)"
  shows "tr =
    (if fg_mode g = ''sequential''
     then concat (map (member_trace io data)
            (reached search io g (effective q (fg_quiesce_ms g)) (effective m (fg_max_response_ms g)) (members g)))
     else map (\<lambda>(i, w). Subscribed i w) (ready_members io g) @
          (if ready_members io g = [] then [] else [Observed (map snd (ready_members io g))]) @
          map (\<lambda>(i, w). InputSent i w data) (ready_members io g) @
          map (\<lambda>(i, w). Collected i w) (filter (\<lambda>(i, w). io_send (io i) = Some True) (ready_members io g)) @
          map (\<lambda>(i, w). Unsubscribed i w) (ready_members io g))"
proof (cases "fg_mode g = ''sequential''")
  case True
  then show ?thesis
    using assms sequential_trace [of search io g data "effective q (fg_quiesce_ms g)" "effective m (fg_max_response_ms g)" "members g" False no_results "[]"]
    by (auto simp: dispatch_def send_sequential_def Let_def split: prod.splits)
next
  case False
  then show ?thesis using assms by (simp add: dispatch_def send_parallel_def Let_def del: filter_filter)
qed

lemma input_member:
  assumes "dispatch ratio search io g refused data q m sid tm = (r, tr)" "InputSent i w d \<in> set tr"
  shows "d = data \<and> i < length (fg_worker_ids g) \<and> fg_worker_ids g ! i = w \<and> io_open (io i)"
  using assms(2) reached_sub [of search io g "effective q (fg_quiesce_ms g)" "effective m (fg_max_response_ms g)" "members g"]
  unfolding dispatch_trace [OF assms(1)]
  by (auto simp: member_trace_def in_members split: if_splits prod.splits)

text \<open>
  A monitor of the trace: a session is told and watched before its input goes out, gets the input
  once, is collected from only after it took the input, and no watch is left open.
\<close>

fun watch_monitor :: "nat set \<Rightarrow> string set \<Rightarrow> nat set \<Rightarrow> fanout_effect list \<Rightarrow> bool" where
  "watch_monitor opened told sent [] = (opened = {})"
| "watch_monitor opened told sent (Subscribed i w # tr) = (i \<notin> opened \<and> watch_monitor (insert i opened) told sent tr)"
| "watch_monitor opened told sent (Observed ws # tr) = watch_monitor opened (told \<union> set ws) sent tr"
| "watch_monitor opened told sent (InputSent i w d # tr) =
     (i \<in> opened \<and> w \<in> told \<and> i \<notin> sent \<and> watch_monitor opened told (insert i sent) tr)"
| "watch_monitor opened told sent (Collected i w # tr) =
     (i \<in> opened \<and> i \<in> sent \<and> watch_monitor opened told sent tr)"
| "watch_monitor opened told sent (Unsubscribed i w # tr) =
     (i \<in> opened \<and> watch_monitor (opened - {i}) told sent tr)"
| "watch_monitor opened told sent (HoldRecorded x # tr) = watch_monitor opened told sent tr"

lemma monitor_members:
  "distinct (map fst ms) \<Longrightarrow> fst ` set ms \<inter> sent = {} \<Longrightarrow>
   watch_monitor {} told sent (concat (map (member_trace io data) ms))"
proof (induction ms arbitrary: told sent)
  case (Cons x ms)
  obtain i w where x: "x = (i, w)" by (cases x)
  have "fst ` set ms \<inter> insert i sent = {}" using Cons.prems x by auto
  then have "watch_monitor {} (insert w told) (insert i sent) (concat (map (member_trace io data) ms))"
    using Cons by simp
  then show ?case using Cons.prems x by (simp add: member_trace_pair)
qed simp

lemma monitor_subscribe:
  "distinct (map fst ms) \<Longrightarrow> fst ` set ms \<inter> opened = {} \<Longrightarrow>
   watch_monitor opened told sent (map (\<lambda>(i, w). Subscribed i w) ms @ tr) =
   watch_monitor (opened \<union> fst ` set ms) told sent tr"
proof (induction ms arbitrary: opened)
  case (Cons x ms)
  have "fst ` set ms \<inter> insert (fst x) opened = {}" using Cons.prems by auto
  then show ?case using Cons by (simp add: split_beta)
qed simp

lemma monitor_input:
  "distinct (map fst ms) \<Longrightarrow> fst ` set ms \<inter> sent = {} \<Longrightarrow> fst ` set ms \<subseteq> opened \<Longrightarrow> snd ` set ms \<subseteq> told \<Longrightarrow>
   watch_monitor opened told sent (map (\<lambda>(i, w). InputSent i w data) ms @ tr) =
   watch_monitor opened told (sent \<union> fst ` set ms) tr"
proof (induction ms arbitrary: sent)
  case (Cons x ms)
  have "fst ` set ms \<inter> insert (fst x) sent = {}" using Cons.prems by auto
  then show ?case using Cons by (simp add: split_beta)
qed simp

lemma monitor_collect:
  "fst ` set ms \<subseteq> opened \<inter> sent \<Longrightarrow>
   watch_monitor opened told sent (map (\<lambda>(i, w). Collected i w) ms @ tr) = watch_monitor opened told sent tr"
  by (induction ms) auto

lemma monitor_unsubscribe:
  "distinct (map fst ms) \<Longrightarrow> opened = fst ` set ms \<Longrightarrow>
   watch_monitor opened told sent (map (\<lambda>(i, w). Unsubscribed i w) ms)"
proof (induction ms arbitrary: opened)
  case (Cons x ms)
  have "opened - {fst x} = fst ` set ms" using Cons.prems by auto
  then show ?case using Cons by (simp add: split_beta)
qed simp

text \<open>In either mode no output can be missed and no watch leaks: each session that gets the input has
  been subscribed to and its observers told before, gets the input once, and is unsubscribed from
  before the dispatch ends, also when sending or collecting fails.\<close>

theorem fanout_watched:
  assumes "dispatch ratio search io g refused data q m sid tm = (r, tr)"
  shows "watch_monitor {} {} {} tr"
proof (cases "fg_mode g = ''sequential''")
  case True
  then show ?thesis unfolding dispatch_trace [OF assms] by (simp add: monitor_members reached_distinct)
next
  case False
  let ?ms = "ready_members io g"
  let ?cs = "filter (\<lambda>(i, w). io_send (io i) = Some True) ?ms"
  have d: "distinct (map fst ?ms)" by (rule distinct_map_filter) simp
  have "watch_monitor (fst ` set ?ms) (snd ` set ?ms) {}
      (map (\<lambda>(i, w). InputSent i w data) ?ms @ map (\<lambda>(i, w). Collected i w) ?cs @ map (\<lambda>(i, w). Unsubscribed i w) ?ms)"
    by (subst monitor_input [OF d]; (subst monitor_collect)?) (auto simp: d monitor_unsubscribe simp del: filter_filter)
  then show ?thesis
    unfolding dispatch_trace [OF assms] using False monitor_subscribe [OF d]
    by (cases "?ms = []") (simp_all del: filter_filter add: image_image)
qed

theorem fanout_watched_witness:
  "\<exists>r tr. dispatch demo_ratio (\<lambda>p d. False) demo_io (demo_group ''parallel'') [] ''ls'' None None ''s'' 0 = (r, tr) \<and>
     watch_monitor {} {} {} tr \<and> length tr = 9"
proof -
  obtain r tr where d: "dispatch demo_ratio (\<lambda>p d. False) demo_io (demo_group ''parallel'') [] ''ls'' None None ''s'' 0 = (r, tr)"
    using demo_pair by blast
  moreover have "length tr = 9"
    unfolding dispatch_trace [OF d] by (simp add: demo_members demo_io_def) (simp add: demo_group_def)
  ultimately show ?thesis using fanout_watched [OF d] by blast
qed

fun inputs_of :: "fanout_effect list \<Rightarrow> (nat \<times> string) list" where
  "inputs_of [] = []"
| "inputs_of (e # tr) = (case e of InputSent i w d \<Rightarrow> (i, w) # inputs_of tr | _ \<Rightarrow> inputs_of tr)"

lemma inputs_of_append [simp]: "inputs_of (tr @ tr') = inputs_of tr @ inputs_of tr'"
  by (induction tr) (auto split: fanout_effect.split)

lemma inputs_of_phases [simp]:
  "inputs_of (map (\<lambda>(i, w). Subscribed i w) ws) = []"
  "inputs_of (map (\<lambda>(i, w). Collected i w) ws) = []"
  "inputs_of (map (\<lambda>(i, w). Unsubscribed i w) ws) = []"
  "inputs_of (map (\<lambda>(i, w). InputSent i w data) ws) = ws"
  by (induction ws; auto)+

text \<open>The two modes agree: unless a group stops on the first error, sending to its members one after
  the other gives the results of sending to all at once, and the same sessions get the input in the
  same order.\<close>

theorem fanout_modes_agree:
  assumes "\<not> (fg_stop_on_first_error g \<and> fg_error_pattern g \<noteq> None)"
  shows "fst (send_sequential ratio search io g data q m sid tm) = fst (send_parallel ratio io g data q m sid tm) \<and>
    inputs_of (snd (send_sequential ratio search io g data q m sid tm)) =
    inputs_of (snd (send_parallel ratio io g data q m sid tm))"
proof -
  have nm: "\<not> matches search io g q m i" for i
    using assms by (auto simp: matches_def split: option.splits)
  have loop: "fst (sequential_loop search io g data q m ws False a tr) =
      fold (\<lambda>(i, w) a. add_result a w (member_item io q m i)) ws a" for ws a tr
  proof (induction ws arbitrary: a tr)
    case (Cons x ws)
    obtain i w where x: "x = (i, w)" by (cases x)
    have ns: "(fg_stop_on_first_error g \<and> (case fg_error_pattern g of None \<Rightarrow> False | Some p \<Rightarrow> search p d)) = False" for d
      using assms by (auto split: option.split)
    show ?case
      by (cases "io_collect (io i) q m") (auto simp only: x sequential_loop.simps ns Let_def Cons.IH member_item_def
        fold.simps comp_def split: if_splits option.split prod.split)
  qed simp
  have reach: "reached search io g q m ws = filter (\<lambda>(i, w). io_open (io i)) ws" for ws
    by (induction ws) (auto simp: nm)
  have inputs: "inputs_of (concat (map (member_trace io data) ws)) = ws" for ws
    by (induction ws) (auto simp: member_trace_def)
  show ?thesis
    using loop [of "members g" no_results "[]"]
      sequential_trace [of search io g data q m "members g" False no_results "[]"]
    by (auto simp: send_sequential_def send_parallel_def Let_def reach inputs member_item_def
        simp del: filter_filter split: prod.splits)
qed

theorem fanout_modes_agree_witness:
  "fst (send_sequential demo_ratio (\<lambda>p d. True) demo_io (demo_group ''parallel'') ''ls'' 1 2 ''s'' 0) =
   fst (send_parallel demo_ratio demo_io (demo_group ''parallel'') ''ls'' 1 2 ''s'' 0)"
proof -
  have "\<not> (fg_stop_on_first_error (demo_group ''parallel'') \<and> fg_error_pattern (demo_group ''parallel'') \<noteq> None)"
    by (simp add: demo_group_def)
  from fanout_modes_agree [OF this] show ?thesis by blast
qed

text \<open>A sequential group with an error pattern stops there: no member behind one whose output matches
  gets the input.\<close>

theorem fanout_stops_on_error:
  assumes "dispatch ratio search io g refused data q m sid tm = (r, tr)" "fg_mode g = ''sequential''"
    and "fg_stop_on_first_error g" "fg_error_pattern g = Some p"
    and "InputSent i w data \<in> set tr" "io_send (io i) = Some True"
    and "io_collect (io i) (effective q (fg_quiesce_ms g)) (effective m (fg_max_response_ms g)) = Some (delta, el, short)"
    and "search p delta" "i < j"
  shows "InputSent j v d \<notin> set tr"
proof -
  let ?q = "effective q (fg_quiesce_ms g)" and ?m = "effective m (fg_max_response_ms g)"
  have tr: "tr = concat (map (member_trace io data) (reached search io g ?q ?m (members g)))"
    using dispatch_trace [OF assms(1)] assms(2) by simp
  have open_i: "io_open (io i)" using input_member [OF assms(1,5)] by simp
  then have mi: "matches search io g ?q ?m i" using assms by (simp add: matches_def)
  have "j \<notin> fst ` set (reached search io g ?q ?m ws)"
    if "i \<in> fst ` set (reached search io g ?q ?m ws)" "sorted_wrt (<) (map fst ws)" for ws
    using that
  proof (induction ws)
    case (Cons x ws)
    obtain k v where x: "x = (k, v)" by (cases x)
    have sub: "fst ` set (reached search io g ?q ?m ws) \<subseteq> fst ` set ws"
      using reached_sub [of search io g ?q ?m ws] by force
    show ?case
    proof (cases "k = i")
      case True
      then have "j \<noteq> k" using assms(9) by simp
      then show ?thesis using x True mi open_i by simp
    next
      case False
      then have i: "i \<in> fst ` set (reached search io g ?q ?m ws)"
        using Cons.prems(1) x by (auto split: if_splits)
      then have "i \<in> fst ` set ws" using sub by blast
      then have "k < i" using Cons.prems(2) x by auto
      then show ?thesis using Cons.IH [OF i] Cons.prems(2) x assms(9) by auto
    qed
  qed simp
  moreover have "i \<in> fst ` set (reached search io g ?q ?m (members g))"
    using assms(5) unfolding tr by (force simp: member_trace_def split: if_splits)
  ultimately have "j \<notin> fst ` set (reached search io g ?q ?m (members g))"
    by (simp add: sorted_wrt_upt)
  then show ?thesis unfolding tr by (force simp: member_trace_def split: if_splits)
qed

theorem fanout_stops_on_error_witness:
  "\<exists>r tr. dispatch demo_ratio (\<lambda>p d. p = d) demo_io (demo_group ''sequential'') [] ''ls'' None None ''s'' 0 = (r, tr) \<and>
     InputSent 0 ''a'' ''ls'' \<in> set tr \<and> InputSent 1 ''b'' ''ls'' \<notin> set tr"
proof -
  obtain r tr where d: "dispatch demo_ratio (\<lambda>p d. p = d) demo_io (demo_group ''sequential'') [] ''ls'' None None ''s'' 0 = (r, tr)"
    using demo_pair by blast
  have g: "fg_mode (demo_group ''sequential'') = ''sequential''" "fg_stop_on_first_error (demo_group ''sequential'')"
    "fg_error_pattern (demo_group ''sequential'') = Some [69]"
    by (simp_all add: demo_group_def)
  have a: "InputSent 0 ''a'' ''ls'' \<in> set tr"
    unfolding dispatch_trace [OF d] by (simp add: g(1) demo_members demo_io_def member_trace_def)
  have "InputSent 1 ''b'' ''ls'' \<notin> set tr"
    by (rule fanout_stops_on_error [OF d g a, where delta = "[69]" and el = 500 and short = False])
       (simp_all add: demo_io_def demo_group_def)
  with d a show ?thesis by blast
qed

subsection \<open>Who may reach a session\<close>

definition may_dispatch :: "authorizers \<Rightarrow> fanout_controller \<Rightarrow> string \<Rightarrow> principal \<Rightarrow> string \<Rightarrow> bool" where
  "may_dispatch az c gid p w \<longleftrightarrow>
     (\<exists>is_admin resolve can_read g d.
        az_is_global_admin az = Some is_admin \<and> is_admin p = Some True \<and>
        fanout_get (fc_store c) gid = Some g \<and> group_visible (pr_subject_id p) g \<and> w \<in> set (fg_worker_ids g) \<and>
        az_resolve_session az = Some resolve \<and> resolve w = Some (Some d) \<and>
        az_can_read_session az = Some can_read \<and> can_read p d = Some True)"

lemma snapshot_sound:
  assumes "authorized_dispatch_snapshot az c gid who = Inr (g, refused)" "w \<in> set (fg_worker_ids g)"
  obtains p where "who = Caller p" "may_dispatch az c gid p w"
proof -
  obtain p where p: "who = Caller p" using assms(1) by (cases who) (auto simp: authorized_dispatch_snapshot_def)
  have ready: "authorization_ready az" using assms(1) p by (simp add: authorized_dispatch_snapshot_def split: if_splits)
  then obtain adm res rd where az: "az_is_global_admin az = Some adm" "az_resolve_session az = Some res" "az_can_read_session az = Some rd"
    by (auto simp: authorization_ready_def)
  obtain g0 where g0: "adm p = Some True" "fanout_get (fc_store c) gid = Some g0" "group_visible (pr_subject_id p) g0"
    "g = g0\<lparr>fg_worker_ids := filter (member_readable res rd p) (fg_worker_ids g0)\<rparr>"
    using assms(1) p ready az
    by (auto simp: authorized_dispatch_snapshot_def validate_members_def split: option.splits bool.splits if_splits)
  have w: "w \<in> set (fg_worker_ids g0)" "member_readable res rd p w" using assms(2) g0(4) by auto
  then obtain d where "res w = Some (Some d)" "rd p d = Some True"
    by (auto simp: member_readable_def split: option.splits)
  with w az g0 have "may_dispatch az c gid p w" unfolding may_dispatch_def by blast
  with p that show thesis by blast
qed

lemma snapshot_caller: "authorized_dispatch_snapshot az c gid who = Inr x \<Longrightarrow> \<exists>p. who = Caller p"
  by (cases who) (auto simp: authorized_dispatch_snapshot_def)

lemma send_input:
  assumes "fanout_send ratio search io az gate gid data who q m rid now c ap = (res, tr, c', ap')" "InputSent i w d \<in> set tr"
  obtains g refused p r where "authorized_dispatch_snapshot az c gid who = Inr (g, refused)" "who = Caller p"
    "dispatch ratio search io g refused data q m rid now = (r, tr)"
    "gate = None \<or> (\<exists>intercept reason. gate = Some intercept \<and>
       intercept data (pr_subject_id p) (strongest_role p) gid = Some (GateAllow, reason))"
proof -
  obtain g refused where s: "authorized_dispatch_snapshot az c gid who = Inr (g, refused)"
    using assms by (cases "authorized_dispatch_snapshot az c gid who") (auto simp: fanout_send_def)
  then obtain p where p: "who = Caller p" using snapshot_caller by blast
  have "(\<exists>r. dispatch ratio search io g refused data q m rid now = (r, tr)) \<and>
    (gate = None \<or> (\<exists>intercept reason. gate = Some intercept \<and>
       intercept data (pr_subject_id p) (strongest_role p) gid = Some (GateAllow, reason)))"
    using assms s p by (auto simp: fanout_send_def Let_def split: option.splits gate_action.splits prod.splits bool.splits)
  with s p that show thesis by blast
qed

text \<open>C28: Input that \<open>send\<close> fans out reaches a session only on behalf of an authenticated principal that is a
  global administrator, created the group or was granted it, and may read that very session, and
  only when the policy gate allowed the command; a held or denied command, a caller known by name
  only, an unwired or raising authorizer send nothing.\<close>

theorem fanout_input_authorized:
  assumes "fanout_send ratio search io az gate gid data who q m rid now c ap = (res, tr, c', ap')"
    and "InputSent i w d \<in> set tr"
  shows "d = data \<and> (\<exists>p. who = Caller p \<and> may_dispatch az c gid p w \<and>
    (gate = None \<or> (\<exists>intercept reason. gate = Some intercept \<and>
       intercept data (pr_subject_id p) (strongest_role p) gid = Some (GateAllow, reason))))"
proof -
  obtain g refused p r where s: "authorized_dispatch_snapshot az c gid who = Inr (g, refused)" "who = Caller p"
    "dispatch ratio search io g refused data q m rid now = (r, tr)"
    and gt: "gate = None \<or> (\<exists>intercept reason. gate = Some intercept \<and>
       intercept data (pr_subject_id p) (strongest_role p) gid = Some (GateAllow, reason))"
    by (rule send_input [OF assms])
  from input_member [OF s(3) assms(2)] have "d = data" "w \<in> set (fg_worker_ids g)" by auto
  moreover from snapshot_sound [OF s(1) this(2)] s(2) have "may_dispatch az c gid p w" by auto
  ultimately show ?thesis using s(2) gt by blast
qed

theorem fanout_input_authorized_witness:
  "\<exists>res tr c' ap. fanout_send demo_ratio (\<lambda>p d. False) demo_io demo_authorizers None ''g'' ''ls'' (Caller demo_admin) None None ''r2'' 0
      demo_controller None = (res, tr, c', ap) \<and> InputSent 0 ''a'' ''ls'' \<in> set tr \<and>
      may_dispatch demo_authorizers demo_controller ''g'' demo_admin ''a''"
proof -
  have c: "demo_controller\<lparr>fc_store := [(''g'', demo_group ''parallel'')]\<rparr> = demo_controller" by (simp add: demo_controller_def)
  let ?g = "(demo_group ''parallel'')\<lparr>fg_worker_ids := [''a'']\<rparr>"
  obtain r tr where d: "dispatch demo_ratio (\<lambda>p d. False) demo_io ?g [''b''] ''ls'' None None ''r2'' 0 = (r, tr)"
    using demo_pair by blast
  have s: "fanout_send demo_ratio (\<lambda>p d. False) demo_io demo_authorizers None ''g'' ''ls'' (Caller demo_admin) None None ''r2'' 0
      demo_controller None = (Inr r, tr, demo_controller, None)"
    using demo_snapshot [of demo_controller] d unfolding c by (simp add: fanout_send_def)
  have i: "InputSent 0 ''a'' ''ls'' \<in> set tr"
    unfolding dispatch_trace [OF d] by (simp add: demo_group_def members_def demo_io_def)
  from fanout_input_authorized [OF s i] i s show ?thesis by auto
qed

subsection \<open>Held commands\<close>

text \<open>The controller beside the hub's approval store, and everything that happens to them.\<close>

datatype fanout_event =
    FeSend "nat \<Rightarrow> member_io" authorizers fanout_gate string string caller "int option" "int option" string time
  | FeRelease "nat \<Rightarrow> member_io" authorizers string nat string time
  | FeExpired approval_request
  | FeApproval approval_event
  | FeCreate "cp \<Rightarrow> bool" "pystr \<Rightarrow> (pystr \<Rightarrow> bool) option" fanout_group string
  | FeDelete string string
  | FeGrant string string string

fun fanout_apply ::
  "(pystr \<Rightarrow> pystr \<Rightarrow> real) \<Rightarrow> (pystr \<Rightarrow> pystr \<Rightarrow> bool) \<Rightarrow> fanout_event \<Rightarrow>
   fanout_controller \<times> approval_store \<Rightarrow> fanout_controller \<times> approval_store" where
  "fanout_apply ratio search (FeSend io az gate gid data who q m rid now) (c, s) =
     (case fanout_send ratio search io az gate gid data who q m rid now c (Some s) of
        (res, tr, c', ap) \<Rightarrow> (c', case ap of None \<Rightarrow> s | Some s' \<Rightarrow> s'))"
| "fanout_apply ratio search (FeRelease io az rid rv sid now) (c, s) =
     (snd (snd (release_approved_command ratio search io az rid rv sid now c)), s)"
| "fanout_apply ratio search (FeExpired r) (c, s) = (on_approval_expired r c, s)"
| "fanout_apply ratio search (FeApproval e) (c, s) = (c, approval_apply e s)"
| "fanout_apply ratio search (FeCreate digit re_compile g p) (c, s) = (snd (create_group digit re_compile g p c), s)"
| "fanout_apply ratio search (FeDelete gid p) (c, s) = (delete_group gid p c, s)"
| "fanout_apply ratio search (FeGrant gid grantee p) (c, s) = (grant_access gid grantee p c, s)"

definition held_ok :: "fanout_controller \<times> approval_store \<Rightarrow> bool" where
  "held_ok cs \<longleftrightarrow>
     (case cs of (c, s) \<Rightarrow>
        od_ok (fc_pending_approvals c) \<and>
        (\<forall>rid p. od_get (fc_pending_approvals c) rid = Some p \<longrightarrow> pf_revision p \<le> as_next_revision s))"

definition held_gone :: "string \<times> nat \<Rightarrow> fanout_controller \<times> approval_store \<Rightarrow> bool" where
  "held_gone k cs \<longleftrightarrow>
     (case (k, cs) of ((rid, rv), (c, s)) \<Rightarrow>
        rv \<le> as_next_revision s \<and>
        (\<forall>p. od_get (fc_pending_approvals c) rid = Some p \<longrightarrow> pf_revision p \<noteq> rv))"

definition take_held :: "string \<times> nat \<Rightarrow> fanout_controller \<times> approval_store \<Rightarrow> pending_fanout option \<times> fanout_controller \<times> approval_store" where
  "take_held k cs =
     (case (k, cs) of ((rid, rv), (c, s)) \<Rightarrow> (case pop_pending_approval rid rv c of (p, c') \<Rightarrow> (p, c', s)))"

lemma pop_cases:
  "pop_pending_approval rid rv c = (None, c) \<or>
   (\<exists>p. od_get (fc_pending_approvals c) rid = Some p \<and> pf_revision p = rv \<and>
      pop_pending_approval rid rv c = (Some p, c\<lparr>fc_pending_approvals := od_pop (fc_pending_approvals c) rid\<rparr>))"
  by (auto simp: pop_pending_approval_def split: option.splits)

lemma held_pop:
  "held_ok (c, s) \<Longrightarrow> held_ok (snd (pop_pending_approval rid rv c), s)"
  "held_ok (c, s) \<Longrightarrow> held_gone k (c, s) \<Longrightarrow> held_gone k (snd (pop_pending_approval rid rv c), s)"
  using pop_cases [of rid rv c] by (auto simp: held_ok_def held_gone_def od_ok_pop split: if_splits)

lemma revision_grows: "as_next_revision s \<le> as_next_revision (approval_apply e s)"
proof -
  have "as_next_revision (fold (cleanup_entry now) es s) = as_next_revision s" for now es
    by (induction es arbitrary: s) (auto simp: cleanup_entry_def expire_locked_def Let_def)
  then show ?thesis
    by (cases e) (auto simp: approval_defs cleanup_pass_def notify_expired_def subscribe_expired_def split: option.splits)
qed

lemma add_revision:
  "approval_add s r = (True, s') \<Longrightarrow> as_next_revision s' = as_next_revision s + 1 \<and>
     (\<exists>r'. approval_get s' (aq_id r) = Some r' \<and> aq_revision r' = as_next_revision s + 1)"
  "approval_add s r = (False, s') \<Longrightarrow> s' = s"
  by (auto simp: approval_add_def approval_get_def Let_def split: if_splits)

lemma send_effect:
  assumes "fanout_send ratio search io az gate gid data who q m rid now c (Some s) = (res, tr, c', ap)"
  shows "c' = c \<and> ap = Some s \<or>
    (\<exists>p s'. ap = Some s' \<and> as_next_revision s' = as_next_revision s + 1 \<and> pf_revision p = as_next_revision s + 1 \<and>
       c' = c\<lparr>fc_pending_approvals := od_set (fc_pending_approvals c) rid p\<rparr>)"
proof (cases "\<exists>s'. approval_add s (hold_request rid gid (pr_subject_id (case who of Caller p \<Rightarrow> p)) data now) = (True, s')")
  case True
  then obtain s' where s': "approval_add s (hold_request rid gid (pr_subject_id (case who of Caller p \<Rightarrow> p)) data now) = (True, s')" by blast
  obtain r' where r: "as_next_revision s' = as_next_revision s + 1" "approval_get s' rid = Some r'" "aq_revision r' = as_next_revision s + 1"
    using add_revision(1) [OF s'] by (auto simp: hold_request_def)
  let ?p = "\<lparr>pf_revision = aq_revision r', pf_group_id = gid, pf_command = data, pf_quiesce_ms = q,
    pf_max_response_ms = m, pf_principal = (case who of Caller p \<Rightarrow> p)\<rparr>"
  have "c' = c \<and> ap = Some s \<or> ap = Some s' \<and> c' = c\<lparr>fc_pending_approvals := od_set (fc_pending_approvals c) rid ?p\<rparr>"
    using assms s' r(2)
    by (auto simp: fanout_send_def Let_def split: sum.splits prod.splits option.splits gate_action.splits)
  moreover have "pf_revision ?p = as_next_revision s + 1" using r(3) by simp
  ultimately show ?thesis using r(1) by blast
next
  case False
  then obtain s' where "approval_add s (hold_request rid gid (pr_subject_id (case who of Caller p \<Rightarrow> p)) data now) = (False, s')"
    by (metis (full_types) surj_pair)
  with add_revision(2) [OF this] show ?thesis
    using assms
    by (auto simp: fanout_send_def Let_def split: sum.splits prod.splits option.splits gate_action.splits)
qed

lemma crud_pending:
  "fc_pending_approvals (snd (create_group digit re_compile g p c)) = fc_pending_approvals c"
  "fc_pending_approvals (delete_group gid p c) = fc_pending_approvals c"
  "fc_pending_approvals (grant_access gid x p c) = fc_pending_approvals c"
  by (auto simp: create_group_def delete_group_def grant_access_def split: sum.splits option.splits)

lemma release_pop: "snd (snd (release_approved_command ratio search io az rid rv sid now c)) = snd (pop_pending_approval rid rv c)"
  by (auto simp: release_approved_command_def Let_def split: prod.splits option.splits sum.splits)

lemma held_step:
  assumes "held_ok cs"
  shows "held_ok (fanout_apply ratio search e cs)"
    and "held_gone k cs \<Longrightarrow> held_gone k (fanout_apply ratio search e cs)"
proof -
  obtain c s where cs: "cs = (c, s)" by (cases cs)
  obtain rid rv where k: "k = (rid, rv)" by (cases k)
  have "held_ok (fanout_apply ratio search e cs) \<and> (held_gone k cs \<longrightarrow> held_gone k (fanout_apply ratio search e cs))"
  proof (cases e)
    case (FeSend io az gate gid data who q m rid now)
    obtain res tr c' ap where f: "fanout_send ratio search io az gate gid data who q m rid now c (Some s) = (res, tr, c', ap)"
      by (metis prod_cases4)
    have le: "pf_revision p' \<le> Suc (as_next_revision s)" if "od_get (fc_pending_approvals c) rid' = Some p'" for rid' p'
      using assms that by (fastforce simp: cs held_ok_def)
    from send_effect [OF f] show ?thesis
      using assms f FeSend le by (auto simp: cs k held_ok_def held_gone_def intro: le_SucI split: if_splits)
  next
    case (FeApproval e)
    then show ?thesis using assms revision_grows [of s e] by (auto simp: cs k held_ok_def held_gone_def intro: order_trans)
  qed (use assms held_pop in \<open>auto simp: cs release_pop on_approval_expired_def\<close>,
       auto simp: held_ok_def held_gone_def crud_pending)
  then show "held_ok (fanout_apply ratio search e cs)"
    "held_gone k cs \<Longrightarrow> held_gone k (fanout_apply ratio search e cs)" by blast+
qed

interpretation held: single_use "\<lambda>_. take_held" "fanout_apply ratio search" held_gone held_ok "\<lambda>_. True" "\<lambda>_ _. True"
proof unfold_locales
  show "held_ok s' \<and> held_gone k s'" if "held_ok s" "take_held k s = (Some r, s')" for k s r s'
  proof -
    obtain c st rid rv where d: "s = (c, st)" "k = (rid, rv)" by (metis surj_pair)
    show ?thesis using that pop_cases [of rid rv c]
      by (auto simp: d take_held_def held_ok_def held_gone_def od_ok_pop split: if_splits)
  qed
  show "fst (take_held k s) = None" if "held_gone k s" for k s
    using that by (auto simp: take_held_def held_gone_def pop_pending_approval_def split: prod.splits option.splits)
qed (auto intro: held_step)

text \<open>C29: A held command is released at most once, to the sessions its submitter may reach now: the input of a
  release is the command that was held under this approval and revision, for the principal that
  submitted it, judged again at release time, and releasing the same revision again, whatever was
  sent, held, approved, expired, created or deleted in between, does nothing.\<close>

theorem held_command_released_once:
  assumes "held_ok (c, s)"
    and "release_approved_command ratio search io az rid rv sid now c = (Some res, tr, c')"
  shows "(\<exists>p. od_get (fc_pending_approvals c) rid = Some p \<and> pf_revision p = rv \<and>
      (\<forall>i w d. InputSent i w d \<in> set tr \<longrightarrow> d = pf_command p \<and> may_dispatch az c (pf_group_id p) (pf_principal p) w)) \<and>
    (let c'' = fst (fold (fanout_apply ratio search) es (c', s))
     in release_approved_command ratio search io' az' rid rv sid' now' c'' = (None, [], c''))"
proof -
  have "pop_pending_approval rid rv c \<noteq> (None, c)" using assms(2) by (auto simp: release_approved_command_def)
  then obtain p where p: "od_get (fc_pending_approvals c) rid = Some p" "pf_revision p = rv"
    "pop_pending_approval rid rv c = (Some p, c\<lparr>fc_pending_approvals := od_pop (fc_pending_approvals c) rid\<rparr>)"
    using pop_cases [of rid rv c] by blast
  have c': "c' = c\<lparr>fc_pending_approvals := od_pop (fc_pending_approvals c) rid\<rparr>"
    using release_pop [of ratio search io az rid rv sid now c] assms(2) p(3) by simp
  note p = p(1,2) p(3) [folded c'] c'
  have "d = pf_command p \<and> may_dispatch az c (pf_group_id p) (pf_principal p) w" if inp: "InputSent i w d \<in> set tr" for i w d
  proof -
    obtain g refused where g: "authorized_dispatch_snapshot az c' (pf_group_id p) (Caller (pf_principal p)) = Inr (g, refused)"
      and "\<exists>r. dispatch ratio search io g refused (pf_command p) (pf_quiesce_ms p) (pf_max_response_ms p) sid now = (r, tr)"
      using assms(2) p(3) inp
      by (cases "authorized_dispatch_snapshot az c' (pf_group_id p) (Caller (pf_principal p))")
         (auto simp: release_approved_command_def Let_def split: prod.splits)
    then obtain r where r: "dispatch ratio search io g refused (pf_command p) (pf_quiesce_ms p) (pf_max_response_ms p) sid now = (r, tr)"
      by blast
    from input_member [OF r inp] have w: "d = pf_command p" "w \<in> set (fg_worker_ids g)" by auto
    have "may_dispatch az c' (pf_group_id p) (pf_principal p) w"
      using snapshot_sound [OF g w(2)] by auto
    then show ?thesis using w(1) p(4) by (simp add: may_dispatch_def)
  qed
  moreover have "take_held (rid, rv) (c, s) = (Some p, (c', s))" by (simp add: take_held_def p(3))
  then have "fst (take_held (rid, rv) (fold (fanout_apply ratio search) es (c', s))) = None"
    using held.taken_once [OF assms(1), where k = "(rid, rv)"] by (simp add: list_all_iff)
  then have "\<And>c'' s''. fold (fanout_apply ratio search) es (c', s) = (c'', s'') \<Longrightarrow> pop_pending_approval rid rv c'' = (None, c'')"
    using pop_cases [of rid rv] by (fastforce simp: take_held_def split: prod.splits)
  ultimately show ?thesis
    using p(1,2) by (cases "fold (fanout_apply ratio search) es (c', s)") (auto simp: release_approved_command_def Let_def)
qed

theorem held_command_released_once_witness:
  "\<exists>res tr c'. release_approved_command demo_ratio (\<lambda>p d. False) demo_io demo_authorizers ''r'' 0 ''s'' 0 demo_controller = (Some res, tr, c') \<and>
     fst (release_approved_command demo_ratio (\<lambda>p d. False) demo_io demo_authorizers ''r'' 0 ''s'' 0
       (fst (fold (fanout_apply demo_ratio (\<lambda>p d. False)) [FeDelete ''g'' ''ann''] (c', new_approval_store)))) = None"
proof -
  have ok: "held_ok (demo_controller, new_approval_store)" by (simp add: held_ok_def demo_controller_def)
  obtain x tr c' where r: "release_approved_command demo_ratio (\<lambda>p d. False) demo_io demo_authorizers ''r'' 0 ''s'' 0 demo_controller = (x, tr, c')"
    by (metis prod_cases3)
  have "x \<noteq> None"
    using r by (auto simp: release_approved_command_def pop_pending_approval_def demo_controller_def Let_def split: sum.splits prod.splits)
  then obtain res where "x = Some res" by blast
  with r have r: "release_approved_command demo_ratio (\<lambda>p d. False) demo_io demo_authorizers ''r'' 0 ''s'' 0 demo_controller = (Some res, tr, c')"
    by simp
  show ?thesis
    using held_command_released_once [OF ok r, where es = "[FeDelete ''g'' ''ann'']" and io' = demo_io and az' = demo_authorizers
        and sid' = "''s''" and now' = 0] r
    by (auto simp: Let_def)
qed

subsection \<open>Divergence\<close>

lemma takeWhile_stops: "x \<in> set xs \<Longrightarrow> \<not> P x \<Longrightarrow> length (takeWhile P xs) < length xs"
  by (induction xs) auto

lemma index_of_max_less: "xs \<noteq> [] \<Longrightarrow> index_of_max xs < length xs"
  unfolding index_of_max_def by (rule takeWhile_stops [of "Max (set xs)"]) simp_all

lemma divergence_at:
  assumes "2 \<le> length outs"
  obtains j sup where "j < length outs"
    "\<And>i. i < length outs \<Longrightarrow> compute_divergence ratio thr outs ! i =
       (if i = j then \<not> sup else ratio (outs ! i) (outs ! j) < thr)"
    "sup \<longleftrightarrow> (\<exists>i < length outs. i \<noteq> j \<and> thr \<le> ratio (outs ! i) (outs ! j))"
proof -
  let ?j = "index_of_max (map (average_similarity ratio outs) [0..<length outs])"
  have j: "?j < length outs" using assms index_of_max_less [of "map (average_similarity ratio outs) [0..<length outs]"] by (cases outs) auto
  have "length outs \<noteq> 0" "length outs \<noteq> 1" using assms by auto
  then show thesis
    using j by (intro that [of ?j "list_ex (\<lambda>i. i \<noteq> ?j \<and> thr \<le> map (\<lambda>out. ratio out (outs ! ?j)) outs ! i) [0..<length outs]"])
      (auto simp: compute_divergence_def Let_def list_ex_iff)
qed

text \<open>No session is the only one in agreement: of two or more outputs either all are flagged as divergent
  or at least two are not, and outputs that are all alike are never flagged (with a threshold the
  likeness of equal texts reaches).\<close>

theorem divergence_needs_company:
  assumes "2 \<le> length outs" and "\<And>t. thr \<le> ratio t t"
  shows "length (filter Not (compute_divergence ratio thr outs)) \<noteq> 1 \<and>
    (outs = replicate (length outs) (hd outs) \<longrightarrow> \<not> list_ex id (compute_divergence ratio thr outs))"
proof -
  obtain j sup where j: "j < length outs"
    "\<And>i. i < length outs \<Longrightarrow> compute_divergence ratio thr outs ! i =
       (if i = j then \<not> sup else ratio (outs ! i) (outs ! j) < thr)"
    "sup \<longleftrightarrow> (\<exists>i < length outs. i \<noteq> j \<and> thr \<le> ratio (outs ! i) (outs ! j))"
    using divergence_at [OF assms(1), of ratio thr] by metis
  let ?fl = "compute_divergence ratio thr outs"
  have len: "length (filter Not ?fl) = card {i. i < length outs \<and> \<not> ?fl ! i}"
    by (simp add: length_filter_conv_card)
  have "length (filter Not ?fl) \<noteq> 1"
  proof (cases sup)
    case True
    then obtain i where i: "i < length outs" "i \<noteq> j" "thr \<le> ratio (outs ! i) (outs ! j)" using j(3) by blast
    have "{i, j} \<subseteq> {i. i < length outs \<and> \<not> ?fl ! i}" using i j(1) j(2) [OF i(1)] j(2) [OF j(1)] True by auto
    then have "card {i, j} \<le> card {i. i < length outs \<and> \<not> ?fl ! i}" by (rule card_mono [rotated]) simp
    then show ?thesis using i(2) unfolding len by simp
  next
    case False
    then have "?fl ! i" if "i < length outs" for i
      using j(2) [OF that] j(3) that by (cases "i = j") (auto simp: not_le)
    then have e: "{i. i < length outs \<and> \<not> ?fl ! i} = {}" by blast
    show ?thesis unfolding len e by simp
  qed
  moreover have "outs = replicate (length outs) (hd outs) \<longrightarrow> \<not> list_ex id ?fl"
  proof
    assume r: "outs = replicate (length outs) (hd outs)"
    have same: "outs ! i = hd outs" if "i < length outs" for i using that by (subst r) simp
    obtain i where "i < length outs" "i \<noteq> j" using assms(1) by (metis One_nat_def Suc_1 Suc_le_lessD lessI less_trans zero_less_one zero_neq_one)
    then have sup using j(3) same j(1) assms(2) [of "hd outs"] by auto
    then have "\<not> ?fl ! i" if "i < length outs" for i
      using j(2) [OF that] same [OF that] same [OF j(1)] assms(2) [of "hd outs"] by auto
    then show "\<not> list_ex id ?fl" by (auto simp: list_ex_iff in_set_conv_nth)
  qed
  ultimately show ?thesis by blast
qed

theorem divergence_needs_company_witness:
  "length (filter Not (compute_divergence demo_ratio (1/2) [[1], [1], [2]])) \<noteq> 1"
proof -
  have "(1/2 :: real) \<le> demo_ratio t t" for t by (simp add: demo_ratio_def)
  then show ?thesis using divergence_needs_company [of "[[1], [1], [2]]" "1/2" demo_ratio] by simp
qed

text \<open>
  A principal that was only granted a group can delete it through the controller: the check that
  \<open>delete_group\<close> makes is the one for reading. (The HTTP route checks the creator itself.)
\<close>

lemma grantee_deletes_group:
  assumes "od_ok (fc_store c)" "fanout_get (fc_store c) gid = Some g" "grantee \<in> set (fg_grants g)"
  shows "fanout_get (fc_store (delete_group gid grantee c)) gid = None"
  using assms by (simp add: delete_group_def authorized_group_def group_visible_def fanout_get_def fanout_delete_def)

end
