(* ===== verification/IacNegotiate.thy ===== *)
theory IacNegotiate
  imports Utf8 "HOL-Library.Sublist"
begin

text \<open>
  The telnet negotiation of the gateway (\<open>gateway/_iac_negotiate.py\<close>): a parser that takes the client's
  bytes as they come, answers options, collects the terminal type and the environment from
  subnegotiations and leaves the application's bytes. Bytes are numbers below 256; decoding latin-1 is the
  identity on them.
\<close>

subsection \<open>Vocabulary\<close>

definition IAC :: byte where "IAC = 255"
definition DONT :: byte where "DONT = 254"
definition DO :: byte where "DO = 253"
definition WONT :: byte where "WONT = 252"
definition WILL :: byte where "WILL = 251"
definition SB :: byte where "SB = 250"
definition SE :: byte where "SE = 240"
definition OPT_TTYPE :: byte where "OPT_TTYPE = 24"
definition OPT_NEW_ENVIRON :: byte where "OPT_NEW_ENVIRON = 39"
definition SUB_IS :: byte where "SUB_IS = 0"
definition SUB_SEND :: byte where "SUB_SEND = 1"
definition ENV_VAR :: byte where "ENV_VAR = 0"
definition ENV_VALUE :: byte where "ENV_VALUE = 1"
definition ENV_ESC :: byte where "ENV_ESC = 2"
definition ENV_USERVAR :: byte where "ENV_USERVAR = 3"
definition MAX_SB_BYTES :: nat where "MAX_SB_BYTES = 4096"

lemmas iac_bytes = IAC_def DONT_def DO_def WONT_def WILL_def SB_def SE_def OPT_TTYPE_def OPT_NEW_ENVIRON_def
  SUB_IS_def SUB_SEND_def ENV_VAR_def ENV_VALUE_def ENV_ESC_def ENV_USERVAR_def

definition uni :: "string \<Rightarrow> pystr" where "uni s = map of_char s"

subsection \<open>Colour mode\<close>

definition derive_colormode :: "pystr option \<Rightarrow> (pystr \<times> pystr) list \<Rightarrow> string option" where
  "derive_colormode term_name env =
     (let look = (\<lambda>k. case od_get env (uni k) of None \<Rightarrow> [] | Some v \<Rightarrow> v);
          colorterm = latin_lower (py_strip (look ''COLORTERM''))
      in if colorterm = uni ''truecolor'' \<or> colorterm = uni ''24bit'' then Some ''passthrough''
         else
           let t = latin_lower (py_strip (case term_name of None \<Rightarrow> look ''TERM''
                                           | Some n \<Rightarrow> if n = [] then look ''TERM'' else n))
           in if suffix (uni ''-direct'') t \<or> suffix (uni ''-truecolor'') t \<or> t = uni ''xterm-direct'' then Some ''passthrough''
              else if suffix (uni ''-256color'') t \<or> t = uni ''xterm-256color'' then Some ''256''
              else if t \<in> set (map uni [''xterm'', ''vt100'', ''vt102'', ''vt220'', ''ansi'', ''linux'', ''dumb'']) then Some ''16''
              else None)"

subsection \<open>Subnegotiation payloads\<close>

definition iac_request_option :: "byte \<Rightarrow> byte list" where
  "iac_request_option opt = [IAC, DO, opt]"

definition iac_sb_send :: "byte \<Rightarrow> byte list" where
  "iac_sb_send opt = [IAC, SB, opt, SUB_SEND, IAC, SE]"

definition parse_ttype_is :: "byte list \<Rightarrow> pystr" where
  "parse_ttype_is payload =
     (case payload of
        [] \<Rightarrow> []
      | b # name \<Rightarrow> if b \<noteq> SUB_IS then [] else latin_lower (py_strip name))"

text \<open>The two inner loops of \<open>_parse_new_environ_is\<close>: bytes up to a marker, an escape making the next one literal.\<close>

fun until_marker :: "byte set \<Rightarrow> byte list \<Rightarrow> byte list \<times> byte list" where
  "until_marker stop [] = ([], [])"
| "until_marker stop (b # bs) =
     (if b \<in> stop then ([], b # bs)
      else if b = ENV_ESC \<and> bs \<noteq> [] then
        (let (xs, rest) = until_marker stop (tl bs) in (hd bs # xs, rest))
      else (let (xs, rest) = until_marker stop bs in (b # xs, rest)))"

abbreviation NAME_STOP :: "byte set" where "NAME_STOP \<equiv> {ENV_VALUE, ENV_VAR, ENV_USERVAR}"
abbreviation VALUE_STOP :: "byte set" where "VALUE_STOP \<equiv> {ENV_VAR, ENV_USERVAR}"

lemma until_marker_length: "length (snd (until_marker stop bs)) \<le> length bs"
  by (induction stop bs rule: until_marker.induct) (auto simp: split_beta)

definition env_value :: "byte list \<Rightarrow> byte list \<times> byte list" where
  "env_value r =
     (case r of
        [] \<Rightarrow> ([], [])
      | b # bs \<Rightarrow> if b = ENV_VALUE then until_marker VALUE_STOP bs else ([], b # bs))"

lemma env_value_length: "length (snd (env_value r)) \<le> length r"
  using until_marker_length [of VALUE_STOP "tl r"] by (cases r) (auto simp: env_value_def)

function env_loop :: "byte list \<Rightarrow> (pystr \<times> pystr) list \<Rightarrow> (pystr \<times> pystr) list" where
  "env_loop [] out = out"
| "env_loop (marker # bs) out =
     (if marker \<notin> {ENV_VAR, ENV_USERVAR} then out
      else
        let (name, r1) = until_marker NAME_STOP bs;
            (val, r2) = env_value r1;
            key = py_strip name
        in env_loop r2 (if key \<noteq> [] then od_set out key val else out))"
  by pat_completeness auto
termination
proof (relation "measure (\<lambda>(bs, out). length bs)")
  fix marker bs out x name r1 y val r2 key
  assume "x = until_marker NAME_STOP bs" "(name, r1) = x" "y = env_value r1" "(val, r2) = y"
  then have "length r1 \<le> length bs" "length r2 \<le> length r1"
    using until_marker_length [of NAME_STOP bs] env_value_length [of r1] by (metis snd_conv)+
  then show "((r2, if key \<noteq> [] then od_set out key val else out), marker # bs, out) \<in> measure (\<lambda>(bs, out). length bs)"
    by simp
qed simp

definition parse_new_environ_is :: "byte list \<Rightarrow> (pystr \<times> pystr) list" where
  "parse_new_environ_is payload =
     (case payload of [] \<Rightarrow> [] | b # bs \<Rightarrow> if b \<noteq> SUB_IS then [] else env_loop bs [])"

subsection \<open>The negotiator\<close>

record negotiator =
  ng_term :: pystr
  ng_env :: "(pystr \<times> pystr) list"
  ng_sb_option :: "byte option"
  ng_sb_buf :: "byte list"
  ng_sb_overflow :: bool
  ng_pending :: "byte list"
  ng_ttype_requested :: bool
  ng_new_environ_requested :: bool
  ng_ttype_received :: bool
  ng_new_environ_received :: bool

definition new_negotiator :: negotiator where
  "new_negotiator = \<lparr>ng_term = [], ng_env = [], ng_sb_option = None, ng_sb_buf = [], ng_sb_overflow = False,
     ng_pending = [], ng_ttype_requested = False, ng_new_environ_requested = False, ng_ttype_received = False,
     ng_new_environ_received = False\<rparr>"

definition start_bytes :: "negotiator \<Rightarrow> byte list \<times> negotiator" where
  "start_bytes s = (iac_request_option OPT_TTYPE @ iac_request_option OPT_NEW_ENVIRON,
     s\<lparr>ng_ttype_requested := True, ng_new_environ_requested := True\<rparr>)"

definition append_sb :: "byte \<Rightarrow> negotiator \<Rightarrow> negotiator" where
  "append_sb b s =
     (if MAX_SB_BYTES \<le> length (ng_sb_buf s) then s\<lparr>ng_sb_overflow := True\<rparr>
      else s\<lparr>ng_sb_buf := ng_sb_buf s @ [b]\<rparr>)"

definition finish_sb :: "negotiator \<Rightarrow> negotiator" where
  "finish_sb s =
     (let s1 = s\<lparr>ng_sb_option := None, ng_sb_buf := [], ng_sb_overflow := False\<rparr>
      in if ng_sb_overflow s then s1
         else if ng_sb_option s = Some OPT_TTYPE then s1\<lparr>ng_term := parse_ttype_is (ng_sb_buf s), ng_ttype_received := True\<rparr>
         else if ng_sb_option s = Some OPT_NEW_ENVIRON then
           s1\<lparr>ng_env := parse_new_environ_is (ng_sb_buf s), ng_new_environ_received := True\<rparr>
         else s1)"

definition handle_option :: "byte \<Rightarrow> byte \<Rightarrow> byte list" where
  "handle_option verb opt =
     (if verb = WILL \<and> opt = OPT_TTYPE then iac_sb_send OPT_TTYPE
      else if verb = WILL \<and> opt = OPT_NEW_ENVIRON then iac_sb_send OPT_NEW_ENVIRON
      else [])"

text \<open>The loop of \<open>feed\<close> over what is left of the data, with the reply and the cleaned bytes so far.\<close>

function feed_loop :: "byte list \<Rightarrow> byte list \<Rightarrow> byte list \<Rightarrow> negotiator \<Rightarrow> byte list \<times> byte list \<times> negotiator" where
  "feed_loop [] reply cleaned s = (reply, cleaned, s)"
| "feed_loop (b # ds) reply cleaned s =
     (if ng_sb_option s \<noteq> None then
        (if b = IAC \<and> ds \<noteq> [] \<and> hd ds = SE then feed_loop (tl ds) reply cleaned (finish_sb s)
         else if b = IAC \<and> ds \<noteq> [] \<and> hd ds = IAC then feed_loop (tl ds) reply cleaned (append_sb IAC s)
         else feed_loop ds reply cleaned (append_sb b s))
      else if b \<noteq> IAC then feed_loop ds reply (cleaned @ [b]) s
      else
        (case ds of
           [] \<Rightarrow> (reply, cleaned, s\<lparr>ng_pending := [b]\<rparr>)
         | cmd # r \<Rightarrow>
             if cmd = IAC then feed_loop r reply (cleaned @ [IAC]) s
             else if cmd = SB then
               (case r of
                  [] \<Rightarrow> (reply, cleaned, s\<lparr>ng_pending := [b, cmd]\<rparr>)
                | opt # r' \<Rightarrow>
                    feed_loop r' reply cleaned (s\<lparr>ng_sb_option := Some opt, ng_sb_buf := [], ng_sb_overflow := False\<rparr>))
             else if cmd \<in> {WILL, WONT, DO, DONT} then
               (case r of
                  [] \<Rightarrow> (reply, cleaned, s\<lparr>ng_pending := [b, cmd]\<rparr>)
                | opt # r' \<Rightarrow> feed_loop r' (reply @ handle_option cmd opt) cleaned s)
             else feed_loop r reply cleaned s))"
  by pat_completeness auto
termination by (relation "measure (\<lambda>(ds, r, c, s). length ds)") auto

definition iac_feed :: "byte list \<Rightarrow> negotiator \<Rightarrow> byte list \<times> byte list \<times> negotiator" where
  "iac_feed data s = feed_loop (ng_pending s @ data) [] [] (s\<lparr>ng_pending := []\<rparr>)"

definition iac_done :: "negotiator \<Rightarrow> bool" where
  "iac_done s \<longleftrightarrow> (\<not> ng_ttype_requested s \<or> ng_ttype_received s) \<and>
     (\<not> ng_new_environ_requested s \<or> ng_new_environ_received s)"

definition derived_colormode :: "negotiator \<Rightarrow> string option" where
  "derived_colormode s = derive_colormode (Some (ng_term s)) (ng_env s)"

end
