(* ===== verification/IacProps.thy ===== *)
theory IacProps
  imports IacNegotiate
begin

text \<open>
  The telnet negotiator against a byte-at-a-time automaton in the style of RFC 854: equal on every
  cutting of the stream that does not fall inside the closing \<open>IAC SE\<close> (or an escaped IAC) of a
  subnegotiation, and what goes wrong there; round trips of data, options and subnegotiations; bounds.
\<close>

subsection \<open>The reference automaton\<close>

datatype iac_mode = Ground | SawIac | Verb byte | SbStart | InSb | SbIac

fun iac_step :: "byte \<Rightarrow> iac_mode \<times> negotiator \<Rightarrow> (byte list \<times> byte list) \<times> iac_mode \<times> negotiator" where
  "iac_step b (Ground, s) = (if b = IAC then (([], []), SawIac, s) else (([], [b]), Ground, s))"
| "iac_step b (SawIac, s) =
     (if b = IAC then (([], [IAC]), Ground, s)
      else if b = SB then (([], []), SbStart, s)
      else if b \<in> {WILL, WONT, DO, DONT} then (([], []), Verb b, s)
      else (([], []), Ground, s))"
| "iac_step b (Verb v, s) = ((handle_option v b, []), Ground, s)"
| "iac_step b (SbStart, s) =
     (([], []), InSb, s\<lparr>ng_sb_option := Some b, ng_sb_buf := [], ng_sb_overflow := False\<rparr>)"
| "iac_step b (InSb, s) = (if b = IAC then (([], []), SbIac, s) else (([], []), InSb, append_sb b s))"
| "iac_step b (SbIac, s) =
     (if b = SE then (([], []), Ground, finish_sb s)
      else if b = IAC then (([], []), InSb, append_sb IAC s)
      else (([], []), InSb, append_sb b (append_sb IAC s)))"

fun iac_run :: "byte list \<Rightarrow> iac_mode \<times> negotiator \<Rightarrow> (byte list \<times> byte list) \<times> iac_mode \<times> negotiator" where
  "iac_run [] ms = (([], []), ms)"
| "iac_run (b # bs) ms =
     (let ((r, c), ms1) = iac_step b ms; ((r', c'), ms2) = iac_run bs ms1 in ((r @ r', c @ c'), ms2))"

lemma iac_run_append:
  "iac_run (xs @ ys) ms =
     (let ((r, c), ms1) = iac_run xs ms; ((r', c'), ms2) = iac_run ys ms1 in ((r @ r', c @ c'), ms2))"
  by (induction xs arbitrary: ms) (auto simp: Let_def split: prod.splits)

text \<open>The automaton's mode of a negotiator between two calls, and the bytes it keeps for it.\<close>

definition pending_of :: "iac_mode \<Rightarrow> byte list" where
  "pending_of m = (case m of SawIac \<Rightarrow> [IAC] | Verb v \<Rightarrow> [IAC, v] | SbStart \<Rightarrow> [IAC, SB] | _ \<Rightarrow> [])"

definition mode_fits :: "iac_mode \<Rightarrow> negotiator \<Rightarrow> bool" where
  "mode_fits m s \<longleftrightarrow>
     (m \<in> {InSb, SbIac} \<longleftrightarrow> ng_sb_option s \<noteq> None) \<and> (\<forall>v. m = Verb v \<longrightarrow> v \<in> {WILL, WONT, DO, DONT})"

lemma sb_option_simps [simp]:
  "ng_sb_option (append_sb b s) = ng_sb_option s" "ng_sb_option (finish_sb s) = None"
  "ng_pending (append_sb b s) = ng_pending s" "ng_pending (finish_sb s) = ng_pending s"
  by (auto simp: append_sb_def finish_sb_def Let_def)

lemma bytes_distinct [simp]:
  "IAC \<noteq> SB" "IAC \<noteq> SE" "IAC \<noteq> WILL" "IAC \<noteq> WONT" "IAC \<noteq> DO" "IAC \<noteq> DONT" "SB \<noteq> WILL" "SB \<noteq> WONT" "SB \<noteq> DO" "SB \<noteq> DONT"
  "SB \<noteq> IAC" "SE \<noteq> IAC" "WILL \<noteq> IAC" "WONT \<noteq> IAC" "DO \<noteq> IAC" "DONT \<noteq> IAC" "WILL \<noteq> SB" "WONT \<noteq> SB" "DO \<noteq> SB" "DONT \<noteq> SB"
  by (simp_all add: iac_bytes)

abbreviation start_mode :: "negotiator \<Rightarrow> iac_mode" where
  "start_mode s \<equiv> (if ng_sb_option s = None then Ground else InSb)"

abbreviation kept :: "iac_mode \<Rightarrow> negotiator \<Rightarrow> negotiator" where
  "kept m s \<equiv> (if pending_of m = [] then s else s\<lparr>ng_pending := pending_of m\<rparr>)"

text \<open>One turn of the loop does what the automaton does over the bytes it takes.\<close>

definition turn :: "byte list \<Rightarrow> byte list \<Rightarrow> byte list \<Rightarrow> negotiator \<Rightarrow> byte list \<times> byte list \<Rightarrow> iac_mode \<Rightarrow> negotiator \<Rightarrow> bool" where
  "turn ds reply cleaned s out m s' \<longleftrightarrow>
     feed_loop ds reply cleaned s = (reply @ fst out, cleaned @ snd out, kept m s') \<or>
     (\<exists>ds' t r1 c1. length ds' < length ds \<and>
        feed_loop ds reply cleaned s = feed_loop ds' (reply @ r1) (cleaned @ c1) t \<and>
        snd (iac_run ds' (start_mode t, t)) = (m, s') \<and>
        out = (r1 @ fst (fst (iac_run ds' (start_mode t, t))), c1 @ snd (fst (iac_run ds' (start_mode t, t)))))"

lemma turn_goesI:
  assumes "length ds' < length ds" "feed_loop ds reply cleaned s = feed_loop ds' (reply @ r1) (cleaned @ c1) t"
    and "snd (iac_run ds' (start_mode t, t)) = (m, s')"
    and "out = (r1 @ fst (fst (iac_run ds' (start_mode t, t))), c1 @ snd (fst (iac_run ds' (start_mode t, t))))"
  shows "turn ds reply cleaned s out m s'"
  using assms unfolding turn_def by blast

lemma turn_sb:
  assumes "ng_sb_option s \<noteq> None" "iac_run (b # bs) (InSb, s) = (out, m, s')" "m \<noteq> SbIac"
  shows "turn (b # bs) reply cleaned s out m s'"
proof (cases "b = IAC \<and> bs \<noteq> []")
  case False
  then have "b \<noteq> IAC" using assms by auto
  then show ?thesis
    using assms by (intro turn_goesI [where ds' = bs and t = "append_sb b s" and ?r1.0 = "[]" and ?c1.0 = "[]"])
      (auto split: prod.splits)
next
  case True
  then obtain d r where d: "bs = d # r" by (cases bs) auto
  consider "d = SE" | "d = IAC" | "d \<noteq> SE" "d \<noteq> IAC" by blast
  then show ?thesis
  proof cases
    case 1
    then show ?thesis
      using assms True d by (intro turn_goesI [where ds' = r and t = "finish_sb s" and ?r1.0 = "[]" and ?c1.0 = "[]"])
        (auto split: prod.splits)
  next
    case 2
    then show ?thesis
      using assms True d by (intro turn_goesI [where ds' = r and t = "append_sb IAC s" and ?r1.0 = "[]" and ?c1.0 = "[]"])
        (auto split: prod.splits)
  next
    case 3
    then show ?thesis
      using assms True d by (intro turn_goesI [where ds' = bs and t = "append_sb b s" and ?r1.0 = "[]" and ?c1.0 = "[]"])
        (auto split: prod.splits)
  qed
qed

lemma turn_command:
  assumes "ng_sb_option s = None" "iac_run (IAC # cmd # r) (Ground, s) = (out, m, s')" "cmd \<in> {SB, WILL, WONT, DO, DONT}"
  shows "turn (IAC # cmd # r) reply cleaned s out m s'"
proof (cases r)
  case Nil
  then show ?thesis using assms by (auto simp: turn_def pending_of_def)
next
  case (Cons opt r2)
  let ?s = "s\<lparr>ng_sb_option := Some opt, ng_sb_buf := [], ng_sb_overflow := False\<rparr>"
  show ?thesis
  proof (cases "cmd = SB")
    case True
    then show ?thesis
      using assms Cons by (intro turn_goesI [where ds' = r2 and t = ?s and ?r1.0 = "[]" and ?c1.0 = "[]"])
        (auto split: prod.splits)
  next
    case False
    then have "cmd \<noteq> IAC" "cmd \<in> {WILL, WONT, DO, DONT}" using assms(3) by auto
    then show ?thesis
      using assms Cons False
      by (intro turn_goesI [where ds' = r2 and t = s and ?r1.0 = "handle_option cmd opt" and ?c1.0 = "[]"])
        (auto split: prod.splits)
  qed
qed

lemma turn_ground:
  assumes "ng_sb_option s = None" "iac_run (b # bs) (Ground, s) = (out, m, s')"
  shows "turn (b # bs) reply cleaned s out m s'"
proof (cases "b = IAC")
  case False
  then show ?thesis
    using assms by (intro turn_goesI [where ds' = bs and t = s and ?r1.0 = "[]" and ?c1.0 = "[b]"])
      (auto split: prod.splits)
next
  case True
  show ?thesis
  proof (cases bs)
    case Nil
    then show ?thesis using assms True by (auto simp: turn_def pending_of_def)
  next
    case (Cons cmd r)
    consider "cmd = IAC" | "cmd \<in> {SB, WILL, WONT, DO, DONT}" | "cmd \<notin> {IAC, SB, WILL, WONT, DO, DONT}" by auto
    then show ?thesis
    proof cases
      case 2
      then show ?thesis using turn_command assms True Cons by simp
    next
      case 1
      then show ?thesis
        using assms True Cons by (intro turn_goesI [where ds' = r and t = s and ?r1.0 = "[]" and ?c1.0 = "[IAC]"])
          (auto split: prod.splits)
    next
      case 3
      then show ?thesis
        using assms True Cons by (intro turn_goesI [where ds' = r and t = s and ?r1.0 = "[]" and ?c1.0 = "[]"])
          (auto split: prod.splits)
    qed
  qed
qed

lemma feed_loop_run:
  assumes "iac_run ds (start_mode s, s) = ((r, c), m, s')" "m \<noteq> SbIac"
  shows "feed_loop ds reply cleaned s = (reply @ r, cleaned @ c, kept m s')"
  using assms
proof (induction "length ds" arbitrary: ds reply cleaned s r c rule: less_induct)
  case less
  show ?case
  proof (cases ds)
    case Nil
    then show ?thesis using less.prems by (auto simp: pending_of_def split: if_splits)
  next
    case (Cons b bs)
    have "turn ds reply cleaned s (r, c) m s'"
      using less.prems turn_sb [of s b bs "(r, c)" m s'] turn_ground [of s b bs "(r, c)" m s'] Cons by (auto split: if_splits)
    then show ?thesis
    proof (unfold turn_def, elim disjE exE conjE)
      fix ds' t r1 c1
      assume t: "length ds' < length ds" "feed_loop ds reply cleaned s = feed_loop ds' (reply @ r1) (cleaned @ c1) t"
        "snd (iac_run ds' (start_mode t, t)) = (m, s')"
        "(r, c) = (r1 @ fst (fst (iac_run ds' (start_mode t, t))), c1 @ snd (fst (iac_run ds' (start_mode t, t))))"
      then show ?thesis
        using less.hyps [OF t(1) _ less.prems(2)] by (cases "iac_run ds' (start_mode t, t)") auto
    qed simp
  qed
qed

subsection \<open>Calls of \<open>iac_feed\<close>\<close>

fun feed_all :: "byte list list \<Rightarrow> negotiator \<Rightarrow> (byte list \<times> byte list) \<times> negotiator" where
  "feed_all [] s = (([], []), s)"
| "feed_all (ch # chs) s =
     (let (r, c, s1) = iac_feed ch s; ((r', c'), s2) = feed_all chs s1 in ((r @ r', c @ c'), s2))"

text \<open>No call ends between an IAC and what follows it inside a subnegotiation.\<close>

fun uncut :: "byte list list \<Rightarrow> iac_mode \<times> negotiator \<Rightarrow> bool" where
  "uncut [] ms = True"
| "uncut (ch # chs) ms = (fst (snd (iac_run ch ms)) \<noteq> SbIac \<and> uncut chs (snd (iac_run ch ms)))"

lemma step_fits:
  "mode_fits m s \<Longrightarrow> iac_step b (m, s) = (out, m', s') \<Longrightarrow> mode_fits m' s' \<and> ng_pending s' = ng_pending s"
  by (cases m) (auto simp: mode_fits_def split: if_splits)

lemma run_fits:
  "mode_fits m s \<Longrightarrow> iac_run bs (m, s) = (out, m', s') \<Longrightarrow> mode_fits m' s' \<and> ng_pending s' = ng_pending s"
proof (induction bs arbitrary: m s out)
  case (Cons b bs)
  obtain o1 m1 s1 where st: "iac_step b (m, s) = (o1, m1, s1)" by (metis prod_cases3)
  obtain o2 where "iac_run bs (m1, s1) = (o2, m', s')" using Cons.prems(2) st by (auto split: prod.splits)
  with Cons.IH step_fits [OF Cons.prems(1) st] show ?case by metis
qed simp

lemma pending_run:
  assumes "mode_fits m s" "m \<noteq> SbIac"
  shows "iac_run (pending_of m) (start_mode s, s) = (([], []), m, s)"
  using assms by (cases m) (auto simp: mode_fits_def pending_of_def)

lemma feed_step:
  assumes "mode_fits m s" "m \<noteq> SbIac" "ng_pending s = []" "iac_run data (m, s) = ((r, c), m', s')" "m' \<noteq> SbIac"
  shows "iac_feed data (kept m s) = (r, c, kept m' s')"
proof -
  have k: "ng_pending (kept m s) = pending_of m" "(kept m s)\<lparr>ng_pending := []\<rparr> = s"
    using assms(3) by (auto simp: pending_of_def)
  have "iac_run (pending_of m @ data) (start_mode s, s) = ((r, c), m', s')"
    using pending_run [OF assms(1,2)] assms(4) by (simp add: iac_run_append)
  from feed_loop_run [OF this assms(5)] show ?thesis unfolding iac_feed_def k by simp
qed

lemma feed_all_run:
  assumes "mode_fits m s" "m \<noteq> SbIac" "ng_pending s = []" "uncut chs (m, s)"
  shows "feed_all chs (kept m s) =
    (case iac_run (concat chs) (m, s) of (out, m', s') \<Rightarrow> (out, kept m' s'))"
  using assms
proof (induction chs arbitrary: m s)
  case (Cons ch chs)
  obtain r c m1 s1 where run: "iac_run ch (m, s) = ((r, c), m1, s1)" by (metis prod_cases4 prod.collapse)
  then have m1: "m1 \<noteq> SbIac" "uncut chs (m1, s1)" using Cons.prems(4) by auto
  note fits = run_fits [OF Cons.prems(1) run]
  have "feed_all chs (kept m1 s1) = (case iac_run (concat chs) (m1, s1) of (out, m', s') \<Rightarrow> (out, kept m' s'))"
    using Cons.IH [of m1 s1] fits m1 Cons.prems(3) by simp
  then show ?case
    using feed_step [OF Cons.prems(1-3) run m1(1)]
    by (simp add: iac_run_append run split: prod.splits)
qed simp

subsection \<open>Encodings\<close>

datatype telnet_item = TnData "byte list" | TnOption byte byte | TnSub byte "byte list"

definition escape_iac :: "byte list \<Rightarrow> byte list" where
  "escape_iac bs = concat (map (\<lambda>b. if b = IAC then [IAC, IAC] else [b]) bs)"

fun encode_item :: "telnet_item \<Rightarrow> byte list" where
  "encode_item (TnData bs) = escape_iac bs"
| "encode_item (TnOption v opt) = [IAC, v, opt]"
| "encode_item (TnSub opt p) = [IAC, SB, opt] @ escape_iac p @ [IAC, SE]"

fun item_ok :: "telnet_item \<Rightarrow> bool" where
  "item_ok (TnData bs) = True"
| "item_ok (TnOption v opt) = (v \<in> {WILL, WONT, DO, DONT})"
| "item_ok (TnSub opt p) = (length p \<le> MAX_SB_BYTES)"

fun item_out :: "telnet_item \<Rightarrow> byte list \<times> byte list" where
  "item_out (TnData bs) = ([], bs)"
| "item_out (TnOption v opt) = (handle_option v opt, [])"
| "item_out (TnSub opt p) = ([], [])"

text \<open>The hints a subnegotiation leaves.\<close>

fun item_hints :: "telnet_item \<Rightarrow> negotiator \<Rightarrow> negotiator" where
  "item_hints (TnSub opt p) s =
     (if opt = OPT_TTYPE then s\<lparr>ng_term := parse_ttype_is p, ng_ttype_received := True\<rparr>
      else if opt = OPT_NEW_ENVIRON then s\<lparr>ng_env := parse_new_environ_is p, ng_new_environ_received := True\<rparr>
      else s)"
| "item_hints _ s = s"

definition idle :: "negotiator \<Rightarrow> bool" where
  "idle s \<longleftrightarrow> ng_sb_option s = None \<and> ng_sb_buf s = [] \<and> \<not> ng_sb_overflow s \<and> ng_pending s = []"

lemma escape_iac_simps [simp]:
  "escape_iac [] = []" "escape_iac (b # bs) = (if b = IAC then [IAC, IAC] else [b]) @ escape_iac bs"
  by (simp_all add: escape_iac_def)

lemma run_data: "iac_run (escape_iac bs) (Ground, s) = (([], bs), Ground, s)"
  by (induction bs) auto

lemma run_payload: "iac_run (escape_iac bs) (InSb, s) = (([], []), InSb, fold append_sb bs s)"
  by (induction bs arbitrary: s) (auto split: prod.splits)

lemma fold_append_sb:
  "length (ng_sb_buf s) + length bs \<le> MAX_SB_BYTES \<Longrightarrow> fold append_sb bs s = s\<lparr>ng_sb_buf := ng_sb_buf s @ bs\<rparr>"
  by (induction bs arbitrary: s) (auto simp: append_sb_def)

lemma run_item:
  assumes "item_ok x" "idle s"
  shows "iac_run (encode_item x) (Ground, s) = (item_out x, Ground, item_hints x s)" "idle (item_hints x s)"
proof -
  show "iac_run (encode_item x) (Ground, s) = (item_out x, Ground, item_hints x s)"
  proof (cases x)
    case (TnSub opt p)
    let ?s = "s\<lparr>ng_sb_option := Some opt, ng_sb_buf := [], ng_sb_overflow := False\<rparr>"
    have "fold append_sb p ?s = ?s\<lparr>ng_sb_buf := p\<rparr>"
      using fold_append_sb [of ?s p] assms(1) TnSub by simp
    then show ?thesis
      using TnSub assms(2)
      by (simp add: iac_run_append run_payload finish_sb_def Let_def idle_def)
  qed (use assms(1) in \<open>auto simp: run_data\<close>)
  show "idle (item_hints x s)" using assms(2) by (cases x) (auto simp: idle_def)
qed

lemma run_items:
  assumes "list_all item_ok xs" "idle s"
  shows "iac_run (concat (map encode_item xs)) (Ground, s) =
    ((concat (map (fst \<circ> item_out) xs), concat (map (snd \<circ> item_out) xs)), Ground, fold item_hints xs s)"
  using assms
proof (induction xs arbitrary: s)
  case (Cons x xs)
  then have x: "item_ok x" "list_all item_ok xs" by auto
  note r = run_item [OF x(1) Cons.prems(2)]
  show ?case using Cons.IH [OF x(2) r(2)] r(1) by (cases "item_out x") (simp add: iac_run_append)
qed simp

text \<open>The environment as a client encodes it (RFC 1572), markers escaped.\<close>

definition escape_env :: "byte list \<Rightarrow> byte list" where
  "escape_env bs = concat (map (\<lambda>b. if b \<in> {ENV_VAR, ENV_VALUE, ENV_ESC, ENV_USERVAR} then [ENV_ESC, b] else [b]) bs)"

definition encode_env :: "(pystr \<times> pystr) list \<Rightarrow> byte list" where
  "encode_env env = concat (map (\<lambda>(k, v). ENV_VAR # escape_env k @ ENV_VALUE # escape_env v) env)"

lemma escape_env_simps [simp]:
  "escape_env [] = []"
  "escape_env (b # bs) = (if b \<in> {ENV_VAR, ENV_VALUE, ENV_ESC, ENV_USERVAR} then [ENV_ESC, b] else [b]) @ escape_env bs"
  by (simp_all add: escape_env_def)

lemma until_marker_escaped:
  assumes "rest = [] \<or> hd rest \<in> stop" "stop \<subseteq> {ENV_VAR, ENV_VALUE, ENV_USERVAR}"
  shows "until_marker stop (escape_env bs @ rest) = (bs, rest)"
proof (induction bs)
  case Nil
  then show ?case using assms(1) by (cases rest) auto
next
  case (Cons b bs)
  have e: "ENV_ESC \<notin> stop" using assms(2) by (auto simp: iac_bytes)
  have "b \<notin> stop" if "b \<notin> {ENV_VAR, ENV_VALUE, ENV_ESC, ENV_USERVAR}" using that assms(2) by auto
  then show ?case using Cons e by (auto simp: Let_def)
qed

lemma encode_env_head: "encode_env env = [] \<or> hd (encode_env env) = ENV_VAR"
  by (cases env) (auto simp: encode_env_def)

lemma od_set_new: "k \<notin> fst ` set d \<Longrightarrow> od_set d k v = d @ [(k, v)]"
  by (induction d k v rule: od_set.induct) auto

lemma env_loop_encoded:
  assumes "od_ok (out @ env)" "\<And>k v. (k, v) \<in> set env \<Longrightarrow> k \<noteq> [] \<and> py_strip k = k"
  shows "env_loop (encode_env env) out = out @ env"
  using assms
proof (induction env arbitrary: out)
  case Nil
  then show ?case by (simp add: encode_env_def)
next
  case (Cons kv env)
  obtain k v where kv: "kv = (k, v)" by (cases kv)
  have enc: "encode_env (kv # env) = ENV_VAR # escape_env k @ ENV_VALUE # escape_env v @ encode_env env"
    by (simp add: encode_env_def kv)
  have n: "until_marker NAME_STOP (escape_env k @ ENV_VALUE # escape_env v @ encode_env env) =
      (k, ENV_VALUE # escape_env v @ encode_env env)"
    by (rule until_marker_escaped) auto
  have "until_marker VALUE_STOP (escape_env v @ encode_env env) = (v, encode_env env)"
    by (rule until_marker_escaped) (use encode_env_head in auto)
  then have "env_value (ENV_VALUE # escape_env v @ encode_env env) = (v, encode_env env)"
    by (simp add: env_value_def)
  moreover have "k \<noteq> [] \<and> py_strip k = k" by (rule Cons.prems(2) [of k v]) (simp add: kv)
  moreover have "od_set out k v = out @ [(k, v)]" using Cons.prems(1) kv by (intro od_set_new) auto
  moreover have "env_loop (encode_env env) (out @ [(k, v)]) = (out @ [(k, v)]) @ env"
    using Cons.IH [of "out @ [(k, v)]"] Cons.prems kv by auto
  ultimately show ?case unfolding enc by (simp add: n Let_def kv)
qed

text \<open>Bytes without an IAC inside a subnegotiation go to its buffer, and nothing else happens.\<close>

lemma run_swallow:
  assumes "IAC \<notin> set bs"
  shows "iac_run bs (InSb, s) = (([], []), InSb, fold append_sb bs s)"
  using assms by (induction bs arbitrary: s) (auto split: prod.splits)

lemma loop_swallow:
  assumes "IAC \<notin> set bs" "ng_sb_option s \<noteq> None"
  shows "feed_loop bs reply cleaned s = (reply, cleaned, fold append_sb bs s)"
    and "feed_loop (bs @ [IAC]) reply cleaned s = (reply, cleaned, append_sb IAC (fold append_sb bs s))"
  using assms by (induction bs arbitrary: s) auto

lemma fold_append_simps [simp]:
  "ng_sb_option (fold append_sb bs s) = ng_sb_option s" "ng_pending (fold append_sb bs s) = ng_pending s"
  "ng_term (append_sb b s) = ng_term s" "ng_term (fold append_sb bs s) = ng_term s"
proof -
  show t: "ng_term (append_sb b s) = ng_term s" for b s by (simp add: append_sb_def)
  show "ng_sb_option (fold append_sb bs s) = ng_sb_option s" "ng_pending (fold append_sb bs s) = ng_pending s"
    "ng_term (fold append_sb bs s) = ng_term s"
    by (induction bs arbitrary: s) (simp_all add: t)
qed

lemma escape_plain: "IAC \<notin> set bs \<Longrightarrow> escape_iac bs = bs"
  by (induction bs) auto

lemma split_swallows:
  assumes "IAC \<notin> set name" "IAC \<notin> set typed"
  shows "\<exists>s. feed_all [IAC # SB # OPT_TTYPE # SUB_IS # name @ [IAC], SE # typed] new_negotiator = (([], []), s) \<and> ng_term s = []"
proof -
  let ?s0 = "new_negotiator\<lparr>ng_sb_option := Some OPT_TTYPE, ng_sb_buf := [], ng_sb_overflow := False\<rparr>"
  let ?s1 = "append_sb IAC (fold append_sb (SUB_IS # name) ?s0)"
  let ?s2 = "fold append_sb (SE # typed) ?s1"
  have "iac_feed (IAC # SB # OPT_TTYPE # SUB_IS # name @ [IAC]) new_negotiator = feed_loop ((SUB_IS # name) @ [IAC]) [] [] ?s0"
    by (simp add: iac_feed_def new_negotiator_def)
  also have "\<dots> = ([], [], ?s1)" by (rule loop_swallow) (use assms in \<open>auto simp: iac_bytes\<close>)
  finally have 1: "iac_feed (IAC # SB # OPT_TTYPE # SUB_IS # name @ [IAC]) new_negotiator = ([], [], ?s1)" .
  have p: "ng_pending ?s1 = []" by (simp add: new_negotiator_def)
  then have "?s1\<lparr>ng_pending := []\<rparr> = ?s1" by simp
  then have "iac_feed (SE # typed) ?s1 = feed_loop (SE # typed) [] [] ?s1" unfolding iac_feed_def p by simp
  also have "\<dots> = ([], [], ?s2)" by (rule loop_swallow) (use assms in \<open>auto simp: iac_bytes\<close>)
  finally have 2: "iac_feed (SE # typed) ?s1 = ([], [], ?s2)" .
  have "ng_term ?s2 = []" by (simp add: new_negotiator_def)
  then show ?thesis using 1 2 by simp
qed

lemma whole_understood:
  assumes "IAC \<notin> set name" "IAC \<notin> set typed" "length name < MAX_SB_BYTES"
  shows "\<exists>s. feed_all [IAC # SB # OPT_TTYPE # SUB_IS # name @ IAC # SE # typed] new_negotiator = (([], typed), s) \<and>
    ng_term s = latin_lower (py_strip name)"
proof -
  let ?xs = "[TnSub OPT_TTYPE (SUB_IS # name), TnData typed]"
  have ok: "list_all item_ok ?xs" using assms(3) by simp
  have enc: "concat (map encode_item ?xs) = IAC # SB # OPT_TTYPE # SUB_IS # name @ IAC # SE # typed"
    using escape_plain [OF assms(1)] escape_plain [OF assms(2)] by (simp add: iac_bytes)
  have i: "idle new_negotiator" by (simp add: idle_def new_negotiator_def)
  note r = run_items [OF ok i, unfolded enc]
  have "feed_all [IAC # SB # OPT_TTYPE # SUB_IS # name @ IAC # SE # typed] new_negotiator =
      (([], typed), fold item_hints ?xs new_negotiator)"
    using feed_all_run [of Ground new_negotiator "[IAC # SB # OPT_TTYPE # SUB_IS # name @ IAC # SE # typed]"] r i
    by (simp add: mode_fits_def idle_def pending_of_def del: iac_run.simps)
  then show ?thesis by (simp add: parse_ttype_is_def)
qed

subsection \<open>Properties\<close>

text \<open>C32: The negotiator is the byte-at-a-time telnet automaton: however the client's stream is cut into
  reads, the replies, the application bytes and the state are those of the automaton on the whole
  stream, as long as no read ends right behind an IAC inside a subnegotiation.\<close>

theorem iac_feed_refines:
  assumes "idle s" "uncut chs (Ground, s)"
  shows "feed_all chs s = (case iac_run (concat chs) (Ground, s) of (out, m', s') \<Rightarrow> (out, kept m' s'))"
  using feed_all_run [of Ground s chs] assms by (auto simp: mode_fits_def idle_def pending_of_def)

lemma idle_new [simp]: "idle new_negotiator" "idle (snd (start_bytes new_negotiator))"
  by (simp_all add: idle_def new_negotiator_def start_bytes_def)

lemma demo_uncut: "uncut [[108, IAC], [WILL], [OPT_TTYPE, 115]] (Ground, new_negotiator)"
  by (simp add: iac_bytes)

theorem iac_feed_refines_witness:
  "fst (feed_all [[108, IAC], [WILL], [OPT_TTYPE, 115]] new_negotiator) = (iac_sb_send OPT_TTYPE, [108, 115])"
  using iac_feed_refines [OF idle_new(1) demo_uncut] by (simp add: iac_bytes handle_option_def iac_sb_send_def)

text \<open>A well-formed telnet session is understood: of a stream of escaped data, options and bounded
  subnegotiations, cut anywhere but inside the close of a subnegotiation, the application gets the
  data, the client the answers to its options, and the terminal type and environment are those of
  the last subnegotiation of each kind.\<close>

theorem iac_roundtrip:
  assumes "list_all item_ok xs" "idle s" "concat chs = concat (map encode_item xs)" "uncut chs (Ground, s)"
  shows "feed_all chs s =
    ((concat (map (fst \<circ> item_out) xs), concat (map (snd \<circ> item_out) xs)), fold item_hints xs s)"
  using feed_all_run [of Ground s chs] assms(2-4) run_items [OF assms(1,2)]
  by (auto simp: mode_fits_def idle_def pending_of_def)

text \<open>The witness: data with an IAC in it, an option, and a terminal type cut in two.\<close>

lemma demo_roundtrip_uncut:
  "uncut [[IAC, IAC, 65, IAC, SB, OPT_TTYPE, SUB_IS, 120], [IAC, SE]] (Ground, new_negotiator)"
  by (simp add: iac_bytes append_sb_def MAX_SB_BYTES_def new_negotiator_def)

theorem iac_roundtrip_witness:
  "\<exists>s. feed_all [[IAC, IAC, 65, IAC, SB, OPT_TTYPE, SUB_IS, 120], [IAC, SE]] new_negotiator = (([], [IAC, 65]), s) \<and> ng_term s = [120]"
proof -
  have "feed_all [[IAC, IAC, 65, IAC, SB, OPT_TTYPE, SUB_IS, 120], [IAC, SE]] new_negotiator =
      ((concat (map (fst \<circ> item_out) [TnData [IAC, 65], TnSub OPT_TTYPE [SUB_IS, 120]]),
        concat (map (snd \<circ> item_out) [TnData [IAC, 65], TnSub OPT_TTYPE [SUB_IS, 120]])),
       fold item_hints [TnData [IAC, 65], TnSub OPT_TTYPE [SUB_IS, 120]] new_negotiator)"
    by (rule iac_roundtrip [OF _ idle_new(1) _ demo_roundtrip_uncut]) (simp_all add: MAX_SB_BYTES_def iac_bytes)
  then show ?thesis
    by (simp add: parse_ttype_is_def py_strip_def py_space_def latin_lower_def)
qed

text \<open>What a client sends of its environment is read back: parsing the encoding of variables with
  distinct, non-empty and trimmed names gives the variables, whatever bytes their values have.\<close>

theorem new_environ_roundtrip:
  assumes "od_ok env" "\<And>k v. (k, v) \<in> set env \<Longrightarrow> k \<noteq> [] \<and> py_strip k = k"
  shows "parse_new_environ_is (SUB_IS # encode_env env) = env"
  using env_loop_encoded [of "[]" env] assms by (simp add: parse_new_environ_is_def)

theorem new_environ_roundtrip_witness:
  "parse_new_environ_is (SUB_IS # encode_env [([84], [120, 1, 2]), ([67], [])]) = [([84], [120, 1, 2]), ([67], [])]"
  by (rule new_environ_roundtrip) (auto simp: py_strip_def py_space_def)

text \<open>A subnegotiation whose closing IAC SE is split between two reads never ends: the terminal type is
  not taken, and everything the user types afterwards is swallowed, although the same bytes in one
  read give both.\<close>

theorem iac_split_close:
  assumes "IAC \<notin> set name" "IAC \<notin> set typed" "length name < MAX_SB_BYTES"
  shows "(let hello = IAC # SB # OPT_TTYPE # SUB_IS # name in
    (\<exists>s. feed_all [hello @ [IAC], SE # typed] new_negotiator = (([], []), s) \<and> ng_term s = []) \<and>
    (\<exists>s. feed_all [hello @ IAC # SE # typed] new_negotiator = (([], typed), s) \<and> ng_term s = latin_lower (py_strip name)))"
  using split_swallows [OF assms(1,2)] whole_understood [OF assms] by (simp add: Let_def)

theorem iac_split_close_witness:
  "\<exists>s. feed_all [[IAC, SB, OPT_TTYPE, SUB_IS, 120, IAC], [SE, 108, 115]] new_negotiator = (([], []), s) \<and> ng_term s = []"
  using iac_split_close [of "[120]" "[108, 115]"] by (simp add: Let_def iac_bytes MAX_SB_BYTES_def)

definition small :: "negotiator \<Rightarrow> bool" where
  "small s \<longleftrightarrow> length (ng_sb_buf s) \<le> MAX_SB_BYTES \<and> length (ng_pending s) \<le> 2"

lemma small_simps:
  "small s \<Longrightarrow> small (append_sb b s)" "small s \<Longrightarrow> small (finish_sb s)"
  "small s \<Longrightarrow> small (s\<lparr>ng_sb_option := Some b, ng_sb_buf := [], ng_sb_overflow := False\<rparr>)"
  "small s \<Longrightarrow> small (s\<lparr>ng_pending := [b]\<rparr>)" "small s \<Longrightarrow> small (s\<lparr>ng_pending := [b, c]\<rparr>)"
  by (auto simp: small_def append_sb_def finish_sb_def Let_def)

lemma small_loop: "small s \<Longrightarrow> small (snd (snd (feed_loop ds reply cleaned s)))"
proof (induction "length ds" arbitrary: ds reply cleaned s rule: less_induct)
  case less
  show ?case
  proof (cases ds)
    case (Cons b bs)
    have IH: "small (snd (snd (feed_loop ds' reply' cleaned' t)))" if "length ds' \<le> length bs" "small t" for ds' reply' cleaned' t
      using less.hyps [of ds' t] that Cons by simp
    show ?thesis
      unfolding Cons feed_loop.simps(2)
      using less.prems by (auto simp: small_simps simp del: feed_loop.simps intro!: IH split: list.split)
  qed (use less.prems in simp)
qed

text \<open>A hostile client cannot grow the negotiator: after any reads the subnegotiation buffer holds at most
  4096 bytes and at most two bytes are carried over.\<close>

theorem iac_bounded:
  "length (ng_sb_buf (snd (feed_all chs new_negotiator))) \<le> MAX_SB_BYTES \<and>
   length (ng_pending (snd (feed_all chs new_negotiator))) \<le> 2"
proof -
  have "small (snd (feed_all chs s))" if "small s" for s
    using that
  proof (induction chs arbitrary: s)
    case (Cons ch chs)
    have "small (snd (snd (iac_feed ch s)))"
      unfolding iac_feed_def by (rule small_loop) (use Cons.prems in \<open>simp add: small_def\<close>)
    then show ?case using Cons.IH by (simp add: split_beta)
  qed simp
  moreover have "small new_negotiator" by (simp add: small_def new_negotiator_def)
  ultimately show ?thesis unfolding small_def by blast
qed

end
