(* ===== verification/HubSockets.thy ===== *)
theory HubSockets
  imports HubRuns
begin

text \<open>
  Who puts a browser socket under a worker: \<open>register_browser\<close>, and nothing else the hub does. Every
  other step of the hub leaves each worker with browsers it already had.
\<close>

definition sockets :: "hub \<Rightarrow> string \<Rightarrow> sock set" where
  "sockets h wid = (case find_worker h wid of None \<Rightarrow> {} | Some st \<Rightarrow> fst ` set (browsers st))"

definition fewer :: "hub \<Rightarrow> hub \<Rightarrow> bool" where
  "fewer h h' \<longleftrightarrow> (\<forall>wid. sockets h' wid \<subseteq> sockets h wid)"

named_theorems fewer_rules \<open>operations that add no browser\<close>

lemma fewer_refl [simp, fewer_rules]: "fewer h h"
  by (simp add: fewer_def)

lemma fewer_trans: "fewer a b \<Longrightarrow> fewer b c \<Longrightarrow> fewer a c"
  by (auto simp: fewer_def)

lemma fewer_workers: "workers h' = workers h \<Longrightarrow> fewer h h'"
  by (simp add: fewer_def sockets_def find_worker_def)

lemma fewer_put:
  "find_worker h wid = Some st \<Longrightarrow> fst ` set (browsers st') \<subseteq> fst ` set (browsers st) \<Longrightarrow> fewer h (put_worker h wid st')"
  by (auto simp: fewer_def sockets_def)

lemma fewer_put_eq:
  "find_worker h wid = Some st \<Longrightarrow> browsers st' = browsers st \<Longrightarrow> fewer h (put_worker h wid st')"
  by (erule fewer_put) simp

lemma fewer_same:
  "same_worker h wid i = Some st \<Longrightarrow> browsers st' = browsers st \<Longrightarrow> fewer h (put_worker h wid st')"
  by (auto simp: same_worker_Some intro: fewer_put_eq)

lemma browsers_renew [simp]: "browsers (renew_dashboard h st now) = browsers st"
  by (simp add: renew_dashboard_def)

lemma browsers_push [simp]: "browsers (push_event st e) = browsers st"
  by (simp add: push_event_def Let_def)

lemma browsers_clear [simp]: "browsers (clear_worker st) = browsers st"
  by (simp add: clear_worker_def)

lemma browsers_apply_lease [simp]: "browsers (apply_lease lz st) = browsers st"
  by (simp add: apply_lease_def)

subsection \<open>Outside the fence\<close>

lemma fewer_lease_ops [fewer_rules]:
  "fewer h (touch_activity h wid t)"
  "fewer h (snd (touch_if_owner h wid ws t))"
  "fewer h (snd (touch_owner h wid l t))"
  "fewer h (snd (extend_lease h wid hid ow n t))"
  "fewer h (snd (prepare_browser_input h wid ws t))"
  "fewer h (snd (capture_browser_ownership h wid ws t))"
  "fewer h (snd (capture_dashboard_ownership h wid ws t))"
  "fewer h (send_worker_failed h wid ws)"
  by (auto simp: touch_activity_def touch_if_owner_def touch_owner_def extend_lease_def prepare_browser_input_def
      capture_browser_ownership_def capture_dashboard_ownership_def send_worker_failed_def Let_def
      intro!: fewer_put_eq split: option.splits)

lemma fewer_conn_ops [fewer_rules]:
  "fewer h (snd (set_worker_hello h wid mode pv t))"
  "fewer h (update_last_snapshot h wid sn)"
  "fewer h (snd (router_set_input_mode h wid mode t))"
  "fewer h (snd (append_event h red wid ty d t))"
  "fewer h (snd (commit_snapshot_event h red pid wid sn ex t))"
  by (auto simp: set_worker_hello_def update_last_snapshot_def router_set_input_mode_def append_event_def
      commit_snapshot_event_def Let_def intro!: fewer_put_eq split: option.splits)

lemma fewer_set_role [fewer_rules]: "fewer h (set_browser_role h wid ws role)"
proof (cases "find_worker h wid")
  case (Some st)
  have "fst ` set (od_set (browsers st) ws role) \<subseteq> fst ` set (browsers st)" if "ws \<in> fst ` set (browsers st)"
    using that by (simp add: insert_absorb)
  with Some show ?thesis by (simp add: set_browser_role_def fewer_put [OF Some])
qed (simp add: set_browser_role_def)

lemma fewer_quiet: "quiet h h' \<Longrightarrow> fewer h h'"
  by (rule fewer_workers) (simp add: quiet_def)

lemma fewer_atomic: "fewer h (run_atomic oper h now)"
  by (cases oper) (simp_all add: fewer_rules fewer_quiet)

subsection \<open>Under the fence\<close>

lemma fewer_acquire_ops [fewer_rules]:
  "fewer h (snd (acquire_rest_reserve h wid i hid t))"
  "fewer h (acquire_rest_pause_failed h wid i ws)"
  "fewer h (snd (acquire_rest_finalise h wid i ws hid ow l t))"
  "fewer h (acquire_rest_rollback h wid i hid)"
  "fewer h (snd (acquire_ws_fenced h wid i ws t))"
  "fewer h (snd (reclaim_fenced h wid i ws t))"
  by (auto simp: acquire_rest_reserve_def acquire_rest_pause_failed_def acquire_rest_finalise_def
      acquire_rest_rollback_def acquire_ws_fenced_def reclaim_fenced_def intro!: fewer_same split: option.splits)

lemma fewer_release_ops [fewer_rules]:
  "fewer h (snd (expire_leases_fenced h wid i t))"
  "fewer h (snd (release_ws_fenced h wid i ws t))"
  "fewer h (snd (release_rest_fenced h wid i hid t))"
  "fewer h (snd (force_release_fenced h wid i t))"
  by (auto simp: expire_leases_fenced_def release_ws_fenced_def release_rest_fenced_def force_release_fenced_def Let_def
      same_worker_Some intro!: fewer_put_eq split: option.splits prod.splits)

lemma fewer_send_ops [fewer_rules]:
  "fewer h (snd (send_owned_fenced h wid i cl t))"
  "fewer h (snd (run_owned_fenced h wid i ws gen t))"
  by (auto simp: send_owned_fenced_def run_owned_fenced_def Let_def intro!: fewer_same split: option.splits claimant.splits)

lemma fewer_worker_ops [fewer_rules]:
  "fewer h (snd (register_worker_fenced h wid i ws tun t))"
  "fewer h (set_tunnel_flag_fenced h wid i v)"
  "fewer h (snd (deregister_worker_fenced h wid i ws))"
  "fewer h (snd (disconnect_worker_fenced h wid i))"
  by (auto simp: register_worker_fenced_def set_tunnel_flag_fenced_def deregister_worker_fenced_def
      disconnect_worker_fenced_def Let_def intro!: fewer_same split: option.splits)

lemma remove_dead_browsers_sub:
  "fst ` set (browsers (fst (fold (remove_dead_browser now) dead (st, b)))) \<subseteq> fst ` set (browsers st)"
proof (induction dead arbitrary: st b)
  case (Cons ws dead)
  obtain st' b' where r: "remove_dead_browser now ws (st, b) = (st', b')" by fastforce
  then have "browsers st' = od_pop (browsers st) ws"
    by (auto simp: remove_dead_browser_def Let_def split: if_splits)
  then have "fst ` set (browsers st') \<subseteq> fst ` set (browsers st)" by (simp add: od_pop_keys_sub)
  with Cons.IH [of st' b'] show ?case by (simp add: r)
qed simp

lemma fewer_remove_dead [fewer_rules]: "fewer h (snd (remove_dead_fenced h wid i dead t))"
proof (cases "same_worker h wid i")
  case (Some st)
  then show ?thesis
    using remove_dead_browsers_sub [of t dead st False]
    by (simp add: remove_dead_fenced_def case_prod_beta) (rule fewer_put, simp add: same_worker_Some, simp)
qed (simp add: remove_dead_fenced_def)

lemma fewer_cleanup [fewer_rules]: "fewer h (snd (cleanup_browser_fenced h wid i ws owned b t))"
proof (cases "same_worker h wid i")
  case None
  then show ?thesis by (simp add: cleanup_browser_fenced_def Let_def case_prod_beta fewer_workers)
next
  case (Some st)
  have put: "fewer h (put_worker (drop_principal h ws) wid st')"
    if "fst ` set (browsers st') \<subseteq> fst ` set (browsers st)" for st'
    using Some that by (auto simp: fewer_def sockets_def find_worker_def put_worker_def same_worker_Some)
  have "fewer h (snd (update_lock_state h wid st ws owned t))"
    using od_pop_keys_sub [of "browsers st" ws] by (simp add: update_lock_state_def Let_def put)
  with Some show ?thesis
    by (simp add: cleanup_browser_fenced_def Let_def case_prod_beta) (rule fewer_trans, assumption, rule fewer_workers, simp)
qed

lemma fewer_section:
  assumes "run_section oper h wid i now = (next, h')" shows "fewer h h'"
proof -
  have "fewer h (snd (run_section oper h wid i now))"
    using fewer_acquire_ops(1)
    by (cases oper) (auto simp: fewer_rules case_prod_beta split: sum.splits prod.splits)
  with assms show ?thesis by simp
qed

subsection \<open>The remaining steps\<close>

lemma sockets_create:
  "find_worker h wid = None \<Longrightarrow> browsers st = [] \<Longrightarrow> fewer h (put_worker (h\<lparr>next_ident := n\<rparr>) wid st)"
  by (auto simp: fewer_def sockets_def find_worker_def put_worker_def)

lemma fewer_get_or_create [fewer_rules]: "fewer h (snd (get_or_create h wid t))"
  by (auto simp: get_or_create_def create_worker_def Let_def new_worker_state_def intro!: sockets_create split: option.split)

lemma fewer_register_start [fewer_rules]: "fewer h (snd (register_worker_start h wid ws tun t))"
  by (auto simp: register_worker_start_def Let_def new_worker_state_def intro!: sockets_create split: option.split)

lemma fewer_prune: "od_ok (workers h) \<Longrightarrow> fewer h (prune_if_idle h wid)"
  by (auto simp: prune_if_idle_def fewer_def sockets_def split: option.split)

text \<open>A connection adds the one socket, and only when it succeeds.\<close>

lemma register_sockets:
  assumes "register_browser h wid ws role defer sub m t = (res, h')"
  shows "sockets h' w \<subseteq> sockets h w \<union> (if w = wid \<and> (\<exists>b. res = Inr b) then {ws} else {})"
proof (cases "admit_principal h ws sub")
  case None
  with assms show ?thesis by (simp add: register_browser_def)
next
  case (Some h1)
  note q1 = fewer_quiet [OF quiet_admit [OF Some]]
  have body: "sockets h5 w \<subseteq> sockets h w \<union> (if w = wid then {ws} else {})"
    if h2: "fewer h h2" and g: "get_or_create h2 wid t = (st, h3)"
      and h5: "workers h5 = workers (put_worker h3 wid (st\<lparr>browsers := od_set (browsers st) ws role\<rparr>))" for h2 h3 h5 st
  proof -
    have "fewer h2 h3" using fewer_get_or_create [of h2 wid t] g by simp
    then have "sockets h3 w \<subseteq> sockets h w" using fewer_trans [OF h2] by (simp add: fewer_def)
    moreover have "find_worker h3 wid = Some st" using get_or_create_find [OF g] by simp
    then have "sockets h5 w = sockets h3 w \<union> (if w = wid then {ws} else {})"
      using h5 by (simp add: sockets_def find_worker_def put_worker_def)
    ultimately show ?thesis by auto
  qed
  show ?thesis
  proof (cases m)
    case (MintRaises e)
    with assms Some fewer_trans [OF q1 fewer_quiet [OF quiet_rollback]] show ?thesis
      by (auto simp: register_browser_def fewer_def)
  next
    case NoStore
    obtain st h3 where "get_or_create h1 wid t = (st, h3)" by fastforce
    with NoStore Some assms body [OF q1 this, of h'] show ?thesis
      by (auto simp: register_browser_def Let_def split: if_splits)
  next
    case (Minted tok)
    obtain st h3 where g: "get_or_create (bind_resume_token h1 ws tok) wid t = (st, h3)" by fastforce
    with Minted Some assms body [OF fewer_trans [OF q1 fewer_quiet [OF quiet_bind]] g, of h'] show ?thesis
      by (auto simp: register_browser_def Let_def split: if_splits)
  qed
qed

text \<open>A step of the hub that is not a successful connection adds no socket.\<close>

lemma hub_step_fewer:
  assumes "hub_step s t" "hub_inv s"
  shows "fewer (sys_hub s) (sys_hub t) \<or>
    (\<exists>wid ws role defer sub m b h'. register_browser (sys_hub s) wid ws role defer sub m (sys_now s) = (Inr b, h') \<and>
       t = s\<lparr>sys_hub := h'\<rparr>)"
  using assms
proof (induction rule: hub_step.induct)
  case (step_section s tid wid i oper nxt h')
  then show ?case using fewer_section by (simp add: sys_put_def)
next
  case (step_atomic oper s)
  then show ?case by (simp add: fewer_atomic)
next
  case (step_register_browser s wid ws role d sub m)
  obtain res h' where r: "register_browser (sys_hub s) wid ws role d sub m (sys_now s) = (res, h')" by fastforce
  show ?case
  proof (cases res)
    case (Inl e)
    with r register_sockets [OF r] show ?thesis by (auto simp: fewer_def)
  next
    case (Inr b)
    with r show ?thesis by (intro disjI2 exI) auto
  qed
next
  case (step_prune s wid)
  then show ?case by (simp add: fewer_prune hub_inv_def inv_workers_def)
qed (simp_all add: sys_put_def fewer_rules)

end
