(* ===== verification/ViewerRevocation.thy ===== *)
theory ViewerRevocation
  imports ShareViewers Utf8 Json
begin

text \<open>
  Carrying a revoke out: the body and the stages of \<open>POST /api/sessions/{id}/viewers/revoke\<close>
  (\<open>server/routes/viewers.py\<close>), and the sockets, event streams and long polls it ends
  (\<open>server/viewer_revocation.py\<close>). What is awaited between the stages is the business of theory
  \<open>ViewerSockets\<close>.
\<close>

subsection \<open>The body of the request\<close>

datatype http_error = HttpError nat string

definition SHARE_VIEWER_SUBJECT_MAX_BYTES :: nat where "SHARE_VIEWER_SUBJECT_MAX_BYTES = 512"
definition SHARE_VIEWER_REVOKE_BODY_MAX_BYTES :: nat where "SHARE_VIEWER_REVOKE_BODY_MAX_BYTES = 4096"

definition invalid_body :: http_error where
  "invalid_body = HttpError 422 ''invalid request body''"

definition not_this_session :: http_error where
  "not_this_session = HttpError 422 ''subject must be a share subject of this session''"

text \<open>The chunks are read until the cap is passed; the rest of the stream is left alone.\<close>

fun receive :: "byte list \<Rightarrow> byte list list \<Rightarrow> byte list option" where
  "receive received [] = Some received"
| "receive received (chunk # chunks) =
     (let received = received @ chunk
      in if SHARE_VIEWER_REVOKE_BODY_MAX_BYTES < length received then None else receive received chunks)"

definition json_space :: "byte \<Rightarrow> bool" where
  "json_space b \<longleftrightarrow> b \<in> {32, 9, 13, 10}"

definition strip_space :: "byte list \<Rightarrow> byte list" where
  "strip_space bs = rev (dropWhile json_space (rev (dropWhile json_space bs)))"

text \<open>\<open>_requested_subject\<close>: \<open>Inr None\<close> revokes every viewer. \<open>loads\<close> is \<open>json.loads\<close> of a text.\<close>

definition checked_subject :: "string \<Rightarrow> json \<Rightarrow> http_error + pystr option" where
  "checked_subject sid body =
     (case body of
        JNull \<Rightarrow> Inr None
      | JObj kvs \<Rightarrow>
          if \<not> fst ` set kvs \<subseteq> {pystr_of ''subject''} then Inl invalid_body
          else
            (case od_get kvs (pystr_of ''subject'') of
               None \<Rightarrow> Inr None
             | Some (JStr subject) \<Rightarrow>
                 (case utf8_encode subject of
                    None \<Rightarrow> Inl invalid_body
                  | Some bytes \<Rightarrow>
                      let pre = pystr_of (share_prefix sid)
                      in if \<not> prefix pre subject \<or> subject = pre \<or> SHARE_VIEWER_SUBJECT_MAX_BYTES < length bytes
                         then Inl not_this_session else Inr (Some subject))
             | Some _ \<Rightarrow> Inl invalid_body)
      | _ \<Rightarrow> Inl invalid_body)"

definition requested_subject :: "json_loads \<Rightarrow> string \<Rightarrow> byte list list \<Rightarrow> http_error + pystr option" where
  "requested_subject loads sid chunks =
     (case receive [] chunks of
        None \<Rightarrow> Inl invalid_body
      | Some received \<Rightarrow>
          let raw = strip_space received
          in if raw = [] then Inr None
             else (case utf8_decode raw of
                     None \<Rightarrow> Inl invalid_body
                   | Some text \<Rightarrow> (case loads text of None \<Rightarrow> Inl invalid_body | Some body \<Rightarrow> checked_subject sid body)))"

subsection \<open>Recording the cutoff\<close>

text \<open>
  The stages before anything is awaited again: the permission, the body, the cutoffs of deleted
  sessions, the cutoff. \<open>known\<close> are the sessions of the registry, \<open>requested\<close> what
  \<open>_requested_subject\<close> made of the body, as a key of the tables. A \<open>KeyError\<close> would be a 500.
\<close>

record revocation =
  rv_session :: string
  rv_subject :: "string option"
  rv_at :: time
  rv_evicted :: "string option"

definition internal_error :: http_error where
  "internal_error = HttpError 500 ''Internal Server Error''"

fun forget_all :: "authz_service \<Rightarrow> string list \<Rightarrow> authz_service option" where
  "forget_all s [] = Some s"
| "forget_all s (stale # rest) =
     (case forget_share_viewers s stale of Inl _ \<Rightarrow> None | Inr s' \<Rightarrow> forget_all s' rest)"

definition revoke_session ::
  "provider \<Rightarrow> principal \<Rightarrow> string \<Rightarrow> time \<Rightarrow> authz_service \<Rightarrow> (http_error + revocation) \<times> authz_service" where
  "revoke_session pv p sid now s =
     (let revoker = (if svc_is_admin pv p then None else Some (pr_subject_id p))
      in case revoke_share_viewers s sid now revoker of
           (Inr (t, evicted), s') \<Rightarrow>
             (Inr \<lparr>rv_session = sid, rv_subject = None, rv_at = t, rv_evicted = evicted\<rparr>, s')
         | (Inl KeyError, s') \<Rightarrow> (Inl internal_error, s')
         | (Inl _, s') \<Rightarrow>
             (Inl (HttpError 429 ''too many sessions with revoked viewers; try again later''), s'))"

definition revoke_subject ::
  "string \<Rightarrow> string \<Rightarrow> time \<Rightarrow> authz_service \<Rightarrow> (http_error + revocation) \<times> authz_service" where
  "revoke_subject sid subject now s =
     (case revoke_share_viewer_subject s sid subject now of
        (Inr t, s') \<Rightarrow> (Inr \<lparr>rv_session = sid, rv_subject = Some subject, rv_at = t, rv_evicted = None\<rparr>, s')
      | (Inl SubjectRevocationsFull, s') \<Rightarrow>
          (Inl (HttpError 429 ''too many viewers of this session revoked one by one; revoke them all instead''), s')
      | (Inl RevocationsFull, s') \<Rightarrow> (Inl (HttpError 429 ''too many viewers revoked one by one; try again later''), s')
      | (Inl KeyError, s') \<Rightarrow> (Inl internal_error, s'))"

definition revoke_viewers_record ::
  "provider \<Rightarrow> principal \<Rightarrow> session_def \<Rightarrow> (http_error + string option) \<Rightarrow> string set \<Rightarrow> time \<Rightarrow> authz_service \<Rightarrow>
     (http_error + revocation) \<times> authz_service" where
  "revoke_viewers_record pv p sd requested known now s =
     (if \<not> svc_can_mutate_session pv p sd ''session.control.update''
      then (Inl (HttpError 403 ''insufficient privileges''), s)
      else
        (case requested of
           Inl e \<Rightarrow> (Inl e, s)
         | Inr subject \<Rightarrow>
             (case forget_all s (filter (\<lambda>i. i \<notin> known) (revoked_sessions s)) of
                None \<Rightarrow> (Inl internal_error, s)
              | Some s1 \<Rightarrow>
                  (case subject of
                     None \<Rightarrow> revoke_session pv p (sd_session_id sd) now s1
                   | Some x \<Rightarrow> revoke_subject (sd_session_id sd) x now s1))))"

text \<open>The answer, once \<open>n\<close> sockets and streams have been ended, and the audited events.\<close>

record revoke_answer =
  ra_session_id :: string
  ra_revoked_at :: time
  ra_closed :: nat
  ra_close_code :: nat
  ra_close_reason :: string
  ra_subject :: "string option"

definition VIEWER_REVOKED_CLOSE_CODE :: nat where "VIEWER_REVOKED_CLOSE_CODE = 4410"
definition VIEWER_REVOKED_REASON :: string where "VIEWER_REVOKED_REASON = ''viewer access revoked''"

definition revoke_viewers_answer :: "revocation \<Rightarrow> nat \<Rightarrow> revoke_answer" where
  "revoke_viewers_answer r n =
     \<lparr>ra_session_id = rv_session r, ra_revoked_at = rv_at r, ra_closed = n,
      ra_close_code = VIEWER_REVOKED_CLOSE_CODE, ra_close_reason = VIEWER_REVOKED_REASON, ra_subject = rv_subject r\<rparr>"

datatype revoke_audit = CutoffEvicted string string string | ViewersRevoke string string nat time "string option"

definition revoke_audits :: "principal \<Rightarrow> revocation \<Rightarrow> nat \<Rightarrow> revoke_audit list" where
  "revoke_audits p r n =
     (case rv_evicted r of None \<Rightarrow> [] | Some gone \<Rightarrow> [CutoffEvicted (pr_subject_id p) gone (rv_session r)]) @
     [ViewersRevoke (pr_subject_id p) (rv_session r) n (rv_at r) (rv_subject r)]"

subsection \<open>Who is ended\<close>

text \<open>A socket's principal is \<open>websocket.state.uterm_principal\<close>, set when it was authenticated.\<close>

definition revoked :: "authz_service \<Rightarrow> principal option \<Rightarrow> string \<Rightarrow> bool" where
  "revoked s p sid = (case p of None \<Rightarrow> False | Some p \<Rightarrow> share_viewer_revoked s p sid)"

text \<open>The re-check of a socket: without a scope, an app or an authorization service it is not revoked.\<close>

definition socket_share_viewer_revoked :: "authz_service option \<Rightarrow> principal option \<Rightarrow> string \<Rightarrow> bool" where
  "socket_share_viewer_revoked authz p sid = (case authz of None \<Rightarrow> False | Some s \<Rightarrow> revoked s p sid)"

subsection \<open>Event streams\<close>

text \<open>
  \<open>ShareViewerStreams\<close>: per session, the events that end its open streams and their principals.
  An \<open>asyncio.Event\<close> is named by its identity.
\<close>

type_synonym streams = "(string \<times> (nat \<times> principal) list) list"

definition streams_of :: "streams \<Rightarrow> string \<Rightarrow> (nat \<times> principal) list" where
  "streams_of r sid = (case od_get r sid of None \<Rightarrow> [] | Some m \<Rightarrow> m)"

definition streams_open :: "streams \<Rightarrow> string \<Rightarrow> nat \<Rightarrow> principal \<Rightarrow> streams" where
  "streams_open r sid ended p = od_set r sid (od_set (streams_of r sid) ended p)"

definition streams_close :: "streams \<Rightarrow> string \<Rightarrow> nat \<Rightarrow> streams" where
  "streams_close r sid ended =
     (let m = od_pop (streams_of r sid) ended in
      if m = [] then od_pop r sid else od_set r sid m)"

text \<open>The events \<open>revoke\<close> sets; its result is their number.\<close>

definition streams_revoke :: "streams \<Rightarrow> authz_service \<Rightarrow> string \<Rightarrow> nat list" where
  "streams_revoke r s sid = map fst (filter (\<lambda>(ended, p). share_viewer_revoked s p sid) (streams_of r sid))"

text \<open>
  \<open>stream_until_revoked\<close>. Each turn of its loop starts when \<open>asyncio.wait\<close> returns: with the stop
  task done (whatever the source did meanwhile), with an item, or with the end or the failure of the
  source. \<open>None\<close> in the output is \<open>STREAM_REVOKED_EVENT\<close>.
\<close>

datatype 'a turn = StopDone | Item 'a | SourceEnds | SourceRaises

fun relay_turns :: "'a turn list \<Rightarrow> 'a option list" where
  "relay_turns [] = []"
| "relay_turns (StopDone # ts) = [None]"
| "relay_turns (Item x # ts) = Some x # relay_turns ts"
| "relay_turns (SourceEnds # ts) = []"
| "relay_turns (SourceRaises # ts) = []"

fun source_items :: "'a turn list \<Rightarrow> 'a option list" where
  "source_items (Item x # ts) = Some x # source_items ts"
| "source_items (StopDone # ts) = source_items ts"
| "source_items _ = []"

definition stream_until_revoked ::
  "authz_service \<Rightarrow> principal \<Rightarrow> string \<Rightarrow> 'a turn list \<Rightarrow> 'a option list" where
  "stream_until_revoked s p sid ts =
     (if \<not> is_share_viewer p sid then source_items ts
      else if share_viewer_revoked s p sid then [None] else relay_turns ts)"

subsection \<open>Long polls\<close>

text \<open>
  \<open>_route_path\<close> and \<open>ShareViewerWatchGuard\<close>. The pattern is \<open>^/api/sessions/([\w\-]+)/events/watch$\<close>,
  whose \<open>$\<close> also matches before a final newline; \<open>word\<close> says which code points \<open>\w\<close> matches.
\<close>

definition route_path :: "pystr \<Rightarrow> pystr \<Rightarrow> pystr" where
  "route_path mount path =
     (if mount \<noteq> [] \<and> prefix (mount @ pystr_of ''/'') path then drop (length mount) path else path)"

definition watch_session :: "(cp \<Rightarrow> bool) \<Rightarrow> pystr \<Rightarrow> pystr option" where
  "watch_session word path =
     (let pre = pystr_of ''/api/sessions/''; post = pystr_of ''/events/watch'';
          inner = takeWhile (\<lambda>c. word c \<or> c = 45) (drop (length pre) path);
          rest = drop (length pre + length inner) path
      in if prefix pre path \<and> inner \<noteq> [] \<and> (rest = post \<or> rest = post @ [10]) then Some inner else None)"

datatype 'm answer_msg = Held 'm | Forbidden

definition watch_guard ::
  "(cp \<Rightarrow> bool) \<Rightarrow> bool \<Rightarrow> pystr \<Rightarrow> pystr \<Rightarrow> bool \<Rightarrow> authz_service option \<Rightarrow> principal option \<Rightarrow>
     (pystr \<Rightarrow> string) \<Rightarrow> 'm list \<Rightarrow> 'm answer_msg list" where
  "watch_guard word http mount path is_get authz p key held =
     (case (if http then watch_session word (route_path mount path) else None) of
        None \<Rightarrow> map Held held
      | Some sid \<Rightarrow>
          if \<not> is_get then map Held held
          else if socket_share_viewer_revoked authz p (key sid) then [Forbidden]
          else map Held held)"

subsection \<open>What a revoke changes\<close>

text \<open>The body's size is what counts, not how it is cut into chunks.\<close>

lemma receive_concat:
  "length acc \<le> SHARE_VIEWER_REVOKE_BODY_MAX_BYTES \<Longrightarrow>
   receive acc chunks = (if length (acc @ concat chunks) \<le> SHARE_VIEWER_REVOKE_BODY_MAX_BYTES
                         then Some (acc @ concat chunks) else None)"
  by (induction chunks arbitrary: acc) (auto simp: Let_def)

text \<open>\<open>weaker sid s s'\<close>: the cutoffs of \<open>sid\<close> in \<open>s'\<close> are some of those in \<open>s\<close>.\<close>

definition weaker :: "string \<Rightarrow> authz_service \<Rightarrow> authz_service \<Rightarrow> bool" where
  "weaker sid s s' \<longleftrightarrow>
     od_get (sv_revocations s') sid \<in> {None, od_get (sv_revocations s) sid} \<and>
     (\<forall>x. od_get (sv_subject_revocations s') (sid, x) \<in> {None, od_get (sv_subject_revocations s) (sid, x)})"

lemma weaker_refl [simp]: "weaker sid s s"
  by (simp add: weaker_def)

lemma weaker_trans: "weaker sid s t \<Longrightarrow> weaker sid t u \<Longrightarrow> weaker sid s u"
  unfolding weaker_def by (metis insert_iff singletonD)

lemma shrinks_weaker: "shrinks s s' \<Longrightarrow> weaker sid s s'"
  unfolding shrinks_def weaker_def by blast

lemma lookups_revoked:
  assumes "od_get (sv_revocations s') sid \<in> {None, od_get (sv_revocations s) sid}"
    and "od_get (sv_subject_revocations s') (sid, pr_subject_id p) \<in> {None, od_get (sv_subject_revocations s) (sid, pr_subject_id p)}"
    and "share_viewer_revoked s' p sid"
  shows "share_viewer_revoked s p sid"
  using assms
  unfolding share_viewer_revoked_def share_viewer_revocation_def share_viewer_subject_revocation_def
  by (cases "od_get (sv_revocations s) sid"; cases "od_get (sv_subject_revocations s) (sid, pr_subject_id p)")
     (auto simp: latest_def split: option.splits if_splits)

lemma weaker_revoked: "weaker sid s s' \<Longrightarrow> share_viewer_revoked s' p sid \<Longrightarrow> share_viewer_revoked s p sid"
  unfolding weaker_def by (blast intro: lookups_revoked)

text \<open>A session revoke leaves every other session at most weaker; so does one that fails, everywhere.\<close>

lemma revoke_weaker:
  assumes ok: "service_ok s" and r: "revoke_share_viewers s sid cutoff revoker = (res, s')"
    and k: "k \<noteq> sid \<or> (\<exists>e. res = Inl e)"
  shows "weaker k s s'"
proof -
  obtain s1 where s1: "prune_revocations cutoff s = Inr s1" "shrinks s s1" using prune_revocations_ok [OF ok] by blast
  obtain s2 ev where s2: "make_room s1 sid revoker = Inr (s2, ev)" "shrinks s1 s2"
    using make_room_ok [OF shrinks_ok [OF s1(2)]] by metis
  have w2: "weaker k s s2" using weaker_trans shrinks_weaker s1(2) s2(2) by blast
  let ?seen = "od_get (sv_revocations s1) sid \<noteq> None"
  let ?s3 = "record_cutoff s2 sid cutoff (if ?seen then od_get (sv_revokers s1) sid else revoker)"
  show ?thesis
  proof (cases "\<not> ?seen \<and> VIEWER_REVOCATIONS_MAX \<le> length (sv_revocations s2)")
    case True
    then have "s' = s2" using r s1(1) s2(1) by (auto simp: revoke_share_viewers_def)
    with w2 show ?thesis by simp
  next
    case False
    obtain t1 t2 ev' where t: "prune_revocations cutoff s = Inr t1" "make_room t1 sid revoker = Inr (t2, ev')"
      "service_ok t2" "od_get (sv_revocations t2) sid = None"
      and room: "\<And>r. (if od_get (sv_revocations t1) sid \<noteq> None then od_get (sv_revokers t1) sid else revoker) = Some r \<Longrightarrow>
       length (members (sv_revoked_by t2) r) < VIEWER_REVOCATIONS_PER_PRINCIPAL_MAX"
      and seen: "od_get (sv_revocations t1) sid \<noteq> None \<Longrightarrow> length (sv_revocations t2) < VIEWER_REVOCATIONS_MAX"
      using revoke_room [OF ok, of cutoff sid revoker] by metis
    have e: "t1 = s1" "t2 = s2" using t s1 s2 by auto
    have "length (sv_revocations s2) < VIEWER_REVOCATIONS_MAX" using False seen e by (metis not_le)
    note rec = record_ok [OF t(3,4) [unfolded e] this room [unfolded e]]
    have "subjects_ok ?s3" using rec(1) by (simp add: service_ok_def)
    then have "distinct (members (sv_revoked_subjects ?s3) sid)"
      and "\<forall>x \<in> set (members (sv_revoked_subjects ?s3) sid). od_get (sv_subject_revocations ?s3) (sid, x) \<noteq> None"
      unfolding subjects_ok_def by (simp_all add: members_distinct)
    from drop_subsumed_ok [OF rec(1) this] obtain s4 where
      "drop_subsumed ?s3 sid cutoff (members (sv_revoked_subjects ?s3) sid) = Inr s4" and s4: "shrinks ?s3 s4" by blast
    then have "res = Inr (cutoff, ev)" "s' = s4"
      using r s1 s2 False by (auto simp: revoke_share_viewers_def Let_def simp del: if_image_distrib)
    with k have "k \<noteq> sid" "s' = s4" by auto
    moreover have "k \<noteq> sid \<Longrightarrow> weaker k s2 ?s3" using rec(2,4) by (simp add: weaker_def)
    ultimately show ?thesis using w2 weaker_trans shrinks_weaker [OF s4] by blast
  qed
qed

text \<open>A subject revoke that succeeds touches one entry, and one that fails leaves every session weaker.\<close>

lemma revoke_subject_weaker:
  assumes ok: "service_ok s" and r: "revoke_share_viewer_subject s sid x cutoff = (res, s')"
  shows "k \<noteq> sid \<or> (\<exists>e. res = Inl e) \<Longrightarrow> weaker k s s'"
    and "y \<noteq> x \<Longrightarrow> od_get (sv_subject_revocations s') (sid, y) \<in> {None, od_get (sv_subject_revocations s) (sid, y)}"
proof -
  obtain s1 where s1: "prune_subjects cutoff s = Inr s1" "shrinks s s1" using prune_subjects_ok [OF ok] by blast
  obtain s2 where s2: "drop_viewer_subject s1 sid x = Inr s2" "shrinks s1 s2"
    using drop_subject_ok [OF shrinks_ok [OF s1(2)], of sid x] by metis
  note w1 = shrinks_weaker [OF s1(2)] and w2 = weaker_trans [OF shrinks_weaker [OF s1(2)] shrinks_weaker [OF s2(2)]]
  let ?s3 = "s2\<lparr>sv_subject_revocations := od_set (sv_subject_revocations s2) (sid, x) cutoff,
      sv_revoked_subjects := index_add (sv_revoked_subjects s2) sid x\<rparr>"
  consider e where "res = Inl e" "s' = s1" | "res = Inr cutoff" "s' = ?s3"
    using r s1(1) s2(1) by (auto simp: revoke_share_viewer_subject_def Let_def split: if_splits)
  then show "k \<noteq> sid \<or> (\<exists>e. res = Inl e) \<Longrightarrow> weaker k s s'"
    and "y \<noteq> x \<Longrightarrow> od_get (sv_subject_revocations s') (sid, y) \<in> {None, od_get (sv_subject_revocations s) (sid, y)}"
    using w1 w2 [of k] w2 [of sid] by (cases; auto simp: weaker_def)+
qed

lemma forget_weaker:
  assumes "service_ok s" "forget_share_viewers s sid = Inr s'" shows "service_ok s'" "weaker k s s'"
proof -
  obtain s1 where s1: "drop_viewer_revocation s sid = Inr s1" "shrinks s s1"
    using drop_revocation_ok [OF assms(1), of sid] by metis
  obtain s2 where s2: "drop_subjects s1 sid (members (sv_revoked_subjects s1) sid) = Inr s2" "shrinks s1 s2"
    using drop_subjects_ok [OF shrinks_ok [OF s1(2)]] by blast
  have "s' = s2" using assms(2) s1(1) s2(1) by (simp add: forget_share_viewers_def)
  then show "service_ok s'" "weaker k s s'"
    using weaker_trans [OF shrinks_weaker [OF s1(2)] shrinks_weaker [OF s2(2)]] shrinks_ok [OF s2(2)] by auto
qed

lemma forget_all_ok:
  "service_ok s \<Longrightarrow> \<exists>s'. forget_all s xs = Some s' \<and> service_ok s' \<and> (\<forall>k. weaker k s s')"
proof (induction xs arbitrary: s)
  case (Cons x xs)
  obtain s1 where s1: "forget_share_viewers s x = Inr s1" using forget_ok [OF Cons.prems] by metis
  note f = forget_weaker [OF Cons.prems s1]
  from Cons.IH [OF f(1)] obtain s2 where "forget_all s1 xs = Some s2" "service_ok s2" "\<forall>k. weaker k s1 s2" by blast
  with s1 f(2) show ?case by (auto intro: weaker_trans)
qed simp

text \<open>What the recording stages of the route do to who is refused.\<close>

definition in_scope :: "revocation \<Rightarrow> principal \<Rightarrow> string \<Rightarrow> bool" where
  "in_scope r p sid \<longleftrightarrow> sid = rv_session r \<and> (case rv_subject r of None \<Rightarrow> True | Some x \<Rightarrow> pr_subject_id p = x)"

lemma stage_session:
  assumes ok: "service_ok s" and r: "revoke_session pv p sid now s = (res, s')"
  shows "service_ok s'"
    and "res = Inr rv \<Longrightarrow> rv_session rv = sid \<and> rv_subject rv = None \<and> rv_at rv = now \<and> od_get (sv_revocations s') sid = Some now"
    and "k \<noteq> sid \<or> (\<exists>e. res = Inl e) \<Longrightarrow> weaker k s s'"
proof -
  define rk where "rk = (if svc_is_admin pv p then None else Some (pr_subject_id p))"
  obtain res1 where r1: "revoke_share_viewers s sid now rk = (res1, s')"
    and c: "res = (case res1 of Inr (t, ev) \<Rightarrow> Inr \<lparr>rv_session = sid, rv_subject = None, rv_at = t, rv_evicted = ev\<rparr>
      | Inl KeyError \<Rightarrow> Inl internal_error
      | Inl _ \<Rightarrow> Inl (HttpError 429 ''too many sessions with revoked viewers; try again later''))"
    using r by (cases "revoke_share_viewers s sid now rk")
      (auto simp: revoke_session_def rk_def Let_def split: sum.splits prod.splits sv_error.splits)
  show "service_ok s'" by (rule revoke_ok(1) [OF ok r1])
  show "res = Inr rv \<Longrightarrow> rv_session rv = sid \<and> rv_subject rv = None \<and> rv_at rv = now \<and> od_get (sv_revocations s') sid = Some now"
    using revoke_ok(3) [OF ok r1] c by (auto split: sum.splits prod.splits sv_error.splits)
  show "k \<noteq> sid \<or> (\<exists>e. res = Inl e) \<Longrightarrow> weaker k s s'"
    using revoke_weaker [OF ok r1, of k] c by (auto split: sum.splits prod.splits)
qed

lemma stage_subject:
  assumes ok: "service_ok s" and r: "revoke_subject sid x now s = (res, s')"
  shows "service_ok s'"
    and "res = Inr rv \<Longrightarrow> rv_session rv = sid \<and> rv_subject rv = Some x \<and> rv_at rv = now \<and>
      od_get (sv_subject_revocations s') (sid, x) = Some now \<and> sv_revocations s' = sv_revocations s"
    and "k \<noteq> sid \<or> (\<exists>e. res = Inl e) \<Longrightarrow> weaker k s s'"
    and "y \<noteq> x \<Longrightarrow> od_get (sv_subject_revocations s') (sid, y) \<in> {None, od_get (sv_subject_revocations s) (sid, y)}"
proof -
  obtain res1 where r1: "revoke_share_viewer_subject s sid x now = (res1, s')"
    and i: "\<And>rv. res = Inr rv \<Longrightarrow> \<exists>t. res1 = Inr t \<and>
      rv = \<lparr>rv_session = sid, rv_subject = Some x, rv_at = t, rv_evicted = None\<rparr>"
    and e: "\<And>e. res = Inl e \<Longrightarrow> \<exists>e. res1 = Inl e"
    using r by (cases "revoke_share_viewer_subject s sid x now")
      (auto simp: revoke_subject_def split: sum.splits sv_error.splits)
  show "service_ok s'" by (rule revoke_subject_ok(1) [OF ok r1])
  show "res = Inr rv \<Longrightarrow> rv_session rv = sid \<and> rv_subject rv = Some x \<and> rv_at rv = now \<and>
      od_get (sv_subject_revocations s') (sid, x) = Some now \<and> sv_revocations s' = sv_revocations s"
    using revoke_subject_ok(3,5) [OF ok r1] i by fastforce
  show "k \<noteq> sid \<or> (\<exists>e. res = Inl e) \<Longrightarrow> weaker k s s'"
    using revoke_subject_weaker(1) [OF ok r1, of k] e by blast
  show "y \<noteq> x \<Longrightarrow> od_get (sv_subject_revocations s') (sid, y) \<in> {None, od_get (sv_subject_revocations s) (sid, y)}"
    by (rule revoke_subject_weaker(2) [OF ok r1])
qed

text \<open>The same for the whole of the recording stages.\<close>

definition targets_only :: "authz_service \<Rightarrow> authz_service \<Rightarrow> http_error + revocation \<Rightarrow> bool" where
  "targets_only s s' res \<longleftrightarrow>
     (\<forall>q k. share_viewer_revoked s' q k \<longrightarrow> share_viewer_revoked s q k \<or> (\<exists>rv. res = Inr rv \<and> in_scope rv q k))"

lemma targets_weaker: "(\<And>k. weaker k s s') \<Longrightarrow> targets_only s s' res"
  using weaker_revoked unfolding targets_only_def by blast

lemma targets_trans: "(\<And>k. weaker k s s1) \<Longrightarrow> targets_only s1 s' res \<Longrightarrow> targets_only s s' res"
  using weaker_revoked unfolding targets_only_def by metis

lemma targets_session:
  assumes "service_ok s" "revoke_session pv p sid now s = (res, s')" shows "targets_only s s' res"
proof (cases res)
  case (Inl e)
  then show ?thesis using stage_session(3) [OF assms] by (intro targets_weaker) blast
next
  case (Inr rv)
  have "share_viewer_revoked s q k \<or> in_scope rv q k" if "share_viewer_revoked s' q k" for q k
    using that stage_session(2) [OF assms Inr] weaker_revoked [OF stage_session(3) [OF assms, of k], of q]
    by (cases "k = sid") (auto simp: in_scope_def)
  with Inr show ?thesis by (auto simp: targets_only_def)
qed

lemma targets_subject:
  assumes "service_ok s" "revoke_subject sid x now s = (res, s')" shows "targets_only s s' res"
proof (cases res)
  case (Inl e)
  then show ?thesis using stage_subject(3) [OF assms] by (intro targets_weaker) blast
next
  case (Inr rv)
  note rv = stage_subject(2) [OF assms Inr]
  have "share_viewer_revoked s q k \<or> in_scope rv q k" if r: "share_viewer_revoked s' q k" for q k
  proof (cases "k = sid \<and> pr_subject_id q \<noteq> x")
    case True
    then have k: "k = sid" and x: "pr_subject_id q \<noteq> x" by simp_all
    have "od_get (sv_subject_revocations s') (k, pr_subject_id q) \<in> {None, od_get (sv_subject_revocations s) (k, pr_subject_id q)}"
      unfolding k by (rule stage_subject(4) [OF assms x])
    moreover have "sv_revocations s' = sv_revocations s" using rv by simp
    ultimately have "share_viewer_revoked s q k" using r by (intro lookups_revoked [of s' k s q]) simp_all
    then show ?thesis ..
  next
    case False
    show ?thesis
    proof (cases "k = sid")
      case True
      with False rv show ?thesis by (simp add: in_scope_def)
    next
      case k: False
      from weaker_revoked [OF stage_subject(3) [OF assms disjI1 [OF k]] r] show ?thesis ..
    qed
  qed
  with Inr show ?thesis by (auto simp: targets_only_def)
qed

lemma record_ok_targets:
  assumes ok: "service_ok s" and r: "revoke_viewers_record pv p sd requested known now s = (res, s')"
  shows "service_ok s'" "targets_only s s' res" "res = Inr rv \<Longrightarrow> rv_session rv = sd_session_id sd \<and> rv_at rv = now"
proof -
  let ?stale = "filter (\<lambda>i. i \<notin> known) (revoked_sessions s)"
  obtain s1 where s1: "forget_all s ?stale = Some s1" "service_ok s1" and w: "\<And>k. weaker k s s1"
    using forget_all_ok [OF ok] by blast
  consider "s' = s" "\<exists>e. res = Inl e" | "revoke_session pv p (sd_session_id sd) now s1 = (res, s')"
    | x where "revoke_subject (sd_session_id sd) x now s1 = (res, s')"
    using r s1(1) by (auto simp: revoke_viewers_record_def split: if_splits sum.splits option.splits)
  then have "service_ok s' \<and> targets_only s s' res \<and> (res = Inr rv \<longrightarrow> rv_session rv = sd_session_id sd \<and> rv_at rv = now)"
  proof cases
    case 1
    then show ?thesis using ok by (auto intro: targets_weaker)
  next
    case 2
    with targets_trans [OF w targets_session [OF s1(2)]] stage_session(1,2) [OF s1(2)] show ?thesis by blast
  next
    case 3
    with targets_trans [OF w targets_subject [OF s1(2)]] stage_subject(1,2) [OF s1(2)] show ?thesis by blast
  qed
  then show "service_ok s'" "targets_only s s' res" "res = Inr rv \<Longrightarrow> rv_session rv = sd_session_id sd \<and> rv_at rv = now" by auto
qed

lemma cutoff_refuses:
  assumes "od_get (sv_revocations s) sid = Some c \<or> od_get (sv_subject_revocations s) (sid, pr_subject_id q) = Some c"
    and "is_share_viewer q sid" "case issued_at q of None \<Rightarrow> True | Some i \<Rightarrow> i \<le> c"
  shows "share_viewer_revoked s q sid"
  using assms by (auto simp: share_viewer_revoked_def share_viewer_revocation_def share_viewer_subject_revocation_def
      latest_def split: option.splits)

lemma record_refuses:
  assumes ok: "service_ok s" and r: "revoke_viewers_record pv p sd requested known now s = (Inr rv, s')"
    and q: "is_share_viewer q (rv_session rv)" "in_scope rv q (rv_session rv)" "case issued_at q of None \<Rightarrow> True | Some i \<Rightarrow> i \<le> now"
  shows "share_viewer_revoked s' q (rv_session rv)"
proof -
  let ?stale = "filter (\<lambda>i. i \<notin> known) (revoked_sessions s)"
  obtain s1 where s1: "forget_all s ?stale = Some s1" "service_ok s1" using forget_all_ok [OF ok] by blast
  consider "revoke_session pv p (sd_session_id sd) now s1 = (Inr rv, s')"
    | x where "revoke_subject (sd_session_id sd) x now s1 = (Inr rv, s')"
    using r s1(1) by (auto simp: revoke_viewers_record_def split: if_splits sum.splits option.splits)
  then have "od_get (sv_revocations s') (rv_session rv) = Some now \<or>
      od_get (sv_subject_revocations s') (rv_session rv, pr_subject_id q) = Some now"
  proof cases
    case 1
    from stage_session(2) [OF s1(2) this refl] show ?thesis by simp
  next
    case (2 x)
    from stage_subject(2) [OF s1(2) this refl] q(2) show ?thesis by (simp add: in_scope_def)
  qed
  with cutoff_refuses q show ?thesis by blast
qed

text \<open>The body, case by case.\<close>

lemma checked_object:
  "checked_subject sid (JObj kvs) =
     (if \<not> fst ` set kvs \<subseteq> {pystr_of ''subject''} then Inl invalid_body
      else case od_get kvs (pystr_of ''subject'') of None \<Rightarrow> Inr None | Some v \<Rightarrow>
        (case v of JStr x \<Rightarrow>
           (case utf8_encode x of None \<Rightarrow> Inl invalid_body
            | Some bytes \<Rightarrow> if \<not> prefix (pystr_of (share_prefix sid)) x \<or> x = pystr_of (share_prefix sid) \<or> 512 < length bytes
                then Inl not_this_session else Inr (Some x))
         | _ \<Rightarrow> Inl invalid_body))"
  by (simp add: checked_subject_def Let_def SHARE_VIEWER_SUBJECT_MAX_BYTES_def split: option.split json.split)

lemma checked_Inl: "checked_subject sid body = Inl e \<Longrightarrow> e \<in> {invalid_body, not_this_session}"
proof (cases body)
  case (JObj kvs)
  then show "checked_subject sid body = Inl e \<Longrightarrow> ?thesis"
    by (auto simp: checked_object split: option.splits json.splits if_splits)
qed (auto simp: checked_subject_def)

lemma checked_None: "checked_subject sid body = Inr None \<Longrightarrow> body \<in> {JNull, JObj []}"
proof (cases body)
  case (JObj kvs)
  have "kvs = []" if "fst ` set kvs \<subseteq> {pystr_of ''subject''}" "od_get kvs (pystr_of ''subject'') = None"
    using that by (cases kvs) (auto split: if_splits)
  with JObj show "checked_subject sid body = Inr None \<Longrightarrow> ?thesis"
    by (auto simp: checked_object split: option.splits json.splits if_splits)
qed (auto simp: checked_subject_def)

lemma checked_Some:
  assumes "checked_subject sid body = Inr (Some x)"
  shows "\<exists>kvs rest bytes. body = JObj kvs \<and> fst ` set kvs = {pystr_of ''subject''} \<and>
     od_get kvs (pystr_of ''subject'') = Some (JStr x) \<and>
     x = pystr_of (share_prefix sid) @ rest \<and> rest \<noteq> [] \<and> utf8_encode x = Some bytes \<and> length bytes \<le> 512"
proof (cases body)
  case (JObj kvs)
  from assms obtain bytes where k: "fst ` set kvs \<subseteq> {pystr_of ''subject''}" "od_get kvs (pystr_of ''subject'') = Some (JStr x)"
    and b: "utf8_encode x = Some bytes" "length bytes \<le> 512" "prefix (pystr_of (share_prefix sid)) x" "x \<noteq> pystr_of (share_prefix sid)"
    by (auto simp: JObj checked_object split: option.splits json.splits if_splits)
  from b(3,4) obtain rest where "x = pystr_of (share_prefix sid) @ rest" "rest \<noteq> []" by (auto simp: prefix_def)
  moreover have "pystr_of ''subject'' \<in> fst ` set kvs" using od_get_in [OF k(2)] by force
  with k(1) have "fst ` set kvs = {pystr_of ''subject''}" by blast
  ultimately show ?thesis using JObj k(2) b(1,2) by blast
qed (use assms in \<open>auto simp: checked_subject_def\<close>)

subsection \<open>Properties\<close>

text \<open>The body of a revoke is never read as more than it says: it is a request to revoke every viewer
  only when it is within the size limit and is blank, \<open>null\<close> or an empty object, and a request
  for one subject only when it is an object with that one key, whose string extends the session's own
  share prefix and fits the byte limit. Anything else is refused, however it is cut into chunks.\<close>

theorem requested_subject_sound:
  "case requested_subject loads sid chunks of
     Inl e \<Rightarrow> e \<in> {invalid_body, not_this_session}
   | Inr None \<Rightarrow>
       length (concat chunks) \<le> 4096 \<and>
       (strip_space (concat chunks) = [] \<or>
        (\<exists>text body. utf8_decode (strip_space (concat chunks)) = Some text \<and> loads text = Some body \<and> body \<in> {JNull, JObj []}))
   | Inr (Some x) \<Rightarrow>
       length (concat chunks) \<le> 4096 \<and>
       (\<exists>text kvs rest bytes. utf8_decode (strip_space (concat chunks)) = Some text \<and> loads text = Some (JObj kvs) \<and>
          fst ` set kvs = {pystr_of ''subject''} \<and> od_get kvs (pystr_of ''subject'') = Some (JStr x) \<and>
          x = pystr_of (share_prefix sid) @ rest \<and> rest \<noteq> [] \<and> utf8_encode x = Some bytes \<and> length bytes \<le> 512)"
proof (cases "length (concat chunks) \<le> 4096 \<and> strip_space (concat chunks) \<noteq> []")
  case True
  note req = requested_subject_def receive_concat SHARE_VIEWER_REVOKE_BODY_MAX_BYTES_def Let_def
  show ?thesis
  proof (cases "\<exists>text body. utf8_decode (strip_space (concat chunks)) = Some text \<and> loads text = Some body")
    case False
    with True show ?thesis by (auto simp: req split: option.split)
  next
    case t: True
    then obtain txt0 body where b: "utf8_decode (strip_space (concat chunks)) = Some txt0" "loads txt0 = Some body" by blast
    then have r: "requested_subject loads sid chunks = checked_subject sid body" using True by (simp add: req)
    show ?thesis
    proof (cases "checked_subject sid body")
      case (Inr y)
      then show ?thesis
        using r True b checked_None [of sid body] checked_Some [of sid body] by (cases y) auto
    qed (use r checked_Inl in simp)
  qed
next
  case False
  then show ?thesis
    by (auto simp: requested_subject_def receive_concat SHARE_VIEWER_REVOKE_BODY_MAX_BYTES_def Let_def)
qed


text \<open>A plugged-in provider that lets a principal manage sessions, and its first revoke.\<close>

definition demo_embedder :: provider where
  "demo_embedder = demo_provider\<lparr>pv_can_mutate_session := Some (\<lambda>_ _ _. True), pv_is_admin := Some (\<lambda>_. False)\<rparr>"

definition demo_revoker :: principal where
  "demo_revoker = demo_viewer\<lparr>pr_subject_id := ''u''\<rparr>"

definition demo_cutoff :: authz_service where
  "demo_cutoff = new_authz_service\<lparr>sv_revocations := [(''a'', 60)], sv_revokers := [(''a'', ''u'')],
     sv_revoked_by := [(''u'', [(''a'', ())])]\<rparr>"

definition demo_revocation :: revocation where
  "demo_revocation = \<lparr>rv_session = ''a'', rv_subject = None, rv_at = 60, rv_evicted = None\<rparr>"

lemma demo_record:
  "revoke_viewers_record demo_embedder demo_revoker demo_session (Inr None) {} 60 new_authz_service = (Inr demo_revocation, demo_cutoff)"
proof -
  have "revoke_session demo_embedder demo_revoker ''a'' 60 new_authz_service = (Inr demo_revocation, demo_cutoff)"
    by (simp add: revoke_session_def svc_is_admin_def demo_embedder_def demo_revoker_def demo_revoke
        demo_cutoff_def demo_revocation_def)
  then show ?thesis
    by (simp add: revoke_viewers_record_def svc_can_mutate_session_def revoked_sessions_def demo_session_def)
       (simp add: new_authz_service_def demo_embedder_def)
qed

lemma demo_not_revoked: "\<not> share_viewer_revoked new_authz_service p sid"
  by (simp add: share_viewer_revoked_def new_authz_service_def latest_def share_viewer_revocation_def
      share_viewer_subject_revocation_def)

lemma demo_viewer_revoked: "share_viewer_revoked demo_cutoff demo_viewer ''a''"
  by (rule cutoff_refuses [of _ _ 60])
    (simp_all add: demo_cutoff_def is_share_viewer_def demo_viewer_def share_prefix_def issued_at_def)


end
