(* ===== verification/ViewerSockets.thy ===== *)
theory ViewerSockets
  imports HubProps HubSockets ViewerRevocation
begin

text \<open>
  A revoke against the connections that race with it (\<open>server/viewer_revocation.py\<close>,
  \<open>routes/viewers.py\<close>, \<open>TermHub.register_browser\<close>). The cutoff is recorded, then the registered
  sockets are scanned under the hub lock, then they are closed one by one, then the event streams
  are ended, with awaits in between; a browser registers and only then is checked against the
  cutoffs. The system is the hub of theory \<open>HubSystem\<close> with the authorization service, the checks
  still to be made, the revokes under way and the event streams. A revoke that has been started is
  not cancelled.
\<close>

subsection \<open>The system\<close>

datatype revoke_phase = Recorded | Closing "sock list" nat

record viewer_system =
  vs_sys :: system
  vs_authz :: authz_service
  vs_checks :: "(string \<times> sock) set"
  vs_ended :: "(string \<times> sock) set"
  vs_revokes :: "nat \<Rightarrow> (revocation \<times> revoke_phase) option"
  vs_answers :: "revoke_answer list"
  vs_streams :: streams
  vs_next_event :: nat
  vs_set_events :: "nat set"
  vs_refused_streams :: "nat set"

text \<open>\<open>close_revoked_viewers\<close>: the sockets chosen under the lock, by principal alone.\<close>

definition revoked_sockets :: "(sock \<Rightarrow> principal option) \<Rightarrow> authz_service \<Rightarrow> hub \<Rightarrow> string \<Rightarrow> sock list" where
  "revoked_sockets prin s h sid =
     filter (\<lambda>ws. revoked s (prin ws) sid)
       (case find_worker h sid of None \<Rightarrow> [] | Some st \<Rightarrow> map fst (browsers st))"

text \<open>
  \<open>refuse_revoked_registration\<close>: whether the socket just registered is refused, which ends it. The
  registration itself is undone by \<open>cleanup_browser_disconnect\<close>, a task of the hub like any other.
\<close>

definition recheck :: "(sock \<Rightarrow> principal option) \<Rightarrow> viewer_system \<Rightarrow> string \<Rightarrow> sock \<Rightarrow> viewer_system" where
  "recheck prin v wid ws =
     v\<lparr>vs_checks := vs_checks v - {(wid, ws)},
       vs_ended := (if socket_share_viewer_revoked (Some (vs_authz v)) (prin ws) wid
                    then insert (wid, ws) (vs_ended v) else vs_ended v)\<rparr>"

text \<open>The turns of a revoke after the recording: the scan, one close, and the streams with the answer.\<close>

definition revoke_turn :: "(sock \<Rightarrow> principal option) \<Rightarrow> viewer_system \<Rightarrow> nat \<Rightarrow> viewer_system" where
  "revoke_turn prin v tid =
     (case vs_revokes v tid of
        None \<Rightarrow> v
      | Some (rv, Recorded) \<Rightarrow>
          let targets = revoked_sockets prin (vs_authz v) (sys_hub (vs_sys v)) (rv_session rv)
          in v\<lparr>vs_revokes := (vs_revokes v)(tid := Some (rv, Closing targets (length targets)))\<rparr>
      | Some (rv, Closing (ws # rest) n) \<Rightarrow>
          v\<lparr>vs_revokes := (vs_revokes v)(tid := Some (rv, Closing rest n)),
            vs_ended := insert (rv_session rv, ws) (vs_ended v)\<rparr>
      | Some (rv, Closing [] n) \<Rightarrow>
          let events = streams_revoke (vs_streams v) (vs_authz v) (rv_session rv)
          in v\<lparr>vs_revokes := (vs_revokes v)(tid := None), vs_set_events := vs_set_events v \<union> set events,
               vs_answers := vs_answers v @ [revoke_viewers_answer rv (n + length events)]\<rparr>)"

definition open_stream :: "viewer_system \<Rightarrow> string \<Rightarrow> principal \<Rightarrow> viewer_system" where
  "open_stream v sid p =
     (let ended = vs_next_event v
      in v\<lparr>vs_next_event := Suc ended, vs_streams := streams_open (vs_streams v) sid ended p,
           vs_refused_streams := (if share_viewer_revoked (vs_authz v) p sid
                                  then insert ended (vs_refused_streams v) else vs_refused_streams v)\<rparr>)"

text \<open>
  The steps. A browser that registers is not ended yet; between its registration and its check the
  handshake may fail, and the framework then closes the socket.
\<close>

inductive viewer_step :: "(sock \<Rightarrow> principal option) \<Rightarrow> provider \<Rightarrow> viewer_system \<Rightarrow> viewer_system \<Rightarrow> bool"
  for prin :: "sock \<Rightarrow> principal option" and pv :: provider where
  vstep_hub:
    "hub_step (vs_sys v) y \<Longrightarrow> fewer (sys_hub (vs_sys v)) (sys_hub y) \<Longrightarrow> viewer_step prin pv v (v\<lparr>vs_sys := y\<rparr>)"
| vstep_register:
    "register_browser (sys_hub (vs_sys v)) wid ws role defer sub m (sys_now (vs_sys v)) = (Inr b, h') \<Longrightarrow>
     viewer_step prin pv v
       (v\<lparr>vs_sys := (vs_sys v)\<lparr>sys_hub := h'\<rparr>, vs_checks := insert (wid, ws) (vs_checks v),
          vs_ended := vs_ended v - {(wid, ws)}\<rparr>)"
| vstep_recheck:
    "(wid, ws) \<in> vs_checks v \<Longrightarrow> viewer_step prin pv v (recheck prin v wid ws)"
| vstep_handshake_fails:
    "(wid, ws) \<in> vs_checks v \<Longrightarrow>
     viewer_step prin pv v (v\<lparr>vs_checks := vs_checks v - {(wid, ws)}, vs_ended := insert (wid, ws) (vs_ended v)\<rparr>)"
| vstep_record:
    "vs_revokes v tid = None \<Longrightarrow>
     revoke_viewers_record pv p sd requested known now (vs_authz v) = (Inr rv, s') \<Longrightarrow>
     viewer_step prin pv v (v\<lparr>vs_authz := s', vs_revokes := (vs_revokes v)(tid := Some (rv, Recorded))\<rparr>)"
| vstep_refused:
    "revoke_viewers_record pv p sd requested known now (vs_authz v) = (Inl e, s') \<Longrightarrow>
     viewer_step prin pv v (v\<lparr>vs_authz := s'\<rparr>)"
| vstep_turn:
    "viewer_step prin pv v (revoke_turn prin v tid)"
| vstep_open_stream:
    "is_share_viewer p sid \<Longrightarrow> viewer_step prin pv v (open_stream v sid p)"
| vstep_close_stream:
    "viewer_step prin pv v (v\<lparr>vs_streams := streams_close (vs_streams v) sid ended\<rparr>)"

definition viewer_init :: "viewer_system \<Rightarrow> bool" where
  "viewer_init v \<longleftrightarrow> hub_init (vs_sys v) \<and> vs_authz v = new_authz_service \<and> vs_checks v = {} \<and>
     vs_revokes v = (\<lambda>_. None) \<and> vs_streams v = []"

text \<open>Every step of the hub is a step here: the side condition of the first rule leaves none out.\<close>

lemma hub_step_viewer:
  assumes "hub_step (vs_sys v) y" "hub_inv (vs_sys v)"
  shows "\<exists>v'. viewer_step prin pv v v' \<and> vs_sys v' = y"
proof -
  from hub_step_fewer [OF assms] show ?thesis
  proof (elim disjE exE conjE)
    assume "fewer (sys_hub (vs_sys v)) (sys_hub y)"
    from vstep_hub [OF assms(1) this] show ?thesis by fastforce
  next
    fix wid ws role d sub m b h'
    assume r: "register_browser (sys_hub (vs_sys v)) wid ws role d sub m (sys_now (vs_sys v)) = (Inr b, h')"
      and y: "y = (vs_sys v)\<lparr>sys_hub := h'\<rparr>"
    from vstep_register [OF r] y show ?thesis by fastforce
  qed
qed

subsection \<open>Streams of one session\<close>

definition streams_ok :: "streams \<Rightarrow> bool" where
  "streams_ok r \<longleftrightarrow> od_ok r \<and> (\<forall>sid. od_ok (streams_of r sid))"

lemma streams_open_of:
  "streams_of (streams_open r sid e p) k = (if k = sid then od_set (streams_of r sid) e p else streams_of r k)"
  by (auto simp: streams_open_def streams_of_def)

lemma streams_close_of:
  "od_ok r \<Longrightarrow> streams_of (streams_close r sid e) k = (if k = sid then od_pop (streams_of r sid) e else streams_of r k)"
  by (auto simp: streams_close_def streams_of_def Let_def)

lemma streams_ok_open: "streams_ok r \<Longrightarrow> streams_ok (streams_open r sid e p)"
  by (auto simp: streams_ok_def streams_open_of) (simp add: streams_open_def od_ok_set)

lemma streams_ok_close: "streams_ok r \<Longrightarrow> streams_ok (streams_close r sid e)"
  by (auto simp: streams_ok_def streams_close_of od_ok_pop) (simp add: streams_close_def Let_def od_ok_set od_ok_pop)

lemma streams_revoke_mem:
  "od_get (streams_of r sid) e = Some p \<Longrightarrow> share_viewer_revoked s p sid \<Longrightarrow> e \<in> set (streams_revoke r s sid)"
  by (force simp: streams_revoke_def dest: od_get_in)

lemma revoked_sockets_iff:
  "ws \<in> set (revoked_sockets prin s h sid) \<longleftrightarrow> ws \<in> sockets h sid \<and> revoked s (prin ws) sid"
  by (auto simp: revoked_sockets_def sockets_def split: option.split)

subsection \<open>The invariant\<close>

text \<open>
  Who will end a socket of a revoked viewer, if it has not been ended: its own check, or a revoke that
  has yet to scan, or one that has it among its targets. For a stream: any revoke of its session.
\<close>

fun covers :: "revoke_phase \<Rightarrow> sock \<Rightarrow> bool" where
  "covers Recorded ws = True"
| "covers (Closing targets n) ws = (ws \<in> set targets)"

definition socket_pending :: "viewer_system \<Rightarrow> string \<Rightarrow> sock \<Rightarrow> bool" where
  "socket_pending v sid ws \<longleftrightarrow>
     (sid, ws) \<in> vs_checks v \<or>
     (\<exists>tid rv ph. vs_revokes v tid = Some (rv, ph) \<and> rv_session rv = sid \<and>
        covers ph ws)"

definition stream_pending :: "viewer_system \<Rightarrow> string \<Rightarrow> bool" where
  "stream_pending v sid \<longleftrightarrow> (\<exists>tid rv ph. vs_revokes v tid = Some (rv, ph) \<and> rv_session rv = sid)"

definition sockets_covered :: "(sock \<Rightarrow> principal option) \<Rightarrow> viewer_system \<Rightarrow> bool" where
  "sockets_covered prin v \<longleftrightarrow>
     (\<forall>sid ws. ws \<in> sockets (sys_hub (vs_sys v)) sid \<longrightarrow> revoked (vs_authz v) (prin ws) sid \<longrightarrow>
        (sid, ws) \<in> vs_ended v \<or> socket_pending v sid ws)"

definition streams_covered :: "viewer_system \<Rightarrow> bool" where
  "streams_covered v \<longleftrightarrow>
     (\<forall>sid e p. od_get (streams_of (vs_streams v) sid) e = Some p \<longrightarrow> share_viewer_revoked (vs_authz v) p sid \<longrightarrow>
        e \<in> vs_set_events v \<or> e \<in> vs_refused_streams v \<or> stream_pending v sid)"

definition viewer_inv :: "(sock \<Rightarrow> principal option) \<Rightarrow> viewer_system \<Rightarrow> bool" where
  "viewer_inv prin v \<longleftrightarrow> hub_inv (vs_sys v) \<and> service_ok (vs_authz v) \<and> streams_ok (vs_streams v) \<and>
     sockets_covered prin v \<and> streams_covered v"

lemma sockets_coveredD:
  "sockets_covered prin v \<Longrightarrow> ws \<in> sockets (sys_hub (vs_sys v)) sid \<Longrightarrow> revoked (vs_authz v) (prin ws) sid \<Longrightarrow>
   (sid, ws) \<in> vs_ended v \<or> socket_pending v sid ws"
  unfolding sockets_covered_def by blast

lemma streams_coveredD:
  "streams_covered v \<Longrightarrow> od_get (streams_of (vs_streams v) sid) e = Some p \<Longrightarrow> share_viewer_revoked (vs_authz v) p sid \<Longrightarrow>
   e \<in> vs_set_events v \<or> e \<in> vs_refused_streams v \<or> stream_pending v sid"
  unfolding streams_covered_def by blast

text \<open>A new cutoff is covered by the revoke that recorded it.\<close>

lemma covered_record:
  assumes inv: "viewer_inv prin v" and free: "vs_revokes v tid = None"
    and r: "revoke_viewers_record pv p sd requested known now (vs_authz v) = (res, s')"
    and v': "v' = v\<lparr>vs_authz := s', vs_revokes := (case res of Inl e \<Rightarrow> vs_revokes v
        | Inr rv \<Rightarrow> (vs_revokes v)(tid := Some (rv, Recorded)))\<rparr>"
  shows "viewer_inv prin v'"
proof -
  have ok: "service_ok (vs_authz v)" using inv by (simp add: viewer_inv_def)
  note rec = record_ok_targets [OF ok r]
  have new: "share_viewer_revoked (vs_authz v) q k \<or> (\<exists>rv. res = Inr rv \<and> k = rv_session rv)"
    if "share_viewer_revoked s' q k" for q k
    using rec(2) that unfolding targets_only_def in_scope_def by blast
  have keep: "vs_revokes v t = Some x \<Longrightarrow> vs_revokes v' t = Some x" for t x
    using free by (auto simp: v' split: sum.split)
  have started: "res = Inr rv \<Longrightarrow> vs_revokes v' tid = Some (rv, Recorded)" for rv by (simp add: v')
  have sp: "socket_pending v sid ws \<Longrightarrow> socket_pending v' sid ws" for sid ws
    unfolding socket_pending_def using keep by (auto simp: v') metis+
  have tp: "stream_pending v sid \<Longrightarrow> stream_pending v' sid" for sid
    unfolding stream_pending_def using keep by blast
  have "sockets_covered prin v'"
    unfolding sockets_covered_def
  proof (intro allI impI)
    fix sid ws assume a: "ws \<in> sockets (sys_hub (vs_sys v')) sid" and "revoked (vs_authz v') (prin ws) sid"
    then obtain q where q: "prin ws = Some q" "share_viewer_revoked s' q sid"
      by (auto simp: revoked_def v' split: option.splits)
    from new [OF q(2)] show "(sid, ws) \<in> vs_ended v' \<or> socket_pending v' sid ws"
    proof (elim disjE exE conjE)
      assume "share_viewer_revoked (vs_authz v) q sid"
      with q a inv have "(sid, ws) \<in> vs_ended v \<or> socket_pending v sid ws"
        by (intro sockets_coveredD [of prin]) (auto simp: viewer_inv_def revoked_def v')
      with sp show ?thesis by (auto simp: v')
    next
      fix rv assume "res = Inr rv" "sid = rv_session rv"
      with started show ?thesis unfolding socket_pending_def by fastforce
    qed
  qed
  moreover have "streams_covered v'"
    unfolding streams_covered_def
  proof (intro allI impI)
    fix sid e q assume a: "od_get (streams_of (vs_streams v') sid) e = Some q" "share_viewer_revoked (vs_authz v') q sid"
    then have "share_viewer_revoked s' q sid" by (simp add: v')
    from new [OF this] show "e \<in> vs_set_events v' \<or> e \<in> vs_refused_streams v' \<or> stream_pending v' sid"
    proof (elim disjE exE conjE)
      assume "share_viewer_revoked (vs_authz v) q sid"
      with a inv have "e \<in> vs_set_events v \<or> e \<in> vs_refused_streams v \<or> stream_pending v sid"
        by (intro streams_coveredD) (auto simp: viewer_inv_def v')
      with tp show ?thesis by (auto simp: v')
    next
      fix rv assume "res = Inr rv" "sid = rv_session rv"
      with started show ?thesis unfolding stream_pending_def by fastforce
    qed
  qed
  ultimately show ?thesis using inv rec(1) by (simp add: viewer_inv_def v')
qed

text \<open>A service that refuses fewer viewers changes nothing.\<close>

lemma inv_weaker:
  assumes inv: "viewer_inv prin v" and "service_ok s'"
    and "\<And>q k. share_viewer_revoked s' q k \<Longrightarrow> share_viewer_revoked (vs_authz v) q k"
  shows "viewer_inv prin (v\<lparr>vs_authz := s'\<rparr>)"
proof -
  have "revoked s' p sid \<Longrightarrow> revoked (vs_authz v) p sid" for p sid
    using assms(3) by (auto simp: revoked_def split: option.splits)
  then have "sockets_covered prin (v\<lparr>vs_authz := s'\<rparr>)"
    using inv by (auto simp: viewer_inv_def sockets_covered_def socket_pending_def)
  moreover have "streams_covered (v\<lparr>vs_authz := s'\<rparr>)"
    using inv assms(3) by (auto simp: viewer_inv_def streams_covered_def stream_pending_def)
  ultimately show ?thesis using inv assms(2) by (simp add: viewer_inv_def)
qed

text \<open>What a step that leaves the cutoffs alone has to show.\<close>

lemma sockets_coveredI:
  assumes inv: "viewer_inv prin v" and "vs_authz v' = vs_authz v"
    and s: "\<And>sid ws. ws \<in> sockets (sys_hub (vs_sys v')) sid \<Longrightarrow>
      ws \<in> sockets (sys_hub (vs_sys v)) sid \<or> (sid, ws) \<in> vs_checks v'"
    and e: "\<And>sid ws. (sid, ws) \<in> vs_ended v \<Longrightarrow> (sid, ws) \<in> vs_ended v' \<or> (sid, ws) \<in> vs_checks v'"
    and p: "\<And>sid ws. socket_pending v sid ws \<Longrightarrow> revoked (vs_authz v) (prin ws) sid \<Longrightarrow>
      ws \<in> sockets (sys_hub (vs_sys v)) sid \<Longrightarrow> (sid, ws) \<in> vs_ended v' \<or> socket_pending v' sid ws"
  shows "sockets_covered prin v'"
  unfolding sockets_covered_def
proof (intro allI impI)
  fix sid ws assume a: "ws \<in> sockets (sys_hub (vs_sys v')) sid" "revoked (vs_authz v') (prin ws) sid"
  have c: "(sid, ws) \<in> vs_checks v' \<Longrightarrow> socket_pending v' sid ws" by (simp add: socket_pending_def)
  have "sockets_covered prin v" using inv by (simp add: viewer_inv_def)
  from sockets_coveredD [OF this, of ws sid] s [OF a(1)] e [of sid ws] p [of sid ws] c a(2) assms(2)
  show "(sid, ws) \<in> vs_ended v' \<or> socket_pending v' sid ws" by auto
qed

lemma streams_coveredI:
  assumes inv: "viewer_inv prin v" and "vs_authz v' = vs_authz v"
    and s: "\<And>sid e q. od_get (streams_of (vs_streams v') sid) e = Some q \<Longrightarrow> share_viewer_revoked (vs_authz v) q sid \<Longrightarrow>
      od_get (streams_of (vs_streams v) sid) e = Some q \<or> e \<in> vs_refused_streams v'"
    and e: "vs_set_events v \<subseteq> vs_set_events v'" "vs_refused_streams v \<subseteq> vs_refused_streams v'"
    and p: "\<And>sid e q. stream_pending v sid \<Longrightarrow> od_get (streams_of (vs_streams v) sid) e = Some q \<Longrightarrow>
      share_viewer_revoked (vs_authz v) q sid \<Longrightarrow> e \<in> vs_set_events v' \<or> stream_pending v' sid"
  shows "streams_covered v'"
  unfolding streams_covered_def
proof (intro allI impI)
  fix sid e q assume a: "od_get (streams_of (vs_streams v') sid) e = Some q" "share_viewer_revoked (vs_authz v') q sid"
  have "streams_covered v" using inv by (simp add: viewer_inv_def)
  from streams_coveredD [OF this, of sid e q] s [OF a(1)] p [of sid e q] a(2) assms(2) e
  show "e \<in> vs_set_events v' \<or> e \<in> vs_refused_streams v' \<or> stream_pending v' sid" by auto
qed

lemma pending_fun_upd:
  assumes t: "vs_revokes v tid = Some (rv, ph)" and p: "socket_pending v sid ws"
    and v': "vs_checks v' = vs_checks v" "vs_revokes v' = (vs_revokes v)(tid := x)"
    and x: "sid = rv_session rv \<Longrightarrow> covers ph ws \<Longrightarrow> fin \<or> (\<exists>ph'. x = Some (rv, ph') \<and> covers ph' ws)"
  shows "fin \<or> socket_pending v' sid ws"
  using p [unfolded socket_pending_def]
proof (elim disjE exE conjE)
  fix t' r' p' assume a: "vs_revokes v t' = Some (r', p')" "rv_session r' = sid" "covers p' ws"
  show ?thesis
  proof (cases "t' = tid")
    case True
    with a t have e: "r' = rv" "p' = ph" by auto
    with x a v'(2) show ?thesis unfolding socket_pending_def by (metis fun_upd_same)
  next
    case False
    with a v'(2) show ?thesis unfolding socket_pending_def by (metis fun_upd_other)
  qed
qed (use v'(1) in \<open>simp add: socket_pending_def\<close>)

lemma stream_pending_upd:
  assumes t: "vs_revokes v tid = Some (rv, ph)" and p: "stream_pending v sid"
    and v': "vs_revokes v' = (vs_revokes v)(tid := x)" and x: "sid = rv_session rv \<Longrightarrow> fin \<or> (\<exists>ph'. x = Some (rv, ph'))"
  shows "fin \<or> stream_pending v' sid"
  using p [unfolded stream_pending_def]
proof (elim exE conjE)
  fix t' r' p' assume a: "vs_revokes v t' = Some (r', p')" "rv_session r' = sid"
  show ?thesis
  proof (cases "t' = tid")
    case True
    with a t have "r' = rv" by auto
    with x a v' show ?thesis unfolding stream_pending_def by (metis fun_upd_same)
  next
    case False
    with a v' show ?thesis unfolding stream_pending_def by (metis fun_upd_other)
  qed
qed

text \<open>A turn changes the entry of its own revoke, whose successor still covers what is left to do.\<close>

lemma turn_frame:
  assumes t: "vs_revokes v tid = Some (rv, ph)"
  shows "vs_sys (revoke_turn prin v tid) = vs_sys v" "vs_authz (revoke_turn prin v tid) = vs_authz v"
    "vs_streams (revoke_turn prin v tid) = vs_streams v" "vs_checks (revoke_turn prin v tid) = vs_checks v"
    "vs_refused_streams (revoke_turn prin v tid) = vs_refused_streams v"
    "vs_ended v \<subseteq> vs_ended (revoke_turn prin v tid)" "vs_set_events v \<subseteq> vs_set_events (revoke_turn prin v tid)"
    "vs_revokes (revoke_turn prin v tid) = (vs_revokes v)(tid := vs_revokes (revoke_turn prin v tid) tid)"
  using t by (auto simp: revoke_turn_def Let_def split: revoke_phase.split list.split)

lemma turn_sockets:
  assumes t: "vs_revokes v tid = Some (rv, ph)" and "covers ph ws"
    and "ws \<in> sockets (sys_hub (vs_sys v)) (rv_session rv)" "revoked (vs_authz v) (prin ws) (rv_session rv)"
  shows "(rv_session rv, ws) \<in> vs_ended (revoke_turn prin v tid) \<or>
    (\<exists>ph'. vs_revokes (revoke_turn prin v tid) tid = Some (rv, ph') \<and> covers ph' ws)"
  using assms by (auto simp: revoke_turn_def Let_def revoked_sockets_iff split: revoke_phase.splits list.splits)

lemma turn_streams:
  assumes t: "vs_revokes v tid = Some (rv, ph)"
    and "od_get (streams_of (vs_streams v) (rv_session rv)) e = Some q" "share_viewer_revoked (vs_authz v) q (rv_session rv)"
  shows "e \<in> vs_set_events (revoke_turn prin v tid) \<or> (\<exists>ph'. vs_revokes (revoke_turn prin v tid) tid = Some (rv, ph'))"
  using t streams_revoke_mem [OF assms(2,3)]
  by (auto simp: revoke_turn_def Let_def split: revoke_phase.split list.split)

lemma inv_turn:
  assumes inv: "viewer_inv prin v" shows "viewer_inv prin (revoke_turn prin v tid)" (is "viewer_inv prin ?v'")
proof (cases "vs_revokes v tid")
  case None
  then show ?thesis using inv by (simp add: revoke_turn_def)
next
  case (Some t)
  obtain rv ph where t: "vs_revokes v tid = Some (rv, ph)" using Some by (cases t) auto
  note fr = turn_frame [OF t, of prin]
  have "sockets_covered prin ?v'"
  proof (rule sockets_coveredI [OF inv])
    fix sid ws assume p: "socket_pending v sid ws" "revoked (vs_authz v) (prin ws) sid" "ws \<in> sockets (sys_hub (vs_sys v)) sid"
    show "(sid, ws) \<in> vs_ended ?v' \<or> socket_pending ?v' sid ws"
      by (rule pending_fun_upd [OF t p(1) fr(4,8)]) (use turn_sockets [OF t] p(2,3) in simp)
  qed (use fr in auto)
  moreover have "streams_covered ?v'"
  proof (rule streams_coveredI [OF inv])
    fix sid e q assume p: "stream_pending v sid" "od_get (streams_of (vs_streams v) sid) e = Some q"
      "share_viewer_revoked (vs_authz v) q sid"
    show "e \<in> vs_set_events ?v' \<or> stream_pending ?v' sid"
      by (rule stream_pending_upd [OF t p(1) fr(8)]) (use turn_streams [OF t] p(2,3) in simp)
  qed (use fr in auto)
  ultimately show ?thesis using inv fr by (simp add: viewer_inv_def)
qed

text \<open>Steps that move the hub, the checks or the ended sockets and leave the revokes and streams alone.\<close>

lemma inv_sockets_step:
  assumes inv: "viewer_inv prin v" and h: "hub_inv (vs_sys v')"
    and f: "vs_authz v' = vs_authz v" "vs_streams v' = vs_streams v" "vs_revokes v' = vs_revokes v"
      "vs_set_events v' = vs_set_events v" "vs_refused_streams v' = vs_refused_streams v"
    and s: "\<And>sid ws. ws \<in> sockets (sys_hub (vs_sys v')) sid \<Longrightarrow>
      ws \<in> sockets (sys_hub (vs_sys v)) sid \<or> (sid, ws) \<in> vs_checks v'"
    and e: "\<And>sid ws. (sid, ws) \<in> vs_ended v \<Longrightarrow> (sid, ws) \<in> vs_ended v' \<or> (sid, ws) \<in> vs_checks v'"
    and c: "\<And>sid ws. (sid, ws) \<in> vs_checks v \<Longrightarrow> revoked (vs_authz v) (prin ws) sid \<Longrightarrow>
      (sid, ws) \<in> vs_checks v' \<or> (sid, ws) \<in> vs_ended v'"
  shows "viewer_inv prin v'"
proof -
  have "sockets_covered prin v'"
    by (rule sockets_coveredI [OF inv f(1) s e]) (use c f(3) in \<open>auto simp: socket_pending_def\<close>)
  moreover have "streams_covered v'"
    using inv f by (simp add: viewer_inv_def streams_covered_def stream_pending_def)
  ultimately show ?thesis using inv h f by (simp add: viewer_inv_def)
qed

lemma inv_streams_step:
  assumes inv: "viewer_inv prin v"
    and f: "vs_sys v' = vs_sys v" "vs_authz v' = vs_authz v" "vs_checks v' = vs_checks v" "vs_ended v' = vs_ended v"
      "vs_revokes v' = vs_revokes v" "vs_set_events v' = vs_set_events v" "vs_refused_streams v \<subseteq> vs_refused_streams v'"
    and ok: "streams_ok (vs_streams v')"
    and s: "\<And>sid e q. od_get (streams_of (vs_streams v') sid) e = Some q \<Longrightarrow> share_viewer_revoked (vs_authz v) q sid \<Longrightarrow>
      od_get (streams_of (vs_streams v) sid) e = Some q \<or> e \<in> vs_refused_streams v'"
  shows "viewer_inv prin v'"
proof -
  have "streams_covered v'"
    by (rule streams_coveredI [OF inv f(2) s]) (use f in \<open>auto simp: stream_pending_def\<close>)
  moreover have "sockets_covered prin v'"
    using inv f by (simp add: viewer_inv_def sockets_covered_def socket_pending_def)
  ultimately show ?thesis using inv ok f by (simp add: viewer_inv_def)
qed

lemma viewer_step_inv:
  assumes "viewer_step prin pv v v'" "viewer_inv prin v"
  shows "viewer_inv prin v'"
  using assms
proof (induction rule: viewer_step.induct)
  case (vstep_hub v y)
  have "hub_inv y" using hub_step_inv vstep_hub(1,3) by (simp add: viewer_inv_def)
  then show ?case
    by (rule_tac inv_sockets_step [OF vstep_hub(3)]) (use vstep_hub(2) in \<open>auto simp: fewer_def\<close>)
next
  case (vstep_register v wid ws role d sub m b h')
  have "hub_step (vs_sys v) ((vs_sys v)\<lparr>sys_hub := h'\<rparr>)"
    using step_register_browser [of "vs_sys v" wid ws role d sub m] vstep_register(1) by simp
  then have h: "hub_inv ((vs_sys v)\<lparr>sys_hub := h'\<rparr>)" using hub_step_inv vstep_register(2) by (simp add: viewer_inv_def)
  have "w = wid \<and> x = ws" if "x \<in> sockets h' w" "x \<notin> sockets (sys_hub (vs_sys v)) w" for x w
    using that register_sockets [OF vstep_register(1), of w] by (auto split: if_splits)
  with h show ?case by (rule_tac inv_sockets_step [OF vstep_register(2)]) auto
next
  case (vstep_recheck wid ws v)
  then have "hub_inv (vs_sys v)" by (simp add: viewer_inv_def)
  then show ?case
    by (rule_tac inv_sockets_step [OF vstep_recheck(2)]) (auto simp: recheck_def socket_share_viewer_revoked_def)
next
  case (vstep_handshake_fails wid ws v)
  then have "hub_inv (vs_sys v)" by (simp add: viewer_inv_def)
  then show ?case by (rule_tac inv_sockets_step [OF vstep_handshake_fails(2)]) auto
next
  case (vstep_record v tid p sd requested known now rv s')
  show ?case by (rule covered_record [OF vstep_record(3,1,2)]) simp
next
  case (vstep_refused p sd requested known now v e s')
  have ok: "service_ok (vs_authz v)" using vstep_refused(2) by (simp add: viewer_inv_def)
  show ?case by (rule inv_weaker [OF vstep_refused(2) record_ok_targets(1) [OF ok vstep_refused(1)]])
    (use record_ok_targets(2) [OF ok vstep_refused(1)] in \<open>auto simp: targets_only_def\<close>)
next
  case (vstep_turn v tid)
  then show ?case by (rule inv_turn)
next
  case (vstep_open_stream p sid v)
  then have "streams_ok (vs_streams v)" by (simp add: viewer_inv_def)
  then show ?case
    by (rule_tac inv_streams_step [OF vstep_open_stream(2)])
      (auto simp: open_stream_def Let_def streams_ok_open streams_open_of split: if_splits)
next
  case (vstep_close_stream v sid e)
  then have ok: "streams_ok (vs_streams v)" by (simp add: viewer_inv_def)
  then have "od_get (streams_of (streams_close (vs_streams v) sid e) k) x = Some q \<Longrightarrow>
      od_get (streams_of (vs_streams v) k) x = Some q" for k x q
    by (auto simp: streams_ok_def streams_close_of split: if_splits)
  with ok show ?case
    by (rule_tac inv_streams_step [OF vstep_close_stream]) (auto simp: streams_ok_close)
qed

interpretation viewer_revokes: safe_system viewer_init "viewer_step prin pv" "viewer_inv prin"
  for prin :: "sock \<Rightarrow> principal option" and pv :: provider
proof
  show "viewer_inv prin v" if "viewer_init v" for v
    using that hub_init_inv
    by (auto simp: viewer_init_def viewer_inv_def sockets_covered_def streams_covered_def streams_ok_def
        streams_of_def hub_init_def sockets_def find_worker_def)
qed (blast intro: viewer_step_inv)

subsection \<open>Properties\<close>

text \<open>C8: A revoked share viewer is cut off whatever the timing: in every reachable state of the hub, the
  revokes and the connections together, a registered browser socket whose principal the cutoffs
  refuse has been ended, or is still to be checked, or a revoke of the session is under way that has
  it among its targets or has yet to scan; and an open event stream of such a principal has been
  told to end, or was refused when it opened, or a revoke of the session is under way. So once no
  check and no revoke of the session is outstanding, every one of them has been ended.\<close>

theorem revoked_viewers_ended:
  assumes "reach viewer_init (viewer_step prin pv) v"
  shows "(ws \<in> sockets (sys_hub (vs_sys v)) sid \<and> revoked (vs_authz v) (prin ws) sid \<longrightarrow>
      (sid, ws) \<in> vs_ended v \<or> socket_pending v sid ws) \<and>
    (od_get (streams_of (vs_streams v) sid) e = Some p \<and> share_viewer_revoked (vs_authz v) p sid \<longrightarrow>
      e \<in> vs_set_events v \<or> e \<in> vs_refused_streams v \<or> stream_pending v sid)"
  using viewer_revokes.reach_inv [OF assms] unfolding viewer_inv_def sockets_covered_def streams_covered_def by blast

text \<open>A viewer that has connected and opened a stream when its session is revoked.\<close>

definition demo_prin :: "sock \<Rightarrow> principal option" where
  "demo_prin ws = (if ws = 7 then Some demo_viewer else None)"

definition demo_watching :: viewer_system where
  "demo_watching =
     \<lparr>vs_sys = demo_init\<lparr>sys_hub := snd (register_browser demo_hub ''a'' 7 ''viewer'' False None NoStore 0)\<rparr>,
      vs_authz = new_authz_service, vs_checks = {}, vs_ended = {}, vs_revokes = (\<lambda>_. None), vs_answers = [],
      vs_streams = [(''a'', [(0, demo_viewer)])], vs_next_event = 1, vs_set_events = {}, vs_refused_streams = {}\<rparr>"

definition demo_recorded :: viewer_system where
  "demo_recorded = demo_watching\<lparr>vs_authz := demo_cutoff, vs_revokes := (\<lambda>_. None)(0 := Some (demo_revocation, Recorded))\<rparr>"

lemma demo_watching_reachable: "reach viewer_init (viewer_step demo_prin demo_embedder) demo_watching"
proof -
  let ?v0 = "demo_watching\<lparr>vs_sys := demo_init, vs_streams := [], vs_next_event := 0\<rparr>"
  let ?v1 = "demo_watching\<lparr>vs_streams := [], vs_next_event := 0, vs_checks := {(''a'', 7)}\<rparr>"
  let ?v2 = "demo_watching\<lparr>vs_streams := [], vs_next_event := 0\<rparr>"
  obtain b where b: "register_browser demo_hub ''a'' 7 ''viewer'' False None NoStore 0 =
      (Inr b, snd (register_browser demo_hub ''a'' 7 ''viewer'' False None NoStore 0))"
    by (simp add: register_browser_def admit_principal_def Let_def case_prod_beta)
  have "reach viewer_init (viewer_step demo_prin demo_embedder) ?v0"
    by (rule reach_init) (simp add: viewer_init_def demo_watching_def hub_init_def demo_defs)
  moreover have "viewer_step demo_prin demo_embedder ?v0 ?v1"
    using vstep_register [of ?v0 "''a''" 7 "''viewer''" False None NoStore b _ demo_prin demo_embedder] b
    by (simp add: demo_watching_def demo_init_def)
  moreover have "viewer_step demo_prin demo_embedder ?v1 ?v2"
    using vstep_recheck [of "''a''" 7 ?v1 demo_prin demo_embedder]
    by (simp add: recheck_def demo_watching_def socket_share_viewer_revoked_def demo_prin_def revoked_def demo_not_revoked)
  moreover have "viewer_step demo_prin demo_embedder ?v2 demo_watching"
    using vstep_open_stream [of demo_viewer "''a''" demo_prin demo_embedder ?v2]
    by (simp add: open_stream_def demo_watching_def demo_not_revoked streams_open_def streams_of_def is_share_viewer_def
        demo_viewer_def share_prefix_def Let_def)
  ultimately show ?thesis by (blast intro: reach_step)
qed

definition demo_ended :: viewer_system where
  "demo_ended = revoke_turn demo_prin (revoke_turn demo_prin (revoke_turn demo_prin demo_recorded 0) 0) 0"

lemma demo_ended_reachable: "reach viewer_init (viewer_step demo_prin demo_embedder) demo_ended"
proof -
  have "viewer_step demo_prin demo_embedder demo_watching demo_recorded"
    using vstep_record [of demo_watching 0 demo_embedder demo_revoker demo_session "Inr None" "{}" 60 demo_revocation demo_cutoff]
      demo_record by (simp add: demo_recorded_def demo_watching_def)
  from reach_step [OF demo_watching_reachable this]
  have "reach viewer_init (viewer_step demo_prin demo_embedder) demo_recorded" .
  then show ?thesis unfolding demo_ended_def
    by (metis reach_step vstep_turn)
qed

lemma demo_ended_facts:
  "7 \<in> sockets (sys_hub (vs_sys demo_ended)) ''a''" "vs_authz demo_ended = demo_cutoff" "vs_checks demo_ended = {}"
  "vs_revokes demo_ended = (\<lambda>_. None)" "streams_of (vs_streams demo_ended) ''a'' = [(0, demo_viewer)]"
  "vs_refused_streams demo_ended = {}" "vs_answers demo_ended = [revoke_viewers_answer demo_revocation 2]"
  by (auto simp: demo_ended_def revoke_turn_def demo_recorded_def demo_watching_def demo_revocation_def demo_init_def
      register_browser_def admit_principal_def get_or_create_def create_worker_def new_worker_state_def find_worker_def
      put_worker_def Let_def demo_hub_def revoked_sockets_def revoked_def demo_prin_def demo_viewer_revoked sockets_def
      streams_of_def streams_revoke_def numeral_2_eq_2)

theorem revoked_viewers_ended_witness:
  "reach viewer_init (viewer_step demo_prin demo_embedder) demo_ended \<and>
   7 \<in> sockets (sys_hub (vs_sys demo_ended)) ''a'' \<and> (''a'', 7) \<in> vs_ended demo_ended \<and> 0 \<in> vs_set_events demo_ended"
proof -
  have "revoked (vs_authz demo_ended) (demo_prin 7) ''a''"
    by (simp add: revoked_def demo_prin_def demo_ended_facts demo_viewer_revoked)
  moreover have "\<not> socket_pending demo_ended ''a'' 7" "\<not> stream_pending demo_ended ''a''"
    by (simp_all add: socket_pending_def stream_pending_def demo_ended_facts)
  moreover note revoked_viewers_ended [OF demo_ended_reachable, of 7 "''a''" 0 demo_viewer]
  ultimately show ?thesis using demo_ended_reachable demo_ended_facts demo_viewer_revoked by simp
qed

text \<open>
  A revoke that is left to run finishes, in two turns and one for each socket it closes, with every
  revoked socket of its session ended and every revoked stream told to end, and its answer counts both.
\<close>

fun revoke_turns :: "nat \<Rightarrow> (sock \<Rightarrow> principal option) \<Rightarrow> viewer_system \<Rightarrow> nat \<Rightarrow> viewer_system" where
  "revoke_turns 0 prin v tid = v"
| "revoke_turns (Suc n) prin v tid = revoke_turns n prin (revoke_turn prin v tid) tid"

lemma close_turns:
  assumes "vs_revokes v tid = Some (rv, Closing targets n)"
  shows "revoke_turns (Suc (length targets)) prin v tid =
    (let events = streams_revoke (vs_streams v) (vs_authz v) (rv_session rv)
     in v\<lparr>vs_revokes := (vs_revokes v)(tid := None), vs_ended := vs_ended v \<union> Pair (rv_session rv) ` set targets,
          vs_set_events := vs_set_events v \<union> set events,
          vs_answers := vs_answers v @ [revoke_viewers_answer rv (n + length events)]\<rparr>)"
  using assms
proof (induction targets arbitrary: v)
  case Nil
  then show ?case by (simp add: revoke_turn_def Let_def fun_upd_def)
next
  case (Cons ws targets)
  let ?v = "v\<lparr>vs_revokes := (vs_revokes v)(tid := Some (rv, Closing targets n)), vs_ended := insert (rv_session rv, ws) (vs_ended v)\<rparr>"
  have "revoke_turn prin v tid = ?v" using Cons.prems by (simp add: revoke_turn_def)
  then show ?case using Cons.IH [of ?v] by (simp add: Let_def fun_upd_def cong: if_cong)
qed



end
