(* ===== verification/Egress.thy ===== *)
theory Egress
  imports Prelude Utf8
begin

text \<open>
  Where the server may connect to: the guard of session connectors and of policy webhooks
  (\<open>server/egress.py\<close>) and the address check of event webhooks (\<open>server/webhooks.py\<close>), over the
  addresses of Python's \<open>ipaddress\<close>. Parsing an address or a URL and resolving a name are parameters.
\<close>

subsection \<open>Addresses\<close>

text \<open>
  An address is its integer; an IPv6 address may carry a zone (\<open>%eth0\<close>), which takes part in
  equality and in nothing else. The constants are those of CPython 3.11.10.
\<close>

datatype ip = V4 nat | V6 nat "pystr option"

definition in_net :: "nat \<Rightarrow> nat \<Rightarrow> nat \<times> nat \<Rightarrow> bool" where
  "in_net width a net = (a div 2 ^ (width - snd net) = fst net div 2 ^ (width - snd net))"

abbreviation in4 :: "nat \<Rightarrow> nat \<times> nat \<Rightarrow> bool" where "in4 \<equiv> in_net 32"
abbreviation in6 :: "nat \<Rightarrow> nat \<times> nat \<Rightarrow> bool" where "in6 \<equiv> in_net 128"

fun v4 :: "nat \<Rightarrow> nat \<Rightarrow> nat \<Rightarrow> nat \<Rightarrow> nat" where
  "v4 a b c d = ((a * 256 + b) * 256 + c) * 256 + d"

definition v6 :: "nat list \<Rightarrow> nat" where
  "v6 groups = fold (\<lambda>g n. n * 65536 + g) groups 0 * 65536 ^ (8 - length groups)"

definition private4 :: "nat \<Rightarrow> bool" where
  "private4 a \<longleftrightarrow>
     list_ex (in4 a)
       [(v4 0 0 0 0, 8), (v4 10 0 0 0, 8), (v4 127 0 0 0, 8), (v4 169 254 0 0, 16), (v4 172 16 0 0, 12),
        (v4 192 0 0 0, 24), (v4 192 0 0 170, 31), (v4 192 0 2 0, 24), (v4 192 168 0 0, 16), (v4 198 18 0 0, 15),
        (v4 198 51 100 0, 24), (v4 203 0 113 0, 24), (v4 240 0 0 0, 4), (v4 255 255 255 255, 32)] \<and>
     \<not> list_ex (in4 a) [(v4 192 0 0 9, 32), (v4 192 0 0 10, 32)]"

definition private6 :: "nat \<Rightarrow> bool" where
  "private6 a \<longleftrightarrow>
     list_ex (in6 a)
       [(1, 128), (0, 128), (v6 [0, 0, 0, 0, 0, 0xffff], 96), (v6 [0x64, 0xff9b, 1], 48), (v6 [0x100], 64),
        (v6 [0x2001], 23), (v6 [0x2001, 0xdb8], 32), (v6 [0x2002], 16), (v6 [0xfc00], 7), (v6 [0xfe80], 10)] \<and>
     \<not> list_ex (in6 a)
       [(v6 [0x2001, 1] + 1, 128), (v6 [0x2001, 1] + 2, 128), (v6 [0x2001, 3], 32), (v6 [0x2001, 4, 0x112], 48),
        (v6 [0x2001, 0x20], 28), (v6 [0x2001, 0x30], 28)]"

definition reserved6 :: "nat \<Rightarrow> bool" where
  "reserved6 a \<longleftrightarrow>
     list_ex (in6 a)
       [(0, 8), (v6 [0x100], 8), (v6 [0x200], 7), (v6 [0x400], 6), (v6 [0x800], 5), (v6 [0x1000], 4), (v6 [0x4000], 3),
        (v6 [0x6000], 3), (v6 [0x8000], 3), (v6 [0xa000], 3), (v6 [0xc000], 3), (v6 [0xe000], 4), (v6 [0xf000], 5),
        (v6 [0xf800], 6), (v6 [0xfe00], 9)]"

definition ipv4_mapped :: "nat \<Rightarrow> nat option" where
  "ipv4_mapped a = (if a div 2 ^ 32 = 0xffff then Some (a mod 2 ^ 32) else None)"

definition sixtofour :: "nat \<Rightarrow> nat option" where
  "sixtofour a = (if a div 2 ^ 112 = 0x2002 then Some (a div 2 ^ 80 mod 2 ^ 32) else None)"

text \<open>
  The properties of an address. In \<open>is_private\<close> a mapped address is judged by its IPv4 address; the
  other properties do so too from CPython 3.12.6 and 3.13 on, and did not before: \<open>through\<close>.
\<close>

definition by_mapped :: "bool \<Rightarrow> (nat \<Rightarrow> bool) \<Rightarrow> (nat \<Rightarrow> bool) \<Rightarrow> ip \<Rightarrow> bool" where
  "by_mapped through p4 p6 ip =
     (case ip of
        V4 a \<Rightarrow> p4 a
      | V6 a _ \<Rightarrow> (case ipv4_mapped a of Some b \<Rightarrow> if through then p4 b else p6 a | None \<Rightarrow> p6 a))"

definition loopback4 :: "nat \<Rightarrow> bool" where "loopback4 a = in4 a (v4 127 0 0 0, 8)"
definition link_local4 :: "nat \<Rightarrow> bool" where "link_local4 a = in4 a (v4 169 254 0 0, 16)"
definition multicast4 :: "nat \<Rightarrow> bool" where "multicast4 a = in4 a (v4 224 0 0 0, 4)"
definition reserved4 :: "nat \<Rightarrow> bool" where "reserved4 a = in4 a (v4 240 0 0 0, 4)"

definition is_private :: "ip \<Rightarrow> bool" where "is_private = by_mapped True private4 private6"
definition is_loopback :: "bool \<Rightarrow> ip \<Rightarrow> bool" where
  "is_loopback through = by_mapped through loopback4 (\<lambda>a. a = 1)"
definition is_link_local :: "bool \<Rightarrow> ip \<Rightarrow> bool" where
  "is_link_local through = by_mapped through link_local4 (\<lambda>a. in6 a (v6 [0xfe80], 10))"
definition is_multicast :: "bool \<Rightarrow> ip \<Rightarrow> bool" where
  "is_multicast through = by_mapped through multicast4 (\<lambda>a. in6 a (v6 [0xff00], 8))"
definition is_unspecified :: "bool \<Rightarrow> ip \<Rightarrow> bool" where
  "is_unspecified through = by_mapped through (\<lambda>a. a = 0) (\<lambda>a. a = 0)"
definition is_reserved :: "bool \<Rightarrow> ip \<Rightarrow> bool" where
  "is_reserved through = by_mapped through reserved4 reserved6"

definition METADATA_IPS :: "ip list" where
  "METADATA_IPS = [V4 (v4 169 254 169 254), V4 (v4 100 100 100 200), V6 (v6 [0xfd00, 0xec2] + 0x254) None]"

definition in_cgnat :: "ip \<Rightarrow> bool" where
  "in_cgnat ip = (case ip of V4 a \<Rightarrow> in4 a (v4 100 64 0 0, 10) | V6 _ _ \<Rightarrow> False)"

definition in_nat64 :: "nat \<Rightarrow> bool" where
  "in_nat64 a = in6 a (v6 [0x64, 0xff9b], 96)"

definition decode_embedded_ipv4 :: "nat \<Rightarrow> nat option" where
  "decode_embedded_ipv4 a =
     (if ipv4_mapped a \<noteq> None then ipv4_mapped a
      else if sixtofour a \<noteq> None then sixtofour a
      else if in_nat64 a then Some (a mod 2 ^ 32)
      else if a div 2 ^ 32 = 0 \<and> a mod 2 ^ 32 \<notin> {0, 1} then Some (a mod 2 ^ 32)
      else None)"

definition decoded :: "ip \<Rightarrow> ip" where
  "decoded ip = (case ip of V4 a \<Rightarrow> ip | V6 a _ \<Rightarrow> (case decode_embedded_ipv4 a of Some b \<Rightarrow> V4 b | None \<Rightarrow> ip))"

subsection \<open>The connector guard\<close>

datatype egress_error =
    NotAnAddress | Unresolved | MetadataBlocked | InternalBlocked
  | KeyPathUnsupported | UrlRequired | UrlInvalid | SchemeNotWs | UrlWithoutHost

definition check_resolved_ip :: "bool \<Rightarrow> bool \<Rightarrow> ip \<Rightarrow> egress_error option" where
  "check_resolved_ip through block_private ip =
     (let ip = decoded ip
      in if ip \<in> set METADATA_IPS then Some MetadataBlocked
         else if block_private \<and>
           (is_private ip \<or> is_loopback through ip \<or> is_link_local through ip \<or> is_multicast through ip \<or>
            is_unspecified through ip \<or> is_reserved through ip \<or> in_cgnat ip)
         then Some InternalBlocked else None)"

text \<open>\<open>host.strip().strip("[]")\<close>\<close>

definition strip_brackets :: "pystr \<Rightarrow> pystr" where
  "strip_brackets s =
     (let b = (\<lambda>c. c = 91 \<or> c = 93) in rev (dropWhile b (rev (dropWhile b s))))"

definition bare_host :: "pystr \<Rightarrow> pystr" where
  "bare_host host = strip_brackets (py_strip host)"

definition assert_ip_allowed :: "bool \<Rightarrow> (pystr \<Rightarrow> ip option) \<Rightarrow> bool \<Rightarrow> pystr \<Rightarrow> egress_error option" where
  "assert_ip_allowed through ip_address block_private s =
     (case ip_address (bare_host s) of
        None \<Rightarrow> Some NotAnAddress
      | Some ip \<Rightarrow> check_resolved_ip through block_private ip)"

text \<open>\<open>resolve\<close> is the resolver under its timeout; \<open>None\<close> is an \<open>OSError\<close>.\<close>

definition target_addresses ::
  "(pystr \<Rightarrow> ip option) \<Rightarrow> (ip \<Rightarrow> pystr) \<Rightarrow> (pystr \<Rightarrow> pystr list option) \<Rightarrow> pystr \<Rightarrow> egress_error + pystr list" where
  "target_addresses ip_address show_ip resolve h =
     (case ip_address h of
        Some ip \<Rightarrow> Inr [show_ip ip]
      | None \<Rightarrow>
          (case resolve h of
             None \<Rightarrow> Inl Unresolved
           | Some addrs \<Rightarrow> if addrs = [] then Inl Unresolved else Inr addrs))"

fun check_addresses :: "(ip \<Rightarrow> egress_error option) \<Rightarrow> (pystr \<Rightarrow> ip option) \<Rightarrow> pystr list \<Rightarrow> egress_error option" where
  "check_addresses check ip_address [] = None"
| "check_addresses check ip_address (addr # rest) =
     (case ip_address addr of
        None \<Rightarrow> Some NotAnAddress
      | Some ip \<Rightarrow> (case check ip of Some e \<Rightarrow> Some e | None \<Rightarrow> check_addresses check ip_address rest))"

definition assert_connector_target_allowed ::
  "bool \<Rightarrow> (pystr \<Rightarrow> ip option) \<Rightarrow> (ip \<Rightarrow> pystr) \<Rightarrow> (pystr \<Rightarrow> pystr list option) \<Rightarrow> bool \<Rightarrow> pystr \<Rightarrow> egress_error option" where
  "assert_connector_target_allowed through ip_address show_ip resolve block_private host =
     (case target_addresses ip_address show_ip resolve (bare_host host) of
        Inl e \<Rightarrow> Some e
      | Inr addrs \<Rightarrow> check_addresses (check_resolved_ip through block_private) ip_address addrs)"

text \<open>
  \<open>assert_session_egress_allowed\<close>. The connector's settings are a map of texts (the code takes
  \<open>str\<close> of a value that is there); \<open>url\<close> is what \<open>urlparse\<close> makes of a text: scheme and host name.
\<close>

definition assert_session_egress_allowed ::
  "(pystr \<Rightarrow> egress_error option) \<Rightarrow> (pystr \<Rightarrow> (pystr \<times> pystr option) option) \<Rightarrow> string \<Rightarrow> (string \<Rightarrow> pystr option) \<Rightarrow>
     egress_error option" where
  "assert_session_egress_allowed guard_host urlparse connector_type config =
     (if connector_type \<in> {''ssh'', ''telnet''} then
        (if connector_type = ''ssh'' \<and> config ''client_key_path'' \<noteq> None then Some KeyPathUnsupported
         else (case config ''host'' of None \<Rightarrow> None | Some h \<Rightarrow> guard_host h))
      else if connector_type = ''websocket'' then
        (case config ''url'' of
           None \<Rightarrow> Some UrlRequired
         | Some url \<Rightarrow>
             (case urlparse url of
                None \<Rightarrow> Some UrlInvalid
              | Some (scheme, hostname) \<Rightarrow>
                  if scheme \<notin> {pystr_of ''ws'', pystr_of ''wss''} then Some SchemeNotWs
                  else (case hostname of
                          None \<Rightarrow> Some UrlWithoutHost
                        | Some h \<Rightarrow> if h = [] then Some UrlWithoutHost else guard_host h)))
      else None)"

subsection \<open>The guard of policy webhooks\<close>

text \<open>
  \<open>_resolve_cached\<close>: \<open>fetched\<close> is what the resolver answers when it is asked, \<open>None\<close> an \<open>OSError\<close>.
\<close>

type_synonym dns_cache = "(pystr \<times> time \<times> pystr list) list"

definition EGRESS_DNS_TTL_S :: real where "EGRESS_DNS_TTL_S = 60"

definition resolve_cached :: "dns_cache \<Rightarrow> time \<Rightarrow> pystr list option \<Rightarrow> pystr \<Rightarrow> pystr list option \<times> dns_cache" where
  "resolve_cached cache now fetched host =
     (let fetch = (case fetched of None \<Rightarrow> (None, cache) | Some addrs \<Rightarrow> (Some addrs, od_set cache host (now, addrs)))
      in case od_get cache host of
           None \<Rightarrow> fetch
         | Some (stamp, addrs) \<Rightarrow> if now - stamp < EGRESS_DNS_TTL_S then (Some addrs, cache) else fetch)"

definition check_metadata :: "ip \<Rightarrow> egress_error option" where
  "check_metadata ip = (if decoded ip \<in> set METADATA_IPS then Some MetadataBlocked else None)"

definition assert_webhook_target_allowed ::
  "(pystr \<Rightarrow> ip option) \<Rightarrow> (ip \<Rightarrow> pystr) \<Rightarrow> (pystr \<Rightarrow> (pystr \<times> pystr option) option) \<Rightarrow>
     dns_cache \<Rightarrow> time \<Rightarrow> pystr list option \<Rightarrow> pystr \<Rightarrow> egress_error option \<times> dns_cache" where
  "assert_webhook_target_allowed ip_address show_ip urlparse cache now fetched url =
     (case urlparse url of
        None \<Rightarrow> (Some UrlInvalid, cache)
      | Some (scheme, hostname) \<Rightarrow>
          (case hostname of
             None \<Rightarrow> (None, cache)
           | Some host \<Rightarrow>
               if host = [] then (None, cache)
               else
                 (let h = bare_host host
                  in case ip_address h of
                       Some ip \<Rightarrow> (check_addresses check_metadata ip_address [show_ip ip], cache)
                     | None \<Rightarrow>
                         (case resolve_cached cache now fetched h of
                            (None, cache') \<Rightarrow> (Some Unresolved, cache')
                          | (Some addrs, cache') \<Rightarrow>
                              (if addrs = [] then Some Unresolved else check_addresses check_metadata ip_address addrs,
                               cache')))))"

subsection \<open>The address check of event webhooks\<close>

definition address_allowed :: "bool \<Rightarrow> bool \<Rightarrow> ip \<Rightarrow> bool" where
  "address_allowed through allow_loopback ip =
     (if ip \<in> set METADATA_IPS then False
      else if in_cgnat ip then False
      else if is_loopback through ip then allow_loopback
      else \<not> (is_private ip \<or> is_loopback through ip \<or> is_link_local through ip \<or> is_multicast through ip \<or>
              is_unspecified through ip \<or> is_reserved through ip))"

subsection \<open>Embedded addresses\<close>

lemma div_mono_pow: "a div 2 ^ m = b div 2 ^ m \<Longrightarrow> m \<le> n \<Longrightarrow> a div 2 ^ n = b div (2 ^ n :: nat)"
  by (metis div_mult2_eq le_add_diff_inverse power_add)

lemma top_bits: "a div 2 ^ m = c \<Longrightarrow> a div 2 ^ (m + n) = c div (2 ^ n :: nat)"
  by (simp add: power_add div_mult2_eq)

text \<open>Every embedding is in space that is reserved or private for IPv6.\<close>

lemma low_reserved: "a div 2 ^ 120 = 0 \<Longrightarrow> reserved6 a"
  by (simp add: reserved6_def in_net_def)

lemma mapped_reserved: "ipv4_mapped a = Some b \<Longrightarrow> reserved6 a"
  using top_bits [of a 32 _ 88] by (intro low_reserved) (auto simp: ipv4_mapped_def split: if_splits)

lemma nat64_reserved: "in_nat64 a \<Longrightarrow> reserved6 a"
  using top_bits [of a 32 _ 88] by (intro low_reserved) (auto simp: in_nat64_def in_net_def v6_def)

lemma compat_reserved: "a div 2 ^ 32 = 0 \<Longrightarrow> reserved6 a"
  using top_bits [of a 32 0 88] by (intro low_reserved) simp

lemma sixtofour_private:
  assumes "sixtofour a = Some b" shows "private6 a"
proof -
  have h: "a div 2 ^ 112 = 0x2002" using assms by (auto simp: sixtofour_def split: if_splits)
  have "in6 a (v6 [0x2002], 16)" using h by (simp add: in_net_def v6_def)
  moreover have "\<not> in6 a (w, n)" if "16 \<le> n" "w div 2 ^ 112 = 0x2001" "n \<le> 128" for w n
  proof
    assume "in6 a (w, n)"
    then have "a div 2 ^ (128 - n) = w div 2 ^ (128 - n)" by (simp add: in_net_def)
    from div_mono_pow [OF this, of 112] that h show False by simp
  qed
  ultimately show ?thesis unfolding private6_def by (simp add: v6_def)
qed

lemma embedded_cases:
  assumes "decode_embedded_ipv4 a = Some b"
  shows "ipv4_mapped a = Some b \<or> ipv4_mapped a = None \<and> (private6 a \<or> reserved6 a)"
  using assms sixtofour_private nat64_reserved compat_reserved
  by (auto simp: decode_embedded_ipv4_def split: if_splits)

lemma embedded_not_metadata: "decode_embedded_ipv4 a = Some b \<Longrightarrow> V6 a z \<notin> set METADATA_IPS"
  by (auto simp: METADATA_IPS_def v6_def decode_embedded_ipv4_def ipv4_mapped_def sixtofour_def in_nat64_def in_net_def)

lemma embedded_not_one: "decode_embedded_ipv4 a = Some b \<Longrightarrow> a \<noteq> 1"
  by (auto simp: v6_def decode_embedded_ipv4_def ipv4_mapped_def sixtofour_def in_nat64_def in_net_def)

lemma decoded_bound: "decode_embedded_ipv4 a = Some b \<Longrightarrow> b < 2 ^ 32"
  by (auto simp: decode_embedded_ipv4_def ipv4_mapped_def sixtofour_def split: if_splits)

text \<open>What is left after decoding is never a mapped address, so no interpreter looks through anything.\<close>

lemma decoded_by_mapped: "by_mapped through p4 p6 (decoded ip) = by_mapped through' p4 p6 (decoded ip)"
proof (cases ip)
  case (V6 a z)
  then show ?thesis
    by (cases "decode_embedded_ipv4 a") (auto simp: decoded_def by_mapped_def decode_embedded_ipv4_def split: option.splits if_splits)
qed (simp add: decoded_def by_mapped_def)

definition internal :: "ip \<Rightarrow> bool" where
  "internal ip \<longleftrightarrow> is_private ip \<or> is_loopback True ip \<or> is_link_local True ip \<or> is_multicast True ip \<or>
     is_unspecified True ip \<or> is_reserved True ip \<or> in_cgnat ip"

lemma check_resolved_eq:
  "check_resolved_ip through block_private ip =
     (if decoded ip \<in> set METADATA_IPS then Some MetadataBlocked
      else if block_private \<and> internal (decoded ip) then Some InternalBlocked else None)"
  unfolding check_resolved_ip_def internal_def Let_def is_loopback_def is_link_local_def is_multicast_def
    is_unspecified_def is_reserved_def decoded_by_mapped [of through _ _ ip True] ..

lemma check_addresses_None:
  "check_addresses check ip_address addrs = None \<longleftrightarrow>
     list_all (\<lambda>s. \<exists>ip. ip_address s = Some ip \<and> check ip = None) addrs"
  by (induction addrs) (auto split: option.split)

text \<open>Where the interpreter does not look through mapped addresses, they are reserved space.\<close>

lemma webhook_mapped_refused: "ipv4_mapped a = Some b \<Longrightarrow> \<not> address_allowed False allow_loopback (V6 a zone)"
  using mapped_reserved embedded_not_one [of a b]
  by (auto simp: address_allowed_def is_reserved_def is_loopback_def by_mapped_def decode_embedded_ipv4_def)

subsection \<open>Properties\<close>


text \<open>What the webhook check does with an IPv6 address that carries an IPv4 address, which it does not
  decode: it is refused, whatever it carries, unless it is a mapped one and the interpreter looks
  through mapped addresses; then it is judged by its IPv4 address, but neither by the list of metadata
  addresses nor by carrier-grade NAT space, which only IPv4 addresses are compared with.\<close>

theorem webhook_embedded_exact:
  assumes "decode_embedded_ipv4 a = Some b"
  shows "address_allowed through allow_loopback (V6 a zone) \<longleftrightarrow>
     through \<and> ipv4_mapped a = Some b \<and>
     (if loopback4 b then allow_loopback
      else \<not> (private4 b \<or> link_local4 b \<or> multicast4 b \<or> b = 0 \<or> reserved4 b))"
proof -
  note e = embedded_not_metadata [OF assms] embedded_not_one [OF assms]
  have c: "\<not> in_cgnat (V6 a zone)" by (simp add: in_cgnat_def)
  show ?thesis
  proof (cases "ipv4_mapped a")
    case None
    then have "private6 a \<or> reserved6 a" using embedded_cases [OF assms] by simp
    then have "is_private (V6 a zone) \<or> is_reserved through (V6 a zone)"
      using None by (simp add: is_private_def is_reserved_def by_mapped_def)
    moreover have "\<not> is_loopback through (V6 a zone)" using None e(2) by (simp add: is_loopback_def by_mapped_def)
    ultimately show ?thesis using None by (auto simp: address_allowed_def)
  next
    case (Some b')
    with assms have b: "b' = b" by (simp add: decode_embedded_ipv4_def)
    have "\<not> through \<Longrightarrow> is_reserved through (V6 a zone)"
      using mapped_reserved [OF Some] Some by (simp add: is_reserved_def by_mapped_def)
    with Some e c b show ?thesis
      by (cases through)
        (simp_all add: address_allowed_def is_private_def is_loopback_def is_link_local_def is_multicast_def
          is_unspecified_def is_reserved_def by_mapped_def)
  qed
qed

theorem webhook_embedded_exact_witness:
  "\<not> address_allowed False True (V6 (v6 [0, 0, 0, 0, 0, 0xffff] + v4 100 100 100 200) None) \<and>
   address_allowed True True (V6 (v6 [0, 0, 0, 0, 0, 0xffff] + v4 100 100 100 200) None)"
proof -
  have "decode_embedded_ipv4 (v6 [0, 0, 0, 0, 0, 0xffff] + v4 100 100 100 200) = Some (v4 100 100 100 200)"
    "ipv4_mapped (v6 [0, 0, 0, 0, 0, 0xffff] + v4 100 100 100 200) = Some (v4 100 100 100 200)"
    by (simp_all add: decode_embedded_ipv4_def ipv4_mapped_def v6_def)
  with webhook_embedded_exact [OF this(1)] show ?thesis
    by (simp add: loopback4_def private4_def link_local4_def multicast4_def reserved4_def in_net_def)
qed

text \<open>The metadata address and carrier-grade NAT space are reachable as mapped addresses on such an
  interpreter, although the code says that its classifiers refuse every such form; and a zone is enough
  to take the IPv6 metadata address off the list of addresses that are always refused.\<close>

theorem webhook_mapped_bypass:
  "\<not> address_allowed through allow_loopback (V4 (v4 100 100 100 200)) \<and>
   address_allowed True allow_loopback (V6 (v6 [0, 0, 0, 0, 0, 0xffff] + v4 100 100 100 200) None) \<and>
   \<not> address_allowed through allow_loopback (V4 (v4 100 64 0 1)) \<and>
   address_allowed True allow_loopback (V6 (v6 [0, 0, 0, 0, 0, 0xffff] + v4 100 64 0 1) None)"
  by (simp add: address_allowed_def METADATA_IPS_def in_cgnat_def is_private_def is_loopback_def is_link_local_def
      is_multicast_def is_unspecified_def is_reserved_def by_mapped_def ipv4_mapped_def v6_def
      loopback4_def private4_def link_local4_def multicast4_def reserved4_def in_net_def)

theorem metadata_zone_bypass:
  "check_resolved_ip through False (V6 (v6 [0xfd00, 0xec2] + 0x254) None) = Some MetadataBlocked \<and>
   check_resolved_ip through False (V6 (v6 [0xfd00, 0xec2] + 0x254) (Some zone)) = None \<and>
   check_metadata (V6 (v6 [0xfd00, 0xec2] + 0x254) None) = Some MetadataBlocked \<and>
   check_metadata (V6 (v6 [0xfd00, 0xec2] + 0x254) (Some zone)) = None"
  by (simp add: check_resolved_ip_def check_metadata_def decoded_def decode_embedded_ipv4_def ipv4_mapped_def sixtofour_def
      in_nat64_def in_net_def v6_def METADATA_IPS_def)

text \<open>
  A resolved name is never older than a minute: along any sequence of look-ups, an answer was fetched
  for that very name less than the time to live ago.
\<close>

type_synonym lookup = "pystr \<times> time \<times> pystr list option"

fun lookups :: "dns_cache \<Rightarrow> lookup list \<Rightarrow> dns_cache" where
  "lookups cache [] = cache"
| "lookups cache ((host, now, fetched) # rest) = lookups (snd (resolve_cached cache now fetched host)) rest"

lemma cache_fetched:
  "od_get (lookups cache ls) host = Some (stamp, addrs) \<Longrightarrow>
   od_get cache host = Some (stamp, addrs) \<or> (host, stamp, Some addrs) \<in> set ls"
proof (induction cache ls rule: lookups.induct)
  case (2 cache h now fetched rest)
  then show ?case
    by (auto simp: resolve_cached_def Let_def split: option.splits if_splits prod.splits)
qed simp

theorem dns_answer_fresh:
  assumes "fst (resolve_cached (lookups [] ls) now fetched host) = Some addrs"
  shows "\<exists>stamp. now - stamp < 60 \<and> (host, stamp, Some addrs) \<in> set (ls @ [(host, now, fetched)])"
proof (cases "\<exists>stamp. od_get (lookups [] ls) host = Some (stamp, addrs) \<and> now - stamp < 60")
  case True
  with cache_fetched [of "[]" ls host] show ?thesis by fastforce
next
  case False
  then have "fetched = Some addrs"
    using assms by (auto simp: resolve_cached_def Let_def EGRESS_DNS_TTL_S_def split: option.splits if_splits)
  then show ?thesis by (intro exI [of _ now]) simp
qed

end
