(* ===== verification/Webhooks.thy ===== *)
theory Webhooks
  imports Egress "HOL-Library.Sublist"
begin

text \<open>
  Event webhooks (\<open>server/webhooks.py\<close>): what may be registered, the registry with its delivery tasks,
  the two guards in front of every delivery and the retries. \<open>urlparse\<close>, the resolver, the compiler of
  patterns and the HTTP client are parameters; a webhook's identifier is drawn by the caller.
\<close>

subsection \<open>Destinations\<close>

text \<open>\<open>urlparse\<close> of a text: scheme, whether there is a network location, host name. \<open>None\<close> is a \<open>ValueError\<close>.\<close>

record parsed_url =
  pu_scheme :: pystr
  pu_has_netloc :: bool
  pu_hostname :: "pystr option"

text \<open>What the checks ask of the outside: address parser, resolver (\<open>None\<close>: it raised) and \<open>str.lower\<close>.\<close>

record net_env =
  ne_through :: bool
  ne_urlparse :: "pystr \<Rightarrow> parsed_url option"
  ne_ip_address :: "pystr \<Rightarrow> ip option"
  ne_show_ip :: "ip \<Rightarrow> pystr"
  ne_lower :: "pystr \<Rightarrow> pystr"

definition http_scheme :: "pystr \<Rightarrow> bool" where
  "http_scheme s \<longleftrightarrow> s \<in> {pystr_of ''http'', pystr_of ''https''}"

definition localhost_name :: "pystr \<Rightarrow> bool" where
  "localhost_name h \<longleftrightarrow> h = pystr_of ''localhost'' \<or> suffix (pystr_of ''.localhost'') h"

text \<open>\<open>_address_allowed\<close> on a text; \<open>None\<close> is the \<open>ValueError\<close> of a malformed address.\<close>

definition text_allowed :: "net_env \<Rightarrow> bool \<Rightarrow> pystr \<Rightarrow> bool option" where
  "text_allowed env allow_loopback s = map_option (address_allowed (ne_through env) allow_loopback) (ne_ip_address env s)"

definition rstrip_dots :: "pystr \<Rightarrow> pystr" where
  "rstrip_dots s = rev (dropWhile (\<lambda>c. c = 46) (rev s))"

definition validate_webhook_url :: "net_env \<Rightarrow> (pystr \<Rightarrow> pystr list option) \<Rightarrow> bool \<Rightarrow> pystr \<Rightarrow> string + pystr" where
  "validate_webhook_url env resolve allow_loopback url =
     (case ne_urlparse env url of
        None \<Rightarrow> Inl ''webhook url is invalid''
      | Some p \<Rightarrow>
          if \<not> http_scheme (pu_scheme p) then Inl ''webhook url must use http or https''
          else
            (case (pu_has_netloc p, pu_hostname p) of
               (True, Some host) \<Rightarrow>
                 let hostname = ne_lower env (rstrip_dots host)
                 in if hostname = pystr_of ''metadata.google.internal'' then Inl ''webhook url host is not allowed''
                    else if localhost_name hostname
                    then (if allow_loopback then Inr url else Inl ''webhook url host is not allowed'')
                    else
                      (case ne_ip_address env hostname of
                         Some ip \<Rightarrow>
                           if text_allowed env allow_loopback (ne_show_ip env ip) = Some True then Inr url
                           else Inl ''webhook url host is not allowed''
                       | None \<Rightarrow>
                           (case resolve hostname of
                              None \<Rightarrow> Inl ''webhook url host could not be resolved''
                            | Some addresses \<Rightarrow>
                                if addresses = [] then Inl ''webhook url host could not be resolved''
                                else if list_all (\<lambda>a. text_allowed env allow_loopback a = Some True) addresses then Inr url
                                else Inl ''webhook url host is not allowed''))
             | _ \<Rightarrow> Inl ''webhook url must include a host''))"

definition validate_webhook_pattern :: "(pystr \<Rightarrow> bool) \<Rightarrow> pystr option \<Rightarrow> string + pystr option" where
  "validate_webhook_pattern compiles pattern =
     (case pattern of
        None \<Rightarrow> Inr None
      | Some p \<Rightarrow> if compiles p then Inr (Some p) else Inl ''webhook pattern is not a valid regex'')"

text \<open>\<open>_delivery_url_allowed\<close>, asked again before every delivery.\<close>

definition literal_or_resolved :: "net_env \<Rightarrow> (pystr \<Rightarrow> pystr list option) \<Rightarrow> pystr \<Rightarrow> pystr list option" where
  "literal_or_resolved env resolve host = (if ne_ip_address env host = None then resolve host else Some [host])"

definition delivery_url_allowed :: "net_env \<Rightarrow> (pystr \<Rightarrow> pystr list option) \<Rightarrow> bool \<Rightarrow> pystr \<Rightarrow> bool" where
  "delivery_url_allowed env resolve allow_loopback url =
     (case ne_urlparse env url of
        None \<Rightarrow> False
      | Some p \<Rightarrow>
          if \<not> http_scheme (pu_scheme p) then False
          else
            (case pu_hostname p of
               None \<Rightarrow> False
             | Some host \<Rightarrow>
                 (case literal_or_resolved env resolve host of
                    None \<Rightarrow> False
                  | Some addresses \<Rightarrow>
                      addresses \<noteq> [] \<and> list_all (\<lambda>a. text_allowed env allow_loopback a = Some True) addresses)))"

definition delivery_url_is_loopback_only :: "net_env \<Rightarrow> (pystr \<Rightarrow> pystr list option) \<Rightarrow> pystr \<Rightarrow> bool" where
  "delivery_url_is_loopback_only env resolve url = (\<not> delivery_url_allowed env resolve False url)"

subsection \<open>Tunnel shares\<close>

text \<open>A record of the share store: its \<open>expires_at\<close>, \<open>None\<close> when it is missing or no number.\<close>

type_synonym tunnel_tokens = "string \<Rightarrow> time option option"

definition tunnel_share_active :: "tunnel_tokens option \<Rightarrow> string \<Rightarrow> time \<Rightarrow> bool" where
  "tunnel_share_active tokens session_id now =
     (case tokens of
        None \<Rightarrow> False
      | Some store \<Rightarrow>
          (case store session_id of
             None \<Rightarrow> False
           | Some expires_at \<Rightarrow> (case expires_at of None \<Rightarrow> True | Some t \<Rightarrow> now < t)))"

subsection \<open>The registry\<close>

record webhook_config =
  wh_id :: string
  wh_session_id :: string
  wh_url :: pystr
  wh_event_types :: "string set option"
  wh_pattern :: "pystr option"
  wh_secret :: "string option"

text \<open>A delivery task is there or has been cancelled; \<open>wm_unregistering\<close> are the background unregistrations.\<close>

record webhook_manager =
  wm_webhooks :: "(string \<times> webhook_config) list"
  wm_tasks :: "(string \<times> unit) list"
  wm_blocked_counts :: "(string \<times> nat) list"
  wm_unregistering :: "string list"
  wm_allow_loopback :: bool

definition new_webhook_manager :: "bool \<Rightarrow> webhook_manager" where
  "new_webhook_manager allow =
     \<lparr>wm_webhooks = [], wm_tasks = [], wm_blocked_counts = [], wm_unregistering = [], wm_allow_loopback = allow\<rparr>"

definition register_webhook ::
  "net_env \<Rightarrow> (pystr \<Rightarrow> pystr list option) \<Rightarrow> (pystr \<Rightarrow> bool) \<Rightarrow> webhook_manager \<Rightarrow> string \<Rightarrow> string \<Rightarrow> pystr \<Rightarrow>
     string list option \<Rightarrow> pystr option \<Rightarrow> string option \<Rightarrow> (string + webhook_config) \<times> webhook_manager" where
  "register_webhook env resolve compiles m webhook_id session_id url event_types pattern secret =
     (case validate_webhook_url env resolve (wm_allow_loopback m) url of
        Inl e \<Rightarrow> (Inl e, m)
      | Inr url \<Rightarrow>
          (case validate_webhook_pattern compiles pattern of
             Inl e \<Rightarrow> (Inl e, m)
           | Inr pattern \<Rightarrow>
               let cfg = \<lparr>wh_id = webhook_id, wh_session_id = session_id, wh_url = url,
                          wh_event_types = map_option set event_types, wh_pattern = pattern, wh_secret = secret\<rparr>
               in (Inr cfg,
                   m\<lparr>wm_webhooks := od_set (wm_webhooks m) webhook_id cfg, wm_tasks := od_set (wm_tasks m) webhook_id ()\<rparr>)))"

definition unregister_webhook :: "webhook_manager \<Rightarrow> string \<Rightarrow> bool \<times> webhook_manager" where
  "unregister_webhook m webhook_id =
     (if od_get (wm_webhooks m) webhook_id = None then (False, m)
      else (True, m\<lparr>wm_webhooks := od_pop (wm_webhooks m) webhook_id,
                    wm_blocked_counts := od_pop (wm_blocked_counts m) webhook_id,
                    wm_tasks := od_pop (wm_tasks m) webhook_id\<rparr>))"

definition list_webhooks :: "webhook_manager \<Rightarrow> string \<Rightarrow> webhook_config list" where
  "list_webhooks m session_id = filter (\<lambda>cfg. wh_session_id cfg = session_id) (map snd (wm_webhooks m))"

definition get_webhook :: "webhook_manager \<Rightarrow> string \<Rightarrow> webhook_config option" where
  "get_webhook m webhook_id = od_get (wm_webhooks m) webhook_id"

definition shutdown_webhooks :: "webhook_manager \<Rightarrow> webhook_manager" where
  "shutdown_webhooks m = m\<lparr>wm_tasks := [], wm_webhooks := [], wm_blocked_counts := []\<rparr>"

subsection \<open>Delivery\<close>

text \<open>
  The guards of \<open>_deliver\<close>, in their order: first the destination, then the share. They resolve the
  name separately, so what the resolver answers each time is an argument of its own. A destination
  refused \<open>MAX_BLOCKED_DELIVERIES\<close> times in a row has its webhook unregistered in the background.
\<close>

definition MAX_BLOCKED_DELIVERIES :: nat where "MAX_BLOCKED_DELIVERIES = 3"

datatype verdict = Unsafe nat | Shared | Deliver

definition delivery_guards ::
  "net_env \<Rightarrow> (pystr \<Rightarrow> pystr list option) \<Rightarrow> (pystr \<Rightarrow> pystr list option) \<Rightarrow> tunnel_tokens option \<Rightarrow> time \<Rightarrow>
     webhook_config \<Rightarrow> webhook_manager \<Rightarrow> verdict \<times> webhook_manager" where
  "delivery_guards env resolve resolve_again tokens now cfg m =
     (if \<not> delivery_url_allowed env resolve (wm_allow_loopback m) (wh_url cfg) then
        let count = (case od_get (wm_blocked_counts m) (wh_id cfg) of None \<Rightarrow> 0 | Some n \<Rightarrow> n) + 1;
            m1 = m\<lparr>wm_blocked_counts := od_set (wm_blocked_counts m) (wh_id cfg) count\<rparr>
        in (Unsafe count,
            if MAX_BLOCKED_DELIVERIES \<le> count then m1\<lparr>wm_unregistering := wm_unregistering m1 @ [wh_id cfg]\<rparr> else m1)
      else
        let m1 = m\<lparr>wm_blocked_counts := od_pop (wm_blocked_counts m) (wh_id cfg)\<rparr>
        in if tunnel_share_active tokens (wh_session_id cfg) now \<and>
              delivery_url_is_loopback_only env resolve_again (wh_url cfg)
           then (Shared, m1) else (Deliver, m1))"

text \<open>The posts: \<open>answers\<close> says for each attempt whether it succeeded (an exception is a failure).\<close>

datatype attempt_log = Post | Sleep real | GivingUp

definition RETRY_DELAYS :: "real list" where "RETRY_DELAYS = [0.5, 1, 2]"

fun post_attempts :: "real option list \<Rightarrow> bool list \<Rightarrow> attempt_log list" where
  "post_attempts [] answers = [GivingUp]"
| "post_attempts (delay # delays) answers =
     Post #
     (case answers of
        True # _ \<Rightarrow> []
      | _ \<Rightarrow> (case delay of None \<Rightarrow> [] | Some d \<Rightarrow> [Sleep d]) @ post_attempts delays (tl answers))"

definition post_event :: "bool list \<Rightarrow> attempt_log list" where
  "post_event answers = post_attempts (map Some RETRY_DELAYS @ [None]) answers"

text \<open>The signature headers: with a secret, over the timestamp and the body.\<close>

definition delivery_headers :: "(string \<Rightarrow> pystr \<Rightarrow> string \<Rightarrow> string) \<Rightarrow> string option \<Rightarrow> pystr \<Rightarrow> string \<Rightarrow> (string \<times> string) list" where
  "delivery_headers build_signature secret body ts =
     (''Content-Type'', ''application/json'') #
     (case secret of
        None \<Rightarrow> []
      | Some s \<Rightarrow> if s = [] then [] else [(''X-Uterm-Timestamp'', ts), (''X-Uterm-Signature'', build_signature s body ts)])"

subsection \<open>What is delivered\<close>

lemma allowed_internal:
  "address_allowed through allow_loopback ip \<Longrightarrow>
   ip \<notin> set METADATA_IPS \<and> (is_loopback through ip \<and> allow_loopback \<or> \<not> internal ip)"
proof (cases through)
  case False
  assume a: "address_allowed through allow_loopback ip"
  show ?thesis
  proof (cases "\<exists>a z b. ip = V6 a z \<and> ipv4_mapped a = Some b")
    case True
    then obtain a z b where i: "ip = V6 a z" "ipv4_mapped a = Some b" by blast
    then have "decode_embedded_ipv4 a = Some b" by (simp add: decode_embedded_ipv4_def)
    with webhook_mapped_refused a False i show ?thesis by simp
  next
    case no: False
    then have "by_mapped False p4 p6 ip = by_mapped True p4 p6 ip" for p4 p6
      by (auto simp: by_mapped_def split: ip.splits option.splits)
    with a False show ?thesis
      by (auto simp: address_allowed_def internal_def is_loopback_def is_link_local_def is_multicast_def
          is_unspecified_def is_reserved_def split: if_splits)
  qed
qed (auto simp: address_allowed_def internal_def split: if_splits)

lemma text_allowedD:
  "text_allowed env lb s = Some True \<Longrightarrow> \<exists>ip. ne_ip_address env s = Some ip \<and> address_allowed (ne_through env) lb ip"
  by (auto simp: text_allowed_def)

lemma delivery_allowedD:
  assumes "delivery_url_allowed env resolve lb url"
  shows "\<exists>p host addrs. ne_urlparse env url = Some p \<and> http_scheme (pu_scheme p) \<and> pu_hostname p = Some host \<and>
    literal_or_resolved env resolve host = Some addrs \<and> addrs \<noteq> [] \<and>
    list_all (\<lambda>s. \<exists>ip. ne_ip_address env s = Some ip \<and> address_allowed (ne_through env) lb ip) addrs"
  using assms unfolding delivery_url_allowed_def
  by (auto split: option.splits if_splits simp: list_all_iff dest!: text_allowedD bspec)


subsection \<open>The kill switch\<close>

text \<open>A run of deliveries of one webhook: per event, whether its destination was found safe.\<close>

type_synonym guard_input = "(pystr \<Rightarrow> pystr list option) \<times> (pystr \<Rightarrow> pystr list option) \<times> time"

fun guard_run :: "net_env \<Rightarrow> tunnel_tokens option \<Rightarrow> webhook_config \<Rightarrow> guard_input list \<Rightarrow> webhook_manager \<Rightarrow> webhook_manager" where
  "guard_run env tokens cfg [] m = m"
| "guard_run env tokens cfg ((r, r', now) # es) m =
     guard_run env tokens cfg es (snd (delivery_guards env r r' tokens now cfg m))"

definition safe_list :: "net_env \<Rightarrow> webhook_config \<Rightarrow> bool \<Rightarrow> guard_input list \<Rightarrow> bool list" where
  "safe_list env cfg lb es = map (\<lambda>(r, r', now). delivery_url_allowed env r lb (wh_url cfg)) es"

text \<open>Whether the webhook gets unregistered, when \<open>n\<close> refusals in a row have gone before.\<close>

fun trips :: "nat \<Rightarrow> bool list \<Rightarrow> bool" where
  "trips n [] = False"
| "trips n (ok # oks) = (if ok then trips 0 oks else 3 \<le> n + 1 \<or> trips (n + 1) oks)"

definition count_of :: "webhook_manager \<Rightarrow> string \<Rightarrow> nat" where
  "count_of m i = (case od_get (wm_blocked_counts m) i of None \<Rightarrow> 0 | Some n \<Rightarrow> n)"

abbreviation safe_now :: "net_env \<Rightarrow> webhook_config \<Rightarrow> webhook_manager \<Rightarrow> (pystr \<Rightarrow> pystr list option) \<Rightarrow> bool" where
  "safe_now env cfg m r \<equiv> delivery_url_allowed env r (wm_allow_loopback m) (wh_url cfg)"

lemma guards_step:
  assumes "od_ok (wm_blocked_counts m)"
  shows "count_of (snd (delivery_guards env r r' tokens now cfg m)) (wh_id cfg) = (if safe_now env cfg m r then 0 else count_of m (wh_id cfg) + 1)"
    "wh_id cfg \<in> set (wm_unregistering (snd (delivery_guards env r r' tokens now cfg m))) \<longleftrightarrow>
       wh_id cfg \<in> set (wm_unregistering m) \<or> \<not> safe_now env cfg m r \<and> 3 \<le> count_of m (wh_id cfg) + 1"
    "od_ok (wm_blocked_counts (snd (delivery_guards env r r' tokens now cfg m)))"
    "wm_allow_loopback (snd (delivery_guards env r r' tokens now cfg m)) = wm_allow_loopback m"
  using assms
  by (auto simp: delivery_guards_def count_of_def Let_def MAX_BLOCKED_DELIVERIES_def od_ok_set od_ok_pop)

lemma guard_run_trips:
  "od_ok (wm_blocked_counts m) \<Longrightarrow>
   wh_id cfg \<in> set (wm_unregistering (guard_run env tokens cfg es m)) \<longleftrightarrow>
     wh_id cfg \<in> set (wm_unregistering m) \<or> trips (count_of m (wh_id cfg)) (safe_list env cfg (wm_allow_loopback m) es)"
proof (induction es arbitrary: m)
  case (Cons e es)
  obtain r r' now where e: "e = (r, r', now)" by (cases e)
  note g = guards_step [OF Cons.prems, where env = env and r = r and r' = r' and cfg = cfg and tokens = tokens and now = now]
  show ?case using Cons.IH [OF g(3)] g(1,2,4) by (simp add: e safe_list_def)
qed (simp add: safe_list_def)

lemma trips_iff:
  "n \<le> 2 \<Longrightarrow> trips n oks \<longleftrightarrow> prefix (replicate (3 - n) False) oks \<or> sublist [False, False, False] oks"
proof (induction n oks rule: trips.induct)
  case (2 n ok oks)
  have pre: "prefix [False, False, False] oks \<Longrightarrow> sublist [False, False, False] oks" by (rule prefix_imp_sublist)
  show ?case
  proof (cases ok)
    case True
    with 2(1,3) pre show ?thesis by (auto simp: sublist_Cons_right Suc_diff_le numeral_3_eq_3)
  next
    case False
    have r: "prefix (replicate (3 - n) False) (ok # oks) \<longleftrightarrow> n = 2 \<or> prefix (replicate (3 - (n + 1)) False) oks"
    proof -
      from 2(3) consider "n = 0" | "n = 1" | "n = 2" by linarith
      then show ?thesis using False by cases (auto simp: numeral_3_eq_3 numeral_2_eq_2)
    qed
    have m: "prefix [False, False] oks \<Longrightarrow> n < 2 \<Longrightarrow> prefix (replicate (3 - (n + 1)) False) oks"
      by (cases oks; cases "n = 0") (auto simp: numeral_2_eq_2 less_Suc_eq)
    show ?thesis
      using 2(2) [OF] False r m 2(3) by (cases "n = 2") (auto simp: sublist_Cons_right)
  qed
qed simp

text \<open>The kill switch does what it is for: a webhook none of whose deliveries has been refused before
  is handed over for unregistration exactly when its destination is found unsafe three times in a
  row -- one safe delivery starts the count again, and a refusal because of a tunnel share never counts.\<close>

theorem kill_switch_exact:
  assumes "od_ok (wm_blocked_counts m)" "od_get (wm_blocked_counts m) (wh_id cfg) = None"
    "wh_id cfg \<notin> set (wm_unregistering m)"
  shows "wh_id cfg \<in> set (wm_unregistering (guard_run env tokens cfg es m)) \<longleftrightarrow>
    sublist [False, False, False] (map (\<lambda>(r, r', now). delivery_url_allowed env r (wm_allow_loopback m) (wh_url cfg)) es)"
proof -
  have "count_of m (wh_id cfg) = 0" using assms(2) by (simp add: count_of_def)
  then show ?thesis
    using guard_run_trips [OF assms(1), of cfg env tokens es] assms(3) trips_iff [of 0]
    by (auto simp: safe_list_def numeral_3_eq_3 intro: prefix_imp_sublist)
qed

subsection \<open>Retries\<close>

text \<open>A delivery is attempted at most four times and stops at the first success: the posts are one
  more than the failures before the first success, and four when there is none among the first four;
  only then does it give up; and it never waits longer than three and a half seconds in all.\<close>

theorem retries_bounded:
  "let log = post_event answers; failures = length (takeWhile Not (take 4 (answers @ replicate 4 False)))
   in length (filter (\<lambda>a. a = Post) log) = min 4 (Suc failures) \<and>
      (GivingUp \<in> set log \<longleftrightarrow> failures = 4) \<and>
      sum_list (map (\<lambda>a. case a of Sleep d \<Rightarrow> d | _ \<Rightarrow> 0) log) \<le> 3.5"
proof -
  have l: "take 4 (answers @ replicate 4 False) = [hd (answers @ [False]), hd (tl answers @ [False]),
      hd (tl (tl answers) @ [False]), hd (tl (tl (tl answers)) @ [False])]"
    by (cases answers; cases "tl answers"; cases "tl (tl answers)"; cases "tl (tl (tl answers))")
      (auto simp: eval_nat_numeral)
  have p: "post_attempts (d # ds) as = Post # (if hd (as @ [False]) then []
      else (case d of None \<Rightarrow> [] | Some d \<Rightarrow> [Sleep d]) @ post_attempts ds (tl as))" for d ds as
    by (cases as) auto
  show ?thesis
    unfolding l Let_def post_event_def RETRY_DELAYS_def by (simp add: p del: post_attempts.simps(2))
qed

subsection \<open>The registry\<close>

datatype webhook_event =
    WhRegister net_env "pystr \<Rightarrow> pystr list option" "pystr \<Rightarrow> bool" string string pystr "string list option" "pystr option" "string option"
  | WhUnregister string
  | WhDeliver net_env "pystr \<Rightarrow> pystr list option" "pystr \<Rightarrow> pystr list option" "tunnel_tokens option" time webhook_config
  | WhShutdown

fun webhook_apply :: "webhook_event \<Rightarrow> webhook_manager \<Rightarrow> webhook_manager" where
  "webhook_apply (WhRegister env r c i sid url types pat sec) m = snd (register_webhook env r c m i sid url types pat sec)"
| "webhook_apply (WhUnregister i) m = snd (unregister_webhook m i)"
| "webhook_apply (WhDeliver env r r' tokens now cfg) m = snd (delivery_guards env r r' tokens now cfg m)"
| "webhook_apply WhShutdown m = shutdown_webhooks m"

definition webhooks_ok :: "webhook_manager \<Rightarrow> bool" where
  "webhooks_ok m \<longleftrightarrow> od_ok (wm_webhooks m) \<and> map fst (wm_tasks m) = map fst (wm_webhooks m) \<and> od_ok (wm_blocked_counts m) \<and>
     (\<forall>i cfg. od_get (wm_webhooks m) i = Some cfg \<longrightarrow> wh_id cfg = i)"

lemma map_fst_set: "map fst (od_set d k v) = (if k \<in> fst ` set d then map fst d else map fst d @ [k])"
  by (induction d k v rule: od_set.induct) auto

lemma map_fst_pop: "map fst (od_pop d k) = remove1 k (map fst d)"
  by (induction d k rule: od_pop.induct) auto

lemma webhook_apply_ok:
  assumes "webhooks_ok m" shows "webhooks_ok (webhook_apply e m)"
proof (cases e)
  case (WhRegister env r c i sid url types pat sec)
  have "i \<in> fst ` set (wm_tasks m) \<longleftrightarrow> i \<in> fst ` set (wm_webhooks m)"
    using assms by (metis webhooks_ok_def list.set_map)
  with assms WhRegister show ?thesis
    by (auto simp: webhooks_ok_def register_webhook_def Let_def map_fst_set od_ok_set split: sum.split)
next
  case (WhUnregister i)
  with assms show ?thesis
    by (auto simp: webhooks_ok_def unregister_webhook_def map_fst_pop od_ok_pop split: if_splits)
next
  case (WhDeliver env r r' tokens now cfg)
  with assms show ?thesis
    by (auto simp: webhooks_ok_def delivery_guards_def Let_def od_ok_set od_ok_pop)
qed (auto simp: webhooks_ok_def shutdown_webhooks_def)

definition webhook_step :: "webhook_manager \<Rightarrow> webhook_manager \<Rightarrow> bool" where
  "webhook_step m m' \<longleftrightarrow> (\<exists>e. m' = webhook_apply e m)"

definition webhook_init :: "webhook_manager \<Rightarrow> bool" where
  "webhook_init m \<longleftrightarrow> (\<exists>allow. m = new_webhook_manager allow)"

interpretation webhooks: safe_system webhook_init webhook_step webhooks_ok
  by unfold_locales (auto simp: webhook_init_def webhook_step_def webhook_apply_ok, simp add: webhooks_ok_def new_webhook_manager_def)

text \<open>The webhook registry is consistent after any run of registrations, unregistrations, deliveries and
  shut-downs: it has exactly one delivery task for each webhook, under the webhook's own identifier, and
  unregistering one leaves neither the webhook nor a task nor a count of it behind.\<close>

theorem webhook_registry_consistent:
  assumes "reach webhook_init webhook_step m"
  shows "distinct (map fst (wm_webhooks m)) \<and> map fst (wm_tasks m) = map fst (wm_webhooks m) \<and>
    (get_webhook m i = Some cfg \<longrightarrow> wh_id cfg = i \<and> cfg \<in> set (list_webhooks m (wh_session_id cfg))) \<and>
    (fst (unregister_webhook m i) \<longrightarrow>
       get_webhook (snd (unregister_webhook m i)) i = None \<and>
       od_get (wm_tasks (snd (unregister_webhook m i))) i = None \<and>
       od_get (wm_blocked_counts (snd (unregister_webhook m i))) i = None)"
proof -
  have ok: "webhooks_ok m" by (rule webhooks.reach_inv [OF assms])
  then have t: "od_ok (wm_tasks m)" by (simp add: webhooks_ok_def)
  have "get_webhook m i = Some cfg \<Longrightarrow> cfg \<in> set (list_webhooks m (wh_session_id cfg))"
    by (force simp: get_webhook_def list_webhooks_def dest: od_get_in)
  with ok t show ?thesis
    by (auto simp: webhooks_ok_def get_webhook_def unregister_webhook_def)
qed

subsection \<open>Examples\<close>

definition demo_net :: net_env where
  "demo_net = \<lparr>ne_through = True,
     ne_urlparse = (\<lambda>url. Some \<lparr>pu_scheme = pystr_of ''http'', pu_has_netloc = True, pu_hostname = Some url\<rparr>),
     ne_ip_address = (\<lambda>s. if s = pystr_of ''public'' then Some (V4 (v4 8 8 8 8))
        else if s = pystr_of ''meta'' then Some (V4 (v4 169 254 169 254)) else None),
     ne_show_ip = (\<lambda>_. pystr_of ''public''), ne_lower = (\<lambda>s. s)\<rparr>"

definition demo_hook :: webhook_config where
  "demo_hook = \<lparr>wh_id = ''1'', wh_session_id = ''s'', wh_url = pystr_of ''host'', wh_event_types = None, wh_pattern = None,
     wh_secret = None\<rparr>"

lemma demo_allowed:
  "text_allowed demo_net lb (pystr_of ''public'') = Some True" "text_allowed demo_net lb (pystr_of ''meta'') = Some False"
  by (simp_all add: text_allowed_def demo_net_def address_allowed_def METADATA_IPS_def in_cgnat_def is_private_def
      is_loopback_def is_link_local_def is_multicast_def is_unspecified_def is_reserved_def by_mapped_def
      loopback4_def private4_def link_local4_def multicast4_def reserved4_def in_net_def pystr_of_def)

lemma demo_url_allowed:
  "delivery_url_allowed demo_net (\<lambda>_. Some [pystr_of ''public'']) lb (wh_url demo_hook)"
  "\<not> delivery_url_allowed demo_net (\<lambda>_. Some [pystr_of ''public'', pystr_of ''meta'']) lb (wh_url demo_hook)"
proof -
  have h: "ne_urlparse demo_net (wh_url demo_hook) =
      Some \<lparr>pu_scheme = pystr_of ''http'', pu_has_netloc = True, pu_hostname = Some (pystr_of ''host'')\<rparr>"
    "ne_ip_address demo_net (pystr_of ''host'') = None"
    by (simp_all add: demo_net_def demo_hook_def pystr_of_def)
  show "delivery_url_allowed demo_net (\<lambda>_. Some [pystr_of ''public'']) lb (wh_url demo_hook)"
    "\<not> delivery_url_allowed demo_net (\<lambda>_. Some [pystr_of ''public'', pystr_of ''meta'']) lb (wh_url demo_hook)"
    by (simp_all add: delivery_url_allowed_def h http_scheme_def literal_or_resolved_def demo_allowed)
qed


theorem kill_switch_exact_witness:
  "(let bad = (\<lambda>_. Some [pystr_of ''public'', pystr_of ''meta'']); good = (\<lambda>_. Some [pystr_of ''public'']);
        m = new_webhook_manager True
    in ''1'' \<in> set (wm_unregistering (guard_run demo_net None demo_hook [(bad, bad, 0), (bad, bad, 1), (bad, bad, 2)] m)) \<and>
       ''1'' \<notin> set (wm_unregistering (guard_run demo_net None demo_hook [(bad, bad, 0), (bad, bad, 1), (good, good, 2), (bad, bad, 3)] m)))"
proof -
  have m: "od_ok (wm_blocked_counts (new_webhook_manager True))" "wh_id demo_hook = ''1''"
    "od_get (wm_blocked_counts (new_webhook_manager True)) (wh_id demo_hook) = None"
    "wh_id demo_hook \<notin> set (wm_unregistering (new_webhook_manager True))"
    by (simp_all add: new_webhook_manager_def demo_hook_def)
  note k = kill_switch_exact [OF m(1,3,4), of demo_net None]
  show ?thesis
    using k [of "[(\<lambda>_. Some [pystr_of ''public'', pystr_of ''meta''], \<lambda>_. Some [pystr_of ''public'', pystr_of ''meta''], 0),
        (\<lambda>_. Some [pystr_of ''public'', pystr_of ''meta''], \<lambda>_. Some [pystr_of ''public'', pystr_of ''meta''], 1),
        (\<lambda>_. Some [pystr_of ''public'', pystr_of ''meta''], \<lambda>_. Some [pystr_of ''public'', pystr_of ''meta''], 2)]"]
      k [of "[(\<lambda>_. Some [pystr_of ''public'', pystr_of ''meta''], \<lambda>_. Some [pystr_of ''public'', pystr_of ''meta''], 0),
        (\<lambda>_. Some [pystr_of ''public'', pystr_of ''meta''], \<lambda>_. Some [pystr_of ''public'', pystr_of ''meta''], 1),
        (\<lambda>_. Some [pystr_of ''public''], \<lambda>_. Some [pystr_of ''public''], 2),
        (\<lambda>_. Some [pystr_of ''public'', pystr_of ''meta''], \<lambda>_. Some [pystr_of ''public'', pystr_of ''meta''], 3)]"]
    by (simp add: m(2) demo_url_allowed sublist_Cons_right Let_def)
qed

theorem webhook_registry_consistent_witness:
  "(let m = webhook_apply (WhRegister demo_net (\<lambda>_. Some [pystr_of ''public'']) (\<lambda>_. True) ''1'' ''s'' (pystr_of ''host'') None None None)
              (new_webhook_manager False)
    in map fst (wm_tasks m) = [''1''] \<and> get_webhook (snd (unregister_webhook m ''1'')) ''1'' = None)"
proof -
  let ?e = "WhRegister demo_net (\<lambda>_. Some [pystr_of ''public'']) (\<lambda>_. True) ''1'' ''s'' (pystr_of ''host'') None None None"
  let ?m = "webhook_apply ?e (new_webhook_manager False)"
  have "validate_webhook_url demo_net (\<lambda>_. Some [pystr_of ''public'']) False (pystr_of ''host'') = Inr (pystr_of ''host'')"
  proof -
    have h: "ne_urlparse demo_net (pystr_of ''host'') =
        Some \<lparr>pu_scheme = pystr_of ''http'', pu_has_netloc = True, pu_hostname = Some (pystr_of ''host'')\<rparr>"
      "ne_ip_address demo_net (pystr_of ''host'') = None" "ne_lower demo_net = (\<lambda>s. s)" "rstrip_dots (pystr_of ''host'') = pystr_of ''host''"
      "\<not> localhost_name (pystr_of ''host'')" "pystr_of ''host'' \<noteq> pystr_of ''metadata.google.internal''"
      by (simp_all add: demo_net_def pystr_of_def rstrip_dots_def localhost_name_def suffix_to_prefix)
    show ?thesis by (simp add: validate_webhook_url_def h http_scheme_def demo_allowed Let_def)
  qed
  then have w: "wm_webhooks ?m = [(''1'', \<lparr>wh_id = ''1'', wh_session_id = ''s'', wh_url = pystr_of ''host'',
      wh_event_types = None, wh_pattern = None, wh_secret = None\<rparr>)]"
    by (simp add: register_webhook_def validate_webhook_pattern_def new_webhook_manager_def Let_def)
  have "reach webhook_init webhook_step ?m"
    by (rule reach_step [OF reach_init]) (auto simp: webhook_init_def webhook_step_def simp del: webhook_apply.simps)
  from webhook_registry_consistent [OF this, of "''1''"] show ?thesis
    unfolding Let_def w by (simp add: unregister_webhook_def w del: webhook_apply.simps)
qed

end
