(* ===== verification/RuntimeOutput.thy ===== *)
theory RuntimeOutput
  imports ControlFrame Authz
begin

text \<open>
  What a hosted session's runtime does with its output (\<open>server/runtime.py\<close>,
  \<open>runtime_helpers.py\<close>): the bounded queue of frames waiting for the worker connection and its
  byte account, the choice of the moments at which the recording takes a screen, and the
  annotations of the read path, which are found twice (in the streamed output and in the screens)
  and recorded once. The detector, the JSON codec and \<open>str()\<close> on values that are no strings are
  parameters.
\<close>

subsection \<open>The queue of outgoing frames\<close>

definition str_or_empty :: "(json \<Rightarrow> pystr) \<Rightarrow> json option \<Rightarrow> pystr" where
  "str_or_empty py_str v =
     (case v of None \<Rightarrow> []
      | Some j \<Rightarrow> if truthy j then (case j of JStr s \<Rightarrow> s | _ \<Rightarrow> py_str j) else [])"

definition encode_runtime_frame :: "json_dumps \<Rightarrow> (json \<Rightarrow> pystr) \<Rightarrow> jdict \<Rightarrow> pystr" where
  "encode_runtime_frame dumps py_str msg =
     (if str_or_empty py_str (od_get msg (pystr_of ''type'')) = pystr_of ''term''
      then encode_terminal_data (str_or_empty py_str (od_get msg (pystr_of ''data'')))
      else encode_control_frame dumps msg)"

definition overflow_error :: jdict where
  "overflow_error =
     [(pystr_of ''type'', JStr (pystr_of ''error'')),
      (pystr_of ''message'', JStr (pystr_of ''Buffer overflow '' @ [8212] @ pystr_of '' input dropped''))]"

definition QUEUE_MAX :: nat where "QUEUE_MAX = 2000"

definition DEFAULT_MAX_BUFFER_BYTES :: int where "DEFAULT_MAX_BUFFER_BYTES = 1048576"

text \<open>
  The queue, the callers waiting for room in it (\<open>Queue.put\<close> suspends when the queue holds
  \<open>maxsize\<close> items), and \<open>_queue_bytes\<close>. \<open>len\<close> is the length of an encoded frame.
\<close>

record out_queue =
  oq_queue :: "jdict list option"
  oq_waiting :: "jdict list"
  oq_bytes :: int

definition put_message :: "out_queue \<Rightarrow> jdict \<Rightarrow> out_queue" where
  "put_message q m =
     (case oq_queue q of
        None \<Rightarrow> q
      | Some items \<Rightarrow>
          if length items < QUEUE_MAX then q\<lparr>oq_queue := Some (items @ [m])\<rparr>
          else q\<lparr>oq_waiting := oq_waiting q @ [m]\<rparr>)"

text \<open>One turn of the loop of \<open>_enqueue_messages\<close>.\<close>

definition enqueue_message :: "(jdict \<Rightarrow> nat) \<Rightarrow> int \<Rightarrow> out_queue \<Rightarrow> jdict \<Rightarrow> out_queue" where
  "enqueue_message len limit q m =
     (case oq_queue q of
        None \<Rightarrow> q
      | Some _ \<Rightarrow>
          if limit < oq_bytes q + int (len m) then put_message q overflow_error
          else put_message (q\<lparr>oq_bytes := oq_bytes q + int (len m)\<rparr>) m)"

text \<open>A waiting \<open>put\<close> that found room, the bridge taking the next frame, and \<open>start()\<close>, which makes
  a new queue: who waited on the old one waits there for ever.\<close>

definition resume_put :: "out_queue \<Rightarrow> out_queue" where
  "resume_put q =
     (case (oq_queue q, oq_waiting q) of
        (Some items, m # rest) \<Rightarrow>
          if length items < QUEUE_MAX then q\<lparr>oq_queue := Some (items @ [m]), oq_waiting := rest\<rparr> else q
      | _ \<Rightarrow> q)"

definition send_next :: "(jdict \<Rightarrow> nat) \<Rightarrow> out_queue \<Rightarrow> out_queue" where
  "send_next len q =
     (case oq_queue q of
        Some (m # rest) \<Rightarrow> q\<lparr>oq_queue := Some rest, oq_bytes := max 0 (oq_bytes q - int (len m))\<rparr>
      | _ \<Rightarrow> q)"

definition start_queue :: "out_queue \<Rightarrow> out_queue" where
  "start_queue q = q\<lparr>oq_queue := Some [], oq_waiting := []\<rparr>"

definition new_queue :: out_queue where
  "new_queue = \<lparr>oq_queue = None, oq_waiting = [], oq_bytes = 0\<rparr>"

datatype queue_event = QMessage jdict | QResume | QSend | QStart

fun queue_step :: "(jdict \<Rightarrow> nat) \<Rightarrow> int \<Rightarrow> queue_event \<Rightarrow> out_queue \<Rightarrow> out_queue" where
  "queue_step len limit (QMessage m) q = enqueue_message len limit q m"
| "queue_step len limit QResume q = resume_put q"
| "queue_step len limit QSend q = send_next len q"
| "queue_step len limit QStart q = start_queue q"

subsection \<open>The account of the queue\<close>

text \<open>What really is in the queue or waiting to be.\<close>

definition frames :: "out_queue \<Rightarrow> jdict list" where
  "frames q = (case oq_queue q of None \<Rightarrow> [] | Some items \<Rightarrow> items) @ oq_waiting q"

definition real_bytes :: "(jdict \<Rightarrow> nat) \<Rightarrow> out_queue \<Rightarrow> int" where
  "real_bytes len q = int (sum_list (map len (frames q)))"

lemmas queue_defs = put_message_def enqueue_message_def resume_put_def send_next_def start_queue_def

lemma queue_bytes_step:
  "0 \<le> limit \<Longrightarrow> 0 \<le> oq_bytes q \<and> oq_bytes q \<le> limit \<Longrightarrow>
   0 \<le> oq_bytes (queue_step len limit e q) \<and> oq_bytes (queue_step len limit e q) \<le> limit"
  by (cases e) (auto simp: queue_defs split: option.splits list.splits)

lemma queue_bytes_run:
  "0 \<le> limit \<Longrightarrow> 0 \<le> oq_bytes q \<and> oq_bytes q \<le> limit \<Longrightarrow>
   0 \<le> oq_bytes (fold (queue_step len limit) es q) \<and> oq_bytes (fold (queue_step len limit) es q) \<le> limit"
proof (induction es arbitrary: q)
  case (Cons e es)
  then show ?case using queue_bytes_step [of limit q len e] by simp
qed simp

text \<open>
  A step the account follows: no frame is dropped, and a start finds nothing queued.
\<close>

fun accounted :: "(jdict \<Rightarrow> nat) \<Rightarrow> int \<Rightarrow> queue_event \<Rightarrow> out_queue \<Rightarrow> bool" where
  "accounted len limit (QMessage m) q \<longleftrightarrow> oq_queue q = None \<or> oq_bytes q + int (len m) \<le> limit"
| "accounted len limit QStart q \<longleftrightarrow> frames q = []"
| "accounted len limit _ q \<longleftrightarrow> True"

primrec accounted_run :: "(jdict \<Rightarrow> nat) \<Rightarrow> int \<Rightarrow> queue_event list \<Rightarrow> out_queue \<Rightarrow> bool" where
  "accounted_run len limit [] q = True"
| "accounted_run len limit (e # es) q =
     (accounted len limit e q \<and> accounted_run len limit es (queue_step len limit e q))"

lemma account_step:
  assumes "oq_bytes q = real_bytes len q" "accounted len limit e q"
  shows "oq_bytes (queue_step len limit e q) = real_bytes len (queue_step len limit e q)"
proof (cases e)
  case (QMessage m)
  then show ?thesis
    using assms by (auto simp: queue_defs real_bytes_def frames_def split: option.splits)
next
  case QResume
  then show ?thesis
    using assms by (auto simp: queue_defs real_bytes_def frames_def split: option.splits list.splits)
next
  case QSend
  then show ?thesis
    using assms by (auto simp: queue_defs real_bytes_def frames_def split: option.splits list.splits)
next
  case QStart
  then show ?thesis using assms by (simp add: queue_defs real_bytes_def frames_def)
qed

lemma account_run:
  "oq_bytes q = real_bytes len q \<Longrightarrow> accounted_run len limit es q \<Longrightarrow>
   oq_bytes (fold (queue_step len limit) es q) = real_bytes len (fold (queue_step len limit) es q)"
proof (induction es arbitrary: q)
  case (Cons e es)
  have "oq_bytes (queue_step len limit e q) = real_bytes len (queue_step len limit e q)"
    by (rule account_step [OF Cons.prems(1)]) (use Cons.prems(2) in simp)
  with Cons show ?case by simp
qed simp

text \<open>C18: Whatever is enqueued, sent, resumed and restarted, the byte account of a runtime's queue stays
  between zero and the limit, and as long as no frame was dropped and no start found frames still
  queued it is exactly the size of what is queued, so that a frame is dropped only when it really
  does not fit.\<close>

theorem queue_account:
  assumes "0 \<le> limit"
  shows "let q = fold (queue_step len limit) es new_queue
         in 0 \<le> oq_bytes q \<and> oq_bytes q \<le> limit \<and>
            (accounted_run len limit es new_queue \<longrightarrow> oq_bytes q = real_bytes len q \<and>
             (\<forall>m. limit < oq_bytes q + int (len m) \<longleftrightarrow> limit < real_bytes len q + int (len m)))"
proof -
  have "0 \<le> oq_bytes new_queue \<and> oq_bytes new_queue \<le> limit" "oq_bytes new_queue = real_bytes len new_queue"
    using assms by (simp_all add: new_queue_def real_bytes_def frames_def)
  then show ?thesis
    using queue_bytes_run [OF assms] account_run [of new_queue len limit es] by (simp add: Let_def)
qed

theorem queue_account_witness:
  "let q = fold (queue_step length 10) [QStart, QMessage [(pystr_of ''a'', JNull)], QSend] new_queue
   in 0 \<le> oq_bytes q \<and> oq_bytes q \<le> 10"
  using queue_account [of 10 length "[QStart, QMessage [(pystr_of ''a'', JNull)], QSend]"]
  by (simp add: Let_def)

text \<open>
  The account survives a restart, the queue does not: a session restarted with frames still queued
  refuses frames although its queue is empty. And the error frame put in the place of a dropped
  one is not counted when it is queued, but is subtracted when it is sent.
\<close>

theorem restart_keeps_bytes:
  assumes "0 < limit" "int (len m) = limit" "0 < len m'"
  defines "q \<equiv> fold (queue_step len limit) [QStart, QMessage m, QStart] new_queue"
  shows "frames q = [] \<and> frames (queue_step len limit (QMessage m') q) = [overflow_error]"
  using assms by (simp add: queue_defs new_queue_def frames_def QUEUE_MAX_def)

theorem overflow_uncounted:
  assumes "int (len m) = limit" "0 < len m'"
  defines "q \<equiv> fold (queue_step len limit) [QStart, QMessage m, QMessage m'] new_queue"
  shows "frames q = [m, overflow_error] \<and> oq_bytes q = limit \<and>
    oq_bytes (fold (queue_step len limit) [QMessage m', QSend, QMessage m, QSend] q) =
      max 0 (limit - int (len overflow_error))"
  using assms by (simp add: queue_defs new_queue_def frames_def QUEUE_MAX_def)

subsection \<open>When the recording takes a screen\<close>

definition RECORDED_SCREEN_SETTLE_S :: time where "RECORDED_SCREEN_SETTLE_S = 1 / 4"

text \<open>\<open>None\<close> is the initial \<open>float("-inf")\<close> of \<open>last_taken_at\<close>.\<close>

definition settled_screen_due :: "time \<Rightarrow> time option \<Rightarrow> time \<Rightarrow> time option \<Rightarrow> time \<Rightarrow> bool" where
  "settled_screen_due now pending_since last_output_at last_taken_at interval =
     (case pending_since of
        None \<Rightarrow> False
      | Some since \<Rightarrow>
          (case last_taken_at of None \<Rightarrow> True | Some t \<Rightarrow> \<not> now - t < interval) \<and>
          (RECORDED_SCREEN_SETTLE_S \<le> now - last_output_at \<or> interval \<le> now - since))"

record screen_clock =
  sc_unrecorded_since :: "time option"
  sc_last_output_at :: time
  sc_last_recorded_at :: "time option"
  sc_last_recorded :: "pystr option"

definition note_output :: "time \<Rightarrow> screen_clock \<Rightarrow> screen_clock" where
  "note_output now c =
     c\<lparr>sc_last_output_at := now,
       sc_unrecorded_since := (case sc_unrecorded_since c of None \<Rightarrow> Some now | Some t \<Rightarrow> Some t)\<rparr>"

text \<open>The part of \<open>_log_snapshot\<close> that notes the screen.\<close>

definition note_screen :: "time \<Rightarrow> pystr \<Rightarrow> screen_clock \<Rightarrow> screen_clock" where
  "note_screen now screen c =
     c\<lparr>sc_unrecorded_since := None, sc_last_recorded_at := Some now, sc_last_recorded := Some screen\<rparr>"

text \<open>
  One call of \<open>_record_settled_screen\<close>: whether it recorded the screen, with \<open>snapshot\<close> what the
  connector answers (\<open>None\<close> when it raised) and \<open>taken_at\<close> the time the recording reads after it.
\<close>

definition record_settled_screen ::
  "time \<Rightarrow> bool \<Rightarrow> bool \<Rightarrow> time \<Rightarrow> time \<Rightarrow> pystr option \<Rightarrow> screen_clock \<Rightarrow> bool \<times> screen_clock" where
  "record_settled_screen interval recording quota_reached now taken_at snapshot c =
     (if interval \<le> 0 \<or> \<not> recording then (False, c)
      else if quota_reached then (False, c)
      else if \<not> settled_screen_due now (sc_unrecorded_since c) (sc_last_output_at c) (sc_last_recorded_at c) interval
      then (False, c)
      else case snapshot of
             None \<Rightarrow> (False, c\<lparr>sc_last_recorded_at := Some now\<rparr>)
           | Some screen \<Rightarrow>
               if Some screen = sc_last_recorded c then (False, c\<lparr>sc_unrecorded_since := None\<rparr>)
               else (True, note_screen taken_at screen c))"

lemma settled_screen_spaced:
  "fst (record_settled_screen interval r q now t1 s c) \<Longrightarrow> sc_last_recorded_at c = Some t \<Longrightarrow> interval \<le> now - t"
  by (auto simp: record_settled_screen_def settled_screen_due_def split: if_splits option.splits)

lemma settled_screen_new:
  "fst (record_settled_screen interval r q now t1 s c) \<Longrightarrow> s \<noteq> None \<and> s \<noteq> sc_last_recorded c"
  by (auto simp: record_settled_screen_def split: if_splits option.splits)

lemma settled_screen_taken:
  assumes "sc_unrecorded_since c = Some since" "0 < interval" "interval \<le> now - since"
    and "\<And>t. sc_last_recorded_at c = Some t \<Longrightarrow> interval \<le> now - t"
    and "Some screen \<noteq> sc_last_recorded c"
  shows "record_settled_screen interval True False now t' (Some screen) c = (True, note_screen t' screen c)"
  using assms by (auto simp: record_settled_screen_def settled_screen_due_def split: option.splits)

subsection \<open>Annotations of the read path\<close>

text \<open>
  \<open>_read_annotation_keys\<close> and \<open>_snapshot_only_keys\<close>. An annotation is given by what the detector
  returned, \<open>key\<close> is its \<open>match_key\<close>. The two scans answer what they write to the recording; they
  run one after the other in the task of the bridge, and \<open>_stop_recording\<close> empties both sets.
\<close>

definition MAX_READ_ANNOTATION_KEYS :: nat where "MAX_READ_ANNOTATION_KEYS = 1024"

definition add_bounded :: "pystr set \<Rightarrow> pystr \<Rightarrow> pystr set" where
  "add_bounded keys key = insert key (if MAX_READ_ANNOTATION_KEYS \<le> card keys then {} else keys)"

record dedupe =
  dd_read :: "pystr set"
  dd_snapshot_only :: "pystr set"

definition no_annotations :: dedupe where
  "no_annotations = \<lparr>dd_read = {}, dd_snapshot_only = {}\<rparr>"

fun snapshot_annotations :: "('a \<Rightarrow> pystr) \<Rightarrow> dedupe \<Rightarrow> 'a list \<Rightarrow> dedupe \<times> 'a list" where
  "snapshot_annotations key d [] = (d, [])"
| "snapshot_annotations key d (a # as) =
     (if key a \<noteq> [] \<and> key a \<in> dd_read d then snapshot_annotations key d as
      else let d1 = (if key a = [] then d
                     else d\<lparr>dd_read := add_bounded (dd_read d) (key a),
                            dd_snapshot_only := add_bounded (dd_snapshot_only d) (key a)\<rparr>);
               (d', recorded) = snapshot_annotations key d1 as
           in (d', a # recorded))"

fun stream_annotations :: "('a \<Rightarrow> pystr) \<Rightarrow> dedupe \<Rightarrow> 'a list \<Rightarrow> dedupe \<times> 'a list" where
  "stream_annotations key d [] = (d, [])"
| "stream_annotations key d (a # as) =
     (if key a \<noteq> [] \<and> key a \<in> dd_snapshot_only d
      then stream_annotations key (d\<lparr>dd_snapshot_only := dd_snapshot_only d - {key a}\<rparr>) as
      else let d1 = (if key a = [] then d else d\<lparr>dd_read := add_bounded (dd_read d) (key a)\<rparr>);
               (d', recorded) = stream_annotations key d1 as
           in (d', a # recorded))"

datatype 'a scan = Screen "'a list" | Chunk "'a list"

fun scan_step :: "('a \<Rightarrow> pystr) \<Rightarrow> 'a scan \<Rightarrow> dedupe \<Rightarrow> dedupe \<times> 'a list" where
  "scan_step key (Screen as) d = snapshot_annotations key d as"
| "scan_step key (Chunk as) d =
     (let (d', recorded) = stream_annotations key d as in (d'\<lparr>dd_snapshot_only := {}\<rparr>, recorded))"

primrec annotate :: "('a \<Rightarrow> pystr) \<Rightarrow> 'a scan list \<Rightarrow> dedupe \<Rightarrow> dedupe \<times> 'a list" where
  "annotate key [] d = (d, [])"
| "annotate key (e # es) d =
     (let (d1, r1) = scan_step key e d; (d2, r2) = annotate key es d1 in (d2, r1 @ r2))"

subsection \<open>How often a match is recorded\<close>

abbreviation occurrences :: "('a \<Rightarrow> pystr) \<Rightarrow> pystr \<Rightarrow> 'a list \<Rightarrow> nat" where
  "occurrences key k as \<equiv> length (filter (\<lambda>a. key a = k) as)"

primrec streamed :: "('a \<Rightarrow> pystr) \<Rightarrow> pystr \<Rightarrow> 'a scan list \<Rightarrow> nat" where
  "streamed key k [] = 0"
| "streamed key k (e # es) =
     (case e of Screen _ \<Rightarrow> 0 | Chunk as \<Rightarrow> occurrences key k as) + streamed key k es"

fun scan_matches :: "'a scan \<Rightarrow> 'a list" where
  "scan_matches (Screen as) = as"
| "scan_matches (Chunk as) = as"

text \<open>The next chunk does not have it; and it came on a screen first, which no chunk made good.\<close>

fun not_absorbed :: "('a \<Rightarrow> pystr) \<Rightarrow> pystr \<Rightarrow> 'a scan list \<Rightarrow> bool" where
  "not_absorbed key k [] = True"
| "not_absorbed key k (Screen _ # es) = not_absorbed key k es"
| "not_absorbed key k (Chunk as # es) = (k \<notin> key ` set as)"

fun screen_extra :: "('a \<Rightarrow> pystr) \<Rightarrow> pystr \<Rightarrow> 'a scan list \<Rightarrow> nat" where
  "screen_extra key k [] = 0"
| "screen_extra key k (Screen as # es) =
     (if k \<in> key ` set as then (if not_absorbed key k es then 1 else 0) else screen_extra key k es)"
| "screen_extra key k (Chunk as # es) = (if k \<in> key ` set as then 0 else screen_extra key k es)"

lemma card_add_bounded: "finite keys \<Longrightarrow> card keys \<le> MAX_READ_ANNOTATION_KEYS \<Longrightarrow>
  finite (add_bounded keys k) \<and> card (add_bounded keys k) \<le> MAX_READ_ANNOTATION_KEYS"
  by (auto simp: add_bounded_def card_insert_if MAX_READ_ANNOTATION_KEYS_def)

abbreviation dedupe_bounded :: "dedupe \<Rightarrow> bool" where
  "dedupe_bounded d \<equiv> finite (dd_read d) \<and> card (dd_read d) \<le> MAX_READ_ANNOTATION_KEYS \<and>
     finite (dd_snapshot_only d) \<and> card (dd_snapshot_only d) \<le> MAX_READ_ANNOTATION_KEYS"

lemma snapshot_bounded: "dedupe_bounded d \<Longrightarrow> dedupe_bounded (fst (snapshot_annotations key d as))"
proof (induction as arbitrary: d)
  case (Cons a as)
  then show ?case by (simp add: card_add_bounded split_beta Let_def)
qed simp

lemma stream_bounded: "dedupe_bounded d \<Longrightarrow> dedupe_bounded (fst (stream_annotations key d as))"
proof (induction as arbitrary: d)
  case (Cons a as)
  have "card (dd_snapshot_only d - {key a}) \<le> MAX_READ_ANNOTATION_KEYS"
    using Cons.prems card_Diff1_le [of "dd_snapshot_only d" "key a"] by linarith
  then have "dedupe_bounded (fst (stream_annotations key (d\<lparr>dd_snapshot_only := dd_snapshot_only d - {key a}\<rparr>) as))"
    using Cons by simp
  then show ?case using Cons by (simp add: card_add_bounded split_beta Let_def)
qed simp

lemma annotate_bounded: "dedupe_bounded d \<Longrightarrow> dedupe_bounded (fst (annotate key es d))"
proof (induction es arbitrary: d)
  case (Cons e es)
  have "dedupe_bounded (fst (scan_step key e d))"
    using snapshot_bounded [OF Cons.prems] stream_bounded [OF Cons.prems] by (cases e) (auto simp: split_beta)
  then show ?case using Cons.IH by (simp add: split_beta)
qed simp

text \<open>One key through one scan, when the sets are not emptied by their bound.\<close>

definition roomy :: "pystr set \<Rightarrow> dedupe \<Rightarrow> bool" where
  "roomy K d \<longleftrightarrow> finite K \<and> card K < MAX_READ_ANNOTATION_KEYS \<and> dd_snapshot_only d \<subseteq> dd_read d \<and> dd_read d \<subseteq> K"

lemma add_bounded_roomy: "finite K \<Longrightarrow> card K < MAX_READ_ANNOTATION_KEYS \<Longrightarrow> keys \<subseteq> K \<Longrightarrow>
  add_bounded keys k = insert k keys"
  using card_mono [of K keys] by (simp add: add_bounded_def)

lemma roomy_add:
  assumes "roomy K d" "k \<in> K"
  shows "add_bounded (dd_read d) k = insert k (dd_read d)"
    and "add_bounded (dd_snapshot_only d) k = insert k (dd_snapshot_only d)"
    and "roomy K (d\<lparr>dd_read := insert k (dd_read d)\<rparr>)"
    and "roomy K (d\<lparr>dd_read := insert k (dd_read d), dd_snapshot_only := insert k (dd_snapshot_only d)\<rparr>)"
    and "roomy K (d\<lparr>dd_snapshot_only := dd_snapshot_only d - {k}\<rparr>)"
proof -
  have f: "finite K" "card K < MAX_READ_ANNOTATION_KEYS" "dd_read d \<subseteq> K" "dd_snapshot_only d \<subseteq> K"
    using assms by (auto simp: roomy_def)
  show "add_bounded (dd_read d) k = insert k (dd_read d)" by (rule add_bounded_roomy [OF f(1,2,3)])
  show "add_bounded (dd_snapshot_only d) k = insert k (dd_snapshot_only d)" by (rule add_bounded_roomy [OF f(1,2,4)])
qed (use assms in \<open>auto simp: roomy_def\<close>)

lemma snapshot_key:
  "roomy K d \<Longrightarrow> key ` set as - {[]} \<subseteq> K \<Longrightarrow> k \<noteq> [] \<Longrightarrow>
   (let r = snapshot_annotations key d as in
      roomy K (fst r) \<and>
      occurrences key k (snd r) = (if k \<in> key ` set as \<and> k \<notin> dd_read d then 1 else 0) \<and>
      (k \<in> dd_read (fst r) \<longleftrightarrow> k \<in> dd_read d \<or> k \<in> key ` set as) \<and>
      (k \<in> dd_snapshot_only (fst r) \<longleftrightarrow> k \<in> dd_snapshot_only d \<or> k \<in> key ` set as \<and> k \<notin> dd_read d))"
proof (induction as arbitrary: d)
  case (Cons a as)
  have sub: "key ` set as - {[]} \<subseteq> K" using Cons.prems(2) by auto
  show ?case
  proof (cases "key a = [] \<or> key a \<in> dd_read d")
    case True
    then show ?thesis using Cons.IH [OF Cons.prems(1) sub Cons.prems(3)] Cons.prems(3)
      by (cases "key a = []") (auto simp: Let_def split_beta)
  next
    case False
    then have k: "key a \<in> K" using Cons.prems(2) by auto
    show ?thesis
      using False Cons.IH [OF roomy_add(4) [OF Cons.prems(1) k] sub Cons.prems(3)] Cons.prems(3)
        roomy_add(1,2) [OF Cons.prems(1) k]
      by (cases "key a = k") (simp_all add: Let_def split_beta)
  qed
qed simp

lemma stream_key:
  "roomy K d \<Longrightarrow> key ` set as - {[]} \<subseteq> K \<Longrightarrow> k \<noteq> [] \<Longrightarrow>
   (let r = stream_annotations key d as in
      roomy K (fst r) \<and>
      occurrences key k (snd r) + (if k \<in> key ` set as \<and> k \<in> dd_snapshot_only d then 1 else 0) = occurrences key k as \<and>
      (k \<in> dd_read (fst r) \<longleftrightarrow> k \<in> dd_read d \<or> k \<in> key ` set as))"
proof (induction as arbitrary: d)
  case (Cons a as)
  have sub: "key ` set as - {[]} \<subseteq> K" using Cons.prems(2) by auto
  show ?case
  proof (cases "key a = []")
    case True
    then show ?thesis using Cons.IH [OF Cons.prems(1) sub Cons.prems(3)] Cons.prems(3)
      by (auto simp: Let_def split_beta)
  next
    case False
    then have k: "key a \<in> K" using Cons.prems(2) by auto
    show ?thesis
    proof (cases "key a \<in> dd_snapshot_only d")
      case True
      then have "key a \<in> dd_read d" using Cons.prems(1) by (auto simp: roomy_def)
      then show ?thesis
        using True False Cons.IH [OF roomy_add(5) [OF Cons.prems(1) k] sub Cons.prems(3)]
        by (cases "key a = k") (simp_all add: Let_def split_beta)
    next
      case nosnap: False
      then show ?thesis
        using False Cons.IH [OF roomy_add(3) [OF Cons.prems(1) k] sub Cons.prems(3)]
          roomy_add(1) [OF Cons.prems(1) k]
        by (cases "key a = k") (simp_all add: Let_def split_beta)
    qed
  qed
qed simp

text \<open>The three phases of a key: never seen, pending since a screen, and seen.\<close>

lemma annotate_key:
  assumes "finite K" "card K < MAX_READ_ANNOTATION_KEYS" "k \<noteq> []"
  shows "roomy K d \<Longrightarrow> (\<Union>e \<in> set es. key ` set (scan_matches e)) - {[]} \<subseteq> K \<Longrightarrow>
    occurrences key k (snd (annotate key es d)) +
      (if k \<in> dd_snapshot_only d \<and> \<not> not_absorbed key k es then 1 else 0) =
    streamed key k es + (if k \<in> dd_read d then 0 else screen_extra key k es)"
proof (induction es arbitrary: d)
  case (Cons e es)
  have sub: "(\<Union>e \<in> set es. key ` set (scan_matches e)) - {[]} \<subseteq> K"
    and here: "key ` set (scan_matches e) - {[]} \<subseteq> K" using Cons.prems(2) by auto
  have pr: "k \<in> dd_read d" if "k \<in> dd_snapshot_only d" using that Cons.prems(1) by (auto simp: roomy_def)
  show ?case
  proof (cases e)
    case (Screen as)
    note one = snapshot_key [OF Cons.prems(1) _ assms(3), of key as, unfolded Let_def]
    have "roomy K (fst (scan_step key e d))" using one here Screen by simp
    from Cons.IH [OF this sub] one here show ?thesis
      using Screen pr by (auto simp: split_beta Let_def split: if_splits)
  next
    case (Chunk as)
    note one = stream_key [OF Cons.prems(1) _ assms(3), of key as, unfolded Let_def]
    have "roomy K (fst (scan_step key e d))" using one here Chunk by (auto simp: roomy_def split_beta)
    from Cons.IH [OF this sub] one here show ?thesis
      using Chunk pr by (auto simp: split_beta Let_def split: if_splits)
  qed
qed simp

text \<open>C17: Within one recording, a match of the read path is recorded once for every time it was
  streamed, and once more if it was on a screen before it was ever streamed and the next chunk of
  the stream does not have it: no streamed match is missed, what a screen repeats is not recorded
  again, and a screen seen before its stream is recorded with it once. The sets stay within their
  bound; the count is exact while fewer than 1024 different matches were seen.\<close>

theorem annotations_recorded:
  assumes "finite K" "card K < MAX_READ_ANNOTATION_KEYS"
    and "(\<Union>e \<in> set es. key ` set (scan_matches e)) - {[]} \<subseteq> K" "k \<noteq> []"
  shows "occurrences key k (snd (annotate key es no_annotations)) = streamed key k es + screen_extra key k es \<and>
    dedupe_bounded (fst (annotate key es no_annotations))"
proof -
  have "roomy K no_annotations" using assms by (simp add: roomy_def no_annotations_def)
  moreover have "dedupe_bounded no_annotations" by (simp add: no_annotations_def)
  ultimately show ?thesis
    using annotate_key [OF assms(1,2,4) _ assms(3), of no_annotations]
      annotate_bounded [of no_annotations key es]
    by (simp add: no_annotations_def)
qed

theorem annotations_recorded_witness:
  "occurrences id [97] (snd (annotate id [Screen [[97]], Screen [[97]], Chunk [[97], [97]], Chunk [[97]]] no_annotations)) = 3"
  using annotations_recorded
    [of "{[97]}" id "[Screen [[97]], Screen [[97]], Chunk [[97], [97]], Chunk [[97]]]" "[97]"]
  by (simp add: MAX_READ_ANNOTATION_KEYS_def)

end
