(* ===== verification/HostedRuntime.thy ===== *)
theory HostedRuntime
  imports Prelude Utf8
begin

text \<open>
  The life cycle of a hosted session's runtime (\<open>server/runtime.py\<close>, \<open>runtime_helpers.py\<close>,
  \<open>runtime_connection.py\<close>): the run loop with its reconnects, \<open>start\<close>, \<open>stop\<close> and \<open>restart\<close>.
  These are coroutines of one event loop, so each is given as the turns between its awaits, and a
  turn ends with the await the coroutine is suspended in. An await of I/O always ends a turn; one
  that does not suspend is a turn followed at once by the next. What is awaited (the connector, the
  recording, the worker connection), the redactor and the clock are answers given to a turn.
\<close>

subsection \<open>Failures\<close>

datatype exn =
    CancelledError
  | Exn (is_value_error: bool) (status_code: "int option") (response_status: "int option") (exn_text: pystr)

fun str_exn :: "exn \<Rightarrow> pystr" where
  "str_exn CancelledError = []"
| "str_exn (Exn v s r t) = t"

datatype run_outcome = OutCancelled | OutPermanent | OutRetry

fun classify_run_error :: "exn \<Rightarrow> run_outcome" where
  "classify_run_error CancelledError = OutCancelled"
| "classify_run_error (Exn v s r t) =
     (if v then OutPermanent
      else let status = (case s of Some n \<Rightarrow> if n \<noteq> 0 then Some n else r | None \<Rightarrow> r)
           in if status \<in> {Some 401, Some 403, Some 404} then OutPermanent else OutRetry)"

definition BACKOFF_S :: "time list" where "BACKOFF_S = [1 / 4, 1 / 2, 1, 2, 5]"

definition backoff_delay :: "nat \<Rightarrow> time" where
  "backoff_delay attempt = BACKOFF_S ! (min attempt (length BACKOFF_S - 1))"

subsection \<open>The runtime\<close>

datatype lifecycle = LcStopped | LcStarting | LcRunning | LcError

text \<open>
  \<open>hr_definition\<close> names the session definition the runtime shares with the registry; a task and a
  connector are named by numbers; \<open>hr_logger\<close> says whether a recording is open.
\<close>

record hosted_runtime =
  hr_definition :: nat
  hr_task :: "nat option"
  hr_stop_set :: bool
  hr_connector :: "nat option"
  hr_logger :: bool
  hr_keeper :: bool
  hr_state :: lifecycle
  hr_connected :: bool
  hr_stopped_at :: "time option"
  hr_last_error :: "pystr option"
  hr_pending_close_failure :: "exn option"
  hr_config_pending_restart :: bool

definition new_runtime :: "nat \<Rightarrow> bool \<Rightarrow> hosted_runtime" where
  "new_runtime definition keeper =
     \<lparr>hr_definition = definition, hr_task = None, hr_stop_set = False, hr_connector = None, hr_logger = False,
      hr_keeper = keeper, hr_state = LcStopped, hr_connected = False, hr_stopped_at = None,
      hr_last_error = None, hr_pending_close_failure = None, hr_config_pending_restart = False\<rparr>"

text \<open>What an await came back with, and what else the code asks during the turn.\<close>

datatype outcome = Done | Raised exn

record answers =
  an_outcome :: outcome
  an_alive :: bool
  an_build :: "exn + nat"
  an_recording_enabled :: bool
  an_redact :: "pystr \<Rightarrow> pystr"
  an_now :: time

subsection \<open>The run loop\<close>

text \<open>
  What follows the \<open>finally\<close> of an iteration: the next iteration, the cleanup after the loop, or the
  cancellation going on to the caller. A suspended run loop holds its \<open>attempt\<close>.
\<close>

datatype after_finally = Loop | Break | Propagate

datatype run_await =
    RunHead
  | RunDiscard
  | RunConnectorStart nat
  | RunLoggerStart
  | RunConnect
  | RunBridge
  | RunLogError bool pystr
  | RunBackoff pystr
  | RunEndRecording after_finally "pystr option"
  | RunFinalRecording
  | RunFinalConnector "exn option"

datatype run_task = RunLive nat run_await | RunEnded "exn option"

text \<open>\<open>_stop_connector\<close> and what follows it, behind the loop.\<close>

definition run_finish :: "exn option \<Rightarrow> time \<Rightarrow> hosted_runtime \<Rightarrow> hosted_runtime \<times> run_task" where
  "run_finish e now rt =
     (case e of
        None \<Rightarrow> (rt\<lparr>hr_state := LcStopped, hr_stopped_at := Some now\<rparr>, RunEnded None)
      | Some x \<Rightarrow> (rt, RunEnded (Some x)))"

definition run_final_connector :: "nat \<Rightarrow> exn option \<Rightarrow> time \<Rightarrow> hosted_runtime \<Rightarrow> hosted_runtime \<times> run_task" where
  "run_final_connector attempt e now rt =
     (case hr_connector rt of
        None \<Rightarrow> run_finish e now rt
      | Some c \<Rightarrow> (rt\<lparr>hr_connector := None\<rparr>, RunLive attempt (RunFinalConnector e)))"

definition run_final :: "nat \<Rightarrow> time \<Rightarrow> hosted_runtime \<Rightarrow> hosted_runtime \<times> run_task" where
  "run_final attempt now rt =
     (if hr_logger rt then (rt, RunLive attempt RunFinalRecording)
      else run_final_connector attempt None now rt)"

text \<open>\<open>_start_recording\<close>, up to its await, and the dial.\<close>

definition run_record :: "nat \<Rightarrow> answers \<Rightarrow> hosted_runtime \<Rightarrow> hosted_runtime \<times> run_task" where
  "run_record attempt an rt =
     (if \<not> hr_logger rt \<and> an_recording_enabled an then (rt\<lparr>hr_logger := True\<rparr>, RunLive attempt RunLoggerStart)
      else (rt, RunLive attempt RunConnect))"

text \<open>
  The \<open>finally\<close> of an iteration up to its await; the \<open>except\<close> branch up to its first await, with
  \<open>_log_runtime_error\<close> awaiting only when a recording is open; the retry's sleep.
\<close>

definition run_backoff :: "nat \<Rightarrow> pystr \<Rightarrow> hosted_runtime \<Rightarrow> hosted_runtime \<times> run_task" where
  "run_backoff attempt err rt = (rt, RunLive (Suc attempt) (RunBackoff err))"

text \<open>
  What follows a \<open>finally\<close>. The next iteration is left at \<open>RunHead\<close>, from where \<open>run_resume\<close> goes on
  in the same turn.
\<close>

definition run_next :: "nat \<Rightarrow> time \<Rightarrow> after_finally \<Rightarrow> hosted_runtime \<Rightarrow> hosted_runtime \<times> run_task" where
  "run_next attempt now next rt =
     (case next of
        Loop \<Rightarrow> (rt, RunLive attempt RunHead)
      | Break \<Rightarrow> run_final attempt now rt
      | Propagate \<Rightarrow> (rt, RunEnded (Some CancelledError)))"

definition run_finally :: "nat \<Rightarrow> time \<Rightarrow> after_finally \<Rightarrow> pystr option \<Rightarrow> hosted_runtime \<Rightarrow> hosted_runtime \<times> run_task" where
  "run_finally attempt now next err rt =
     (let rt1 = rt\<lparr>hr_connected := False\<rparr>
      in if hr_logger rt1 then (rt1, RunLive attempt (RunEndRecording next err))
         else run_next attempt now next rt1)"

definition run_logged :: "nat \<Rightarrow> time \<Rightarrow> bool \<Rightarrow> pystr \<Rightarrow> hosted_runtime \<Rightarrow> hosted_runtime \<times> run_task" where
  "run_logged attempt now permanent err rt =
     (if permanent then run_finally attempt now Break (Some err) rt else run_backoff attempt err rt)"

text \<open>
  A failed iteration. A cancellation is no \<open>Exception\<close>: it is not caught, and goes on after the
  \<open>finally\<close>.
\<close>

definition run_failed :: "nat \<Rightarrow> answers \<Rightarrow> exn \<Rightarrow> hosted_runtime \<Rightarrow> hosted_runtime \<times> run_task" where
  "run_failed attempt an e rt =
     (let outcome = classify_run_error e
      in if outcome = OutCancelled then run_finally attempt (an_now an) Propagate None rt
         else let err = an_redact an (str_exn e);
                  permanent = (outcome = OutPermanent);
                  rt1 = rt\<lparr>hr_state := LcError, hr_connected := False, hr_last_error := Some err\<rparr>
              in if hr_logger rt1 then (rt1, RunLive attempt (RunLogError permanent err))
                 else run_logged attempt (an_now an) permanent err rt1)"

text \<open>\<open>_start_connector\<close> up to its await, and the head of the loop.\<close>

definition run_build :: "nat \<Rightarrow> answers \<Rightarrow> hosted_runtime \<Rightarrow> hosted_runtime \<times> run_task" where
  "run_build attempt an rt =
     (case an_build an of
        Inl e \<Rightarrow> run_failed attempt an e rt
      | Inr c \<Rightarrow> (rt\<lparr>hr_config_pending_restart := False\<rparr>, RunLive attempt (RunConnectorStart c)))"

definition run_head :: "nat \<Rightarrow> answers \<Rightarrow> hosted_runtime \<Rightarrow> hosted_runtime \<times> run_task" where
  "run_head attempt an rt =
     (if hr_stop_set rt then run_final attempt (an_now an) rt
      else let rt1 = rt\<lparr>hr_state := LcStarting\<rparr>
           in case hr_connector rt1 of
                None \<Rightarrow> run_build attempt an rt1
              | Some c \<Rightarrow>
                  if an_alive an then run_record attempt an rt1
                  else (rt1\<lparr>hr_connector := None\<rparr>, RunLive attempt RunDiscard))"

text \<open>
  \<open>_bridge_session\<close> up to its first await, and the end of a connection's recording
  (\<open>_end_connection_recording\<close>) once the logger's \<open>stop\<close> came back with \<open>out\<close>.
\<close>

definition run_bridge :: "nat \<Rightarrow> answers \<Rightarrow> hosted_runtime \<Rightarrow> hosted_runtime \<times> run_task" where
  "run_bridge attempt an rt =
     (if hr_connector rt = None
      then run_failed attempt an (Exn False None None (pystr_of ''connector unavailable'')) rt
      else (rt\<lparr>hr_state := LcRunning, hr_connected := True\<rparr>, RunLive attempt RunBridge))"

definition close_failed_text :: "pystr option \<Rightarrow> exn \<Rightarrow> pystr" where
  "close_failed_text err e =
     (let close_error = pystr_of ''recording close failed: '' @ str_exn e
      in case err of
           None \<Rightarrow> close_error
         | Some t \<Rightarrow> if t = [] then close_error else t @ pystr_of ''; '' @ close_error)"

definition run_recording_ended :: "nat \<Rightarrow> time \<Rightarrow> after_finally \<Rightarrow> pystr option \<Rightarrow> outcome \<Rightarrow>
    hosted_runtime \<Rightarrow> hosted_runtime \<times> run_task" where
  "run_recording_ended attempt now next err out rt =
     (let rt1 = rt\<lparr>hr_logger := False\<rparr>
      in case out of
           Done \<Rightarrow> run_next attempt now next rt1
         | Raised CancelledError \<Rightarrow> (rt1, RunEnded (Some CancelledError))
         | Raised e \<Rightarrow>
             run_next attempt now next
               (rt1\<lparr>hr_last_error := Some (close_failed_text err e),
                    hr_pending_close_failure :=
                      (if hr_stop_set rt1 then Some e else hr_pending_close_failure rt1)\<rparr>))"

text \<open>A turn of the run loop: it is resumed from its await.\<close>

definition run_turn :: "nat \<Rightarrow> run_await \<Rightarrow> answers \<Rightarrow> hosted_runtime \<Rightarrow> hosted_runtime \<times> run_task" where
  "run_turn attempt aw an rt =
     (let out = an_outcome an; now = an_now an
      in case aw of
           RunHead \<Rightarrow> (case out of Raised CancelledError \<Rightarrow> (rt, RunEnded (Some CancelledError))
                                | _ \<Rightarrow> run_head attempt an rt)
         | RunDiscard \<Rightarrow> (case out of Raised CancelledError \<Rightarrow> run_failed attempt an CancelledError rt
                                   | _ \<Rightarrow> run_build attempt an rt)
         | RunConnectorStart c \<Rightarrow>
             (case out of
                Raised e \<Rightarrow> run_failed attempt an e rt
              | Done \<Rightarrow> run_record attempt an
                          (rt\<lparr>hr_connector := Some c, hr_connected := hr_connected rt \<or> an_alive an\<rparr>))
         | RunLoggerStart \<Rightarrow>
             (case out of Raised e \<Rightarrow> run_failed attempt an e rt | Done \<Rightarrow> (rt, RunLive attempt RunConnect))
         | RunConnect \<Rightarrow>
             (case out of Raised e \<Rightarrow> run_failed attempt an e rt | Done \<Rightarrow> run_bridge attempt an rt)
         | RunBridge \<Rightarrow>
             (case out of Raised e \<Rightarrow> run_failed attempt an e rt | Done \<Rightarrow> run_finally 0 now Loop None rt)
         | RunLogError permanent err \<Rightarrow>
             (case out of Raised CancelledError \<Rightarrow> run_finally attempt now Propagate (Some err) rt
                        | _ \<Rightarrow> run_logged attempt now permanent err rt)
         | RunBackoff err \<Rightarrow>
             (case out of Raised e \<Rightarrow> run_finally attempt now Propagate (Some err) rt
                        | Done \<Rightarrow> run_finally attempt now Loop (Some err) rt)
         | RunEndRecording next err \<Rightarrow> run_recording_ended attempt now next err out rt
         | RunFinalRecording \<Rightarrow>
             run_final_connector attempt (case out of Done \<Rightarrow> None | Raised e \<Rightarrow> Some e) now (rt\<lparr>hr_logger := False\<rparr>)
         | RunFinalConnector e \<Rightarrow>
             (case out of Raised CancelledError \<Rightarrow> (rt, RunEnded (Some CancelledError))
                        | _ \<Rightarrow> run_finish e now rt))"

definition run_resume :: "nat \<Rightarrow> run_await \<Rightarrow> answers \<Rightarrow> hosted_runtime \<Rightarrow> hosted_runtime \<times> run_task" where
  "run_resume attempt aw an rt =
     (case run_turn attempt aw an rt of
        (rt', RunLive n RunHead) \<Rightarrow> run_head n an rt'
      | r \<Rightarrow> r)"

subsection \<open>Starting and stopping\<close>

text \<open>
  \<open>start\<close> makes a task when the last one is over; \<open>t\<close> is its name and \<open>over\<close> says which tasks are
  done. It awaits nothing.
\<close>

definition start_runtime :: "(nat \<Rightarrow> bool) \<Rightarrow> nat \<Rightarrow> hosted_runtime \<Rightarrow> hosted_runtime option" where
  "start_runtime over t rt =
     (if (case hr_task rt of None \<Rightarrow> False | Some old \<Rightarrow> \<not> over old) then None
      else Some (rt\<lparr>hr_stop_set := False, hr_state := LcStarting, hr_stopped_at := None, hr_last_error := None,
                    hr_pending_close_failure := None, hr_task := Some t\<rparr>))"

text \<open>
  Where \<open>stop\<close> is suspended: in the wait for the run task it has cancelled, in the logger's
  \<open>stop\<close>, in the last save of a capture session's screen, or in the connector's \<open>stop\<close>; each with
  the failure it will raise.
\<close>

datatype stop_await =
    StopTask nat
  | StopLogger "exn option"
  | StopScreen "exn option"
  | StopConnector "exn option"

datatype stop_task = StopLive stop_await | StopEnded "exn option"

fun failure_or :: "exn option \<Rightarrow> exn option \<Rightarrow> exn option" where
  "failure_or (Some e) f = Some e"
| "failure_or None f = f"

definition stop_finish :: "exn option \<Rightarrow> time \<Rightarrow> hosted_runtime \<Rightarrow> hosted_runtime \<times> stop_task" where
  "stop_finish f now rt =
     (rt\<lparr>hr_state := LcStopped, hr_stopped_at := Some now, hr_connected := False,
         hr_last_error := (case f of None \<Rightarrow> hr_last_error rt | Some e \<Rightarrow> Some (str_exn e))\<rparr>, StopEnded f)"

definition stop_discard :: "exn option \<Rightarrow> time \<Rightarrow> hosted_runtime \<Rightarrow> hosted_runtime \<times> stop_task" where
  "stop_discard f now rt =
     (case hr_connector rt of
        None \<Rightarrow> stop_finish f now rt
      | Some c \<Rightarrow> (rt\<lparr>hr_connector := None\<rparr>, StopLive (StopConnector f)))"

definition stop_recorded :: "exn option \<Rightarrow> time \<Rightarrow> hosted_runtime \<Rightarrow> hosted_runtime \<times> stop_task" where
  "stop_recorded f now rt =
     (let rt1 = rt\<lparr>hr_task := None\<rparr>
      in if hr_keeper rt1 \<and> hr_connector rt1 \<noteq> None then (rt1, StopLive (StopScreen f))
         else stop_discard f now rt1)"

definition stop_task_over :: "exn option \<Rightarrow> time \<Rightarrow> hosted_runtime \<Rightarrow> hosted_runtime \<times> stop_task" where
  "stop_task_over result now rt =
     (let f = failure_or (if result = Some CancelledError then None else result) (hr_pending_close_failure rt);
          rt1 = rt\<lparr>hr_pending_close_failure := None\<rparr>
      in if hr_logger rt1 then (rt1, StopLive (StopLogger f)) else stop_recorded f now rt1)"

text \<open>The first turn; \<open>result t\<close> is how task \<open>t\<close> ended, \<open>None\<close> while it runs.\<close>

definition stop_begin :: "(nat \<Rightarrow> exn option option) \<Rightarrow> time \<Rightarrow> hosted_runtime \<Rightarrow> hosted_runtime \<times> stop_task" where
  "stop_begin result now rt =
     (let rt1 = rt\<lparr>hr_stop_set := True\<rparr>
      in case hr_task rt1 of
           None \<Rightarrow> stop_task_over None now rt1
         | Some t \<Rightarrow>
             (case result t of
                None \<Rightarrow> (rt1, StopLive (StopTask t))
              | Some r \<Rightarrow> stop_task_over r now rt1))"

text \<open>A later turn. The wait for the task comes back once the task is over, even when \<open>stop\<close> itself was
  cancelled in it: the cancellation went to the task, and its end is suppressed.\<close>

definition stop_resume :: "(nat \<Rightarrow> exn option option) \<Rightarrow> stop_await \<Rightarrow> outcome \<Rightarrow> time \<Rightarrow> hosted_runtime \<Rightarrow>
    (hosted_runtime \<times> stop_task) option" where
  "stop_resume result aw out now rt =
     (case aw of
        StopTask t \<Rightarrow>
          (case result t of None \<Rightarrow> None | Some r \<Rightarrow> Some (stop_task_over r now rt))
      | StopLogger f \<Rightarrow>
          (let rt1 = rt\<lparr>hr_logger := False\<rparr>
           in Some (case out of
                      Done \<Rightarrow> stop_recorded f now rt1
                    | Raised CancelledError \<Rightarrow> (rt1, StopEnded (Some CancelledError))
                    | Raised e \<Rightarrow> stop_recorded (failure_or f (Some e)) now rt1))
      | StopScreen f \<Rightarrow>
          Some (case out of Done \<Rightarrow> stop_discard f now rt | Raised e \<Rightarrow> (rt, StopEnded (Some e)))
      | StopConnector f \<Rightarrow>
          Some (case out of Raised CancelledError \<Rightarrow> (rt, StopEnded (Some CancelledError))
                          | _ \<Rightarrow> stop_finish f now rt))"

subsection \<open>One runtime and its callers\<close>

text \<open>
  A runtime, the run tasks it has made and the calls of \<open>stop\<close> and \<open>restart\<close> on it, each with
  whether it goes on with \<open>start\<close>. Tasks and calls take their names from one counter.
\<close>

record runtime_system =
  sy_rt :: hosted_runtime
  sy_runs :: "nat \<Rightarrow> run_task option"
  sy_stops :: "nat \<Rightarrow> (stop_task \<times> bool) option"
  sy_next :: nat

definition run_result :: "(nat \<Rightarrow> run_task option) \<Rightarrow> nat \<Rightarrow> exn option option" where
  "run_result runs t = (case runs t of Some (RunEnded r) \<Rightarrow> Some r | _ \<Rightarrow> None)"

definition do_start :: "runtime_system \<Rightarrow> runtime_system" where
  "do_start s =
     (case start_runtime (\<lambda>t. run_result (sy_runs s) t \<noteq> None) (sy_next s) (sy_rt s) of
        None \<Rightarrow> s
      | Some rt \<Rightarrow> s\<lparr>sy_rt := rt, sy_runs := (sy_runs s)(sy_next s \<mapsto> RunLive 0 RunHead), sy_next := Suc (sy_next s)\<rparr>)"

definition stop_turned :: "nat \<Rightarrow> bool \<Rightarrow> hosted_runtime \<times> stop_task \<Rightarrow> runtime_system \<Rightarrow> runtime_system" where
  "stop_turned k restart r s =
     (let s1 = s\<lparr>sy_rt := fst r, sy_stops := (sy_stops s)(k \<mapsto> (snd r, restart))\<rparr>
      in if restart \<and> snd r = StopEnded None then do_start s1 else s1)"

datatype runtime_event =
    EvStart
  | EvStop bool time
  | EvRun nat answers
  | EvStopTurn nat outcome time

fun runtime_step :: "runtime_event \<Rightarrow> runtime_system \<Rightarrow> runtime_system" where
  "runtime_step EvStart s = do_start s"
| "runtime_step (EvStop restart now) s =
     stop_turned (sy_next s) restart (stop_begin (run_result (sy_runs s)) now (sy_rt s)) (s\<lparr>sy_next := Suc (sy_next s)\<rparr>)"
| "runtime_step (EvRun t an) s =
     (case sy_runs s t of
        Some (RunLive attempt aw) \<Rightarrow>
          (let (rt, r) = run_resume attempt aw an (sy_rt s) in s\<lparr>sy_rt := rt, sy_runs := (sy_runs s)(t \<mapsto> r)\<rparr>)
      | _ \<Rightarrow> s)"
| "runtime_step (EvStopTurn k out now) s =
     (case sy_stops s k of
        Some (StopLive aw, restart) \<Rightarrow>
          (case stop_resume (run_result (sy_runs s)) aw out now (sy_rt s) of
             None \<Rightarrow> s
           | Some r \<Rightarrow> stop_turned k restart r s)
      | _ \<Rightarrow> s)"

definition runtime_system_init :: "nat \<Rightarrow> bool \<Rightarrow> runtime_system" where
  "runtime_system_init d keeper =
     \<lparr>sy_rt = new_runtime d keeper, sy_runs = (\<lambda>_. None), sy_stops = (\<lambda>_. None), sy_next = 0\<rparr>"

definition live_runs :: "runtime_system \<Rightarrow> nat set" where
  "live_runs s = {t. \<exists>n aw. sy_runs s t = Some (RunLive n aw)}"

definition live_stops :: "runtime_system \<Rightarrow> nat set" where
  "live_stops s = {k. \<exists>aw b. sy_stops s k = Some (StopLive aw, b)}"

text \<open>
  Two restarts of a session at the same time, with no connector to wait for (it could not be built,
  or stops without suspending): both wait for the same run task, the first makes a new one, and the
  second forgets it and makes another. The first of the two runs on, and nothing can stop it: the
  runtime does not know it any more.
\<close>

definition failing :: answers where
  "failing = \<lparr>an_outcome = Done, an_alive = False, an_build = Inl (Exn False None None []),
     an_recording_enabled = False, an_redact = id, an_now = 0\<rparr>"

lemmas runtime_steps =
  do_start_def start_runtime_def stop_turned_def run_result_def stop_begin_def stop_resume_def stop_task_over_def
  stop_recorded_def stop_discard_def stop_finish_def

lemmas run_turns =
  run_resume_def run_turn_def run_head_def run_build_def run_failed_def run_logged_def run_backoff_def
  run_finally_def run_next_def run_final_def run_final_connector_def run_finish_def run_record_def run_bridge_def
  run_recording_ended_def

definition double_restart :: "runtime_event list" where
  "double_restart =
     [EvStart, EvRun 0 failing, EvStop True 1, EvStop True 1,
      EvRun 0 (failing\<lparr>an_outcome := Raised CancelledError\<rparr>), EvStopTurn 1 Done 2, EvStopTurn 2 Done 2]"

theorem double_restart_forks:
  "let s = fold runtime_step double_restart (runtime_system_init 0 False)
   in live_runs s = {3, 4} \<and> live_stops s = {} \<and> hr_task (sy_rt s) = Some 4"
proof -
  let ?s = "fold runtime_step double_restart (runtime_system_init 0 False)"
  have "sy_runs ?s = [0 \<mapsto> RunEnded (Some CancelledError), 3 \<mapsto> RunLive 0 RunHead, 4 \<mapsto> RunLive 0 RunHead]
      \<and> sy_stops ?s = [1 \<mapsto> (StopEnded None, True), 2 \<mapsto> (StopEnded None, True)] \<and> hr_task (sy_rt ?s) = Some 4"
    by (simp add: double_restart_def failing_def runtime_system_init_def new_runtime_def runtime_steps run_turns
      fun_eq_iff eval_nat_numeral)
  then show ?thesis by (auto simp: live_runs_def live_stops_def Let_def)
qed

subsection \<open>What a turn of the run loop keeps\<close>

text \<open>Where the recording and the connector are when the loop is suspended, and when it is over.\<close>

fun run_ok :: "run_await \<Rightarrow> hosted_runtime \<Rightarrow> bool" where
  "run_ok RunHead rt \<longleftrightarrow> \<not> hr_logger rt"
| "run_ok RunDiscard rt \<longleftrightarrow> \<not> hr_logger rt \<and> hr_connector rt = None"
| "run_ok (RunConnectorStart c) rt \<longleftrightarrow> \<not> hr_logger rt \<and> hr_connector rt = None"
| "run_ok RunFinalRecording rt \<longleftrightarrow> False"
| "run_ok (RunFinalConnector e) rt \<longleftrightarrow> e = None \<and> \<not> hr_logger rt \<and> hr_connector rt = None"
| "run_ok _ rt \<longleftrightarrow> True"

fun run_result_ok :: "hosted_runtime \<times> run_task \<Rightarrow> bool" where
  "run_result_ok (rt, RunLive n aw) \<longleftrightarrow> run_ok aw rt"
| "run_result_ok (rt, RunEnded r) \<longleftrightarrow> \<not> hr_logger rt \<and> (r = None \<or> r = Some CancelledError) \<and>
     (r = None \<longrightarrow> hr_connector rt = None \<and> hr_state rt = LcStopped)"

lemma run_final_ok: "\<not> hr_logger rt \<Longrightarrow> run_result_ok (run_final n now rt)"
  by (auto simp: run_final_def run_final_connector_def run_finish_def split: option.splits)

lemma run_next_ok: "\<not> hr_logger rt \<Longrightarrow> run_result_ok (run_next n now next rt)"
  by (cases "next") (simp_all add: run_next_def run_final_ok)

lemma run_finally_ok: "run_result_ok (run_finally n now next err rt)"
  by (simp add: run_finally_def run_next_ok Let_def)

lemma run_logged_ok: "run_result_ok (run_logged n now p err rt)"
  by (simp add: run_logged_def run_finally_ok run_backoff_def)

lemma run_failed_ok: "run_result_ok (run_failed n an e rt)"
  by (simp add: run_failed_def Let_def run_finally_ok run_logged_ok)

lemma run_build_ok: "\<not> hr_logger rt \<Longrightarrow> hr_connector rt = None \<Longrightarrow> run_result_ok (run_build n an rt)"
  by (simp add: run_build_def run_failed_ok split: sum.split)

lemma run_record_ok: "run_result_ok (run_record n an rt)"
  by (simp add: run_record_def)

lemma run_head_ok: "\<not> hr_logger rt \<Longrightarrow> run_result_ok (run_head n an rt)"
  by (simp add: run_head_def Let_def run_final_ok run_build_ok run_record_ok split: option.split)

lemma run_bridge_ok: "run_result_ok (run_bridge n an rt)"
  by (simp add: run_bridge_def run_failed_ok)

lemma run_recording_ended_ok: "run_result_ok (run_recording_ended n now next err out rt)"
  by (simp add: run_recording_ended_def run_next_ok Let_def split: outcome.split exn.split)

lemmas run_oks = run_finally_ok run_logged_ok run_failed_ok run_build_ok run_record_ok run_head_ok run_bridge_ok
  run_recording_ended_ok

lemma run_turn_ok: "run_ok aw rt \<Longrightarrow> run_result_ok (run_turn n aw an rt)"
  by (cases aw) (simp_all add: run_turn_def Let_def run_oks run_finish_def split: outcome.split exn.split)

lemma run_resume_ok: "run_ok aw rt \<Longrightarrow> run_result_ok (run_resume n aw an rt)"
  using run_turn_ok [of aw rt n an]
  by (auto simp: run_resume_def run_head_ok split: prod.split run_task.split run_await.split)

text \<open>The loop never touches the task of its runtime.\<close>

lemma run_turn_task [frame_simps]: "hr_task (fst (run_turn n aw an rt)) = hr_task rt"
  by (cases aw) (simp_all add: run_turns Let_def split: outcome.split exn.split option.split sum.split after_finally.split)

lemma run_head_task [frame_simps]: "hr_task (fst (run_head n an rt)) = hr_task rt"
  by (simp add: run_turns Let_def split: option.split sum.split)

lemma run_resume_task [frame_simps]: "hr_task (fst (run_resume n aw an rt)) = hr_task rt"
  using run_turn_task [of n aw an rt]
  by (auto simp: run_resume_def run_head_task split: prod.split run_task.split run_await.split)

subsection \<open>Calls one after another\<close>

text \<open>
  The runs in which the runtime is started, stopped and restarted by one caller at a time: no call
  comes while a \<open>stop\<close> is under way. The run loop goes on in between as it will.
\<close>

fun calm :: "runtime_system \<Rightarrow> runtime_event \<Rightarrow> bool" where
  "calm s EvStart \<longleftrightarrow> live_stops s = {}"
| "calm s (EvStop restart now) \<longleftrightarrow> live_stops s = {}"
| "calm s _ \<longleftrightarrow> True"

inductive calm_step :: "runtime_system \<Rightarrow> runtime_system \<Rightarrow> bool" where
  calm_stepI: "calm s e \<Longrightarrow> calm_step s (runtime_step e s)"

inductive_cases calm_stepE: "calm_step s s'"

text \<open>What a suspended \<open>stop\<close> relies on.\<close>

fun stop_ok :: "stop_await \<Rightarrow> runtime_system \<Rightarrow> bool" where
  "stop_ok (StopTask t) s \<longleftrightarrow> hr_task (sy_rt s) = Some t \<and> sy_runs s t \<noteq> None"
| "stop_ok (StopLogger f) s \<longleftrightarrow> False"
| "stop_ok (StopScreen f) s \<longleftrightarrow> hr_task (sy_rt s) = None"
| "stop_ok (StopConnector f) s \<longleftrightarrow> hr_task (sy_rt s) = None \<and> hr_connector (sy_rt s) = None"

definition calm_inv :: "runtime_system \<Rightarrow> bool" where
  "calm_inv s \<longleftrightarrow>
     (\<forall>t n aw. sy_runs s t = Some (RunLive n aw) \<longrightarrow> hr_task (sy_rt s) = Some t \<and> run_ok aw (sy_rt s)) \<and>
     (\<forall>t r. sy_runs s t = Some (RunEnded r) \<longrightarrow> r = None \<or> r = Some CancelledError) \<and>
     (live_runs s = {} \<longrightarrow> \<not> hr_logger (sy_rt s)) \<and>
     (\<forall>k aw b. sy_stops s k = Some (StopLive aw, b) \<longrightarrow> stop_ok aw s) \<and>
     (\<forall>j k. j \<in> live_stops s \<longrightarrow> k \<in> live_stops s \<longrightarrow> j = k) \<and>
     (\<forall>t. hr_task (sy_rt s) = Some t \<longrightarrow> sy_runs s t \<noteq> None) \<and>
     (\<forall>k. sy_next s \<le> k \<longrightarrow> sy_runs s k = None \<and> sy_stops s k = None)"

definition released :: "hosted_runtime \<Rightarrow> bool" where
  "released rt \<longleftrightarrow> hr_task rt = None \<and> hr_connector rt = None \<and> \<not> hr_logger rt \<and> hr_state rt = LcStopped \<and>
     \<not> hr_connected rt"

fun stop_result_ok :: "hosted_runtime \<times> stop_task \<Rightarrow> bool" where
  "stop_result_ok (rt, StopLive (StopScreen f)) \<longleftrightarrow> hr_task rt = None \<and> \<not> hr_logger rt"
| "stop_result_ok (rt, StopLive (StopConnector f)) \<longleftrightarrow>
     hr_task rt = None \<and> \<not> hr_logger rt \<and> hr_connector rt = None"
| "stop_result_ok (rt, StopEnded f) \<longleftrightarrow> hr_task rt = None \<and> \<not> hr_logger rt"
| "stop_result_ok _ \<longleftrightarrow> False"

lemma stop_discard_ok: "hr_task rt = None \<Longrightarrow> \<not> hr_logger rt \<Longrightarrow> stop_result_ok (stop_discard f now rt)"
  by (simp add: stop_discard_def stop_finish_def split: option.split)

lemma stop_recorded_ok: "\<not> hr_logger rt \<Longrightarrow> stop_result_ok (stop_recorded f now rt)"
  by (simp add: stop_recorded_def stop_discard_ok Let_def)

lemma stop_task_over_ok: "\<not> hr_logger rt \<Longrightarrow> stop_result_ok (stop_task_over r now rt)"
  by (simp add: stop_task_over_def stop_recorded_ok Let_def)

text \<open>A \<open>stop\<close> that gets to its end has let go of everything.\<close>

lemma stop_discard_released:
  "hr_task rt = None \<Longrightarrow> \<not> hr_logger rt \<Longrightarrow> snd (stop_discard f now rt) = StopEnded g \<Longrightarrow>
   released (fst (stop_discard f now rt)) \<and> g = f"
  by (auto simp: stop_discard_def stop_finish_def released_def split: option.splits)

lemma stop_task_over_released:
  "\<not> hr_logger rt \<Longrightarrow> snd (stop_task_over r now rt) = StopEnded g \<Longrightarrow> released (fst (stop_task_over r now rt))"
  using stop_discard_released [of "rt\<lparr>hr_pending_close_failure := None, hr_task := None\<rparr>" _ now g]
  by (cases "hr_keeper rt \<and> hr_connector rt \<noteq> None")
     (auto simp: stop_task_over_def stop_recorded_def Let_def split: if_splits)

lemma stop_task_over_released':
  "stop_task_over r now rt = (rt', StopEnded g) \<Longrightarrow> \<not> hr_logger rt \<Longrightarrow> released rt'"
  using stop_task_over_released [of rt r now g] by simp

text \<open>The parts of the invariant.\<close>

lemma calm_invD:
  assumes "calm_inv s"
  shows calm_live: "sy_runs s t = Some (RunLive n aw) \<Longrightarrow> hr_task (sy_rt s) = Some t \<and> run_ok aw (sy_rt s)"
    and calm_ended: "sy_runs s t = Some (RunEnded r) \<Longrightarrow> r = None \<or> r = Some CancelledError"
    and calm_quiet: "live_runs s = {} \<Longrightarrow> \<not> hr_logger (sy_rt s)"
    and calm_stop: "sy_stops s k = Some (StopLive aw', b) \<Longrightarrow> stop_ok aw' s"
    and calm_one_stop: "i \<in> live_stops s \<Longrightarrow> j \<in> live_stops s \<Longrightarrow> i = j"
    and calm_task: "hr_task (sy_rt s) = Some t \<Longrightarrow> sy_runs s t \<noteq> None"
    and calm_fresh: "sy_next s \<le> k \<Longrightarrow> sy_runs s k = None \<and> sy_stops s k = None"
  using assms unfolding calm_inv_def by blast+

lemma calm_no_live:
  assumes "calm_inv s" "\<And>t. hr_task (sy_rt s) = Some t \<Longrightarrow> run_result (sy_runs s) t \<noteq> None"
  shows "live_runs s = {}"
proof (rule ccontr)
  assume "live_runs s \<noteq> {}"
  then obtain t n aw where t: "sy_runs s t = Some (RunLive n aw)" by (auto simp: live_runs_def)
  from assms(2) [of t] calm_live [OF assms(1) t] t show False by (simp add: run_result_def)
qed

lemma calm_start:
  assumes inv: "calm_inv s" and idle: "live_stops s = {}"
  shows "calm_inv (do_start s)"
proof (cases "start_runtime (\<lambda>t. run_result (sy_runs s) t \<noteq> None) (sy_next s) (sy_rt s)")
  case (Some rt)
  then have "run_result (sy_runs s) t \<noteq> None" if "hr_task (sy_rt s) = Some t" for t
    using that by (auto simp: start_runtime_def split: if_splits)
  then have none: "live_runs s = {}" by (rule calm_no_live [OF inv])
  have rt: "hr_task rt = Some (sy_next s)" "hr_logger rt = hr_logger (sy_rt s)"
    using Some by (auto simp: start_runtime_def split: if_splits)
  have dead: "sy_runs s t \<noteq> Some (RunLive n aw)" for t n aw using none by (auto simp: live_runs_def)
  have nostop: "sy_stops s k \<noteq> Some (StopLive aw, b)" for k aw b using idle by (auto simp: live_stops_def)
  have "\<not> hr_logger (sy_rt s)" "sy_runs s (sy_next s) = None" using inv none by (auto simp: calm_inv_def)
  then show ?thesis
    using inv Some rt dead nostop idle unfolding calm_inv_def do_start_def
    by (auto simp: live_runs_def live_stops_def)
qed (use inv in \<open>simp add: do_start_def\<close>)

lemma calm_stopped:
  assumes inv: "calm_inv s" and none: "live_runs s = {}" and ok: "stop_result_ok r"
    and sole: "live_stops s \<subseteq> {k}" and k: "k < sy_next s"
  shows "calm_inv (stop_turned k restart r s)"
proof -
  define s1 where "s1 = s\<lparr>sy_rt := fst r, sy_stops := (sy_stops s)(k \<mapsto> (snd r, restart))\<rparr>"
  have task: "hr_task (fst r) = None" "\<not> hr_logger (fst r)"
    using ok by (cases r rule: stop_result_ok.cases; simp)+
  have dead: "sy_runs s t \<noteq> Some (RunLive n aw)" for t n aw using none by (auto simp: live_runs_def)
  have other: "sy_stops s j \<noteq> Some (StopLive aw, b)" if "j \<noteq> k" for j aw b
    using sole that by (auto simp: live_stops_def)
  have stops: "stop_ok aw s1" if "sy_stops s1 j = Some (StopLive aw, b)" for j aw b
    using that other [of j aw b] ok by (cases r rule: stop_result_ok.cases) (auto simp: s1_def split: if_splits)
  have "live_stops s1 \<subseteq> {k}" using other by (auto simp: s1_def live_stops_def split: if_splits)
  then have one: "i = j" if "i \<in> live_stops s1" "j \<in> live_stops s1" for i j using that by blast
  have inv1: "calm_inv s1"
    using calm_ended [OF inv] calm_fresh [OF inv] dead stops task k one unfolding calm_inv_def
    by (simp add: s1_def)
  show ?thesis
  proof (cases "restart \<and> snd r = StopEnded None")
    case True
    then have "live_stops s1 = {}" using other by (auto simp: s1_def live_stops_def split: if_splits)
    moreover have "stop_turned k restart r s = do_start s1" using True by (simp add: stop_turned_def s1_def)
    ultimately show ?thesis using calm_start [OF inv1] by simp
  next
    case False
    with inv1 show ?thesis by (auto simp: stop_turned_def s1_def [symmetric])
  qed
qed

lemma stop_ok_next [simp]: "stop_ok aw (s\<lparr>sy_next := n\<rparr>) = stop_ok aw s"
  by (cases aw) simp_all

lemma calm_stop_event:
  assumes inv: "calm_inv s" and idle: "live_stops s = {}"
  shows "calm_inv (runtime_step (EvStop restart now) s)"
proof -
  define s0 where "s0 = s\<lparr>sy_next := Suc (sy_next s)\<rparr>"
  have inv0: "calm_inv s0" using inv unfolding calm_inv_def s0_def
    by (simp add: live_runs_def live_stops_def)
  have idle0: "live_stops s0 \<subseteq> {sy_next s}" using idle by (auto simp: s0_def live_stops_def)
  let ?rt1 = "sy_rt s\<lparr>hr_stop_set := True\<rparr>"
  have over: "calm_inv (stop_turned (sy_next s) restart (stop_task_over r now ?rt1) s0)" if "live_runs s = {}" for r
  proof -
    have "\<not> hr_logger ?rt1" using calm_quiet [OF inv that] by simp
    then show ?thesis
      using that by (intro calm_stopped [OF inv0 _ stop_task_over_ok idle0]) (auto simp: s0_def live_runs_def)
  qed
  show ?thesis
  proof (cases "hr_task (sy_rt s)")
    case None
    then have "live_runs s = {}" using calm_no_live [OF inv] by simp
    from over [OF this] None show ?thesis by (simp add: stop_begin_def Let_def s0_def)
  next
    case (Some t)
    show ?thesis
    proof (cases "run_result (sy_runs s) t")
      case None
      have "stop_begin (run_result (sy_runs s)) now (sy_rt s) = (?rt1, StopLive (StopTask t))"
        using Some None by (simp add: stop_begin_def)
      moreover have "run_ok aw ?rt1" if "run_ok aw (sy_rt s)" for aw using that by (cases aw) auto
      ultimately show ?thesis
        using inv idle Some unfolding calm_inv_def
        by (auto simp: stop_turned_def live_runs_def live_stops_def)
    next
      case r: (Some r)
      then have "live_runs s = {}" using calm_no_live [OF inv] Some by simp
      from over [OF this] Some r show ?thesis by (simp add: stop_begin_def Let_def s0_def)
    qed
  qed
qed
lemma calm_stop_turn:
  assumes inv: "calm_inv s"
  shows "calm_inv (runtime_step (EvStopTurn k out now) s)"
proof (cases "\<exists>aw b. sy_stops s k = Some (StopLive aw, b)")
  case True
  then obtain aw b where k: "sy_stops s k = Some (StopLive aw, b)" by blast
  have ok: "stop_ok aw s" by (rule calm_stop [OF inv k])
  have sole: "live_stops s \<subseteq> {k}" using calm_one_stop [OF inv, of _ k] k by (auto simp: live_stops_def)
  have less: "k < sy_next s" using calm_fresh [OF inv, of k] k by (rule_tac ccontr) simp
  show ?thesis
  proof (cases "stop_resume (run_result (sy_runs s)) aw out now (sy_rt s)")
    case None
    then show ?thesis using inv k by simp
  next
    case (Some r)
    have none: "live_runs s = {}"
    proof (rule calm_no_live [OF inv])
      fix t assume "hr_task (sy_rt s) = Some t"
      then show "run_result (sy_runs s) t \<noteq> None"
        using ok Some by (cases aw) (auto simp: stop_resume_def split: option.splits)
    qed
    have logger: "\<not> hr_logger (sy_rt s)" by (rule calm_quiet [OF inv none])
    have "stop_result_ok r"
      using ok Some logger
      by (cases aw)
         (auto simp: stop_resume_def stop_task_over_ok stop_discard_ok stop_finish_def split: option.splits outcome.splits exn.splits)
    from calm_stopped [OF inv none this sole less] show ?thesis using k Some by simp
  qed
next
  case False
  then have "runtime_step (EvStopTurn k out now) s = s" by (auto split: option.splits stop_task.splits)
  with inv show ?thesis by simp
qed

lemma calm_run:
  assumes inv: "calm_inv s"
  shows "calm_inv (runtime_step (EvRun t an) s)"
proof (cases "\<exists>n aw. sy_runs s t = Some (RunLive n aw)")
  case True
  then obtain n aw where t: "sy_runs s t = Some (RunLive n aw)" by blast
  obtain rt r where r: "run_resume n aw an (sy_rt s) = (rt, r)" by fastforce
  have task: "hr_task (sy_rt s) = Some t" "run_ok aw (sy_rt s)" using calm_live [OF inv t] by simp_all
  have ok: "run_result_ok (rt, r)" using run_resume_ok [OF task(2), of n an] r by simp
  have same: "hr_task rt = Some t" using run_resume_task [of n aw an "sy_rt s"] r task by simp
  define s1 where "s1 = s\<lparr>sy_rt := rt, sy_runs := (sy_runs s)(t \<mapsto> r)\<rparr>"
  have dead: "sy_runs s u \<noteq> Some (RunLive m bw)" if "u \<noteq> t" for u m bw
    using calm_live [OF inv, of u m bw] task that by auto
  have ended: "sy_runs s u = Some (RunEnded x) \<longrightarrow> x = None \<or> x = Some CancelledError" for u x
    using calm_ended [OF inv] by blast
  have stops: "stop_ok bw s1" if "sy_stops s1 j = Some (StopLive bw, b)" for j bw b
    using calm_stop [OF inv, of j bw b] that task same by (cases bw) (auto simp: s1_def)
  have one: "i = j" if "i \<in> live_stops s1" "j \<in> live_stops s1" for i j
    using calm_one_stop [OF inv, of i j] that by (simp add: s1_def live_stops_def)
  have quiet: "\<not> hr_logger rt" if "live_runs s1 = {}"
  proof -
    have "t \<notin> live_runs s1" using that by simp
    then show ?thesis using ok by (cases r) (simp_all add: s1_def live_runs_def)
  qed
  have fresh: "sy_runs s1 j = None \<and> sy_stops s1 j = None" if "sy_next s \<le> j" for j
    using calm_fresh [OF inv that] t by (auto simp: s1_def)
  have live: "u = t \<and> run_ok bw rt" if "sy_runs s1 u = Some (RunLive m bw)" for u m bw
    using that ok dead [of u m bw] by (auto simp: s1_def split: if_splits)
  have res: "x = None \<or> x = Some CancelledError" if "sy_runs s1 u = Some (RunEnded x)" for u x
    using that ok ended by (auto simp: s1_def split: if_splits)
  have "calm_inv s1"
    unfolding calm_inv_def
  proof (intro conjI allI impI)
    fix u m bw assume "sy_runs s1 u = Some (RunLive m bw)"
    from live [OF this] same show "hr_task (sy_rt s1) = Some u" "run_ok bw (sy_rt s1)" by (simp_all add: s1_def)
  next
    fix u assume "hr_task (sy_rt s1) = Some u"
    then show "sy_runs s1 u \<noteq> None" using same by (simp add: s1_def)
  next
    fix j assume "sy_next s1 \<le> j"
    then show "sy_runs s1 j = None" "sy_stops s1 j = None" using fresh [of j] by (simp_all add: s1_def)
  next
    assume "live_runs s1 = {}"
    from quiet [OF this] show "\<not> hr_logger (sy_rt s1)" by (simp add: s1_def)
  qed (fact res stops one)+
  then show ?thesis using t r by (simp add: s1_def)
next
  case False
  then have "runtime_step (EvRun t an) s = s" by (auto split: option.splits run_task.splits)
  with inv show ?thesis by simp
qed

interpretation calm: safe_system "\<lambda>s. \<exists>d keeper. s = runtime_system_init d keeper" calm_step calm_inv
proof
  fix s assume "\<exists>d keeper. s = runtime_system_init d keeper"
  then show "calm_inv s"
    by (auto simp: calm_inv_def runtime_system_init_def new_runtime_def live_runs_def live_stops_def)
next
  fix s s' assume inv: "calm_inv s" and "calm_step s s'"
  then obtain e where s': "s' = runtime_step e s" "calm s e" by (auto elim: calm_stepE)
  show "calm_inv s'"
    using s' calm_start [OF inv] calm_stop_event [OF inv] calm_stop_turn [OF inv] calm_run [OF inv]
    by (cases e) auto
qed


text \<open>
  An event in which no call of \<open>stop\<close> is cancelled and no last screen fails to be saved.
\<close>

definition orderly :: "runtime_system \<Rightarrow> runtime_event \<Rightarrow> bool" where
  "orderly s e =
     (case e of
        EvStopTurn k out now \<Rightarrow>
          (case sy_stops s k of
             Some (StopLive (StopScreen f), b) \<Rightarrow> out = Done
           | _ \<Rightarrow> out \<noteq> Raised CancelledError)
      | _ \<Rightarrow> True)"

lemma stop_finish_released:
  "hr_task rt = None \<Longrightarrow> \<not> hr_logger rt \<Longrightarrow> hr_connector rt = None \<Longrightarrow> released (fst (stop_finish f now rt))"
  by (simp add: stop_finish_def released_def)

lemma stop_resume_released:
  assumes "stop_ok aw s" "\<not> hr_logger (sy_rt s)"
    and "stop_resume (run_result (sy_runs s)) aw out now (sy_rt s) = Some (rt, StopEnded f)"
    and "out \<noteq> Raised CancelledError" "\<And>g. aw = StopScreen g \<Longrightarrow> out = Done"
  shows "released rt"
proof (cases aw)
  case (StopTask t)
  then show ?thesis
    using assms stop_task_over_released' [of _ now "sy_rt s" rt f]
    by (auto simp: stop_resume_def split: option.splits)
next
  case (StopScreen g)
  then show ?thesis
    using assms stop_discard_released [of "sy_rt s" g now f] by (auto simp: stop_resume_def)
next
  case (StopConnector g)
  then show ?thesis
    using assms stop_finish_released [of "sy_rt s" g now]
    by (auto simp: stop_resume_def split: outcome.splits exn.splits)
qed (use assms in simp)



subsection \<open>The other operations of a runtime\<close>

text \<open>
  \<open>set_tunnel_state\<close>, and \<open>reconfigure\<close>, with \<open>applied\<close> what the connector's own \<open>reconfigure\<close> says:
  it took the configuration, it has no such method or could not, or it raised.
\<close>

definition set_tunnel_state :: "bool \<Rightarrow> time \<Rightarrow> hosted_runtime \<Rightarrow> hosted_runtime" where
  "set_tunnel_state up now rt =
     (if up
      then rt\<lparr>hr_connected := True, hr_state := LcRunning, hr_last_error := None, hr_stopped_at := None\<rparr>
      else rt\<lparr>hr_connected := False, hr_state := LcStopped, hr_stopped_at := Some now\<rparr>)"

definition reconfigure :: "exn + bool \<Rightarrow> hosted_runtime \<Rightarrow> exn + hosted_runtime" where
  "reconfigure applied rt =
     (if hr_connector rt = None then Inr rt
      else case applied of Inl e \<Rightarrow> Inl e | Inr b \<Rightarrow> Inr (rt\<lparr>hr_config_pending_restart := \<not> b\<rparr>))"

end
