(* ===== verification/SessionRegistry.thy ===== *)
theory SessionRegistry
  imports HostedRuntime HubState Json
begin

text \<open>
  The registry of hosted sessions (\<open>server/registry.py\<close>): the sessions, their runtimes, and the
  reservations that keep an id while its last session is torn down or its next one is created. The
  operations are coroutines of one event loop, given as the turns between their awaits over one
  shared state; the sections under \<open>self._lock\<close> await nothing while they change the tables, so
  waiting for the lock is a turn boundary and nothing more. The recording store, the capture-state
  store and the hub are outside: their awaits come back with an outcome.
\<close>

subsection \<open>Session definitions and the tables\<close>

datatype visibility = VisPublic | VisOperator | VisPrivate

record session_definition =
  df_session_id :: pystr
  df_display_name :: pystr
  df_connector_type :: pystr
  df_connector_config :: jdict
  df_input_mode :: input_mode
  df_auto_start :: bool
  df_tags :: "pystr list"
  df_recording_enabled :: "bool option"
  df_owner :: "pystr option"
  df_visibility :: visibility
  df_ephemeral :: bool

text \<open>
  A definition is an object: the tables, the runtimes and the coroutines share it, and the code asks
  \<open>is\<close>. Objects, runtimes and reservation events are named by numbers from one counter.
\<close>

record registry =
  rg_max_sessions :: "nat option"
  rg_sessions :: "(pystr \<times> nat) list"
  rg_runtimes :: "(pystr \<times> nat) list"
  rg_retiring :: "(pystr \<times> nat) list"
  rg_set_events :: "nat set"
  rg_tunnel_tokens :: "pystr set option"
  rg_objects :: "nat \<Rightarrow> session_definition option"
  rg_instances :: "nat \<Rightarrow> hosted_runtime option"
  rg_next :: nat

definition revoke_tunnel_tokens :: "pystr \<Rightarrow> registry \<Rightarrow> registry" where
  "revoke_tunnel_tokens sid g =
     g\<lparr>rg_tunnel_tokens := (case rg_tunnel_tokens g of None \<Rightarrow> None | Some ts \<Rightarrow> Some (ts - {sid}))\<rparr>"

definition remove_locked :: "pystr \<Rightarrow> registry \<Rightarrow> nat option \<times> registry" where
  "remove_locked sid g =
     (let g1 = g\<lparr>rg_sessions := od_pop (rg_sessions g) sid\<rparr>;
          runtime = od_get (rg_runtimes g1) sid;
          g2 = revoke_tunnel_tokens sid (g1\<lparr>rg_runtimes := od_pop (rg_runtimes g1) sid\<rparr>)
      in (runtime, g2\<lparr>rg_retiring := od_set (rg_retiring g2) sid (rg_next g2), rg_next := Suc (rg_next g2)\<rparr>))"

definition release_mine :: "pystr \<Rightarrow> nat \<Rightarrow> registry \<Rightarrow> registry" where
  "release_mine sid reservation g =
     (if od_get (rg_retiring g) sid = Some reservation
      then g\<lparr>rg_retiring := od_pop (rg_retiring g) sid, rg_set_events := insert reservation (rg_set_events g)\<rparr>
      else g)"

datatype registry_error =
    SessionLimit | SessionExists | BeingDeleted | UnknownSession | Failed exn

definition at_limit :: "registry \<Rightarrow> bool" where
  "at_limit g \<longleftrightarrow> (case rg_max_sessions g of None \<Rightarrow> False | Some n \<Rightarrow> n \<le> length (rg_sessions g))"

text \<open>The section under the lock of \<open>_reserve_for_create\<close>: refused, to wait for an event, or reserved.\<close>

datatype reserve_answer = ReserveRefused registry_error | ReservePending nat | Reserved nat

definition reserve_locked :: "pystr \<Rightarrow> registry \<Rightarrow> reserve_answer \<times> registry" where
  "reserve_locked sid g =
     (if at_limit g then (ReserveRefused SessionLimit, g)
      else if od_get (rg_sessions g) sid \<noteq> None then (ReserveRefused SessionExists, g)
      else case od_get (rg_retiring g) sid of
             Some pending \<Rightarrow> (ReservePending pending, g)
           | None \<Rightarrow> (Reserved (rg_next g),
                       g\<lparr>rg_retiring := od_set (rg_retiring g) sid (rg_next g), rg_next := Suc (rg_next g)\<rparr>))"

definition require_session :: "pystr \<Rightarrow> registry \<Rightarrow> registry_error + nat" where
  "require_session sid g = (case od_get (rg_sessions g) sid of None \<Rightarrow> Inl UnknownSession | Some ob \<Rightarrow> Inr ob)"

text \<open>\<open>keeps\<close> says for which definitions the capture-state store gives a screen keeper.\<close>

definition runtime_for :: "(session_definition \<Rightarrow> bool) \<Rightarrow> pystr \<Rightarrow> nat \<Rightarrow> registry \<Rightarrow> nat \<times> registry" where
  "runtime_for keeps sid ob g =
     (case od_get (rg_runtimes g) sid of
        Some rid \<Rightarrow> (rid, g)
      | None \<Rightarrow>
          let rid = rg_next g;
              keeper = (case rg_objects g ob of None \<Rightarrow> False | Some d \<Rightarrow> keeps d)
          in (rid, g\<lparr>rg_runtimes := od_set (rg_runtimes g) sid rid,
                     rg_instances := (rg_instances g)(rid \<mapsto> new_runtime ob keeper), rg_next := Suc rid\<rparr>))"

text \<open>The section under the lock in which \<open>create_session\<close> inserts, and \<open>adopt_restored\<close>.\<close>

definition insert_locked :: "(session_definition \<Rightarrow> bool) \<Rightarrow> pystr \<Rightarrow> nat \<Rightarrow> nat \<Rightarrow> registry \<Rightarrow>
    (registry_error + nat) \<times> registry" where
  "insert_locked keeps sid ob reservation g =
     (let g1 = release_mine sid reservation g
      in if at_limit g1 then (Inl SessionLimit, g1)
         else let g2 = g1\<lparr>rg_sessions := od_set (rg_sessions g1) sid ob\<rparr>;
                  (rid, g3) = runtime_for keeps sid ob g2
              in (Inr rid, g3))"

definition adopt_restored :: "(session_definition \<Rightarrow> bool) \<Rightarrow> bool \<Rightarrow> pystr \<Rightarrow> nat \<Rightarrow> registry \<Rightarrow> bool \<times> registry" where
  "adopt_restored keeps has_store sid ob g =
     (if \<not> has_store \<or> od_get (rg_sessions g) sid \<noteq> None \<or> od_get (rg_retiring g) sid \<noteq> None then (False, g)
      else if at_limit g then (False, g)
      else let g1 = g\<lparr>rg_sessions := od_set (rg_sessions g) sid ob\<rparr>;
               (rid, g2) = runtime_for keeps sid ob g1
           in (True, g2))"

subsection \<open>The coroutines\<close>

definition RESERVED_ID_WAIT_S :: time where "RESERVED_ID_WAIT_S = 15"

text \<open>The grace period of \<open>_on_worker_empty\<close>.\<close>

definition EMPTY_GRACE_S :: time where "EMPTY_GRACE_S = 5"

datatype session_call = CallTouch | CallStart | CallStop | CallRestart

text \<open>
  Where each coroutine is suspended, with what it holds: \<open>create_session\<close> at the lock of the
  reservation, in the wait for another holder, in the retirement of a left-over recording, at the
  lock of the insertion and in the write of its definition; a removal (\<open>delete_session\<close> and
  \<open>_on_worker_empty\<close>, then \<open>_finish_removal\<close>) in the runtime's \<open>stop\<close>, in the capture-state store
  and in the retirement; \<open>_on_worker_empty\<close> before it; \<open>start_session\<close>, \<open>stop_session\<close>,
  \<open>restart_session\<close> and the operations that only ask for the runtime (\<open>CallTouch\<close>).
\<close>

datatype reg_task =
    CreateReserve pystr nat time
  | CreateWait pystr nat time nat
  | CreateRetire pystr nat nat
  | CreateInsert pystr nat nat
  | CreateSave nat nat
  | DeleteLock pystr
  | EmptyLock pystr
  | EmptySleep pystr nat time
  | EmptyCount pystr nat
  | EmptyRemove pystr nat
  | RemovalStop pystr nat stop_await
  | RemovalEnd pystr "nat option"
  | RemovalRetire pystr "nat option"
  | AdoptLock pystr nat
  | CallLock pystr session_call
  | CallStopping nat bool stop_await
  | TaskOver "registry_error option"

record reg_system =
  rs_reg :: registry
  rs_runs :: "nat \<Rightarrow> (nat \<times> run_task) option"
  rs_tasks :: "nat \<Rightarrow> reg_task option"

text \<open>What the capture-state store is for the registry, and what a turn is resumed with.\<close>

record reg_env =
  re_has_store :: bool
  re_keeps :: "session_definition \<Rightarrow> bool"

record turn_input =
  ti_outcome :: outcome
  ti_now :: time
  ti_browsers :: nat

definition reg_result :: "reg_system \<Rightarrow> nat \<Rightarrow> exn option option" where
  "reg_result s u = (case rs_runs s u of Some (rid, RunEnded r) \<Rightarrow> Some r | _ \<Rightarrow> None)"

definition put_instance :: "nat \<Rightarrow> hosted_runtime \<Rightarrow> reg_system \<Rightarrow> reg_system" where
  "put_instance rid rt s = s\<lparr>rs_reg := (rs_reg s)\<lparr>rg_instances := (rg_instances (rs_reg s))(rid \<mapsto> rt)\<rparr>\<rparr>"

definition start_instance :: "nat \<Rightarrow> reg_system \<Rightarrow> reg_system" where
  "start_instance rid s =
     (case rg_instances (rs_reg s) rid of
        None \<Rightarrow> s
      | Some rt \<Rightarrow>
          (let u = rg_next (rs_reg s)
           in case start_runtime (\<lambda>v. reg_result s v \<noteq> None) u rt of
                None \<Rightarrow> s
              | Some rt' \<Rightarrow>
                  let s1 = put_instance rid rt' s
                  in s1\<lparr>rs_reg := (rs_reg s1)\<lparr>rg_next := Suc u\<rparr>, rs_runs := (rs_runs s1)(u \<mapsto> (rid, RunLive 0 RunHead))\<rparr>))"

text \<open>The first and a later turn of a runtime's \<open>stop\<close>; \<open>None\<close> while it cannot go on.\<close>

definition begin_stop :: "nat \<Rightarrow> time \<Rightarrow> reg_system \<Rightarrow> reg_system \<times> stop_task" where
  "begin_stop rid now s =
     (case rg_instances (rs_reg s) rid of
        None \<Rightarrow> (s, StopEnded None)
      | Some rt \<Rightarrow> let (rt', st) = stop_begin (reg_result s) now rt in (put_instance rid rt' s, st))"

definition resume_stop :: "nat \<Rightarrow> stop_await \<Rightarrow> turn_input \<Rightarrow> reg_system \<Rightarrow> (reg_system \<times> stop_task) option" where
  "resume_stop rid aw i s =
     (case rg_instances (rs_reg s) rid of
        None \<Rightarrow> Some (s, StopEnded None)
      | Some rt \<Rightarrow>
          (case stop_resume (reg_result s) aw (ti_outcome i) (ti_now i) rt of
             None \<Rightarrow> None
           | Some (rt', st) \<Rightarrow> Some (put_instance rid rt' s, st)))"

text \<open>The \<open>finally\<close> of \<open>_finish_removal\<close>, and its start.\<close>

definition removal_finally :: "reg_env \<Rightarrow> pystr \<Rightarrow> reg_system \<Rightarrow> reg_system \<times> reg_task" where
  "removal_finally env sid s =
     (let reservation = od_get (rg_retiring (rs_reg s)) sid
      in (s, if re_has_store env then RemovalEnd sid reservation else RemovalRetire sid reservation))"

definition removal_stopping :: "reg_env \<Rightarrow> pystr \<Rightarrow> nat \<Rightarrow> reg_system \<times> stop_task \<Rightarrow> reg_system \<times> reg_task" where
  "removal_stopping env sid rid r =
     (case snd r of
        StopLive aw \<Rightarrow> (fst r, RemovalStop sid rid aw)
      | StopEnded f \<Rightarrow> removal_finally env sid (fst r))"

definition begin_removal :: "reg_env \<Rightarrow> pystr \<Rightarrow> time \<Rightarrow> reg_system \<Rightarrow> reg_system \<times> reg_task" where
  "begin_removal env sid now s =
     (let (runtime, g) = remove_locked sid (rs_reg s); s1 = s\<lparr>rs_reg := g\<rparr>
      in case runtime of
           None \<Rightarrow> removal_finally env sid s1
         | Some rid \<Rightarrow> removal_stopping env sid rid (begin_stop rid now s1))"

definition release_reservation :: "pystr \<Rightarrow> nat option \<Rightarrow> reg_system \<Rightarrow> reg_system" where
  "release_reservation sid reservation s =
     (case reservation of None \<Rightarrow> s | Some ev \<Rightarrow> s\<lparr>rs_reg := release_mine sid ev (rs_reg s)\<rparr>)"

fun outcome_error :: "outcome \<Rightarrow> registry_error option" where
  "outcome_error Done = None"
| "outcome_error (Raised e) = Some (Failed e)"

definition removal_turn :: "reg_env \<Rightarrow> reg_task \<Rightarrow> turn_input \<Rightarrow> reg_system \<Rightarrow> (reg_system \<times> reg_task) option" where
  "removal_turn env k i s =
     (case k of
        RemovalStop sid rid aw \<Rightarrow>
          (case resume_stop rid aw i s of None \<Rightarrow> None | Some r \<Rightarrow> Some (removal_stopping env sid rid r))
      | RemovalEnd sid reservation \<Rightarrow>
          Some (case ti_outcome i of
                  Done \<Rightarrow> (s, RemovalRetire sid reservation)
                | Raised e \<Rightarrow> (release_reservation sid reservation s, TaskOver (Some (Failed e))))
      | RemovalRetire sid reservation \<Rightarrow>
          Some (release_reservation sid reservation s, TaskOver (outcome_error (ti_outcome i)))
      | _ \<Rightarrow> None)"

text \<open>\<open>create_session\<close>.\<close>

definition create_started :: "nat \<Rightarrow> nat \<Rightarrow> reg_system \<Rightarrow> reg_system \<times> reg_task" where
  "create_started ob rid s =
     (case rg_objects (rs_reg s) ob of
        None \<Rightarrow> (s, TaskOver None)
      | Some d \<Rightarrow> (if df_auto_start d then start_instance rid s else s, TaskOver None))"

definition create_turn :: "reg_env \<Rightarrow> reg_task \<Rightarrow> turn_input \<Rightarrow> reg_system \<Rightarrow> (reg_system \<times> reg_task) option" where
  "create_turn env k i s =
     (case (k, ti_outcome i) of
        (CreateReserve sid ob deadline, Raised e) \<Rightarrow> Some (s, TaskOver (Some (Failed e)))
      | (CreateReserve sid ob deadline, Done) \<Rightarrow>
          (let (answer, g) = reserve_locked sid (rs_reg s)
           in Some (s\<lparr>rs_reg := g\<rparr>,
                    case answer of
                      ReserveRefused e \<Rightarrow> TaskOver (Some e)
                    | Reserved reservation \<Rightarrow> CreateRetire sid ob reservation
                    | ReservePending pending \<Rightarrow>
                        if deadline - ti_now i \<le> 0 then TaskOver (Some BeingDeleted)
                        else CreateWait sid ob deadline pending))
      | (CreateWait sid ob deadline pending, Raised e) \<Rightarrow> Some (s, TaskOver (Some (Failed e)))
      | (CreateWait sid ob deadline pending, Done) \<Rightarrow>
          (if pending \<in> rg_set_events (rs_reg s) then Some (s, CreateReserve sid ob deadline)
           else if deadline \<le> ti_now i then Some (s, TaskOver (Some BeingDeleted))
           else None)
      | (CreateRetire sid ob reservation, Raised e) \<Rightarrow>
          Some (s\<lparr>rs_reg := release_mine sid reservation (rs_reg s)\<rparr>, TaskOver (Some (Failed e)))
      | (CreateRetire sid ob reservation, Done) \<Rightarrow> Some (s, CreateInsert sid ob reservation)
      | (CreateInsert sid ob reservation, Raised e) \<Rightarrow>
          Some (s\<lparr>rs_reg := release_mine sid reservation (rs_reg s)\<rparr>, TaskOver (Some (Failed e)))
      | (CreateInsert sid ob reservation, Done) \<Rightarrow>
          (let (answer, g) = insert_locked (re_keeps env) sid ob reservation (rs_reg s);
               s1 = s\<lparr>rs_reg := release_mine sid reservation g\<rparr>
           in Some (case answer of
                      Inl e \<Rightarrow> (s1, TaskOver (Some e))
                    | Inr rid \<Rightarrow>
                        if (case rg_objects g ob of None \<Rightarrow> False | Some d \<Rightarrow> re_keeps env d)
                        then (s1, CreateSave ob rid) else create_started ob rid s1))
      | (CreateSave ob rid, Raised e) \<Rightarrow> Some (s, TaskOver (Some (Failed e)))
      | (CreateSave ob rid, Done) \<Rightarrow> Some (create_started ob rid s)
      | _ \<Rightarrow> None)"

text \<open>\<open>delete_session\<close> at its lock, and \<open>_on_worker_empty\<close> up to the removal.\<close>

definition delete_turn :: "reg_env \<Rightarrow> pystr \<Rightarrow> turn_input \<Rightarrow> reg_system \<Rightarrow> reg_system \<times> reg_task" where
  "delete_turn env sid i s =
     (case ti_outcome i of
        Raised e \<Rightarrow> (s, TaskOver (Some (Failed e)))
      | Done \<Rightarrow>
          if od_get (rg_retiring (rs_reg s)) sid \<noteq> None then (s, TaskOver None)
          else begin_removal env sid (ti_now i) s)"

definition empty_turn :: "reg_env \<Rightarrow> reg_task \<Rightarrow> turn_input \<Rightarrow> reg_system \<Rightarrow> (reg_system \<times> reg_task) option" where
  "empty_turn env k i s =
     (if ti_outcome i \<noteq> Done then Some (s, TaskOver (outcome_error (ti_outcome i)))
      else case k of
        EmptyLock sid \<Rightarrow>
          Some (s, case od_get (rg_sessions (rs_reg s)) sid of
                     None \<Rightarrow> TaskOver None
                   | Some ob \<Rightarrow>
                       (case rg_objects (rs_reg s) ob of
                          None \<Rightarrow> TaskOver None
                        | Some d \<Rightarrow> if df_ephemeral d then EmptySleep sid ob (ti_now i + EMPTY_GRACE_S) else TaskOver None))
      | EmptySleep sid ob wake \<Rightarrow> if wake \<le> ti_now i then Some (s, EmptyCount sid ob) else None
      | EmptyCount sid ob \<Rightarrow> Some (s, if 0 < ti_browsers i then TaskOver None else EmptyRemove sid ob)
      | EmptyRemove sid ob \<Rightarrow>
          Some (if od_get (rg_sessions (rs_reg s)) sid \<noteq> Some ob then (s, TaskOver None)
                else begin_removal env sid (ti_now i) s)
      | _ \<Rightarrow> None)"

text \<open>\<open>start_session\<close>, \<open>stop_session\<close>, \<open>restart_session\<close>.\<close>

definition call_stopping :: "nat \<Rightarrow> bool \<Rightarrow> reg_system \<times> stop_task \<Rightarrow> reg_system \<times> reg_task" where
  "call_stopping rid restart r =
     (case snd r of
        StopLive aw \<Rightarrow> (fst r, CallStopping rid restart aw)
      | StopEnded None \<Rightarrow> (if restart then start_instance rid (fst r) else fst r, TaskOver None)
      | StopEnded (Some e) \<Rightarrow> (fst r, TaskOver (Some (Failed e))))"

definition call_turn :: "reg_env \<Rightarrow> pystr \<Rightarrow> session_call \<Rightarrow> turn_input \<Rightarrow> reg_system \<Rightarrow> reg_system \<times> reg_task" where
  "call_turn env sid call i s =
     (case ti_outcome i of
        Raised e \<Rightarrow> (s, TaskOver (Some (Failed e)))
      | Done \<Rightarrow>
          (case require_session sid (rs_reg s) of
             Inl e \<Rightarrow> (s, TaskOver (Some e))
           | Inr ob \<Rightarrow>
               (let (rid, g) = runtime_for (re_keeps env) sid ob (rs_reg s); s1 = s\<lparr>rs_reg := g\<rparr>
                in case call of
                     CallTouch \<Rightarrow> (s1, TaskOver None)
                   | CallStart \<Rightarrow> (start_instance rid s1, TaskOver None)
                   | CallStop \<Rightarrow> call_stopping rid False (begin_stop rid (ti_now i) s1)
                   | CallRestart \<Rightarrow> call_stopping rid True (begin_stop rid (ti_now i) s1))))"

text \<open>A turn of a coroutine.\<close>

definition task_turn :: "reg_env \<Rightarrow> reg_task \<Rightarrow> turn_input \<Rightarrow> reg_system \<Rightarrow> (reg_system \<times> reg_task) option" where
  "task_turn env k i s =
     (case k of
        DeleteLock sid \<Rightarrow> Some (delete_turn env sid i s)
      | CallLock sid call \<Rightarrow> Some (call_turn env sid call i s)
      | CallStopping rid restart aw \<Rightarrow>
          (case resume_stop rid aw i s of None \<Rightarrow> None | Some r \<Rightarrow> Some (call_stopping rid restart r))
      | AdoptLock sid ob \<Rightarrow>
          Some (case ti_outcome i of
                  Raised e \<Rightarrow> (s, TaskOver (Some (Failed e)))
                | Done \<Rightarrow> (s\<lparr>rs_reg := snd (adopt_restored (re_keeps env) (re_has_store env) sid ob (rs_reg s))\<rparr>,
                           TaskOver None))
      | EmptyLock _ \<Rightarrow> empty_turn env k i s
      | EmptySleep _ _ _ \<Rightarrow> empty_turn env k i s
      | EmptyCount _ _ \<Rightarrow> empty_turn env k i s
      | EmptyRemove _ _ \<Rightarrow> empty_turn env k i s
      | RemovalStop _ _ _ \<Rightarrow> removal_turn env k i s
      | RemovalEnd _ _ \<Rightarrow> removal_turn env k i s
      | RemovalRetire _ _ \<Rightarrow> removal_turn env k i s
      | TaskOver _ \<Rightarrow> None
      | _ \<Rightarrow> create_turn env k i s)"

subsection \<open>The system\<close>

datatype reg_event =
    ReqCreate session_definition time
  | ReqAdopt session_definition
  | ReqDelete pystr
  | ReqEmpty pystr
  | ReqCall pystr session_call
  | Turn nat turn_input
  | RunTurn nat answers

definition spawn :: "reg_task \<Rightarrow> reg_system \<Rightarrow> reg_system" where
  "spawn k s = s\<lparr>rs_reg := (rs_reg s)\<lparr>rg_next := Suc (rg_next (rs_reg s))\<rparr>,
                 rs_tasks := (rs_tasks s)(rg_next (rs_reg s) \<mapsto> k)\<rparr>"

definition new_object :: "session_definition \<Rightarrow> reg_system \<Rightarrow> reg_system" where
  "new_object d s = s\<lparr>rs_reg := (rs_reg s)\<lparr>rg_objects := (rg_objects (rs_reg s))(rg_next (rs_reg s) \<mapsto> d),
                                        rg_next := Suc (rg_next (rs_reg s))\<rparr>\<rparr>"

fun reg_step :: "reg_env \<Rightarrow> reg_event \<Rightarrow> reg_system \<Rightarrow> reg_system" where
  "reg_step env (ReqCreate d now) s =
     spawn (CreateReserve (df_session_id d) (rg_next (rs_reg s)) (now + RESERVED_ID_WAIT_S)) (new_object d s)"
| "reg_step env (ReqAdopt d) s = spawn (AdoptLock (df_session_id d) (rg_next (rs_reg s))) (new_object d s)"
| "reg_step env (ReqDelete sid) s = spawn (DeleteLock sid) s"
| "reg_step env (ReqEmpty sid) s = spawn (EmptyLock sid) s"
| "reg_step env (ReqCall sid call) s = spawn (CallLock sid call) s"
| "reg_step env (Turn t i) s =
     (case rs_tasks s t of
        None \<Rightarrow> s
      | Some k \<Rightarrow>
          (case task_turn env k i s of
             None \<Rightarrow> s
           | Some (s', k') \<Rightarrow> s'\<lparr>rs_tasks := (rs_tasks s')(t \<mapsto> k')\<rparr>))"
| "reg_step env (RunTurn u an) s =
     (case rs_runs s u of
        Some (rid, RunLive attempt aw) \<Rightarrow>
          (case rg_instances (rs_reg s) rid of
             None \<Rightarrow> s
           | Some rt \<Rightarrow>
               let (rt', r) = run_resume attempt aw an rt
               in (put_instance rid rt' s)\<lparr>rs_runs := (rs_runs s)(u \<mapsto> (rid, r))\<rparr>)
      | _ \<Rightarrow> s)"

text \<open>The registry of the configured sessions.\<close>

definition initial_registry :: "nat option \<Rightarrow> pystr set option \<Rightarrow> session_definition list \<Rightarrow> registry" where
  "initial_registry max_sessions tokens ds =
     \<lparr>rg_max_sessions = max_sessions,
      rg_sessions = fold (\<lambda>(ob, d) m. od_set m (df_session_id d) ob) (enumerate 0 ds) [],
      rg_runtimes = [], rg_retiring = [], rg_set_events = {}, rg_tunnel_tokens = tokens,
      rg_objects = map_of (enumerate 0 ds), rg_instances = (\<lambda>_. None), rg_next = length ds\<rparr>"

definition initial_reg_system :: "nat option \<Rightarrow> pystr set option \<Rightarrow> session_definition list \<Rightarrow> reg_system" where
  "initial_reg_system max_sessions tokens ds =
     \<lparr>rs_reg = initial_registry max_sessions tokens ds, rs_runs = (\<lambda>_. None), rs_tasks = (\<lambda>_. None)\<rparr>"

end
