(* ===== verification/RegistryProps.thy ===== *)
theory RegistryProps
  imports SessionRegistry
begin

text \<open>
  What the registry of sessions keeps, whatever its coroutines do and however their turns
  interleave: an id is registered, reserved by exactly one coroutine, or free; a session is never
  replaced; the limit on sessions holds; a runtime in the table belongs to a registered session;
  and every reservation is given back.
\<close>

subsection \<open>The invariant\<close>

text \<open>The id a coroutine holds reserved, and what it knows of the reservation.\<close>

fun held_id :: "reg_task \<Rightarrow> pystr option" where
  "held_id (CreateRetire sid ob ev) = Some sid"
| "held_id (CreateInsert sid ob ev) = Some sid"
| "held_id (RemovalStop sid rid aw) = Some sid"
| "held_id (RemovalEnd sid ev) = Some sid"
| "held_id (RemovalRetire sid ev) = Some sid"
| "held_id _ = None"

fun held_ok :: "(pystr \<times> nat) list \<Rightarrow> reg_task \<Rightarrow> bool" where
  "held_ok r (CreateRetire sid ob ev) \<longleftrightarrow> od_get r sid = Some ev"
| "held_ok r (CreateInsert sid ob ev) \<longleftrightarrow> od_get r sid = Some ev"
| "held_ok r (RemovalStop sid rid aw) \<longleftrightarrow> od_get r sid \<noteq> None"
| "held_ok r (RemovalEnd sid ev) \<longleftrightarrow> od_get r sid = ev \<and> ev \<noteq> None"
| "held_ok r (RemovalRetire sid ev) \<longleftrightarrow> od_get r sid = ev \<and> ev \<noteq> None"
| "held_ok r _ \<longleftrightarrow> True"

text \<open>A \<open>create_session\<close> in the wait for another holder: the event it waits for is set, or is the one of
  the reservation it found.\<close>

fun wait_ok :: "registry \<Rightarrow> reg_task \<Rightarrow> bool" where
  "wait_ok g (CreateWait sid ob deadline p) \<longleftrightarrow> p \<in> rg_set_events g \<or> od_get (rg_retiring g) sid = Some p"
| "wait_ok g _ \<longleftrightarrow> True"

lemma held_ok_reserved: "held_ok r k \<Longrightarrow> held_id k = Some sid \<Longrightarrow> od_get r sid \<noteq> None"
  by (cases k) auto

lemma held_ok_cong: "held_id k = Some sid \<Longrightarrow> od_get r' sid = od_get r sid \<Longrightarrow> held_ok r' k = held_ok r k"
  by (cases k) auto

lemma held_ok_free: "held_id k = None \<Longrightarrow> held_ok r k"
  by (cases k) auto

definition tables_ok :: "nat \<Rightarrow> registry \<Rightarrow> bool" where
  "tables_ok n g \<longleftrightarrow>
     od_ok (rg_sessions g) \<and> od_ok (rg_runtimes g) \<and> od_ok (rg_retiring g) \<and>
     (\<forall>sid. od_get (rg_sessions g) sid \<noteq> None \<longrightarrow> od_get (rg_retiring g) sid = None) \<and>
     (\<forall>sid. od_get (rg_runtimes g) sid \<noteq> None \<longrightarrow> od_get (rg_sessions g) sid \<noteq> None) \<and>
     (\<forall>m. rg_max_sessions g = Some m \<longrightarrow> length (rg_sessions g) \<le> max m n)"

definition reg_inv :: "nat \<Rightarrow> reg_system \<Rightarrow> bool" where
  "reg_inv n s \<longleftrightarrow>
     tables_ok n (rs_reg s) \<and>
     (\<forall>t k. rs_tasks s t = Some k \<longrightarrow> held_ok (rg_retiring (rs_reg s)) k \<and> wait_ok (rs_reg s) k) \<and>
     (\<forall>t u k l sid. rs_tasks s t = Some k \<longrightarrow> rs_tasks s u = Some l \<longrightarrow>
        held_id k = Some sid \<longrightarrow> held_id l = Some sid \<longrightarrow> t = u) \<and>
     (\<forall>sid. od_get (rg_retiring (rs_reg s)) sid \<noteq> None \<longrightarrow>
        (\<exists>t k. rs_tasks s t = Some k \<and> held_id k = Some sid)) \<and>
     (\<forall>t. rg_next (rs_reg s) \<le> t \<longrightarrow> rs_tasks s t = None)"

lemma reg_invD:
  assumes "reg_inv n s"
  shows reg_tables: "tables_ok n (rs_reg s)"
    and reg_held: "rs_tasks s t = Some k \<Longrightarrow> held_ok (rg_retiring (rs_reg s)) k"
    and reg_wait: "rs_tasks s t = Some k \<Longrightarrow> wait_ok (rs_reg s) k"
    and reg_unique: "rs_tasks s t = Some k \<Longrightarrow> rs_tasks s u = Some l \<Longrightarrow> held_id k = Some sid \<Longrightarrow>
      held_id l = Some sid \<Longrightarrow> t = u"
    and reg_holder: "od_get (rg_retiring (rs_reg s)) sid \<noteq> None \<Longrightarrow>
      \<exists>t k. rs_tasks s t = Some k \<and> held_id k = Some sid"
    and reg_fresh: "rg_next (rs_reg s) \<le> t \<Longrightarrow> rs_tasks s t = None"
  using assms unfolding reg_inv_def by blast+

lemma reg_invI:
  assumes "tables_ok n (rs_reg s)"
    and "\<And>t k. rs_tasks s t = Some k \<Longrightarrow> held_ok (rg_retiring (rs_reg s)) k"
    and "\<And>t k. rs_tasks s t = Some k \<Longrightarrow> wait_ok (rs_reg s) k"
    and "\<And>t u k l sid. rs_tasks s t = Some k \<Longrightarrow> rs_tasks s u = Some l \<Longrightarrow> held_id k = Some sid \<Longrightarrow>
      held_id l = Some sid \<Longrightarrow> t = u"
    and "\<And>sid. od_get (rg_retiring (rs_reg s)) sid \<noteq> None \<Longrightarrow> \<exists>t k. rs_tasks s t = Some k \<and> held_id k = Some sid"
    and "\<And>t. rg_next (rs_reg s) \<le> t \<Longrightarrow> rs_tasks s t = None"
  shows "reg_inv n s"
  unfolding reg_inv_def using assms by blast

text \<open>A reservation goes only with its event set, and an event stays set.\<close>

definition wakes :: "registry \<Rightarrow> registry \<Rightarrow> bool" where
  "wakes g g' \<longleftrightarrow> rg_set_events g \<subseteq> rg_set_events g' \<and>
     (\<forall>sid p. od_get (rg_retiring g) sid = Some p \<longrightarrow> od_get (rg_retiring g') sid = Some p \<or> p \<in> rg_set_events g')"

lemma wakes_wait: "wakes g g' \<Longrightarrow> wait_ok g k \<Longrightarrow> wait_ok g' k"
  by (cases k) (auto simp: wakes_def)

lemma wakes_refl [simp]: "wakes g g"
  by (simp add: wakes_def)

text \<open>
  What a turn of a coroutine that goes from \<open>k\<close> to \<open>k'\<close> has to do to the tables. It may take an id
  that is free, must keep the one it holds reserved or free it, and leaves the others alone.
\<close>

definition turn_ok :: "nat \<Rightarrow> reg_task \<Rightarrow> registry \<Rightarrow> reg_task \<Rightarrow> registry \<Rightarrow> bool" where
  "turn_ok n k g k' g' \<longleftrightarrow>
     tables_ok n g' \<and> held_ok (rg_retiring g') k' \<and> rg_next g \<le> rg_next g' \<and> wakes g g' \<and>
     (\<forall>sid. held_id k' = Some sid \<longrightarrow> held_id k = Some sid \<or> od_get (rg_retiring g) sid = None) \<and>
     (\<forall>sid. held_id k \<noteq> Some sid \<longrightarrow> held_id k' \<noteq> Some sid \<longrightarrow>
        od_get (rg_retiring g') sid = od_get (rg_retiring g) sid) \<and>
     (\<forall>sid. held_id k = Some sid \<longrightarrow> held_id k' \<noteq> Some sid \<longrightarrow> od_get (rg_retiring g') sid = None) \<and>
     (\<forall>sid ob. od_get (rg_sessions g) sid = Some ob \<longrightarrow>
        od_get (rg_sessions g') sid = Some ob \<or> od_get (rg_retiring g') sid \<noteq> None)"

lemma turn_okD:
  assumes "turn_ok n k g k' g'"
  shows turn_tables: "tables_ok n g'"
    and turn_held: "held_ok (rg_retiring g') k'"
    and turn_wakes: "wakes g g'"
    and turn_next: "rg_next g \<le> rg_next g'"
    and turn_take: "held_id k' = Some sid \<Longrightarrow> held_id k = Some sid \<or> od_get (rg_retiring g) sid = None"
    and turn_other: "held_id k \<noteq> Some sid \<Longrightarrow> held_id k' \<noteq> Some sid \<Longrightarrow>
      od_get (rg_retiring g') sid = od_get (rg_retiring g) sid"
    and turn_free: "held_id k = Some sid \<Longrightarrow> held_id k' \<noteq> Some sid \<Longrightarrow> od_get (rg_retiring g') sid = None"
    and turn_session: "od_get (rg_sessions g) sid = Some ob \<Longrightarrow>
      od_get (rg_sessions g') sid = Some ob \<or> od_get (rg_retiring g') sid \<noteq> None"
  using assms by (simp_all add: turn_ok_def)

lemma turn_inv:
  assumes inv: "reg_inv n s" and t: "rs_tasks s t = Some k"
    and ok: "turn_ok n k (rs_reg s) k' (rs_reg s')" and same: "rs_tasks s' = rs_tasks s"
    and wait: "wait_ok (rs_reg s') k'"
  shows "reg_inv n (s'\<lparr>rs_tasks := (rs_tasks s')(t \<mapsto> k')\<rparr>)"
proof -
  let ?r = "rg_retiring (rs_reg s)" and ?r' = "rg_retiring (rs_reg s')"
  have other: "od_get ?r' sid = od_get ?r sid" "held_id k' \<noteq> Some sid"
    if "rs_tasks s u = Some l" "u \<noteq> t" "held_id l = Some sid" for u l sid
  proof -
    have k: "held_id k \<noteq> Some sid" using reg_unique [OF inv that(1) t that(3)] that(2) by blast
    have r: "od_get ?r sid \<noteq> None" using held_ok_reserved [OF reg_held [OF inv that(1)] that(3)] .
    show new: "held_id k' \<noteq> Some sid" using turn_take [OF ok, of sid] k r by blast
    show "od_get ?r' sid = od_get ?r sid" by (rule turn_other [OF ok k new])
  qed
  have held: "held_ok ?r' l" if "rs_tasks s u = Some l" "u \<noteq> t" for u l
  proof (cases "held_id l")
    case (Some sid)
    from held_ok_cong [OF Some other(1) [OF that Some]] reg_held [OF inv that(1)] show ?thesis by simp
  qed (rule held_ok_free)
  have holder: "\<exists>u l. ((rs_tasks s)(t \<mapsto> k')) u = Some l \<and> held_id l = Some sid" if "od_get ?r' sid \<noteq> None" for sid
  proof (cases "held_id k' = Some sid")
    case False
    then have k: "held_id k \<noteq> Some sid" using turn_free [OF ok, of sid] that by blast
    then have "od_get ?r sid \<noteq> None" using turn_other [OF ok k False] that by simp
    from reg_holder [OF inv this] obtain u l where "rs_tasks s u = Some l" "held_id l = Some sid" by blast
    then show ?thesis using k t by (intro exI [of _ u] exI [of _ l]) auto
  qed (intro exI [of _ t], simp)
  have unique: "i = j" if "((rs_tasks s)(t \<mapsto> k')) i = Some l" "((rs_tasks s)(t \<mapsto> k')) j = Some m"
    "held_id l = Some sid" "held_id m = Some sid" for i j l m sid
    using that reg_unique [OF inv, of i l j m sid] other(2) [of i l sid] other(2) [of j m sid]
    by (auto split: if_splits)
  have fresh: "((rs_tasks s)(t \<mapsto> k')) u = None" if "rg_next (rs_reg s') \<le> u" for u
    using reg_fresh [OF inv, of u] reg_fresh [OF inv, of t] t that turn_next [OF ok] by auto
  show ?thesis
  proof (rule reg_invI)
    fix u l assume "rs_tasks (s'\<lparr>rs_tasks := (rs_tasks s')(t \<mapsto> k')\<rparr>) u = Some l"
    then show "held_ok (rg_retiring (rs_reg (s'\<lparr>rs_tasks := (rs_tasks s')(t \<mapsto> k')\<rparr>))) l"
      using held [of u l] turn_held [OF ok] by (auto simp: same split: if_splits)
  next
    fix u l assume "rs_tasks (s'\<lparr>rs_tasks := (rs_tasks s')(t \<mapsto> k')\<rparr>) u = Some l"
    then show "wait_ok (rs_reg (s'\<lparr>rs_tasks := (rs_tasks s')(t \<mapsto> k')\<rparr>)) l"
      using wakes_wait [OF turn_wakes [OF ok] reg_wait [OF inv, of u l]] wait
      by (auto simp: same split: if_splits)
  next
    fix i j l m sid
    assume "rs_tasks (s'\<lparr>rs_tasks := (rs_tasks s')(t \<mapsto> k')\<rparr>) i = Some l"
      "rs_tasks (s'\<lparr>rs_tasks := (rs_tasks s')(t \<mapsto> k')\<rparr>) j = Some m" "held_id l = Some sid" "held_id m = Some sid"
    then show "i = j" by (intro unique [of i l j m sid]) (simp_all add: same)
  next
    fix sid assume "od_get (rg_retiring (rs_reg (s'\<lparr>rs_tasks := (rs_tasks s')(t \<mapsto> k')\<rparr>))) sid \<noteq> None"
    then show "\<exists>u l. rs_tasks (s'\<lparr>rs_tasks := (rs_tasks s')(t \<mapsto> k')\<rparr>) u = Some l \<and> held_id l = Some sid"
      using holder [of sid] by (simp add: same)
  next
    fix u assume "rg_next (rs_reg (s'\<lparr>rs_tasks := (rs_tasks s')(t \<mapsto> k')\<rparr>)) \<le> u"
    then show "rs_tasks (s'\<lparr>rs_tasks := (rs_tasks s')(t \<mapsto> k')\<rparr>) u = None" using fresh [of u] by (simp add: same)
  qed (use turn_tables [OF ok] in simp)
qed

subsection \<open>What each turn does to the tables\<close>

definition same_tables :: "registry \<Rightarrow> registry \<Rightarrow> bool" where
  "same_tables g g' \<longleftrightarrow>
     rg_sessions g' = rg_sessions g \<and> rg_runtimes g' = rg_runtimes g \<and> rg_retiring g' = rg_retiring g \<and>
     rg_max_sessions g' = rg_max_sessions g \<and> rg_set_events g' = rg_set_events g \<and> rg_next g \<le> rg_next g'"

lemma same_tables_refl [simp]: "same_tables g g"
  by (simp add: same_tables_def)

lemma same_tables_trans: "same_tables g h \<Longrightarrow> same_tables h i \<Longrightarrow> same_tables g i"
  by (simp add: same_tables_def)

lemma wakes_same: "same_tables g h \<Longrightarrow> wakes g h"
  by (simp add: same_tables_def wakes_def)

lemma wakes_trans: "wakes g h \<Longrightarrow> wakes h i \<Longrightarrow> wakes g i"
  unfolding wakes_def by blast

lemma turn_same: "turn_ok n k g k' h \<Longrightarrow> same_tables h h' \<Longrightarrow> turn_ok n k g k' h'"
  using wakes_trans [of g h h'] wakes_same [of h h'] by (simp add: turn_ok_def tables_ok_def same_tables_def)

lemma turn_idle:
  "tables_ok n g \<Longrightarrow> held_id k' = held_id k \<Longrightarrow> held_ok (rg_retiring g) k' \<Longrightarrow> turn_ok n k g k' g"
  by (simp add: turn_ok_def)

lemma turn_free_id: "tables_ok n g \<Longrightarrow> held_id k = None \<Longrightarrow> held_id k' = None \<Longrightarrow> turn_ok n k g k' g"
  by (simp add: turn_idle held_ok_free)

text \<open>Instances and run tasks are outside the tables.\<close>

lemma put_instance_frame [frame_simps]:
  "same_tables (rs_reg s) (rs_reg (put_instance rid rt s))" "rs_tasks (put_instance rid rt s) = rs_tasks s"
  by (simp_all add: put_instance_def same_tables_def)

lemma start_instance_frame [frame_simps]:
  "same_tables (rs_reg s) (rs_reg (start_instance rid s))" "rs_tasks (start_instance rid s) = rs_tasks s"
  by (simp_all add: start_instance_def put_instance_def same_tables_def Let_def split: option.split)

lemma begin_stop_frame [frame_simps]:
  "same_tables (rs_reg s) (rs_reg (fst (begin_stop rid now s)))" "rs_tasks (fst (begin_stop rid now s)) = rs_tasks s"
  by (simp_all add: begin_stop_def frame_simps split: option.split prod.split)

lemma resume_stop_frame:
  "resume_stop rid aw i s = Some r \<Longrightarrow> same_tables (rs_reg s) (rs_reg (fst r)) \<and> rs_tasks (fst r) = rs_tasks s"
  by (auto simp: resume_stop_def frame_simps split: option.splits)

lemma release_mine_frame [frame_simps, simp]: "rg_sessions (release_mine sid ev g) = rg_sessions g"
  by (simp add: release_mine_def)

text \<open>The four ways the tables change: an id is released, reserved, registered and taken out.\<close>

lemma turn_release:
  assumes "tables_ok n g" "held_id k = Some sid" "od_get (rg_retiring g) sid = Some ev" "held_id k' = None"
  shows "turn_ok n k g k' (release_mine sid ev g)"
  using assms by (auto simp: turn_ok_def tables_ok_def release_mine_def held_ok_free od_ok_pop wakes_def)

lemma turn_reserve:
  assumes "tables_ok n g" "held_id k = None" "reserve_locked sid g = (Reserved ev, g')"
  shows "turn_ok n k g (CreateRetire sid ob ev) g'"
proof -
  have "od_get (rg_sessions g) sid = None" "od_get (rg_retiring g) sid = None" "ev = rg_next g"
    "g' = g\<lparr>rg_retiring := od_set (rg_retiring g) sid (rg_next g), rg_next := Suc (rg_next g)\<rparr>"
    using assms(3) by (auto simp: reserve_locked_def split: if_splits option.splits)
  with assms show ?thesis by (auto simp: turn_ok_def tables_ok_def od_ok_set wakes_def)
qed

lemma reserve_refused: "reserve_locked sid g = (ReserveRefused e, g') \<Longrightarrow> g' = g"
  "reserve_locked sid g = (ReservePending p, g') \<Longrightarrow> g' = g \<and> od_get (rg_retiring g) sid = Some p"
  by (auto simp: reserve_locked_def split: if_splits option.splits)

lemma turn_remove:
  assumes "tables_ok n g" "held_id k = None" "od_get (rg_retiring g) sid = None"
    and "remove_locked sid g = (runtime, g')" "held_id k' = Some sid" "held_ok (rg_retiring g') k'"
  shows "turn_ok n k g k' g'"
proof -
  have g': "rg_sessions g' = od_pop (rg_sessions g) sid" "rg_runtimes g' = od_pop (rg_runtimes g) sid"
    "rg_retiring g' = od_set (rg_retiring g) sid (rg_next g)" "rg_max_sessions g' = rg_max_sessions g"
    "rg_next g' = Suc (rg_next g)" "rg_set_events g' = rg_set_events g"
    using assms(4) by (auto simp: remove_locked_def revoke_tunnel_tokens_def Let_def)
  have "length (od_pop (rg_sessions g) sid) \<le> length (rg_sessions g)" by (rule length_od_pop_le)
  then have "tables_ok n g'"
    using assms(1) unfolding tables_ok_def g' by (auto simp: od_ok_pop od_ok_set intro: le_trans)
  then show ?thesis using assms(1,2,3,5,6) unfolding turn_ok_def g' tables_ok_def wakes_def by auto
qed

lemma runtime_for_tables:
  assumes "tables_ok n g" "od_get (rg_sessions g) sid = Some ob" "runtime_for keeps sid ob g = (rid, g')"
  shows "tables_ok n g'" "rg_sessions g' = rg_sessions g" "rg_retiring g' = rg_retiring g"
    "rg_next g \<le> rg_next g'" "rg_objects g' = rg_objects g"
    "rg_set_events g' = rg_set_events g"
  using assms by (auto simp: runtime_for_def tables_ok_def Let_def od_ok_set split: option.splits if_splits)

lemma turn_touch:
  assumes "tables_ok n g" "held_id k = None" "held_id k' = None" "od_get (rg_sessions g) sid = Some ob"
    and "runtime_for keeps sid ob g = (rid, g')"
  shows "turn_ok n k g k' g'"
  using runtime_for_tables [OF assms(1,4,5)] assms by (simp add: turn_ok_def held_ok_free wakes_def)

lemma not_at_limit: "\<not> at_limit g \<Longrightarrow> rg_max_sessions g = Some m \<Longrightarrow> length (rg_sessions g) < m"
  by (simp add: at_limit_def)

lemma register_tables:
  assumes "tables_ok n g" "od_get (rg_retiring g) sid = None" "\<not> at_limit g"
  shows "tables_ok n (g\<lparr>rg_sessions := od_set (rg_sessions g) sid ob\<rparr>)"
  using assms not_at_limit [OF assms(3)]
  by (auto simp: tables_ok_def od_ok_set length_od_set split: if_splits)

lemma release_tables: "tables_ok n g \<Longrightarrow> tables_ok n (release_mine sid ev g)"
  by (auto simp: tables_ok_def release_mine_def od_ok_pop split: if_splits)

lemma turn_insert:
  assumes ok: "tables_ok n g" and k: "held_id k = Some sid" "held_id k' = None"
    and ev: "od_get (rg_retiring g) sid = Some ev"
    and ins: "insert_locked keeps sid ob ev g = (answer, g')"
  shows "turn_ok n k g k' g'" "od_get (rg_retiring g') sid = None"
proof -
  let ?g1 = "release_mine sid ev g"
  let ?g2 = "?g1\<lparr>rg_sessions := od_set (rg_sessions ?g1) sid ob\<rparr>"
  have t1: "tables_ok n ?g1" by (rule release_tables [OF ok])
  have free: "od_get (rg_retiring ?g1) sid = None"
    using ok ev by (simp add: release_mine_def tables_ok_def)
  have old: "od_get (rg_sessions g) sid = None" using ok ev unfolding tables_ok_def by (metis option.distinct(1))
  have "turn_ok n k g k' g' \<and> od_get (rg_retiring g') sid = None"
  proof (cases "at_limit ?g1")
    case True
    then have "g' = ?g1" using ins by (simp add: insert_locked_def Let_def)
    with turn_release [OF ok k(1) ev k(2)] free show ?thesis by simp
  next
    case False
    then obtain rid where rf: "runtime_for keeps sid ob ?g2 = (rid, g')"
      using ins by (auto simp: insert_locked_def Let_def split: prod.splits)
    have t2: "tables_ok n ?g2" by (rule register_tables [OF t1 free False])
    have s2: "od_get (rg_sessions ?g2) sid = Some ob" by simp
    note rt = runtime_for_tables [OF t2 s2 rf]
    have "turn_ok n k g k' ?g1" by (rule turn_release [OF ok k(1) ev k(2)])
    then have "turn_ok n k g k' g'"
      using rt k old unfolding turn_ok_def by (auto simp: held_ok_free wakes_def)
    with rt free show ?thesis by simp
  qed
  then show "turn_ok n k g k' g'" "od_get (rg_retiring g') sid = None" by simp_all
qed

lemma turn_adopt:
  assumes ok: "tables_ok n g" and k: "held_id k = None" "held_id k' = None"
  shows "turn_ok n k g k' (snd (adopt_restored keeps st sid ob g))"
proof (cases "\<not> st \<or> od_get (rg_sessions g) sid \<noteq> None \<or> od_get (rg_retiring g) sid \<noteq> None \<or> at_limit g")
  case True
  then show ?thesis using turn_free_id [OF ok k] by (auto simp: adopt_restored_def)
next
  case False
  let ?g1 = "g\<lparr>rg_sessions := od_set (rg_sessions g) sid ob\<rparr>"
  obtain rid g' where rf: "runtime_for keeps sid ob ?g1 = (rid, g')" by fastforce
  have t1: "tables_ok n ?g1" using False by (intro register_tables [OF ok]) simp_all
  have "od_get (rg_sessions ?g1) sid = Some ob" by simp
  from runtime_for_tables [OF t1 this rf] have "turn_ok n k g k' g'"
    using k False by (auto simp: turn_ok_def held_ok_free wakes_def)
  then show ?thesis using False rf by (simp add: adopt_restored_def Let_def)
qed

subsection \<open>Every turn\<close>

text \<open>A result of a turn from \<open>k\<close> in \<open>s\<close>: it does to the tables what it may, and leaves the other
  coroutines alone.\<close>

definition good_turn :: "nat \<Rightarrow> reg_task \<Rightarrow> reg_system \<Rightarrow> reg_system \<times> reg_task \<Rightarrow> bool" where
  "good_turn n k s r \<longleftrightarrow> turn_ok n k (rs_reg s) (snd r) (rs_reg (fst r)) \<and> wait_ok (rs_reg (fst r)) (snd r) \<and>
     rs_tasks (fst r) = rs_tasks s"

lemma good_idle:
  "tables_ok n (rs_reg s) \<Longrightarrow> held_id k = None \<Longrightarrow> held_id k' = None \<Longrightarrow> wait_ok (rs_reg s) k' \<Longrightarrow>
   good_turn n k s (s, k')"
  by (simp add: good_turn_def turn_free_id)

lemma good_over:
  assumes "turn_ok n k (rs_reg s) (TaskOver e) (rs_reg s1)" "rs_tasks s1 = rs_tasks s"
    and "same_tables (rs_reg s1) (rs_reg s2)" "rs_tasks s2 = rs_tasks s1"
  shows "good_turn n k s (s2, TaskOver f)"
proof -
  have "turn_ok n k (rs_reg s) (TaskOver f) (rs_reg s1)" using assms(1) by (simp add: turn_ok_def)
  from turn_same [OF this assms(3)] assms(2,4) show ?thesis by (simp add: good_turn_def)
qed

text \<open>A removal, from the point where its id is reserved for it.\<close>

lemma good_removal_finally:
  assumes "turn_ok n k (rs_reg s) (RemovalStop sid rid aw) (rs_reg s1)" "rs_tasks s1 = rs_tasks s"
  shows "good_turn n k s (removal_finally env sid s1)"
  using assms by (auto simp: good_turn_def removal_finally_def turn_ok_def Let_def)

lemma good_removal_stopping:
  assumes "turn_ok n k (rs_reg s) (RemovalStop sid rid aw) (rs_reg s1)" "rs_tasks s1 = rs_tasks s"
    and "same_tables (rs_reg s1) (rs_reg (fst r))" "rs_tasks (fst r) = rs_tasks s1"
  shows "good_turn n k s (removal_stopping env sid rid' r)"
proof -
  have t: "turn_ok n k (rs_reg s) (RemovalStop sid rid bw) (rs_reg (fst r))" for bw rid
    using turn_same [OF assms(1,3)] by (simp add: turn_ok_def)
  show ?thesis
  proof (cases "snd r")
    case (StopLive bw)
    then show ?thesis using t assms(2,4) by (simp add: removal_stopping_def good_turn_def)
  next
    case (StopEnded f)
    have "good_turn n k s (removal_finally env sid (fst r))"
      by (rule good_removal_finally [OF t]) (use assms in simp)
    then show ?thesis using StopEnded by (simp add: removal_stopping_def)
  qed
qed

lemma good_begin_removal:
  assumes ok: "tables_ok n (rs_reg s)" and k: "held_id k = None" and free: "od_get (rg_retiring (rs_reg s)) sid = None"
  shows "good_turn n k s (begin_removal env sid now s)"
proof -
  obtain runtime g where r: "remove_locked sid (rs_reg s) = (runtime, g)" by fastforce
  let ?s1 = "s\<lparr>rs_reg := g\<rparr>"
  have "od_get (rg_retiring g) sid \<noteq> None" using r by (auto simp: remove_locked_def revoke_tunnel_tokens_def Let_def)
  then have t: "turn_ok n k (rs_reg s) (RemovalStop sid rid aw) (rs_reg ?s1)" for rid aw
    using turn_remove [OF ok k free r, of "RemovalStop sid rid aw"] by simp
  show ?thesis
  proof (cases runtime)
    case None
    then show ?thesis using good_removal_finally [OF t] r by (simp add: begin_removal_def)
  next
    case (Some rid)
    have "good_turn n k s (removal_stopping env sid rid (begin_stop rid now ?s1))"
      by (rule good_removal_stopping [OF t _ begin_stop_frame]) simp
    then show ?thesis using Some r by (simp add: begin_removal_def)
  qed
qed

lemma good_release:
  assumes "tables_ok n (rs_reg s)" "held_id k = Some sid" "od_get (rg_retiring (rs_reg s)) sid = Some ev"
  shows "good_turn n k s (s\<lparr>rs_reg := release_mine sid ev (rs_reg s)\<rparr>, TaskOver e)"
  using turn_release [OF assms, of "TaskOver e"] by (simp add: good_turn_def)

lemma good_removal_turn:
  assumes ok: "tables_ok n (rs_reg s)" and held: "held_ok (rg_retiring (rs_reg s)) k"
    and turn: "removal_turn env k i s = Some r"
  shows "good_turn n k s r"
proof (cases k)
  case (RemovalStop sid rid aw)
  then obtain q where q: "resume_stop rid aw i s = Some q" "r = removal_stopping env sid rid q"
    using turn by (auto simp: removal_turn_def split: option.splits)
  have "turn_ok n k (rs_reg s) (RemovalStop sid rid aw) (rs_reg s)"
    using turn_idle [OF ok, of k k] held RemovalStop by simp
  from good_removal_stopping [OF this refl] resume_stop_frame [OF q(1)] q(2) show ?thesis by simp
next
  case (RemovalEnd sid res)
  then obtain ev where ev: "res = Some ev" "od_get (rg_retiring (rs_reg s)) sid = Some ev" using held by auto
  have "good_turn n k s (s, RemovalRetire sid res)"
    using turn_idle [OF ok, of "RemovalRetire sid res" k] RemovalEnd ev by (simp add: good_turn_def)
  then show ?thesis
    using good_release [OF ok _ ev(2), of k] turn RemovalEnd ev
    by (auto simp: removal_turn_def release_reservation_def split: outcome.splits)
next
  case (RemovalRetire sid res)
  then obtain ev where ev: "res = Some ev" "od_get (rg_retiring (rs_reg s)) sid = Some ev" using held by auto
  then show ?thesis
    using good_release [OF ok _ ev(2), of k] turn RemovalRetire
    by (auto simp: removal_turn_def release_reservation_def)
qed (use turn in \<open>simp_all add: removal_turn_def\<close>)

text \<open>\<open>create_session\<close>.\<close>

lemma create_started_over: "\<exists>s1 e. create_started ob rid s = (s1, TaskOver e) \<and>
    same_tables (rs_reg s) (rs_reg s1) \<and> rs_tasks s1 = rs_tasks s"
  by (auto simp: create_started_def start_instance_frame split: option.split)

lemma good_create_started:
  assumes "turn_ok n k (rs_reg s) (TaskOver None) (rs_reg s1)" "rs_tasks s1 = rs_tasks s" "r = create_started ob rid s1"
  shows "good_turn n k s r"
proof -
  obtain s2 e where "create_started ob rid s1 = (s2, TaskOver e)" "same_tables (rs_reg s1) (rs_reg s2)"
    "rs_tasks s2 = rs_tasks s1" using create_started_over by blast
  with good_over [OF assms(1,2)] assms(3) show ?thesis by simp
qed

lemma good_create_insert:
  assumes ok: "tables_ok n (rs_reg s)" and ev: "od_get (rg_retiring (rs_reg s)) sid = Some ev"
    and turn: "create_turn env (CreateInsert sid ob ev) i s = Some r" and out: "ti_outcome i = Done"
  shows "good_turn n (CreateInsert sid ob ev) s r"
proof -
  obtain answer g where ins: "insert_locked (re_keeps env) sid ob ev (rs_reg s) = (answer, g)" by fastforce
  note t = turn_insert [OF ok _ _ ev ins, of "CreateInsert sid ob ev", simplified]
  have again: "release_mine sid ev g = g"
    using t(2) [of "TaskOver None"] by (simp add: release_mine_def)
  let ?s1 = "s\<lparr>rs_reg := g\<rparr>"
  have free: "turn_ok n (CreateInsert sid ob ev) (rs_reg s) k' (rs_reg ?s1)" if "held_id k' = None" for k'
    using t(1) [OF that] by simp
  show ?thesis
  proof (cases "\<exists>e. r = (?s1, TaskOver e) \<or> (\<exists>rid. r = (?s1, CreateSave ob rid))")
    case True
    then show ?thesis using free by (auto simp: good_turn_def)
  next
    case False
    then obtain rid where "r = create_started ob rid ?s1"
      using turn out ins again
      by (cases answer) (auto simp: create_turn_def Let_def split: if_splits option.splits)
    then show ?thesis by (intro good_create_started [of n "CreateInsert sid ob ev" s ?s1]) (use free in simp_all)
  qed
qed

lemma good_create_reserve:
  assumes ok: "tables_ok n (rs_reg s)"
    and turn: "create_turn env (CreateReserve sid ob dl) i s = Some r" and out: "ti_outcome i = Done"
  shows "good_turn n (CreateReserve sid ob dl) s r"
proof -
  obtain answer g where res: "reserve_locked sid (rs_reg s) = (answer, g)" by fastforce
  show ?thesis
  proof (cases answer)
    case (Reserved ev)
    then show ?thesis
      using turn out res turn_reserve [OF ok, of "CreateReserve sid ob dl" sid ev g ob]
      by (auto simp: create_turn_def good_turn_def)
  next
    case (ReserveRefused e)
    then have "g = rs_reg s" using reserve_refused(1) res by blast
    then show ?thesis
      using turn out res ReserveRefused turn_free_id [OF ok] by (auto simp: create_turn_def good_turn_def)
  next
    case (ReservePending p)
    then have "g = rs_reg s" "od_get (rg_retiring g) sid = Some p" using reserve_refused(2) res by auto
    then show ?thesis
      using turn out res ReservePending turn_free_id [OF ok] by (auto simp: create_turn_def good_turn_def)
  qed
qed

lemma good_create_turn:
  assumes ok: "tables_ok n (rs_reg s)" and held: "held_ok (rg_retiring (rs_reg s)) k"
    and turn: "create_turn env k i s = Some r"
  shows "good_turn n k s r"
proof (cases k)
  case (CreateReserve sid ob dl)
  then show ?thesis
    using good_create_reserve [OF ok, of env sid ob dl i r] good_idle [OF ok, of k] turn
    by (cases "ti_outcome i") (auto simp: create_turn_def)
next
  case (CreateWait sid ob dl p)
  then show ?thesis
    using good_idle [OF ok, of k] turn by (auto simp: create_turn_def split: outcome.splits if_splits)
next
  case (CreateRetire sid ob ev)
  then have ev: "od_get (rg_retiring (rs_reg s)) sid = Some ev" using held by simp
  have "good_turn n k s (s, CreateInsert sid ob ev)"
    using turn_idle [OF ok, of "CreateInsert sid ob ev" k] CreateRetire ev by (simp add: good_turn_def)
  then show ?thesis
    using good_release [OF ok _ ev, of k] turn CreateRetire by (auto simp: create_turn_def split: outcome.splits)
next
  case (CreateInsert sid ob ev)
  then have ev: "od_get (rg_retiring (rs_reg s)) sid = Some ev" using held by simp
  show ?thesis
    using good_create_insert [OF ok ev, of env ob i r] good_release [OF ok _ ev, of k] turn CreateInsert
    by (cases "ti_outcome i") (auto simp: create_turn_def)
next
  case (CreateSave ob rid)
  have t: "turn_ok n k (rs_reg s) (TaskOver None) (rs_reg s)"
    using turn_free_id [OF ok] CreateSave by simp
  show ?thesis
    using turn CreateSave good_create_started [OF t refl, of r ob rid] good_idle [OF ok, of k]
    by (auto simp: create_turn_def split: outcome.splits)
qed (use turn in \<open>simp_all add: create_turn_def split: outcome.splits\<close>)

text \<open>The others.\<close>

lemma good_delete_turn: "tables_ok n (rs_reg s) \<Longrightarrow> good_turn n (DeleteLock sid) s (delete_turn env sid i s)"
  by (simp add: delete_turn_def good_idle good_begin_removal split: outcome.split)

lemma good_empty_turn:
  assumes ok: "tables_ok n (rs_reg s)" and k: "held_id k = None" and turn: "empty_turn env k i s = Some r"
  shows "good_turn n k s r"
proof (cases "\<exists>k'. r = (s, k') \<and> held_id k' = None \<and> wait_ok (rs_reg s) k'")
  case True
  then show ?thesis using good_idle [OF ok k] by auto
next
  case False
  then obtain sid ob where r: "r = begin_removal env sid (ti_now i) s" "od_get (rg_sessions (rs_reg s)) sid = Some ob"
    using turn by (cases k) (auto simp: empty_turn_def split: if_splits option.splits)
  then have "od_get (rg_retiring (rs_reg s)) sid = None"
    using ok unfolding tables_ok_def by blast
  then show ?thesis using good_begin_removal [OF ok k] r by simp
qed

lemma good_call_stopping:
  assumes t: "turn_ok n k (rs_reg s) (TaskOver None) (rs_reg s1)" "rs_tasks s1 = rs_tasks s"
    and r: "same_tables (rs_reg s1) (rs_reg (fst r))" "rs_tasks (fst r) = rs_tasks s1"
  shows "good_turn n k s (call_stopping rid restart r)"
proof -
  have "good_turn n k s (fst r, CallStopping rid b aw)" for b aw
    using turn_same [OF t(1) r(1)] t(2) r(2) by (simp add: good_turn_def turn_ok_def)
  moreover have "good_turn n k s (fst r, TaskOver e)" for e by (rule good_over [OF t r])
  moreover have "good_turn n k s (start_instance rid (fst r), TaskOver e)" for e
    using same_tables_trans [OF r(1) start_instance_frame(1)] r(2)
    by (intro good_over [OF t]) (simp_all add: start_instance_frame)
  ultimately show ?thesis by (simp add: call_stopping_def split: stop_task.split option.split)
qed

lemma good_call_turn:
  assumes ok: "tables_ok n (rs_reg s)"
  shows "good_turn n (CallLock sid call) s (call_turn env sid call i s)"
proof (cases "ti_outcome i = Done \<and> od_get (rg_sessions (rs_reg s)) sid \<noteq> None")
  case False
  then show ?thesis using good_idle [OF ok]
    by (auto simp: call_turn_def require_session_def split: outcome.split option.split)
next
  case True
  then obtain ob where ob: "od_get (rg_sessions (rs_reg s)) sid = Some ob" by blast
  obtain rid g where rf: "runtime_for (re_keeps env) sid ob (rs_reg s) = (rid, g)" by fastforce
  let ?s1 = "s\<lparr>rs_reg := g\<rparr>"
  have t: "turn_ok n (CallLock sid call) (rs_reg s) (TaskOver None) (rs_reg ?s1)"
    using turn_touch [OF ok _ _ ob rf] by simp
  have stop: "good_turn n (CallLock sid call) s (call_stopping rid b (begin_stop rid (ti_now i) ?s1))" for b
    by (rule good_call_stopping [OF t _ begin_stop_frame]) simp
  have start: "good_turn n (CallLock sid call) s (start_instance rid ?s1, TaskOver None)"
    by (rule good_over [OF t _ start_instance_frame]) simp
  have touch: "good_turn n (CallLock sid call) s (?s1, TaskOver None)" using t by (simp add: good_turn_def)
  show ?thesis
    using True ob rf stop start touch by (cases call) (simp_all add: call_turn_def require_session_def)
qed

lemma good_task_turn:
  assumes ok: "tables_ok n (rs_reg s)" and held: "held_ok (rg_retiring (rs_reg s)) k"
    and turn: "task_turn env k i s = Some r"
  shows "good_turn n k s r"
proof (cases k)
  case (CallStopping rid restart aw)
  then obtain q where q: "resume_stop rid aw i s = Some q" "r = call_stopping rid restart q"
    using turn by (auto simp: task_turn_def split: option.splits)
  have "turn_ok n k (rs_reg s) (TaskOver None) (rs_reg s)"
    using turn_free_id [OF ok, of k "TaskOver None"] CallStopping by simp
  from good_call_stopping [OF this refl] resume_stop_frame [OF q(1)] q(2) show ?thesis by simp
next
  case (AdoptLock sid ob)
  then show ?thesis
    using turn good_idle [OF ok, of k] turn_adopt [OF ok, of k "TaskOver None"]
    by (auto simp: task_turn_def good_turn_def split: outcome.splits)
next
  case (DeleteLock sid)
  then show ?thesis using turn good_delete_turn [OF ok] by (auto simp: task_turn_def)
next
  case (CallLock sid call)
  then show ?thesis using turn good_call_turn [OF ok] by (auto simp: task_turn_def)
qed (use turn good_create_turn [OF ok held, of env i r] good_removal_turn [OF ok held, of env i r]
       good_empty_turn [OF ok, of k env i r] in \<open>simp_all add: task_turn_def\<close>)

subsection \<open>The invariant of the system\<close>

lemma same_inv:
  assumes "reg_inv n s" "same_tables (rs_reg s) (rs_reg s')" "rs_tasks s' = rs_tasks s"
  shows "reg_inv n s'"
proof -
  have "wait_ok (rs_reg s') k = wait_ok (rs_reg s) k" for k using assms(2) by (cases k) (simp_all add: same_tables_def)
  then show ?thesis using assms unfolding reg_inv_def same_tables_def tables_ok_def by simp
qed

lemma spawn_inv:
  assumes inv: "reg_inv n s" and k: "held_id k = None" "wait_ok (rs_reg s) k"
  shows "reg_inv n (spawn k s)"
proof (rule reg_invI)
  have keep: "wait_ok (rs_reg (spawn k s)) l = wait_ok (rs_reg s) l" for l by (cases l) (simp_all add: spawn_def)
  have new: "rs_tasks s (rg_next (rs_reg s)) = None" by (rule reg_fresh [OF inv]) simp
  show "tables_ok n (rs_reg (spawn k s))"
    using reg_tables [OF inv] by (simp add: spawn_def tables_ok_def)
  fix t u l m sid
  show "held_ok (rg_retiring (rs_reg (spawn k s))) l" if "rs_tasks (spawn k s) t = Some l"
    using that reg_held [OF inv, of t l] held_ok_free [OF k(1)] by (auto simp: spawn_def split: if_splits)
  show "wait_ok (rs_reg (spawn k s)) l" if "rs_tasks (spawn k s) t = Some l"
    using that reg_wait [OF inv, of t l] k(2) unfolding keep by (auto simp: spawn_def split: if_splits)
  show "t = u" if "rs_tasks (spawn k s) t = Some l" "rs_tasks (spawn k s) u = Some m" "held_id l = Some sid"
    "held_id m = Some sid"
    using that k reg_unique [OF inv, of t l u m sid] by (auto simp: spawn_def split: if_splits)
  show "rs_tasks (spawn k s) t = None" if "rg_next (rs_reg (spawn k s)) \<le> t"
    using that reg_fresh [OF inv, of t] by (auto simp: spawn_def)
  show "\<exists>t l. rs_tasks (spawn k s) t = Some l \<and> held_id l = Some sid"
    if "od_get (rg_retiring (rs_reg (spawn k s))) sid \<noteq> None"
  proof -
    have "od_get (rg_retiring (rs_reg s)) sid \<noteq> None" using that by (simp add: spawn_def)
    from reg_holder [OF inv this] obtain t l where "rs_tasks s t = Some l" "held_id l = Some sid" by blast
    then show ?thesis using new by (intro exI [of _ t] exI [of _ l]) (auto simp: spawn_def)
  qed
qed

lemma new_object_inv: "reg_inv n s \<Longrightarrow> reg_inv n (new_object d s)"
  by (rule same_inv) (simp_all add: new_object_def same_tables_def)

lemma run_turn_frame:
  "same_tables (rs_reg s) (rs_reg (reg_step env (RunTurn u an) s)) \<and> rs_tasks (reg_step env (RunTurn u an) s) = rs_tasks s"
  by (auto simp: Let_def frame_simps split: option.split run_task.split prod.split)

lemma reg_step_inv: "reg_inv n s \<Longrightarrow> reg_inv n (reg_step env e s)"
proof (cases e)
  case (Turn t i)
  assume inv: "reg_inv n s"
  show ?thesis
  proof (cases "\<exists>k r. rs_tasks s t = Some k \<and> task_turn env k i s = Some r")
    case True
    then obtain k s' k' where k: "rs_tasks s t = Some k" "task_turn env k i s = Some (s', k')" by auto
    from good_task_turn [OF reg_tables [OF inv] reg_held [OF inv k(1)] k(2)]
    have "turn_ok n k (rs_reg s) k' (rs_reg s')" "rs_tasks s' = rs_tasks s" "wait_ok (rs_reg s') k'" by (simp_all add: good_turn_def)
    from turn_inv [OF inv k(1) this] show ?thesis using Turn k by simp
  next
    case False
    then have "reg_step env e s = s" using Turn by (auto split: option.split)
    with inv show ?thesis by simp
  qed
next
  case (RunTurn u an)
  assume inv: "reg_inv n s"
  from same_inv [OF inv] run_turn_frame [of s env u an] show ?thesis using RunTurn by blast
qed (simp_all add: spawn_inv new_object_inv)

lemma initial_sessions:
  "od_ok m \<Longrightarrow> od_ok (fold (\<lambda>(ob, d) m. od_set m (df_session_id d) ob) ps m) \<and>
   length (fold (\<lambda>(ob, d) m. od_set m (df_session_id d) ob) ps m) \<le> length ps + length m"
proof (induction ps arbitrary: m)
  case (Cons p ps)
  have "length (od_set m (df_session_id (snd p)) (fst p)) \<le> Suc (length m)" by (simp add: length_od_set)
  moreover have "od_ok (od_set m (df_session_id (snd p)) (fst p))" using Cons.prems by (rule od_ok_set)
  ultimately show ?case using Cons.IH [of "od_set m (df_session_id (snd p)) (fst p)"] by (simp add: split_beta)
qed simp

lemma initial_reg_inv: "reg_inv (length ds) (initial_reg_system m tokens ds)"
proof -
  have "od_ok (fold (\<lambda>(ob, d) m. od_set m (df_session_id d) ob) (enumerate 0 ds) []) \<and>
      length (fold (\<lambda>(ob, d) m. od_set m (df_session_id d) ob) (enumerate 0 ds) []) \<le> length ds"
    using initial_sessions [of "[]" "enumerate 0 ds"] by simp
  then show ?thesis by (auto simp: reg_inv_def tables_ok_def initial_reg_system_def initial_registry_def)
qed

inductive registry_moves :: "reg_env \<Rightarrow> reg_system \<Rightarrow> reg_system \<Rightarrow> bool" for env where
  moveI: "registry_moves env s (reg_step env e s)"

inductive_cases registry_movesE: "registry_moves env s s'"

abbreviation reg_reachable :: "reg_env \<Rightarrow> nat option \<Rightarrow> pystr set option \<Rightarrow> session_definition list \<Rightarrow> reg_system \<Rightarrow> bool" where
  "reg_reachable env m tokens ds \<equiv> reach (\<lambda>s. s = initial_reg_system m tokens ds) (registry_moves env)"

interpretation registry_system: safe_system "\<lambda>s. s = initial_reg_system m tokens ds" "registry_moves env"
    "reg_inv (length ds)"
  for m tokens ds env
  by standard (auto simp: initial_reg_inv elim!: registry_movesE intro: reg_step_inv)

subsection \<open>Properties\<close>

text \<open>A registry with one session, for concrete runs.\<close>

definition demo :: "bool \<Rightarrow> session_definition" where
  "demo ephemeral =
     \<lparr>df_session_id = [97], df_display_name = [97], df_connector_type = [115], df_connector_config = [],
      df_input_mode = ModeOpen, df_auto_start = False, df_tags = [], df_recording_enabled = None, df_owner = None,
      df_visibility = VisPublic, df_ephemeral = ephemeral\<rparr>"

definition no_store :: reg_env where "no_store = \<lparr>re_has_store = False, re_keeps = (\<lambda>_. False)\<rparr>"

definition go :: "time \<Rightarrow> turn_input" where
  "go now = \<lparr>ti_outcome = Done, ti_now = now, ti_browsers = 0\<rparr>"

lemmas registry_runs =
  demo_def no_store_def go_def initial_reg_system_def initial_registry_def spawn_def task_turn_def call_turn_def
  require_session_def runtime_for_def start_instance_def put_instance_def call_stopping_def begin_stop_def
  resume_stop_def reg_result_def delete_turn_def begin_removal_def remove_locked_def revoke_tunnel_tokens_def
  removal_stopping_def removal_finally_def removal_turn_def release_reservation_def release_mine_def empty_turn_def
  EMPTY_GRACE_S_def new_runtime_def stop_begin_def stop_resume_def stop_task_over_def stop_recorded_def
  stop_discard_def stop_finish_def start_runtime_def

lemma reg_reachable_run: "reg_reachable env m tokens ds (fold (reg_step env) es (initial_reg_system m tokens ds))"
proof (induction es rule: rev_induct)
  case Nil
  then show ?case by (simp add: reach_init)
next
  case (snoc e es)
  from reach_step [OF snoc, OF moveI] show ?case by simp
qed

definition demo_run :: "reg_event list \<Rightarrow> reg_system" where
  "demo_run es = fold (reg_step no_store) es (initial_reg_system (Some 1) None [demo False])"

lemma demo_reachable: "reg_reachable no_store (Some 1) None [demo False] (demo_run es)"
  unfolding demo_run_def by (rule reg_reachable_run)

definition deleting :: "reg_event list" where
  "deleting = [ReqCreate (demo False) 0, ReqDelete [97], Turn 3 (go 0), Turn 2 (go 1)]"

lemma deleting_state:
  "rs_tasks (demo_run deleting) 3 = Some (RemovalRetire [97] (Some 4))"
  "rs_tasks (demo_run deleting) 2 = Some (CreateWait [97] 1 15 4)"
  "od_get (rg_retiring (rs_reg (demo_run deleting))) [97] = Some 4"
  "rg_sessions (rs_reg (demo_run deleting)) = []"
  "rg_set_events (rs_reg (demo_run deleting)) = {}"
  by (simp_all add: demo_run_def deleting_def registry_runs new_object_def create_turn_def reserve_locked_def
      at_limit_def RESERVED_ID_WAIT_S_def eval_nat_numeral Let_def)

text \<open>C11: In every reachable state of the registry an id that is registered is reserved by nobody and no
  coroutine is tearing its last session down or creating another under it; a reserved id is held by
  exactly one coroutine, which is still on its way to give it back; every runtime of the table
  belongs to a registered session; and there are no more sessions than the limit or, if that is
  more, than were configured.\<close>

theorem registry_reservations:
  assumes "reg_reachable env m tokens ds s"
  shows "(od_get (rg_sessions (rs_reg s)) sid \<noteq> None \<longrightarrow>
       od_get (rg_retiring (rs_reg s)) sid = None \<and> (\<forall>t k. rs_tasks s t = Some k \<longrightarrow> held_id k \<noteq> Some sid)) \<and>
    (od_get (rg_retiring (rs_reg s)) sid \<noteq> None \<longleftrightarrow> (\<exists>t k. rs_tasks s t = Some k \<and> held_id k = Some sid)) \<and>
    (\<forall>t u k l. rs_tasks s t = Some k \<longrightarrow> rs_tasks s u = Some l \<longrightarrow> held_id k = Some sid \<longrightarrow> held_id l = Some sid \<longrightarrow>
       t = u) \<and>
    (od_get (rg_runtimes (rs_reg s)) sid \<noteq> None \<longrightarrow> od_get (rg_sessions (rs_reg s)) sid \<noteq> None) \<and>
    (\<forall>n. rg_max_sessions (rs_reg s) = Some n \<longrightarrow> length (rg_sessions (rs_reg s)) \<le> max n (length ds))"
proof -
  have inv: "reg_inv (length ds) s" by (rule registry_system.reach_inv [OF assms])
  have held: "od_get (rg_retiring (rs_reg s)) sid \<noteq> None" if "rs_tasks s t = Some k" "held_id k = Some sid" for t k
    using held_ok_reserved [OF reg_held [OF inv that(1)] that(2)] .
  have free: "od_get (rg_retiring (rs_reg s)) sid = None" if "od_get (rg_sessions (rs_reg s)) sid \<noteq> None"
    using reg_tables [OF inv] that unfolding tables_ok_def by blast
  show ?thesis
  proof (intro conjI impI allI)
    show "od_get (rg_retiring (rs_reg s)) sid \<noteq> None \<longleftrightarrow> (\<exists>t k. rs_tasks s t = Some k \<and> held_id k = Some sid)"
      using held reg_holder [OF inv] by blast
    show "t = u" if "rs_tasks s t = Some k" "rs_tasks s u = Some l" "held_id k = Some sid" "held_id l = Some sid"
      for t u k l using reg_unique [OF inv that] .
    show "held_id k \<noteq> Some sid" if "od_get (rg_sessions (rs_reg s)) sid \<noteq> None" "rs_tasks s t = Some k" for t k
      using free [OF that(1)] held [OF that(2)] by blast
    show "length (rg_sessions (rs_reg s)) \<le> max n (length ds)" if "rg_max_sessions (rs_reg s) = Some n" for n
      using reg_tables [OF inv] that unfolding tables_ok_def by blast
    show "od_get (rg_sessions (rs_reg s)) sid \<noteq> None" if "od_get (rg_runtimes (rs_reg s)) sid \<noteq> None"
      using reg_tables [OF inv] that unfolding tables_ok_def by blast
  qed (rule free)
qed

theorem registry_reservations_witness:
  "(\<exists>t k. rs_tasks (demo_run deleting) t = Some k \<and> held_id k = Some [97]) \<and>
   length (rg_sessions (rs_reg (demo_run deleting))) \<le> 1"
  using registry_reservations [OF demo_reachable, of deleting "[97]"] deleting_state by simp

text \<open>
  The id as its users see it: free, held by a coroutine, or naming a session. A session is left only
  through a teardown, which holds the id; a session never takes the place of another.
\<close>

datatype id_state = IdFree | IdHeld | IdOpen nat

definition id_state :: "registry \<Rightarrow> pystr \<Rightarrow> id_state" where
  "id_state g sid =
     (case od_get (rg_sessions g) sid of
        Some ob \<Rightarrow> IdOpen ob
      | None \<Rightarrow> if od_get (rg_retiring g) sid = None then IdFree else IdHeld)"

inductive id_move :: "id_state \<Rightarrow> id_state \<Rightarrow> bool" where
  move_stay: "id_move a a"
| move_hold: "id_move IdFree IdHeld"
| move_release: "id_move IdHeld IdFree"
| move_register: "id_move IdHeld (IdOpen ob)"
| move_adopt: "id_move IdFree (IdOpen ob)"
| move_remove: "id_move (IdOpen ob) IdHeld"

lemma id_moveI:
  assumes "\<And>ob. a = IdOpen ob \<Longrightarrow> b = IdOpen ob \<or> b = IdHeld"
  shows "id_move a b"
  using assms by (cases a; cases b) (auto intro: id_move.intros)

lemma same_id_state: "same_tables g g' \<Longrightarrow> id_state g' = id_state g"
  by (auto simp: same_tables_def id_state_def fun_eq_iff)

lemma turn_id_move:
  assumes ok: "turn_ok n k g k' g'"
  shows "id_move (id_state g sid) (id_state g' sid)"
proof (rule id_moveI)
  fix ob assume "id_state g sid = IdOpen ob"
  then have "od_get (rg_sessions g) sid = Some ob" by (simp add: id_state_def split: option.splits if_splits)
  from turn_session [OF ok this] turn_tables [OF ok]
  show "id_state g' sid = IdOpen ob \<or> id_state g' sid = IdHeld"
    by (cases "od_get (rg_sessions g') sid") (auto simp: id_state_def tables_ok_def)
qed

lemma spawn_tables: "same_tables (rs_reg s) (rs_reg (spawn k s))"
  by (simp add: spawn_def same_tables_def)

lemma new_object_tables: "same_tables (rs_reg s) (rs_reg (new_object d s))"
  by (simp add: new_object_def same_tables_def)

text \<open>C12: Whatever the registry does, an id moves only from free to held, from held to free or to a session,
  from free to an adopted session, and from a session to held: what is registered is neither
  replaced nor dropped without a teardown that holds the id.\<close>

theorem registry_refines_ids:
  assumes "reg_reachable env m tokens ds s"
  shows "id_move (id_state (rs_reg s) sid) (id_state (rs_reg (reg_step env e s)) sid)"
proof (cases e)
  case (Turn t i)
  have inv: "reg_inv (length ds) s" by (rule registry_system.reach_inv [OF assms])
  show ?thesis
  proof (cases "\<exists>k r. rs_tasks s t = Some k \<and> task_turn env k i s = Some r")
    case True
    then obtain k s' k' where k: "rs_tasks s t = Some k" "task_turn env k i s = Some (s', k')" by auto
    from good_task_turn [OF reg_tables [OF inv] reg_held [OF inv k(1)] k(2)]
    have "turn_ok (length ds) k (rs_reg s) k' (rs_reg s')" by (simp add: good_turn_def)
    from turn_id_move [OF this] show ?thesis using Turn k by simp
  next
    case False
    then have "reg_step env e s = s" using Turn by (auto split: option.split)
    then show ?thesis by (simp add: move_stay)
  qed
next
  case (RunTurn u an)
  then show ?thesis using same_id_state [of "rs_reg s"] run_turn_frame [of s env u an] by (metis move_stay)
qed (auto simp: same_id_state [OF spawn_tables] same_id_state [OF new_object_tables] intro: move_stay)

theorem registry_refines_ids_witness:
  "id_move (id_state (rs_reg (demo_run [ReqDelete [97]])) [97]) (id_state (rs_reg (demo_run [ReqDelete [97], Turn 1 (go 0)])) [97])"
  using registry_refines_ids [OF demo_reachable [of "[ReqDelete [97]]"], where sid = "[97]" and e = "Turn 1 (go 0)"]
  by (simp add: demo_run_def)

text \<open>How many turns a teardown has left, at most.\<close>

fun stop_left :: "stop_await \<Rightarrow> nat" where
  "stop_left (StopTask t) = 4"
| "stop_left (StopLogger f) = 3"
| "stop_left (StopScreen f) = 2"
| "stop_left (StopConnector f) = 1"

fun removal_left :: "reg_task \<Rightarrow> nat" where
  "removal_left (RemovalStop sid rid aw) = 2 + stop_left aw"
| "removal_left (RemovalEnd sid ev) = 2"
| "removal_left (RemovalRetire sid ev) = 1"
| "removal_left _ = 0"

lemma stop_resume_less:
  "stop_resume result aw out now rt = Some (rt', StopLive bw) \<Longrightarrow> stop_left bw < stop_left aw"
  by (cases aw)
     (auto simp: stop_resume_def stop_task_over_def stop_recorded_def stop_discard_def stop_finish_def Let_def
       split: option.splits outcome.splits exn.splits if_splits)

lemma resume_stop_less: "resume_stop rid aw i s = Some (s', StopLive bw) \<Longrightarrow> stop_left bw < stop_left aw"
  by (auto simp: resume_stop_def split: option.splits dest: stop_resume_less)

lemma resume_stop_waits:
  "resume_stop rid aw i s = None \<Longrightarrow> \<exists>u. aw = StopTask u \<and> reg_result s u = None"
  by (cases aw) (auto simp: resume_stop_def stop_resume_def Let_def split: option.splits prod.splits)

lemma removal_turn_less:
  assumes "removal_turn env k i s = Some (s', k')" "0 < removal_left k"
  shows "removal_left k' < removal_left k \<and> (0 < removal_left k' \<or> (\<exists>e. k' = TaskOver e))"
proof (cases k)
  case (RemovalStop sid rid aw)
  then obtain q where q: "resume_stop rid aw i s = Some q" "(s', k') = removal_stopping env sid rid q"
    using assms by (auto simp: removal_turn_def split: option.splits)
  then show ?thesis
    using RemovalStop resume_stop_less [of rid aw i s "fst q"]
    by (cases "snd q"; cases q; cases aw) (auto simp: removal_stopping_def removal_finally_def Let_def)
qed (use assms in \<open>auto simp: removal_turn_def split: outcome.splits\<close>)

lemma removal_turn_of:
  "0 < removal_left k \<Longrightarrow> task_turn env k i s = removal_turn env k i s"
  by (cases k) (simp_all add: task_turn_def)

lemma removal_goes_on:
  assumes "0 < removal_left k" "\<And>sid rid u. k = RemovalStop sid rid (StopTask u) \<Longrightarrow> reg_result s u \<noteq> None"
  shows "\<exists>r. removal_turn env k i s = Some r"
proof (cases k)
  case (RemovalStop sid rid aw)
  have "\<exists>q. resume_stop rid aw i s = Some q"
  proof (rule ccontr)
    assume "\<nexists>q. resume_stop rid aw i s = Some q"
    then have "resume_stop rid aw i s = None" by (cases "resume_stop rid aw i s") auto
    from resume_stop_waits [OF this] assms(2) RemovalStop show False by blast
  qed
  then show ?thesis using RemovalStop by (auto simp: removal_turn_def)
qed (use assms in \<open>simp_all add: removal_turn_def\<close>)

lemma other_task:
  assumes "reg_inv n s" "rs_tasks s t = Some k" "\<And>i. e \<noteq> Turn t i"
  shows "rs_tasks (reg_step env e s) t = Some k"
proof (cases e)
  case (Turn u i)
  then have u: "u \<noteq> t" using assms(3) by blast
  show ?thesis
  proof (cases "\<exists>l r. rs_tasks s u = Some l \<and> task_turn env l i s = Some r")
    case True
    then obtain l s' l' where l: "rs_tasks s u = Some l" "task_turn env l i s = Some (s', l')" by auto
    from good_task_turn [OF reg_tables [OF assms(1)] reg_held [OF assms(1) l(1)] l(2)]
    have "rs_tasks s' = rs_tasks s" by (simp add: good_turn_def)
    then show ?thesis using Turn l u assms(2) by simp
  next
    case False
    then have "reg_step env e s = s" using Turn by (auto split: option.split)
    then show ?thesis using assms(2) by simp
  qed
next
  case (RunTurn u an)
  then show ?thesis using run_turn_frame [of s env u an] assms(2) by simp
qed (use assms(2) reg_fresh [OF assms(1), of t] in \<open>auto simp: spawn_def new_object_def not_le [symmetric]\<close>)

text \<open>C13: A teardown ends: each of its turns, whatever its awaits come back with and a failure or
  cancellation included, brings it nearer to its end, other coroutines do not touch it, only the
  wait for the run loop of the runtime can hold it up, and when it is over its id is free again.\<close>

theorem removal_terminates:
  assumes "reg_reachable env m tokens ds s" "rs_tasks s t = Some k" "0 < removal_left k" "held_id k = Some sid"
    and "\<And>rid u. k = RemovalStop sid rid (StopTask u) \<Longrightarrow> reg_result s u \<noteq> None"
  shows "(\<exists>k'. rs_tasks (reg_step env (Turn t i) s) t = Some k' \<and> removal_left k' < removal_left k \<and>
      (removal_left k' = 0 \<longrightarrow> od_get (rg_retiring (rs_reg (reg_step env (Turn t i) s))) sid = None)) \<and>
    (\<forall>e. (\<forall>j. e \<noteq> Turn t j) \<longrightarrow> rs_tasks (reg_step env e s) t = Some k)"
proof -
  have inv: "reg_inv (length ds) s" by (rule registry_system.reach_inv [OF assms(1)])
  have "\<exists>r. removal_turn env k i s = Some r"
    by (rule removal_goes_on [OF assms(3)]) (use assms(4,5) in auto)
  then obtain s' k' where turn: "removal_turn env k i s = Some (s', k')" by auto
  have tt: "task_turn env k i s = Some (s', k')" using removal_turn_of [OF assms(3)] turn by simp
  from good_task_turn [OF reg_tables [OF inv] reg_held [OF inv assms(2)] tt]
  have ok: "turn_ok (length ds) k (rs_reg s) k' (rs_reg s')" by (simp add: good_turn_def)
  have less: "removal_left k' < removal_left k" "0 < removal_left k' \<or> (\<exists>e. k' = TaskOver e)"
    using removal_turn_less [OF turn assms(3)] by simp_all
  have "held_id k' \<noteq> Some sid" if "removal_left k' = 0"
    using that less(2) by auto
  then have "od_get (rg_retiring (rs_reg s')) sid = None" if "removal_left k' = 0"
    using turn_free [OF ok assms(4)] that by blast
  then show ?thesis using assms(2) tt less(1) other_task [OF inv assms(2)] by auto
qed

theorem removal_terminates_witness:
  "od_get (rg_retiring (rs_reg (reg_step no_store (Turn 3 (go 2)) (demo_run deleting)))) [97] = None"
  using removal_terminates [OF demo_reachable deleting_state(1), where sid = "[97]" and i = "go 2"] by auto

text \<open>C14: No creation waits for a reservation that has been given back: the event it waits for is set, and
  it goes on, or the reservation it found is still held, by a coroutine on its way to free it.\<close>

theorem no_lost_wakeup:
  assumes "reg_reachable env m tokens ds s" "rs_tasks s t = Some (CreateWait sid ob deadline p)"
  shows "rs_tasks (reg_step env (Turn t \<lparr>ti_outcome = Done, ti_now = now, ti_browsers = b\<rparr>) s) t =
      Some (CreateReserve sid ob deadline) \<or>
    od_get (rg_retiring (rs_reg s)) sid = Some p \<and> (\<exists>u k. rs_tasks s u = Some k \<and> held_id k = Some sid)"
proof -
  have inv: "reg_inv (length ds) s" by (rule registry_system.reach_inv [OF assms(1)])
  show ?thesis
  proof (cases "p \<in> rg_set_events (rs_reg s)")
    case True
    then show ?thesis using assms(2) by (simp add: task_turn_def create_turn_def)
  next
    case False
    then have "od_get (rg_retiring (rs_reg s)) sid = Some p" using reg_wait [OF inv assms(2)] by simp
    then show ?thesis using reg_holder [OF inv, of sid] by simp
  qed
qed

theorem no_lost_wakeup_witness:
  "rs_tasks (reg_step no_store (Turn 2 \<lparr>ti_outcome = Done, ti_now = 2, ti_browsers = 0\<rparr>) (demo_run deleting)) 2 =
      Some (CreateReserve [97] 1 15) \<or>
    od_get (rg_retiring (rs_reg (demo_run deleting))) [97] = Some 4 \<and>
    (\<exists>u k. rs_tasks (demo_run deleting) u = Some k \<and> held_id k = Some [97])"
  by (rule no_lost_wakeup [OF demo_reachable deleting_state(2)])

subsection \<open>Concrete runs\<close>

text \<open>
  A restart that is waiting for the run loop to end when the session is deleted: the deletion takes
  the session out, stops the runtime, retires the recording and frees the id, and then the restart
  starts the removed runtime again. It runs on, and neither the registry nor its shutdown knows it.
\<close>

definition restart_delete :: "reg_event list" where
  "restart_delete =
     [ReqCall [97] CallStart, Turn 1 (go 0), ReqCall [97] CallRestart, Turn 4 (go 1), ReqDelete [97], Turn 5 (go 2),
      RunTurn 3 (failing\<lparr>an_outcome := Raised CancelledError\<rparr>), Turn 5 (go 3), Turn 5 (go 4), Turn 4 (go 5)]"

theorem restart_revives_removed:
  "let s = fold (reg_step no_store) restart_delete (initial_reg_system None None [demo False])
   in rg_sessions (rs_reg s) = [] \<and> rg_runtimes (rs_reg s) = [] \<and> rg_retiring (rs_reg s) = [] \<and>
      rs_tasks s 4 = Some (TaskOver None) \<and> rs_tasks s 5 = Some (TaskOver None) \<and>
      rs_runs s 7 = Some (2, RunLive 0 RunHead)"
  by (simp add: restart_delete_def registry_runs run_turns failing_def eval_nat_numeral Let_def)

text \<open>
  The grace period is counted from the first time the session was empty: one that a browser came
  back to and left again is removed while the second period still runs.
\<close>

definition empty_twice :: "reg_event list" where
  "empty_twice =
     [ReqEmpty [97], Turn 1 (go 0), ReqEmpty [97], Turn 2 (go (49 / 10)), Turn 1 (go 5), Turn 1 (go 5), Turn 1 (go 5)]"

theorem grace_not_renewed:
  "let s = fold (reg_step no_store) empty_twice (initial_reg_system None None [demo True])
   in rg_sessions (rs_reg s) = [] \<and> rs_tasks s 2 = Some (EmptySleep [97] 0 (49 / 10 + EMPTY_GRACE_S))"
  by (simp add: empty_twice_def registry_runs eval_nat_numeral Let_def)

end
