(* ===== verification/SessionRequests.thy ===== *)
theory SessionRequests
  imports RegistryProps Authz
begin

text \<open>
  The requests behind the registry's operations (\<open>server/registry.py\<close>): the payload of a creation
  and the definition made of it, with the validators of \<open>SessionDefinition\<close>
  (\<open>server/config_schema_session.py\<close>), and the update of a definition. \<open>str()\<close> of a value that is no
  string, the word characters of the regular expression engine, the registered connector types, the
  egress guard and pydantic's merge of an update are parameters.
\<close>

subsection \<open>The payload of a creation\<close>

definition str_of_json :: "(json \<Rightarrow> pystr) \<Rightarrow> json \<Rightarrow> pystr" where
  "str_of_json py_str j = (case j of JStr s \<Rightarrow> s | _ \<Rightarrow> py_str j)"

definition MAX_SESSION_ID_BYTES :: nat where "MAX_SESSION_ID_BYTES = 200"

text \<open>
  \<open>re.match(r"^[\w\-]+$", s)\<close>: at least one word character or hyphen and nothing else, except that
  \<open>$\<close> also matches before a final newline.
\<close>

definition id_chars :: "(cp \<Rightarrow> bool) \<Rightarrow> pystr \<Rightarrow> bool" where
  "id_chars word s \<longleftrightarrow> s \<noteq> [] \<and> (\<forall>c \<in> set s. word c \<or> c = 45)"

definition id_match :: "(cp \<Rightarrow> bool) \<Rightarrow> pystr \<Rightarrow> bool" where
  "id_match word s \<longleftrightarrow> id_chars word s \<or> (s \<noteq> [] \<and> last s = 10 \<and> id_chars word (butlast s))"

datatype request_error =
    KeyMissing
  | InvalidSessionId
  | SessionIdTooLong
  | InvalidConnectorType
  | InvalidInputMode
  | InvalidVisibility
  | BadConnectorConfig
  | BadTags
  | EgressBlocked
  | ValidationFailed
  | ConfigRejected exn
  | UnknownId

record request_env =
  rq_str :: "json \<Rightarrow> pystr"
  rq_word :: "cp \<Rightarrow> bool"
  rq_known_types :: "pystr set"
  rq_default_visibility :: visibility
  rq_egress_allowed :: "pystr \<Rightarrow> jdict \<Rightarrow> bool"

definition text_or :: "request_env \<Rightarrow> jdict \<Rightarrow> pystr \<Rightarrow> pystr \<Rightarrow> pystr" where
  "text_or env payload key dflt =
     (case od_get payload key of None \<Rightarrow> dflt | Some v \<Rightarrow> str_of_json (rq_str env) v)"

definition visibility_of :: "pystr \<Rightarrow> visibility option" where
  "visibility_of s =
     (if s = pystr_of ''public'' then Some VisPublic
      else if s = pystr_of ''operator'' then Some VisOperator
      else if s = pystr_of ''private'' then Some VisPrivate
      else None)"

definition visibility_text :: "visibility \<Rightarrow> pystr" where
  "visibility_text v =
     (case v of VisPublic \<Rightarrow> pystr_of ''public'' | VisOperator \<Rightarrow> pystr_of ''operator'' | VisPrivate \<Rightarrow> pystr_of ''private'')"

definition input_mode_of :: "pystr \<Rightarrow> input_mode option" where
  "input_mode_of s =
     (if s = pystr_of ''open'' then Some ModeOpen else if s = pystr_of ''hijack'' then Some ModeHijack else None)"

definition validate_create_payload :: "request_env \<Rightarrow> jdict \<Rightarrow> request_error + (pystr \<times> pystr \<times> input_mode \<times> visibility)" where
  "validate_create_payload env payload =
     (case od_get payload (pystr_of ''session_id'') of
        None \<Rightarrow> Inl KeyMissing
      | Some v \<Rightarrow>
          let session_id = str_of_json (rq_str env) v;
              connector_type = text_or env payload (pystr_of ''connector_type'') (pystr_of ''shell'')
          in if \<not> id_match (rq_word env) session_id then Inl InvalidSessionId
             else if MAX_SESSION_ID_BYTES < length (utf8_bytes session_id) then Inl SessionIdTooLong
             else if connector_type \<notin> rq_known_types env then Inl InvalidConnectorType
             else case input_mode_of (text_or env payload (pystr_of ''input_mode'') (pystr_of ''open'')) of
                    None \<Rightarrow> Inl InvalidInputMode
                  | Some mode \<Rightarrow>
                      (case visibility_of (text_or env payload (pystr_of ''visibility'')
                              (visibility_text (rq_default_visibility env))) of
                         None \<Rightarrow> Inl InvalidVisibility
                       | Some vis \<Rightarrow> Inr (session_id, connector_type, mode, vis)))"

text \<open>
  The validators of \<open>SessionDefinition\<close> on what \<open>create_session\<close> passes: the id is stripped and
  checked again, the connector type is stripped and an empty one is \<open>shell\<close>, an empty display name
  is the id. \<open>SERVER_BUILTIN_CONNECTOR_TYPES\<close> are known besides the registered ones.
\<close>

definition BUILTIN_CONNECTOR_TYPES :: "pystr set" where
  "BUILTIN_CONNECTOR_TYPES =
     {pystr_of ''shell'', pystr_of ''ssh'', pystr_of ''telnet'', pystr_of ''websocket'', pystr_of ''ushell''}"

text \<open>
  \<open>dict(v)\<close> of a value of the payload: a list is taken as pairs, each a sequence of two. The keys of a
  JSON object are strings; a pair with another key is refused here.
\<close>

definition pair_of :: "json \<Rightarrow> (pystr \<times> json) option" where
  "pair_of x =
     (case x of
        JArr ys \<Rightarrow> (case ys of [k, v] \<Rightarrow> (case k of JStr t \<Rightarrow> Some (t, v) | _ \<Rightarrow> None) | _ \<Rightarrow> None)
      | JStr t \<Rightarrow> (case t of [a, b] \<Rightarrow> Some ([a], JStr [b]) | _ \<Rightarrow> None)
      | JObj d \<Rightarrow> (case d of [p, q] \<Rightarrow> Some (fst p, JStr (fst q)) | _ \<Rightarrow> None)
      | _ \<Rightarrow> None)"

fun dict_of_pairs :: "json list \<Rightarrow> jdict \<Rightarrow> jdict option" where
  "dict_of_pairs [] d = Some d"
| "dict_of_pairs (x # xs) d =
     (case pair_of x of None \<Rightarrow> None | Some (k, v) \<Rightarrow> dict_of_pairs xs (od_set d k v))"

fun dict_of_json :: "json \<Rightarrow> jdict option" where
  "dict_of_json (JObj d) = Some d"
| "dict_of_json (JArr xs) = dict_of_pairs xs []"
| "dict_of_json (JStr []) = Some []"
| "dict_of_json _ = None"

fun tags_of_json :: "(json \<Rightarrow> pystr) \<Rightarrow> json \<Rightarrow> pystr list option" where
  "tags_of_json py_str (JArr xs) = Some (map (str_of_json py_str) xs)"
| "tags_of_json py_str (JStr s) = Some (map (\<lambda>c. [c]) s)"
| "tags_of_json py_str (JObj d) = Some (map fst d)"
| "tags_of_json py_str _ = None"

definition flag :: "jdict \<Rightarrow> pystr \<Rightarrow> bool" where
  "flag payload key = (case od_get payload key of None \<Rightarrow> False | Some v \<Rightarrow> truthy v)"

definition checked_id :: "request_env \<Rightarrow> pystr \<Rightarrow> pystr option" where
  "checked_id env value =
     (let s = py_strip value
      in if s = [] then None
         else if \<not> id_match (rq_word env) s then None
         else if MAX_SESSION_ID_BYTES < length (utf8_bytes s) then None
         else Some s)"

definition checked_type :: "request_env \<Rightarrow> pystr \<Rightarrow> pystr option" where
  "checked_type env value =
     (let t = (if py_strip value = [] then pystr_of ''shell'' else py_strip value)
      in if rq_known_types env \<noteq> {} \<and> t \<notin> rq_known_types env \<union> BUILTIN_CONNECTOR_TYPES then None else Some t)"

text \<open>
  \<open>create_session\<close> up to the reservation: the definition it will register. \<open>validate_target\<close> is its
  argument \<open>validate_connector_target\<close>.
\<close>

definition create_definition :: "request_env \<Rightarrow> bool \<Rightarrow> jdict \<Rightarrow> request_error + session_definition" where
  "create_definition env validate_target payload =
     (case validate_create_payload env payload of
        Inl e \<Rightarrow> Inl e
      | Inr (session_id, connector_type, mode, vis) \<Rightarrow>
          (case dict_of_json (case od_get payload (pystr_of ''connector_config'') of None \<Rightarrow> JObj [] | Some v \<Rightarrow> v) of
             None \<Rightarrow> Inl BadConnectorConfig
           | Some config \<Rightarrow>
               if validate_target \<and> \<not> rq_egress_allowed env connector_type config then Inl EgressBlocked
               else case tags_of_json (rq_str env) (case od_get payload (pystr_of ''tags'') of None \<Rightarrow> JArr [] | Some v \<Rightarrow> v) of
                      None \<Rightarrow> Inl BadTags
                    | Some tags \<Rightarrow>
                        (case (checked_id env session_id, checked_type env connector_type) of
                           (Some sid, Some ctype) \<Rightarrow>
                             let display = text_or env payload (pystr_of ''display_name'') session_id
                             in Inr \<lparr>df_session_id = sid, df_display_name = (if display = [] then sid else display),
                                     df_connector_type = ctype, df_connector_config = config, df_input_mode = mode,
                                     df_auto_start = flag payload (pystr_of ''auto_start''), df_tags = tags,
                                     df_recording_enabled =
                                       (case od_get payload (pystr_of ''recording_enabled'') of
                                          None \<Rightarrow> None | Some JNull \<Rightarrow> None | Some v \<Rightarrow> Some (truthy v)),
                                     df_owner =
                                       (case od_get payload (pystr_of ''owner'') of
                                          None \<Rightarrow> None | Some JNull \<Rightarrow> None | Some v \<Rightarrow> Some (str_of_json (rq_str env) v)),
                                     df_visibility = vis, df_ephemeral = flag payload (pystr_of ''ephemeral'')\<rparr>
                         | _ \<Rightarrow> Inl ValidationFailed)))"

subsection \<open>What is created\<close>

lemma dropWhile_none: "(\<And>c. c \<in> set s \<Longrightarrow> \<not> P c) \<Longrightarrow> dropWhile P s = s"
  by (cases s) auto

lemma space_newline: "py_space 10" "\<not> py_space 45"
  by (simp_all add: py_space_def)

lemma strip_none: "(\<And>c. c \<in> set s \<Longrightarrow> \<not> py_space c) \<Longrightarrow> py_strip s = s"
  using dropWhile_none [of s py_space] dropWhile_none [of "rev s" py_space] by (simp add: py_strip_def)

lemma strip_newline:
  assumes "\<And>c. c \<in> set s \<Longrightarrow> \<not> py_space c" "s \<noteq> []"
  shows "py_strip (s @ [10]) = py_strip s"
proof -
  have "dropWhile py_space (s @ [10]) = s @ [10]" using assms by (cases s) simp_all
  moreover have "dropWhile py_space s = s" by (rule dropWhile_none [OF assms(1)])
  ultimately show ?thesis by (simp add: py_strip_def space_newline)
qed

lemma strip_id:
  assumes "\<And>c. word c \<Longrightarrow> \<not> py_space c" "id_match word s"
  shows "id_chars word (py_strip s)"
proof -
  have ns: "\<not> py_space c" if "id_chars word w" "c \<in> set w" for w c
    using that assms(1) [of c] space_newline(2) unfolding id_chars_def by blast
  show ?thesis
  proof (cases "id_chars word s")
    case True
    then show ?thesis using strip_none [of s] ns [OF True] by simp
  next
    case False
    then have w: "id_chars word (butlast s)" and l: "s \<noteq> []" "last s = 10"
      using assms(2) by (simp_all add: id_match_def)
    then have "s = butlast s @ [10]" using append_butlast_last_id [OF l(1)] by simp
    moreover have "py_strip (butlast s @ [10]) = py_strip (butlast s)"
      by (rule strip_newline [OF ns [OF w]]) (use w in \<open>simp_all add: id_chars_def\<close>)
    moreover have "py_strip (butlast s) = butlast s" by (rule strip_none [OF ns [OF w]])
    ultimately show ?thesis using w by simp
  qed
qed

lemma checked_id_sound:
  assumes "\<And>c. word c \<Longrightarrow> \<not> py_space c" "checked_id env v = Some s" "word = rq_word env"
  shows "id_chars word s \<and> length (utf8_bytes s) \<le> MAX_SESSION_ID_BYTES"
proof -
  have s: "s = py_strip v" "id_match word s" "\<not> MAX_SESSION_ID_BYTES < length (utf8_bytes s)"
    using assms(2,3) by (auto simp: checked_id_def Let_def split: if_splits)
  have "id_chars word (py_strip s)" by (rule strip_id [OF assms(1) s(2)])
  then show ?thesis using s strip_strip [of v] by simp
qed

text \<open>C19: A definition made from a payload has an id of word characters and hyphens, not empty and of at
  most 200 bytes, whatever the payload's id was (white space around it, a final newline), a
  connector type that is registered or built in, a display name, and, when the target is checked,
  a target the egress guard let pass under the type that was asked for.\<close>

theorem create_definition_valid:
  assumes "\<And>c. rq_word env c \<Longrightarrow> \<not> py_space c" "create_definition env target payload = Inr d"
  shows "id_chars (rq_word env) (df_session_id d) \<and> length (utf8_bytes (df_session_id d)) \<le> MAX_SESSION_ID_BYTES \<and>
    df_connector_type d \<in> rq_known_types env \<union> BUILTIN_CONNECTOR_TYPES \<and> df_display_name d \<noteq> [] \<and>
    (target \<longrightarrow> rq_egress_allowed env (text_or env payload (pystr_of ''connector_type'') (pystr_of ''shell''))
       (df_connector_config d))"
proof -
  obtain session_id connector_type mode vis where v: "validate_create_payload env payload = Inr (session_id, connector_type, mode, vis)"
    using assms(2) by (auto simp: create_definition_def split: sum.splits)
  then have ct: "connector_type = text_or env payload (pystr_of ''connector_type'') (pystr_of ''shell'')"
    "connector_type \<in> rq_known_types env"
    by (auto simp: validate_create_payload_def Let_def split: option.splits if_splits)
  have id: "checked_id env session_id = Some (df_session_id d)"
    and ty: "checked_type env connector_type = Some (df_connector_type d)"
    and eg: "target \<longrightarrow> rq_egress_allowed env connector_type (df_connector_config d)"
    and dn: "df_display_name d \<noteq> [] \<or> df_display_name d = df_session_id d"
    using assms(2) v by (auto simp: create_definition_def Let_def split: option.splits if_splits)
  have s: "id_chars (rq_word env) (df_session_id d)" "length (utf8_bytes (df_session_id d)) \<le> MAX_SESSION_ID_BYTES"
    using checked_id_sound [OF assms(1) id refl] by simp_all
  have "df_connector_type d \<in> rq_known_types env \<union> BUILTIN_CONNECTOR_TYPES"
    using ty ct(2) by (auto simp: checked_type_def Let_def split: if_splits)
  moreover have "df_display_name d \<noteq> []" using dn s(1) by (auto simp: id_chars_def)
  ultimately show ?thesis using s eg ct(1) by simp
qed

definition demo_env :: request_env where
  "demo_env =
     \<lparr>rq_str = (\<lambda>_. [63]), rq_word = (\<lambda>c. 97 \<le> c \<and> c \<le> 122), rq_known_types = {pystr_of ''shell''},
      rq_default_visibility = VisPrivate, rq_egress_allowed = (\<lambda>_ _. True)\<rparr>"

theorem create_definition_valid_witness:
  "(case create_definition demo_env True [(pystr_of ''session_id'', JStr (pystr_of ''ab'' @ [10]))] of
      Inl _ \<Rightarrow> False
    | Inr d \<Rightarrow> df_session_id d = pystr_of ''ab'' \<and> df_visibility d = VisPrivate \<and>
              length (utf8_bytes (df_session_id d)) \<le> MAX_SESSION_ID_BYTES)"
proof -
  let ?p = "[(pystr_of ''session_id'', JStr (pystr_of ''ab'' @ [10]))]"
  obtain d where d: "create_definition demo_env True ?p = Inr d" "df_session_id d = pystr_of ''ab''"
    "df_visibility d = VisPrivate"
    by (simp add: create_definition_def validate_create_payload_def demo_env_def pystr_of_def str_of_json_def
        id_match_def id_chars_def MAX_SESSION_ID_BYTES_def utf8_char_def text_or_def input_mode_of_def
        visibility_of_def visibility_text_def checked_id_def checked_type_def py_strip_def py_space_def flag_def)
  have "\<And>c. rq_word demo_env c \<Longrightarrow> \<not> py_space c" by (auto simp: demo_env_def py_space_def)
  from create_definition_valid [OF this d(1)] d show ?thesis by simp
qed

subsection \<open>The update of a definition\<close>

definition MUTABLE_SESSION_FIELDS :: "pystr set" where
  "MUTABLE_SESSION_FIELDS =
     {pystr_of ''display_name'', pystr_of ''input_mode'', pystr_of ''visibility'', pystr_of ''auto_start'',
      pystr_of ''tags'', pystr_of ''recording_enabled'', pystr_of ''connector_config''}"

definition wanted_updates :: "bool \<Rightarrow> jdict \<Rightarrow> jdict" where
  "wanted_updates allow_owner_change payload =
     (let updates = filter (\<lambda>(k, v). k \<in> MUTABLE_SESSION_FIELDS) payload
      in case od_get payload (pystr_of ''owner'') of
           Some v \<Rightarrow> if allow_owner_change then od_set updates (pystr_of ''owner'') v else updates
         | None \<Rightarrow> updates)"

text \<open>\<open>setattr(session, field, getattr(validated, field))\<close>; \<open>input_mode\<close> is left to \<open>set_mode\<close>.\<close>

definition set_field :: "session_definition \<Rightarrow> pystr \<Rightarrow> session_definition \<Rightarrow> session_definition" where
  "set_field validated field d =
     (if field = pystr_of ''display_name'' then d\<lparr>df_display_name := df_display_name validated\<rparr>
      else if field = pystr_of ''visibility'' then d\<lparr>df_visibility := df_visibility validated\<rparr>
      else if field = pystr_of ''auto_start'' then d\<lparr>df_auto_start := df_auto_start validated\<rparr>
      else if field = pystr_of ''tags'' then d\<lparr>df_tags := df_tags validated\<rparr>
      else if field = pystr_of ''recording_enabled'' then d\<lparr>df_recording_enabled := df_recording_enabled validated\<rparr>
      else if field = pystr_of ''connector_config'' then d\<lparr>df_connector_config := df_connector_config validated\<rparr>
      else if field = pystr_of ''owner'' then d\<lparr>df_owner := df_owner validated\<rparr>
      else d)"

text \<open>
  The section of \<open>update_session\<close> under the lock, on the session \<open>d\<close> with its runtime \<open>rt\<close>:
  \<open>validate\<close> is \<open>SessionDefinition.model_validate\<close> of the session's fields with the updates over them,
  \<open>offer\<close> what the running connector says of a configuration. The answer is the mode to set next.
\<close>

definition update_locked ::
  "request_env \<Rightarrow> (session_definition \<Rightarrow> jdict \<Rightarrow> session_definition option) \<Rightarrow> (jdict \<Rightarrow> exn + bool) \<Rightarrow> bool \<Rightarrow>
   jdict \<Rightarrow> session_definition \<Rightarrow> hosted_runtime \<Rightarrow>
   (request_error + input_mode option) \<times> session_definition \<times> hosted_runtime" where
  "update_locked env validate offer allow_owner_change payload d rt =
     (let updates = wanted_updates allow_owner_change payload
      in if updates = [] then (Inr None, d, rt)
         else case validate d updates of
                None \<Rightarrow> (Inl ValidationFailed, d, rt)
              | Some validated \<Rightarrow>
                  if \<not> rq_egress_allowed env (df_connector_type d) (df_connector_config validated)
                  then (Inl EgressBlocked, d, rt)
                  else case (if od_get updates (pystr_of ''connector_config'') = None then Inr rt
                             else reconfigure (offer (df_connector_config validated)) rt) of
                         Inl e \<Rightarrow> (Inl (ConfigRejected e), d, rt)
                       | Inr rt' \<Rightarrow>
                           (Inr (if od_get updates (pystr_of ''input_mode'') = None then None
                                 else Some (df_input_mode validated)),
                            fold (set_field validated) (filter (\<lambda>f. f \<noteq> pystr_of ''input_mode'') (map fst updates)) d,
                            rt'))"

lemma set_fields_fixed:
  "df_session_id (fold (set_field v) fs d) = df_session_id d \<and>
   df_connector_type (fold (set_field v) fs d) = df_connector_type d \<and>
   df_ephemeral (fold (set_field v) fs d) = df_ephemeral d \<and>
   df_input_mode (fold (set_field v) fs d) = df_input_mode d"
  by (induction fs arbitrary: d) (simp_all add: set_field_def)

lemma set_fields_owner: "pystr_of ''owner'' \<notin> set fs \<Longrightarrow> df_owner (fold (set_field v) fs d) = df_owner d"
  by (induction fs arbitrary: d) (auto simp: set_field_def)

lemma set_fields_config:
  "df_connector_config (fold (set_field v) fs d) =
     (if pystr_of ''connector_config'' \<in> set fs then df_connector_config v else df_connector_config d)"
  by (induction fs arbitrary: d) (auto simp: set_field_def pystr_of_def)

lemma owner_not_wanted:
  "\<not> allow \<or> od_get payload (pystr_of ''owner'') = None \<Longrightarrow>
   pystr_of ''owner'' \<notin> fst ` set (wanted_updates allow payload)"
  by (auto simp: wanted_updates_def MUTABLE_SESSION_FIELDS_def pystr_of_def Let_def split: option.splits)

text \<open>An update, whatever its payload, leaves the id, the connector type, the ephemeral flag and (until
  \<open>set_mode\<close>) the input mode of a session as they were, its owner unless the caller may change it
  and sent one, and everything when it is refused; and a connector configuration it commits was let
  pass by the egress guard for the session's own type.\<close>

theorem update_confined:
  fixes d :: session_definition
  assumes "update_locked env validate offer allow payload d rt = (answer, d', rt')"
  shows "df_session_id d' = df_session_id d \<and> df_connector_type d' = df_connector_type d \<and>
    df_ephemeral d' = df_ephemeral d \<and> df_input_mode d' = df_input_mode d \<and>
    (\<not> allow \<or> od_get payload (pystr_of ''owner'') = None \<longrightarrow> df_owner d' = df_owner d) \<and>
    (isl answer \<longrightarrow> d' = d \<and> rt' = rt) \<and>
    (df_connector_config d' \<noteq> df_connector_config d \<longrightarrow>
       rq_egress_allowed env (df_connector_type d) (df_connector_config d'))"
proof (cases "d' = d")
  case True
  then show ?thesis
    using assms by (auto simp: update_locked_def Let_def split: if_splits option.splits sum.splits)
next
  case False
  let ?u = "wanted_updates allow payload"
  obtain v where v: "d' = fold (set_field v) (filter (\<lambda>f. f \<noteq> pystr_of ''input_mode'') (map fst ?u)) d"
    "rq_egress_allowed env (df_connector_type d) (df_connector_config v)" "\<not> isl answer"
    using assms False by (auto simp: update_locked_def Let_def split: if_splits option.splits sum.splits)
  have "df_owner d' = df_owner d" if "\<not> allow \<or> od_get payload (pystr_of ''owner'') = None"
    unfolding v(1) using owner_not_wanted [OF that] by (intro set_fields_owner) auto
  then show ?thesis using v(2,3) set_fields_fixed unfolding v(1) by (auto simp: set_fields_config)
qed

theorem update_confined_witness:
  "df_owner (fst (snd (update_locked demo_env (\<lambda>d u. Some (d\<lparr>df_owner := Some [98], df_tags := [[99]]\<rparr>)) (\<lambda>_. Inr True) False
      [(pystr_of ''owner'', JStr [98]), (pystr_of ''tags'', JArr [JStr [99]])] (demo False) (new_runtime 0 False)))) = None"
proof -
  let ?r = "update_locked demo_env (\<lambda>d u. Some (d\<lparr>df_owner := Some [98], df_tags := [[99]]\<rparr>)) (\<lambda>_. Inr True) False
      [(pystr_of ''owner'', JStr [98]), (pystr_of ''tags'', JArr [JStr [99]])] (demo False) (new_runtime 0 False)"
  have "?r = (fst ?r, fst (snd ?r), snd (snd ?r))" by simp
  from update_confined [OF this] show ?thesis by (simp add: demo_def)
qed

end
