(* ===== verification/ApiKeys.thy ===== *)
theory ApiKeys
  imports Authz
begin

text \<open>
  API keys: the store (\<open>server/api_keys.py\<close>), the routes that manage it (\<open>server/routes/api_keys.py\<close>)
  and the principal a key stands for (\<open>_principal_from_api_key\<close> of \<open>server/auth.py\<close>). SHA-256 is the
  parameter \<open>H\<close>, the raw keys \<open>secrets.token_urlsafe\<close> draws are arguments, and the clock readings of
  one call of \<open>validate\<close> are taken to be one. Header text and ids are Latin-1 (\<open>string\<close>), text of a JSON
  body is \<open>pystr\<close>.
\<close>

subsection \<open>Tenant ids\<close>

definition py_space_char :: "char \<Rightarrow> bool" where
  "py_space_char c = py_space (of_char c)"

definition str_strip :: "string \<Rightarrow> string" where
  "str_strip s = rev (dropWhile py_space_char (rev (dropWhile py_space_char s)))"

definition ascii_alnum :: "char \<Rightarrow> bool" where
  "ascii_alnum c \<longleftrightarrow>
     (let n = of_char c :: nat in 65 \<le> n \<and> n \<le> 90 \<or> 97 \<le> n \<and> n \<le> 122 \<or> 48 \<le> n \<and> n \<le> 57)"

definition tenant_pattern :: "string \<Rightarrow> bool" where
  "tenant_pattern s =
     (case s of
        [] \<Rightarrow> False
      | c # cs \<Rightarrow> ascii_alnum c \<and> length cs \<le> 127 \<and> list_all (\<lambda>x. ascii_alnum x \<or> x \<in> set ''_.-'') cs)"

definition canonical_tenant_id :: "string option \<Rightarrow> string option" where
  "canonical_tenant_id tenant_id =
     (let t = str_strip (case tenant_id of None \<Rightarrow> '''' | Some s \<Rightarrow> s)
      in if t = '''' then None else if tenant_pattern t then Some t else None)"

subsection \<open>The store\<close>

record api_key =
  ak_key_id :: string
  ak_key_hash :: string
  ak_name :: pystr
  ak_tenant_id :: string
  ak_scopes :: "string set"
  ak_created_at :: time
  ak_expires_at :: "time option"
  ak_last_used_at :: "time option"
  ak_revoked :: bool

type_synonym key_store = "(string \<times> api_key) list"

definition key_id_of :: "(string \<Rightarrow> string) \<Rightarrow> string \<Rightarrow> string" where
  "key_id_of H raw = take 16 (H raw)"

text \<open>The clock is read twice, for the expiry and for \<open>created_at\<close>.\<close>

definition new_key ::
  "(string \<Rightarrow> string) \<Rightarrow> string \<Rightarrow> string \<Rightarrow> pystr \<Rightarrow> string set \<Rightarrow> int option \<Rightarrow> time \<Rightarrow> time \<Rightarrow> api_key" where
  "new_key H raw tenant name scopes expires_in_s t1 t2 =
     \<lparr>ak_key_id = key_id_of H raw, ak_key_hash = H raw, ak_name = name, ak_tenant_id = tenant,
      ak_scopes = scopes, ak_created_at = t2,
      ak_expires_at =
        (case expires_in_s of None \<Rightarrow> None | Some e \<Rightarrow> if e = 0 then None else Some (t1 + real_of_int e)),
      ak_last_used_at = None, ak_revoked = False\<rparr>"

definition create_key ::
  "(string \<Rightarrow> string) \<Rightarrow> string \<Rightarrow> pystr \<Rightarrow> string set \<Rightarrow> int option \<Rightarrow> time \<Rightarrow> time \<Rightarrow> key_store \<Rightarrow>
   (string \<times> api_key) \<times> key_store" where
  "create_key H raw name scopes expires_in_s t1 t2 s =
     (let r = new_key H raw '''' name scopes expires_in_s t1 t2
      in ((raw, r), od_set s (ak_key_id r) r))"

text \<open>\<open>None\<close> is the \<open>ValueError\<close> of a bad tenant. The record is in the store already when the tenant is set.\<close>

definition create_key_for_tenant ::
  "(string \<Rightarrow> string) \<Rightarrow> string \<Rightarrow> string \<Rightarrow> pystr \<Rightarrow> string set \<Rightarrow> int option \<Rightarrow> time \<Rightarrow> time \<Rightarrow> key_store \<Rightarrow>
   ((string \<times> api_key) \<times> key_store) option" where
  "create_key_for_tenant H tenant_id raw name scopes expires_in_s t1 t2 s =
     (case canonical_tenant_id (Some tenant_id) of
        None \<Rightarrow> None
      | Some tenant \<Rightarrow>
          let ((raw_key, r), s1) = create_key H raw name scopes expires_in_s t1 t2 s;
              r' = r\<lparr>ak_tenant_id := tenant\<rparr>
          in Some ((raw_key, r'), od_set s1 (ak_key_id r) r'))"

definition key_expired :: "time \<Rightarrow> api_key \<Rightarrow> bool" where
  "key_expired now r = (case ak_expires_at r of None \<Rightarrow> False | Some e \<Rightarrow> now > e)"

fun validate_loop :: "string \<Rightarrow> time \<Rightarrow> key_store \<Rightarrow> api_key option \<times> key_store" where
  "validate_loop h now [] = (None, [])"
| "validate_loop h now ((k, r) # s) =
     (if ak_revoked r \<or> key_expired now r \<or> ak_key_hash r \<noteq> h
      then (let (found, s') = validate_loop h now s in (found, (k, r) # s'))
      else (let r' = r\<lparr>ak_last_used_at := Some now\<rparr> in (Some r', (k, r') # s)))"

definition validate_key ::
  "(string \<Rightarrow> string) \<Rightarrow> string \<Rightarrow> time \<Rightarrow> key_store \<Rightarrow> api_key option \<times> key_store" where
  "validate_key H raw now s = validate_loop (H raw) now s"

definition revoke_key :: "string \<Rightarrow> key_store \<Rightarrow> bool \<times> key_store" where
  "revoke_key key_id s =
     (case od_get s key_id of
        None \<Rightarrow> (False, s)
      | Some r \<Rightarrow> (True, od_set s key_id (r\<lparr>ak_revoked := True\<rparr>)))"

definition list_keys :: "key_store \<Rightarrow> api_key list" where
  "list_keys s = map snd s"

definition list_keys_for_tenant :: "string \<Rightarrow> key_store \<Rightarrow> api_key list" where
  "list_keys_for_tenant tenant_id s =
     (case canonical_tenant_id (Some tenant_id) of
        None \<Rightarrow> []
      | Some tenant \<Rightarrow> filter (\<lambda>r. \<not> ak_revoked r \<and> ak_tenant_id r = tenant) (map snd s))"

definition revoke_key_for_tenant :: "string \<Rightarrow> string \<Rightarrow> key_store \<Rightarrow> bool \<times> key_store" where
  "revoke_key_for_tenant key_id tenant_id s =
     (case canonical_tenant_id (Some tenant_id) of
        None \<Rightarrow> (False, s)
      | Some tenant \<Rightarrow>
          (case od_get s key_id of
             None \<Rightarrow> (False, s)
           | Some r \<Rightarrow>
               if ak_tenant_id r \<noteq> tenant then (False, s)
               else (True, od_set s key_id (r\<lparr>ak_revoked := True\<rparr>))))"

subsection \<open>The principal of a key\<close>

text \<open>The role a set of scopes stands for: the highest role keyword in it.\<close>

definition role_of_scopes :: "string set \<Rightarrow> string option" where
  "role_of_scopes scopes =
     (if ''admin'' \<in> scopes then Some ''admin''
      else if ''operator'' \<in> scopes then Some ''operator''
      else if ''viewer'' \<in> scopes then Some ''viewer''
      else None)"

definition key_principal :: "api_key \<Rightarrow> string \<Rightarrow> string \<Rightarrow> principal" where
  "key_principal r tenant role =
     \<lparr>pr_subject_id = ''apikey:'' @ ak_key_id r, pr_tenant_id = Some tenant, pr_roles = {role},
      pr_scopes = {''*''}, pr_claims = [(''key_id'', ClOther), (''key_name'', ClOther)],
      pr_display_name = None, pr_admin_session_scope = None, pr_tunnel_share = False\<rparr>"

text \<open>\<open>header\<close> is the \<open>X-Api-Key\<close> header; a server without a store has \<open>None\<close> for it.\<close>

definition principal_from_api_key ::
  "(string \<Rightarrow> string) \<Rightarrow> bool \<Rightarrow> string option \<Rightarrow> time \<Rightarrow> key_store option \<Rightarrow> principal option \<times> key_store option" where
  "principal_from_api_key H api_keys_enabled header now store =
     (let raw_key = str_strip (case header of None \<Rightarrow> '''' | Some v \<Rightarrow> v)
      in if \<not> api_keys_enabled then (None, store)
         else if raw_key = '''' then (None, store)
         else case store of
                None \<Rightarrow> (None, store)
              | Some s \<Rightarrow>
                  (case validate_key H raw_key now s of
                     (None, s') \<Rightarrow> (None, Some s')
                   | (Some r, s') \<Rightarrow>
                       (case canonical_tenant_id (Some (ak_tenant_id r)) of
                          None \<Rightarrow> (None, Some s')
                        | Some tenant \<Rightarrow>
                            (case role_of_scopes (ak_scopes r) of
                               None \<Rightarrow> (None, Some s')
                             | Some role \<Rightarrow> (Some (key_principal r tenant role), Some s')))))"

subsection \<open>What the store promises\<close>

text \<open>Every key is filed under the first sixteen characters of its own hash.\<close>

definition keys_ok :: "key_store \<Rightarrow> bool" where
  "keys_ok s \<longleftrightarrow> od_ok s \<and> (\<forall>(k, r) \<in> set s. ak_key_id r = k \<and> take 16 (ak_key_hash r) = k)"

datatype key_event =
    KeyCreate string pystr "string set" "int option" time time
  | KeyCreateTenant string string pystr "string set" "int option" time time
  | KeyValidate string time
  | KeyRevoke string
  | KeyRevokeTenant string string

fun key_step :: "(string \<Rightarrow> string) \<Rightarrow> key_event \<Rightarrow> key_store \<Rightarrow> key_store" where
  "key_step H (KeyCreate raw name scopes e t1 t2) s = snd (create_key H raw name scopes e t1 t2 s)"
| "key_step H (KeyCreateTenant tenant raw name scopes e t1 t2) s =
     (case create_key_for_tenant H tenant raw name scopes e t1 t2 s of None \<Rightarrow> s | Some (_, s') \<Rightarrow> s')"
| "key_step H (KeyValidate raw now) s = snd (validate_key H raw now s)"
| "key_step H (KeyRevoke i) s = snd (revoke_key i s)"
| "key_step H (KeyRevokeTenant i tenant) s = snd (revoke_key_for_tenant i tenant s)"

abbreviation store_reach :: "(string \<Rightarrow> string) \<Rightarrow> key_store \<Rightarrow> bool" where
  "store_reach H \<equiv> reach (\<lambda>s. s = []) (\<lambda>s t. \<exists>e. t = key_step H e s)"

lemma keys_ok_entry: "keys_ok s \<Longrightarrow> od_get s k = Some r \<Longrightarrow> ak_key_id r = k \<and> take 16 (ak_key_hash r) = k"
  by (auto simp: keys_ok_def dest: od_get_in)

lemma od_set_sub: "set (od_set d k v) \<subseteq> insert (k, v) (set d)"
  by (induction d k v rule: od_set.induct) auto

lemma keys_ok_set: "keys_ok s \<Longrightarrow> ak_key_id r = k \<Longrightarrow> take 16 (ak_key_hash r) = k \<Longrightarrow> keys_ok (od_set s k r)"
  using od_set_sub [of s k r] unfolding keys_ok_def by (blast intro: od_ok_set)

lemma validate_keys: "map fst (snd (validate_loop h now s)) = map fst s"
  by (induction h now s rule: validate_loop.induct) (auto simp: Let_def split: prod.splits)

lemma validate_entries:
  "(k, r) \<in> set (snd (validate_loop h now s)) \<Longrightarrow> \<exists>r0 lu. (k, r0) \<in> set s \<and> r = r0\<lparr>ak_last_used_at := lu\<rparr>"
proof (induction h now s rule: validate_loop.induct)
  case (2 h now k0 r1 s)
  have id: "\<exists>lu. r = r\<lparr>ak_last_used_at := lu\<rparr>" by (rule exI [of _ "ak_last_used_at r"]) simp
  show ?case using 2 id by (fastforce simp: Let_def split: prod.splits if_splits)
qed simp

lemma keys_ok_validate: "keys_ok s \<Longrightarrow> keys_ok (snd (validate_loop h now s))"
  unfolding keys_ok_def validate_keys by (force dest!: validate_entries)

lemma new_key_ids [simp]:
  "ak_key_id (new_key H raw t n sc e t1 t2) = key_id_of H raw"
  "take 16 (ak_key_hash (new_key H raw t n sc e t1 t2)) = key_id_of H raw"
  by (simp_all add: new_key_def key_id_of_def)

lemma keys_ok_step: "keys_ok s \<Longrightarrow> keys_ok (key_step H e s)"
  by (cases e)
    (auto simp: create_key_def create_key_for_tenant_def Let_def validate_key_def keys_ok_validate revoke_key_def
       revoke_key_for_tenant_def dest: keys_ok_entry intro!: keys_ok_set split: option.splits)

interpretation store: safe_system "\<lambda>s. s = []" "\<lambda>s t. \<exists>e. t = key_step H e s" keys_ok for H
  by unfold_locales (auto simp: keys_ok_def [of "[]"] intro: keys_ok_step)

text \<open>
  The scan of \<open>validate\<close> finds what a lookup of the key id finds: the live record of exactly this hash.
\<close>

definition live_key :: "string \<Rightarrow> time \<Rightarrow> key_store \<Rightarrow> api_key option" where
  "live_key h now s =
     (case od_get s (take 16 h) of
        None \<Rightarrow> None
      | Some r \<Rightarrow> if ak_revoked r \<or> key_expired now r \<or> ak_key_hash r \<noteq> h then None else Some r)"

lemma validate_lookup:
  "keys_ok s \<Longrightarrow> fst (validate_loop h now s) = map_option (ak_last_used_at_update (\<lambda>_. Some now)) (live_key h now s)"
proof (induction h now s rule: validate_loop.induct)
  case (2 h now k r s)
  have ok: "keys_ok s" "k \<notin> fst ` set s" "take 16 (ak_key_hash r) = k" using 2(2) by (auto simp: keys_ok_def)
  then have "od_get s k = None" by (simp add: od_get_None)
  then show ?case using 2(1) ok by (auto simp: live_key_def Let_def split: prod.splits)
qed (simp add: live_key_def)

lemma principal_from_api_key_eq:
  assumes "keys_ok s"
  shows "fst (principal_from_api_key H en header now (Some s)) =
    (let raw = str_strip (case header of None \<Rightarrow> '''' | Some v \<Rightarrow> v)
     in if \<not> en \<or> raw = '''' then None
        else case live_key (H raw) now s of
               None \<Rightarrow> None
             | Some r \<Rightarrow> (case canonical_tenant_id (Some (ak_tenant_id r)) of
                 None \<Rightarrow> None
               | Some tenant \<Rightarrow> map_option (key_principal r tenant) (role_of_scopes (ak_scopes r))))"
  using validate_lookup [OF assms, of "H (str_strip (case header of None \<Rightarrow> '''' | Some v \<Rightarrow> v))" now]
  by (auto simp: principal_from_api_key_def validate_key_def Let_def key_principal_def split: option.splits prod.splits)

subsection \<open>Revoked keys\<close>

definition barred_key :: "string \<Rightarrow> key_store \<Rightarrow> bool" where
  "barred_key i s \<longleftrightarrow> (case od_get s i of None \<Rightarrow> True | Some r \<Rightarrow> ak_revoked r)"

text \<open>The events that do not draw a key of this id.\<close>

fun draws_key :: "(string \<Rightarrow> string) \<Rightarrow> string \<Rightarrow> key_event \<Rightarrow> bool" where
  "draws_key H i (KeyCreate raw _ _ _ _ _) = (key_id_of H raw = i)"
| "draws_key H i (KeyCreateTenant _ raw _ _ _ _ _) = (key_id_of H raw = i)"
| "draws_key H i _ = False"

definition run_keys :: "(string \<Rightarrow> string) \<Rightarrow> key_event list \<Rightarrow> key_store \<Rightarrow> key_store" where
  "run_keys H es s = fold (key_step H) es s"

lemma validate_get:
  "\<exists>lu. od_get (snd (validate_loop h now s)) k = map_option (\<lambda>r. r\<lparr>ak_last_used_at := lu (ak_last_used_at r)\<rparr>) (od_get s k)"
proof (induction h now s rule: validate_loop.induct)
  case (2 h now k0 r0 s)
  have id: "\<exists>lu. v = map_option (\<lambda>r. r\<lparr>ak_last_used_at := lu (ak_last_used_at r)\<rparr>) v" for v :: "api_key option"
    by (rule exI [of _ "\<lambda>x. x"]) (cases v; simp)
  show ?case
  proof (cases "ak_revoked r0 \<or> key_expired now r0 \<or> ak_key_hash r0 \<noteq> h")
    case True
    from 2 [OF True] id [of "Some r0"] show ?thesis using True by (auto simp: Let_def split: prod.splits)
  next
    case False
    have "\<exists>lu. Some (r0\<lparr>ak_last_used_at := Some now\<rparr>) = Some (r0\<lparr>ak_last_used_at := lu (ak_last_used_at r0)\<rparr>)"
      by (rule exI [of _ "\<lambda>_. Some now"]) simp
    with False id [of "od_get s k"] show ?thesis by (auto simp: Let_def)
  qed
qed simp

lemma barred_validate: "barred_key i (snd (validate_loop h now s)) = barred_key i s"
proof -
  obtain lu where "od_get (snd (validate_loop h now s)) i =
      map_option (\<lambda>r. r\<lparr>ak_last_used_at := lu (ak_last_used_at r)\<rparr>) (od_get s i)"
    using validate_get by blast
  then show ?thesis by (simp add: barred_key_def split: option.splits)
qed

lemma barred_set: "barred_key i (od_set s k r) \<longleftrightarrow> (if k = i then ak_revoked r else barred_key i s)"
  by (simp add: barred_key_def)

lemma barred_step:
  "keys_ok s \<Longrightarrow> barred_key i s \<Longrightarrow> \<not> draws_key H i e \<Longrightarrow> barred_key i (key_step H e s)"
  by (cases e)
    (auto simp: create_key_def create_key_for_tenant_def Let_def validate_key_def barred_validate revoke_key_def
       revoke_key_for_tenant_def barred_set split: option.splits)

lemma keys_ok_run: "keys_ok s \<Longrightarrow> keys_ok (run_keys H es s)"
  by (induction es arbitrary: s) (simp_all add: run_keys_def keys_ok_step)

lemma barred_run:
  "keys_ok s \<Longrightarrow> barred_key i s \<Longrightarrow> \<forall>e \<in> set es. \<not> draws_key H i e \<Longrightarrow> barred_key i (run_keys H es s)"
  by (induction es arbitrary: s) (simp_all add: run_keys_def keys_ok_step barred_step)

lemma barred_no_principal:
  assumes "keys_ok s" "barred_key (key_id_of H (str_strip raw)) s"
  shows "fst (principal_from_api_key H en (Some raw) now (Some s)) = None"
  using assms(2)
  by (auto simp: principal_from_api_key_eq [OF assms(1)] Let_def live_key_def barred_key_def key_id_of_def
      split: option.splits)

lemma revoke_bars: "revoke_key i s = (True, s') \<or> revoke_key_for_tenant i t s = (True, s') \<Longrightarrow> barred_key i s'"
  by (auto simp: revoke_key_def revoke_key_for_tenant_def barred_set split: option.splits if_splits)

subsection \<open>The routes\<close>

datatype key_error =
    AdminRequired
  | KeysDisabled
  | NameRequired
  | ScopesRequired
  | ScopesNotList
  | ScopesEmpty
  | InvalidScopes "pystr set"
  | TenantSupplied
  | ExpiryNotAnInt
  | ExpiryTooShort
  | TenantInvalid
  | UnknownKey

text \<open>
  What the routes get from outside: who counts as an administrator (the authorization service), whether
  keys are enabled, \<open>str()\<close> of a JSON value that is no string, and \<open>int()\<close> of a JSON value.
\<close>

record key_env =
  kv_is_admin :: "principal \<Rightarrow> bool"
  kv_enabled :: bool
  kv_str :: "json \<Rightarrow> pystr"
  kv_int :: "json \<Rightarrow> int option"

definition key_text :: "key_env \<Rightarrow> json \<Rightarrow> pystr" where
  "key_text env j = py_strip (case j of JStr s \<Rightarrow> s | _ \<Rightarrow> kv_str env j)"

definition ALLOWED_ROLE_SCOPES :: "string set" where
  "ALLOWED_ROLE_SCOPES = {''viewer'', ''operator'', ''admin''}"

definition scope_of :: "pystr \<Rightarrow> string" where
  "scope_of s = (if s = pystr_of ''viewer'' then ''viewer'' else if s = pystr_of ''operator'' then ''operator'' else ''admin'')"

definition key_scopes :: "key_env \<Rightarrow> jdict \<Rightarrow> key_error + string set" where
  "key_scopes env payload =
     (case od_get payload (pystr_of ''scopes'') of
        None \<Rightarrow> Inl ScopesRequired
      | Some (JArr xs) \<Rightarrow>
          let scopes = set (filter (\<lambda>t. t \<noteq> []) (map (key_text env) xs));
              invalid = {t \<in> scopes. t \<notin> pystr_of ` ALLOWED_ROLE_SCOPES}
          in if scopes = {} then Inl ScopesEmpty
             else if invalid \<noteq> {} then Inl (InvalidScopes invalid)
             else Inr (scope_of ` scopes)
      | Some _ \<Rightarrow> Inl ScopesNotList)"

definition key_expiry :: "key_env \<Rightarrow> jdict \<Rightarrow> key_error + int option" where
  "key_expiry env payload =
     (case od_get payload (pystr_of ''expires_in_s'') of
        None \<Rightarrow> Inr None
      | Some JNull \<Rightarrow> Inr None
      | Some v \<Rightarrow>
          (case kv_int env v of
             None \<Rightarrow> Inl ExpiryNotAnInt
           | Some e \<Rightarrow> if e < 60 then Inl ExpiryTooShort else Inr (Some e)))"

definition key_access :: "key_env \<Rightarrow> principal \<Rightarrow> key_error option" where
  "key_access env p =
     (if \<not> kv_is_admin env p then Some AdminRequired else if \<not> kv_enabled env then Some KeysDisabled else None)"

definition has_tenant :: "principal \<Rightarrow> string option" where
  "has_tenant p = (case pr_tenant_id p of None \<Rightarrow> None | Some t \<Rightarrow> if t = '''' then None else Some t)"

definition create_api_key ::
  "(string \<Rightarrow> string) \<Rightarrow> key_env \<Rightarrow> principal \<Rightarrow> jdict \<Rightarrow> string \<Rightarrow> time \<Rightarrow> time \<Rightarrow> key_store \<Rightarrow>
   (key_error + string \<times> api_key) \<times> key_store" where
  "create_api_key H env p payload raw t1 t2 s =
     (case key_access env p of
        Some e \<Rightarrow> (Inl e, s)
      | None \<Rightarrow>
          let name = (case od_get payload (pystr_of ''name'') of None \<Rightarrow> [] | Some v \<Rightarrow> key_text env v)
          in if name = [] then (Inl NameRequired, s)
             else case key_scopes env payload of
                    Inl e \<Rightarrow> (Inl e, s)
                  | Inr scopes \<Rightarrow>
                      if od_get payload (pystr_of ''tenant_id'') \<noteq> None then (Inl TenantSupplied, s)
                      else case key_expiry env payload of
                             Inl e \<Rightarrow> (Inl e, s)
                           | Inr expires \<Rightarrow>
                               (case has_tenant p of
                                  None \<Rightarrow>
                                    (let (kr, s') = create_key H raw name scopes expires t1 t2 s in (Inr kr, s'))
                                | Some tenant \<Rightarrow>
                                    (case create_key_for_tenant H tenant raw name scopes expires t1 t2 s of
                                       None \<Rightarrow> (Inl TenantInvalid, s)
                                     | Some (kr, s') \<Rightarrow> (Inr kr, s'))))"

definition list_api_keys :: "key_env \<Rightarrow> principal \<Rightarrow> key_store \<Rightarrow> key_error + api_key list" where
  "list_api_keys env p s =
     (case key_access env p of
        Some e \<Rightarrow> Inl e
      | None \<Rightarrow> Inr (case has_tenant p of Some tenant \<Rightarrow> list_keys_for_tenant tenant s | None \<Rightarrow> list_keys s))"

definition revoke_api_key :: "key_env \<Rightarrow> principal \<Rightarrow> string \<Rightarrow> key_store \<Rightarrow> key_error option \<times> key_store" where
  "revoke_api_key env p key_id s =
     (case key_access env p of
        Some e \<Rightarrow> (Some e, s)
      | None \<Rightarrow>
          let (revoked, s') =
            (case has_tenant p of Some tenant \<Rightarrow> revoke_key_for_tenant key_id tenant s | None \<Rightarrow> revoke_key key_id s)
          in if revoked then (None, s') else (Some UnknownKey, s'))"

subsection \<open>Entries that stay\<close>

fun revokes_key :: "string \<Rightarrow> key_event \<Rightarrow> bool" where
  "revokes_key i (KeyRevoke j) = (j = i)"
| "revokes_key i (KeyRevokeTenant j _) = (j = i)"
| "revokes_key i _ = False"

declare od_set_set [simp]

text \<open>Two records of the same key, up to its use and its revocation.\<close>

definition same_key :: "api_key \<Rightarrow> api_key \<Rightarrow> bool" where
  "same_key r r' \<longleftrightarrow>
     r\<lparr>ak_last_used_at := None, ak_revoked := False\<rparr> = r'\<lparr>ak_last_used_at := None, ak_revoked := False\<rparr>"

lemma same_key_fields:
  "same_key r r' \<Longrightarrow> ak_key_id r = ak_key_id r' \<and> ak_key_hash r = ak_key_hash r' \<and> ak_tenant_id r = ak_tenant_id r' \<and>
     ak_scopes r = ak_scopes r' \<and> ak_expires_at r = ak_expires_at r'"
  by (cases r; cases r') (simp add: same_key_def)

lemma entry_step:
  assumes "od_get s i = Some r" "\<not> draws_key H i e"
  shows "\<exists>r'. od_get (key_step H e s) i = Some r' \<and> same_key r' r \<and> (revokes_key i e \<or> ak_revoked r' = ak_revoked r)"
proof (cases e)
  case (KeyValidate raw now)
  then show ?thesis using validate_get [of "H raw" now s i] assms(1) by (auto simp: validate_key_def same_key_def)
qed (use assms in \<open>auto simp: create_key_def create_key_for_tenant_def Let_def revoke_key_def same_key_def
      revoke_key_for_tenant_def split: option.splits\<close>)

lemma entry_run:
  "od_get s i = Some r \<Longrightarrow> \<forall>e \<in> set es. \<not> draws_key H i e \<Longrightarrow>
   \<exists>r'. od_get (run_keys H es s) i = Some r' \<and> same_key r' r \<and>
     ((\<exists>e \<in> set es. revokes_key i e) \<or> ak_revoked r' = ak_revoked r)"
proof (induction es arbitrary: s r)
  case Nil
  show ?case using Nil(1) by (simp add: run_keys_def same_key_def)
next
  case (Cons e es)
  from Cons.prems(2) have q: "\<not> draws_key H i e" by simp
  obtain r1 where 1: "od_get (key_step H e s) i = Some r1" "same_key r1 r"
    "revokes_key i e \<or> ak_revoked r1 = ak_revoked r"
    using entry_step [OF Cons.prems(1) q] by blast
  from Cons.IH [OF this(1)] Cons.prems(2) 1(2,3) show ?case by (auto simp: run_keys_def same_key_def)
qed

lemma role_of_some: "scopes \<noteq> {} \<Longrightarrow> scopes \<subseteq> ALLOWED_ROLE_SCOPES \<Longrightarrow> \<exists>role. role_of_scopes scopes = Some role"
  by (auto simp: role_of_scopes_def ALLOWED_ROLE_SCOPES_def)

lemma scope_of_allowed: "scope_of ` X \<subseteq> ALLOWED_ROLE_SCOPES"
  by (auto simp: scope_of_def ALLOWED_ROLE_SCOPES_def)

lemma key_scopes_allowed: "key_scopes env payload = Inr scopes \<Longrightarrow> scopes \<noteq> {} \<and> scopes \<subseteq> ALLOWED_ROLE_SCOPES"
  using scope_of_allowed
  by (auto simp: key_scopes_def Let_def simp del: image_is_empty split: option.splits json.splits if_splits)

text \<open>What a successful creation did.\<close>

lemma create_api_key_Inr:
  assumes "create_api_key H env p payload raw t1 t2 s = (Inr (k, r), s')"
  shows "\<exists>name scopes e tenant. key_scopes env payload = Inr scopes \<and> k = raw \<and>
     (case has_tenant p of None \<Rightarrow> tenant = '''' | Some t \<Rightarrow> canonical_tenant_id (Some t) = Some tenant) \<and>
     r = new_key H raw tenant name scopes e t1 t2 \<and> s' = od_set s (key_id_of H raw) r"
  using assms
  by (fastforce simp: create_api_key_def create_key_def create_key_for_tenant_def Let_def new_key_def
      split: option.splits sum.splits if_splits)

lemma str_strip_idem [simp]: "str_strip (str_strip s) = str_strip s"
  unfolding str_strip_def by (rule strip_idem)

lemma canonical_Some: "canonical_tenant_id (Some t) = Some c \<longleftrightarrow> c = str_strip t \<and> c \<noteq> '''' \<and> tenant_pattern c"
  by (auto simp: canonical_tenant_id_def Let_def)

lemma canonical_idem: "canonical_tenant_id (Some t) = Some c \<Longrightarrow> canonical_tenant_id (Some c) = Some c"
  by (auto simp: canonical_Some)

subsection \<open>Properties\<close>

text \<open>The part of a store that belongs to other tenants, or to none.\<close>

definition foreign_keys :: "string \<Rightarrow> key_store \<Rightarrow> key_store" where
  "foreign_keys tenant s = filter (\<lambda>(k, r). ak_tenant_id r \<noteq> tenant) s"

lemma foreign_set:
  "od_ok s \<Longrightarrow> (case od_get s k of None \<Rightarrow> True | Some r0 \<Rightarrow> ak_tenant_id r0 = tenant) \<Longrightarrow> ak_tenant_id r = tenant \<Longrightarrow>
   foreign_keys tenant (od_set s k r) = foreign_keys tenant s"
  by (induction s k r rule: od_set.induct) (auto simp: foreign_keys_def split: if_splits)

lemma foreign_revoke:
  "od_ok s \<Longrightarrow> canonical_tenant_id (Some t) = Some c \<Longrightarrow>
   foreign_keys c (snd (revoke_key_for_tenant i t s)) = foreign_keys c s"
  by (auto simp: revoke_key_for_tenant_def foreign_set split: option.splits)

lemma create_for_tenant_store:
  "create_key_for_tenant H t raw name scopes e t1 t2 s = Some (kr, s') \<Longrightarrow>
   \<exists>r. ak_tenant_id r = str_strip t \<and> canonical_tenant_id (Some t) = Some (str_strip t) \<and> kr = (raw, r) \<and>
     s' = od_set s (key_id_of H raw) r"
  by (auto simp: create_key_for_tenant_def create_key_def Let_def canonical_Some split: option.splits)

text \<open>C20: exactly the live keys authenticate. In every store the operations can build, a request with an
  API key gets a principal if and only if keys are enabled and the store has, under the key's id, a record of
  exactly the key's hash that is not revoked, has not expired, has a valid tenant and holds a role scope;
  the principal is then the record's, with its tenant and the highest role among its scopes and no other.\<close>

theorem api_key_exact:
  assumes "store_reach H s"
  shows "fst (principal_from_api_key H enabled (Some header) now (Some s)) = Some p \<longleftrightarrow>
    enabled \<and> str_strip header \<noteq> '''' \<and>
    (\<exists>r tenant role. od_get s (key_id_of H (str_strip header)) = Some r \<and> ak_key_hash r = H (str_strip header) \<and>
       \<not> ak_revoked r \<and> (case ak_expires_at r of None \<Rightarrow> True | Some e \<Rightarrow> now \<le> e) \<and>
       canonical_tenant_id (Some (ak_tenant_id r)) = Some tenant \<and> role_of_scopes (ak_scopes r) = Some role \<and>
       p = key_principal r tenant role)"
  by (auto simp: principal_from_api_key_eq [OF store.reach_inv [OF assms]] Let_def live_key_def key_id_of_def
      key_expired_def split: option.splits if_splits)

text \<open>C21: a revoked key stays out. After the route has revoked a key id, no operation on the store other
  than drawing a new key with that very id lets a key of that id authenticate again: not a creation for
  anyone, a validation, or another revocation, in any order and at any time.\<close>

theorem revoked_key_stays_out:
  assumes "store_reach H s" and "revoke_api_key env p i s = (None, s1)"
    and "\<forall>e \<in> set es. \<not> draws_key H i e" and "key_id_of H (str_strip raw) = i"
  shows "fst (principal_from_api_key H enabled (Some raw) now (Some (run_keys H es s1))) = None"
proof -
  have ok: "keys_ok s" by (rule store.reach_inv [OF assms(1)])
  have "\<exists>t. revoke_key i s = (True, s1) \<or> revoke_key_for_tenant i t s = (True, s1)"
    using assms(2) by (auto simp: revoke_api_key_def Let_def split: option.splits prod.splits if_splits)
  then obtain t where r: "revoke_key i s = (True, s1) \<or> revoke_key_for_tenant i t s = (True, s1)" by blast
  then have "s1 = key_step H (KeyRevoke i) s \<or> s1 = key_step H (KeyRevokeTenant i t) s" by auto
  then have "keys_ok s1" using keys_ok_step [OF ok] by blast
  with revoke_bars [OF r] assms(3,4) show ?thesis by (simp add: barred_no_principal barred_run keys_ok_run)
qed

text \<open>C22: a tenant's administrator is confined to the tenant. Whatever an administrator of a tenant asks of
  the key routes, the keys of other tenants and the keys of no tenant are left as they are, no key listed
  belongs to another tenant or is revoked, and a key the administrator mints is the tenant's own. (The raw
  key drawn must have an id that is not in use.)\<close>

theorem tenant_admin_confined:
  assumes "store_reach H s" and "pr_tenant_id p = Some t" and "canonical_tenant_id (Some t) = Some c"
    and "od_get s (key_id_of H raw) = None"
  shows "foreign_keys c (snd (create_api_key H env p payload raw t1 t2 s)) = foreign_keys c s \<and>
    foreign_keys c (snd (revoke_api_key env p i s)) = foreign_keys c s \<and>
    (case list_api_keys env p s of Inl e \<Rightarrow> True | Inr rs \<Rightarrow> list_all (\<lambda>r. ak_tenant_id r = c \<and> \<not> ak_revoked r) rs) \<and>
    (case fst (create_api_key H env p payload raw t1 t2 s) of Inl e \<Rightarrow> True | Inr (k, r) \<Rightarrow> ak_tenant_id r = c)"
proof -
  have od: "od_ok s" using store.reach_inv [OF assms(1)] by (simp add: keys_ok_def)
  have c: "c = str_strip t" "t \<noteq> ''''" using assms(3) by (auto simp: canonical_Some str_strip_def)
  have ht: "has_tenant p = Some t" using assms(2) c(2) by (simp add: has_tenant_def)
  have cr: "foreign_keys c s' = foreign_keys c s \<and> ak_tenant_id (snd kr) = c"
    if "create_key_for_tenant H t raw name scopes e t1 t2 s = Some (kr, s')" for name scopes e kr s'
    using create_for_tenant_store [OF that] foreign_set [OF od] c assms(4) by (auto simp: foreign_set od)
  show ?thesis
    using cr foreign_revoke [OF od assms(3), of i]
    by (auto simp: create_api_key_def revoke_api_key_def list_api_keys_def list_keys_for_tenant_def ht assms(3) Let_def
        list_all_iff split: option.splits sum.splits prod.splits)
qed

text \<open>
  A key the administrator of a tenant has minted admits its holder until it expires, through any
  operations that neither draw its id again nor revoke it.
\<close>

theorem minted_key_admits:
  assumes "store_reach H s" and "create_api_key H env p payload raw t1 t2 s = (Inr (k, r), s1)"
    and "has_tenant p = Some t" and "\<forall>e \<in> set es. \<not> draws_key H (key_id_of H raw) e \<and> \<not> revokes_key (key_id_of H raw) e"
    and "str_strip header = raw" "raw \<noteq> ''''" and "case ak_expires_at r of None \<Rightarrow> True | Some x \<Rightarrow> now \<le> x"
  shows "\<exists>role. role_of_scopes (ak_scopes r) = Some role \<and>
    fst (principal_from_api_key H True (Some header) now (Some (run_keys H es s1))) =
      Some (key_principal r (str_strip t) role)"
proof -
  obtain name scopes e tenant where c: "key_scopes env payload = Inr scopes"
      "canonical_tenant_id (Some t) = Some tenant" "r = new_key H raw tenant name scopes e t1 t2"
      "s1 = od_set s (key_id_of H raw) r"
    using create_api_key_Inr [OF assms(2)] assms(3) by auto
  obtain role where role: "role_of_scopes scopes = Some role" using key_scopes_allowed [OF c(1)] role_of_some by blast
  have ok: "keys_ok (run_keys H es s1)"
    using store.reach_inv [OF assms(1)] c(3,4) by (simp add: keys_ok_run keys_ok_set)
  have "od_get s1 (key_id_of H raw) = Some r" using c(4) by simp
  from entry_run [OF this, of es H] obtain r' where
    "od_get (run_keys H es s1) (key_id_of H raw) = Some r'" "same_key r' r" "ak_revoked r' = ak_revoked r"
    using assms(4) by blast
  then show ?thesis
    using c(2,3) role assms(5-7) canonical_idem [OF c(2)] same_key_fields [of r' r]
    by (auto simp: principal_from_api_key_eq [OF ok] Let_def live_key_def key_expired_def key_id_of_def new_key_def
        key_principal_def canonical_Some split: option.splits)
qed

text \<open>
  An administrator without a tenant gets a key that never works: the route mints it without a tenant, and
  the resolver rejects a key without one.
\<close>

theorem system_key_unusable:
  assumes "store_reach H s" and "create_api_key H env p payload raw t1 t2 s = (Inr (k, r), s1)"
    and "pr_tenant_id p = None" and "\<forall>e \<in> set es. \<not> draws_key H (key_id_of H raw) e" and "str_strip header = raw"
  shows "fst (principal_from_api_key H enabled (Some header) now (Some (run_keys H es s1))) = None"
proof -
  obtain name scopes e where c: "r = new_key H raw '''' name scopes e t1 t2" "s1 = od_set s (key_id_of H raw) r"
    using create_api_key_Inr [OF assms(2)] assms(3) by (auto simp: has_tenant_def)
  have ok: "keys_ok (run_keys H es s1)"
    using store.reach_inv [OF assms(1)] c by (simp add: keys_ok_run keys_ok_set)
  have "od_get s1 (key_id_of H raw) = Some r" using c(2) by simp
  from entry_run [OF this assms(4)] obtain r' where
    "od_get (run_keys H es s1) (key_id_of H raw) = Some r'" "same_key r' r" by blast
  then show ?thesis
    using assms(5) c(1) same_key_fields [of r' r]
    by (auto simp: principal_from_api_key_eq [OF ok] Let_def live_key_def key_id_of_def new_key_def
        canonical_tenant_id_def str_strip_def split: option.splits)
qed

subsection \<open>A validation on a worker thread\<close>

text \<open>
  The hub resolves principals through \<open>asyncio.to_thread\<close>, so the loop of \<open>validate\<close> runs on a worker
  thread while the event loop serves the key routes. A CPython dictionary iterator remembers the size the
  dictionary had when the loop began and raises \<open>RuntimeError\<close> when the next item is asked of a
  dictionary of another size. \<open>scan_next\<close> is one turn of the loop.
\<close>

record key_scan =
  sc_size :: nat
  sc_pos :: nat

datatype scan_turn = ScanGoesOn key_scan | ScanRaises | ScanDone "api_key option"

definition scan_start :: "key_store \<Rightarrow> key_scan" where
  "scan_start s = \<lparr>sc_size = length s, sc_pos = 0\<rparr>"

definition scan_next :: "string \<Rightarrow> time \<Rightarrow> key_scan \<Rightarrow> key_store \<Rightarrow> scan_turn \<times> key_store" where
  "scan_next h now sc s =
     (if length s \<noteq> sc_size sc then (ScanRaises, s)
      else if length s \<le> sc_pos sc then (ScanDone None, s)
      else let (k, r) = s ! sc_pos sc; r' = r\<lparr>ak_last_used_at := Some now\<rparr>
           in if ak_revoked r \<or> key_expired now r \<or> ak_key_hash r \<noteq> h
              then (ScanGoesOn (sc\<lparr>sc_pos := Suc (sc_pos sc)\<rparr>), s)
              else (ScanDone (Some r'), s[sc_pos sc := (k, r')]))"

text \<open>The turns with nothing in between; one more than there are keys are enough.\<close>

fun scan_quiet :: "nat \<Rightarrow> string \<Rightarrow> time \<Rightarrow> key_scan \<Rightarrow> key_store \<Rightarrow> (api_key option \<times> key_store) option" where
  "scan_quiet 0 h now sc s = None"
| "scan_quiet (Suc n) h now sc s =
     (case scan_next h now sc s of
        (ScanGoesOn sc', s') \<Rightarrow> scan_quiet n h now sc' s'
      | (ScanRaises, s') \<Rightarrow> None
      | (ScanDone found, s') \<Rightarrow> Some (found, s'))"

lemma scan_quiet_from:
  "length s - p < n \<Longrightarrow> p \<le> length s \<Longrightarrow>
   scan_quiet n h now \<lparr>sc_size = length s, sc_pos = p\<rparr> s =
     Some (let (found, d) = validate_loop h now (drop p s) in (found, take p s @ d))"
proof (induction n arbitrary: p)
  case (Suc n)
  show ?case
  proof (cases "p < length s")
    case True
    obtain k r where kr: "s ! p = (k, r)" by fastforce
    have d: "drop p s = (k, r) # drop (Suc p) s" using Cons_nth_drop_Suc [OF True] kr by simp
    have t: "take (Suc p) s = take p s @ [(k, r)]" using True kr by (simp add: take_Suc_conv_app_nth)
    show ?thesis using True Suc.prems Suc.IH [of "Suc p"]
      by (auto simp: scan_next_def kr d t Let_def upd_conv_take_nth_drop split: prod.splits)
  qed (use Suc.prems in \<open>simp add: scan_next_def\<close>)
qed simp

text \<open>Left alone, the thread answers what \<open>validate\<close> answers.\<close>

theorem scan_is_validate: "scan_quiet (Suc (length s)) (H raw) now (scan_start s) s = Some (validate_key H raw now s)"
  using scan_quiet_from [of s 0 "Suc (length s)" "H raw" now] by (simp add: scan_start_def validate_key_def split: prod.splits)

text \<open>A key minted by the event loop while the thread is in its loop makes the next turn raise.\<close>

theorem mint_breaks_validation:
  assumes "od_get s (key_id_of H raw) = None" and "sc_size sc = length s"
  shows "fst (scan_next h now sc (snd (create_key H raw name scopes e t1 t2 s))) = ScanRaises"
proof -
  have "key_id_of H raw \<notin> fst ` set s" using assms(1) by (simp add: od_get_None)
  then show ?thesis using assms(2) by (simp add: scan_next_def create_key_def Let_def length_od_set)
qed

subsection \<open>Witnesses\<close>

abbreviation (input) demo_env :: key_env where
  "demo_env \<equiv> \<lparr>kv_is_admin = (\<lambda>_. True), kv_enabled = True, kv_str = (\<lambda>_. []), kv_int = (\<lambda>_. None)\<rparr>"

abbreviation (input) demo_admin :: "string option \<Rightarrow> principal" where
  "demo_admin t \<equiv> \<lparr>pr_subject_id = ''a'', pr_tenant_id = t, pr_roles = {''admin''}, pr_scopes = {}, pr_claims = [],
     pr_display_name = None, pr_admin_session_scope = None, pr_tunnel_share = False\<rparr>"

definition demo_key :: "string \<Rightarrow> api_key" where
  "demo_key t = new_key (\<lambda>s. s) ''k'' t [110] {''viewer''} None 0 0"

definition demo_payload :: jdict where
  "demo_payload = [(pystr_of ''name'', JStr [110]), (pystr_of ''scopes'', JArr [JStr (pystr_of ''viewer'')])]"

lemma demo_text [simp]: "str_strip ''k'' = ''k''" "str_strip ''t'' = ''t''" "canonical_tenant_id (Some ''t'') = Some ''t''"
  by (simp_all add: canonical_tenant_id_def str_strip_def py_space_char_def py_space_def tenant_pattern_def ascii_alnum_def)

lemma demo_created:
  "create_api_key (\<lambda>s. s) demo_env (demo_admin (Some ''t'')) demo_payload ''k'' 0 0 [] =
     (Inr (''k'', demo_key ''t''), [(''k'', demo_key ''t'')])"
  "create_api_key (\<lambda>s. s) demo_env (demo_admin None) demo_payload ''k'' 0 0 [] =
     (Inr (''k'', demo_key ''''), [(''k'', demo_key '''')])"
  by (simp_all add: create_api_key_def key_access_def demo_payload_def key_text_def py_strip_def py_space_def pystr_of_def
      key_scopes_def ALLOWED_ROLE_SCOPES_def scope_of_def key_expiry_def has_tenant_def create_key_for_tenant_def
      create_key_def demo_key_def new_key_def key_id_of_def Let_def)

lemma demo_reach: "store_reach (\<lambda>s. s) [(''k'', demo_key ''t'')]"
proof -
  have r: "store_reach (\<lambda>s. s) []" by (simp add: reach_init)
  have "[(''k'', demo_key ''t'')] = key_step (\<lambda>s. s) (KeyCreateTenant ''t'' ''k'' [110] {''viewer''} None 0 0) []"
    by (simp add: create_key_for_tenant_def create_key_def demo_key_def new_key_def key_id_of_def Let_def)
  then have s: "\<exists>e. [(''k'', demo_key ''t'')] = key_step (\<lambda>s. s) e []" by blast
  show ?thesis by (rule reach_step [OF r, OF s])
qed

lemma api_key_exact_witness:
  "fst (principal_from_api_key (\<lambda>s. s) True (Some ''k'') 0 (Some [(''k'', demo_key ''t'')])) =
     Some (key_principal (demo_key ''t'') ''t'' ''viewer'')"
  by (rule api_key_exact [OF demo_reach, THEN iffD2])
    (simp add: key_id_of_def demo_key_def new_key_def role_of_scopes_def)

lemma revoked_key_stays_out_witness:
  "fst (principal_from_api_key (\<lambda>s. s) True (Some ''k'') 0
     (Some (run_keys (\<lambda>s. s) [KeyValidate ''k'' 0, KeyCreate ''z'' [] {} None 0 0]
       [(''k'', (demo_key ''t'')\<lparr>ak_revoked := True\<rparr>)]))) = None"
proof (rule revoked_key_stays_out [OF demo_reach])
  show "revoke_api_key demo_env (demo_admin (Some ''t'')) ''k'' [(''k'', demo_key ''t'')] =
      (None, [(''k'', (demo_key ''t'')\<lparr>ak_revoked := True\<rparr>)])"
    by (simp add: revoke_api_key_def key_access_def has_tenant_def revoke_key_for_tenant_def demo_key_def new_key_def)
qed (simp_all add: key_id_of_def)

lemma tenant_admin_confined_witness:
  "foreign_keys ''u'' (snd (revoke_api_key demo_env (demo_admin (Some ''u'')) ''k'' [(''k'', demo_key ''t'')])) =
     [(''k'', demo_key ''t'')]"
proof -
  have c: "canonical_tenant_id (Some ''u'') = Some ''u''"
    by (simp add: canonical_tenant_id_def str_strip_def py_space_char_def py_space_def tenant_pattern_def ascii_alnum_def)
  show ?thesis
    using tenant_admin_confined [OF demo_reach _ c, of "demo_admin (Some ''u'')" "''j''" demo_env "[]" 0 0 "''k''"]
    by (simp add: key_id_of_def foreign_keys_def demo_key_def new_key_def)
qed

lemma minted_key_admits_witness:
  "\<exists>role. role_of_scopes (ak_scopes (demo_key ''t'')) = Some role \<and>
     fst (principal_from_api_key (\<lambda>s. s) True (Some ''k'') 9
       (Some (run_keys (\<lambda>s. s) [KeyValidate ''k'' 1, KeyRevoke ''z''] [(''k'', demo_key ''t'')]))) =
       Some (key_principal (demo_key ''t'') (str_strip ''t'') role)"
  by (rule minted_key_admits [OF reach_init demo_created(1)])
    (simp_all add: has_tenant_def key_id_of_def demo_key_def new_key_def)

lemma system_key_unusable_witness:
  "fst (principal_from_api_key (\<lambda>s. s) True (Some ''k'') 0 (Some (run_keys (\<lambda>s. s) [] [(''k'', demo_key '''')]))) = None"
  by (rule system_key_unusable [OF reach_init demo_created(2)]) simp_all

lemma mint_breaks_validation_witness:
  "fst (scan_next ''x'' 0 (scan_start [(''k'', demo_key ''t'')])
     (snd (create_key (\<lambda>s. s) ''z'' [] {} None 0 0 [(''k'', demo_key ''t'')]))) = ScanRaises"
  by (rule mint_breaks_validation) (simp_all add: key_id_of_def scan_start_def)

end
