(* ===== verification/IdentityProviders.thy ===== *)
theory IdentityProviders
  imports ApiKeys
begin

text \<open>
  Who a connection is: \<open>LocalIdentityProvider\<close> (\<open>server/auth.py\<close>: API key, then proxy headers or JWT),
  \<open>WebhookIdentityProvider\<close> with its replay cache (\<open>server/auth_webhook.py\<close>) and the signature of its
  responses (\<open>server/webhook_signing.py\<close>). Parameters stand for SHA-256 and HMAC, for PyJWT's
  verification (\<open>decode\<close>, \<open>None\<close> when resolving the key or decoding raises), for \<open>json.loads\<close> and for
  what Python makes of JSON values that are no text; HTTP is given by the response it brought, \<open>None\<close>
  when anything on the way raised. Text of headers, cookies and claims is Latin-1 (\<open>string\<close>).
\<close>

subsection \<open>Text\<close>

definition str_lower :: "string \<Rightarrow> string" where
  "str_lower s = map char_of (latin_lower (map of_char s))"

definition clean_role :: "string \<Rightarrow> string" where
  "clean_role s = str_lower (str_strip s)"

text \<open>The non-empty pieces between separators.\<close>

function words_by :: "(char \<Rightarrow> bool) \<Rightarrow> string \<Rightarrow> string list" where
  "words_by sep [] = []"
| "words_by sep (c # cs) =
     (if sep c then words_by sep cs
      else takeWhile (\<lambda>x. \<not> sep x) (c # cs) # words_by sep (dropWhile (\<lambda>x. \<not> sep x) cs))"
  by pat_completeness auto
termination by (relation "measure (length \<circ> snd)") (simp_all add: less_Suc_eq_le length_dropWhile_le)

text \<open>The first of some optional texts that is there and not empty: Python's \<open>a or b or ''''\<close>.\<close>

fun first_text :: "string option list \<Rightarrow> string" where
  "first_text [] = ''''"
| "first_text (None # vs) = first_text vs"
| "first_text (Some v # vs) = (if v \<noteq> '''' then v else first_text vs)"

subsection \<open>Configuration and connection\<close>

record auth_config =
  au_mode :: string
  au_principal_header :: string
  au_role_header :: string
  au_tenant_header :: string
  au_principal_cookie :: string
  au_role_cookie :: string
  au_tenant_cookie :: string
  au_token_cookie :: string
  au_jwt_roles_claim :: string
  au_jwt_scopes_claim :: string
  au_jwt_tenant_claim :: string
  au_jwt_default_role :: "string option"
  au_api_keys_enabled :: bool
  au_trusted_proxy_ips :: "string list"

text \<open>The headers as a lookup by lower-case name, the cookies by name, and the host of the transport peer.\<close>

record conn =
  cn_headers :: "string \<Rightarrow> string option"
  cn_cookies :: "string \<Rightarrow> string option"
  cn_peer :: "string option"

definition anonymous_principal :: principal where
  "anonymous_principal =
     \<lparr>pr_subject_id = ''anonymous'', pr_tenant_id = None, pr_roles = {''viewer''}, pr_scopes = {}, pr_claims = [],
      pr_display_name = None, pr_admin_session_scope = None, pr_tunnel_share = False\<rparr>"

definition cookie_value :: "conn \<Rightarrow> string \<Rightarrow> string option" where
  "cookie_value c key =
     (case cn_cookies c key of
        None \<Rightarrow> None
      | Some v \<Rightarrow> let t = str_strip v in if t = '''' then None else Some t)"

definition extract_bearer_token :: "(string \<Rightarrow> string option) \<Rightarrow> string option" where
  "extract_bearer_token headers =
     (let authorization = str_strip (case headers ''authorization'' of None \<Rightarrow> '''' | Some v \<Rightarrow> v);
          not_space = (\<lambda>x. x \<noteq> CHR '' '')
      in case dropWhile not_space authorization of
           [] \<Rightarrow> None
         | _ # rest \<Rightarrow>
             if str_lower (takeWhile not_space authorization) \<noteq> ''bearer'' then None
             else let token = str_strip rest in if token = '''' then None else Some token)"

definition connection_source_ip :: "conn \<Rightarrow> string" where
  "connection_source_ip c = (case cn_peer c of None \<Rightarrow> '''' | Some host \<Rightarrow> host)"

subsection \<open>Claims\<close>

text \<open>A claim of a decoded token. Of a list the \<open>str()\<close> of each element is kept.\<close>

datatype claim_value =
    CvNull | CvBool bool | CvInt int | CvFloat real | CvStr string | CvList "string list" | CvDict

type_synonym claims = "(string \<times> claim_value) list"

fun claim_of :: "claim_value \<Rightarrow> claim" where
  "claim_of (CvBool b) = ClBool b"
| "claim_of (CvInt i) = ClInt i"
| "claim_of (CvFloat x) = ClFloat x"
| "claim_of _ = ClOther"

definition claim_text :: "(claim_value \<Rightarrow> string) \<Rightarrow> claim_value \<Rightarrow> string" where
  "claim_text py_str v = (case v of CvStr s \<Rightarrow> s | _ \<Rightarrow> py_str v)"

definition role_pieces :: "auth_config \<Rightarrow> claims \<Rightarrow> string list" where
  "role_pieces au claims =
     (case od_get claims (au_jwt_roles_claim au) of
        Some (CvStr s) \<Rightarrow> map clean_role (words_by (\<lambda>c. c = CHR '','' \<or> py_space_char c) s)
      | Some (CvList xs) \<Rightarrow> map clean_role (filter (\<lambda>x. str_strip x \<noteq> '''') xs)
      | _ \<Rightarrow> [])"

definition roles_from_claims :: "auth_config \<Rightarrow> claims \<Rightarrow> string set" where
  "roles_from_claims au claims =
     (let pieces = role_pieces au claims; known = set pieces \<inter> KNOWN_ROLES;
          default_role = str_strip (case au_jwt_default_role au of None \<Rightarrow> '''' | Some r \<Rightarrow> r)
      in if known \<noteq> {} then known
         else if default_role \<noteq> '''' then filter_known_roles clean_role [default_role]
         else filter_known_roles clean_role pieces)"

definition scopes_from_claims :: "auth_config \<Rightarrow> claims \<Rightarrow> string set" where
  "scopes_from_claims au claims =
     (case od_get claims (au_jwt_scopes_claim au) of
        Some (CvStr s) \<Rightarrow> set (words_by py_space_char s)
      | Some (CvList xs) \<Rightarrow> set (filter (\<lambda>x. x \<noteq> '''') (map str_strip xs))
      | _ \<Rightarrow> {})"

definition admin_scope_pattern :: "string \<Rightarrow> bool" where
  "admin_scope_pattern s \<longleftrightarrow> s \<noteq> '''' \<and> length s \<le> 128 \<and> list_all (\<lambda>c. ascii_alnum c \<or> c \<in> set ''_-'') s"

definition admin_session_scope_from_claims :: "(claim_value \<Rightarrow> string) \<Rightarrow> claims \<Rightarrow> string option" where
  "admin_session_scope_from_claims py_str claims =
     (case od_get claims ''admin_session_scope'' of
        None \<Rightarrow> None
      | Some CvNull \<Rightarrow> None
      | Some raw \<Rightarrow> let t = str_strip (claim_text py_str raw) in if admin_scope_pattern t then Some t else None)"

text \<open>\<open>None\<close> is an exception: the token does not verify, it has no subject, or its tenant claim is invalid.\<close>

definition principal_from_jwt_token ::
  "(claim_value \<Rightarrow> string) \<Rightarrow> (string \<Rightarrow> claims option) \<Rightarrow> auth_config \<Rightarrow> string \<Rightarrow> principal option" where
  "principal_from_jwt_token py_str decode au token =
     (case decode token of
        None \<Rightarrow> None
      | Some claims \<Rightarrow>
          let subject = str_strip (case od_get claims ''sub'' of None \<Rightarrow> '''' | Some v \<Rightarrow> claim_text py_str v);
              raw_tenant =
                (case od_get claims (au_jwt_tenant_claim au) of
                   None \<Rightarrow> '''' | Some CvNull \<Rightarrow> '''' | Some v \<Rightarrow> str_strip (claim_text py_str v));
              tenant = canonical_tenant_id (Some raw_tenant)
          in if subject = '''' then None
             else if raw_tenant \<noteq> '''' \<and> tenant = None then None
             else Some \<lparr>pr_subject_id = subject, pr_tenant_id = tenant, pr_roles = roles_from_claims au claims,
                    pr_scopes = scopes_from_claims au claims, pr_claims = map (\<lambda>(k, v). (k, claim_of v)) claims,
                    pr_display_name = None, pr_admin_session_scope = admin_session_scope_from_claims py_str claims,
                    pr_tunnel_share = False\<rparr>)"

subsection \<open>The local provider\<close>

definition header_role :: "auth_config \<Rightarrow> conn \<Rightarrow> string" where
  "header_role au c = first_text [cn_headers c (au_role_header au), cookie_value c (au_role_cookie au)]"

definition principal_from_header_auth :: "auth_config \<Rightarrow> conn \<Rightarrow> principal" where
  "principal_from_header_auth au c =
     (let subject = first_text [cn_headers c (au_principal_header au), cookie_value c (au_principal_cookie au),
            Some ''anonymous''];
          roles = filter_known_roles clean_role [header_role au c];
          raw_tenant = first_text [cn_headers c (au_tenant_header au), cookie_value c (au_tenant_cookie au)];
          tenant = canonical_tenant_id (Some raw_tenant)
      in if str_strip raw_tenant \<noteq> '''' \<and> tenant = None then anonymous_principal
         else \<lparr>pr_subject_id = subject, pr_tenant_id = tenant, pr_roles = roles, pr_scopes = {}, pr_claims = [],
                pr_display_name = None, pr_admin_session_scope = None, pr_tunnel_share = False\<rparr>)"

text \<open>The principal of a connection; \<open>None\<close> is the \<open>ValueError\<close> of an unknown mode.\<close>

definition bearer_or_cookie :: "auth_config \<Rightarrow> conn \<Rightarrow> string option" where
  "bearer_or_cookie au c =
     (case extract_bearer_token (cn_headers c) of Some t \<Rightarrow> Some t | None \<Rightarrow> cookie_value c (au_token_cookie au))"

definition resolve_principal_sync ::
  "(string \<Rightarrow> string) \<Rightarrow> (claim_value \<Rightarrow> string) \<Rightarrow> (string \<Rightarrow> claims option) \<Rightarrow> auth_config \<Rightarrow> conn \<Rightarrow> time \<Rightarrow>
   key_store option \<Rightarrow> principal option \<times> key_store option" where
  "resolve_principal_sync H py_str decode au c now store =
     (case principal_from_api_key H (au_api_keys_enabled au) (cn_headers c ''x-api-key'') now store of
        (Some p, store') \<Rightarrow> (Some p, store')
      | (None, store') \<Rightarrow>
          let mode = clean_role (au_mode au); trusted = au_trusted_proxy_ips au in
          if mode = ''header'' then
            if trusted \<noteq> [] \<and> connection_source_ip c \<notin> set trusted then (Some anonymous_principal, store')
            else (Some (principal_from_header_auth au c), store')
          else if mode \<noteq> ''jwt'' then (None, store')
          else case bearer_or_cookie au c of
                 None \<Rightarrow> (Some anonymous_principal, store')
               | Some token \<Rightarrow>
                   (case principal_from_jwt_token py_str decode au token of
                      None \<Rightarrow> (Some anonymous_principal, store')
                    | Some p \<Rightarrow> (Some p, store')))"

subsection \<open>The cache of JWKS clients\<close>

definition JWKS_CLIENT_CACHE_MAX :: nat where "JWKS_CLIENT_CACHE_MAX = 16"

text \<open>\<open>build\<close> makes a client for a URL; the older half goes when the cache is full.\<close>

definition jwks_client :: "(string \<Rightarrow> 'c) \<Rightarrow> string \<Rightarrow> (string \<times> 'c) list \<Rightarrow> 'c \<times> (string \<times> 'c) list" where
  "jwks_client build url cache =
     (case od_get cache url of
        Some client \<Rightarrow> (client, cache)
      | None \<Rightarrow>
          let cache' = (if JWKS_CLIENT_CACHE_MAX \<le> length cache then drop (JWKS_CLIENT_CACHE_MAX div 2) cache else cache);
              client = build url
          in (client, od_set cache' url client))"

lemma jwks_client_bounded:
  assumes "od_ok cache" "length cache \<le> JWKS_CLIENT_CACHE_MAX"
  shows "od_ok (snd (jwks_client build url cache)) \<and> length (snd (jwks_client build url cache)) \<le> JWKS_CLIENT_CACHE_MAX \<and>
    od_get (snd (jwks_client build url cache)) url = Some (fst (jwks_client build url cache))"
proof -
  have "od_ok (drop n cache)" for n using assms(1) by (simp add: drop_map [symmetric])
  then show ?thesis using assms
    by (auto simp: jwks_client_def Let_def JWKS_CLIENT_CACHE_MAX_def length_od_set intro: od_ok_set split: option.splits)
qed

subsection \<open>Where a role comes from\<close>

definition key_vouches :: "(string \<Rightarrow> string) \<Rightarrow> auth_config \<Rightarrow> conn \<Rightarrow> time \<Rightarrow> key_store \<Rightarrow> string \<Rightarrow> bool" where
  "key_vouches H au c now s role \<longleftrightarrow>
     au_api_keys_enabled au \<and>
     (\<exists>header r. cn_headers c ''x-api-key'' = Some header \<and> live_key (H (str_strip header)) now s = Some r \<and>
        canonical_tenant_id (Some (ak_tenant_id r)) \<noteq> None \<and> role_of_scopes (ak_scopes r) = Some role)"

definition header_vouches :: "auth_config \<Rightarrow> conn \<Rightarrow> string \<Rightarrow> bool" where
  "header_vouches au c role \<longleftrightarrow>
     clean_role (au_mode au) = ''header'' \<and>
     (au_trusted_proxy_ips au = [] \<or> connection_source_ip c \<in> set (au_trusted_proxy_ips au)) \<and>
     role = clean_role (header_role au c)"

definition token_vouches :: "(string \<Rightarrow> claims option) \<Rightarrow> auth_config \<Rightarrow> conn \<Rightarrow> string \<Rightarrow> bool" where
  "token_vouches decode au c role \<longleftrightarrow>
     clean_role (au_mode au) = ''jwt'' \<and>
     (\<exists>token claims. bearer_or_cookie au c = Some token \<and> decode token = Some claims \<and>
        (role \<in> set (role_pieces au claims) \<or>
         set (role_pieces au claims) \<inter> KNOWN_ROLES = {} \<and>
         (\<exists>d. au_jwt_default_role au = Some d \<and> role = clean_role d)))"

lemma lower_char:
  fixes c :: char
  defines "n \<equiv> of_char c :: nat"
  defines "d \<equiv> char_of (if 65 \<le> n \<and> n \<le> 90 \<or> 192 \<le> n \<and> n \<le> 222 \<and> n \<noteq> 215 then n + 32 else n) :: char"
  shows "of_char d = (if 65 \<le> n \<and> n \<le> 90 \<or> 192 \<le> n \<and> n \<le> 222 \<and> n \<noteq> 215 then n + 32 else n)"
  using nat_of_char_less_256 [of c] unfolding d_def n_def by (simp add: of_char_of)

lemma str_lower_map: "str_lower s = map (\<lambda>c. char_of (hd (latin_lower [of_char c]))) s"
  by (simp add: str_lower_def latin_lower_def)

lemma str_lower_idem: "str_lower (str_lower s) = str_lower s"
  using lower_char by (simp add: str_lower_map latin_lower_def)

lemma space_lower: "py_space_char (char_of (hd (latin_lower [of_char c]))) = py_space_char c"
  using lower_char [of c] by (auto simp: latin_lower_def py_space_char_def py_space_def)

lemma strip_lower: "str_strip (str_lower s) = str_lower (str_strip s)"
  by (simp add: str_strip_def str_lower_map dropWhile_map rev_map comp_def space_lower)

lemma clean_idem [simp]: "clean_role (clean_role s) = clean_role s"
  by (simp add: clean_role_def strip_lower str_lower_idem)

lemma filter_known_sub: "filter_known_roles clean rs \<subseteq> KNOWN_ROLES"
  by (auto simp: filter_known_roles_def KNOWN_ROLES_def Let_def)

lemma filter_known_ne: "filter_known_roles clean rs \<noteq> {}"
  by (simp add: filter_known_roles_def Let_def)

lemma filter_known_from: "role \<in> filter_known_roles clean rs \<Longrightarrow> role = ''viewer'' \<or> role \<in> clean ` set rs"
  by (auto simp: filter_known_roles_def Let_def split: if_splits)

lemma roles_from_claims_cases:
  assumes "role \<in> roles_from_claims au claims"
  shows "role \<in> KNOWN_ROLES"
    and "role = ''viewer'' \<or> role \<in> set (role_pieces au claims) \<or>
      set (role_pieces au claims) \<inter> KNOWN_ROLES = {} \<and> (\<exists>d. au_jwt_default_role au = Some d \<and> role = clean_role d)"
proof -
  show "role \<in> KNOWN_ROLES"
    using assms filter_known_sub by (fastforce simp: roles_from_claims_def Let_def split: if_splits)
next
  have c: "clean_role (str_strip d) = clean_role d" for d by (simp add: clean_role_def)
  have e: "str_strip '''' = ''''" by (simp add: str_strip_def)
  have p: "clean_role x = x" if "x \<in> set (role_pieces au claims)" for x
  proof (cases "od_get claims (au_jwt_roles_claim au)")
    case (Some v)
    with that show ?thesis by (cases v) (auto simp: role_pieces_def)
  qed (use that in \<open>simp add: role_pieces_def\<close>)
  show "role = ''viewer'' \<or> role \<in> set (role_pieces au claims) \<or>
      set (role_pieces au claims) \<inter> KNOWN_ROLES = {} \<and> (\<exists>d. au_jwt_default_role au = Some d \<and> role = clean_role d)"
    using assms by (auto simp: roles_from_claims_def Let_def c e p dest!: filter_known_from split: if_splits option.splits)
qed

lemma key_principal_roles:
  assumes "keys_ok s"
    and "fst (principal_from_api_key H (au_api_keys_enabled au) (cn_headers c ''x-api-key'') now (Some s)) = Some p"
    and "role \<in> pr_roles p"
  shows "role \<in> KNOWN_ROLES \<and> key_vouches H au c now s role"
proof -
  obtain header where h: "cn_headers c ''x-api-key'' = Some header"
    using assms(2) by (cases "cn_headers c ''x-api-key''") (auto simp: principal_from_api_key_def str_strip_def Let_def split: if_splits)
  note e = assms(2) [unfolded principal_from_api_key_eq [OF assms(1)] h Let_def option.case]
  then obtain r where r: "au_api_keys_enabled au" "live_key (H (str_strip header)) now s = Some r"
    by (auto split: if_splits option.splits)
  with e obtain tenant role' where t: "canonical_tenant_id (Some (ak_tenant_id r)) = Some tenant"
      "role_of_scopes (ak_scopes r) = Some role'" "p = key_principal r tenant role'"
    by (auto split: if_splits option.splits)
  with assms(3) have "role' = role" by (simp add: key_principal_def)
  with r t h show ?thesis by (auto simp: key_vouches_def role_of_scopes_def KNOWN_ROLES_def split: if_splits)
qed

lemma header_roles:
  "role \<in> pr_roles (principal_from_header_auth au c) \<Longrightarrow>
   role \<in> KNOWN_ROLES \<and> (role = ''viewer'' \<or> role = clean_role (header_role au c))"
  by (auto simp: principal_from_header_auth_def Let_def anonymous_principal_def filter_known_single KNOWN_ROLES_def
      split: if_splits)


definition demo_auth :: "string \<Rightarrow> auth_config" where
  "demo_auth mode =
     \<lparr>au_mode = mode, au_principal_header = ''x-uterm-principal'', au_role_header = ''x-uterm-role'',
      au_tenant_header = ''x-uterm-tenant'', au_principal_cookie = ''uterm_principal'', au_role_cookie = ''uterm_role'',
      au_tenant_cookie = ''uterm_tenant'', au_token_cookie = ''uterm_token'', au_jwt_roles_claim = ''roles'',
      au_jwt_scopes_claim = ''scope'', au_jwt_tenant_claim = ''tenant_id'', au_jwt_default_role = None,
      au_api_keys_enabled = True, au_trusted_proxy_ips = [''p'']\<rparr>"

definition demo_conn :: conn where
  "demo_conn = \<lparr>cn_headers = (\<lambda>h. if h = ''x-uterm-role'' then Some '' Admin'' else None), cn_cookies = (\<lambda>_. None),
     cn_peer = Some ''p''\<rparr>"


end
