(* ===== verification/WebhookIdentity.thy ===== *)
theory WebhookIdentity
  imports IdentityProviders
begin

text \<open>
  \<open>WebhookIdentityProvider\<close> with its replay cache (\<open>server/auth_webhook.py\<close>) and the signature of its
  responses (\<open>server/webhook_signing.py\<close>). The HMAC is a parameter (\<open>mac\<close>, with the encoding of the secret
  in it), as are \<open>float()\<close> of a header, \<open>json.loads\<close> and \<open>json.dumps\<close>, and what Python makes of JSON values
  that are no text. HTTP is given by the response it brought, \<open>None\<close> when anything on the way raised (the
  egress guard and \<open>raise_for_status\<close> included).
\<close>

subsection \<open>Signatures\<close>

definition build_webhook_signature :: "(string \<Rightarrow> byte list \<Rightarrow> string) \<Rightarrow> string \<Rightarrow> byte list \<Rightarrow> string \<Rightarrow> string" where
  "build_webhook_signature mac secret body timestamp =
     ''sha256='' @ mac secret (utf8_bytes (pystr_of timestamp) @ [46] @ body)"

text \<open>A float as \<open>float()\<close> reads it: comparisons with a NaN are false, an infinity is far from every clock.\<close>

datatype pyfloat = PyNan | PyInf | PyFin real

definition stale_timestamp :: "real \<Rightarrow> time \<Rightarrow> pyfloat \<Rightarrow> bool" where
  "stale_timestamp max_age now ts =
     (case ts of PyNan \<Rightarrow> False | PyInf \<Rightarrow> True | PyFin t \<Rightarrow> \<bar>now - t\<bar> > max_age)"

definition MAX_AGE_S :: real where "MAX_AGE_S = 300"

text \<open>The digest a signature header supplies.\<close>

definition supplied_digest :: "string \<Rightarrow> string" where
  "supplied_digest header =
     (let supplied = str_strip header
      in if prefix ''sha256='' (str_lower supplied)
         then str_strip (tl (dropWhile (\<lambda>c. c \<noteq> CHR ''='') supplied)) else supplied)"

definition is_ascii :: "string \<Rightarrow> bool" where
  "is_ascii s \<longleftrightarrow> list_all (\<lambda>c. (of_char c :: nat) < 128) s"

text \<open>\<open>None\<close> is the \<open>TypeError\<close> that \<open>hmac.compare_digest\<close> raises on text that is not ASCII.\<close>

definition verify_webhook_signature ::
  "(string \<Rightarrow> byte list \<Rightarrow> string) \<Rightarrow> (string \<Rightarrow> pyfloat option) \<Rightarrow> string option \<Rightarrow> byte list \<Rightarrow>
   string option \<Rightarrow> string option \<Rightarrow> real \<Rightarrow> time \<Rightarrow> bool option" where
  "verify_webhook_signature mac to_float secret body signature_header timestamp_header max_age now =
     (let key = (case secret of None \<Rightarrow> '''' | Some s \<Rightarrow> s)
      in if str_strip key = '''' then Some False
         else case (signature_header, timestamp_header) of
                (Some sig, Some ts) \<Rightarrow>
                  if sig = '''' \<or> ts = '''' then Some False
                  else (case to_float ts of
                          None \<Rightarrow> Some False
                        | Some ts_val \<Rightarrow>
                            if stale_timestamp max_age now ts_val then Some False
                            else let supplied = supplied_digest sig;
                                     expected = tl (dropWhile (\<lambda>c. c \<noteq> CHR ''='') (build_webhook_signature mac key body ts))
                                 in if supplied = '''' then Some False
                                    else if \<not> is_ascii supplied \<or> \<not> is_ascii expected then None
                                    else Some (supplied = expected))
              | _ \<Rightarrow> Some False)"

lemma expected_digest:
  "tl (dropWhile (\<lambda>c. c \<noteq> CHR ''='') (build_webhook_signature mac key body ts)) =
     mac key (utf8_bytes (pystr_of ts) @ [46] @ body)"
  by (simp add: build_webhook_signature_def)

subsection \<open>The replay cache\<close>

type_synonym replay_cache = "(string \<times> time) list"

definition REPLAY_CACHE_MAX_ENTRIES :: nat where "REPLAY_CACHE_MAX_ENTRIES = 4096"

fun purge_stale :: "real \<Rightarrow> time \<Rightarrow> replay_cache \<Rightarrow> replay_cache" where
  "purge_stale max_age now [] = []"
| "purge_stale max_age now ((sig, t) # seen) =
     (if now - t > max_age then purge_stale max_age now seen else (sig, t) # seen)"

text \<open>\<open>move_to_end\<close> after storing is removing and appending; the loop over \<open>popitem\<close> leaves the last \<open>max_entries\<close>.\<close>

definition seen_or_record :: "real \<Rightarrow> nat \<Rightarrow> string \<Rightarrow> time \<Rightarrow> replay_cache \<Rightarrow> bool \<times> replay_cache" where
  "seen_or_record max_age max_entries sig now cache =
     (let seen = purge_stale max_age now cache
      in if (case od_get seen sig of None \<Rightarrow> False | Some t \<Rightarrow> now - t \<le> max_age) then (True, seen)
         else let seen' = od_pop seen sig @ [(sig, now)]
              in (False, drop (length seen' - max_entries) seen'))"

subsection \<open>The provider\<close>

record idp =
  ip_secret :: "string option"
  ip_on_failure :: string
  ip_require_signed :: bool
  ip_require_nonce :: bool
  ip_forward_headers :: "string set"
  ip_forward_cookies :: "string set"

text \<open>The constructor refuses any other failure mode.\<close>

definition make_idp ::
  "string option \<Rightarrow> string \<Rightarrow> bool \<Rightarrow> bool \<Rightarrow> string set option \<Rightarrow> string set option \<Rightarrow> idp option" where
  "make_idp secret on_failure require_signed_response require_response_nonce headers cookies =
     (if on_failure \<notin> {''deny'', ''viewer''} then None
      else Some \<lparr>ip_secret = secret, ip_on_failure = on_failure, ip_require_signed = require_signed_response,
             ip_require_nonce = require_response_nonce,
             ip_forward_headers = (case headers of None \<Rightarrow> {} | Some h \<Rightarrow> h),
             ip_forward_cookies = (case cookies of None \<Rightarrow> {} | Some c \<Rightarrow> c)\<rparr>)"

text \<open>
  The request: what is forwarded, the body made of it (\<open>dumps\<close> of headers, cookies and nonce) and the
  headers sent with it, without the trace context the telemetry library adds.
\<close>

record idp_call =
  ic_headers :: "(string \<times> string) list"
  ic_cookies :: "(string \<times> string) list"
  ic_body :: "byte list"
  ic_request_headers :: "(string \<times> string) list"

definition idp_request ::
  "(string \<Rightarrow> byte list \<Rightarrow> string) \<Rightarrow>
   ((string \<times> string) list \<Rightarrow> (string \<times> string) list \<Rightarrow> string \<Rightarrow> byte list) \<Rightarrow> idp \<Rightarrow>
   (string \<times> string) list \<Rightarrow> (string \<times> string) list \<Rightarrow> string \<Rightarrow> string \<Rightarrow> idp_call" where
  "idp_request mac dumps ip all_headers all_cookies nonce ts =
     (let headers = filter (\<lambda>(k, v). str_lower k \<in> ip_forward_headers ip) all_headers;
          cookies = filter (\<lambda>(k, v). k \<in> ip_forward_cookies ip) all_cookies;
          body = dumps headers cookies nonce;
          signing =
            (case ip_secret ip of
               None \<Rightarrow> []
             | Some secret \<Rightarrow>
                 if secret = '''' then []
                 else [(''X-Uterm-Timestamp'', ts), (''X-Uterm-Signature'', build_webhook_signature mac secret body ts)])
      in \<lparr>ic_headers = headers, ic_cookies = cookies, ic_body = body,
          ic_request_headers = [(''Content-Type'', ''application/json''), (''X-Uterm-Nonce'', nonce)] @ signing\<rparr>)"

text \<open>
  What Python makes of the JSON of a response: \<open>loads\<close>, \<open>str\<close>, iterating (\<open>None\<close> when it raises), a
  \<open>frozenset\<close> of text, and how a subject, a display name and claims are carried.
\<close>

record idp_json =
  ij_loads :: "byte list \<Rightarrow> json option"
  ij_str :: "json \<Rightarrow> string"
  ij_elements :: "json \<Rightarrow> json list option"
  ij_scopes :: "json \<Rightarrow> string set option"
  ij_claims :: "json \<Rightarrow> (string \<times> claim) list"
  ij_name :: "json \<Rightarrow> string option"

definition nonce_ok :: "idp \<Rightarrow> (json \<Rightarrow> string) \<Rightarrow> json option \<Rightarrow> string \<Rightarrow> bool" where
  "nonce_ok ip py_str echoed nonce =
     (case echoed of
        None \<Rightarrow> \<not> ip_require_nonce ip
      | Some JNull \<Rightarrow> \<not> ip_require_nonce ip
      | Some v \<Rightarrow> py_str v = nonce)"

definition field_or :: "jdict \<Rightarrow> string \<Rightarrow> json \<Rightarrow> json" where
  "field_or d key dflt = (case od_get d (pystr_of key) of None \<Rightarrow> dflt | Some v \<Rightarrow> v)"

definition idp_principal :: "idp_json \<Rightarrow> jdict \<Rightarrow> principal option" where
  "idp_principal js d =
     (case (od_get d (pystr_of ''subject_id''),
            ij_elements js (field_or d ''roles'' (JArr [JStr (pystr_of ''viewer'')])),
            ij_scopes js (field_or d ''scopes'' (JArr []))) of
        (Some subject, Some roles, Some scopes) \<Rightarrow>
          Some \<lparr>pr_subject_id = ij_str js subject, pr_tenant_id = None,
                pr_roles = filter_known_roles (\<lambda>v. clean_role (ij_str js v)) roles, pr_scopes = scopes,
                pr_claims = ij_claims js (field_or d ''claims'' (JObj [])),
                pr_display_name = ij_name js (field_or d ''display_name'' JNull),
                pr_admin_session_scope = None, pr_tunnel_share = False\<rparr>
      | _ \<Rightarrow> None)"

text \<open>A response without a signature header has no key for the cache.\<close>

definition replay_check :: "response \<Rightarrow> time \<Rightarrow> replay_cache \<Rightarrow> bool \<times> replay_cache" where
  "replay_check r t2 c =
     (case re_signature r of
        None \<Rightarrow> (False, c)
      | Some sig \<Rightarrow> if sig = '''' then (False, c) else seen_or_record MAX_AGE_S REPLAY_CACHE_MAX_ENTRIES sig t2 c)"

text \<open>
  The checks of a response, in order; \<open>None\<close> is an exception. \<open>t1\<close> is the clock the signature check
  reads, \<open>t2\<close> the reading the replay cache is given.
\<close>

definition idp_check ::
  "(string \<Rightarrow> byte list \<Rightarrow> string) \<Rightarrow> (string \<Rightarrow> pyfloat option) \<Rightarrow> idp_json \<Rightarrow> idp \<Rightarrow> string \<Rightarrow> time \<Rightarrow> time \<Rightarrow>
   response option \<Rightarrow> replay_cache \<Rightarrow> principal option \<times> replay_cache" where
  "idp_check mac to_float js ip nonce t1 t2 resp cache =
     (case resp of
        None \<Rightarrow> (None, cache)
      | Some r \<Rightarrow>
          if ip_require_signed ip \<and>
             verify_webhook_signature mac to_float (ip_secret ip) (re_content r) (re_signature r) (re_timestamp r)
               MAX_AGE_S t1 \<noteq> Some True
          then (None, cache)
          else let (replay, cache') = replay_check r t2 cache
               in if replay then (None, cache')
                  else case ij_loads js (re_content r) of
                         Some (JObj d) \<Rightarrow>
                           if \<not> nonce_ok ip (ij_str js) (od_get d (pystr_of ''nonce'')) nonce then (None, cache')
                           else (idp_principal js d, cache')
                       | _ \<Rightarrow> (None, cache'))"

definition idp_resolve ::
  "(string \<Rightarrow> byte list \<Rightarrow> string) \<Rightarrow> (string \<Rightarrow> pyfloat option) \<Rightarrow> idp_json \<Rightarrow> idp \<Rightarrow> string \<Rightarrow> time \<Rightarrow> time \<Rightarrow>
   response option \<Rightarrow> replay_cache \<Rightarrow> principal option \<times> replay_cache" where
  "idp_resolve mac to_float js ip nonce t1 t2 resp cache =
     (case idp_check mac to_float js ip nonce t1 t2 resp cache of
        (Some p, cache') \<Rightarrow> (Some p, cache')
      | (None, cache') \<Rightarrow> (if ip_on_failure ip = ''viewer'' then Some anonymous_principal else None, cache'))"

subsection \<open>What the cache keeps\<close>

text \<open>How many entries stand behind one.\<close>

fun entries_behind :: "string \<Rightarrow> replay_cache \<Rightarrow> nat" where
  "entries_behind k [] = 0"
| "entries_behind k ((sig, t) # c) = (if sig = k then length c else entries_behind k c)"

lemma purge_ok: "od_ok c \<Longrightarrow> od_ok (purge_stale ma now c)"
  by (induction ma now c rule: purge_stale.induct) simp_all

lemma purge_length: "length (purge_stale ma now c) \<le> length c"
  by (induction ma now c rule: purge_stale.induct) (auto intro: le_SucI)

lemma purge_keeps:
  "od_get c k = Some t \<Longrightarrow> now - t \<le> ma \<Longrightarrow>
   od_get (purge_stale ma now c) k = Some t \<and> entries_behind k (purge_stale ma now c) = entries_behind k c"
  by (induction ma now c rule: purge_stale.induct) (auto split: if_splits)

lemma append_entry:
  "od_get c k = Some t \<Longrightarrow> od_get (c @ d) k = Some t \<and> entries_behind k (c @ d) = entries_behind k c + length d"
  by (induction k c rule: entries_behind.induct) auto

lemma append_fresh:
  "od_get c k = None \<Longrightarrow> od_get (c @ [(k, t)]) k = Some t \<and> entries_behind k (c @ [(k, t)]) = 0"
  by (induction k c rule: entries_behind.induct) (auto split: if_splits)

lemma pop_behind: "sig \<noteq> k \<Longrightarrow> entries_behind k (od_pop c sig) \<le> entries_behind k c"
  by (induction k c rule: entries_behind.induct) (auto simp: length_od_pop_le)

lemma behind_lt: "od_get c k = Some t \<Longrightarrow> entries_behind k c < length c"
  by (induction k c rule: entries_behind.induct) (auto split: if_splits)

lemma drop_entry:
  "od_get c k = Some t \<Longrightarrow> entries_behind k c + n < length c \<Longrightarrow>
   od_get (drop n c) k = Some t \<and> entries_behind k (drop n c) = entries_behind k c"
proof (induction k c arbitrary: n rule: entries_behind.induct)
  case (2 k sig u c)
  then show ?case by (cases n) (auto split: if_splits)
qed simp

definition cache_ok :: "nat \<Rightarrow> replay_cache \<Rightarrow> bool" where
  "cache_ok mx c \<longleftrightarrow> od_ok c \<and> length c \<le> mx"

lemma popped_ok: "od_ok c \<Longrightarrow> od_ok (od_pop c sig @ [(sig, now)])"
  by (simp add: od_ok_pop od_pop_keys)

lemma drop_ok: "od_ok c \<Longrightarrow> od_ok (drop n c)"
  by (simp flip: drop_map)

lemma cache_record_ok: "cache_ok mx c \<Longrightarrow> cache_ok mx (snd (seen_or_record ma mx sig now c))"
  using purge_length [of ma now c] drop_ok [OF popped_ok [OF purge_ok]]
  by (auto simp: cache_ok_def seen_or_record_def Let_def purge_ok simp del: drop_append map_append)

text \<open>A recorded signature is still there, one place nearer to eviction at most.\<close>

lemma record_keeps:
  assumes "od_ok c" "od_get c k = Some t" "now - t \<le> ma" "Suc (entries_behind k c) < mx"
  shows "od_get (snd (seen_or_record ma mx sig now c)) k = Some t \<and>
    entries_behind k (snd (seen_or_record ma mx sig now c)) \<le> Suc (entries_behind k c)"
proof -
  let ?s = "purge_stale ma now c" and ?s' = "od_pop (purge_stale ma now c) sig @ [(sig, now)]"
  note p = purge_keeps [OF assms(2,3)] and ok = purge_ok [OF assms(1), of ma now]
  show ?thesis
  proof (cases "fst (seen_or_record ma mx sig now c)")
    case True
    then show ?thesis using p by (auto simp: seen_or_record_def Let_def split: if_splits)
  next
    case False
    with p assms(3) have ne: "sig \<noteq> k" by (auto simp: seen_or_record_def Let_def)
    have "od_get (od_pop ?s sig) k = Some t" using p ok ne by simp
    from append_entry [OF this, of "[(sig, now)]"] pop_behind [OF ne, of ?s] p
    have a: "od_get ?s' k = Some t" "entries_behind k ?s' \<le> Suc (entries_behind k c)" by auto
    have "entries_behind k ?s' < length ?s'" by (rule behind_lt [OF a(1)])
    with a(2) assms(4) have "entries_behind k ?s' + (length ?s' - mx) < length ?s'" by linarith
    from drop_entry [OF a(1) this] a(2) False show ?thesis by (auto simp: seen_or_record_def Let_def split: if_splits)
  qed
qed

lemma recorded:
  assumes "od_ok c" "0 < mx" "\<not> fst (seen_or_record ma mx sig now c)"
  shows "od_get (snd (seen_or_record ma mx sig now c)) sig = Some now \<and>
    entries_behind sig (snd (seen_or_record ma mx sig now c)) = 0"
proof -
  let ?p = "od_pop (purge_stale ma now c) sig"
  have "od_get ?p sig = None" using purge_ok [OF assms(1)] by simp
  from append_fresh [OF this, of now]
  have a: "od_get (?p @ [(sig, now)]) sig = Some now \<and> entries_behind sig (?p @ [(sig, now)]) = 0" .
  then show ?thesis
    using drop_entry [of "?p @ [(sig, now)]" sig now "length (?p @ [(sig, now)]) - mx"] assms(2,3)
    by (auto simp: seen_or_record_def Let_def split: if_splits)
qed

subsection \<open>Runs of the provider\<close>

text \<open>A resolution: its nonce, its two clock readings and the response it got.\<close>

type_synonym resolution = "string \<times> time \<times> time \<times> response option"

definition idp_run ::
  "(string \<Rightarrow> byte list \<Rightarrow> string) \<Rightarrow> (string \<Rightarrow> pyfloat option) \<Rightarrow> idp_json \<Rightarrow> idp \<Rightarrow> resolution list \<Rightarrow>
   replay_cache \<Rightarrow> replay_cache" where
  "idp_run mac to_float js ip es cache =
     fold (\<lambda>(nonce, t1, t2, resp) c. snd (idp_resolve mac to_float js ip nonce t1 t2 resp c)) es cache"

lemma idp_resolve_cache: "snd (idp_resolve mac tf js ip nonce t1 t2 resp c) = snd (idp_check mac tf js ip nonce t1 t2 resp c)"
  by (simp add: idp_resolve_def split: prod.splits option.splits)

lemma idp_check_Some:
  "idp_check mac tf js ip nonce t1 t2 (Some r) c =
     (if ip_require_signed ip \<and>
         verify_webhook_signature mac tf (ip_secret ip) (re_content r) (re_signature r) (re_timestamp r) MAX_AGE_S t1 \<noteq> Some True
      then (None, c)
      else if fst (replay_check r t2 c) then (None, snd (replay_check r t2 c))
      else case ij_loads js (re_content r) of
             Some (JObj d) \<Rightarrow>
               if \<not> nonce_ok ip (ij_str js) (od_get d (pystr_of ''nonce'')) nonce then (None, snd (replay_check r t2 c))
               else (idp_principal js d, snd (replay_check r t2 c))
           | _ \<Rightarrow> (None, snd (replay_check r t2 c)))"
  by (simp add: idp_check_def Let_def case_prod_beta)

text \<open>A resolution leaves the cache alone or records the signature of its response.\<close>

lemma idp_check_cache:
  "snd (idp_check mac tf js ip nonce t1 t2 resp c) = c \<or>
   (\<exists>sig. snd (idp_check mac tf js ip nonce t1 t2 resp c) =
      snd (seen_or_record MAX_AGE_S REPLAY_CACHE_MAX_ENTRIES sig t2 c))"
proof (cases resp)
  case (Some r)
  have "snd (idp_check mac tf js ip nonce t1 t2 resp c) \<in> {c, snd (replay_check r t2 c)}"
    unfolding Some idp_check_Some by (simp split: option.split json.split)
  moreover have "snd (replay_check r t2 c) = c \<or>
      (\<exists>sig. snd (replay_check r t2 c) = snd (seen_or_record MAX_AGE_S REPLAY_CACHE_MAX_ENTRIES sig t2 c))"
    by (cases "re_signature r") (auto simp: replay_check_def)
  ultimately show ?thesis by auto
qed (simp add: idp_check_def)

lemma idp_step_ok:
  "cache_ok REPLAY_CACHE_MAX_ENTRIES c \<Longrightarrow>
   cache_ok REPLAY_CACHE_MAX_ENTRIES (snd (idp_resolve mac tf js ip nonce t1 t2 resp c))"
  using idp_check_cache [of mac tf js ip nonce t1 t2 resp c] cache_record_ok by (auto simp: idp_resolve_cache)

interpretation idp_cache: safe_system "\<lambda>c. c = []"
  "\<lambda>c d. \<exists>nonce t1 t2 resp. d = snd (idp_resolve mac tf js ip nonce t1 t2 resp c)"
  "cache_ok REPLAY_CACHE_MAX_ENTRIES" for mac tf js ip
  by unfold_locales (auto simp: cache_ok_def [of _ "[]"] intro: idp_step_ok)

lemma idp_run_ok:
  "cache_ok REPLAY_CACHE_MAX_ENTRIES c \<Longrightarrow> cache_ok REPLAY_CACHE_MAX_ENTRIES (idp_run mac tf js ip es c)"
proof (induction es arbitrary: c)
  case (Cons e es)
  obtain nonce t1 t2 resp where e: "e = (nonce, t1, t2, resp)" by (cases e) auto
  show ?case using Cons.IH [OF idp_step_ok [OF Cons.prems]] by (simp add: idp_run_def e)
qed (simp add: idp_run_def)

lemma idp_run_keeps:
  "cache_ok REPLAY_CACHE_MAX_ENTRIES c \<Longrightarrow> od_get c k = Some t \<Longrightarrow>
   entries_behind k c + length es < REPLAY_CACHE_MAX_ENTRIES \<Longrightarrow>
   list_all (\<lambda>(nonce, t1, t2, resp). t2 - t \<le> MAX_AGE_S) es \<Longrightarrow> od_get (idp_run mac tf js ip es c) k = Some t"
proof (induction es arbitrary: c)
  case (Cons e es)
  obtain nonce t1 t2 resp where e: "e = (nonce, t1, t2, resp)" by (cases e) auto
  let ?c = "snd (idp_check mac tf js ip nonce t1 t2 resp c)"
  have od: "od_ok c" using Cons.prems(1) by (simp add: cache_ok_def)
  have w: "t2 - t \<le> MAX_AGE_S" "Suc (entries_behind k c) < REPLAY_CACHE_MAX_ENTRIES \<or> es = []"
    using Cons.prems(3,4) e by auto
  have lt: "Suc (entries_behind k c) < REPLAY_CACHE_MAX_ENTRIES"
    using Cons.prems(3) by simp
  have "od_get ?c k = Some t \<and> entries_behind k ?c \<le> Suc (entries_behind k c)"
    using idp_check_cache [of mac tf js ip nonce t1 t2 resp c] record_keeps [OF od Cons.prems(2) w(1) lt] Cons.prems(2)
    by auto
  then show ?case
    using Cons.IH [of ?c] idp_step_ok [OF Cons.prems(1), of mac tf js ip nonce t1 t2 resp] Cons.prems(3,4)
    by (simp add: idp_run_def e idp_resolve_cache)
qed (simp add: idp_run_def)

text \<open>What an accepted response has passed.\<close>

lemma idp_check_accepts:
  assumes "fst (idp_check mac tf js ip nonce t1 t2 resp c) = Some p"
  shows "\<exists>r d. resp = Some r \<and> ij_loads js (re_content r) = Some (JObj d) \<and> idp_principal js d = Some p \<and>
    nonce_ok ip (ij_str js) (od_get d (pystr_of ''nonce'')) nonce \<and>
    (ip_require_signed ip \<longrightarrow>
      verify_webhook_signature mac tf (ip_secret ip) (re_content r) (re_signature r) (re_timestamp r) MAX_AGE_S t1 = Some True) \<and>
    \<not> fst (replay_check r t2 c) \<and> snd (idp_check mac tf js ip nonce t1 t2 resp c) = snd (replay_check r t2 c)"
proof (cases resp)
  case (Some r)
  note e = assms [unfolded Some idp_check_Some]
  from e obtain d where d: "ij_loads js (re_content r) = Some (JObj d)"
    by (cases "ij_loads js (re_content r)") (auto split: if_splits json.splits)
  from e show ?thesis unfolding Some idp_check_Some by (auto simp: d split: if_splits)
qed (use assms in \<open>simp add: idp_check_def\<close>)

lemma verify_True:
  assumes "verify_webhook_signature mac tf secret body sig ts max_age now = Some True"
  shows "\<exists>key s t v. secret = Some key \<and> str_strip key \<noteq> '''' \<and> sig = Some s \<and> ts = Some t \<and> s \<noteq> '''' \<and>
    tf t = Some v \<and> \<not> stale_timestamp max_age now v \<and>
    supplied_digest s = mac key (utf8_bytes (pystr_of t) @ [46] @ body)"
  using assms
  by (auto simp: verify_webhook_signature_def Let_def expected_digest str_strip_def split: option.splits if_splits)

subsection \<open>Properties\<close>


text \<open>C25: a response is accepted once. After a response with a signature header has been accepted, no
  response with the same header is accepted until the freshness window since then has passed, whatever other
  responses come in between, as long as they are fewer than the entries the replay cache holds.\<close>

theorem idp_response_accepted_once:
  assumes "fst (idp_check mac tf js ip nonce t1 t2 (Some r) (idp_run mac tf js ip es0 [])) = Some p"
    and "re_signature r = Some sig" "sig \<noteq> ''''"
    and "length es < REPLAY_CACHE_MAX_ENTRIES" "list_all (\<lambda>(n, u1, u2, x). u2 - t2 \<le> MAX_AGE_S) es"
    and "re_signature r' = Some sig" "v2 - t2 \<le> MAX_AGE_S"
  shows "fst (idp_check mac tf js ip nonce' v1 v2 (Some r')
    (idp_run mac tf js ip es (snd (idp_check mac tf js ip nonce t1 t2 (Some r) (idp_run mac tf js ip es0 []))))) = None"
proof -
  let ?c0 = "idp_run mac tf js ip es0 []"
  let ?c1 = "snd (idp_check mac tf js ip nonce t1 t2 (Some r) ?c0)"
  have ok0: "cache_ok REPLAY_CACHE_MAX_ENTRIES ?c0" by (rule idp_run_ok) (simp add: cache_ok_def)
  then have od: "od_ok ?c0" by (simp add: cache_ok_def)
  have a: "\<not> fst (seen_or_record MAX_AGE_S REPLAY_CACHE_MAX_ENTRIES sig t2 ?c0)"
      "?c1 = snd (seen_or_record MAX_AGE_S REPLAY_CACHE_MAX_ENTRIES sig t2 ?c0)"
    using idp_check_accepts [OF assms(1)] assms(2,3) by (auto simp: replay_check_def)
  have pos: "0 < REPLAY_CACHE_MAX_ENTRIES" by (simp add: REPLAY_CACHE_MAX_ENTRIES_def)
  from recorded [OF od pos a(1)] a(2) have c1: "od_get ?c1 sig = Some t2" "entries_behind sig ?c1 = 0" by simp_all
  have ok1: "cache_ok REPLAY_CACHE_MAX_ENTRIES ?c1" unfolding a(2) by (rule cache_record_ok [OF ok0])
  have "od_get (idp_run mac tf js ip es ?c1) sig = Some t2"
    by (rule idp_run_keeps [OF ok1 c1(1) _ assms(5)]) (simp add: c1(2) assms(4))
  from purge_keeps [OF this assms(7)] have "fst (replay_check r' v2 (idp_run mac tf js ip es ?c1))"
    using assms(3,6,7) by (simp add: replay_check_def seen_or_record_def Let_def)
  then show ?thesis by (simp add: idp_check_Some)
qed

subsection \<open>What the cache does not catch\<close>

definition demo_js :: idp_json where
  "demo_js = \<lparr>ij_loads = (\<lambda>_. Some (JObj [(pystr_of ''subject_id'', JNull)])), ij_str = (\<lambda>_. ''admin''),
     ij_elements = (\<lambda>_. Some [JNull]), ij_scopes = (\<lambda>_. Some {}), ij_claims = (\<lambda>_. []), ij_name = (\<lambda>_. None)\<rparr>"

definition demo_idp :: idp where
  "demo_idp = \<lparr>ip_secret = Some ''s'', ip_on_failure = ''deny'', ip_require_signed = True, ip_require_nonce = False,
     ip_forward_headers = {}, ip_forward_cookies = {}\<rparr>"

definition demo_resp :: "string \<Rightarrow> string \<Rightarrow> response" where
  "demo_resp sig ts = \<lparr>re_status = 200, re_content = [1], re_signature = Some sig, re_timestamp = Some ts\<rparr>"

definition demo_float :: "string \<Rightarrow> pyfloat option" where
  "demo_float ts = (if ts = ''nan'' then Some PyNan else if ts = ''300'' then Some (PyFin 300) else Some (PyFin 0))"

definition demo_check :: "time \<Rightarrow> string \<Rightarrow> string \<Rightarrow> replay_cache \<Rightarrow> principal option \<times> replay_cache" where
  "demo_check t sig ts c = idp_check (\<lambda>_ _. ''ab'') demo_float demo_js demo_idp ''n'' t t (Some (demo_resp sig ts)) c"

lemma demo_digest:
  "supplied_digest ''sha256=ab'' = ''ab''" "supplied_digest ''SHA256=ab'' = ''ab''" "supplied_digest ''ab'' = ''ab''"
  by (simp_all add: supplied_digest_def str_strip_def str_lower_def latin_lower_def py_space_char_def py_space_def
      char_of_def bit_0)

lemma demo_verifies:
  assumes "supplied_digest sig = ''ab''" "sig \<noteq> ''''" "ts \<noteq> ''''" "\<not> stale_timestamp MAX_AGE_S t (the (demo_float ts))"
  shows "verify_webhook_signature (\<lambda>_ _. ''ab'') demo_float (Some ''s'') body (Some sig) (Some ts) MAX_AGE_S t = Some True"
proof -
  have "str_strip ''s'' = ''s''" by (simp add: str_strip_def py_space_char_def py_space_def)
  moreover obtain v where "demo_float ts = Some v" by (cases "demo_float ts") (auto simp: demo_float_def split: if_splits)
  ultimately show ?thesis
    using assms by (simp add: verify_webhook_signature_def Let_def expected_digest is_ascii_def)
qed

lemma demo_accepts:
  assumes "supplied_digest sig = ''ab''" "sig \<noteq> ''''" "ts \<noteq> ''''" "\<not> stale_timestamp MAX_AGE_S t (the (demo_float ts))"
    and "\<not> fst (replay_check (demo_resp sig ts) t c)"
  shows "fst (demo_check t sig ts c) \<noteq> None \<and> snd (demo_check t sig ts c) = snd (replay_check (demo_resp sig ts) t c)"
  using demo_verifies [OF assms(1-4), of "[1]"] assms(5)
  by (simp add: demo_check_def idp_check_Some demo_js_def demo_idp_def demo_resp_def idp_principal_def nonce_ok_def pystr_of_def)

text \<open>
  The cache is keyed on the header as it was sent, while the signature check strips it and takes its prefix
  in any case, or none. One captured response is accepted once under each spelling of its header.
\<close>

theorem replay_by_spelling:
  "let c1 = snd (demo_check 0 ''sha256=ab'' ''0'' []); c2 = snd (demo_check 1 ''SHA256=ab'' ''0'' c1)
   in fst (demo_check 0 ''sha256=ab'' ''0'' []) \<noteq> None \<and> fst (demo_check 1 ''sha256=ab'' ''0'' c1) = None \<and>
      fst (demo_check 1 ''SHA256=ab'' ''0'' c1) \<noteq> None \<and> fst (demo_check 2 ''ab'' ''0'' c2) \<noteq> None"
proof -
  have f: "\<not> stale_timestamp MAX_AGE_S 0 (the (demo_float ''0''))" "\<not> stale_timestamp MAX_AGE_S 1 (the (demo_float ''0''))"
    "\<not> stale_timestamp MAX_AGE_S 2 (the (demo_float ''0''))"
    by (simp_all add: stale_timestamp_def demo_float_def MAX_AGE_S_def)
  note rc = replay_check_def seen_or_record_def Let_def MAX_AGE_S_def REPLAY_CACHE_MAX_ENTRIES_def demo_resp_def
  have 1: "fst (demo_check 0 ''sha256=ab'' ''0'' []) \<noteq> None \<and> snd (demo_check 0 ''sha256=ab'' ''0'' []) = [(''sha256=ab'', 0)]"
    using demo_accepts [OF demo_digest(1) _ _ f(1), of "[]"] by (simp add: rc)
  have 2: "fst (demo_check 1 ''SHA256=ab'' ''0'' [(''sha256=ab'', 0)]) \<noteq> None \<and>
      snd (demo_check 1 ''SHA256=ab'' ''0'' [(''sha256=ab'', 0)]) = [(''sha256=ab'', 0), (''SHA256=ab'', 1)]"
    using demo_accepts [OF demo_digest(2) _ _ f(2), of "[(''sha256=ab'', 0)]"] by (simp add: rc)
  have 3: "fst (demo_check 2 ''ab'' ''0'' [(''sha256=ab'', 0), (''SHA256=ab'', 1)]) \<noteq> None"
    using demo_accepts [OF demo_digest(3) _ _ f(3), of "[(''sha256=ab'', 0), (''SHA256=ab'', 1)]"] by (simp add: rc)
  have 4: "fst (demo_check 1 ''sha256=ab'' ''0'' [(''sha256=ab'', 0)]) = None"
    by (simp add: demo_check_def idp_check_Some rc)
  from 1 2 3 4 show ?thesis by (simp add: Let_def)
qed

text \<open>
  The signature check takes a timestamp up to a window in the future, and a NaN at any time; the cache
  forgets a response a window after it was seen. The same response is then accepted again.
\<close>

theorem replay_after_window:
  "let c1 = snd (demo_check 0 ''sha256=ab'' ''300'' []); d1 = snd (demo_check 0 ''sha256=ab'' ''nan'' [])
   in fst (demo_check 0 ''sha256=ab'' ''300'' []) \<noteq> None \<and> fst (demo_check 301 ''sha256=ab'' ''300'' c1) \<noteq> None \<and>
      fst (demo_check 0 ''sha256=ab'' ''nan'' []) \<noteq> None \<and> fst (demo_check 9999 ''sha256=ab'' ''nan'' d1) \<noteq> None"
proof -
  have f: "\<not> stale_timestamp MAX_AGE_S 0 (the (demo_float ''300''))" "\<not> stale_timestamp MAX_AGE_S 301 (the (demo_float ''300''))"
    "\<not> stale_timestamp MAX_AGE_S t (the (demo_float ''nan''))" for t
    by (simp_all add: stale_timestamp_def demo_float_def MAX_AGE_S_def)
  note rc = replay_check_def seen_or_record_def Let_def MAX_AGE_S_def REPLAY_CACHE_MAX_ENTRIES_def demo_resp_def
  have 1: "fst (demo_check 0 ''sha256=ab'' ''300'' []) \<noteq> None \<and> snd (demo_check 0 ''sha256=ab'' ''300'' []) = [(''sha256=ab'', 0)]"
    using demo_accepts [OF demo_digest(1) _ _ f(1), of "[]"] by (simp add: rc)
  have 2: "fst (demo_check 301 ''sha256=ab'' ''300'' [(''sha256=ab'', 0)]) \<noteq> None"
    using demo_accepts [OF demo_digest(1) _ _ f(2), of "[(''sha256=ab'', 0)]"] by (simp add: rc)
  have 3: "fst (demo_check 0 ''sha256=ab'' ''nan'' []) \<noteq> None \<and> snd (demo_check 0 ''sha256=ab'' ''nan'' []) = [(''sha256=ab'', 0)]"
    using demo_accepts [OF demo_digest(1) _ _ f(3) [of 0], of "[]"] by (simp add: rc)
  have 4: "fst (demo_check 9999 ''sha256=ab'' ''nan'' [(''sha256=ab'', 0)]) \<noteq> None"
    using demo_accepts [OF demo_digest(1) _ _ f(3) [of 9999], of "[(''sha256=ab'', 0)]"] by (simp add: rc)
  from 1 2 3 4 show ?thesis by (simp add: Let_def)
qed

text \<open>As many other signatures as the cache holds, all within the window, push one out of it.\<close>

lemma purge_none: "list_all (\<lambda>(s, t). now - t \<le> ma) c \<Longrightarrow> purge_stale ma now c = c"
  by (cases c) auto

lemma fold_record:
  "list_all (\<lambda>(s, u). u = t) c \<Longrightarrow> distinct (map fst c @ ks) \<Longrightarrow> length c \<le> mx \<Longrightarrow> 0 \<le> ma \<Longrightarrow>
   fold (\<lambda>s c. snd (seen_or_record ma mx s t c)) ks c = drop (length c + length ks - mx) (c @ map (\<lambda>s. (s, t)) ks)"
proof (induction ks arbitrary: c)
  case (Cons s ks)
  let ?n = "Suc (length c) - mx" and ?c = "c @ [(s, t)]"
  have p: "purge_stale ma t c = c" using Cons.prems(1,4) by (intro purge_none) (auto simp: list_all_iff)
  have fresh: "od_get c s = None" using Cons.prems(2) by (simp add: od_get_None)
  then have r: "snd (seen_or_record ma mx s t c) = drop ?n ?c"
    by (simp add: seen_or_record_def Let_def p od_pop_none)
  have all: "list_all (\<lambda>(s, u). u = t) (drop ?n ?c)"
    using Cons.prems(1) by (auto simp: list_all_iff dest: in_set_dropD)
  have dis: "distinct (map fst (drop ?n ?c) @ ks)"
  proof -
    have ok: "od_ok ?c" and dj: "fst ` set ?c \<inter> set ks = {}" "distinct ks" using Cons.prems(2) by auto
    have "fst ` set (drop ?n ?c) \<subseteq> fst ` set ?c" by (rule image_mono [OF set_drop_subset])
    with drop_ok [OF ok, of ?n] dj show ?thesis unfolding distinct_append set_map by blast
  qed
  have "drop (length (drop ?n ?c) + length ks - mx) (drop ?n ?c @ map (\<lambda>s. (s, t)) ks) =
      drop (length c + length (s # ks) - mx) (?c @ map (\<lambda>s. (s, t)) ks)"
  proof (cases "Suc (length c) \<le> mx")
    case False
    then have l: "length c = mx" using Cons.prems(3) by simp
    have d: "drop (length ks) (drop (Suc 0) ?c @ m) = drop (Suc (length ks)) (?c @ m)" for m
      by (cases c) simp_all
    show ?thesis using d [of "map (\<lambda>s. (s, t)) ks"] by (simp add: l del: drop_append append_assoc)
  qed simp
  then show ?case using Cons.IH [OF all dis _ Cons.prems(4)] Cons.prems(3) r by simp
qed (simp add: list_all_iff)

theorem eviction_forgets:
  assumes "distinct (sig # ks)" "length ks = mx" "0 < mx" "0 \<le> ma"
  shows "\<not> fst (seen_or_record ma mx sig t (fold (\<lambda>s c. snd (seen_or_record ma mx s t c)) (sig # ks) []))"
proof -
  have "snd (seen_or_record ma mx sig t []) = [(sig, t)]" using assms(3) by (simp add: seen_or_record_def)
  then have "fold (\<lambda>s c. snd (seen_or_record ma mx s t c)) (sig # ks) [] = map (\<lambda>s. (s, t)) ks"
    using fold_record [of t "[(sig, t)]" ks mx ma] assms by simp
  moreover have "od_get (map (\<lambda>s. (s, t)) ks) sig = None" using assms(1) by (auto simp: od_get_None)
  moreover have "purge_stale ma t (map (\<lambda>s. (s, t)) ks) = map (\<lambda>s. (s, t)) ks"
    using assms(4) by (intro purge_none) (auto simp: list_all_iff)
  ultimately show ?thesis by (simp add: seen_or_record_def Let_def)
qed

subsection \<open>Witnesses\<close>

lemma demo_first:
  "\<exists>p. fst (idp_check (\<lambda>_ _. ''ab'') demo_float demo_js demo_idp ''n'' 0 0 (Some (demo_resp ''sha256=ab'' ''0'')) []) = Some p"
proof -
  have f: "\<not> stale_timestamp MAX_AGE_S 0 (the (demo_float ''0''))"
    by (simp add: stale_timestamp_def demo_float_def MAX_AGE_S_def)
  show ?thesis
    using demo_accepts [OF demo_digest(1) _ _ f, of "[]"]
    by (simp add: demo_check_def replay_check_def seen_or_record_def Let_def demo_resp_def)
qed

lemma idp_resolve_fst:
  "fst (idp_check mac tf js ip nonce t1 t2 resp c) = Some p \<Longrightarrow> fst (idp_resolve mac tf js ip nonce t1 t2 resp c) = Some p"
  by (auto simp: idp_resolve_def split: prod.splits)


lemma idp_response_accepted_once_witness:
  "fst (idp_check (\<lambda>_ _. ''ab'') demo_float demo_js demo_idp ''m'' 300 300 (Some (demo_resp ''sha256=ab'' ''0''))
     (idp_run (\<lambda>_ _. ''ab'') demo_float demo_js demo_idp [(''z'', 1, 2, None)]
       (snd (idp_check (\<lambda>_ _. ''ab'') demo_float demo_js demo_idp ''n'' 0 0 (Some (demo_resp ''sha256=ab'' ''0''))
         (idp_run (\<lambda>_ _. ''ab'') demo_float demo_js demo_idp [] []))))) = None"
proof -
  obtain p where p: "fst (idp_check (\<lambda>_ _. ''ab'') demo_float demo_js demo_idp ''n'' 0 0 (Some (demo_resp ''sha256=ab'' ''0''))
      (idp_run (\<lambda>_ _. ''ab'') demo_float demo_js demo_idp [] [])) = Some p"
    using demo_first by (auto simp: idp_run_def)
  show ?thesis
    by (rule idp_response_accepted_once [OF p])
      (simp_all add: demo_resp_def REPLAY_CACHE_MAX_ENTRIES_def MAX_AGE_S_def)
qed

lemma eviction_forgets_witness:
  "\<not> fst (seen_or_record 300 2 ''a'' 0 (fold (\<lambda>s c. snd (seen_or_record 300 2 s 0 c)) [''a'', ''b'', ''c''] []))"
  by (rule eviction_forgets) simp_all

text \<open>Only what the allow-lists name is forwarded.\<close>

lemma idp_forwards_allowed:
  "list_all (\<lambda>(k, v). str_lower k \<in> ip_forward_headers ip) (ic_headers (idp_request mac dumps ip hs cs nonce ts)) \<and>
   list_all (\<lambda>(k, v). k \<in> ip_forward_cookies ip) (ic_cookies (idp_request mac dumps ip hs cs nonce ts))"
  by (auto simp: idp_request_def Let_def list_all_iff)

end
