(* ===== verification/Spec2Isabelle.thy ===== *)
theory Spec2Isabelle
  imports HubQuota ControlFrameStream Tunnel RateLimit Approvals Resume CommandSplitter LineEditor Authz ShareViewers
    RfbFilter Invites EventBus AuditChain FanOutProps
    IacProps ViewerSockets Webhooks RuntimeOutput SessionRequests WebhookIdentity
begin

text \<open>
  Verification of the control core of provide-uterm, a server that relays terminal sessions between
  workers (which own a terminal), browsers (which watch it and may type) and REST clients (which may
  take it over). Paths below are relative to \<open>src/packages\<close>; \<open>uterm/\<close> is
  \<open>provide-uterm/src/provide/uterm/\<close>, \<open>server/\<close> is
  \<open>provide-uterm-server/src/provide/uterm/server/\<close> and \<open>hub/\<close> is \<open>server/bridge/hub/\<close>.

  How the parts interact. A worker speaks the control channel (\<open>uterm/control_channel.py\<close>):
  terminal data with control messages in band. The hub keeps one state per worker and decides who
  may type: a dashboard owner (a browser's WebSocket), a REST lease, or everybody in open mode. Every
  operation takes the hub's lock for short sections, and those that send while they hold an
  ownership take the worker's input fence around several such sections. Events of a worker go to its
  ring, to the event bus and to the browsers. Around the hub stand the policies: authorization,
  share-viewer revocation, rate limits, approvals of risky commands, resume tokens, tunnel invites,
  and filters for the input of a line-oriented or graphical session.

  Theories and what they model.
  \<^item> \<open>Prelude\<close>: ordered dictionaries (Python's \<open>dict\<close> with its insertion order), clamping, time, the
    fact collections and the interfaces as locales: \<open>safe_system\<close> (an invariant kept by every
    step), \<open>exclusive_lease\<close> (a lease only its holder or time ends) and \<open>single_use\<close> (what was
    taken once is gone).
  \<^item> \<open>Utf8\<close>, \<open>Json\<close>: Python strings as code points, strict UTF-8, JSON values and the depth check.
  \<^item> \<open>ControlFrame\<close>, \<open>ControlFrameProofs\<close>, \<open>ControlFrameStream\<close>: the DLE/STX codec and its incremental
    decoder. Round trip over any cutting of the stream, independence of the cutting, exactness of
    the canonical frame check, bounded buffer and settled state after every call.
  \<^item> \<open>Coordinator\<close>: \<open>uterm/bridge/coordinator.py\<close>, the single-session arbiter, an interpretation of
    \<open>exclusive_lease\<close>.
  \<^item> \<open>HubState\<close> (worker state, registry, lease predicates), \<open>HubLease\<close> (\<open>hub/lease.py\<close>), \<open>HubConn\<close>
    (\<open>hub/connection.py\<close>, \<open>hub/connection_hijack.py\<close>, the registry side of \<open>hub/router_impl.py\<close>),
    \<open>HubEvents\<close> (event ring, startup buffering), \<open>HubSteps\<close> and \<open>HubSystem\<close> (the interleaved system:
    one step per section under the lock, tasks between their sections as data), \<open>HubInvariant\<close>,
    \<open>HubRuns\<close> (the invariant over every interleaving, an interpretation of \<open>safe_system\<close>) and
    \<open>HubProps\<close> (exclusivity of leases, ownership epochs, sends in flight, reservations, modes).
  \<^item> \<open>HubQuota\<close>: the per-principal limit on browser connections, exact on every run, and the one way
    in which a slot is lost.
  \<^item> \<open>EventBus\<close> and \<open>WatchPattern\<close>: \<open>hub/event_bus.py\<close>, bounded subscriber queues and end marks, and
    the check of watch patterns, proved exact on the patterns it understands.
  \<^item> \<open>FanOut\<close> and \<open>OutputCapture\<close>: \<open>server/bridge/fanout/\<close>, one command for many sessions; \<open>FanOutProps\<close>:
    who may reach a session, one result for each member, both modes alike, output watched before
    input, and held commands as an interpretation of \<open>single_use\<close> over the approval store.
  \<^item> \<open>Egress\<close>: \<open>server/egress.py\<close>, \<open>server/_net.py\<close> and the address check of \<open>server/webhooks.py\<close> over
    Python's address classes. \<open>Webhooks\<close>: the webhook registry, the guards before every delivery,
    the kill switch and the retries.
  \<^item> \<open>IacNegotiate\<close> and \<open>IacProps\<close>: \<open>gateway/_iac_negotiate.py\<close> (of the server package), the telnet
    parser, refined to a byte-at-a-time automaton, with its round trips and bounds.
  \<^item> \<open>AuditChain\<close>: \<open>server/audit_chain.py\<close> and the start-up resumption of
    \<open>server/app/factory_components.py\<close>. An untouched log verifies, another list of records that does
    has the same texts (or breaks the hash), and when the start-up check alarms by mistake.
  \<^item> \<open>RateLimit\<close>: \<open>server/bridge/ratelimit.py\<close>, \<open>hub/limiter.py\<close>. \<open>Approvals\<close>: \<open>hub/approvals.py\<close>.
    \<open>Resume\<close>: the in-memory store of \<open>hub/resume.py\<close>. \<open>CommandSplitter\<close>: the splitter of
    \<open>hub/semantics.py\<close>. \<open>Invites\<close>: \<open>server/tunnel_invites.py\<close>, \<open>tunnel/token_hash.py\<close>. \<open>Tunnel\<close>:
    \<open>tunnel/protocol.py\<close>. Approvals, Resume and Invites interpret \<open>single_use\<close>.
  \<^item> \<open>Authz\<close>: the role policy and the webhook provider of \<open>server/authorization.py\<close>,
    \<open>server/auth_roles.py\<close>, \<open>uterm/bridge/policy.py\<close>. \<open>ShareViewers\<close>: the revocation tables and
    the checks of \<open>AuthorizationService\<close>, an interpretation of \<open>safe_system\<close>.
  \<^item> \<open>ApiKeys\<close>: \<open>server/api_keys.py\<close>, \<open>server/routes/api_keys.py\<close> and the principal of a key; the scan of
    \<open>validate\<close> as a lookup by key id, revocation, tenants (an interpretation of \<open>safe_system\<close>).
    \<open>IdentityProviders\<close>: \<open>server/auth.py\<close>, who a connection is and where its roles come from.
    \<open>WebhookIdentity\<close>: \<open>server/auth_webhook.py\<close>, \<open>server/webhook_signing.py\<close>, the identity webhook with the
    signature check, replay cache (an interpretation of \<open>safe_system\<close>) and nonce of its responses.
  \<^item> \<open>ViewerRevocation\<close> (\<open>server/routes/viewers.py\<close>, \<open>server/viewer_revocation.py\<close>): reading and
    recording a revoke. \<open>HubSockets\<close>: only a registration adds a browser to the hub. \<open>ViewerSockets\<close>:
    revokes, registrations and event streams interleaved with the hub of \<open>HubSystem\<close>, and that no
    revoked viewer slips between the scan and the re-check.
  \<^item> \<open>HostedRuntime\<close>: the life cycle of a hosted session's runtime (\<open>server/runtime.py\<close>,
    \<open>runtime_helpers.py\<close>, \<open>runtime_connection.py\<close>): the run loop, \<open>start\<close>, \<open>stop\<close> and \<open>restart\<close> as the
    turns between their awaits; with one caller at a time at most one loop runs and a finished
    \<open>stop\<close> leaves nothing behind (an interpretation of \<open>safe_system\<close>). \<open>RuntimeOutput\<close>: its output
    queue and byte account, settled screens, and the annotations found twice and recorded once.
  \<^item> \<open>SessionRegistry\<close>: \<open>server/registry.py\<close>, creation, removal, automatic deletion, adoption, start,
    stop and restart of sessions as interleaved coroutines over the tables. \<open>RegistryProps\<close>: who
    holds an id, what becomes of it, that a teardown ends and wakes who waits for it (an
    interpretation of \<open>safe_system\<close>, over every interleaving). \<open>SessionRequests\<close>: the payload of a
    creation with the validators of \<open>server/config_schema_session.py\<close>, and the update of a definition.
  \<^item> \<open>LineEditor\<close>: \<open>uterm/line_editor.py\<close>, refined to a text with a cursor, and a terminal row that
    reads the escape sequences it emits. \<open>RfbFilter\<close>: \<open>uterm/vnc/rfb_filter.py\<close> over 8-bit words.

  Conventions. A method is a function from the state it reads to its result and the state it leaves;
  an exception is a value (\<open>Inl\<close>), a Python \<open>None\<close> is \<open>None\<close>. Clocks are arguments. Objects compared
  with \<open>is\<close> carry an identity (\<open>st_ident\<close>, \<open>su_id\<close>); sockets are numbers. Floats are reals, so
  nothing here depends on rounding. Loops without structural recursion have termination proofs. The
  decoder's loop counts its passes as the code does (one more than the buffer is long, and running
  out is a protocol error); \<open>drain_loop_refines\<close> shows that they suffice.

  Parameters. The JSON codec, SHA-256, BLAKE2b, HMAC, the verification of JWTs, random tokens, the
  regular-expression engine, HTTP and the injection callback are arguments of the definitions that use them; a property
  that relies on one of them says what it needs of it (that the decoder reads back what the encoder
  wrote, say), and its witness instantiates it.

  Theorems that record a defect of the code: \<open>webhook_role_unsigned\<close>, \<open>browser_quota_slot_lost\<close>,
  \<open>open_mode_under_rest_lease\<close>, \<open>watch_pattern_bypass\<close>, \<open>audit_false_alarm\<close>,
  \<open>grantee_deletes_group\<close>, \<open>iac_split_close\<close>, \<open>metadata_zone_bypass\<close>, \<open>webhook_mapped_bypass\<close>,
  \<open>restart_revives_removed\<close>, \<open>grace_not_renewed\<close>, \<open>double_restart_forks\<close>, \<open>restart_keeps_bytes\<close>,
  \<open>overflow_uncounted\<close>, \<open>system_key_unusable\<close>, \<open>mint_breaks_validation\<close>, \<open>replay_by_spelling\<close>,
  \<open>replay_after_window\<close>, \<open>eviction_forgets\<close>.

  Not modelled. Socket and file I/O, asyncio scheduling below the granularity of a section under the
  lock, the embedder's policy and redaction hooks, the HTTP routes, process and configuration
  start-up, connectors and gateways, the terminal emulator (a third-party library) and rendering, the
  client and platform packages, and the Go, TypeScript and C# ports. Within the modelled files: the
  approval store's legacy \<open>on_expired\<close> hook, the resume store on the control plane, logging and
  metrics; the text filters beside the emulator.
\<close>

end
